(* ===== verification/Go_Prelude.thy ===== *)
theory Go_Prelude
  imports Main "HOL-Library.AList" "HOL-Library.Word"
begin

text \<open>
  The parts of Go that every component uses: 64-bit integers with their wrap-around, instants and
  durations of package \<open>time\<close>, byte strings with the functions of \<open>strings\<close>,
  \<open>strconv\<close> and \<open>unicode/utf8\<close> that the sources call, Go maps as association lists,
  and the collections of simplification rules shared by the component theories.
\<close>

named_theorems go_defs "definitions unfolded when a single operation is evaluated"
named_theorems inv_intros "invariant preservation lemmas"

section \<open>64-bit integers\<close>

text \<open>
  An \<open>int64\<close> is an \<^typ>\<open>int\<close> in range; arithmetic that can leave the range is written with
  \<open>wrap64\<close>, Go's two's complement wrap-around.
\<close>

type_synonym int64 = int

definition max_int64 :: int where "max_int64 = 9223372036854775807"
definition min_int64 :: int where "min_int64 = - 9223372036854775808"

definition in_int64 :: "int \<Rightarrow> bool" where
  "in_int64 x \<longleftrightarrow> min_int64 \<le> x \<and> x \<le> max_int64"

definition wrap64 :: "int \<Rightarrow> int" where
  "wrap64 x = (x + 9223372036854775808) mod 18446744073709551616 - 9223372036854775808"

lemma wrap64_id [simp]: "in_int64 x \<Longrightarrow> wrap64 x = x"
  by (simp add: wrap64_def in_int64_def max_int64_def min_int64_def)

lemma wrap64_range [simp]: "in_int64 (wrap64 x)"
proof -
  have "0 \<le> (x + 9223372036854775808) mod 18446744073709551616"
    and "(x + 9223372036854775808) mod 18446744073709551616 < 18446744073709551616"
    by simp_all
  then show ?thesis
    unfolding wrap64_def in_int64_def max_int64_def min_int64_def by linarith
qed

lemma in_int64_uminus: "in_int64 x \<Longrightarrow> x \<noteq> min_int64 \<Longrightarrow> in_int64 (- x)"
  by (simp add: in_int64_def max_int64_def min_int64_def)

section \<open>Instants and durations\<close>

text \<open>
  A \<open>time.Time\<close> is its number of nanoseconds since Go's zero time (1 January of year 1, UTC), so
  \<open>time.Time{}\<close> is 0; a \<open>time.Duration\<close> is an \<open>int64\<close> of nanoseconds. \<open>Sub\<close> saturates as
  Go's does; \<open>Add\<close> stays in the range of \<open>time.Time\<close>, which is far larger than any instant used.
\<close>

type_synonym gtime = int
type_synonym gduration = int

definition zero_time :: gtime where "zero_time = 0"

definition is_zero_time :: "gtime \<Rightarrow> bool" where "is_zero_time t \<longleftrightarrow> t = zero_time"

definition t_add :: "gtime \<Rightarrow> gduration \<Rightarrow> gtime" where "t_add t d = t + d"

definition t_sub :: "gtime \<Rightarrow> gtime \<Rightarrow> gduration" where
  "t_sub t u = (if t - u > max_int64 then max_int64
                else if t - u < min_int64 then min_int64 else t - u)"

definition t_before :: "gtime \<Rightarrow> gtime \<Rightarrow> bool" where "t_before t u \<longleftrightarrow> t < u"
definition t_after :: "gtime \<Rightarrow> gtime \<Rightarrow> bool" where "t_after t u \<longleftrightarrow> u < t"

definition unix_epoch :: gtime where "unix_epoch = 62135596800000000000"

definition unix_nano :: "gtime \<Rightarrow> int64" where "unix_nano t = wrap64 (t - unix_epoch)"

definition millisecond :: gduration where "millisecond = 1000000"
definition second :: gduration where "second = 1000000000"
definition minute :: gduration where "minute = 60000000000"
definition hour :: gduration where "hour = 3600000000000"

text \<open>Go's integer division truncates towards zero.\<close>

definition quot :: "int \<Rightarrow> int \<Rightarrow> int" where
  "quot a b = (if (a < 0) = (b < 0) then \<bar>a\<bar> div \<bar>b\<bar> else - (\<bar>a\<bar> div \<bar>b\<bar>))"

lemma quot_nonneg: "0 \<le> a \<Longrightarrow> 0 < b \<Longrightarrow> quot a b = a div b"
  by (simp add: quot_def)

lemmas time_defs = zero_time_def is_zero_time_def t_add_def t_before_def t_after_def

lemma t_sub_exact: "in_int64 (t - u) \<Longrightarrow> t_sub t u = t - u"
  by (simp add: t_sub_def in_int64_def)

lemma t_sub_pos_iff [simp]: "0 < t_sub t u \<longleftrightarrow> u < t"
  by (simp add: t_sub_def max_int64_def min_int64_def)

lemma t_sub_nonneg_iff [simp]: "0 \<le> t_sub t u \<longleftrightarrow> u \<le> t"
  by (simp add: t_sub_def max_int64_def min_int64_def)

lemma t_sub_gt_iff: "0 \<le> d \<Longrightarrow> d < max_int64 \<Longrightarrow> d < t_sub t u \<longleftrightarrow> u + d < t"
  by (auto simp: t_sub_def min_int64_def max_int64_def)

lemma t_sub_less_iff: "0 \<le> d \<Longrightarrow> d \<le> max_int64 \<Longrightarrow> t_sub t u < d \<longleftrightarrow> t < u + d"
  by (auto simp: t_sub_def min_int64_def max_int64_def)

section \<open>Byte strings\<close>

text \<open>
  A Go string is a sequence of bytes, here a \<^typ>\<open>string\<close> of 8-bit characters. \<open>byte_at\<close> reads a
  byte as a number.
\<close>

definition byte_of :: "char \<Rightarrow> nat" where "byte_of c = of_char c"

definition is_cont :: "char \<Rightarrow> bool" where
  "is_cont c \<longleftrightarrow> 128 \<le> byte_of c \<and> byte_of c < 192"

definition byte_between :: "nat \<Rightarrow> char \<Rightarrow> nat \<Rightarrow> bool" where
  "byte_between lo c hi \<longleftrightarrow> lo \<le> byte_of c \<and> byte_of c \<le> hi"

text \<open>
  \<open>rune_at s\<close> is the size of the first rune of \<open>s\<close> and whether it is well formed, as
  \<open>utf8.DecodeRuneInString\<close> reports them: an ill-formed byte is one rune of size 1.
\<close>

definition rune_at :: "string \<Rightarrow> nat \<times> bool" where
  "rune_at s = (case s of [] \<Rightarrow> (0, False) | a # s1 \<Rightarrow>
     (if byte_of a < 128 then (1, True)
      else (case s1 of [] \<Rightarrow> (1, False) | b # s2 \<Rightarrow>
        (if byte_between 194 a 223 then (if is_cont b then (2, True) else (1, False))
         else (case s2 of [] \<Rightarrow> (1, False) | c # s3 \<Rightarrow>
           (if byte_of a = 224 then
              (if byte_between 160 b 191 \<and> is_cont c then (3, True) else (1, False))
            else if byte_of a = 237 then
              (if byte_between 128 b 159 \<and> is_cont c then (3, True) else (1, False))
            else if byte_between 225 a 239 then
              (if is_cont b \<and> is_cont c then (3, True) else (1, False))
            else (case s3 of [] \<Rightarrow> (1, False) | d # _ \<Rightarrow>
              (if byte_of a = 240 then
                 (if byte_between 144 b 191 \<and> is_cont c \<and> is_cont d then (4, True) else (1, False))
               else if byte_between 241 a 243 then
                 (if is_cont b \<and> is_cont c \<and> is_cont d then (4, True) else (1, False))
               else if byte_of a = 244 then
                 (if byte_between 128 b 143 \<and> is_cont c \<and> is_cont d then (4, True) else (1, False))
               else (1, False)))))))))"

lemma rune_at_pos: "s \<noteq> [] \<Longrightarrow> 0 < fst (rune_at s)"
  by (auto simp: rune_at_def split: list.splits)

lemma rune_at_le: "fst (rune_at s) \<le> length s"
  by (auto simp: rune_at_def split: list.splits)

text \<open>\<open>len([]rune(s))\<close>.\<close>

function rune_count :: "string \<Rightarrow> nat" where
  "rune_count s = (if s = [] then 0 else Suc (rune_count (drop (fst (rune_at s)) s)))"
  by pat_completeness auto
termination
  by (relation "measure length") (use rune_at_pos in fastforce)+

declare rune_count.simps [simp del]

text \<open>\<open>utf8.ValidString(s)\<close>.\<close>

function valid_utf8 :: "string \<Rightarrow> bool" where
  "valid_utf8 s = (if s = [] then True
     else snd (rune_at s) \<and> valid_utf8 (drop (fst (rune_at s)) s))"
  by pat_completeness auto
termination
  by (relation "measure length") (use rune_at_pos in fastforce)+

declare valid_utf8.simps [simp del]

lemma valid_utf8_Nil [simp]: "valid_utf8 []"
  by (simp add: valid_utf8.simps)

text \<open>\<open>strings.TrimSpace\<close>: the UTF-8 encodings of the runes with Unicode's White_Space property.\<close>

definition space_seqs :: "string list" where
  "space_seqs = [[CHR 0x09], [CHR 0x0A], [CHR 0x0B], [CHR 0x0C], [CHR 0x0D], [CHR 0x20],
     [CHR 0xC2, CHR 0x85], [CHR 0xC2, CHR 0xA0], [CHR 0xE1, CHR 0x9A, CHR 0x80],
     [CHR 0xE2, CHR 0x80, CHR 0x80], [CHR 0xE2, CHR 0x80, CHR 0x81],
     [CHR 0xE2, CHR 0x80, CHR 0x82], [CHR 0xE2, CHR 0x80, CHR 0x83],
     [CHR 0xE2, CHR 0x80, CHR 0x84], [CHR 0xE2, CHR 0x80, CHR 0x85],
     [CHR 0xE2, CHR 0x80, CHR 0x86], [CHR 0xE2, CHR 0x80, CHR 0x87],
     [CHR 0xE2, CHR 0x80, CHR 0x88], [CHR 0xE2, CHR 0x80, CHR 0x89],
     [CHR 0xE2, CHR 0x80, CHR 0x8A], [CHR 0xE2, CHR 0x80, CHR 0xA8],
     [CHR 0xE2, CHR 0x80, CHR 0xA9], [CHR 0xE2, CHR 0x80, CHR 0xAF],
     [CHR 0xE2, CHR 0x81, CHR 0x9F], [CHR 0xE3, CHR 0x80, CHR 0x80]]"

definition lead_len :: "string list \<Rightarrow> string \<Rightarrow> nat" where
  "lead_len ps s = (case find (\<lambda>p. take (length p) s = p) ps of None \<Rightarrow> 0 | Some p \<Rightarrow> length p)"

function strip_lead :: "string list \<Rightarrow> string \<Rightarrow> string" where
  "strip_lead ps s = (if s = [] \<or> lead_len ps s = 0 then s else strip_lead ps (drop (lead_len ps s) s))"
  by pat_completeness auto
termination by (relation "measure (\<lambda>(ps, s). length s)") auto

declare strip_lead.simps [simp del]

definition trim_space :: "string \<Rightarrow> string" where
  "trim_space s = rev (strip_lead (map rev space_seqs) (rev (strip_lead space_seqs s)))"

lemma length_strip_lead: "length (strip_lead ps s) \<le> length s"
proof (induction ps s rule: strip_lead.induct)
  case (1 ps s)
  show ?case
  proof (cases "s = [] \<or> lead_len ps s = 0")
    case True
    then show ?thesis by (auto simp: strip_lead.simps [of ps s])
  next
    case False
    with 1 have "length (strip_lead ps (drop (lead_len ps s) s)) \<le> length (drop (lead_len ps s) s)"
      by simp
    with False show ?thesis by (simp add: strip_lead.simps [of ps s])
  qed
qed

lemma length_trim_space: "length (trim_space s) \<le> length s"
  unfolding trim_space_def using length_strip_lead le_trans by (metis length_rev)

lemma set_strip_lead: "set (strip_lead ps s) \<subseteq> set s"
proof (induction ps s rule: strip_lead.induct)
  case (1 ps s)
  then show ?case
    by (subst strip_lead.simps) (auto dest: in_set_dropD)
qed

text \<open>A character that no space contains survives trimming.\<close>

lemma strip_lead_keeps:
  assumes "\<forall>p \<in> set ps. c \<notin> set p" and "c \<in> set s"
  shows "c \<in> set (strip_lead ps s)"
  using assms
proof (induction ps s rule: strip_lead.induct)
  case (1 ps s)
  show ?case
  proof (cases "s = [] \<or> lead_len ps s = 0")
    case True
    with 1 show ?thesis by (auto simp: strip_lead.simps [of ps s])
  next
    case False
    then obtain p where p: "p \<in> set ps" "take (length p) s = p" "lead_len ps s = length p"
      by (auto simp: lead_len_def find_Some_iff split: option.splits) (metis nth_mem)
    have "set s = set (take (length p) s) \<union> set (drop (length p) s)"
      by (metis append_take_drop_id set_append)
    with 1(2,3) p have "c \<in> set (drop (lead_len ps s) s)" by auto
    with 1 False show ?thesis by (simp add: strip_lead.simps [of ps s])
  qed
qed

lemma trim_space_keeps: "\<forall>p \<in> set space_seqs. c \<notin> set p \<Longrightarrow> c \<in> set s \<Longrightarrow> c \<in> set (trim_space s)"
  by (simp add: trim_space_def strip_lead_keeps)

text \<open>
  \<open>strings.ToLower\<close> and \<open>ToUpper\<close> on the runes that matter to the sources: the ASCII letters, and
  for lower case the two runes outside ASCII whose lower case is an ASCII letter (U+0130 and
  U+212A). Other runes outside ASCII map to runes outside ASCII and are left as they are.
\<close>

definition lower_char :: "char \<Rightarrow> char" where
  "lower_char c = (if byte_between 65 c 90 then char_of (byte_of c + 32) else c)"

definition upper_char :: "char \<Rightarrow> char" where
  "upper_char c = (if byte_between 97 c 122 then char_of (byte_of c - 32) else c)"

function to_lower :: "string \<Rightarrow> string" where
  "to_lower s = (case s of [] \<Rightarrow> [] | c # cs \<Rightarrow>
     (if take 2 s = [CHR 0xC4, CHR 0xB0] then CHR ''i'' # to_lower (drop 2 s)
      else if take 3 s = [CHR 0xE2, CHR 0x84, CHR 0xAA] then CHR ''k'' # to_lower (drop 3 s)
      else lower_char c # to_lower cs))"
  by pat_completeness auto
termination by (relation "measure length") auto

declare to_lower.simps [simp del]

definition to_upper :: "string \<Rightarrow> string" where "to_upper s = map upper_char s"

section \<open>Decimal numerals\<close>

fun show_nat :: "nat \<Rightarrow> string" where
  "show_nat n = (if n < 10 then [char_of (48 + n)] else show_nat (n div 10) @ [char_of (48 + n mod 10)])"

declare show_nat.simps [simp del]

text \<open>\<open>strconv.Itoa\<close>, and \<open>%d\<close> of \<open>fmt\<close>.\<close>

definition itoa :: "int \<Rightarrow> string" where
  "itoa x = (if x < 0 then CHR ''-'' # show_nat (nat (- x)) else show_nat (nat x))"

text \<open>\<open>%0*d\<close>: padded with zeros to a width.\<close>

definition show_nat_pad :: "nat \<Rightarrow> nat \<Rightarrow> string" where
  "show_nat_pad w n = replicate (w - length (show_nat n)) (CHR ''0'') @ show_nat n"

definition is_digit :: "char \<Rightarrow> bool" where "is_digit c \<longleftrightarrow> byte_between 48 c 57"

text \<open>The value of a digit string, the inverse of \<open>show_nat\<close>.\<close>

definition digits_val :: "string \<Rightarrow> nat" where
  "digits_val s = foldl (\<lambda>acc c. acc * 10 + (byte_of c - 48)) 0 s"

lemma digits_val_snoc [simp]: "digits_val (s @ [c]) = digits_val s * 10 + (byte_of c - 48)"
  by (simp add: digits_val_def)

lemma byte_of_char_of [simp]: "n < 256 \<Longrightarrow> byte_of (char_of n) = n"
  by (simp add: byte_of_def of_char_of)

lemma digits_val_show_nat [simp]: "digits_val (show_nat n) = n"
proof (induction n rule: show_nat.induct)
  case (1 n)
  show ?case
  proof (cases "n < 10")
    case True
    then show ?thesis by (simp add: show_nat.simps [of n] digits_val_def)
  next
    case False
    with 1 show ?thesis by (simp add: show_nat.simps [of n])
  qed
qed

lemma show_nat_inj [simp]: "show_nat m = show_nat n \<longleftrightarrow> m = n"
  by (metis digits_val_show_nat)

lemma show_nat_digits: "c \<in> set (show_nat n) \<Longrightarrow> is_digit c"
proof (induction n rule: show_nat.induct)
  case (1 n)
  show ?case
  proof (cases "n < 10")
    case True
    with 1 show ?thesis by (auto simp: show_nat.simps [of n] is_digit_def byte_between_def)
  next
    case False
    with 1 show ?thesis
      by (auto simp: show_nat.simps [of n] is_digit_def byte_between_def)
  qed
qed

lemma show_nat_not_Nil [simp]: "show_nat n \<noteq> []"
  by (simp add: show_nat.simps [of n])

lemma length_show_nat: "0 < k \<Longrightarrow> n < 10 ^ k \<Longrightarrow> length (show_nat n) \<le> k"
proof (induction k arbitrary: n)
  case 0
  then show ?case by simp
next
  case (Suc k)
  show ?case
  proof (cases "n < 10")
    case True
    then show ?thesis by (simp add: show_nat.simps [of n])
  next
    case False
    then have "0 < k" using Suc.prems by (cases k) auto
    moreover have "n div 10 < 10 ^ k" using Suc.prems by (simp add: less_mult_imp_div_less)
    ultimately have "length (show_nat (n div 10)) \<le> k" by (rule Suc.IH)
    with False show ?thesis by (simp add: show_nat.simps [of n])
  qed
qed

lemma digits_val_zeros: "digits_val (replicate k (CHR ''0'') @ s) = digits_val s"
  by (induction k) (simp_all add: digits_val_def byte_of_def)

lemma digits_val_pad [simp]: "digits_val (show_nat_pad w n) = n"
  by (simp add: show_nat_pad_def digits_val_zeros)

lemma length_show_nat_pad: "0 < w \<Longrightarrow> n < 10 ^ w \<Longrightarrow> length (show_nat_pad w n) = w"
  using length_show_nat [of w n] by (simp add: show_nat_pad_def)

text \<open>\<open>strconv.Atoi\<close>: an optional sign and decimal digits, in range; \<open>None\<close> is its error.\<close>

definition atoi :: "string \<Rightarrow> int option" where
  "atoi s = (let (neg, ds) = (case s of [] \<Rightarrow> (False, [])
       | c # cs \<Rightarrow> if c = CHR ''-'' then (True, cs) else if c = CHR ''+'' then (False, cs) else (False, s));
     v = (if neg then - int (digits_val ds) else int (digits_val ds))
     in if ds = [] \<or> \<not> list_all is_digit ds \<or> \<not> in_int64 v then None else Some v)"

lemma show_nat_no_sign:
  "show_nat n = c # cs \<Longrightarrow> c \<noteq> CHR ''-'' \<and> c \<noteq> CHR ''+''"
  using show_nat_digits [of c n] by (auto simp: is_digit_def byte_between_def byte_of_def)

lemma atoi_itoa:
  assumes "in_int64 x" shows "atoi (itoa x) = Some x"
proof (cases "x < 0")
  case True
  then show ?thesis
    using assms by (simp add: atoi_def itoa_def list_all_iff show_nat_digits)
next
  case False
  obtain c cs where c: "show_nat (nat x) = c # cs" by (cases "show_nat (nat x)") auto
  with show_nat_no_sign [OF c] False assms digits_val_show_nat [of "nat x"] show_nat_digits [of _ "nat x"]
  show ?thesis by (simp add: atoi_def itoa_def list_all_iff)
qed

section \<open>Go maps\<close>

text \<open>
  A Go map is an association list with distinct keys. The list's order carries no meaning: an
  operation whose result depends on the order in which a \<open>range\<close> statement visits the map takes
  that order as an argument.
\<close>

type_synonym ('k, 'v) gomap = "('k \<times> 'v) list"

definition gm_ok :: "('k, 'v) gomap \<Rightarrow> bool" where "gm_ok m \<longleftrightarrow> distinct (map fst m)"

abbreviation gm_get :: "('k, 'v) gomap \<Rightarrow> 'k \<Rightarrow> 'v option" where "gm_get m k \<equiv> map_of m k"
abbreviation gm_put :: "'k \<Rightarrow> 'v \<Rightarrow> ('k, 'v) gomap \<Rightarrow> ('k, 'v) gomap" where
  "gm_put k v m \<equiv> AList.update k v m"
abbreviation gm_del :: "'k \<Rightarrow> ('k, 'v) gomap \<Rightarrow> ('k, 'v) gomap" where "gm_del k m \<equiv> AList.delete k m"
abbreviation gm_len :: "('k, 'v) gomap \<Rightarrow> nat" where "gm_len m \<equiv> length m"

lemma gm_ok_Nil [simp]: "gm_ok []"
  by (simp add: gm_ok_def)

lemma gm_ok_put [simp]: "gm_ok m \<Longrightarrow> gm_ok (gm_put k v m)"
  by (simp add: gm_ok_def distinct_update)

lemma gm_ok_del [simp]: "gm_ok m \<Longrightarrow> gm_ok (gm_del k m)"
  by (simp add: gm_ok_def distinct_delete)

lemma gm_ok_filter [simp]: "gm_ok m \<Longrightarrow> gm_ok (filter P m)"
  by (simp add: gm_ok_def distinct_map_filter)

lemma gm_get_put [simp]: "gm_get (gm_put k v m) k' = (if k' = k then Some v else gm_get m k')"
  by (simp add: update_conv')

lemma gm_get_del [simp]: "gm_get (gm_del k m) k' = (if k' = k then None else gm_get m k')"
  by (simp add: delete_conv')

lemma gm_get_None_iff: "gm_get m k = None \<longleftrightarrow> k \<notin> fst ` set m"
  by (rule map_of_eq_None_iff)

lemma gm_get_filter:
  "gm_ok m \<Longrightarrow> gm_get (filter P m) k = (case gm_get m k of None \<Rightarrow> None | Some v \<Rightarrow> if P (k, v) then Some v else None)"
  by (induction m) (auto simp: gm_ok_def map_of_eq_None_iff split: option.splits dest: map_of_SomeD)

lemma gm_len_put:
  "gm_len (gm_put k v m) = (if gm_get m k = None then Suc (gm_len m) else gm_len m)"
  by (induction m) auto

lemma gm_del_filter: "gm_del k m = filter (\<lambda>x. fst x \<noteq> k) m"
  by (auto simp: AList.delete_eq intro: filter_cong)

lemma gm_len_del:
  "gm_ok m \<Longrightarrow> gm_len (gm_del k m) = (if gm_get m k = None then gm_len m else gm_len m - 1)"
proof (induction m)
  case (Cons a m)
  then have "gm_len (gm_del k m) = (if gm_get m k = None then gm_len m else gm_len m - 1)"
    by (simp add: gm_ok_def)
  moreover have "gm_get m (fst a) = None"
    using Cons.prems by (simp add: gm_ok_def map_of_eq_None_iff)
  moreover have "gm_get m k \<noteq> None \<Longrightarrow> 0 < gm_len m"
    by (cases m) auto
  ultimately show ?case by (cases a) auto
qed simp

lemma gm_len_del_le: "gm_len (gm_del k m) \<le> gm_len m"
  by (rule length_delete_le)

end
