(* ===== verification/Go_Errors.thy ===== *)
theory Go_Errors
  imports Go_Prelude
begin

text \<open>
  The application errors of \<open>backend/internal/pkg/errors\<close>: a status with code, reason, message and
  metadata, an optional cause, and the helpers that read a chain of wrapped errors. \<open>PlainErr\<close> is
  an error of another package with its text and \<open>WrapErr\<close> one made by \<open>fmt.Errorf\<close> with \<open>%w\<close>.
  A nil error is \<open>None\<close> where a function takes or returns one.
\<close>

datatype go_error =
    AppErr (err_code: int) (err_reason: string) (err_message: string)
      (err_meta: "(string, string) gomap option") (err_cause: "go_error option")
  | PlainErr string
  | WrapErr string go_error

definition wrap32 :: "int \<Rightarrow> int" where
  "wrap32 x = (x + 2147483648) mod 4294967296 - 2147483648"

definition unknown_code :: int where "unknown_code = 500"
definition unknown_reason :: string where "unknown_reason = ''''"
definition unknown_message :: string where "unknown_message = ''internal error''"

definition err_new :: "int \<Rightarrow> string \<Rightarrow> string \<Rightarrow> go_error" where
  "err_new code reason message = AppErr (wrap32 code) reason message None None"

fun err_clone :: "go_error \<Rightarrow> go_error" where
  "err_clone (AppErr c r m md cause) = AppErr c r m (map_option (\<lambda>m. map (\<lambda>(k, v). (k, v)) m) md) cause"
| "err_clone e = e"

fun with_cause :: "go_error \<Rightarrow> go_error option \<Rightarrow> go_error" where
  "with_cause (AppErr c r m md _) cause = AppErr c r m md cause"
| "with_cause e _ = e"

fun with_metadata :: "go_error \<Rightarrow> (string, string) gomap option \<Rightarrow> go_error" where
  "with_metadata (AppErr c r m _ cause) md = AppErr c r m md cause"
| "with_metadata e _ = e"

text \<open>\<open>errors.As(err, *ApplicationError)\<close>: the first application error of the chain.\<close>

fun as_app :: "go_error \<Rightarrow> go_error option" where
  "as_app (AppErr c r m md cause) = Some (AppErr c r m md cause)"
| "as_app (PlainErr _) = None"
| "as_app (WrapErr _ e) = as_app e"

text \<open>The method \<open>Is\<close>: same code and same reason.\<close>

fun app_is :: "go_error \<Rightarrow> go_error \<Rightarrow> bool" where
  "app_is (AppErr c r m md cause) target =
     (case as_app target of Some (AppErr c' r' _ _ _) \<Rightarrow> c' = c \<and> r' = r | _ \<Rightarrow> False)"
| "app_is _ _ = False"

text \<open>\<open>errors.Is\<close>: equality or \<open>Is\<close> at some error of the chain.\<close>

fun errors_is :: "go_error \<Rightarrow> go_error \<Rightarrow> bool" where
  "errors_is (AppErr c r m md cause) target =
     (AppErr c r m md cause = target \<or> app_is (AppErr c r m md cause) target \<or>
      (case cause of None \<Rightarrow> False | Some e \<Rightarrow> errors_is e target))"
| "errors_is (PlainErr s) target = (PlainErr s = target)"
| "errors_is (WrapErr s e) target = (WrapErr s e = target \<or> errors_is e target)"

fun from_error :: "go_error option \<Rightarrow> go_error option" where
  "from_error None = None"
| "from_error (Some e) = (case as_app e of Some a \<Rightarrow> Some a
     | None \<Rightarrow> Some (with_cause (err_new unknown_code unknown_reason unknown_message) (Some e)))"

definition code_of :: "go_error option \<Rightarrow> int" where
  "code_of err = (case from_error err of None \<Rightarrow> 200 | Some e \<Rightarrow> err_code e)"

definition reason_of :: "go_error option \<Rightarrow> string" where
  "reason_of err = (case from_error err of None \<Rightarrow> unknown_reason | Some e \<Rightarrow> err_reason e)"

definition message_of :: "go_error option \<Rightarrow> string" where
  "message_of err = (case from_error err of None \<Rightarrow> '''' | Some e \<Rightarrow> err_message e)"

record http_status =
  hs_code :: int
  hs_reason :: string
  hs_message :: string
  hs_metadata :: "(string, string) gomap option"

definition to_http :: "go_error option \<Rightarrow> int \<times> http_status" where
  "to_http err = (case from_error err of
     None \<Rightarrow> (200, \<lparr>hs_code = 200, hs_reason = '''', hs_message = '''', hs_metadata = None\<rparr>)
   | Some e \<Rightarrow> (err_code e, \<lparr>hs_code = err_code e, hs_reason = err_reason e,
       hs_message = err_message e, hs_metadata = err_meta e\<rparr>))"

definition bad_request :: "string \<Rightarrow> string \<Rightarrow> go_error" where "bad_request = err_new 400"
definition unauthorized :: "string \<Rightarrow> string \<Rightarrow> go_error" where "unauthorized = err_new 401"
definition forbidden :: "string \<Rightarrow> string \<Rightarrow> go_error" where "forbidden = err_new 403"
definition not_found :: "string \<Rightarrow> string \<Rightarrow> go_error" where "not_found = err_new 404"
definition conflict_err :: "string \<Rightarrow> string \<Rightarrow> go_error" where "conflict_err = err_new 409"
definition internal_server :: "string \<Rightarrow> string \<Rightarrow> go_error" where "internal_server = err_new 500"
definition service_unavailable :: "string \<Rightarrow> string \<Rightarrow> go_error" where
  "service_unavailable = err_new 503"

lemmas err_constructors = bad_request_def unauthorized_def forbidden_def not_found_def
  conflict_err_def internal_server_def service_unavailable_def err_new_def wrap32_def

lemma err_clone_id [simp]: "err_clone e = e"
  by (cases e) (simp_all add: option.map_id)

lemma as_app_is_app: "as_app e = Some a \<Longrightarrow> \<exists>c r m md cause. a = AppErr c r m md cause"
  by (induction e) auto

lemma from_error_app: "from_error (Some e) = Some a \<Longrightarrow> \<exists>c r m md cause. a = AppErr c r m md cause"
  by (auto simp: err_new_def dest: as_app_is_app split: option.splits)

lemma errors_is_with_cause:
  "errors_is (with_cause (err_new c r m) x) (err_new c r m)"
  by (simp add: err_new_def)

lemma errors_is_with_metadata:
  "errors_is (with_metadata (err_new c r m) x) (err_new c r m)"
  by (simp add: err_new_def)

lemma errors_is_refl [simp]: "errors_is e e"
  by (cases e) simp_all

end
