(* ===== verification/Sql_Table.thy ===== *)
theory Sql_Table
  imports Go_Prelude
begin

text \<open>
  A relational table with a serial primary key: the rows in insertion order and the last key its
  sequence gave out. The statements of the repositories are \<open>INSERT\<close>, \<open>SELECT\<close> of the first row
  of a condition, \<open>UPDATE\<close> and \<open>DELETE\<close> with a condition; the last two also give the number of
  affected rows. A sequence never repeats a key; the gaps that a rolled-back insert leaves in a
  real sequence are not modelled. The locale \<open>keyed_table\<close> is the contract of a table whose rows
  also have a unique index that its updates do not touch.
\<close>

record 'r table =
  t_seq :: int
  t_rows :: "'r list"

definition tab_empty :: "'r table" where "tab_empty = \<lparr>t_seq = 0, t_rows = []\<rparr>"

definition tab_insert :: "(int \<Rightarrow> 'r) \<Rightarrow> 'r table \<Rightarrow> int \<times> 'r table" where
  "tab_insert mk t = (let i = t_seq t + 1 in (i, \<lparr>t_seq = i, t_rows = t_rows t @ [mk i]\<rparr>))"

definition tab_find :: "('r \<Rightarrow> bool) \<Rightarrow> 'r table \<Rightarrow> 'r option" where
  "tab_find P t = find P (t_rows t)"

definition tab_select :: "('r \<Rightarrow> bool) \<Rightarrow> 'r table \<Rightarrow> 'r list" where
  "tab_select P t = filter P (t_rows t)"

definition tab_update :: "('r \<Rightarrow> bool) \<Rightarrow> ('r \<Rightarrow> 'r) \<Rightarrow> 'r table \<Rightarrow> nat \<times> 'r table" where
  "tab_update P f t = (length (filter P (t_rows t)),
     t\<lparr>t_rows := map (\<lambda>r. if P r then f r else r) (t_rows t)\<rparr>)"

definition tab_delete :: "('r \<Rightarrow> bool) \<Rightarrow> 'r table \<Rightarrow> nat \<times> 'r table" where
  "tab_delete P t = (length (filter P (t_rows t)), t\<lparr>t_rows := filter (\<lambda>r. \<not> P r) (t_rows t)\<rparr>)"

lemmas tab_defs = tab_empty_def tab_insert_def tab_find_def tab_select_def tab_update_def tab_delete_def

lemma t_rows_insert [simp]: "t_rows (snd (tab_insert mk t)) = t_rows t @ [mk (t_seq t + 1)]"
  by (simp add: tab_insert_def Let_def)

lemma t_rows_update [simp]:
  "t_rows (snd (tab_update P f t)) = map (\<lambda>r. if P r then f r else r) (t_rows t)"
  by (simp add: tab_update_def)

lemma fst_insert [simp]: "fst (tab_insert mk t) = t_seq t + 1"
  by (simp add: tab_insert_def Let_def)

lemma t_seq_insert [simp]: "t_seq (snd (tab_insert mk t)) = t_seq t + 1"
  by (simp add: tab_insert_def Let_def)

lemma t_seq_update [simp]: "t_seq (snd (tab_update P f t)) = t_seq t"
  by (simp add: tab_update_def)

lemma tab_find_Some: "tab_find P t = Some r \<Longrightarrow> r \<in> set (t_rows t) \<and> P r"
  by (auto simp: tab_find_def find_Some_iff)

lemma tab_find_None: "tab_find P t = None \<longleftrightarrow> (\<forall>r \<in> set (t_rows t). \<not> P r)"
  by (auto simp: tab_find_def find_None_iff)

lemma find_append: "find P (xs @ ys) = (case find P xs of None \<Rightarrow> find P ys | Some x \<Rightarrow> Some x)"
  by (induction xs) auto

lemma tab_find_insert:
  "tab_find P (snd (tab_insert mk t)) =
     (case tab_find P t of Some r \<Rightarrow> Some r
      | None \<Rightarrow> if P (mk (t_seq t + 1)) then Some (mk (t_seq t + 1)) else None)"
  by (auto simp: tab_find_def find_append split: option.splits)

text \<open>
  The contract: \<open>rid\<close> is the primary key, \<open>key\<close> the unique index, and \<open>upd u\<close> ranges over the
  assignments of the component's \<open>UPDATE\<close> statements. \<open>tab_ok\<close> is what the database guarantees.
\<close>

definition tab_ok :: "('r \<Rightarrow> int) \<Rightarrow> ('r \<Rightarrow> 'k) \<Rightarrow> 'r table \<Rightarrow> bool" where
  "tab_ok rid key t \<longleftrightarrow> distinct (map rid (t_rows t)) \<and> sorted (map rid (t_rows t)) \<and> distinct (map key (t_rows t)) \<and>
     (\<forall>r \<in> set (t_rows t). 0 < rid r \<and> rid r \<le> t_seq t) \<and> 0 \<le> t_seq t"

lemma tab_ok_empty [simp]: "tab_ok rid key tab_empty"
  by (simp add: tab_ok_def tab_empty_def)

lemma tab_ok_append:
  assumes "tab_ok rid key t" and "rid r = t_seq t + 1" and "tab_find (\<lambda>x. key x = key r) t = None"
  shows "tab_ok rid key \<lparr>t_seq = t_seq t + 1, t_rows = t_rows t @ [r]\<rparr>"
proof -
  have "key r \<notin> key ` set (t_rows t)" and "rid r \<notin> rid ` set (t_rows t)"
    using assms by (fastforce simp: tab_ok_def tab_find_None)+
  with assms show ?thesis by (fastforce simp: tab_ok_def sorted_append)
qed

locale keyed_table =
  fixes rid :: "'r \<Rightarrow> int" and key :: "'r \<Rightarrow> 'k" and upd :: "'u \<Rightarrow> 'r \<Rightarrow> 'r"
  assumes upd_rid: "rid (upd u r) = rid r"
    and upd_key: "key (upd u r) = key r"
begin

abbreviation lookup :: "'r table \<Rightarrow> 'k \<Rightarrow> 'r option" where
  "lookup t k \<equiv> tab_find (\<lambda>r. key r = k) t"

lemma insert_ok:
  assumes "tab_ok rid key t" and "\<And>i. rid (mk i) = i" and "\<And>i. key (mk i) = k"
    and "lookup t k = None"
  shows "tab_ok rid key (snd (tab_insert mk t))"
proof -
  have "k \<notin> key ` set (t_rows t)" and "t_seq t + 1 \<notin> rid ` set (t_rows t)"
    using assms by (fastforce simp: tab_ok_def tab_find_None)+
  with assms show ?thesis by (fastforce simp: tab_ok_def sorted_append)
qed

lemma upd_comp: "rid \<circ> (\<lambda>r. if P r then upd u r else r) = rid"
  "key \<circ> (\<lambda>r. if P r then upd u r else r) = key"
  by (auto simp: upd_rid upd_key)

lemma update_ok: "tab_ok rid key t \<Longrightarrow> tab_ok rid key (snd (tab_update P (upd u) t))"
  unfolding tab_ok_def tab_update_def by (auto simp: upd_comp upd_rid)

lemma delete_ok: "tab_ok rid key t \<Longrightarrow> tab_ok rid key (snd (tab_delete P t))"
  unfolding tab_ok_def tab_delete_def by (auto simp: distinct_map_filter intro: sorted_filter)

lemma row_unique_key:
  "tab_ok rid key t \<Longrightarrow> r \<in> set (t_rows t) \<Longrightarrow> r' \<in> set (t_rows t) \<Longrightarrow> key r = key r' \<Longrightarrow> r = r'"
  by (auto simp: tab_ok_def distinct_map inj_on_def)

lemma row_unique_rid:
  "tab_ok rid key t \<Longrightarrow> r \<in> set (t_rows t) \<Longrightarrow> r' \<in> set (t_rows t) \<Longrightarrow> rid r = rid r' \<Longrightarrow> r = r'"
  by (auto simp: tab_ok_def distinct_map inj_on_def)

lemma lookup_row:
  assumes "tab_ok rid key t" and "r \<in> set (t_rows t)"
  shows "lookup t (key r) = Some r"
proof (cases "lookup t (key r)")
  case None
  with assms(2) show ?thesis by (auto simp: tab_find_None)
next
  case (Some r')
  then have "r' \<in> set (t_rows t)" "key r' = key r" by (auto dest: tab_find_Some)
  with assms Some show ?thesis by (auto dest: row_unique_key)
qed

lemma lookup_iff:
  "tab_ok rid key t \<Longrightarrow> lookup t k = Some r \<longleftrightarrow> r \<in> set (t_rows t) \<and> key r = k"
  using lookup_row tab_find_Some by fastforce

lemma lookup_update_map:
  "find (\<lambda>r. key r = k) (map (\<lambda>r. if P r then upd u r else r) rs) =
     map_option (\<lambda>r. if P r then upd u r else r) (find (\<lambda>r. key r = k) rs)"
  by (induction rs) (auto simp: upd_key)

lemma lookup_update:
  "lookup (snd (tab_update P (upd u) t)) k =
     map_option (\<lambda>r. if P r then upd u r else r) (lookup t k)"
  by (simp add: tab_find_def lookup_update_map)

lemma lookup_insert:
  assumes "\<And>i. key (mk i) = k0" and "lookup t k0 = None"
  shows "lookup (snd (tab_insert mk t)) k = (if k = k0 then Some (mk (t_seq t + 1)) else lookup t k)"
  using assms by (auto simp: tab_find_insert split: option.splits)

lemma lookup_delete:
  assumes "tab_ok rid key t"
  shows "lookup (snd (tab_delete P t)) k =
    (case lookup t k of None \<Rightarrow> None | Some r \<Rightarrow> if P r then None else Some r)"
proof -
  have ok': "tab_ok rid key (snd (tab_delete P t))" using assms by (rule delete_ok)
  show ?thesis
  proof (cases "lookup t k")
    case None
    then have "lookup (snd (tab_delete P t)) k = None"
      by (auto simp: tab_find_None tab_delete_def)
    with None show ?thesis by simp
  next
    case (Some r)
    then have r: "r \<in> set (t_rows t)" "key r = k" by (auto dest: tab_find_Some)
    show ?thesis
    proof (cases "P r")
      case True
      have "\<not> (\<exists>r' \<in> set (t_rows t). \<not> P r' \<and> key r' = k)"
        using assms r True by (auto dest: row_unique_key)
      then have "lookup (snd (tab_delete P t)) k = None"
        by (auto simp: tab_find_None tab_delete_def)
      with Some True show ?thesis by simp
    next
      case False
      then have "r \<in> set (t_rows (snd (tab_delete P t)))" using r by (simp add: tab_delete_def)
      with ok' have "lookup (snd (tab_delete P t)) (key r) = Some r" by (rule lookup_row)
      with Some False r show ?thesis by simp
    qed
  qed
qed

text \<open>An update by primary key touches the one row that has it.\<close>

lemma count_by_rid:
  assumes "tab_ok rid key t" and "r \<in> set (t_rows t)"
  shows "length (filter (\<lambda>x. rid x = rid r \<and> Q x) (t_rows t)) = (if Q r then 1 else 0)"
proof -
  have "filter (\<lambda>x. rid x = rid r \<and> Q x) rs = (if Q r then [r] else [])"
    if "distinct (map rid rs)" "r \<in> set rs" for rs
    using that
  proof (induction rs)
    case (Cons a rs)
    show ?case
    proof (cases "a = r")
      case True
      with Cons.prems have "filter (\<lambda>x. rid x = rid r \<and> Q x) rs = []"
        by (auto simp: filter_empty_conv image_iff)
      with True show ?thesis by simp
    next
      case False
      with Cons show ?thesis by auto
    qed
  qed simp
  with assms show ?thesis by (simp add: tab_ok_def)
qed

end

text \<open>Sums over the rows of a table.\<close>

lemma sum_list_map_update:
  fixes g :: "'r \<Rightarrow> int"
  assumes "distinct (map rid rs)" and "r \<in> set rs"
  shows "sum_list (map g (map (\<lambda>x. if rid x = rid r then f x else x) rs)) =
    sum_list (map g rs) - g r + g (f r)"
  using assms
proof (induction rs)
  case (Cons a rs)
  show ?case
  proof (cases "a = r")
    case True
    with Cons.prems have "map (\<lambda>x. if rid x = rid r then f x else x) rs = rs"
      by (auto intro!: map_idI simp: image_iff)
    with True show ?thesis by simp
  next
    case False
    with Cons have "rid a \<noteq> rid r" by auto
    with Cons False show ?thesis by simp
  qed
qed simp

end
