(* ===== verification/Idem_Store.thy ===== *)
theory Idem_Store
  imports Go_Errors Sql_Table
begin

text \<open>
  The idempotency store: the record and the repository interface of
  \<open>backend/internal/service/idempotency.go\<close> and its SQL implementation
  \<open>backend/internal/repository/idempotency_repo.go\<close> over the table \<open>idempotency_records\<close>.
  \<open>idem_repo\<close> is the Go interface as a record of functions over an abstract store; the locale
  \<open>idem_store\<close> is its contract, interpreted on the SQL model at the end of the theory.
  A statement of the database may fail: the store carries the outcomes of the next statements.
\<close>

definition status_processing :: string where "status_processing = ''processing''"
definition status_succeeded :: string where "status_succeeded = ''succeeded''"
definition status_failed_retryable :: string where "status_failed_retryable = ''failed_retryable''"

lemma status_distinct [simp]:
  "status_processing \<noteq> status_succeeded" "status_succeeded \<noteq> status_processing"
  "status_processing \<noteq> status_failed_retryable" "status_failed_retryable \<noteq> status_processing"
  "status_succeeded \<noteq> status_failed_retryable" "status_failed_retryable \<noteq> status_succeeded"
  by (simp_all add: status_processing_def status_succeeded_def status_failed_retryable_def)

record idem_record =
  ir_id :: int64
  ir_scope :: string
  ir_key_hash :: string
  ir_fingerprint :: string
  ir_status :: string
  ir_resp_status :: "int option"
  ir_resp_body :: "string option"
  ir_err_reason :: "string option"
  ir_locked_until :: "gtime option"
  ir_expires_at :: gtime
  ir_created_at :: gtime
  ir_updated_at :: gtime

type_synonym idem_key = "string \<times> string"

definition ir_key :: "idem_record \<Rightarrow> idem_key" where "ir_key r = (ir_scope r, ir_key_hash r)"

text \<open>The interface \<open>IdempotencyRepository\<close>.\<close>

record 's idem_repo =
  r_create :: "idem_record \<Rightarrow> 's \<Rightarrow> (go_error + bool \<times> idem_record) \<times> 's"
  r_get :: "string \<Rightarrow> string \<Rightarrow> 's \<Rightarrow> (go_error + idem_record option) \<times> 's"
  r_reclaim :: "int64 \<Rightarrow> string \<Rightarrow> gtime \<Rightarrow> gtime \<Rightarrow> gtime \<Rightarrow> 's \<Rightarrow> (go_error + bool) \<times> 's"
  r_extend :: "int64 \<Rightarrow> string \<Rightarrow> gtime \<Rightarrow> gtime \<Rightarrow> 's \<Rightarrow> (go_error + bool) \<times> 's"
  r_mark_ok :: "int64 \<Rightarrow> int \<Rightarrow> string \<Rightarrow> gtime \<Rightarrow> 's \<Rightarrow> go_error option \<times> 's"
  r_mark_fail :: "int64 \<Rightarrow> string \<Rightarrow> gtime \<Rightarrow> gtime \<Rightarrow> 's \<Rightarrow> go_error option \<times> 's"
  r_delete_expired :: "gtime \<Rightarrow> int \<Rightarrow> 's \<Rightarrow> (go_error + int64) \<times> 's"

section \<open>The assignments of the UPDATE statements\<close>

datatype idem_upd =
    UReclaim gtime gtime gtime
  | UExtend gtime gtime gtime
  | USucceeded int string gtime gtime
  | UFailed string gtime gtime gtime

fun apply_upd :: "idem_upd \<Rightarrow> idem_record \<Rightarrow> idem_record" where
  "apply_upd (UReclaim locked expires at) r = r\<lparr>ir_status := status_processing,
     ir_locked_until := Some locked, ir_err_reason := None, ir_updated_at := at, ir_expires_at := expires\<rparr>"
| "apply_upd (UExtend locked expires at) r = r\<lparr>ir_locked_until := Some locked,
     ir_expires_at := expires, ir_updated_at := at\<rparr>"
| "apply_upd (USucceeded st body expires at) r = r\<lparr>ir_status := status_succeeded,
     ir_resp_status := Some st, ir_resp_body := Some body, ir_err_reason := None,
     ir_locked_until := None, ir_expires_at := expires, ir_updated_at := at\<rparr>"
| "apply_upd (UFailed reason locked expires at) r = r\<lparr>ir_status := status_failed_retryable,
     ir_err_reason := Some reason, ir_locked_until := Some locked, ir_expires_at := expires,
     ir_updated_at := at\<rparr>"

text \<open>\<open>locked_until IS NULL OR locked_until <= now\<close>.\<close>

definition lease_free :: "idem_record \<Rightarrow> gtime \<Rightarrow> bool" where
  "lease_free r now \<longleftrightarrow> (case ir_locked_until r of None \<Rightarrow> True | Some l \<Rightarrow> l \<le> now)"

section \<open>The SQL implementation\<close>

record idem_db =
  idb_tab :: "idem_record table"
  idb_now :: gtime
  idb_faults :: "bool list"

definition db_error :: go_error where "db_error = PlainErr ''database error''"

text \<open>Whether the next statement reaches the database; a failed statement changes nothing.\<close>

definition sql_guard :: "idem_db \<Rightarrow> bool \<times> idem_db" where
  "sql_guard db = (case idb_faults db of [] \<Rightarrow> (True, db)
     | f # fs \<Rightarrow> (\<not> f, db\<lparr>idb_faults := fs\<rparr>))"

definition sql_update :: "(idem_record \<Rightarrow> bool) \<Rightarrow> idem_upd \<Rightarrow> idem_db \<Rightarrow> (go_error + nat) \<times> idem_db" where
  "sql_update P u db0 = (case sql_guard db0 of (False, db) \<Rightarrow> (Inl db_error, db)
     | (True, db) \<Rightarrow> (case tab_update P (apply_upd u) (idb_tab db) of
         (n, t') \<Rightarrow> (Inr n, db\<lparr>idb_tab := t'\<rparr>)))"

definition sql_create_processing ::
  "idem_record \<Rightarrow> idem_db \<Rightarrow> (go_error + bool \<times> idem_record) \<times> idem_db" where
  "sql_create_processing rec db0 = (case sql_guard db0 of (False, db) \<Rightarrow> (Inl db_error, db)
     | (True, db) \<Rightarrow>
       (case tab_find (\<lambda>r. ir_key r = ir_key rec) (idb_tab db) of
          Some _ \<Rightarrow> (Inr (False, rec), db)
        | None \<Rightarrow>
          (case tab_insert (\<lambda>i. \<lparr>ir_id = i, ir_scope = ir_scope rec, ir_key_hash = ir_key_hash rec,
               ir_fingerprint = ir_fingerprint rec, ir_status = ir_status rec,
               ir_resp_status = None, ir_resp_body = None, ir_err_reason = None,
               ir_locked_until = ir_locked_until rec, ir_expires_at = ir_expires_at rec,
               ir_created_at = idb_now db, ir_updated_at = idb_now db\<rparr>) (idb_tab db) of
             (i, t') \<Rightarrow> (Inr (True, rec\<lparr>ir_id := i, ir_created_at := idb_now db,
                                 ir_updated_at := idb_now db\<rparr>), db\<lparr>idb_tab := t'\<rparr>))))"

definition sql_get :: "string \<Rightarrow> string \<Rightarrow> idem_db \<Rightarrow> (go_error + idem_record option) \<times> idem_db" where
  "sql_get scope key_hash db0 = (case sql_guard db0 of (False, db) \<Rightarrow> (Inl db_error, db)
     | (True, db) \<Rightarrow> (Inr (tab_find (\<lambda>r. ir_key r = (scope, key_hash)) (idb_tab db)), db))"

text \<open>An update whose number of affected rows the caller tests.\<close>

definition sql_cas :: "(idem_record \<Rightarrow> bool) \<Rightarrow> idem_upd \<Rightarrow> idem_db \<Rightarrow> (go_error + bool) \<times> idem_db" where
  "sql_cas P u db = (case sql_update P u db of (Inl e, db') \<Rightarrow> (Inl e, db')
     | (Inr affected, db') \<Rightarrow> (Inr (0 < affected), db'))"

definition sql_try_reclaim ::
  "int64 \<Rightarrow> string \<Rightarrow> gtime \<Rightarrow> gtime \<Rightarrow> gtime \<Rightarrow> idem_db \<Rightarrow> (go_error + bool) \<times> idem_db" where
  "sql_try_reclaim i from_status now locked expires db =
     sql_cas (\<lambda>r. ir_id r = i \<and> ir_status r = from_status \<and> lease_free r now)
       (UReclaim locked expires (idb_now db)) db"

definition sql_extend_lock ::
  "int64 \<Rightarrow> string \<Rightarrow> gtime \<Rightarrow> gtime \<Rightarrow> idem_db \<Rightarrow> (go_error + bool) \<times> idem_db" where
  "sql_extend_lock i fingerprint locked expires db =
     sql_cas (\<lambda>r. ir_id r = i \<and> ir_status r = status_processing \<and> ir_fingerprint r = fingerprint)
       (UExtend locked expires (idb_now db)) db"

definition sql_mark_succeeded ::
  "int64 \<Rightarrow> int \<Rightarrow> string \<Rightarrow> gtime \<Rightarrow> idem_db \<Rightarrow> go_error option \<times> idem_db" where
  "sql_mark_succeeded i st body expires db =
     (case sql_update (\<lambda>r. ir_id r = i) (USucceeded st body expires (idb_now db)) db of
        (Inl e, db') \<Rightarrow> (Some e, db')
      | (Inr _, db') \<Rightarrow> (None, db'))"

definition sql_mark_failed ::
  "int64 \<Rightarrow> string \<Rightarrow> gtime \<Rightarrow> gtime \<Rightarrow> idem_db \<Rightarrow> go_error option \<times> idem_db" where
  "sql_mark_failed i reason locked expires db =
     (case sql_update (\<lambda>r. ir_id r = i) (UFailed reason locked expires (idb_now db)) db of
        (Inl e, db') \<Rightarrow> (Some e, db')
      | (Inr _, db') \<Rightarrow> (None, db'))"

definition sql_delete_expired :: "gtime \<Rightarrow> int \<Rightarrow> idem_db \<Rightarrow> (go_error + int64) \<times> idem_db" where
  "sql_delete_expired now limit0 db0 = (let limit = (if limit0 \<le> 0 then 500 else limit0) in
     (case sql_guard db0 of (False, db) \<Rightarrow> (Inl db_error, db)
      | (True, db) \<Rightarrow>
        (let victims = map ir_id (take (nat limit)
               (sort_key ir_expires_at (tab_select (\<lambda>r. ir_expires_at r \<le> now) (idb_tab db))))
         in (case tab_delete (\<lambda>r. ir_id r \<in> set victims) (idb_tab db) of
               (n, t') \<Rightarrow> (Inr (int n), db\<lparr>idb_tab := t'\<rparr>)))))"

definition sql_idem_repo :: "idem_db idem_repo" where
  "sql_idem_repo = \<lparr>r_create = sql_create_processing, r_get = sql_get, r_reclaim = sql_try_reclaim,
     r_extend = sql_extend_lock, r_mark_ok = sql_mark_succeeded, r_mark_fail = sql_mark_failed,
     r_delete_expired = sql_delete_expired\<rparr>"

section \<open>The contract of the interface\<close>

text \<open>
  \<open>recs\<close> reads the records a store holds by scope and key hash. A call that returns an error
  leaves them as they were; the other laws are what the methods promise: at most one record per
  key and per identifier, \<open>CreateProcessing\<close> owns exactly a key that had no record,
  \<open>TryReclaim\<close> is a compare-and-set on status and lease, and no update but the cleanup makes a
  record disappear.
\<close>

definition with_id :: "('k \<Rightarrow> idem_record option) \<Rightarrow> 'k \<Rightarrow> int64 \<Rightarrow> idem_record \<Rightarrow> bool" where
  "with_id m k i q \<longleftrightarrow> m k = Some q \<and> ir_id q = i"

locale idem_store =
  fixes repo :: "'s idem_repo"
    and recs :: "'s \<Rightarrow> idem_key \<Rightarrow> idem_record option"
    and store_ok :: "'s \<Rightarrow> bool"
  assumes create_keeps: "store_ok s \<Longrightarrow> store_ok (snd (r_create repo r s))"
    and get_keeps: "store_ok s \<Longrightarrow> store_ok (snd (r_get repo sc kh s))"
    and reclaim_keeps: "store_ok s \<Longrightarrow> store_ok (snd (r_reclaim repo i st n l x s))"
    and extend_keeps: "store_ok s \<Longrightarrow> store_ok (snd (r_extend repo i fp l x s))"
    and mark_ok_keeps: "store_ok s \<Longrightarrow> store_ok (snd (r_mark_ok repo i c b x s))"
    and mark_fail_keeps: "store_ok s \<Longrightarrow> store_ok (snd (r_mark_fail repo i why l x s))"
    and key_of: "store_ok s \<Longrightarrow> recs s k = Some q \<Longrightarrow> ir_key q = k \<and> 0 < ir_id q"
    and id_unique: "store_ok s \<Longrightarrow> recs s k = Some q \<Longrightarrow> recs s k' = Some q' \<Longrightarrow> ir_id q = ir_id q' \<Longrightarrow> k = k'"
    and create_err: "store_ok s \<Longrightarrow> r_create repo r s = (Inl e, s') \<Longrightarrow> recs s' = recs s"
    and create_new: "store_ok s \<Longrightarrow> r_create repo r s = (Inr (True, r'), s') \<Longrightarrow>
      recs s (ir_key r) = None \<and> 0 < ir_id r' \<and>
      (\<exists>row. recs s' = (recs s)(ir_key r \<mapsto> row) \<and> ir_id row = ir_id r' \<and>
        ir_fingerprint row = ir_fingerprint r \<and> ir_status row = ir_status r \<and>
        ir_locked_until row = ir_locked_until r \<and> ir_expires_at row = ir_expires_at r)"
    and create_dup: "store_ok s \<Longrightarrow> r_create repo r s = (Inr (False, r'), s') \<Longrightarrow>
      r' = r \<and> recs s' = recs s \<and> recs s (ir_key r) \<noteq> None"
    and get_err: "store_ok s \<Longrightarrow> r_get repo sc kh s = (Inl e, s') \<Longrightarrow> recs s' = recs s"
    and get_val: "store_ok s \<Longrightarrow> r_get repo sc kh s = (Inr ro, s') \<Longrightarrow> ro = recs s (sc, kh) \<and> recs s' = recs s"
    and reclaim_err: "store_ok s \<Longrightarrow> r_reclaim repo i st n l x s = (Inl e, s') \<Longrightarrow> recs s' = recs s"
    and reclaim_yes: "store_ok s \<Longrightarrow> r_reclaim repo i st n l x s = (Inr True, s') \<Longrightarrow>
      \<exists>k q at. with_id (recs s) k i q \<and> ir_status q = st \<and> lease_free q n \<and>
        recs s' = (recs s)(k \<mapsto> apply_upd (UReclaim l x at) q)"
    and reclaim_no: "store_ok s \<Longrightarrow> r_reclaim repo i st n l x s = (Inr False, s') \<Longrightarrow>
      recs s' = recs s \<and> \<not> (\<exists>k q. with_id (recs s) k i q \<and> ir_status q = st \<and> lease_free q n)"
    and extend_err: "store_ok s \<Longrightarrow> r_extend repo i fp l x s = (Inl e, s') \<Longrightarrow> recs s' = recs s"
    and extend_yes: "store_ok s \<Longrightarrow> r_extend repo i fp l x s = (Inr True, s') \<Longrightarrow>
      \<exists>k q at. with_id (recs s) k i q \<and> ir_status q = status_processing \<and> ir_fingerprint q = fp \<and>
        recs s' = (recs s)(k \<mapsto> apply_upd (UExtend l x at) q)"
    and extend_no: "store_ok s \<Longrightarrow> r_extend repo i fp l x s = (Inr False, s') \<Longrightarrow>
      recs s' = recs s \<and> \<not> (\<exists>k q. with_id (recs s) k i q \<and> ir_status q = status_processing \<and> ir_fingerprint q = fp)"
    and mark_ok_err: "store_ok s \<Longrightarrow> r_mark_ok repo i c b x s = (Some e, s') \<Longrightarrow> recs s' = recs s"
    and mark_ok_done: "store_ok s \<Longrightarrow> r_mark_ok repo i c b x s = (None, s') \<Longrightarrow> with_id (recs s) k i q \<Longrightarrow>
      \<exists>at. recs s' = (recs s)(k \<mapsto> apply_upd (USucceeded c b x at) q)"
    and mark_fail_err: "store_ok s \<Longrightarrow> r_mark_fail repo i why l x s = (Some e, s') \<Longrightarrow> recs s' = recs s"
    and mark_fail_done: "store_ok s \<Longrightarrow> r_mark_fail repo i why l x s = (None, s') \<Longrightarrow> with_id (recs s) k i q \<Longrightarrow>
      \<exists>at. recs s' = (recs s)(k \<mapsto> apply_upd (UFailed why l x at) q)"

text \<open>A store none of whose calls fails.\<close>

locale reliable_store = idem_store +
  assumes create_up: "store_ok s \<Longrightarrow> fst (r_create repo r s) \<noteq> Inl e"
    and get_up: "store_ok s \<Longrightarrow> fst (r_get repo sc kh s) \<noteq> Inl e"
    and reclaim_up: "store_ok s \<Longrightarrow> fst (r_reclaim repo i st n l x s) \<noteq> Inl e"
    and mark_ok_up: "store_ok s \<Longrightarrow> fst (r_mark_ok repo i c b x s) = None"
    and mark_fail_up: "store_ok s \<Longrightarrow> fst (r_mark_fail repo i why l x s) = None"

section \<open>The SQL implementation keeps the contract\<close>

interpretation it: keyed_table ir_id ir_key apply_upd
proof
  show "ir_id (apply_upd u r) = ir_id r" for u r by (cases u) simp_all
  show "ir_key (apply_upd u r) = ir_key r" for u r by (cases u) (simp_all add: ir_key_def)
qed

definition sql_recs :: "idem_db \<Rightarrow> idem_key \<Rightarrow> idem_record option" where
  "sql_recs db k = tab_find (\<lambda>r. ir_key r = k) (idb_tab db)"

definition sql_ok :: "idem_db \<Rightarrow> bool" where "sql_ok db \<longleftrightarrow> tab_ok ir_id ir_key (idb_tab db)"

lemma sql_guard_cases:
  obtains (down) db where "sql_guard db0 = (False, db)" "idb_tab db = idb_tab db0"
  | (up) db where "sql_guard db0 = (True, db)" "idb_tab db = idb_tab db0"
  by (cases "idb_faults db0"; cases "hd (idb_faults db0)") (auto simp: sql_guard_def)

lemma sql_update_ok: "sql_ok db \<Longrightarrow> sql_ok (snd (sql_update P u db))"
  by (rule sql_guard_cases [of db])
    (auto simp: sql_update_def sql_ok_def split: prod.splits dest: it.update_ok [of _ P u])

lemma sql_update_err: "sql_update P u db = (Inl e, db') \<Longrightarrow> sql_recs db' = sql_recs db"
  by (rule sql_guard_cases [of db]) (auto simp: sql_update_def sql_recs_def split: prod.splits)

lemma sql_update_done:
  assumes "sql_update P u db = (Inr n, db')"
  shows "n = length (filter P (t_rows (idb_tab db)))"
    and "sql_recs db' = (\<lambda>k. map_option (\<lambda>r. if P r then apply_upd u r else r) (sql_recs db k))"
proof -
  have *: "tab_update P (apply_upd u) (idb_tab db) = (n, idb_tab db')"
    using assms by (cases rule: sql_guard_cases [of db]) (auto simp: sql_update_def split: prod.splits)
  then show "n = length (filter P (t_rows (idb_tab db)))" by (simp add: tab_update_def)
  from * have "idb_tab db' = snd (tab_update P (apply_upd u) (idb_tab db))" by simp
  then show "sql_recs db' = (\<lambda>k. map_option (\<lambda>r. if P r then apply_upd u r else r) (sql_recs db k))"
    by (simp add: sql_recs_def fun_eq_iff it.lookup_update)
qed

lemma sql_recs_row:
  "sql_ok db \<Longrightarrow> sql_recs db k = Some q \<longleftrightarrow> q \<in> set (t_rows (idb_tab db)) \<and> ir_key q = k"
  by (simp add: sql_recs_def sql_ok_def it.lookup_iff)

lemma sql_with_id:
  "sql_ok db \<Longrightarrow> with_id (sql_recs db) k i q \<longleftrightarrow>
     q \<in> set (t_rows (idb_tab db)) \<and> ir_key q = k \<and> ir_id q = i"
  by (auto simp: with_id_def sql_recs_row)

lemma sql_count_pos:
  "sql_ok db \<Longrightarrow> 0 < length (filter (\<lambda>r. ir_id r = i \<and> Q r) (t_rows (idb_tab db))) \<longleftrightarrow>
     (\<exists>k q. with_id (sql_recs db) k i q \<and> Q q)"
  by (simp only: sql_with_id length_greater_0_conv filter_empty_conv) blast

lemma sql_upd_fun:
  assumes ok: "sql_ok db" and q: "with_id (sql_recs db) k i q" and Q: "Q q"
  shows "(\<lambda>k'. map_option (\<lambda>r. if ir_id r = i \<and> Q r then apply_upd u r else r) (sql_recs db k')) =
    (sql_recs db)(k \<mapsto> apply_upd u q)"
proof
  fix k'
  have row: "q \<in> set (t_rows (idb_tab db))" "ir_key q = k" "ir_id q = i"
    using q by (simp_all add: sql_with_id [OF ok])
  show "map_option (\<lambda>r. if ir_id r = i \<and> Q r then apply_upd u r else r) (sql_recs db k') =
      ((sql_recs db)(k \<mapsto> apply_upd u q)) k'"
  proof (cases "k' = k")
    case True
    with q Q row show ?thesis by (simp add: with_id_def)
  next
    case False
    have "ir_id r \<noteq> i" if "sql_recs db k' = Some r" for r
    proof
      assume "ir_id r = i"
      with that row ok have "r = q"
        using it.row_unique_rid [of "idb_tab db" r q] by (simp add: sql_recs_row sql_ok_def)
      with that row ok False show False by (simp add: sql_recs_row)
    qed
    with False show ?thesis by (cases "sql_recs db k'") auto
  qed
qed

lemma sql_cas_yes:
  assumes ok: "sql_ok db" and upd: "sql_update (\<lambda>r. ir_id r = i \<and> Q r) u db = (Inr n, db')" and "0 < n"
  shows "\<exists>k q. with_id (sql_recs db) k i q \<and> Q q \<and> sql_recs db' = (sql_recs db)(k \<mapsto> apply_upd u q)"
proof -
  obtain k q where "with_id (sql_recs db) k i q" "Q q"
    using sql_update_done(1) [OF upd] assms(3) sql_count_pos [OF ok, of i Q] by auto
  then show ?thesis
    using sql_update_done(2) [OF upd] sql_upd_fun [OF ok, of k i q Q u] by metis
qed

lemma sql_cas_no:
  assumes ok: "sql_ok db" and upd: "sql_update (\<lambda>r. ir_id r = i \<and> Q r) u db = (Inr 0, db')"
  shows "sql_recs db' = sql_recs db \<and> \<not> (\<exists>k q. with_id (sql_recs db) k i q \<and> Q q)"
proof -
  have none: "\<not> (\<exists>k q. with_id (sql_recs db) k i q \<and> Q q)"
    using sql_update_done(1) [OF upd] sql_count_pos [OF ok, of i Q] by simp
  have "map_option (\<lambda>r. if ir_id r = i \<and> Q r then apply_upd u r else r) (sql_recs db k) = sql_recs db k" for k
  proof (cases "sql_recs db k")
    case (Some a)
    with none have "\<not> (ir_id a = i \<and> Q a)" unfolding with_id_def by blast
    with Some show ?thesis by auto
  qed simp
  then have "sql_recs db' = sql_recs db" using sql_update_done(2) [OF upd] by auto
  with none show ?thesis by blast
qed

lemma sql_create_spec:
  assumes ok: "sql_ok db" and create: "sql_create_processing r db = (Inr (own, r'), db')"
  shows "sql_ok db'"
    and "own \<Longrightarrow> sql_recs db (ir_key r) = None \<and> 0 < ir_id r' \<and>
      (\<exists>row. sql_recs db' = (sql_recs db)(ir_key r \<mapsto> row) \<and> ir_id row = ir_id r' \<and>
        ir_fingerprint row = ir_fingerprint r \<and> ir_status row = ir_status r \<and>
        ir_locked_until row = ir_locked_until r \<and> ir_expires_at row = ir_expires_at r)"
    and "\<not> own \<Longrightarrow> r' = r \<and> sql_recs db' = sql_recs db \<and> sql_recs db (ir_key r) \<noteq> None"
proof -
  define mk where "mk now i = \<lparr>ir_id = i, ir_scope = ir_scope r, ir_key_hash = ir_key_hash r,
      ir_fingerprint = ir_fingerprint r, ir_status = ir_status r, ir_resp_status = None,
      ir_resp_body = None, ir_err_reason = None, ir_locked_until = ir_locked_until r,
      ir_expires_at = ir_expires_at r, ir_created_at = now, ir_updated_at = now\<rparr>" for now i
  obtain d where g: "sql_guard db = (True, d)" "idb_tab d = idb_tab db"
    using create by (cases rule: sql_guard_cases [of db]) (auto simp: sql_create_processing_def)
  have old: "tab_find (\<lambda>x. ir_key x = ir_key r) (idb_tab db) = sql_recs db (ir_key r)"
    by (simp add: sql_recs_def)
  have cases: "(own \<longrightarrow> sql_recs db (ir_key r) = None \<and> ir_id r' = t_seq (idb_tab db) + 1 \<and>
        idb_tab db' = snd (tab_insert (mk (idb_now d)) (idb_tab db))) \<and>
      (\<not> own \<longrightarrow> r' = r \<and> idb_tab db' = idb_tab db \<and> sql_recs db (ir_key r) \<noteq> None)"
    using create g old
    by (auto simp: sql_create_processing_def mk_def tab_insert_def Let_def split: option.splits)
  have mk: "ir_id (mk n i) = i" "ir_key (mk n i) = ir_key r" for n i
    by (simp_all add: mk_def ir_key_def)
  show "sql_ok db'"
    using cases ok it.insert_ok [of "idb_tab db" "mk (idb_now d)" "ir_key r"] mk
    by (cases own) (auto simp: sql_ok_def sql_recs_def)
  show "\<not> own \<Longrightarrow> r' = r \<and> sql_recs db' = sql_recs db \<and> sql_recs db (ir_key r) \<noteq> None"
    using cases by (simp add: sql_recs_def fun_eq_iff)
  assume own
  with cases have none: "sql_recs db (ir_key r) = None" and i: "ir_id r' = t_seq (idb_tab db) + 1"
    and t: "idb_tab db' = snd (tab_insert (mk (idb_now d)) (idb_tab db))" by auto
  have "sql_recs db' = (sql_recs db)(ir_key r \<mapsto> mk (idb_now d) (ir_id r'))"
    using it.lookup_insert [of "mk (idb_now d)" "ir_key r" "idb_tab db"] mk none i t
    by (simp add: sql_recs_def fun_eq_iff)
  moreover have "0 < ir_id r'" using i ok by (simp add: sql_ok_def tab_ok_def)
  ultimately show "sql_recs db (ir_key r) = None \<and> 0 < ir_id r' \<and>
      (\<exists>row. sql_recs db' = (sql_recs db)(ir_key r \<mapsto> row) \<and> ir_id row = ir_id r' \<and>
        ir_fingerprint row = ir_fingerprint r \<and> ir_status row = ir_status r \<and>
        ir_locked_until row = ir_locked_until r \<and> ir_expires_at row = ir_expires_at r)"
    using none by (auto simp: mk_def)
qed

lemma sql_cas_ok: "sql_ok s \<Longrightarrow> sql_ok (snd (sql_cas P u s))"
  using sql_update_ok [of s P u] by (auto simp: sql_cas_def split: prod.splits sum.splits)

lemma sql_create_ok:
  assumes "sql_ok s" shows "sql_ok (snd (sql_create_processing r s))"
proof (cases "sql_create_processing r s")
  case (Pair res s')
  show ?thesis
  proof (cases res)
    case (Inl e)
    with Pair assms show ?thesis
      by (cases rule: sql_guard_cases [of s])
        (auto simp: sql_create_processing_def sql_ok_def split: option.splits prod.splits)
  next
    case (Inr v)
    with Pair assms show ?thesis by (cases v) (auto dest: sql_create_spec(1))
  qed
qed

lemma sql_get_ok: "sql_ok s \<Longrightarrow> sql_ok (snd (sql_get sc kh s))"
  by (cases rule: sql_guard_cases [of s]) (simp_all add: sql_get_def sql_ok_def)

lemma sql_mark_ok:
  assumes "sql_ok s"
  shows "sql_ok (snd (sql_mark_succeeded i c b x s))" "sql_ok (snd (sql_mark_failed i why l x s))"
  using sql_update_ok [OF assms]
  by (auto simp: sql_mark_succeeded_def sql_mark_failed_def split: prod.splits sum.splits)
    (metis snd_conv)+

lemma sql_get_cases: "sql_get sc kh s = (res, s') \<Longrightarrow>
    sql_recs s' = sql_recs s \<and> (\<forall>x. res = Inr x \<longrightarrow> x = sql_recs s (sc, kh))"
  by (cases rule: sql_guard_cases [of s]) (auto simp: sql_get_def sql_recs_def)

lemma sql_create_fail: "sql_create_processing r s = (Inl e, s') \<Longrightarrow> sql_recs s' = sql_recs s"
  by (cases rule: sql_guard_cases [of s])
    (auto simp: sql_create_processing_def sql_recs_def fun_eq_iff split: option.splits prod.splits)

lemma sql_cas_cases:
  assumes ok: "sql_ok s" and call: "sql_cas (\<lambda>r. ir_id r = i \<and> Q r) u s = (res, s')"
  shows "res = Inl e \<Longrightarrow> sql_recs s' = sql_recs s"
    and "res = Inr True \<Longrightarrow> \<exists>k q. with_id (sql_recs s) k i q \<and> Q q \<and>
      sql_recs s' = (sql_recs s)(k \<mapsto> apply_upd u q)"
    and "res = Inr False \<Longrightarrow> sql_recs s' = sql_recs s \<and> \<not> (\<exists>k q. with_id (sql_recs s) k i q \<and> Q q)"
proof -
  obtain upd where upd: "sql_update (\<lambda>r. ir_id r = i \<and> Q r) u s = (upd, s')"
    and res: "res = (case upd of Inl e \<Rightarrow> Inl e | Inr n \<Rightarrow> Inr (0 < n))"
    using call by (auto simp: sql_cas_def split: prod.splits sum.splits)
  show "res = Inl e \<Longrightarrow> sql_recs s' = sql_recs s"
    using upd res by (auto split: sum.splits dest: sql_update_err)
  show "\<exists>k q. with_id (sql_recs s) k i q \<and> Q q \<and> sql_recs s' = (sql_recs s)(k \<mapsto> apply_upd u q)"
    if yes: "res = Inr True"
  proof -
    from yes res obtain n where "upd = Inr n" "0 < n" by (auto split: sum.splits)
    with upd show ?thesis using sql_cas_yes [OF ok] by blast
  qed
  show "sql_recs s' = sql_recs s \<and> \<not> (\<exists>k q. with_id (sql_recs s) k i q \<and> Q q)" if no: "res = Inr False"
  proof -
    from no res have "upd = Inr 0" by (auto split: sum.splits)
    with upd show ?thesis using sql_cas_no [OF ok] by blast
  qed
qed

lemma sql_mark_cases:
  assumes ok: "sql_ok s"
  shows "sql_mark_succeeded i c b x s = (Some e, s') \<Longrightarrow> sql_recs s' = sql_recs s"
    and "sql_mark_failed i why l x s = (Some e, s') \<Longrightarrow> sql_recs s' = sql_recs s"
    and "sql_mark_succeeded i c b x s = (None, s') \<Longrightarrow> with_id (sql_recs s) k i q \<Longrightarrow>
      sql_recs s' = (sql_recs s)(k \<mapsto> apply_upd (USucceeded c b x (idb_now s)) q)"
    and "sql_mark_failed i why l x s = (None, s') \<Longrightarrow> with_id (sql_recs s) k i q \<Longrightarrow>
      sql_recs s' = (sql_recs s)(k \<mapsto> apply_upd (UFailed why l x (idb_now s)) q)"
  using sql_upd_fun [OF ok, of k i q "\<lambda>_. True"]
  by (auto simp: sql_mark_succeeded_def sql_mark_failed_def split: prod.splits sum.splits
      dest!: sql_update_err sql_update_done(2))

lemma sql_reclaim_yes:
  assumes "sql_ok s" and "sql_try_reclaim i st n l x s = (Inr True, s')"
  shows "\<exists>k q at. with_id (sql_recs s) k i q \<and> ir_status q = st \<and> lease_free q n \<and>
    sql_recs s' = (sql_recs s)(k \<mapsto> apply_upd (UReclaim l x at) q)"
proof -
  from sql_cas_cases(2) [OF assms(1) assms(2) [unfolded sql_try_reclaim_def] refl]
  obtain k q where "with_id (sql_recs s) k i q" "ir_status q = st" "lease_free q n"
    "sql_recs s' = (sql_recs s)(k \<mapsto> apply_upd (UReclaim l x (idb_now s)) q)" by metis
  then show ?thesis by metis
qed

lemma sql_reclaim_no:
  assumes "sql_ok s" and "sql_try_reclaim i st n l x s = (Inr False, s')"
  shows "sql_recs s' = sql_recs s \<and> \<not> (\<exists>k q. with_id (sql_recs s) k i q \<and> ir_status q = st \<and> lease_free q n)"
  by (rule sql_cas_cases(3) [OF assms(1) assms(2) [unfolded sql_try_reclaim_def] refl])

lemma sql_extend_yes:
  assumes "sql_ok s" and "sql_extend_lock i fp l x s = (Inr True, s')"
  shows "\<exists>k q at. with_id (sql_recs s) k i q \<and> ir_status q = status_processing \<and> ir_fingerprint q = fp \<and>
    sql_recs s' = (sql_recs s)(k \<mapsto> apply_upd (UExtend l x at) q)"
proof -
  from sql_cas_cases(2) [OF assms(1) assms(2) [unfolded sql_extend_lock_def] refl]
  obtain k q where "with_id (sql_recs s) k i q" "ir_status q = status_processing" "ir_fingerprint q = fp"
    "sql_recs s' = (sql_recs s)(k \<mapsto> apply_upd (UExtend l x (idb_now s)) q)" by metis
  then show ?thesis by metis
qed

lemma sql_extend_no:
  assumes "sql_ok s" and "sql_extend_lock i fp l x s = (Inr False, s')"
  shows "sql_recs s' = sql_recs s \<and>
    \<not> (\<exists>k q. with_id (sql_recs s) k i q \<and> ir_status q = status_processing \<and> ir_fingerprint q = fp)"
  by (rule sql_cas_cases(3) [OF assms(1) assms(2) [unfolded sql_extend_lock_def] refl])

lemma sql_reclaim_fail:
  assumes "sql_ok s" and "sql_try_reclaim i st n l x s = (Inl e, s')"
  shows "sql_recs s' = sql_recs s"
  by (rule sql_cas_cases(1) [OF assms(1) assms(2) [unfolded sql_try_reclaim_def] refl])

lemma sql_extend_fail:
  assumes "sql_ok s" and "sql_extend_lock i fp l x s = (Inl e, s')"
  shows "sql_recs s' = sql_recs s"
  by (rule sql_cas_cases(1) [OF assms(1) assms(2) [unfolded sql_extend_lock_def] refl])

lemmas sql_repo_sel = sql_idem_repo_def idem_repo.simps

interpretation sql: idem_store sql_idem_repo sql_recs sql_ok
proof (unfold_locales, unfold sql_repo_sel, goal_cases)
  case 1 then show ?case by (rule sql_create_ok)
next
  case 2 then show ?case by (rule sql_get_ok)
next
  case 3 then show ?case by (simp add: sql_try_reclaim_def sql_cas_ok)
next
  case 4 then show ?case by (simp add: sql_extend_lock_def sql_cas_ok)
next
  case 5 then show ?case by (rule sql_mark_ok)
next
  case 6 then show ?case by (rule sql_mark_ok)
next
  case (7 s k q) then show ?case by (auto simp: sql_recs_row sql_ok_def tab_ok_def)
next
  case (8 s k q k' q')
  then show ?case
    using it.row_unique_rid [of "idb_tab s" q q'] by (simp add: sql_recs_row) (auto simp: sql_ok_def)
next
  case 9 then show ?case using sql_create_fail by blast
next
  case (10 s r r' s') then show ?case using sql_create_spec(2) by blast
next
  case (11 s r r' s') then show ?case using sql_create_spec(3) by blast
next
  case 12 then show ?case using sql_get_cases by blast
next
  case 13 then show ?case using sql_get_cases by blast
next
  case 14 then show ?case by (rule sql_reclaim_fail)
next
  case 15 then show ?case by (rule sql_reclaim_yes)
next
  case 16 then show ?case by (rule sql_reclaim_no)
next
  case 17 then show ?case by (rule sql_extend_fail)
next
  case 18 then show ?case by (rule sql_extend_yes)
next
  case 19 then show ?case by (rule sql_extend_no)
next
  case 20 then show ?case by (rule sql_mark_cases)
next
  case (21 s i c b x s' k q) then show ?case using sql_mark_cases(3) by blast
next
  case 22 then show ?case by (rule sql_mark_cases)
next
  case (23 s i why l x s' k q) then show ?case using sql_mark_cases(4) by blast
qed

text \<open>While no statement fails, the SQL store is reliable.\<close>

definition sql_up :: "idem_db \<Rightarrow> bool" where "sql_up db \<longleftrightarrow> sql_ok db \<and> idb_faults db = []"

lemma sql_up_ok: "sql_up db \<Longrightarrow> sql_ok db" by (simp add: sql_up_def)

lemma guard_up: "idb_faults db = [] \<Longrightarrow> sql_guard db = (True, db)"
  by (simp add: sql_guard_def)

lemma update_up:
  "idb_faults db = [] \<Longrightarrow> \<exists>n s'. sql_update P u db = (Inr n, s') \<and> idb_faults s' = []"
  by (simp add: sql_update_def guard_up tab_update_def)

lemma cas_up:
  "idb_faults db = [] \<Longrightarrow> \<exists>b s'. sql_cas P u db = (Inr b, s') \<and> idb_faults s' = []"
  using update_up [of db P u] by (auto simp: sql_cas_def)

lemma sql_ops_up:
  assumes up: "idb_faults db = []"
  shows "\<exists>x s'. sql_create_processing r db = (Inr x, s') \<and> idb_faults s' = []"
    and "\<exists>x s'. sql_get sc kh db = (Inr x, s') \<and> idb_faults s' = []"
    and "\<exists>x s'. sql_try_reclaim i st n l ex db = (Inr x, s') \<and> idb_faults s' = []"
    and "\<exists>x s'. sql_extend_lock i fp l ex db = (Inr x, s') \<and> idb_faults s' = []"
    and "\<exists>s'. sql_mark_succeeded i c b ex db = (None, s') \<and> idb_faults s' = []"
    and "\<exists>s'. sql_mark_failed i why l ex db = (None, s') \<and> idb_faults s' = []"
proof -
  show "\<exists>x s'. sql_create_processing r db = (Inr x, s') \<and> idb_faults s' = []"
    using up by (simp add: sql_create_processing_def guard_up tab_insert_def Let_def split: option.split) blast
  show "\<exists>x s'. sql_get sc kh db = (Inr x, s') \<and> idb_faults s' = []"
    using up by (simp add: sql_get_def guard_up)
  show "\<exists>x s'. sql_try_reclaim i st n l ex db = (Inr x, s') \<and> idb_faults s' = []"
    unfolding sql_try_reclaim_def by (rule cas_up [OF up])
  show "\<exists>x s'. sql_extend_lock i fp l ex db = (Inr x, s') \<and> idb_faults s' = []"
    unfolding sql_extend_lock_def by (rule cas_up [OF up])
  show "\<exists>s'. sql_mark_succeeded i c b ex db = (None, s') \<and> idb_faults s' = []"
    using update_up [OF up, of "\<lambda>r. ir_id r = i" "USucceeded c b ex (idb_now db)"]
    by (auto simp: sql_mark_succeeded_def)
  show "\<exists>s'. sql_mark_failed i why l ex db = (None, s') \<and> idb_faults s' = []"
    using update_up [OF up, of "\<lambda>r. ir_id r = i" "UFailed why l ex (idb_now db)"]
    by (auto simp: sql_mark_failed_def)
qed

interpretation sql_live: reliable_store sql_idem_repo sql_recs sql_up
proof -
  have up: "\<exists>x s'. p = (x, s') \<and> idb_faults s' = [] \<Longrightarrow> idb_faults (snd p) = []"
    for p :: "'x \<times> idem_db" by auto
  have ok: "sql_ok s" "idb_faults s = []" if "sql_up s" for s using that by (simp_all add: sql_up_def)
  note keeps = sql.create_keeps sql.get_keeps sql.reclaim_keeps sql.extend_keeps sql.mark_ok_keeps
    sql.mark_fail_keeps
  have ups: "idb_faults (snd (r_create sql_idem_repo r s)) = []" "idb_faults (snd (r_get sql_idem_repo sc kh s)) = []"
    "idb_faults (snd (r_reclaim sql_idem_repo i st n l x s)) = []" "idb_faults (snd (r_extend sql_idem_repo i fp l x s)) = []"
    "idb_faults (snd (r_mark_ok sql_idem_repo i c b x s)) = []" "idb_faults (snd (r_mark_fail sql_idem_repo i why l x s)) = []"
    if "sql_up s" for r s sc kh i st n l x fp c b why
    using sql_ops_up [OF ok(2) [OF that]] unfolding sql_repo_sel by (metis snd_conv)+
  show "reliable_store sql_idem_repo sql_recs sql_up"
  proof (unfold_locales, goal_cases)
    case 1 then show ?case using keeps(1) ups(1) ok(1) unfolding sql_up_def by blast
  next
    case 2 then show ?case using keeps(2) ups(2) ok(1) unfolding sql_up_def by blast
  next
    case 3 then show ?case using keeps(3) ups(3) ok(1) unfolding sql_up_def by blast
  next
    case 4 then show ?case using keeps(4) ups(4) ok(1) unfolding sql_up_def by blast
  next
    case 5 then show ?case using keeps(5) ups(5) ok(1) unfolding sql_up_def by blast
  next
    case 6 then show ?case using keeps(6) ups(6) ok(1) unfolding sql_up_def by blast
  next
    case 7 then show ?case using ok(1) sql.key_of by blast
  next
    case 8 then show ?case using ok(1) sql.id_unique by blast
  next
    case 9 then show ?case using ok(1) sql.create_err by blast
  next
    case 10 then show ?case using ok(1) sql.create_new by blast
  next
    case 11 then show ?case using ok(1) sql.create_dup by blast
  next
    case 12 then show ?case using ok(1) sql.get_err by blast
  next
    case 13 then show ?case using ok(1) sql.get_val by blast
  next
    case 14 then show ?case using ok(1) sql.reclaim_err by blast
  next
    case 15 then show ?case using ok(1) sql.reclaim_yes by blast
  next
    case 16 then show ?case using ok(1) sql.reclaim_no by blast
  next
    case 17 then show ?case using ok(1) sql.extend_err by blast
  next
    case 18 then show ?case using ok(1) sql.extend_yes by blast
  next
    case 19 then show ?case using ok(1) sql.extend_no by blast
  next
    case 20 then show ?case using ok(1) sql.mark_ok_err by blast
  next
    case 21 then show ?case using ok(1) sql.mark_ok_done by blast
  next
    case 22 then show ?case using ok(1) sql.mark_fail_err by blast
  next
    case 23 then show ?case using ok(1) sql.mark_fail_done by blast
  next
    case (24 s r e) then show ?case using sql_ops_up(1) [OF ok(2)] unfolding sql_repo_sel by (metis Inr_not_Inl fst_conv)
  next
    case (25 s sc kh e) then show ?case using sql_ops_up(2) [OF ok(2)] unfolding sql_repo_sel by (metis Inr_not_Inl fst_conv)
  next
    case (26 s i st n l x e) then show ?case using sql_ops_up(3) [OF ok(2)] unfolding sql_repo_sel by (metis Inr_not_Inl fst_conv)
  next
    case (27 s i c b x) then show ?case using sql_ops_up(5) [OF ok(2)] unfolding sql_repo_sel by (metis fst_conv)
  next
    case (28 s i why l x) then show ?case using sql_ops_up(6) [OF ok(2)] unfolding sql_repo_sel by (metis fst_conv)
  qed
qed

end
