(* ===== verification/Idem_Coordinator.thy ===== *)
theory Idem_Coordinator
  imports Idem_Store
begin

text \<open>
  The idempotency coordinator, \<open>backend/internal/service/idempotency.go\<close>, with its metrics
  (\<open>idempotency_observability.go\<close>) and the cleanup service (\<open>idempotency_cleanup_service.go\<close>).
  \<open>idem_execute\<close> is \<open>Execute\<close>, split where the Go function is long: \<open>idem_switch\<close> is the switch on
  the status of an existing record, \<open>idem_existing\<close> the branch of a request that did not create
  the record, \<open>idem_claim\<close> everything up to the check of \<open>record.ID\<close>, \<open>idem_finish\<close> what follows
  the call of the executor. The store is any \<open>idem_repo\<close>; SHA-256, the reflective JSON codec of
  \<open>any\<close> values and the log redaction are the fields of \<open>codec\<close>; the readings of \<open>time.Now\<close> are
  the fields of \<open>idem_clock\<close>.
\<close>

section \<open>Errors, configuration, options\<close>

definition err_key_required :: go_error where
  "err_key_required = bad_request ''IDEMPOTENCY_KEY_REQUIRED'' ''idempotency key is required''"
definition err_key_invalid :: go_error where
  "err_key_invalid = bad_request ''IDEMPOTENCY_KEY_INVALID'' ''idempotency key is invalid''"
definition err_key_conflict :: go_error where
  "err_key_conflict = conflict_err ''IDEMPOTENCY_KEY_CONFLICT'' ''idempotency key reused with different payload''"
definition err_in_progress :: go_error where
  "err_in_progress = conflict_err ''IDEMPOTENCY_IN_PROGRESS'' ''idempotent request is still processing''"
definition err_retry_backoff :: go_error where
  "err_retry_backoff = conflict_err ''IDEMPOTENCY_RETRY_BACKOFF'' ''idempotent request is in retry backoff window''"
definition err_store_unavail :: go_error where
  "err_store_unavail = service_unavailable ''IDEMPOTENCY_STORE_UNAVAILABLE'' ''idempotency store unavailable''"
definition err_invalid_payload :: go_error where
  "err_invalid_payload = bad_request ''IDEMPOTENCY_PAYLOAD_INVALID'' ''failed to normalize request payload''"
definition err_executor_nil :: go_error where
  "err_executor_nil = internal_server ''IDEMPOTENCY_EXECUTOR_NIL'' ''idempotency executor is nil''"
definition err_scope_required :: go_error where
  "err_scope_required = bad_request ''IDEMPOTENCY_SCOPE_REQUIRED'' ''idempotency scope is required''"

lemmas idem_errors = err_key_required_def err_key_invalid_def err_key_conflict_def err_in_progress_def
  err_retry_backoff_def err_store_unavail_def err_invalid_payload_def err_executor_nil_def
  err_scope_required_def

record idem_config =
  ic_default_ttl :: gduration
  ic_system_ttl :: gduration
  ic_processing_timeout :: gduration
  ic_failed_backoff :: gduration
  ic_max_stored :: int
  ic_observe_only :: bool

definition default_idem_config :: idem_config where
  "default_idem_config = \<lparr>ic_default_ttl = 24 * hour, ic_system_ttl = 1 * hour,
     ic_processing_timeout = 30 * second, ic_failed_backoff = 5 * second,
     ic_max_stored = 64 * 1024, ic_observe_only = True\<rparr>"

record 'p idem_options =
  io_scope :: string
  io_actor :: string
  io_method :: string
  io_route :: string
  io_key :: string
  io_payload :: 'p
  io_ttl :: gduration
  io_require_key :: bool
  io_timeout :: gduration

record 'd idem_result =
  res_data :: 'd
  res_replayed :: bool

record ('p, 'd) codec =
  cd_sha256_hex :: "string \<Rightarrow> string"
  cd_marshal_payload :: "'p \<Rightarrow> go_error + string"
  cd_marshal :: "'d \<Rightarrow> go_error + string"
  cd_unmarshal :: "string \<Rightarrow> go_error + 'd"
  cd_redact :: "string \<Rightarrow> string"
  cd_empty_map :: 'd

text \<open>
  The readings of the clock during one call: at the claim, at the renewal ticks, and after the
  executor returned.
\<close>

record idem_clock =
  ck_start :: gtime
  ck_ticks :: "gtime list"
  ck_end :: gtime

definition default_write_ttl :: "idem_config option \<Rightarrow> gduration" where
  "default_write_ttl coordinator = (case coordinator of
     Some cfg \<Rightarrow> if ic_default_ttl cfg > 0 then ic_default_ttl cfg else ic_default_ttl default_idem_config
   | None \<Rightarrow> ic_default_ttl default_idem_config)"

definition default_system_ttl :: "idem_config option \<Rightarrow> gduration" where
  "default_system_ttl coordinator = (case coordinator of
     Some cfg \<Rightarrow> if ic_system_ttl cfg > 0 then ic_system_ttl cfg else ic_system_ttl default_idem_config
   | None \<Rightarrow> ic_system_ttl default_idem_config)"

section \<open>Keys, fingerprints, stored responses\<close>

text \<open>
  A key is at most 128 runes between 33 and 126. Every byte of a rune outside ASCII is above 126,
  so the test per rune is a test per byte.
\<close>

definition normalize_key :: "string \<Rightarrow> go_error + string" where
  "normalize_key raw = (let key = trim_space raw in
     if key = [] then Inr []
     else if length key > 128 then Inl err_key_invalid
     else if list_ex (\<lambda>r. byte_of r < 33 \<or> byte_of r > 126) key then Inl err_key_invalid
     else Inr key)"

definition hash_key :: "('p, 'd) codec \<Rightarrow> string \<Rightarrow> string" where
  "hash_key cd key = cd_sha256_hex cd key"

definition build_fingerprint ::
  "('p, 'd) codec \<Rightarrow> string \<Rightarrow> string \<Rightarrow> string \<Rightarrow> 'p \<Rightarrow> go_error + string" where
  "build_fingerprint cd method0 route0 actor0 payload =
     (let method = (if method0 = [] then ''POST'' else method0);
          route = (if route0 = [] then ''/'' else route0);
          actor = (if actor0 = [] then ''anonymous'' else actor0)
      in case cd_marshal_payload cd payload of
           Inl e \<Rightarrow> Inl (with_cause err_invalid_payload (Some e))
         | Inr raw \<Rightarrow> Inr (cd_sha256_hex cd
             (to_upper method @ [CHR 0x0A] @ route @ [CHR 0x0A] @ actor @ [CHR 0x0A] @ raw)))"

definition retry_after_seconds :: "go_error \<Rightarrow> int" where
  "retry_after_seconds err = (case as_app err of None \<Rightarrow> 0 | Some app \<Rightarrow>
     (case err_meta app of None \<Rightarrow> 0 | Some md \<Rightarrow>
       (let v = trim_space (case gm_get md ''retry_after'' of None \<Rightarrow> [] | Some x \<Rightarrow> x) in
        if v = [] then 0
        else (case atoi v of None \<Rightarrow> 0 | Some seconds \<Rightarrow> if seconds \<le> 0 then 0 else seconds))))"

text \<open>\<open>int(d.Seconds())\<close>; the conversion is exact for the durations below 2^22 seconds.\<close>

definition conflict_with_retry_after :: "go_error \<Rightarrow> gtime option \<Rightarrow> gtime \<Rightarrow> go_error" where
  "conflict_with_retry_after base locked_until now = (case locked_until of None \<Rightarrow> base
     | Some l \<Rightarrow> (let sec = quot (t_sub l now) second; sec = (if sec \<le> 0 then 1 else sec)
         in with_metadata base (Some [(''retry_after'', itoa sec)])))"

fun valid_cut :: "string \<Rightarrow> nat \<Rightarrow> nat" where
  "valid_cut s 0 = 0"
| "valid_cut s (Suc n) = (if valid_utf8 (take (Suc n) s) then Suc n else valid_cut s n)"

definition truncate_utf8 :: "string \<Rightarrow> int \<Rightarrow> string" where
  "truncate_utf8 s max_bytes = (if max_bytes \<le> 0 \<or> int (length s) \<le> max_bytes then s
     else take (valid_cut s (nat max_bytes)) s)"

definition truncated_mark :: string where "truncated_mark = ''...(truncated)''"

definition marshal_stored :: "('p, 'd) codec \<Rightarrow> idem_config \<Rightarrow> 'd \<Rightarrow> go_error + string" where
  "marshal_stored cd cfg data = (case cd_marshal cd data of Inl e \<Rightarrow> Inl e
     | Inr raw \<Rightarrow> (let redacted = cd_redact cd raw in
         Inr (if ic_max_stored cfg > 0 \<and> int (length redacted) > ic_max_stored cfg
              then truncate_utf8 redacted (ic_max_stored cfg) @ truncated_mark else redacted)))"

definition decode_stored :: "('p, 'd) codec \<Rightarrow> string option \<Rightarrow> go_error + 'd" where
  "decode_stored cd stored = (case stored of None \<Rightarrow> Inr (cd_empty_map cd)
     | Some body \<Rightarrow> if trim_space body = [] then Inr (cd_empty_map cd)
         else (case cd_unmarshal cd body of
             Inl e \<Rightarrow> Inl (WrapErr ''decode stored response'' e)
           | Inr out \<Rightarrow> Inr out))"

section \<open>Metrics and audit\<close>

datatype idem_event =
    EvClaim string
  | EvReplay
  | EvConflict string
  | EvRetryBackoff
  | EvDuration gduration
  | EvStoreUnavailable string
  | EvAudit string bool

record idem_metrics =
  im_claim_total :: "64 word"
  im_replay_total :: "64 word"
  im_conflict_total :: "64 word"
  im_retry_backoff_total :: "64 word"
  im_duration_count :: "64 word"
  im_duration_micros :: "64 word"
  im_store_unavailable_total :: "64 word"

definition zero_metrics :: idem_metrics where
  "zero_metrics = \<lparr>im_claim_total = 0, im_replay_total = 0, im_conflict_total = 0,
     im_retry_backoff_total = 0, im_duration_count = 0, im_duration_micros = 0,
     im_store_unavailable_total = 0\<rparr>"

fun record_event :: "idem_event \<Rightarrow> idem_metrics \<Rightarrow> idem_metrics" where
  "record_event (EvClaim _) m = m\<lparr>im_claim_total := im_claim_total m + 1\<rparr>"
| "record_event EvReplay m = m\<lparr>im_replay_total := im_replay_total m + 1\<rparr>"
| "record_event (EvConflict _) m = m\<lparr>im_conflict_total := im_conflict_total m + 1\<rparr>"
| "record_event EvRetryBackoff m = m\<lparr>im_retry_backoff_total := im_retry_backoff_total m + 1\<rparr>"
| "record_event (EvDuration d) m = (let d = (if d < 0 then 0 else d) in
     m\<lparr>im_duration_count := im_duration_count m + 1,
       im_duration_micros := im_duration_micros m + word_of_int (quot d 1000)\<rparr>)"
| "record_event (EvStoreUnavailable _) m =
     m\<lparr>im_store_unavailable_total := im_store_unavailable_total m + 1\<rparr>"
| "record_event (EvAudit _ _) m = m"

record ('s, 'a) iworld =
  w_store :: 's
  w_app :: 'a
  w_events :: "idem_event list"
  w_metrics :: idem_metrics

definition note_ev :: "idem_event \<Rightarrow> ('s, 'a) iworld \<Rightarrow> ('s, 'a) iworld" where
  "note_ev e w = w\<lparr>w_events := w_events w @ [e], w_metrics := record_event e (w_metrics w)\<rparr>"

definition safe_audit_field :: "string \<Rightarrow> string" where
  "safe_audit_field v = (let value = trim_space v in
     if value = [] then ''-''
     else map (\<lambda>c. if c \<in> {CHR 0x0A, CHR 0x0D, CHR 0x09, CHR 0x20} then CHR ''_'' else c) value)"

text \<open>A call of the repository: the store of the world is threaded through it.\<close>

definition on_store :: "('s \<Rightarrow> 'x \<times> 's) \<Rightarrow> ('s, 'a) iworld \<Rightarrow> 'x \<times> ('s, 'a) iworld" where
  "on_store f w = (case f (w_store w) of (x, s') \<Rightarrow> (x, w\<lparr>w_store := s'\<rparr>))"

section \<open>Execute\<close>

text \<open>How the claiming half of \<open>Execute\<close> ends.\<close>

datatype 'd claim = Refused go_error | Replay 'd | Claimed int64

text \<open>A failed repository call: the metric, the audit line and the answer of the fail-closed branch.\<close>

definition unavailable ::
  "string \<Rightarrow> string \<Rightarrow> go_error option \<Rightarrow> ('s, 'a) iworld \<Rightarrow> 'd claim \<times> ('s, 'a) iworld" where
  "unavailable strategy transition cause w =
     (Refused (case cause of None \<Rightarrow> err_store_unavail | Some e \<Rightarrow> with_cause err_store_unavail (Some e)),
      note_ev (EvAudit transition False) (note_ev (EvStoreUnavailable strategy) w))"

definition conflict ::
  "string \<Rightarrow> string \<Rightarrow> go_error \<Rightarrow> ('s, 'a) iworld \<Rightarrow> 'd claim \<times> ('s, 'a) iworld" where
  "conflict why transition err w =
     (Refused err, note_ev (EvAudit transition False) (note_ev (EvConflict why) w))"

definition claimed ::
  "string \<Rightarrow> string \<Rightarrow> int64 \<Rightarrow> ('s, 'a) iworld \<Rightarrow> 'd claim \<times> ('s, 'a) iworld" where
  "claimed how transition i w =
     (Claimed i, note_ev (EvAudit transition False) (note_ev (EvClaim how) w))"

definition idem_switch ::
  "('p, 'd) codec \<Rightarrow> 's idem_repo \<Rightarrow> gtime \<Rightarrow> gtime \<Rightarrow> gtime \<Rightarrow> idem_record \<Rightarrow>
     ('s, 'a) iworld \<Rightarrow> 'd claim \<times> ('s, 'a) iworld" where
  "idem_switch cd repo now locked expires ex w =
     (if ir_status ex = status_succeeded then
        (case decode_stored cd (ir_resp_body ex) of
           Inl e \<Rightarrow> unavailable ''decode_stored_response_error'' ''succeeded->store_unavailable'' (Some e) w
         | Inr data \<Rightarrow> (Replay data, note_ev (EvAudit ''succeeded->replayed'' True) (note_ev EvReplay w)))
      else if ir_status ex = status_processing then
        conflict ''in_progress'' ''processing->conflict''
          (conflict_with_retry_after err_in_progress (ir_locked_until ex) now) w
      else if ir_status ex = status_failed_retryable then
        (if (case ir_locked_until ex of None \<Rightarrow> False | Some l \<Rightarrow> t_after l now) then
           (Refused (conflict_with_retry_after err_retry_backoff (ir_locked_until ex) now),
            note_ev (EvAudit ''failed_retryable->retry_backoff_conflict'' False)
              (note_ev EvRetryBackoff (note_ev (EvConflict ''retry_backoff'') w)))
         else (case on_store (r_reclaim repo (ir_id ex) status_failed_retryable now locked expires) w of
             (Inl e, w1) \<Rightarrow> unavailable ''try_reclaim_error'' ''failed_retryable->store_unavailable'' (Some e) w1
           | (Inr False, w1) \<Rightarrow> conflict ''reclaim_race'' ''failed_retryable->conflict''
               (conflict_with_retry_after err_in_progress (ir_locked_until ex) now) w1
           | (Inr True, w1) \<Rightarrow> claimed ''reclaim'' ''failed_retryable->processing'' (ir_id ex) w1))
      else conflict ''unexpected_status'' ''existing->conflict'' err_key_conflict w)"

definition idem_existing ::
  "('p, 'd) codec \<Rightarrow> 's idem_repo \<Rightarrow> string \<Rightarrow> string \<Rightarrow> string \<Rightarrow> gtime \<Rightarrow> gtime \<Rightarrow> gtime \<Rightarrow>
     ('s, 'a) iworld \<Rightarrow> 'd claim \<times> ('s, 'a) iworld" where
  "idem_existing cd repo scope kh fp now locked expires w0 =
     (case on_store (r_get repo scope kh) w0 of
        (Inl e, w) \<Rightarrow> unavailable ''get_existing_error'' ''unknown->store_unavailable'' (Some e) w
      | (Inr None, w) \<Rightarrow> unavailable ''missing_existing'' ''unknown->store_unavailable'' None w
      | (Inr (Some ex), w) \<Rightarrow>
        if ir_fingerprint ex \<noteq> fp then
          conflict ''fingerprint_mismatch'' ''existing->fingerprint_mismatch'' err_key_conflict w
        else if t_after (ir_expires_at ex) now then idem_switch cd repo now locked expires ex w
        else (case on_store (r_reclaim repo (ir_id ex) (ir_status ex) now locked expires) w of
            (Inl e, w1) \<Rightarrow> unavailable ''try_reclaim_expired_error''
                (ir_status ex @ ''->store_unavailable'') (Some e) w1
          | (Inr True, w1) \<Rightarrow> claimed ''expired_reclaim'' (ir_status ex @ ''->processing'') (ir_id ex) w1
          | (Inr False, w1) \<Rightarrow>
            (case on_store (r_get repo scope kh) w1 of
               (Inl e, w2) \<Rightarrow> unavailable ''get_existing_after_expired_reclaim_error''
                   ''unknown->store_unavailable'' (Some e) w2
             | (Inr None, w2) \<Rightarrow> unavailable ''missing_existing_after_expired_reclaim''
                   ''unknown->store_unavailable'' None w2
             | (Inr (Some latest), w2) \<Rightarrow>
               if ir_fingerprint latest \<noteq> fp then
                 conflict ''fingerprint_mismatch'' ''existing->fingerprint_mismatch'' err_key_conflict w2
               else idem_switch cd repo now locked expires latest w2)))"

definition new_idem_record :: "string \<Rightarrow> string \<Rightarrow> string \<Rightarrow> gtime \<Rightarrow> gtime \<Rightarrow> idem_record" where
  "new_idem_record scope kh fp locked expires = \<lparr>ir_id = 0, ir_scope = scope, ir_key_hash = kh,
     ir_fingerprint = fp, ir_status = status_processing, ir_resp_status = None, ir_resp_body = None,
     ir_err_reason = None, ir_locked_until = Some locked, ir_expires_at = expires,
     ir_created_at = zero_time, ir_updated_at = zero_time\<rparr>"

definition idem_claim ::
  "('p, 'd) codec \<Rightarrow> 's idem_repo \<Rightarrow> string \<Rightarrow> string \<Rightarrow> string \<Rightarrow> gtime \<Rightarrow> gtime \<Rightarrow> gtime \<Rightarrow>
     ('s, 'a) iworld \<Rightarrow> 'd claim \<times> ('s, 'a) iworld" where
  "idem_claim cd repo scope kh fp now locked expires w0 =
     (let (c, w) = (case on_store (r_create repo (new_idem_record scope kh fp locked expires)) w0 of
        (Inl e, w) \<Rightarrow> unavailable ''create_processing_error'' ''unknown->store_unavailable'' (Some e) w
      | (Inr (True, rec), w) \<Rightarrow> claimed ''new_claim'' ''none->processing'' (ir_id rec) w
      | (Inr (False, _), w) \<Rightarrow> idem_existing cd repo scope kh fp now locked expires w)
      in case c of
           Claimed i \<Rightarrow> if i = 0
             then unavailable ''record_id_missing'' ''processing->store_unavailable'' None w
             else (Claimed i, w)
         | _ \<Rightarrow> (c, w))"

text \<open>
  The goroutine of \<open>renewProcessingLease\<close>, for the ticks that fire before the executor returns.
\<close>

definition renew_lease_of :: "idem_config \<Rightarrow> gduration" where
  "renew_lease_of cfg = (if ic_processing_timeout cfg \<le> 0
     then ic_processing_timeout default_idem_config else ic_processing_timeout cfg)"

definition renew_interval :: "idem_config \<Rightarrow> gduration \<Rightarrow> gduration" where
  "renew_interval cfg ttl = (let interval = min (quot (renew_lease_of cfg) 3) (quot ttl 3)
     in if interval < millisecond then millisecond else interval)"

fun renew_loop ::
  "'s idem_repo \<Rightarrow> int64 \<Rightarrow> string \<Rightarrow> gduration \<Rightarrow> gduration \<Rightarrow> gtime list \<Rightarrow>
     ('s, 'a) iworld \<Rightarrow> ('s, 'a) iworld" where
  "renew_loop repo i fp lease ttl [] w = w"
| "renew_loop repo i fp lease ttl (now # ticks) w =
     (case on_store (r_extend repo i fp (t_add now lease) (t_add now ttl)) w of
        (Inl _, w1) \<Rightarrow> renew_loop repo i fp lease ttl ticks
            (note_ev (EvStoreUnavailable ''renew_processing_lock_error'') w1)
      | (Inr ok, w1) \<Rightarrow> if ok then renew_loop repo i fp lease ttl ticks w1 else w1)"

definition idem_finish ::
  "('p, 'd) codec \<Rightarrow> 's idem_repo \<Rightarrow> idem_config \<Rightarrow> int64 \<Rightarrow> gtime \<Rightarrow> gtime \<Rightarrow> go_error + 'd \<Rightarrow>
     ('s, 'a) iworld \<Rightarrow> (go_error + 'd idem_result) \<times> ('s, 'a) iworld" where
  "idem_finish cd repo cfg i end_now expires outcome w = (case outcome of
     Inl exec_err \<Rightarrow>
       (let backoff_until = t_add end_now (ic_failed_backoff cfg);
            reason0 = reason_of (Some exec_err);
            reason = (if reason0 = [] then ''EXECUTION_FAILED'' else reason0);
            w1 = note_ev (EvAudit ''processing->failed_retryable'' False) (note_ev EvRetryBackoff w)
        in case on_store (r_mark_fail repo i reason backoff_until expires) w1 of
             (Some _, w2) \<Rightarrow> (Inl exec_err, note_ev (EvAudit ''processing->store_unavailable'' False)
                 (note_ev (EvStoreUnavailable ''mark_failed_retryable_error'') w2))
           | (None, w2) \<Rightarrow> (Inl exec_err, w2))
   | Inr data \<Rightarrow> (case marshal_stored cd cfg data of
       Inl e \<Rightarrow> (Inl (with_cause err_store_unavail (Some e)),
         note_ev (EvAudit ''processing->store_unavailable'' False)
           (note_ev (EvStoreUnavailable ''marshal_response_error'') w))
     | Inr body \<Rightarrow> (case on_store (r_mark_ok repo i 200 body expires) w of
         (Some e, w1) \<Rightarrow> (Inl (with_cause err_store_unavail (Some e)),
           note_ev (EvAudit ''processing->store_unavailable'' False)
             (note_ev (EvStoreUnavailable ''mark_succeeded_error'') w1))
       | (None, w1) \<Rightarrow> (Inr \<lparr>res_data = data, res_replayed = False\<rparr>,
           note_ev (EvAudit ''processing->succeeded'' False) w1))))"

text \<open>The executor runs on the state of the application, which is the rest of the world.\<close>

type_synonym ('a, 'd) executor = "'a \<Rightarrow> (go_error + 'd) \<times> 'a"

definition run_executor ::
  "('a, 'd) executor \<Rightarrow> ('s, 'a) iworld \<Rightarrow> (go_error + 'd) \<times> ('s, 'a) iworld" where
  "run_executor f w = (case f (w_app w) of (r, a') \<Rightarrow> (r, w\<lparr>w_app := a'\<rparr>))"

definition idem_run ::
  "('p, 'd) codec \<Rightarrow> 's idem_repo \<Rightarrow> idem_config \<Rightarrow> idem_clock \<Rightarrow> 'p idem_options \<Rightarrow> string \<Rightarrow>
     gduration \<Rightarrow> int64 \<Rightarrow> ('a, 'd) executor \<Rightarrow> ('s, 'a) iworld \<Rightarrow>
     (go_error + 'd idem_result) \<times> ('s, 'a) iworld" where
  "idem_run cd repo cfg ck opts fp ttl i f w0 =
     (let w1 = (if io_timeout opts > 0
                then renew_loop repo i fp (renew_lease_of cfg) ttl (ck_ticks ck) w0 else w0);
          (outcome, w2) = run_executor f w1;
          expires = (if io_timeout opts > 0 then t_add (ck_end ck) ttl else t_add (ck_start ck) ttl);
          (res, w3) = idem_finish cd repo cfg i (ck_end ck) expires outcome w2
      in (res, note_ev (EvDuration (t_sub (ck_end ck) (ck_start ck))) w3))"

definition idem_execute ::
  "('p, 'd) codec \<Rightarrow> 's idem_repo option \<Rightarrow> idem_config \<Rightarrow> idem_clock \<Rightarrow> 'p idem_options \<Rightarrow>
     ('a, 'd) executor option \<Rightarrow> ('s, 'a) iworld \<Rightarrow>
     (go_error + 'd idem_result) \<times> ('s, 'a) iworld" where
  "idem_execute cd repo_ptr cfg ck opts execute w = (case execute of
     None \<Rightarrow> (Inl err_executor_nil, w)
   | Some f \<Rightarrow> (case normalize_key (io_key opts) of
       Inl e \<Rightarrow> (Inl e, w)
     | Inr key \<Rightarrow>
       if key = [] then
         (if io_require_key opts \<and> \<not> ic_observe_only cfg then (Inl err_key_required, w)
          else (case run_executor f w of
              (Inl e, w1) \<Rightarrow> (Inl e, w1)
            | (Inr data, w1) \<Rightarrow> (Inr \<lparr>res_data = data, res_replayed = False\<rparr>, w1)))
       else (case repo_ptr of
         None \<Rightarrow> (Inl err_store_unavail, note_ev (EvStoreUnavailable ''repo_nil'') w)
       | Some repo \<Rightarrow>
         if io_scope opts = [] then (Inl err_scope_required, w)
         else (case build_fingerprint cd (io_method opts) (io_route opts) (io_actor opts) (io_payload opts) of
           Inl e \<Rightarrow> (Inl e, w)
         | Inr fp \<Rightarrow>
           (let ttl = (if io_ttl opts \<le> 0 then ic_default_ttl cfg else io_ttl opts);
                now = ck_start ck;
                expires = t_add now ttl;
                locked = t_add now (ic_processing_timeout cfg)
            in case idem_claim cd repo (io_scope opts) (hash_key cd key) fp now locked expires w of
                 (Refused e, w1) \<Rightarrow> (Inl e, w1)
               | (Replay data, w1) \<Rightarrow> (Inr \<lparr>res_data = data, res_replayed = True\<rparr>, w1)
               | (Claimed i, w1) \<Rightarrow> idem_run cd repo cfg ck opts fp ttl i f w1)))))"

section \<open>The cleanup service\<close>

definition cleanup_batch :: "int option \<Rightarrow> int" where
  "cleanup_batch cfg = (case cfg of Some b \<Rightarrow> if b > 0 then b else 500 | None \<Rightarrow> 500)"

definition cleanup_interval :: "int option \<Rightarrow> gduration" where
  "cleanup_interval cfg = (case cfg of Some n \<Rightarrow> if n > 0 then wrap64 (n * second) else 60 * second
     | None \<Rightarrow> 60 * second)"

definition cleanup_once :: "'s idem_repo \<Rightarrow> int \<Rightarrow> gtime \<Rightarrow> 's \<Rightarrow> 's" where
  "cleanup_once repo batch now s = snd (r_delete_expired repo now batch s)"

text \<open>\<open>runLoop\<close> up to a stop: one round at the start and one per tick.\<close>

fun cleanup_loop :: "'s idem_repo \<Rightarrow> int \<Rightarrow> gtime list \<Rightarrow> 's \<Rightarrow> 's" where
  "cleanup_loop repo batch [] s = s"
| "cleanup_loop repo batch (now # ticks) s = cleanup_loop repo batch ticks (cleanup_once repo batch now s)"

end
