(* ===== verification/Idem_Correct.thy ===== *)
theory Idem_Correct
  imports Idem_Coordinator
begin

text \<open>
  Correctness of the idempotency coordinator over any store that keeps the contract
  \<open>idem_store\<close>. \<open>claim_view\<close> is the abstract specification: what a request may do, read off the
  one record of its scope and key. A call of \<open>Execute\<close> either fails closed with
  \<open>IDEMPOTENCY_STORE_UNAVAILABLE\<close> or does what the view says.
\<close>

section \<open>The abstract specification\<close>

datatype 'd view = MayClaim | MustReplay 'd | MustRefuse go_error

definition claimable :: "idem_record \<Rightarrow> gtime \<Rightarrow> bool" where
  "claimable q now \<longleftrightarrow> lease_free q now \<and>
     (ir_expires_at q \<le> now \<or> ir_status q = status_failed_retryable)"

definition refusal :: "idem_record \<Rightarrow> gtime \<Rightarrow> go_error" where
  "refusal q now = (if ir_status q = status_processing
       then conflict_with_retry_after err_in_progress (ir_locked_until q) now
     else if ir_status q = status_failed_retryable
       then conflict_with_retry_after err_retry_backoff (ir_locked_until q) now
     else err_key_conflict)"

definition claim_view ::
  "('p, 'd) codec \<Rightarrow> (idem_key \<Rightarrow> idem_record option) \<Rightarrow> idem_key \<Rightarrow> string \<Rightarrow> gtime \<Rightarrow> 'd view" where
  "claim_view cd m k fp now = (case m k of None \<Rightarrow> MayClaim
     | Some q \<Rightarrow>
       if ir_fingerprint q \<noteq> fp then MustRefuse err_key_conflict
       else if claimable q now then MayClaim
       else if ir_status q = status_succeeded then
         (case decode_stored cd (ir_resp_body q) of
            Inl e \<Rightarrow> MustRefuse (with_cause err_store_unavail (Some e))
          | Inr d \<Rightarrow> MustReplay d)
       else MustRefuse (refusal q now))"

definition held_by :: "(idem_key \<Rightarrow> idem_record option) \<Rightarrow> idem_key \<Rightarrow> int64 \<Rightarrow> string \<Rightarrow> bool" where
  "held_by m k i fp \<longleftrightarrow> (case m k of None \<Rightarrow> False
     | Some q \<Rightarrow> ir_id q = i \<and> ir_fingerprint q = fp \<and> ir_status q = status_processing)"

text \<open>The record of an executor's outcome.\<close>

definition finished_as :: "idem_record \<Rightarrow> gtime \<Rightarrow> gtime \<Rightarrow> go_error + string \<Rightarrow> bool" where
  "finished_as q backoff expires outcome \<longleftrightarrow> ir_expires_at q = expires \<and> (case outcome of
     Inl e \<Rightarrow> ir_status q = status_failed_retryable \<and> ir_locked_until q = Some backoff
   | Inr body \<Rightarrow> ir_status q = status_succeeded \<and> ir_resp_body q = Some body \<and> ir_locked_until q = None)"

text \<open>The key and the fingerprint of a request that carries a key, its lifetime and its expiry.\<close>

definition keyed :: "('p, 'd) codec \<Rightarrow> 'p idem_options \<Rightarrow> string \<Rightarrow> string \<Rightarrow> bool" where
  "keyed cd opts key fp \<longleftrightarrow> normalize_key (io_key opts) = Inr key \<and> key \<noteq> [] \<and> io_scope opts \<noteq> [] \<and>
     build_fingerprint cd (io_method opts) (io_route opts) (io_actor opts) (io_payload opts) = Inr fp"

definition req_key :: "('p, 'd) codec \<Rightarrow> 'p idem_options \<Rightarrow> string \<Rightarrow> idem_key" where
  "req_key cd opts key = (io_scope opts, hash_key cd key)"

definition req_ttl :: "idem_config \<Rightarrow> 'p idem_options \<Rightarrow> gduration" where
  "req_ttl cfg opts = (if io_ttl opts \<le> 0 then ic_default_ttl cfg else io_ttl opts)"

definition req_expiry :: "idem_config \<Rightarrow> idem_clock \<Rightarrow> 'p idem_options \<Rightarrow> gtime" where
  "req_expiry cfg ck opts = t_add (if io_timeout opts > 0 then ck_end ck else ck_start ck) (req_ttl cfg opts)"

text \<open>
  What the record and the answer are after the executor ran: its error with the record in back-off,
  its data with the record succeeded, or the record still in processing because it could not be
  updated (or the data could not be encoded).
\<close>

definition run_recorded ::
  "('p, 'd) codec \<Rightarrow> idem_config \<Rightarrow> idem_clock \<Rightarrow> 'p idem_options \<Rightarrow> string \<Rightarrow> idem_record option \<Rightarrow>
     go_error + 'd \<Rightarrow> go_error + 'd idem_result \<Rightarrow> bool" where
  "run_recorded cd cfg ck opts fp ro outcome res \<longleftrightarrow> (case ro of None \<Rightarrow> False | Some q \<Rightarrow>
     ir_fingerprint q = fp \<and>
     (case outcome of
        Inl e \<Rightarrow> res = Inl e \<and> (ir_status q = status_processing \<or>
          finished_as q (t_add (ck_end ck) (ic_failed_backoff cfg)) (req_expiry cfg ck opts) (Inl e))
      | Inr d \<Rightarrow>
          (case res of
             Inl e \<Rightarrow> errors_is e err_store_unavail \<and> ir_status q = status_processing
           | Inr r \<Rightarrow> r = \<lparr>res_data = d, res_replayed = False\<rparr> \<and>
               (case marshal_stored cd cfg d of Inl _ \<Rightarrow> False
                | Inr body \<Rightarrow> finished_as q (ck_end ck) (req_expiry cfg ck opts) (Inr body)))))"

text \<open>What the claiming half of \<open>Execute\<close> may do to the records, for each way it ends.\<close>

definition claim_effect ::
  "(idem_key \<Rightarrow> idem_record option) \<Rightarrow> (idem_key \<Rightarrow> idem_record option) \<Rightarrow> idem_key \<Rightarrow> string \<Rightarrow>
     gtime \<Rightarrow> gtime \<Rightarrow> 'd view \<Rightarrow> 'd claim \<Rightarrow> bool" where
  "claim_effect m m' k fp locked expires v c \<longleftrightarrow> (case c of
     Claimed i \<Rightarrow> v = MayClaim \<and> 0 < i \<and> held_by m' k i fp \<and>
       (\<exists>q. m' = m(k \<mapsto> q) \<and> ir_locked_until q = Some locked \<and> ir_expires_at q = expires)
   | Replay d \<Rightarrow> m' = m \<and> v = MustReplay d
   | Refused e \<Rightarrow> m' = m \<and> (errors_is e err_store_unavail \<or> v = MustRefuse e))"

lemma store_unavail_is [simp]:
  "errors_is err_store_unavail err_store_unavail"
  "errors_is (with_cause err_store_unavail x) err_store_unavail"
  by (simp_all add: err_store_unavail_def service_unavailable_def errors_is_with_cause)

lemma note_ev_sel [simp]:
  "w_store (note_ev e w) = w_store w" "w_app (note_ev e w) = w_app w"
  by (simp_all add: note_ev_def)

lemma on_store_eq: "on_store f w = (x, w') \<longleftrightarrow> (\<exists>s'. f (w_store w) = (x, s') \<and> w' = w\<lparr>w_store := s'\<rparr>)"
  by (auto simp: on_store_def split: prod.splits)

lemma on_store_app [simp]: "on_store f w = (x, w') \<Longrightarrow> w_app w' = w_app w"
  by (auto simp: on_store_eq)

lemma claimed_with [simp]: "(if i = 0 then a else b) = b" if "0 < (i::int)"
  using that by simp

section \<open>Claiming\<close>

context idem_store
begin

abbreviation "wrecs w \<equiv> recs (w_store w)"
abbreviation "wok w \<equiv> store_ok (w_store w)"

lemma get_step:
  assumes "wok w" and "on_store (r_get repo sc kh) w = (res, w')"
  shows "wok w'" "wrecs w' = wrecs w" "res = Inr ro \<Longrightarrow> ro = wrecs w (sc, kh)"
proof -
  obtain s' where s': "r_get repo sc kh (w_store w) = (res, s')" "w_store w' = s'"
    using assms(2) by (auto simp: on_store_eq)
  then show "wok w'" using get_keeps [OF assms(1), of sc kh] by simp
  show "wrecs w' = wrecs w"
    using s' get_err [OF assms(1)] get_val [OF assms(1)] by (cases res) auto
  show "res = Inr ro \<Longrightarrow> ro = wrecs w (sc, kh)" using s' get_val [OF assms(1)] by simp
qed

lemma reclaim_step:
  assumes ok: "wok w" and call: "on_store (r_reclaim repo i st now locked expires) w = (res, w')"
    and row: "wrecs w k = Some q" "ir_id q = i"
  shows "wok w'"
    and "res = Inl e \<Longrightarrow> wrecs w' = wrecs w"
    and "res = Inr True \<Longrightarrow> ir_status q = st \<and> lease_free q now \<and> 0 < i \<and>
      (\<exists>at. wrecs w' = (wrecs w)(k \<mapsto> apply_upd (UReclaim locked expires at) q))"
    and "res = Inr False \<Longrightarrow> wrecs w' = wrecs w \<and> \<not> (ir_status q = st \<and> lease_free q now)"
proof -
  obtain s' where s': "r_reclaim repo i st now locked expires (w_store w) = (res, s')" "w_store w' = s'"
    using call by (auto simp: on_store_eq)
  then show "wok w'" using reclaim_keeps [OF ok, of i st now locked expires] by simp
  show "res = Inl e \<Longrightarrow> wrecs w' = wrecs w" using s' reclaim_err [OF ok] by simp
  show "res = Inr False \<Longrightarrow> wrecs w' = wrecs w \<and> \<not> (ir_status q = st \<and> lease_free q now)"
    using s' reclaim_no [OF ok] row unfolding with_id_def by blast
  assume "res = Inr True"
  with s' obtain k' q' at where q': "wrecs w k' = Some q'" "ir_id q' = i" "ir_status q' = st"
    "lease_free q' now" "wrecs w' = (wrecs w)(k' \<mapsto> apply_upd (UReclaim locked expires at) q')"
    using reclaim_yes [OF ok] unfolding with_id_def by metis
  with row id_unique [OF ok] have "k' = k" "q' = q" by (metis, metis option.inject)
  with q' row key_of [OF ok row(1)] show "ir_status q = st \<and> lease_free q now \<and> 0 < i \<and>
      (\<exists>at. wrecs w' = (wrecs w)(k \<mapsto> apply_upd (UReclaim locked expires at) q))" by blast
qed

lemma claim_after_reclaim:
  assumes "wrecs w k = Some q" "ir_fingerprint q = fp" "0 < i" "ir_id q = i"
    and "wrecs w' = (wrecs w)(k \<mapsto> apply_upd (UReclaim locked expires at) q)"
    and "claimable q now"
  shows "claim_effect (wrecs w) (wrecs w') k fp locked expires (claim_view cd (wrecs w) k fp now) (Claimed i)"
  using assms by (auto simp: claim_effect_def claim_view_def held_by_def)

lemma switch_effect:
  assumes ok: "wok w" and row: "wrecs w k = Some q" "ir_fingerprint q = fp"
    and live: "now < ir_expires_at q \<or> \<not> lease_free q now"
    and run: "idem_switch cd repo now locked expires q w = (c, w')"
  shows "wok w' \<and> w_app w' = w_app w \<and>
    claim_effect (wrecs w) (wrecs w') k fp locked expires (claim_view cd (wrecs w) k fp now) c"
proof (cases "ir_status q = status_failed_retryable \<and> lease_free q now")
  case True
  then have run': "idem_switch cd repo now locked expires q w =
    (case on_store (r_reclaim repo (ir_id q) status_failed_retryable now locked expires) w of
       (Inl e, w1) \<Rightarrow> unavailable ''try_reclaim_error'' ''failed_retryable->store_unavailable'' (Some e) w1
     | (Inr False, w1) \<Rightarrow> conflict ''reclaim_race'' ''failed_retryable->conflict''
         (conflict_with_retry_after err_in_progress (ir_locked_until q) now) w1
     | (Inr True, w1) \<Rightarrow> claimed ''reclaim'' ''failed_retryable->processing'' (ir_id q) w1)"
    by (auto simp: idem_switch_def lease_free_def t_after_def split: option.splits)
  obtain res w1 where call: "on_store (r_reclaim repo (ir_id q) status_failed_retryable now locked expires) w = (res, w1)"
    by fastforce
  note step = reclaim_step [OF ok call row(1) refl]
  have clm: "claimable q now" using True by (simp add: claimable_def)
  show ?thesis
  proof (cases res)
    case (Inl e)
    with run run' call step(1,2) show ?thesis
      by (auto simp: unavailable_def claim_effect_def)
  next
    case (Inr taken)
    show ?thesis
    proof (cases taken)
      case True
      with Inr step(3) obtain at where at: "0 < ir_id q"
        "wrecs w1 = (wrecs w)(k \<mapsto> apply_upd (UReclaim locked expires at) q)" by auto
      have "c = Claimed (ir_id q)" "w_store w' = w_store w1" "w_app w' = w_app w1"
        using run run' call Inr True by (auto simp: claimed_def)
      with claim_after_reclaim [OF row at(1) refl at(2) clm] call step(1) show ?thesis by simp
    next
      case False
      with Inr step(4) \<open>ir_status q = status_failed_retryable \<and> lease_free q now\<close> show ?thesis by auto
    qed
  qed
next
  case False
  then have "\<not> claimable q now" using live by (auto simp: claimable_def)
  with False row run ok show ?thesis
    by (auto simp: idem_switch_def claim_view_def claim_effect_def unavailable_def conflict_def
        refusal_def lease_free_def t_after_def split: option.splits sum.splits if_splits)
qed

lemma existing_effect:
  assumes ok: "wok w" and row: "wrecs w (sc, kh) = Some q"
    and run: "idem_existing cd repo sc kh fp now locked expires w = (c, w')"
  shows "wok w' \<and> w_app w' = w_app w \<and>
    claim_effect (wrecs w) (wrecs w') (sc, kh) fp locked expires (claim_view cd (wrecs w) (sc, kh) fp now) c"
proof -
  let ?ok = "\<lambda>w' c. wok w' \<and> w_app w' = w_app w \<and>
    claim_effect (wrecs w) (wrecs w') (sc, kh) fp locked expires (claim_view cd (wrecs w) (sc, kh) fp now) c"
  obtain res w1 where get: "on_store (r_get repo sc kh) w = (res, w1)" by fastforce
  note g = get_step [OF ok get] and g_app = on_store_app [OF get]
  have res: "res = Inr (Some q) \<or> (\<exists>e. res = Inl e)" using g(3) row by (cases res) auto
  show ?thesis
  proof (cases "\<exists>e. res = Inl e")
    case True
    with run get g g_app show ?thesis by (auto simp: idem_existing_def unavailable_def claim_effect_def)
  next
    case False
    with res have res: "res = Inr (Some q)" by blast
    have row1: "wrecs w1 (sc, kh) = Some q" using g row by simp
    show ?thesis
    proof (cases "ir_fingerprint q \<noteq> fp \<or> now < ir_expires_at q")
      case True
      show ?thesis
      proof (cases "ir_fingerprint q = fp")
        case fp: True
        with True have "now < ir_expires_at q" by simp
        moreover from this fp have "idem_switch cd repo now locked expires q w1 = (c, w')"
          using run get res by (simp add: idem_existing_def t_after_def)
        ultimately show ?thesis
          using switch_effect [OF g(1) row1 fp, of now cd locked expires c w'] g(2) g_app by simp
      next
        case False
        with row have "claim_view cd (wrecs w) (sc, kh) fp now = MustRefuse err_key_conflict"
          by (simp add: claim_view_def)
        with False run get res g(1,2) g_app show ?thesis
          by (auto simp: idem_existing_def conflict_def claim_effect_def)
      qed
    next
      case False
      obtain res2 w2 where call: "on_store (r_reclaim repo (ir_id q) (ir_status q) now locked expires) w1 = (res2, w2)"
        by fastforce
      note step = reclaim_step [OF g(1) call row1 refl] and r_app = on_store_app [OF call]
      consider (err) e where "res2 = Inl e" | (yes) "res2 = Inr True" | (no) "res2 = Inr False"
        by (cases res2) auto
      then show ?thesis
      proof cases
        case err
        with False run get res call step(1,2) g g_app r_app show ?thesis
          by (auto simp: idem_existing_def t_after_def unavailable_def claim_effect_def)
      next
        case yes
        with False step(3) have clm: "claimable q now" by (auto simp: claimable_def)
        from yes step(3) obtain at where at: "0 < ir_id q"
          "wrecs w2 = (wrecs w)((sc, kh) \<mapsto> apply_upd (UReclaim locked expires at) q)" using g by auto
        have fp: "ir_fingerprint q = fp" using False by simp
        have "c = Claimed (ir_id q)" "w_store w' = w_store w2" "w_app w' = w_app w2"
          using False yes run get res call by (auto simp: idem_existing_def t_after_def claimed_def)
        with claim_after_reclaim [OF row fp at(1) refl at(2) clm] step(1) g_app r_app
        show ?thesis by simp
      next
        case no
        then have nofree: "\<not> lease_free q now" and recs2: "wrecs w2 = wrecs w" using step(4) g by auto
        obtain res3 w3 where get3: "on_store (r_get repo sc kh) w2 = (res3, w3)" by fastforce
        note g3 = get_step [OF step(1) get3] and g3_app = on_store_app [OF get3]
        have "res3 = Inr (Some q) \<or> (\<exists>e. res3 = Inl e)" using g3(3) recs2 row by (cases res3) auto
        then show ?thesis
        proof
          assume "\<exists>e. res3 = Inl e"
          with False no run get res call get3 g3 recs2 g_app r_app g3_app show ?thesis
            by (auto simp: idem_existing_def t_after_def unavailable_def claim_effect_def)
        next
          assume res3: "res3 = Inr (Some q)"
          have row3: "wrecs w3 (sc, kh) = Some q" using g3 recs2 row by simp
          show ?thesis
            using switch_effect [OF g3(1) row3, of fp now cd locked expires c w'] nofree
              False no run get res call get3 res3 g3 recs2 g_app r_app g3_app
            by (auto simp: idem_existing_def t_after_def)
        qed
      qed
    qed
  qed
qed

lemma claim_effect:
  assumes ok: "wok w" and run: "idem_claim cd repo sc kh fp now locked expires w = (c, w')"
  shows "wok w' \<and> w_app w' = w_app w \<and>
    claim_effect (wrecs w) (wrecs w') (sc, kh) fp locked expires (claim_view cd (wrecs w) (sc, kh) fp now) c"
proof -
  let ?new = "new_idem_record sc kh fp locked expires"
  obtain res w1 where call: "on_store (r_create repo ?new) w = (res, w1)" by fastforce
  then obtain s1 where s1: "r_create repo ?new (w_store w) = (res, s1)" "w_store w1 = s1"
    by (auto simp: on_store_eq)
  have ok1: "wok w1" using create_keeps [OF ok, of ?new] s1 by simp
  have app1: "w_app w1 = w_app w" using call by simp
  have key: "ir_key ?new = (sc, kh)" by (simp add: new_idem_record_def ir_key_def)
  consider (err) e where "res = Inl e" | (own) r where "res = Inr (True, r)" | (dup) r where "res = Inr (False, r)"
  proof (cases res)
    case (Inr x)
    then show thesis using own dup by (cases x; cases "fst x") auto
  qed (rule err)
  then show ?thesis
  proof cases
    case err
    with run call s1 create_err [OF ok] ok1 app1 show ?thesis
      by (auto simp: idem_claim_def unavailable_def claim_effect_def)
  next
    case own
    from create_new [OF ok s1(1) [unfolded own]] obtain row
      where "wrecs w (sc, kh) = None" and i: "0 < ir_id r" and "wrecs w1 = (wrecs w)((sc, kh) \<mapsto> row)"
        "ir_id row = ir_id r" "ir_fingerprint row = fp" "ir_status row = status_processing"
        "ir_locked_until row = Some locked" "ir_expires_at row = expires"
      using s1(2) key by (auto simp: new_idem_record_def)
    moreover from own i run call have "c = Claimed (ir_id r)" "w_store w' = w_store w1" "w_app w' = w_app w1"
      by (auto simp: idem_claim_def claimed_def)
    ultimately show ?thesis using ok1 app1
      by (simp add: claim_effect_def claim_view_def held_by_def) metis
  next
    case dup
    from create_dup [OF ok s1(1) [unfolded dup]] have same: "wrecs w1 = wrecs w"
      and "wrecs w (sc, kh) \<noteq> None" using s1(2) key by auto
    then obtain q where q: "wrecs w1 (sc, kh) = Some q" by auto
    obtain c1 w2 where ex: "idem_existing cd repo sc kh fp now locked expires w1 = (c1, w2)" by fastforce
    from existing_effect [OF ok1 q ex] same app1
    have eff: "wok w2" "w_app w2 = w_app w"
      "claim_effect (wrecs w) (wrecs w2) (sc, kh) fp locked expires (claim_view cd (wrecs w) (sc, kh) fp now) c1"
      by auto
    then have "c1 \<noteq> Claimed 0" by (auto simp: claim_effect_def)
    with run call dup ex have "c = c1" "w' = w2"
      by (auto simp: idem_claim_def split: claim.splits if_splits)
    with eff show ?thesis by simp
  qed
qed

section \<open>Running and recording\<close>

lemma renew_effect:
  assumes "wok w" and "held_by (wrecs w) k i fp"
  shows "wok (renew_loop repo i fp lease ttl ticks w) \<and>
    w_app (renew_loop repo i fp lease ttl ticks w) = w_app w \<and>
    (\<forall>k'. k' \<noteq> k \<longrightarrow> wrecs (renew_loop repo i fp lease ttl ticks w) k' = wrecs w k') \<and>
    held_by (wrecs (renew_loop repo i fp lease ttl ticks w)) k i fp"
  using assms
proof (induction ticks arbitrary: w)
  case (Cons now ticks)
  obtain res w1 where call: "on_store (r_extend repo i fp (t_add now lease) (t_add now ttl)) w = (res, w1)"
    by fastforce
  then obtain s1 where s1: "r_extend repo i fp (t_add now lease) (t_add now ttl) (w_store w) = (res, s1)"
    "w_store w1 = s1" by (auto simp: on_store_eq)
  have ok1: "wok w1" using extend_keeps [OF Cons.prems(1)] s1 by (metis snd_conv)
  have app1: "w_app w1 = w_app w" using call by simp
  have same: "(\<forall>k'. k' \<noteq> k \<longrightarrow> wrecs w1 k' = wrecs w k') \<and> held_by (wrecs w1) k i fp"
  proof -
    consider (err) e where "res = Inl e" | (yes) "res = Inr True" | (no) "res = Inr False"
      by (cases res) auto
    then show ?thesis
    proof cases
      case err
      with s1 extend_err [OF Cons.prems(1)] Cons.prems(2) show ?thesis by simp
    next
      case no
      with s1 extend_no [OF Cons.prems(1)] Cons.prems(2) show ?thesis by simp
    next
      case yes
      with s1 extend_yes [OF Cons.prems(1)] obtain k1 q at where q: "wrecs w k1 = Some q" "ir_id q = i"
        "wrecs w1 = (wrecs w)(k1 \<mapsto> apply_upd (UExtend (t_add now lease) (t_add now ttl) at) q)"
        unfolding with_id_def by metis
      moreover from Cons.prems(2) obtain q0 where "wrecs w k = Some q0" "ir_id q0 = i"
        by (auto simp: held_by_def split: option.splits)
      ultimately have "k1 = k" using id_unique [OF Cons.prems(1)] by metis
      with q Cons.prems(2) show ?thesis by (simp add: held_by_def)
    qed
  qed
  show ?case
  proof (cases "res = Inr False")
    case True
    with call ok1 app1 same show ?thesis by simp
  next
    case False
    then consider (err) e where "res = Inl e" | (yes) "res = Inr True" by (cases res) auto
    then show ?thesis
    proof cases
      case (err e)
      let ?w2 = "note_ev (EvStoreUnavailable ''renew_processing_lock_error'') w1"
      show ?thesis using Cons.IH [of ?w2] call err ok1 app1 same by simp
    next
      case yes
      then show ?thesis using Cons.IH [of w1] call ok1 app1 same by simp
    qed
  qed
qed simp

lemma held_row:
  assumes "held_by m k i fp"
  obtains q where "with_id m k i q" "ir_fingerprint q = fp" "ir_status q = status_processing"
  using assms by (auto simp: held_by_def with_id_def split: option.splits)

lemma finish_effect:
  assumes ok: "wok w" and held: "held_by (wrecs w) k i fp"
    and run: "idem_finish cd repo cfg i now expires outcome w = (res, w')"
  shows "wok w'" and "w_app w' = w_app w"
    and "(\<forall>k'. k' \<noteq> k \<longrightarrow> wrecs w' k' = wrecs w k')"
    and "outcome = Inl e \<Longrightarrow> res = Inl e \<and> (wrecs w' = wrecs w \<or>
      (\<exists>q. wrecs w' k = Some q \<and> ir_fingerprint q = fp \<and>
         finished_as q (t_add now (ic_failed_backoff cfg)) expires (Inl e)))"
    and "outcome = Inr d \<Longrightarrow>
      (\<exists>e. res = Inl e \<and> errors_is e err_store_unavail \<and> wrecs w' = wrecs w) \<or>
      res = Inr \<lparr>res_data = d, res_replayed = False\<rparr> \<and>
      (\<exists>q body. marshal_stored cd cfg d = Inr body \<and> wrecs w' k = Some q \<and> ir_fingerprint q = fp \<and>
         finished_as q now expires (Inr body))"
proof -
  obtain q where q: "with_id (wrecs w) k i q" "ir_fingerprint q = fp" "ir_status q = status_processing"
    using held by (rule held_row)
  have all: "wok w' \<and> w_app w' = w_app w \<and> (\<forall>k'. k' \<noteq> k \<longrightarrow> wrecs w' k' = wrecs w k') \<and>
    (case outcome of
       Inl e \<Rightarrow> res = Inl e \<and> (wrecs w' = wrecs w \<or>
         (\<exists>q. wrecs w' k = Some q \<and> ir_fingerprint q = fp \<and>
            finished_as q (t_add now (ic_failed_backoff cfg)) expires (Inl e)))
     | Inr d \<Rightarrow> (\<exists>e. res = Inl e \<and> errors_is e err_store_unavail \<and> wrecs w' = wrecs w) \<or>
       res = Inr \<lparr>res_data = d, res_replayed = False\<rparr> \<and>
       (\<exists>q body. marshal_stored cd cfg d = Inr body \<and> wrecs w' k = Some q \<and> ir_fingerprint q = fp \<and>
          finished_as q now expires (Inr body)))"
  proof (cases outcome)
    case (Inl e)
    define w1 where "w1 = note_ev (EvAudit ''processing->failed_retryable'' False) (note_ev EvRetryBackoff w)"
    define reason where "reason = (if reason_of (Some e) = [] then ''EXECUTION_FAILED'' else reason_of (Some e))"
    obtain r w2 where call: "on_store (r_mark_fail repo i reason (t_add now (ic_failed_backoff cfg)) expires) w1 = (r, w2)"
      by fastforce
    then obtain s2 where s2: "r_mark_fail repo i reason (t_add now (ic_failed_backoff cfg)) expires (w_store w) = (r, s2)"
      "w_store w2 = s2" by (auto simp: on_store_eq w1_def)
    have "wok w2" using mark_fail_keeps [OF ok] s2 by (metis snd_conv)
    moreover have "w_app w2 = w_app w" using call by (simp add: w1_def)
    moreover have "r = None \<Longrightarrow> \<exists>at. wrecs w2 = (wrecs w)(k \<mapsto>
        apply_upd (UFailed reason (t_add now (ic_failed_backoff cfg)) expires at) q)"
      using mark_fail_done [OF ok _ q(1)] s2 by blast
    moreover have "r \<noteq> None \<Longrightarrow> wrecs w2 = wrecs w" using mark_fail_err [OF ok] s2 by auto
    moreover have "res = Inl e" "w_store w' = w_store w2" "w_app w' = w_app w2"
      using run call Inl by (auto simp: idem_finish_def Let_def w1_def reason_def split: option.splits)
    ultimately show ?thesis using Inl q(2) by (cases r) (auto simp: finished_as_def)
  next
    case (Inr d)
    show ?thesis
    proof (cases "marshal_stored cd cfg d")
      case (Inl e)
      with Inr run ok show ?thesis by (auto simp: idem_finish_def)
    next
      case body: (Inr body)
      obtain r w2 where call: "on_store (r_mark_ok repo i 200 body expires) w = (r, w2)" by fastforce
      then obtain s2 where s2: "r_mark_ok repo i 200 body expires (w_store w) = (r, s2)" "w_store w2 = s2"
        by (auto simp: on_store_eq)
      have "wok w2" using mark_ok_keeps [OF ok] s2 by (metis snd_conv)
      moreover have "w_app w2 = w_app w" using call by simp
      moreover have "r = None \<Longrightarrow> \<exists>at. wrecs w2 = (wrecs w)(k \<mapsto> apply_upd (USucceeded 200 body expires at) q)"
        using mark_ok_done [OF ok _ q(1)] s2 by blast
      moreover have "r \<noteq> None \<Longrightarrow> wrecs w2 = wrecs w" using mark_ok_err [OF ok] s2 by auto
      ultimately show ?thesis using Inr body run call q(2)
        by (cases r) (auto simp: idem_finish_def finished_as_def)
    qed
  qed
  then show "wok w'" "w_app w' = w_app w" "\<forall>k'. k' \<noteq> k \<longrightarrow> wrecs w' k' = wrecs w k'" by auto
  from all show "outcome = Inl e \<Longrightarrow> res = Inl e \<and> (wrecs w' = wrecs w \<or>
      (\<exists>q. wrecs w' k = Some q \<and> ir_fingerprint q = fp \<and>
         finished_as q (t_add now (ic_failed_backoff cfg)) expires (Inl e)))" by simp
  from all show "outcome = Inr d \<Longrightarrow>
      (\<exists>e. res = Inl e \<and> errors_is e err_store_unavail \<and> wrecs w' = wrecs w) \<or>
      res = Inr \<lparr>res_data = d, res_replayed = False\<rparr> \<and>
      (\<exists>q body. marshal_stored cd cfg d = Inr body \<and> wrecs w' k = Some q \<and> ir_fingerprint q = fp \<and>
         finished_as q now expires (Inr body))" by simp
qed

lemma run_effect:
  assumes ok: "wok w" and held: "held_by (wrecs w) k i fp"
    and run: "idem_run cd repo cfg ck opts fp (req_ttl cfg opts) i f w = (res, w')"
  shows "wok w' \<and> w_app w' = snd (f (w_app w)) \<and> (\<forall>k'. k' \<noteq> k \<longrightarrow> wrecs w' k' = wrecs w k') \<and>
    (case fst (f (w_app w)) of
       Inl e \<Rightarrow> res = Inl e \<and> (held_by (wrecs w') k i fp \<or>
         (\<exists>q. wrecs w' k = Some q \<and> ir_fingerprint q = fp \<and>
            finished_as q (t_add (ck_end ck) (ic_failed_backoff cfg)) (req_expiry cfg ck opts) (Inl e)))
     | Inr d \<Rightarrow> (\<exists>e. res = Inl e \<and> errors_is e err_store_unavail \<and> held_by (wrecs w') k i fp) \<or>
       res = Inr \<lparr>res_data = d, res_replayed = False\<rparr> \<and>
       (\<exists>q body. marshal_stored cd cfg d = Inr body \<and> wrecs w' k = Some q \<and> ir_fingerprint q = fp \<and>
          finished_as q (ck_end ck) (req_expiry cfg ck opts) (Inr body)))"
proof -
  define w1 where "w1 = (if io_timeout opts > 0
    then renew_loop repo i fp (renew_lease_of cfg) (req_ttl cfg opts) (ck_ticks ck) w else w)"
  have w1: "wok w1" "w_app w1 = w_app w" "\<forall>k'. k' \<noteq> k \<longrightarrow> wrecs w1 k' = wrecs w k'" "held_by (wrecs w1) k i fp"
    using renew_effect [OF ok held] ok held by (simp_all add: w1_def)
  obtain outcome a where f: "f (w_app w) = (outcome, a)" by fastforce
  define w2 where "w2 = w1\<lparr>w_app := a\<rparr>"
  have w2: "wok w2" "held_by (wrecs w2) k i fp" "wrecs w2 = wrecs w1" using w1 by (simp_all add: w2_def)
  have exp: "(if io_timeout opts > 0 then t_add (ck_end ck) (req_ttl cfg opts)
      else t_add (ck_start ck) (req_ttl cfg opts)) = req_expiry cfg ck opts"
    by (simp add: req_expiry_def)
  obtain r w3 where fin: "idem_finish cd repo cfg i (ck_end ck) (req_expiry cfg ck opts) outcome w2 = (r, w3)"
    by fastforce
  note eff = finish_effect [OF w2(1,2) fin]
  have rex: "run_executor f w1 = (outcome, w2)" by (simp add: run_executor_def w1(2) f w2_def)
  have "res = r" "w_store w' = w_store w3" "w_app w' = w_app w3"
    using run unfolding idem_run_def Let_def w1_def [symmetric] rex exp by (auto simp: fin)
  moreover have "w_app w2 = a" by (simp add: w2_def)
  ultimately show ?thesis using eff w1 w2 f by (cases outcome) auto
qed

lemma execute_keyed:
  assumes "keyed cd opts key fp"
  shows "idem_execute cd (Some repo) cfg ck opts (Some f) w =
    (case idem_claim cd repo (io_scope opts) (hash_key cd key) fp (ck_start ck)
        (t_add (ck_start ck) (ic_processing_timeout cfg)) (t_add (ck_start ck) (req_ttl cfg opts)) w of
       (Refused e, w1) \<Rightarrow> (Inl e, w1)
     | (Replay data, w1) \<Rightarrow> (Inr \<lparr>res_data = data, res_replayed = True\<rparr>, w1)
     | (Claimed i, w1) \<Rightarrow> idem_run cd repo cfg ck opts fp (req_ttl cfg opts) i f w1)"
  using assms unfolding idem_execute_def Let_def req_ttl_def [symmetric] by (simp add: keyed_def)

text \<open>The effect of \<open>Execute\<close>: refused, replayed, or run after a claim the view allows.\<close>

lemma execute_effect:
  assumes ok: "wok w" and keyed: "keyed cd opts key fp"
    and run: "idem_execute cd (Some repo) cfg ck opts (Some f) w = (res, w')"
  defines "k \<equiv> req_key cd opts key"
  defines "v \<equiv> claim_view cd (wrecs w) k fp (ck_start ck)"
  shows "wok w'"
    and "v \<noteq> MayClaim \<Longrightarrow> w_app w' = w_app w \<and> wrecs w' = wrecs w"
    and "(\<exists>e. res = Inl e \<and> (errors_is e err_store_unavail \<or> v = MustRefuse e) \<and>
        w_app w' = w_app w \<and> wrecs w' = wrecs w) \<or>
      (\<exists>d. res = Inr \<lparr>res_data = d, res_replayed = True\<rparr> \<and> v = MustReplay d \<and>
        w_app w' = w_app w \<and> wrecs w' = wrecs w) \<or>
      (v = MayClaim \<and> w_app w' = snd (f (w_app w)) \<and> (\<forall>k'. k' \<noteq> k \<longrightarrow> wrecs w' k' = wrecs w k') \<and>
       run_recorded cd cfg ck opts fp (wrecs w' k) (fst (f (w_app w))) res)"
proof -
  let ?locked = "t_add (ck_start ck) (ic_processing_timeout cfg)"
  let ?expires = "t_add (ck_start ck) (req_ttl cfg opts)"
  obtain c w1 where claim: "idem_claim cd repo (io_scope opts) (hash_key cd key) fp (ck_start ck) ?locked ?expires w = (c, w1)"
    by fastforce
  note eff = claim_effect [OF ok claim, folded req_key_def, folded k_def, folded v_def]
  note run' = run [unfolded execute_keyed [OF keyed] claim]
  have held: "P" if "held_by m k i fp"
    "\<And>q. m k = Some q \<Longrightarrow> ir_fingerprint q = fp \<Longrightarrow> ir_status q = status_processing \<Longrightarrow> P" for m i P
    using that by (auto simp: held_by_def split: option.splits)
  have all: "wok w' \<and> (v \<noteq> MayClaim \<longrightarrow> w_app w' = w_app w \<and> wrecs w' = wrecs w) \<and>
     ((\<exists>e. res = Inl e \<and> (errors_is e err_store_unavail \<or> v = MustRefuse e) \<and>
        w_app w' = w_app w \<and> wrecs w' = wrecs w) \<or>
      (\<exists>d. res = Inr \<lparr>res_data = d, res_replayed = True\<rparr> \<and> v = MustReplay d \<and>
        w_app w' = w_app w \<and> wrecs w' = wrecs w) \<or>
      (v = MayClaim \<and> w_app w' = snd (f (w_app w)) \<and> (\<forall>k'. k' \<noteq> k \<longrightarrow> wrecs w' k' = wrecs w k') \<and>
       run_recorded cd cfg ck opts fp (wrecs w' k) (fst (f (w_app w))) res))"
  proof (cases c)
    case (Refused e)
    with eff run' show ?thesis by (auto simp: claim_effect_def)
  next
    case (Replay d)
    with eff run' show ?thesis by (auto simp: claim_effect_def)
  next
    case (Claimed i)
    with eff have w1: "wok w1" "held_by (wrecs w1) k i fp" "w_app w1 = w_app w" and v: "v = MayClaim"
      and others: "\<forall>k'. k' \<noteq> k \<longrightarrow> wrecs w1 k' = wrecs w k'"
      by (auto simp: claim_effect_def)
    from run' Claimed have "idem_run cd repo cfg ck opts fp (req_ttl cfg opts) i f w1 = (res, w')" by simp
    from run_effect [OF w1(1,2) this] v others w1(3) show ?thesis
      by (cases "fst (f (w_app w))") (auto simp: run_recorded_def elim!: held)
  qed
  then show "wok w'" "v \<noteq> MayClaim \<Longrightarrow> w_app w' = w_app w \<and> wrecs w' = wrecs w" by auto
  from all show "(\<exists>e. res = Inl e \<and> (errors_is e err_store_unavail \<or> v = MustRefuse e) \<and>
        w_app w' = w_app w \<and> wrecs w' = wrecs w) \<or>
      (\<exists>d. res = Inr \<lparr>res_data = d, res_replayed = True\<rparr> \<and> v = MustReplay d \<and>
        w_app w' = w_app w \<and> wrecs w' = wrecs w) \<or>
      (v = MayClaim \<and> w_app w' = snd (f (w_app w)) \<and> (\<forall>k'. k' \<noteq> k \<longrightarrow> wrecs w' k' = wrecs w k') \<and>
       run_recorded cd cfg ck opts fp (wrecs w' k) (fst (f (w_app w))) res)" by blast
qed

end

section \<open>Sequences of requests\<close>

fun run_requests ::
  "('p, 'd) codec \<Rightarrow> 's idem_repo \<Rightarrow> idem_config \<Rightarrow>
     (idem_clock \<times> 'p idem_options \<times> ('a, 'd) executor) list \<Rightarrow> ('s, 'a) iworld \<Rightarrow>
     (go_error + 'd idem_result) list \<times> ('s, 'a) iworld" where
  "run_requests cd repo cfg [] w = ([], w)"
| "run_requests cd repo cfg ((ck, opts, f) # reqs) w =
     (case idem_execute cd (Some repo) cfg ck opts (Some f) w of (res, w1) \<Rightarrow>
       (case run_requests cd repo cfg reqs w1 of (rs, w2) \<Rightarrow> (res # rs, w2)))"

text \<open>A later request with the same scope and key that starts before an instant.\<close>

definition repeats ::
  "('p, 'd) codec \<Rightarrow> idem_key \<Rightarrow> gtime \<Rightarrow> idem_clock \<Rightarrow> 'p idem_options \<Rightarrow> bool" where
  "repeats cd k until ck opts \<longleftrightarrow> ck_start ck < until \<and>
     (case normalize_key (io_key opts) of Inl _ \<Rightarrow> False
      | Inr key \<Rightarrow> key \<noteq> [] \<and> io_scope opts \<noteq> [] \<and> req_key cd opts key = k)"

definition only_replays :: "('p, 'd) codec \<Rightarrow> string \<Rightarrow> go_error + 'd idem_result \<Rightarrow> bool" where
  "only_replays cd body res \<longleftrightarrow> (case res of Inl _ \<Rightarrow> True
     | Inr r \<Rightarrow> res_replayed r \<and> decode_stored cd (Some body) = Inr (res_data r))"

context idem_store
begin

lemma sealed_view:
  assumes "wrecs w k = Some q" "finished_as q backoff until (Inr body)" "now < until"
  shows "claim_view cd (wrecs w) k fp now \<noteq> MayClaim"
    and "claim_view cd (wrecs w) k fp now = MustReplay d \<Longrightarrow> decode_stored cd (Some body) = Inr d"
  using assms by (auto simp: claim_view_def finished_as_def claimable_def split: if_splits sum.splits)

lemma sealed_step:
  assumes ok: "wok w" and row: "wrecs w k = Some q" "finished_as q backoff until (Inr body)"
    and rep: "repeats cd k until ck opts"
    and run: "idem_execute cd (Some repo) cfg ck opts (Some f) w = (res, w')"
  shows "wok w' \<and> wrecs w' = wrecs w \<and> w_app w' = w_app w \<and> only_replays cd body res"
proof -
  obtain key where key: "normalize_key (io_key opts) = Inr key" "key \<noteq> []" "io_scope opts \<noteq> []"
    "req_key cd opts key = k" "ck_start ck < until"
    using rep by (auto simp: repeats_def split: sum.splits)
  show ?thesis
  proof (cases "build_fingerprint cd (io_method opts) (io_route opts) (io_actor opts) (io_payload opts)")
    case (Inl e)
    with key run ok show ?thesis by (auto simp: idem_execute_def only_replays_def)
  next
    case (Inr fp)
    with key have keyed: "keyed cd opts key fp" by (simp add: keyed_def)
    note eff = execute_effect [OF ok keyed run, unfolded key(4)]
    note view = sealed_view [OF row key(5), of cd fp]
    from eff(2) view(1) have same: "w_app w' = w_app w" "wrecs w' = wrecs w" by auto
    moreover have "only_replays cd body res"
      using eff(3) view by (auto simp: only_replays_def)
    ultimately show ?thesis using eff(1) by blast
  qed
qed

lemma sealed_trace:
  assumes "wok w" "wrecs w k = Some q" "finished_as q backoff until (Inr body)"
    and "\<forall>(ck, opts, f) \<in> set reqs. repeats cd k until ck opts"
  shows "w_app (snd (run_requests cd repo cfg reqs w)) = w_app w \<and>
    (\<forall>res \<in> set (fst (run_requests cd repo cfg reqs w)). only_replays cd body res)"
  using assms
proof (induction reqs arbitrary: w)
  case (Cons req reqs)
  obtain ck opts f where req: "req = (ck, opts, f)" by (cases req)
  obtain res w1 where run: "idem_execute cd (Some repo) cfg ck opts (Some f) w = (res, w1)" by fastforce
  have rep: "repeats cd k until ck opts" using Cons.prems(4) req by simp
  from sealed_step [OF Cons.prems(1-3) rep run]
  have w1: "wok w1" "wrecs w1 = wrecs w" "w_app w1 = w_app w" "only_replays cd body res" by auto
  have "w_app (snd (run_requests cd repo cfg reqs w1)) = w_app w1 \<and>
    (\<forall>res \<in> set (fst (run_requests cd repo cfg reqs w1)). only_replays cd body res)"
    by (rule Cons.IH) (use w1 Cons.prems in auto)
  with w1 req run show ?case by (auto split: prod.splits)
qed simp

end

section \<open>A store without failures\<close>

definition claim_is :: "'d view \<Rightarrow> 'd claim \<Rightarrow> bool" where
  "claim_is v c \<longleftrightarrow> (case v of MayClaim \<Rightarrow> (case c of Claimed _ \<Rightarrow> True | _ \<Rightarrow> False)
     | MustReplay d \<Rightarrow> c = Replay d
     | MustRefuse e \<Rightarrow> c = Refused e)"

lemma not_error:
  fixes p :: "(go_error + 'x) \<times> 's"
  assumes "\<And>e. fst p \<noteq> Inl e"
  obtains x s' where "p = (Inr x, s')"
  using assms by (cases p; cases "fst p") auto

context reliable_store
begin

lemma get_some:
  assumes "wok w" and "wrecs w (sc, kh) = Some q"
  shows "\<exists>w'. on_store (r_get repo sc kh) w = (Inr (Some q), w') \<and> wok w' \<and> wrecs w' = wrecs w"
proof -
  obtain x s' where "r_get repo sc kh (w_store w) = (Inr x, s')"
    by (rule not_error [OF get_up [OF assms(1), of sc kh]])
  then have get: "on_store (r_get repo sc kh) w = (Inr x, w\<lparr>w_store := s'\<rparr>)" by (auto simp: on_store_eq)
  with get_step [OF assms(1) get] assms(2) show ?thesis by auto
qed

lemma reclaim_decides:
  assumes "wok w" and "wrecs w k = Some q"
  shows "\<exists>w'. on_store (r_reclaim repo (ir_id q) st now l x) w = (Inr (ir_status q = st \<and> lease_free q now), w') \<and>
    wok w' \<and> (\<not> (ir_status q = st \<and> lease_free q now) \<longrightarrow> wrecs w' = wrecs w)"
proof -
  obtain b s' where "r_reclaim repo (ir_id q) st now l x (w_store w) = (Inr b, s')"
    by (rule not_error [OF reclaim_up [OF assms(1)]])
  then have call: "on_store (r_reclaim repo (ir_id q) st now l x) w = (Inr b, w\<lparr>w_store := s'\<rparr>)"
    by (auto simp: on_store_eq)
  note step = reclaim_step [OF assms(1) call assms(2) refl]
  have "b = (ir_status q = st \<and> lease_free q now)" using step(3,4) by (cases b) auto
  moreover have "\<not> b \<longrightarrow> wrecs (w\<lparr>w_store := s'\<rparr>) = wrecs w" using step(4) by simp
  ultimately show ?thesis using call step(1) by blast
qed

lemma switch_exact:
  assumes ok: "wok w" and row: "wrecs w k = Some q" "ir_fingerprint q = fp"
    and live: "now < ir_expires_at q \<or> \<not> lease_free q now"
  shows "claim_is (claim_view cd (wrecs w) k fp now) (fst (idem_switch cd repo now locked expires q w))"
proof (cases "ir_status q = status_failed_retryable \<and> lease_free q now")
  case True
  then have "claimable q now" by (simp add: claimable_def)
  moreover obtain w' where
    "on_store (r_reclaim repo (ir_id q) status_failed_retryable now locked expires) w = (Inr True, w')"
    using reclaim_decides [OF ok row(1), of status_failed_retryable now locked expires] True by auto
  ultimately show ?thesis using True row
    by (auto simp: idem_switch_def lease_free_def t_after_def claimed_def claim_is_def claim_view_def
        split: option.splits)
next
  case False
  then have "\<not> claimable q now" using live by (auto simp: claimable_def)
  with False row show ?thesis
    by (auto simp: idem_switch_def claim_view_def claim_is_def unavailable_def conflict_def
        refusal_def lease_free_def t_after_def split: option.splits sum.splits)
qed

lemma existing_exact:
  assumes ok: "wok w" and row: "wrecs w (sc, kh) = Some q"
  shows "claim_is (claim_view cd (wrecs w) (sc, kh) fp now)
    (fst (idem_existing cd repo sc kh fp now locked expires w))"
proof -
  obtain w1 where get: "on_store (r_get repo sc kh) w = (Inr (Some q), w1)" and ok1: "wok w1"
    and same1: "wrecs w1 = wrecs w" using get_some [OF ok row] by blast
  have row1: "wrecs w1 (sc, kh) = Some q" using same1 row by simp
  consider (mismatch) "ir_fingerprint q \<noteq> fp"
    | (live) "ir_fingerprint q = fp" "now < ir_expires_at q"
    | (taken) "ir_fingerprint q = fp" "\<not> now < ir_expires_at q" "lease_free q now"
    | (held) "ir_fingerprint q = fp" "\<not> now < ir_expires_at q" "\<not> lease_free q now" by blast
  then show ?thesis
  proof cases
    case mismatch
    with row get show ?thesis
      by (simp add: idem_existing_def claim_view_def claim_is_def conflict_def)
  next
    case live
    with switch_exact [OF ok1 row1 live(1), of now cd locked expires] get same1 show ?thesis
      by (simp add: idem_existing_def t_after_def)
  next
    case taken
    then obtain w2 where
      "on_store (r_reclaim repo (ir_id q) (ir_status q) now locked expires) w1 = (Inr True, w2)"
      using reclaim_decides [OF ok1 row1, of "ir_status q" now locked expires] by auto
    with taken get row show ?thesis
      by (simp add: idem_existing_def t_after_def claimed_def claim_is_def claim_view_def claimable_def)
  next
    case held
    then obtain w2 where call:
      "on_store (r_reclaim repo (ir_id q) (ir_status q) now locked expires) w1 = (Inr False, w2)"
      and ok2: "wok w2" and same2: "wrecs w2 = wrecs w1"
      using reclaim_decides [OF ok1 row1, of "ir_status q" now locked expires] by auto
    obtain w3 where get3: "on_store (r_get repo sc kh) w2 = (Inr (Some q), w3)" and ok3: "wok w3"
      and same3: "wrecs w3 = wrecs w2" using get_some [OF ok2] same2 row1 by metis
    have "wrecs w3 (sc, kh) = Some q" using same3 same2 row1 by simp
    from switch_exact [OF ok3 this held(1), of now cd locked expires] held get call get3 same1 same2 same3
    show ?thesis by (simp add: idem_existing_def t_after_def)
  qed
qed

lemma claim_exact:
  assumes ok: "wok w"
  shows "claim_is (claim_view cd (wrecs w) (sc, kh) fp now)
    (fst (idem_claim cd repo sc kh fp now locked expires w))"
proof -
  let ?new = "new_idem_record sc kh fp locked expires"
  obtain x s1 where "r_create repo ?new (w_store w) = (Inr x, s1)"
    by (rule not_error [OF create_up [OF ok, of ?new]])
  moreover obtain own r where x: "x = (own, r)" by fastforce
  moreover define w1 where "w1 = w\<lparr>w_store := s1\<rparr>"
  ultimately have s1: "r_create repo ?new (w_store w) = (Inr (own, r), s1)" "w_store w1 = s1"
    and call: "on_store (r_create repo ?new) w = (Inr x, w1)" by (auto simp: on_store_eq)
  have ok1: "wok w1" using create_keeps [OF ok, of ?new] s1 by simp
  have key: "ir_key ?new = (sc, kh)" by (simp add: new_idem_record_def ir_key_def)
  show ?thesis
  proof (cases own)
    case True
    with create_new [OF ok, of ?new r s1] s1 key have "wrecs w (sc, kh) = None" "0 < ir_id r" by auto
    with call x True show ?thesis by (simp add: idem_claim_def claimed_def claim_is_def claim_view_def)
  next
    case False
    with create_dup [OF ok, of ?new r s1] s1 key
    have same: "wrecs w1 = wrecs w" and "wrecs w (sc, kh) \<noteq> None" by auto
    then obtain q where q: "wrecs w1 (sc, kh) = Some q" by auto
    obtain c1 w2 where ex: "idem_existing cd repo sc kh fp now locked expires w1 = (c1, w2)" by fastforce
    from existing_exact [OF ok1 q, of cd fp now locked expires] ex same
    have isc: "claim_is (claim_view cd (wrecs w) (sc, kh) fp now) c1" by simp
    from existing_effect [OF ok1 q ex] have "c1 \<noteq> Claimed 0" by (auto simp: claim_effect_def)
    with call x False ex have "fst (idem_claim cd repo sc kh fp now locked expires w) = c1"
      by (auto simp: idem_claim_def split: claim.splits)
    with isc show ?thesis by simp
  qed
qed

lemma finish_exact:
  assumes ok: "wok w" and held: "held_by (wrecs w) k i fp"
    and run: "idem_finish cd repo cfg i now expires outcome w = (res, w')"
  shows "case outcome of
      Inl e \<Rightarrow> res = Inl e \<and> (\<exists>q. wrecs w' k = Some q \<and> ir_fingerprint q = fp \<and>
         finished_as q (t_add now (ic_failed_backoff cfg)) expires (Inl e))
    | Inr d \<Rightarrow> (case marshal_stored cd cfg d of
         Inl e \<Rightarrow> res = Inl (with_cause err_store_unavail (Some e))
       | Inr body \<Rightarrow> res = Inr \<lparr>res_data = d, res_replayed = False\<rparr> \<and>
           (\<exists>q. wrecs w' k = Some q \<and> ir_fingerprint q = fp \<and> finished_as q now expires (Inr body)))"
proof -
  obtain q where q: "with_id (wrecs w) k i q" "ir_fingerprint q = fp" using held by (rule held_row)
  show ?thesis
  proof (cases outcome)
    case (Inl e)
    define w1 where "w1 = note_ev (EvAudit ''processing->failed_retryable'' False) (note_ev EvRetryBackoff w)"
    define reason where "reason = (if reason_of (Some e) = [] then ''EXECUTION_FAILED'' else reason_of (Some e))"
    obtain s2 where s2: "r_mark_fail repo i reason (t_add now (ic_failed_backoff cfg)) expires (w_store w) = (None, s2)"
      using mark_fail_up [OF ok] by (metis prod.collapse)
    then have "on_store (r_mark_fail repo i reason (t_add now (ic_failed_backoff cfg)) expires) w1 = (None, w1\<lparr>w_store := s2\<rparr>)"
      by (simp add: on_store_def w1_def)
    with run Inl have "res = Inl e \<and> w_store w' = s2"
      by (auto simp: idem_finish_def Let_def w1_def reason_def split: option.splits)
    with mark_fail_done [OF ok s2 q(1)] q(2) Inl show ?thesis by (auto simp: finished_as_def)
  next
    case (Inr d)
    show ?thesis
    proof (cases "marshal_stored cd cfg d")
      case (Inl e)
      with Inr run show ?thesis by (auto simp: idem_finish_def)
    next
      case body: (Inr body)
      obtain s2 where s2: "r_mark_ok repo i 200 body expires (w_store w) = (None, s2)"
        using mark_ok_up [OF ok] by (metis prod.collapse)
      with run Inr body have "res = Inr \<lparr>res_data = d, res_replayed = False\<rparr> \<and> w_store w' = s2"
        by (auto simp: idem_finish_def on_store_def)
      with mark_ok_done [OF ok s2 q(1)] q(2) Inr body show ?thesis by (auto simp: finished_as_def)
    qed
  qed
qed

lemma execute_exact:
  assumes ok: "wok w" and keyed: "keyed cd opts key fp"
    and run: "idem_execute cd (Some repo) cfg ck opts (Some f) w = (res, w')"
  shows "case claim_view cd (wrecs w) (req_key cd opts key) fp (ck_start ck) of
      MustRefuse e \<Rightarrow> res = Inl e
    | MustReplay d \<Rightarrow> res = Inr \<lparr>res_data = d, res_replayed = True\<rparr>
    | MayClaim \<Rightarrow> w_app w' = snd (f (w_app w)) \<and>
       (case fst (f (w_app w)) of
          Inl e \<Rightarrow> res = Inl e \<and> (\<exists>q. wrecs w' (req_key cd opts key) = Some q \<and> ir_fingerprint q = fp \<and>
            finished_as q (t_add (ck_end ck) (ic_failed_backoff cfg)) (req_expiry cfg ck opts) (Inl e))
        | Inr d \<Rightarrow> (case marshal_stored cd cfg d of
             Inl e \<Rightarrow> res = Inl (with_cause err_store_unavail (Some e))
           | Inr body \<Rightarrow> res = Inr \<lparr>res_data = d, res_replayed = False\<rparr> \<and>
               (\<exists>q. wrecs w' (req_key cd opts key) = Some q \<and> ir_fingerprint q = fp \<and>
                  finished_as q (ck_end ck) (req_expiry cfg ck opts) (Inr body))))"
proof -
  let ?k = "req_key cd opts key"
  let ?locked = "t_add (ck_start ck) (ic_processing_timeout cfg)"
  let ?expires = "t_add (ck_start ck) (req_ttl cfg opts)"
  obtain c w1 where claim: "idem_claim cd repo (io_scope opts) (hash_key cd key) fp (ck_start ck) ?locked ?expires w = (c, w1)"
    by fastforce
  note eff = claim_effect [OF ok claim, folded req_key_def]
  have view: "claim_is (claim_view cd (wrecs w) ?k fp (ck_start ck)) c"
    using claim_exact [OF ok, of cd "io_scope opts" "hash_key cd key" fp "ck_start ck" ?locked ?expires] claim
    by (simp add: req_key_def)
  note run' = run [unfolded execute_keyed [OF keyed] claim]
  show ?thesis
  proof (cases c)
    case (Refused e)
    with view run' show ?thesis by (auto simp: claim_is_def split: view.splits)
  next
    case (Replay d)
    with view run' show ?thesis by (auto simp: claim_is_def split: view.splits)
  next
    case (Claimed i)
    with eff have w1: "wok w1" "held_by (wrecs w1) ?k i fp" "w_app w1 = w_app w"
      and v: "claim_view cd (wrecs w) ?k fp (ck_start ck) = MayClaim" by (auto simp: claim_effect_def)
    define w2 where "w2 = (if io_timeout opts > 0
      then renew_loop repo i fp (renew_lease_of cfg) (req_ttl cfg opts) (ck_ticks ck) w1 else w1)"
    have w2: "wok w2" "w_app w2 = w_app w" "held_by (wrecs w2) ?k i fp"
      using renew_effect [OF w1(1,2)] w1 by (simp_all add: w2_def)
    obtain outcome a where f: "f (w_app w) = (outcome, a)" by fastforce
    obtain r w4 where fin: "idem_finish cd repo cfg i (ck_end ck) (req_expiry cfg ck opts) outcome (w2\<lparr>w_app := a\<rparr>) = (r, w4)"
      by fastforce
    have exp: "(if io_timeout opts > 0 then t_add (ck_end ck) (req_ttl cfg opts)
        else t_add (ck_start ck) (req_ttl cfg opts)) = req_expiry cfg ck opts"
      by (simp add: req_expiry_def)
    have rex: "run_executor f w2 = (outcome, w2\<lparr>w_app := a\<rparr>)" by (simp add: run_executor_def w2(2) f)
    have "idem_run cd repo cfg ck opts fp (req_ttl cfg opts) i f w1 = (res, w')" using run' Claimed by simp
    then have "res = r" "w_store w' = w_store w4" "w_app w' = w_app w4"
      unfolding idem_run_def Let_def w2_def [symmetric] rex exp by (auto simp: fin)
    moreover have "w_app w4 = a"
      using finish_effect(2) [OF _ _ fin, of ?k fp] w2 by simp
    moreover note finish_exact [OF _ _ fin, of ?k fp]
    ultimately show ?thesis using v f w2 by (auto split: sum.splits)
  qed
qed

end

end
