(* ===== verification/Idem_Props.thy ===== *)
theory Idem_Props
  imports Idem_Correct
begin

text \<open>
  The properties of the idempotency coordinator on its SQL store, each with a witness at a concrete
  request. The generic lemmas of \<open>Idem_Correct\<close> are used through the interpretations \<open>sql\<close> (any
  statement may fail) and \<open>sql_live\<close> (none does).
\<close>

section \<open>Keys\<close>

abbreviation "printable \<equiv> list_all (\<lambda>c. byte_between 33 c 126)"

lemma lead_len_printable:
  assumes "printable s" and "\<forall>p \<in> set ps. p \<noteq> [] \<and> \<not> byte_between 33 (hd p) 126"
  shows "lead_len ps s = 0"
proof -
  have "find (\<lambda>p. take (length p) s = p) ps = None"
  proof (rule ccontr)
    assume "find (\<lambda>p. take (length p) s = p) ps \<noteq> None"
    then obtain p where p: "p \<in> set ps" "take (length p) s = p" by (auto simp: find_None_iff)
    with assms(2) have "hd p \<in> set s" by (metis hd_in_set in_set_takeD)
    with assms p(1) show False by (auto simp: list_all_iff)
  qed
  then show ?thesis by (simp add: lead_len_def)
qed

lemma trim_space_printable: "printable s \<Longrightarrow> trim_space s = s"
proof -
  assume p: "printable s"
  have a: "lead_len space_seqs s = 0"
    using p by (rule lead_len_printable) (simp add: space_seqs_def byte_between_def byte_of_def)
  have b: "lead_len (map rev space_seqs) (rev s) = 0"
    by (rule lead_len_printable) (use p in \<open>simp_all add: space_seqs_def byte_between_def byte_of_def list_all_iff\<close>)
  show ?thesis using a b by (simp add: trim_space_def strip_lead.simps)
qed

text \<open>
  \<open>NormalizeIdempotencyKey\<close> accepts exactly the keys that are, after trimming, at most
  128 characters between 33 and 126 (or empty); the accepted key is the trimmed one and is a fixed
  point, so the key a client sees in an answer names the same record when it is sent again.
\<close>

theorem normalize_key_spec:
  "(normalize_key raw = Inr key \<longleftrightarrow>
      key = trim_space raw \<and> length key \<le> 128 \<and> printable key \<and> normalize_key key = Inr key) \<and>
   (normalize_key raw = Inl e \<longleftrightarrow>
      e = err_key_invalid \<and> \<not> (length (trim_space raw) \<le> 128 \<and> printable (trim_space raw)))"
proof -
  have bad: "list_ex (\<lambda>r. byte_of r < 33 \<or> byte_of r > 126) k \<longleftrightarrow> \<not> printable k" for k
    by (auto simp: list_ex_iff list_all_iff byte_between_def not_le)
  have eq: "normalize_key raw = (if length (trim_space raw) \<le> 128 \<and> printable (trim_space raw)
      then Inr (trim_space raw) else Inl err_key_invalid)" for raw
    by (simp add: normalize_key_def Let_def bad)
  show ?thesis using trim_space_printable by (auto simp: eq)
qed

section \<open>Stored responses\<close>

lemma rune_at_take:
  assumes r: "rune_at s = (k, True)" and n: "k \<le> n"
  shows "rune_at (take n s) = (k, True)"
proof -
  obtain a s1 where s: "s = a # s1" using r by (cases s) (auto simp: rune_at_def)
  have "0 < k" using rune_at_pos [of s] r s by simp
  then obtain n1 where n1: "n = Suc n1" using n by (cases n) auto
  show ?thesis
  proof (cases "k = 1")
    case True
    with r s show ?thesis by (auto simp: rune_at_def n1 split: if_splits list.splits)
  next
    case False
    then obtain b s2 where s1: "s1 = b # s2" using r s by (cases s1) (auto simp: rune_at_def split: if_splits)
    obtain n2 where n2: "n1 = Suc n2" using False n n1 \<open>0 < k\<close> by (cases n1) auto
    show ?thesis
    proof (cases "k = 2")
      case True
      with r s s1 show ?thesis by (auto simp: rune_at_def n1 n2 split: if_splits list.splits)
    next
      case k2: False
      then obtain c s3 where s2: "s2 = c # s3"
        using r s s1 False by (cases s2) (auto simp: rune_at_def split: if_splits)
      obtain n3 where n3: "n2 = Suc n3" using False k2 n n1 n2 \<open>0 < k\<close> by (cases n2) auto
      show ?thesis
      proof (cases "k = 3")
        case True
        with r s s1 s2 show ?thesis by (auto simp: rune_at_def n1 n2 n3 split: if_splits list.splits)
      next
        case k3: False
        then obtain d s4 where s3: "s3 = d # s4"
          using r s s1 s2 False k2 by (cases s3) (auto simp: rune_at_def split: if_splits)
        obtain n4 where n4: "n3 = Suc n4" using False k2 k3 n n1 n2 n3 \<open>0 < k\<close> by (cases n3) auto
        show ?thesis using r s s1 s2 s3 by (simp add: rune_at_def n1 n2 n3 n4 split: if_splits)
      qed
    qed
  qed
qed

lemma rune_at_le_4: "fst (rune_at s) \<le> 4"
  by (auto simp: rune_at_def split: list.splits)

lemma valid_prefix_near:
  "valid_utf8 s \<Longrightarrow> n \<le> length s \<Longrightarrow> \<exists>j \<le> n. n \<le> j + 3 \<and> valid_utf8 (take j s)"
proof (induction s arbitrary: n rule: valid_utf8.induct)
  case (1 s)
  show ?case
  proof (cases "s = []")
    case True
    with 1 show ?thesis by auto
  next
    case False
    define k where "k = fst (rune_at s)"
    have r: "rune_at s = (k, True)" and v: "valid_utf8 (drop k s)"
      using 1(2) False by (auto simp: valid_utf8.simps [of s] k_def prod_eq_iff)
    show ?thesis
    proof (cases "n < k")
      case True
      then have "n \<le> 0 + 3" using rune_at_le_4 [of s] by (simp add: k_def)
      then show ?thesis using valid_utf8_Nil by (metis le0 take0)
    next
      case far: False
      obtain j where j: "j \<le> n - k" "n - k \<le> j + 3" "valid_utf8 (take j (drop k s))"
        using 1(1) [OF False v [unfolded k_def], of "n - k"] 1(3) diff_le_mono by (auto simp: k_def)
      have "0 < k" using rune_at_pos [OF False] by (simp add: k_def)
      then have "take (k + j) s \<noteq> []" using False by auto
      moreover have "rune_at (take (k + j) s) = (k, True)" using r by (rule rune_at_take) simp
      moreover have "drop k (take (k + j) s) = take j (drop k s)" by (simp add: drop_take)
      ultimately have "valid_utf8 (take (k + j) s)"
        using j(3) by (simp add: valid_utf8.simps [of "take (k + j) s"])
      moreover have "k + j \<le> n" "n \<le> k + j + 3" using j far by auto
      ultimately show ?thesis by blast
    qed
  qed
qed

lemma valid_cut_spec:
  "valid_cut s n \<le> n \<and> valid_utf8 (take (valid_cut s n) s) \<and>
     (\<forall>j \<le> n. valid_utf8 (take j s) \<longrightarrow> j \<le> valid_cut s n)"
proof (induction n)
  case (Suc n)
  then show ?case using le_Suc_eq by auto
qed simp

text \<open>
  \<open>truncateUTF8\<close> never exceeds its limit, returns a prefix, never cuts a rune of a valid
  string, and drops at most three bytes more than the limit demands.
\<close>

theorem truncate_utf8_spec:
  assumes "valid_utf8 s" and "0 < limit" and "limit < int (length s)"
  shows "int (length (truncate_utf8 s limit)) \<le> limit \<and>
    limit - 3 \<le> int (length (truncate_utf8 s limit)) \<and>
    valid_utf8 (truncate_utf8 s limit) \<and>
    take (length (truncate_utf8 s limit)) s = truncate_utf8 s limit"
proof -
  define n where "n = nat limit"
  define c where "c = valid_cut s n"
  have n: "n \<le> length s" "int n = limit" using assms by (simp_all add: n_def)
  have t: "truncate_utf8 s limit = take c s"
    using assms by (simp add: truncate_utf8_def n_def c_def)
  have c: "c \<le> n" "valid_utf8 (take c s)" "\<And>j. j \<le> n \<Longrightarrow> valid_utf8 (take j s) \<Longrightarrow> j \<le> c"
    using valid_cut_spec [of s n] by (auto simp: c_def)
  obtain j where "j \<le> n" "n \<le> j + 3" "valid_utf8 (take j s)"
    using valid_prefix_near [OF assms(1) n(1)] by blast
  with c(3) have "n \<le> c + 3" by fastforce
  with c n t show ?thesis by simp
qed

theorem truncate_utf8_spec_witness:
  "truncate_utf8 [CHR 0x61, CHR 0xC3, CHR 0xA9, CHR 0x62] 2 = [CHR 0x61] \<and>
   valid_utf8 (truncate_utf8 [CHR 0x61, CHR 0xC3, CHR 0xA9, CHR 0x62] 2)"
proof -
  have v: "valid_utf8 [CHR 0x61, CHR 0xC3, CHR 0xA9, CHR 0x62]" by code_simp
  have "truncate_utf8 [CHR 0x61, CHR 0xC3, CHR 0xA9, CHR 0x62] 2 = [CHR 0x61]" by code_simp
  with truncate_utf8_spec [OF v, of 2] show ?thesis by simp
qed

section \<open>Refusals\<close>

lemma digit_printable: "is_digit c \<Longrightarrow> byte_between 33 c 126"
  by (simp add: is_digit_def byte_between_def)

text \<open>
  The number of seconds that a conflict tells the client to wait is never less than one,
  is the whole seconds left of the lock when there is more than one, and is read back unchanged by
  \<open>RetryAfterSecondsFromError\<close>, which feeds the \<open>Retry-After\<close> header.
\<close>

theorem retry_after_roundtrip:
  assumes "l = now + d" and "in_int64 d"
  shows "retry_after_seconds (conflict_with_retry_after err_in_progress (Some l) now) = max 1 (quot d second) \<and>
    errors_is (conflict_with_retry_after err_in_progress (Some l) now) err_in_progress"
proof -
  define sec where "sec = max 1 (quot d second)"
  have d: "t_sub l now = d" using assms t_sub_exact [of l now] by simp
  have q: "quot d second \<le> max_int64"
    using assms(2) by (auto simp: quot_def second_def in_int64_def max_int64_def min_int64_def)
  have e: "conflict_with_retry_after err_in_progress (Some l) now =
      with_metadata err_in_progress (Some [(''retry_after'', itoa sec)])"
    by (auto simp: conflict_with_retry_after_def Let_def d sec_def max_def)
  have in64: "in_int64 sec" using q by (auto simp: sec_def in_int64_def max_int64_def min_int64_def)
  have nosign: "itoa sec = show_nat (nat sec)" by (simp add: itoa_def sec_def)
  have "printable (itoa sec)"
    using show_nat_digits [of _ "nat sec"] by (auto simp: nosign list_all_iff intro: digit_printable)
  then have "trim_space (itoa sec) = itoa sec" by (rule trim_space_printable)
  then have "retry_after_seconds (conflict_with_retry_after err_in_progress (Some l) now) = sec"
    unfolding e by (simp add: retry_after_seconds_def err_in_progress_def conflict_err_def err_new_def
        Let_def nosign atoi_itoa [OF in64, unfolded nosign]) (simp add: sec_def)
  then show ?thesis
    unfolding sec_def e by (simp add: err_in_progress_def conflict_err_def errors_is_with_metadata)
qed

theorem retry_after_roundtrip_witness:
  "retry_after_seconds (conflict_with_retry_after err_in_progress (Some (7 + 2500000000)) 7) = 2"
proof -
  have "in_int64 2500000000" and "quot 2500000000 second = 2" by code_simp+
  with retry_after_roundtrip [OF refl, of 2500000000 7] show ?thesis by simp
qed

section \<open>Execute on the SQL store\<close>

text \<open>A small codec and a world for the witnesses.\<close>

definition demo_codec :: "(string, string) codec" where
  "demo_codec = \<lparr>cd_sha256_hex = (\<lambda>s. s), cd_marshal_payload = Inr, cd_marshal = Inr,
     cd_unmarshal = (\<lambda>s. if drop (length s - length truncated_mark) s = truncated_mark
        then Inl (PlainErr ''invalid character'') else Inr s),
     cd_redact = (\<lambda>s. s), cd_empty_map = ''{}''\<rparr>"

definition demo_opts :: "string idem_options" where
  "demo_opts = \<lparr>io_scope = ''wallet'', io_actor = ''user:7'', io_method = ''post'', io_route = ''/pay'',
     io_key = '' key-1 '', io_payload = ''10'', io_ttl = 1000, io_require_key = True, io_timeout = 0\<rparr>"

definition demo_cfg :: idem_config where
  "demo_cfg = \<lparr>ic_default_ttl = 1000, ic_system_ttl = 1000, ic_processing_timeout = 30,
     ic_failed_backoff = 5, ic_max_stored = 8, ic_observe_only = False\<rparr>"

definition demo_world :: "(idem_db, nat) iworld" where
  "demo_world = \<lparr>w_store = \<lparr>idb_tab = tab_empty, idb_now = 100, idb_faults = []\<rparr>, w_app = 0,
     w_events = [], w_metrics = zero_metrics\<rparr>"

definition demo_clock :: "gtime \<Rightarrow> idem_clock" where
  "demo_clock t = \<lparr>ck_start = t, ck_ticks = [], ck_end = t + 3\<rparr>"

definition pay :: "(nat, string) executor" where "pay n = (Inr ''ok'', Suc n)"
definition pay_fails :: "(nat, string) executor" where
  "pay_fails n = (Inl (bad_request ''DECLINED'' ''declined''), n)"
definition pay_long :: "(nat, string) executor" where "pay_long n = (Inr ''0123456789'', Suc n)"

lemma demo_up: "sql_up (w_store demo_world)"
  by (simp add: demo_world_def sql_up_def sql_ok_def)

lemma demo_keyed: "keyed demo_codec demo_opts ''key-1'' ''POST\<newline>/pay\<newline>user:7\<newline>10''"
  by code_simp

text \<open>
  Claim C2. A request with a key on a store that answers does exactly what the specification
  \<open>claim_view\<close> reads off the one record of its scope and key: a free key runs the executor once and
  records its outcome (an error with its back-off, data with the encoded body), a finished key
  replays the stored body, and a key with another payload, in progress or in back-off is refused
  with its specific error.
\<close>

theorem execute_refines_view:
  assumes "sql_up (w_store w)" and "keyed cd opts key fp"
    and "idem_execute cd (Some sql_idem_repo) cfg ck opts (Some f) w = (res, w')"
  shows "case claim_view cd (sql_recs (w_store w)) (req_key cd opts key) fp (ck_start ck) of
      MustRefuse e \<Rightarrow> res = Inl e
    | MustReplay d \<Rightarrow> res = Inr \<lparr>res_data = d, res_replayed = True\<rparr>
    | MayClaim \<Rightarrow> w_app w' = snd (f (w_app w)) \<and>
       (case fst (f (w_app w)) of
          Inl e \<Rightarrow> res = Inl e \<and> (\<exists>q. sql_recs (w_store w') (req_key cd opts key) = Some q \<and>
            ir_fingerprint q = fp \<and>
            finished_as q (t_add (ck_end ck) (ic_failed_backoff cfg)) (req_expiry cfg ck opts) (Inl e))
        | Inr d \<Rightarrow> (case marshal_stored cd cfg d of
             Inl e \<Rightarrow> res = Inl (with_cause err_store_unavail (Some e))
           | Inr body \<Rightarrow> res = Inr \<lparr>res_data = d, res_replayed = False\<rparr> \<and>
               (\<exists>q. sql_recs (w_store w') (req_key cd opts key) = Some q \<and> ir_fingerprint q = fp \<and>
                  finished_as q (ck_end ck) (req_expiry cfg ck opts) (Inr body))))"
  by (rule sql_live.execute_exact [OF assms])

theorem execute_refines_view_witness:
  "\<exists>res w'. idem_execute demo_codec (Some sql_idem_repo) demo_cfg (demo_clock 50) demo_opts (Some pay) demo_world =
     (res, w') \<and> w_app w' = 1 \<and> res = Inr \<lparr>res_data = ''ok'', res_replayed = False\<rparr>"
proof -
  obtain res w' where run: "idem_execute demo_codec (Some sql_idem_repo) demo_cfg (demo_clock 50) demo_opts (Some pay)
      demo_world = (res, w')" by fastforce
  have "claim_view demo_codec (sql_recs (w_store demo_world)) (req_key demo_codec demo_opts ''key-1'')
      ''POST\<newline>/pay\<newline>user:7\<newline>10'' (ck_start (demo_clock 50)) = MayClaim"
    by (simp add: claim_view_def sql_recs_def demo_world_def tab_find_def tab_empty_def)
  moreover have "marshal_stored demo_codec demo_cfg ''ok'' = Inr ''ok''" by code_simp
  ultimately show ?thesis
    using execute_refines_view [OF demo_up demo_keyed run] run by (simp add: pay_def demo_world_def)
qed

text \<open>
  Claim C4. At most once: after a request has run its executor and stored the outcome, every later
  request with the same scope and key that starts before the record expires leaves the application
  as it is and answers an error or the stored body, whatever statements of the store fail, however
  many requests there are and whatever their payloads.
\<close>

theorem at_most_once:
  assumes "sql_ok (w_store w)" and "keyed cd opts key fp"
    and "idem_execute cd (Some sql_idem_repo) cfg ck opts (Some f) w = (Inr r, w')" and "\<not> res_replayed r"
    and "\<forall>(ck', opts', f') \<in> set later. repeats cd (req_key cd opts key) (req_expiry cfg ck opts) ck' opts'"
  shows "\<exists>body. marshal_stored cd cfg (res_data r) = Inr body \<and>
    w_app (snd (run_requests cd sql_idem_repo cfg later w')) = w_app w' \<and>
    list_all (only_replays cd body) (fst (run_requests cd sql_idem_repo cfg later w'))"
proof -
  note eff = sql.execute_effect [OF assms(1-3)]
  obtain q body where q: "sql_recs (w_store w') (req_key cd opts key) = Some q"
    "finished_as q (ck_end ck) (req_expiry cfg ck opts) (Inr body)" and m: "marshal_stored cd cfg (res_data r) = Inr body"
    using eff(3) assms(4) by (auto simp: run_recorded_def split: option.splits sum.splits)
  from sql.sealed_trace [OF eff(1) q assms(5), of cfg] m show ?thesis by (auto simp: list_all_iff)
qed

theorem at_most_once_witness:
  "w_app (snd (run_requests demo_codec sql_idem_repo demo_cfg
     [(demo_clock 200, demo_opts, pay), (demo_clock 300, demo_opts\<lparr>io_payload := ''11''\<rparr>, pay)]
     (snd (idem_execute demo_codec (Some sql_idem_repo) demo_cfg (demo_clock 50) demo_opts (Some pay) demo_world)))) = 1"
proof -
  obtain res w' where run: "idem_execute demo_codec (Some sql_idem_repo) demo_cfg (demo_clock 50) demo_opts (Some pay)
      demo_world = (res, w')" by fastforce
  have free: "claim_view demo_codec (sql_recs (w_store demo_world)) (req_key demo_codec demo_opts ''key-1'')
      ''POST\<newline>/pay\<newline>user:7\<newline>10'' (ck_start (demo_clock 50)) = MayClaim"
    by (simp add: claim_view_def sql_recs_def demo_world_def tab_find_def tab_empty_def)
  moreover have "marshal_stored demo_codec demo_cfg ''ok'' = Inr ''ok''" by code_simp
  ultimately have res: "res = Inr \<lparr>res_data = ''ok'', res_replayed = False\<rparr>" and app: "w_app w' = 1"
    using sql_live.execute_exact [OF demo_up demo_keyed run] by (simp_all add: pay_def demo_world_def)
  have reps: "repeats demo_codec (req_key demo_codec demo_opts ''key-1'') (req_expiry demo_cfg (demo_clock 50) demo_opts)
      (demo_clock 200) demo_opts"
    "repeats demo_codec (req_key demo_codec demo_opts ''key-1'') (req_expiry demo_cfg (demo_clock 50) demo_opts)
      (demo_clock 300) (demo_opts\<lparr>io_payload := ''11''\<rparr>)" by code_simp+
  define later where "later = [(demo_clock 200, demo_opts, pay), (demo_clock 300, demo_opts\<lparr>io_payload := ''11''\<rparr>, pay)]"
  have "\<forall>(ck', opts', f') \<in> set later. repeats demo_codec (req_key demo_codec demo_opts ''key-1'')
      (req_expiry demo_cfg (demo_clock 50) demo_opts) ck' opts'" using reps by (simp add: later_def)
  from at_most_once [OF sql_up_ok [OF demo_up] demo_keyed run [unfolded res] _ this] app run
  show ?thesis unfolding later_def [symmetric] by auto
qed

text \<open>
  Claim C24. Execute is fail-closed and touches one key: whatever statements of the store fail, the
  application changes only when the record of the key allowed a claim, by exactly one run of the
  executor; a refusal or replay leaves application and records as they were and the refusal is
  \<open>IDEMPOTENCY_STORE_UNAVAILABLE\<close> or the one the specification names; a claim leaves the records of
  all other keys as they were.
\<close>

theorem execute_fail_closed:
  assumes "sql_ok (w_store w)" and "keyed cd opts key fp"
    and "idem_execute cd (Some sql_idem_repo) cfg ck opts (Some f) w = (res, w')"
  shows "let k = req_key cd opts key; v = claim_view cd (sql_recs (w_store w)) k fp (ck_start ck) in
    sql_ok (w_store w') \<and>
    ((\<exists>e. res = Inl e \<and> (errors_is e err_store_unavail \<or> v = MustRefuse e) \<and>
        w_app w' = w_app w \<and> sql_recs (w_store w') = sql_recs (w_store w)) \<or>
     (\<exists>d. res = Inr \<lparr>res_data = d, res_replayed = True\<rparr> \<and> v = MustReplay d \<and>
        w_app w' = w_app w \<and> sql_recs (w_store w') = sql_recs (w_store w)) \<or>
     (v = MayClaim \<and> w_app w' = snd (f (w_app w)) \<and>
        (\<forall>k'. k' \<noteq> k \<longrightarrow> sql_recs (w_store w') k' = sql_recs (w_store w) k') \<and>
        run_recorded cd cfg ck opts fp (sql_recs (w_store w') k) (fst (f (w_app w))) res))"
  using sql.execute_effect [OF assms] unfolding Let_def by blast

theorem execute_fail_closed_witness:
  "w_app (snd (idem_execute demo_codec (Some sql_idem_repo) demo_cfg (demo_clock 50) demo_opts (Some pay)
     (demo_world\<lparr>w_store := (w_store demo_world)\<lparr>idb_faults := [True]\<rparr>\<rparr>))) \<le> 1"
proof -
  let ?w = "demo_world\<lparr>w_store := (w_store demo_world)\<lparr>idb_faults := [True]\<rparr>\<rparr>"
  obtain res w' where run: "idem_execute demo_codec (Some sql_idem_repo) demo_cfg (demo_clock 50) demo_opts (Some pay)
      ?w = (res, w')" by fastforce
  have ok: "sql_ok (w_store ?w)" by (simp add: demo_world_def sql_ok_def)
  from execute_fail_closed [OF ok demo_keyed run] run show ?thesis
    by (auto simp: Let_def demo_world_def pay_def)
qed

text \<open>
  Claim C15. Retry after a failure: when the executor fails on a store that answers, the caller gets
  the executor's error; a retry of the same request before the end of the back-off is refused with
  \<open>IDEMPOTENCY_RETRY_BACKOFF\<close> and does not run, and a retry from then on runs the executor again.
\<close>

theorem failed_then_retry:
  assumes "sql_up (w_store w)" and "keyed cd opts key fp"
    and "claim_view cd (sql_recs (w_store w)) (req_key cd opts key) fp (ck_start ck) = MayClaim"
    and "fst (f (w_app w)) = Inl e"
    and "idem_execute cd (Some sql_idem_repo) cfg ck opts (Some f) w = (res, w1)"
    and "idem_execute cd (Some sql_idem_repo) cfg ck2 opts (Some g) w1 = (res2, w2)"
  shows "res = Inl e \<and>
    (if ck_start ck2 < ck_end ck + ic_failed_backoff cfg
     then w_app w2 = w_app w1 \<and> (\<exists>e2. res2 = Inl e2 \<and> errors_is e2 err_retry_backoff)
     else w_app w2 = snd (g (w_app w1)))"
proof -
  let ?k = "req_key cd opts key"
  let ?until = "t_add (ck_end ck) (ic_failed_backoff cfg)"
  from sql_live.execute_exact [OF assms(1,2,5)] assms(3,4) obtain q where res: "res = Inl e"
    and q: "sql_recs (w_store w1) ?k = Some q" "ir_fingerprint q = fp" "finished_as q ?until (req_expiry cfg ck opts) (Inl e)"
    by auto
  have up: "sql_up (w_store w1)" using sql_live.execute_effect(1) [OF assms(1,2,5)] .
  have view: "claim_view cd (sql_recs (w_store w1)) ?k fp (ck_start ck2) =
      (if ck_start ck2 < ?until
       then MustRefuse (conflict_with_retry_after err_retry_backoff (Some ?until) (ck_start ck2)) else MayClaim)"
    using q by (auto simp: claim_view_def claimable_def lease_free_def finished_as_def refusal_def)
  have e: "errors_is (conflict_with_retry_after err_retry_backoff (Some ?until) (ck_start ck2)) err_retry_backoff"
    by (simp add: conflict_with_retry_after_def Let_def err_retry_backoff_def conflict_err_def errors_is_with_metadata)
  show ?thesis
    using sql_live.execute_exact [OF up assms(2,6)] sql_live.execute_effect(2) [OF up assms(2,6)] res view e
    by (auto simp: t_add_def split: if_splits)
qed

theorem failed_then_retry_witness:
  "\<exists>res w1 res2 w2.
     idem_execute demo_codec (Some sql_idem_repo) demo_cfg (demo_clock 50) demo_opts (Some pay_fails) demo_world = (res, w1) \<and>
     idem_execute demo_codec (Some sql_idem_repo) demo_cfg (demo_clock 58) demo_opts (Some pay) w1 = (res2, w2) \<and>
     w_app w2 = Suc (w_app w1)"
proof -
  obtain res w1 where run: "idem_execute demo_codec (Some sql_idem_repo) demo_cfg (demo_clock 50) demo_opts
      (Some pay_fails) demo_world = (res, w1)" by fastforce
  obtain res2 w2 where run2: "idem_execute demo_codec (Some sql_idem_repo) demo_cfg (demo_clock 58) demo_opts
      (Some pay) w1 = (res2, w2)" by fastforce
  have free: "claim_view demo_codec (sql_recs (w_store demo_world)) (req_key demo_codec demo_opts ''key-1'')
      ''POST\<newline>/pay\<newline>user:7\<newline>10'' (ck_start (demo_clock 50)) = MayClaim"
    by (simp add: claim_view_def sql_recs_def demo_world_def tab_find_def tab_empty_def)
  have fails: "fst (pay_fails (w_app demo_world)) = Inl (bad_request ''DECLINED'' ''declined'')"
    by (simp add: pay_fails_def)
  from failed_then_retry [OF demo_up demo_keyed free fails run run2] run run2 show ?thesis
    by (auto simp: demo_clock_def demo_cfg_def pay_def)
qed

text \<open>
  Claim C31. A body longer than \<open>MaxStoredResponseLen\<close> is stored cut and with the mark
  \<open>...(truncated)\<close> after it. No JSON text ends in that mark, so a decoder that rejects such texts
  makes every later request with that key and payload fail with
  \<open>IDEMPOTENCY_STORE_UNAVAILABLE\<close> until the record expires, although the operation succeeded.
\<close>

theorem truncated_never_replays:
  assumes "sql_up (w_store w)" and "keyed cd opts key fp"
    and "\<forall>s. \<exists>e. cd_unmarshal cd (s @ truncated_mark) = Inl e"
    and "cd_marshal cd (res_data r) = Inr raw" and "ic_max_stored cfg < int (length (cd_redact cd raw))"
      "0 < ic_max_stored cfg"
    and "idem_execute cd (Some sql_idem_repo) cfg ck opts (Some f) w = (Inr r, w1)" and "\<not> res_replayed r"
    and "ck_start ck2 < req_expiry cfg ck opts"
    and "idem_execute cd (Some sql_idem_repo) cfg ck2 opts (Some g) w1 = (res2, w2)"
  shows "\<exists>e. res2 = Inl e \<and> errors_is e err_store_unavail \<and> w_app w2 = w_app w1"
proof -
  let ?k = "req_key cd opts key"
  have up: "sql_up (w_store w1)" by (rule sql_live.execute_effect(1) [OF assms(1,2,7)])
  obtain q body where q: "sql_recs (w_store w1) ?k = Some q" "ir_fingerprint q = fp"
    "finished_as q (ck_end ck) (req_expiry cfg ck opts) (Inr body)" and m: "marshal_stored cd cfg (res_data r) = Inr body"
    using sql_live.execute_effect(3) [OF assms(1,2,7)] assms(8)
    by (auto simp: run_recorded_def split: option.splits sum.splits)
  from m assms(4-6) have body: "body = truncate_utf8 (cd_redact cd raw) (ic_max_stored cfg) @ truncated_mark"
    by (simp add: marshal_stored_def Let_def)
  let ?t = "truncate_utf8 (cd_redact cd raw) (ic_max_stored cfg)"
  obtain e0 where e0: "cd_unmarshal cd (?t @ truncated_mark) = Inl e0" using assms(3) by blast
  have "CHR '')'' \<in> set (trim_space (?t @ truncated_mark))"
    by (rule trim_space_keeps) (simp_all add: space_seqs_def truncated_mark_def)
  then have "trim_space (?t @ truncated_mark) \<noteq> []" by auto
  then have "claim_view cd (sql_recs (w_store w1)) ?k fp (ck_start ck2) =
      MustRefuse (with_cause err_store_unavail (Some (WrapErr ''decode stored response'' e0)))"
    using q assms(9) e0 by (simp add: claim_view_def claimable_def finished_as_def decode_stored_def body)
  then show ?thesis
    using sql_live.execute_exact [OF up assms(2,10)] sql_live.execute_effect(2) [OF up assms(2,10)] by simp
qed

theorem truncated_never_replays_witness:
  "\<exists>e. fst (idem_execute demo_codec (Some sql_idem_repo) demo_cfg (demo_clock 60) demo_opts (Some pay_long)
     (snd (idem_execute demo_codec (Some sql_idem_repo) demo_cfg (demo_clock 50) demo_opts (Some pay_long) demo_world))) =
     Inl e \<and> errors_is e err_store_unavail"
proof -
  obtain res w1 where run: "idem_execute demo_codec (Some sql_idem_repo) demo_cfg (demo_clock 50) demo_opts
      (Some pay_long) demo_world = (res, w1)" by fastforce
  obtain res2 w2 where run2: "idem_execute demo_codec (Some sql_idem_repo) demo_cfg (demo_clock 60) demo_opts
      (Some pay_long) w1 = (res2, w2)" by fastforce
  have free: "claim_view demo_codec (sql_recs (w_store demo_world)) (req_key demo_codec demo_opts ''key-1'')
      ''POST\<newline>/pay\<newline>user:7\<newline>10'' (ck_start (demo_clock 50)) = MayClaim"
    by (simp add: claim_view_def sql_recs_def demo_world_def tab_find_def tab_empty_def)
  have "marshal_stored demo_codec demo_cfg ''0123456789'' = Inr ''01234567...(truncated)''" by code_simp
  with sql_live.execute_exact [OF demo_up demo_keyed run] free
  have res: "res = Inr \<lparr>res_data = ''0123456789'', res_replayed = False\<rparr>"
    by (simp add: pay_long_def)
  have dec: "\<forall>s. \<exists>e. cd_unmarshal demo_codec (s @ truncated_mark) = Inl e" by (simp add: demo_codec_def)
  have long: "cd_marshal demo_codec (res_data \<lparr>res_data = ''0123456789'', res_replayed = False\<rparr>) = Inr ''0123456789''"
    "ic_max_stored demo_cfg < int (length (cd_redact demo_codec ''0123456789''))" "0 < ic_max_stored demo_cfg"
    by (simp_all add: demo_codec_def demo_cfg_def)
  have live: "ck_start (demo_clock 60) < req_expiry demo_cfg (demo_clock 50) demo_opts" by code_simp
  from truncated_never_replays [OF demo_up demo_keyed dec long run [unfolded res] _ live run2] run run2
  show ?thesis by auto
qed

section \<open>Cleanup\<close>

lemma victims_expired:
  "i \<in> set (map ir_id (take n (sort_key ir_expires_at (tab_select (\<lambda>r. ir_expires_at r \<le> now) t)))) \<Longrightarrow>
     \<exists>r \<in> set (t_rows t). ir_id r = i \<and> ir_expires_at r \<le> now"
  by (auto simp: tab_select_def dest!: in_set_takeD)

lemma count_in_victims:
  assumes "distinct (map rid rs)"
  shows "length (filter (\<lambda>r. rid r \<in> set vs) rs) \<le> length vs"
proof -
  have "length (filter (\<lambda>r. rid r \<in> set vs) rs) = card (rid ` set (filter (\<lambda>r. rid r \<in> set vs) rs))"
    using assms by (metis distinct_card distinct_map_filter length_map set_map)
  also have "\<dots> \<le> card (set vs)" by (rule card_mono) auto
  also have "\<dots> \<le> length vs" by (rule card_length)
  finally show ?thesis .
qed

text \<open>
  One round of the cleanup deletes expired records only, at most its batch of them
  (500 when the batch is not positive), and all of them when they fit in the batch; what it keeps
  is unchanged.
\<close>

theorem cleanup_only_expired:
  assumes "sql_up db" and "sql_delete_expired now batch db = (res, db')"
  shows "sql_up db' \<and> (\<exists>n. res = Inr n \<and> n \<le> (if batch \<le> 0 then 500 else batch)) \<and>
    (\<forall>k. sql_recs db' k = sql_recs db k \<or>
       (case sql_recs db k of None \<Rightarrow> False | Some q \<Rightarrow> ir_expires_at q \<le> now \<and> sql_recs db' k = None)) \<and>
    (int (length (tab_select (\<lambda>r. ir_expires_at r \<le> now) (idb_tab db))) \<le> (if batch \<le> 0 then 500 else batch) \<longrightarrow>
       (\<forall>k. case sql_recs db' k of None \<Rightarrow> True | Some q \<Rightarrow> now < ir_expires_at q))"
proof -
  define lim where "lim = (if batch \<le> 0 then 500 else batch)"
  define old where "old = tab_select (\<lambda>r. ir_expires_at r \<le> now) (idb_tab db)"
  define vs where "vs = map ir_id (take (nat lim) (sort_key ir_expires_at old))"
  have ok: "tab_ok ir_id ir_key (idb_tab db)" and up: "idb_faults db = []"
    using assms(1) by (simp_all add: sql_up_def sql_ok_def)
  have lim: "0 \<le> lim" by (simp add: lim_def)
  have del: "tab_delete (\<lambda>r. ir_id r \<in> set vs) (idb_tab db) =
      (length (filter (\<lambda>r. ir_id r \<in> set vs) (t_rows (idb_tab db))), idb_tab db')"
    and res: "res = Inr (int (length (filter (\<lambda>r. ir_id r \<in> set vs) (t_rows (idb_tab db)))))"
    and f': "idb_faults db' = []"
    using assms(2) up by (auto simp: sql_delete_expired_def Let_def guard_up tab_delete_def vs_def old_def lim_def)
  have t': "idb_tab db' = snd (tab_delete (\<lambda>r. ir_id r \<in> set vs) (idb_tab db))" using del by simp
  have "length (filter (\<lambda>r. ir_id r \<in> set vs) (t_rows (idb_tab db))) \<le> length vs"
    by (rule count_in_victims) (use ok in \<open>simp add: tab_ok_def\<close>)
  also have "\<dots> \<le> nat lim" by (simp add: vs_def)
  finally have n: "int (length (filter (\<lambda>r. ir_id r \<in> set vs) (t_rows (idb_tab db)))) \<le> lim" using lim by linarith
  have recs': "sql_recs db' k = (case sql_recs db k of None \<Rightarrow> None
      | Some q \<Rightarrow> if ir_id q \<in> set vs then None else Some q)" for k
    by (simp add: sql_recs_def t' it.lookup_delete [OF ok])
  have exp: "ir_expires_at q \<le> now" if q: "sql_recs db k = Some q" and v: "ir_id q \<in> set vs" for k q
  proof -
    have "q \<in> set (t_rows (idb_tab db))"
      using q assms(1) by (simp add: sql_recs_row sql_up_ok)
    moreover obtain r where "r \<in> set (t_rows (idb_tab db))" "ir_id r = ir_id q" "ir_expires_at r \<le> now"
      using victims_expired [OF v [unfolded vs_def old_def]] by blast
    ultimately show ?thesis using it.row_unique_rid [OF ok] by metis
  qed
  have all: "\<forall>k. case sql_recs db' k of None \<Rightarrow> True | Some q \<Rightarrow> now < ir_expires_at q" if "int (length old) \<le> lim"
  proof -
    have "set vs = ir_id ` set old" using that lim by (simp add: vs_def)
    then show ?thesis
      using assms(1) by (auto simp: recs' old_def tab_select_def sql_recs_row sql_up_ok split: option.splits)
  qed
  have "sql_up db'" using t' it.delete_ok [OF ok] f' by (simp add: sql_up_def sql_ok_def)
  moreover have "\<forall>k. sql_recs db' k = sql_recs db k \<or>
      (case sql_recs db k of None \<Rightarrow> False | Some q \<Rightarrow> ir_expires_at q \<le> now \<and> sql_recs db' k = None)"
    using exp by (auto simp: recs' split: option.splits)
  ultimately show ?thesis using res n all unfolding lim_def old_def by blast
qed

theorem cleanup_only_expired_witness:
  "\<exists>n db'. sql_delete_expired 5000 1 (w_store demo_world) = (Inr n, db') \<and> n \<le> 1"
proof -
  obtain res db' where run: "sql_delete_expired 5000 1 (w_store demo_world) = (res, db')" by fastforce
  from cleanup_only_expired [OF demo_up run] run show ?thesis by auto
qed

end
