(* ===== verification/System_Lock.thy ===== *)
theory System_Lock
  imports Idem_Correct
begin

text \<open>
  The lock of system operations, \<open>backend/internal/service/system_operation_lock_service.go\<close>: one
  record of the idempotency store under a fixed scope and key is a lease that \<open>Acquire\<close> takes,
  \<open>renewLoop\<close> extends and \<open>Release\<close> gives back. SHA-256 is the argument \<open>sha\<close>; the readings of
  \<open>time.Now\<close> and the ticks of the renewal are arguments.
\<close>

definition system_lock_scope :: string where
  "system_lock_scope = ''admin.system.operations.global_lock''"
definition system_lock_key :: string where
  "system_lock_key = ''global-system-operation-lock''"

definition err_system_busy :: go_error where
  "err_system_busy = conflict_err ''SYSTEM_OPERATION_BUSY'' ''another system operation is in progress''"
definition err_operation_id_required :: go_error where
  "err_operation_id_required = bad_request ''SYSTEM_OPERATION_ID_REQUIRED'' ''operation id is required''"

record sys_lock =
  sl_record_id :: int64
  sl_operation_id :: string

record sys_lock_service =
  ss_lease :: gduration
  ss_renew :: gduration
  ss_ttl :: gduration

definition operation_id :: "sys_lock option \<Rightarrow> string" where
  "operation_id l = (case l of None \<Rightarrow> [] | Some l \<Rightarrow> sl_operation_id l)"

definition new_sys_lock_service :: "idem_config \<Rightarrow> sys_lock_service" where
  "new_sys_lock_service cfg =
     (let lease = (if ic_processing_timeout cfg \<le> 0 then 30 * second else ic_processing_timeout cfg);
          renew = (if quot lease 3 < second then second else quot lease 3);
          ttl = (if ic_system_ttl cfg \<le> 0 then hour else ic_system_ttl cfg)
      in \<lparr>ss_lease = lease, ss_renew = renew, ss_ttl = ttl\<rparr>)"

definition busy_error :: "string \<Rightarrow> gtime option \<Rightarrow> gtime \<Rightarrow> go_error" where
  "busy_error op_id locked_until now =
     (let md0 = (if op_id \<noteq> [] then gm_put ''operation_id'' op_id [] else []);
          md = (case locked_until of None \<Rightarrow> md0
            | Some l \<Rightarrow> (let sec = quot (t_sub l now) second; sec = (if sec \<le> 0 then 1 else sec)
                in gm_put ''retry_after'' (itoa sec) md0))
      in if gm_len md = 0 then err_system_busy else with_metadata err_system_busy (Some md))"

text \<open>\<open>Acquire\<close>: its last lines, its branch for a record that exists, and the whole.\<close>

definition sys_locked :: "string \<Rightarrow> int64 \<Rightarrow> 's \<Rightarrow> (go_error + sys_lock) \<times> 's" where
  "sys_locked op_id i s = (if i = 0 then (Inl err_store_unavail, s)
     else (Inr \<lparr>sl_record_id = i, sl_operation_id = op_id\<rparr>, s))"

definition sys_existing ::
  "'s idem_repo \<Rightarrow> string \<Rightarrow> gtime \<Rightarrow> gtime \<Rightarrow> gtime \<Rightarrow> string \<Rightarrow> 's \<Rightarrow> (go_error + sys_lock) \<times> 's" where
  "sys_existing repo kh now locked expires op_id s1 =
     (case r_get repo system_lock_scope kh s1 of
        (Inl e, s2) \<Rightarrow> (Inl (with_cause err_store_unavail (Some e)), s2)
      | (Inr None, s2) \<Rightarrow> (Inl err_store_unavail, s2)
      | (Inr (Some ex), s2) \<Rightarrow>
        if ir_status ex = status_processing \<and>
           (case ir_locked_until ex of None \<Rightarrow> False | Some l \<Rightarrow> t_after l now)
        then (Inl (busy_error (ir_fingerprint ex) (ir_locked_until ex) now), s2)
        else
          (case r_reclaim repo (ir_id ex) (ir_status ex) now locked expires s2 of
             (Inl e, s3) \<Rightarrow> (Inl (with_cause err_store_unavail (Some e)), s3)
           | (Inr True, s3) \<Rightarrow> sys_locked op_id (ir_id ex) s3
           | (Inr False, s3) \<Rightarrow>
             (case r_get repo system_lock_scope kh s3 of
                (Inr (Some latest), s4) \<Rightarrow>
                  (Inl (busy_error (ir_fingerprint latest) (ir_locked_until latest) now), s4)
              | (_, s4) \<Rightarrow> (Inl err_system_busy, s4))))"

definition sys_acquire ::
  "(string \<Rightarrow> string) \<Rightarrow> 's idem_repo option \<Rightarrow> sys_lock_service \<Rightarrow> gtime \<Rightarrow> string \<Rightarrow> 's \<Rightarrow>
     (go_error + sys_lock) \<times> 's" where
  "sys_acquire sha repo_ptr svc now op_id s = (case repo_ptr of
     None \<Rightarrow> (Inl err_store_unavail, s)
   | Some repo \<Rightarrow>
     if op_id = [] then (Inl err_operation_id_required, s)
     else
       (let expires = t_add now (ss_ttl svc);
            locked = t_add now (ss_lease svc);
            kh = sha system_lock_key
        in case r_create repo (new_idem_record system_lock_scope kh op_id locked expires) s of
             (Inl e, s1) \<Rightarrow> (Inl (with_cause err_store_unavail (Some e)), s1)
           | (Inr (True, rec), s1) \<Rightarrow> sys_locked op_id (ir_id rec) s1
           | (Inr (False, _), s1) \<Rightarrow> sys_existing repo kh now locked expires op_id s1))"

text \<open>The reading of the clock for the expiry and the one for the end of the lease are the same here.\<close>

definition sys_release ::
  "'s idem_repo option \<Rightarrow> sys_lock_service \<Rightarrow> gtime \<Rightarrow> sys_lock option \<Rightarrow> bool \<Rightarrow> string \<Rightarrow> 's \<Rightarrow>
     go_error option \<times> 's" where
  "sys_release repo_ptr svc now lock_ptr succeeded failure_reason s = (case repo_ptr of None \<Rightarrow> (None, s)
     | Some repo \<Rightarrow> (case lock_ptr of None \<Rightarrow> (None, s)
       | Some lock \<Rightarrow>
         (let expires = t_add now (ss_ttl svc) in
          if succeeded then
            r_mark_ok repo (sl_record_id lock) 200
              (''{'' @ [CHR 0x22] @ ''operation_id'' @ [CHR 0x22] @ '':'' @ [CHR 0x22] @ sl_operation_id lock @
               [CHR 0x22] @ '','' @ [CHR 0x22] @ ''released'' @ [CHR 0x22] @ '':true}'') expires s
          else
            r_mark_fail repo (sl_record_id lock)
              (if failure_reason = [] then ''SYSTEM_OPERATION_FAILED'' else failure_reason) now expires s)))"

text \<open>The goroutine \<open>renewLoop\<close> for the ticks that fire before the release.\<close>

fun sys_renew_loop :: "'s idem_repo \<Rightarrow> sys_lock_service \<Rightarrow> sys_lock \<Rightarrow> gtime list \<Rightarrow> 's \<Rightarrow> 's" where
  "sys_renew_loop repo svc lock [] s = s"
| "sys_renew_loop repo svc lock (now # ticks) s =
     (case r_extend repo (sl_record_id lock) (sl_operation_id lock) (t_add now (ss_lease svc))
         (t_add now (ss_ttl svc)) s of
        (Inl _, s1) \<Rightarrow> sys_renew_loop repo svc lock ticks s1
      | (Inr ok, s1) \<Rightarrow> if ok then sys_renew_loop repo svc lock ticks s1 else s1)"

section \<open>The lease of a store that keeps its contract\<close>

definition lock_key :: "(string \<Rightarrow> string) \<Rightarrow> idem_key" where
  "lock_key sha = (system_lock_scope, sha system_lock_key)"

text \<open>Someone holds the lock at an instant.\<close>

definition lock_held :: "idem_record option \<Rightarrow> gtime \<Rightarrow> bool" where
  "lock_held ro now \<longleftrightarrow> (case ro of None \<Rightarrow> False | Some q \<Rightarrow> ir_status q = status_processing \<and> \<not> lease_free q now)"

lemma busy_error_is: "errors_is (busy_error op l now) err_system_busy"
  by (auto simp: busy_error_def Let_def err_system_busy_def conflict_err_def errors_is_with_metadata)

lemma new_idem_record_sel [simp]:
  "ir_key (new_idem_record sc kh fp l x) = (sc, kh)" "ir_fingerprint (new_idem_record sc kh fp l x) = fp"
  "ir_status (new_idem_record sc kh fp l x) = status_processing"
  "ir_locked_until (new_idem_record sc kh fp l x) = Some l" "ir_expires_at (new_idem_record sc kh fp l x) = x"
  by (simp_all add: new_idem_record_def ir_key_def)

text \<open>What \<open>Acquire\<close> may do, for each way it ends.\<close>

definition acquire_effect ::
  "(idem_key \<Rightarrow> idem_record option) \<Rightarrow> (idem_key \<Rightarrow> idem_record option) \<Rightarrow> idem_key \<Rightarrow> gtime \<Rightarrow> gtime \<Rightarrow>
     string \<Rightarrow> go_error + sys_lock \<Rightarrow> bool" where
  "acquire_effect m m' k now locked op res \<longleftrightarrow> (case res of
     Inl e \<Rightarrow> m' = m \<and> (errors_is e err_store_unavail \<or> errors_is e err_system_busy \<or> e = err_operation_id_required)
   | Inr lock \<Rightarrow> sl_operation_id lock = op \<and> (case m k of None \<Rightarrow> True | Some q \<Rightarrow> lease_free q now \<and> ir_id q = sl_record_id lock) \<and>
       (\<exists>row. m' = m(k \<mapsto> row) \<and> ir_id row = sl_record_id lock \<and> ir_status row = status_processing \<and>
          ir_locked_until row = Some locked \<and>
          ir_fingerprint row = (case m k of None \<Rightarrow> op | Some q \<Rightarrow> ir_fingerprint q)))"

context idem_store
begin

lemma lock_reclaimed:
  assumes "store_ok s" and "r_reclaim repo (ir_id q) st now l x s = (Inr True, s')" and "recs s k = Some q"
  shows "ir_status q = st \<and> lease_free q now \<and> 0 < ir_id q \<and>
    (\<exists>at. recs s' = (recs s)(k \<mapsto> apply_upd (UReclaim l x at) q))"
proof -
  obtain k' q' at where q': "recs s k' = Some q'" "ir_id q' = ir_id q" "ir_status q' = st" "lease_free q' now"
    "recs s' = (recs s)(k' \<mapsto> apply_upd (UReclaim l x at) q')"
    using reclaim_yes [OF assms(1,2)] unfolding with_id_def by metis
  moreover from this assms(3) have "k' = k" "q' = q" using id_unique [OF assms(1)] by (metis, metis option.inject)
  ultimately show ?thesis using key_of [OF assms(1,3)] by blast
qed

lemma sys_existing_effect:
  assumes ok: "store_ok s" and row: "recs s (system_lock_scope, kh) = Some q"
    and run: "sys_existing repo kh now locked expires op s = (res, s')"
  shows "store_ok s' \<and> acquire_effect (recs s) (recs s') (system_lock_scope, kh) now locked op res"
proof -
  let ?k = "(system_lock_scope, kh)"
  obtain g s2 where get: "r_get repo system_lock_scope kh s = (g, s2)" by fastforce
  have ok2: "store_ok s2" using get_keeps [OF ok, of system_lock_scope kh] get by simp
  have same2: "recs s2 = recs s" and g: "g = Inr (Some q) \<or> (\<exists>e. g = Inl e)"
    using get get_err [OF ok] get_val [OF ok] row by (cases g; auto)+
  show ?thesis
  proof (cases "g = Inr (Some q)")
    case False
    with g obtain e where "g = Inl e" by blast
    with run get ok2 same2 show ?thesis by (auto simp: sys_existing_def acquire_effect_def)
  next
    case g: True
    show ?thesis
    proof (cases "ir_status q = status_processing \<and> (case ir_locked_until q of None \<Rightarrow> False | Some l \<Rightarrow> t_after l now)")
      case True
      with run get g ok2 same2 show ?thesis by (auto simp: sys_existing_def acquire_effect_def busy_error_is)
    next
      case False
      obtain t s3 where rc: "r_reclaim repo (ir_id q) (ir_status q) now locked expires s2 = (t, s3)" by fastforce
      have ok3: "store_ok s3" using reclaim_keeps [OF ok2] rc by (metis snd_conv)
      have row2: "recs s2 ?k = Some q" using same2 row by simp
      consider (err) e where "t = Inl e" | (yes) "t = Inr True" | (no) "t = Inr False" by (cases t) auto
      then show ?thesis
      proof cases
        case err
        with rc reclaim_err [OF ok2] have "recs s3 = recs s2" by blast
        with err run get g False rc ok3 same2 show ?thesis by (auto simp: sys_existing_def acquire_effect_def)
      next
        case yes
        from lock_reclaimed [OF ok2 rc [unfolded yes] row2] obtain at where at: "lease_free q now" "0 < ir_id q"
          "recs s3 = (recs s)(?k \<mapsto> apply_upd (UReclaim locked expires at) q)" using same2 by auto
        have "res = Inr \<lparr>sl_record_id = ir_id q, sl_operation_id = op\<rparr>" "s' = s3"
          using run get g False rc yes at(2) by (auto simp: sys_existing_def sys_locked_def)
        with at row ok3 show ?thesis by (auto simp: acquire_effect_def)
      next
        case no
        with rc reclaim_no [OF ok2, of "ir_id q" "ir_status q" now locked expires s3] same2
        have same3: "recs s3 = recs s" by simp
        obtain g4 s4 where get4: "r_get repo system_lock_scope kh s3 = (g4, s4)" by fastforce
        have ok4: "store_ok s4" using get_keeps [OF ok3, of system_lock_scope kh] get4 by simp
        have same4: "recs s4 = recs s"
          using get4 get_err [OF ok3] get_val [OF ok3] same3 by (cases g4) auto
        from run get g False rc no get4 ok4 same4 show ?thesis
          by (auto simp: sys_existing_def acquire_effect_def busy_error_is split: sum.splits option.splits)
      qed
    qed
  qed
qed

lemma sys_acquire_effect:
  assumes ok: "store_ok s" and run: "sys_acquire sha (Some repo) svc now op s = (res, s')"
  shows "store_ok s' \<and>
    acquire_effect (recs s) (recs s') (lock_key sha) now (t_add now (ss_lease svc)) op res"
proof (cases "op = []")
  case True
  with run ok show ?thesis by (auto simp: sys_acquire_def acquire_effect_def)
next
  case op: False
  let ?new = "new_idem_record system_lock_scope (sha system_lock_key) op (t_add now (ss_lease svc)) (t_add now (ss_ttl svc))"
  obtain c s1 where create: "r_create repo ?new s = (c, s1)" by fastforce
  have ok1: "store_ok s1" using create_keeps [OF ok, of ?new] create by simp
  consider (err) e where "c = Inl e" | (own) r where "c = Inr (True, r)" | (dup) r where "c = Inr (False, r)"
  proof (cases c)
    case (Inr x)
    then show thesis using own dup by (cases x; cases "fst x") auto
  qed (rule err)
  then show ?thesis
  proof cases
    case err
    with run create op ok1 create_err [OF ok] show ?thesis
      by (auto simp: sys_acquire_def acquire_effect_def Let_def)
  next
    case own
    from create_new [OF ok create [unfolded own]] obtain row where row: "0 < ir_id r"
      "recs s (lock_key sha) = None" "recs s1 = (recs s)(lock_key sha \<mapsto> row)" "ir_id row = ir_id r"
      "ir_fingerprint row = op" "ir_status row = status_processing" "ir_locked_until row = Some (t_add now (ss_lease svc))"
      by (auto simp: lock_key_def)
    have "res = Inr \<lparr>sl_record_id = ir_id r, sl_operation_id = op\<rparr>" "s' = s1"
      using run create own op row(1) by (auto simp: sys_acquire_def sys_locked_def Let_def)
    with row ok1 show ?thesis by (auto simp: acquire_effect_def)
  next
    case dup
    from create_dup [OF ok create [unfolded dup]] have same1: "recs s1 = recs s"
      and "recs s (lock_key sha) \<noteq> None" by (auto simp: lock_key_def)
    then obtain q where q: "recs s1 (system_lock_scope, sha system_lock_key) = Some q" by (auto simp: lock_key_def)
    have "sys_existing repo (sha system_lock_key) now (t_add now (ss_lease svc)) (t_add now (ss_ttl svc)) op s1 = (res, s')"
      using run create dup op by (simp add: sys_acquire_def Let_def)
    from sys_existing_effect [OF ok1 q this] same1 show ?thesis by (simp add: lock_key_def)
  qed
qed

lemma sys_renew_other:
  assumes "store_ok s" and "recs s k = Some q" and "ir_id q = sl_record_id lock"
    and "ir_fingerprint q \<noteq> sl_operation_id lock"
  shows "recs (sys_renew_loop repo svc lock ticks s) = recs s \<and> store_ok (sys_renew_loop repo svc lock ticks s)"
  using assms
proof (induction ticks arbitrary: s)
  case (Cons now ticks)
  obtain r s1 where ext: "r_extend repo (sl_record_id lock) (sl_operation_id lock) (t_add now (ss_lease svc))
      (t_add now (ss_ttl svc)) s = (r, s1)" by fastforce
  have ok1: "store_ok s1" using extend_keeps [OF Cons.prems(1)] ext by (metis snd_conv)
  have "r \<noteq> Inr True"
  proof
    assume "r = Inr True"
    with ext extend_yes [OF Cons.prems(1)] obtain k' q' where "recs s k' = Some q'"
      "ir_id q' = sl_record_id lock" "ir_fingerprint q' = sl_operation_id lock"
      unfolding with_id_def by metis
    with Cons.prems id_unique [OF Cons.prems(1)] show False by (metis option.inject)
  qed
  moreover have "r = Inr False \<Longrightarrow> recs s1 = recs s" "r = Inl e \<Longrightarrow> recs s1 = recs s" for e
    using ext extend_no [OF Cons.prems(1)] extend_err [OF Cons.prems(1)] by auto
  ultimately have same: "recs s1 = recs s" by (cases r) auto
  with Cons.IH [OF ok1] Cons.prems
  have "recs (sys_renew_loop repo svc lock ticks s1) = recs s \<and> store_ok (sys_renew_loop repo svc lock ticks s1)" by simp
  with same ok1 ext \<open>r \<noteq> Inr True\<close> show ?case by (cases r) auto
qed simp

end

context reliable_store
begin

lemma sys_existing_exact:
  assumes ok: "store_ok s" and row: "recs s (system_lock_scope, kh) = Some q" and free: "lease_free q now"
  shows "\<exists>s'. sys_existing repo kh now locked expires op s = (Inr \<lparr>sl_record_id = ir_id q, sl_operation_id = op\<rparr>, s')"
proof -
  obtain ro s2 where get: "r_get repo system_lock_scope kh s = (Inr ro, s2)"
    by (rule not_error [OF get_up [OF ok, of system_lock_scope kh]])
  from get_val [OF ok get] row have ro: "ro = Some q" and same2: "recs s2 = recs s" by auto
  have ok2: "store_ok s2" using get_keeps [OF ok, of system_lock_scope kh] get by simp
  obtain b s3 where rc: "r_reclaim repo (ir_id q) (ir_status q) now locked expires s2 = (Inr b, s3)"
    by (rule not_error [OF reclaim_up [OF ok2]])
  have b: "b"
    using reclaim_no [OF ok2, of "ir_id q" "ir_status q" now locked expires s3] rc free row same2
    unfolding with_id_def by (metis (full_types))
  have "0 < ir_id q" using key_of [OF ok row] by simp
  moreover have "\<not> (case ir_locked_until q of None \<Rightarrow> False | Some l \<Rightarrow> t_after l now)"
    using free by (auto simp: lease_free_def t_after_def split: option.splits)
  ultimately show ?thesis using get ro rc b by (simp add: sys_existing_def sys_locked_def)
qed

lemma sys_existing_busy:
  assumes ok: "store_ok s" and row: "recs s (system_lock_scope, kh) = Some q" and held: "\<not> lease_free q now"
  shows "\<exists>e s'. sys_existing repo kh now locked expires op s = (Inl e, s') \<and> errors_is e err_system_busy"
proof -
  obtain ro s2 where get: "r_get repo system_lock_scope kh s = (Inr ro, s2)"
    by (rule not_error [OF get_up [OF ok, of system_lock_scope kh]])
  from get_val [OF ok get] row have ro: "ro = Some q" and same2: "recs s2 = recs s" by auto
  have ok2: "store_ok s2" using get_keeps [OF ok, of system_lock_scope kh] get by simp
  obtain b s3 where rc: "r_reclaim repo (ir_id q) (ir_status q) now locked expires s2 = (Inr b, s3)"
    by (rule not_error [OF reclaim_up [OF ok2]])
  have "\<not> b"
    using lock_reclaimed [OF ok2, of q "ir_status q" now locked expires s3] rc held row same2 by auto
  then show ?thesis using get ro rc
    by (auto simp: sys_existing_def busy_error_is split: sum.splits option.splits prod.splits)
qed

lemma sys_acquire_exact:
  assumes ok: "store_ok s" and op: "op \<noteq> []"
    and run: "sys_acquire sha (Some repo) svc now op s = (res, s')"
  shows "if (case recs s (lock_key sha) of None \<Rightarrow> True | Some q \<Rightarrow> lease_free q now)
    then \<exists>lock. res = Inr lock else \<exists>e. res = Inl e \<and> errors_is e err_system_busy"
proof -
  let ?new = "new_idem_record system_lock_scope (sha system_lock_key) op (t_add now (ss_lease svc)) (t_add now (ss_ttl svc))"
  obtain c s1 where create: "r_create repo ?new s = (Inr c, s1)" by (rule not_error [OF create_up [OF ok, of ?new]])
  obtain own r where c: "c = (own, r)" by fastforce
  have ok1: "store_ok s1" using create_keeps [OF ok, of ?new] create by simp
  show ?thesis
  proof (cases own)
    case True
    from create_new [OF ok, of ?new r s1] create c True have "0 < ir_id r" "recs s (lock_key sha) = None"
      by (auto simp: lock_key_def)
    with run create c True op show ?thesis by (auto simp: sys_acquire_def sys_locked_def Let_def)
  next
    case False
    from create_dup [OF ok, of ?new r s1] create c False have same1: "recs s1 = recs s"
      and "recs s (lock_key sha) \<noteq> None" by (auto simp: lock_key_def)
    then obtain q where q: "recs s1 (system_lock_scope, sha system_lock_key) = Some q" by (auto simp: lock_key_def)
    have ex: "sys_existing repo (sha system_lock_key) now (t_add now (ss_lease svc)) (t_add now (ss_ttl svc)) op s1 = (res, s')"
      using run create c False op by (simp add: sys_acquire_def Let_def)
    show ?thesis
      using sys_existing_exact [OF ok1 q, of now "t_add now (ss_lease svc)" "t_add now (ss_ttl svc)" op]
        sys_existing_busy [OF ok1 q, of now "t_add now (ss_lease svc)" "t_add now (ss_ttl svc)" op] ex q same1
      by (auto simp: lock_key_def)
  qed
qed

end

section \<open>Properties\<close>

lemma lock_held_row:
  "ir_status row = status_processing \<Longrightarrow> ir_locked_until row = Some l \<Longrightarrow> lock_held (Some row) t \<longleftrightarrow> t < l"
  by (simp add: lock_held_def lease_free_def not_le)

text \<open>
  Claim C11. The lease excludes: on a store that answers, \<open>Acquire\<close> succeeds exactly when no lease
  on the lock is running, and then the lock is held from that instant for exactly the lease; while
  a lease is running it is refused with \<open>SYSTEM_OPERATION_BUSY\<close> and changes no record.
\<close>

theorem sys_lock_exclusive:
  assumes "sql_up s" and "op \<noteq> []"
    and "sys_acquire sha (Some sql_idem_repo) svc now op s = (res, s')"
  shows "if (case sql_recs s (lock_key sha) of None \<Rightarrow> True | Some q \<Rightarrow> lease_free q now)
    then \<exists>lock. res = Inr lock \<and> sl_operation_id lock = op \<and>
      (\<forall>t. lock_held (sql_recs s' (lock_key sha)) t \<longleftrightarrow> t < now + ss_lease svc)
    else \<exists>e. res = Inl e \<and> errors_is e err_system_busy \<and> sql_recs s' = sql_recs s"
  using sql_live.sys_acquire_exact [OF assms] sql_live.sys_acquire_effect [OF assms(1,3)]
  by (auto simp: acquire_effect_def lock_held_row t_add_def split: if_splits)

definition demo_db :: idem_db where "demo_db = \<lparr>idb_tab = tab_empty, idb_now = 100, idb_faults = []\<rparr>"
definition demo_svc :: sys_lock_service where "demo_svc = \<lparr>ss_lease = 30, ss_renew = 10, ss_ttl = 1000\<rparr>"

lemma demo_db_up: "sql_up demo_db" by (simp add: demo_db_def sql_up_def sql_ok_def)

theorem sys_lock_exclusive_witness:
  "\<exists>lock s'. sys_acquire (\<lambda>s. s) (Some sql_idem_repo) demo_svc 100 ''op-1'' demo_db = (Inr lock, s') \<and>
     lock_held (sql_recs s' (lock_key (\<lambda>s. s))) 129"
proof -
  obtain res s' where run: "sys_acquire (\<lambda>s. s) (Some sql_idem_repo) demo_svc 100 ''op-1'' demo_db = (res, s')"
    by fastforce
  have none: "sql_recs demo_db (lock_key (\<lambda>s. s)) = None" by (simp add: demo_db_def sql_recs_def tab_find_def tab_empty_def)
  have "\<exists>lock. res = Inr lock \<and> sl_operation_id lock = ''op-1'' \<and>
      (\<forall>t. lock_held (sql_recs s' (lock_key (\<lambda>s. s))) t \<longleftrightarrow> t < 100 + ss_lease demo_svc)"
    using sys_lock_exclusive [OF demo_db_up _ run] by (simp only: none option.case if_True list.simps simp_thms)
  then obtain lock where "res = Inr lock" and held: "\<And>t. lock_held (sql_recs s' (lock_key (\<lambda>s. s))) t \<longleftrightarrow> t < 100 + ss_lease demo_svc"
    by blast
  moreover have "(129::int) < 100 + ss_lease demo_svc" by (simp add: demo_svc_def)
  ultimately show ?thesis using run by blast
qed

text \<open>
  Claim C32. A lock that is taken over is not renewed. \<open>TryReclaim\<close> leaves the fingerprint of the
  record's first operation in place and \<open>ExtendProcessingLock\<close> asks for the operation's own id, so
  once a record exists for another operation, no tick of \<open>renewLoop\<close> extends the lease of the
  operation that took the lock: when the lease is over, a third operation acquires the lock although
  the second one has not released it.
\<close>

theorem reclaimed_lock_not_renewed:
  assumes "sql_up s" and "sql_recs s (lock_key sha) = Some q" and "ir_fingerprint q \<noteq> op" "op \<noteq> []"
    and "sys_acquire sha (Some sql_idem_repo) svc now op s = (Inr lock, s1)"
    and "op3 \<noteq> []" and "now + ss_lease svc \<le> now3"
    and "sys_acquire sha (Some sql_idem_repo) svc now3 op3 (sys_renew_loop sql_idem_repo svc lock ticks s1) = (res3, s3)"
  shows "sql_recs (sys_renew_loop sql_idem_repo svc lock ticks s1) = sql_recs s1 \<and>
    (\<exists>lock3. res3 = Inr lock3 \<and> sl_record_id lock3 = sl_record_id lock)"
proof -
  from sql_live.sys_acquire_effect [OF assms(1,5)] assms(2) obtain row
    where ok1: "sql_up s1" and row: "sql_recs s1 (lock_key sha) = Some row" "ir_id row = sl_record_id lock"
      "ir_fingerprint row = ir_fingerprint q" "ir_locked_until row = Some (now + ss_lease svc)" "sl_operation_id lock = op"
    by (auto simp: acquire_effect_def t_add_def)
  have ren: "sql_recs (sys_renew_loop sql_idem_repo svc lock ticks s1) = sql_recs s1"
    "sql_up (sys_renew_loop sql_idem_repo svc lock ticks s1)"
    using sql_live.sys_renew_other [OF ok1 row(1,2)] row assms(3) by auto
  have free: "lease_free row now3" using row(4) assms(7) by (simp add: lease_free_def)
  from sql_live.sys_acquire_exact [OF ren(2) assms(6,8)] sql_live.sys_acquire_effect [OF ren(2) assms(8)] ren(1) row free
  show ?thesis by (auto simp: acquire_effect_def)
qed

theorem reclaimed_lock_not_renewed_witness:
  "\<exists>s0 s1 lock lock3 s3. sys_acquire (\<lambda>s. s) (Some sql_idem_repo) demo_svc 200 ''op-2'' s0 = (Inr lock, s1) \<and>
     sys_acquire (\<lambda>s. s) (Some sql_idem_repo) demo_svc 230 ''op-3''
       (sys_renew_loop sql_idem_repo demo_svc lock [210, 220] s1) = (Inr lock3, s3)"
proof -
  obtain r0 s0 where run0: "sys_acquire (\<lambda>s. s) (Some sql_idem_repo) demo_svc 100 ''op-1'' demo_db = (r0, s0)" by fastforce
  have none: "sql_recs demo_db (lock_key (\<lambda>s. s)) = None" by (simp add: demo_db_def sql_recs_def tab_find_def tab_empty_def)
  from sql_live.sys_acquire_effect [OF demo_db_up run0] sql_live.sys_acquire_exact [OF demo_db_up _ run0] none
  obtain q where up0: "sql_up s0" and q: "sql_recs s0 (lock_key (\<lambda>s. s)) = Some q" "ir_fingerprint q = ''op-1''"
    "ir_locked_until q = Some 130" by (auto simp: acquire_effect_def demo_svc_def t_add_def)
  obtain r1 s1 where run1: "sys_acquire (\<lambda>s. s) (Some sql_idem_repo) demo_svc 200 ''op-2'' s0 = (r1, s1)" by fastforce
  from sql_live.sys_acquire_exact [OF up0 _ run1] q obtain lock where lock: "r1 = Inr lock" by (auto simp: lease_free_def)
  obtain r3 s3 where run3: "sys_acquire (\<lambda>s. s) (Some sql_idem_repo) demo_svc 230 ''op-3''
      (sys_renew_loop sql_idem_repo demo_svc lock [210, 220] s1) = (r3, s3)" by fastforce
  from reclaimed_lock_not_renewed [OF up0 q(1) _ _ run1 [unfolded lock] _ _ run3] q(2) run1 lock run3
  show ?thesis by (fastforce simp: demo_svc_def)
qed

text \<open>
  Claim C33. A release gives the lock back at once: after \<open>Release\<close>, successful or failed, on a
  store that answers, nobody holds the lock from the instant of the release on, and the next
  \<open>Acquire\<close> succeeds.
\<close>

theorem release_then_acquire:
  assumes "sql_up s" and "sql_recs s (lock_key sha) = Some q" and "ir_id q = sl_record_id lock"
    and "sys_release (Some sql_idem_repo) svc t (Some lock) ok why s = (err, s1)"
    and "t \<le> now" and "op \<noteq> []"
    and "sys_acquire sha (Some sql_idem_repo) svc now op s1 = (res, s2)"
  shows "err = None \<and> \<not> lock_held (sql_recs s1 (lock_key sha)) now \<and> (\<exists>lock'. res = Inr lock')"
proof -
  have id: "with_id (sql_recs s) (lock_key sha) (sl_record_id lock) q" using assms(2,3) by (simp add: with_id_def)
  have "err = None \<and> sql_up s1 \<and> (\<exists>row. sql_recs s1 (lock_key sha) = Some row \<and>
      ir_status row \<noteq> status_processing \<and> lease_free row now)"
  proof (cases ok)
    case True
    then obtain b x where m: "r_mark_ok sql_idem_repo (sl_record_id lock) 200 b x s = (err, s1)"
      using assms(4) by (auto simp: sys_release_def Let_def)
    have "err = None" using sql_live.mark_ok_up [OF assms(1), of "sl_record_id lock" 200 b x] m by simp
    moreover have "sql_up s1" using sql_live.mark_ok_keeps [OF assms(1), of "sl_record_id lock" 200 b x] m by simp
    ultimately show ?thesis using sql_live.mark_ok_done [OF assms(1) m [unfolded \<open>err = None\<close>] id]
      by (auto simp: lease_free_def)
  next
    case False
    then obtain y x where m: "r_mark_fail sql_idem_repo (sl_record_id lock) y t x s = (err, s1)"
      using assms(4) by (auto simp: sys_release_def Let_def)
    have "err = None" using sql_live.mark_fail_up [OF assms(1), of "sl_record_id lock" y t x] m by simp
    moreover have "sql_up s1" using sql_live.mark_fail_keeps [OF assms(1), of "sl_record_id lock" y t x] m by simp
    ultimately show ?thesis using sql_live.mark_fail_done [OF assms(1) m [unfolded \<open>err = None\<close>] id] assms(5)
      by (auto simp: lease_free_def)
  qed
  then obtain row where "err = None" "sql_up s1" "sql_recs s1 (lock_key sha) = Some row"
    "ir_status row \<noteq> status_processing" "lease_free row now" by blast
  with sql_live.sys_acquire_exact [OF \<open>sql_up s1\<close> assms(6,7)] show ?thesis by (simp add: lock_held_def)
qed

theorem release_then_acquire_witness:
  "\<exists>s0 lock s1 lock' s2. sys_release (Some sql_idem_repo) demo_svc 110 (Some lock) False [] s0 = (None, s1) \<and>
     sys_acquire (\<lambda>s. s) (Some sql_idem_repo) demo_svc 110 ''op-2'' s1 = (Inr lock', s2)"
proof -
  obtain r0 s0 where run0: "sys_acquire (\<lambda>s. s) (Some sql_idem_repo) demo_svc 100 ''op-1'' demo_db = (r0, s0)" by fastforce
  have none: "sql_recs demo_db (lock_key (\<lambda>s. s)) = None" by (simp add: demo_db_def sql_recs_def tab_find_def tab_empty_def)
  from sql_live.sys_acquire_effect [OF demo_db_up run0] sql_live.sys_acquire_exact [OF demo_db_up _ run0] none
  have "\<exists>lock q. r0 = Inr lock \<and> sql_up s0 \<and> sql_recs s0 (lock_key (\<lambda>s. s)) = Some q \<and> ir_id q = sl_record_id lock"
    by (auto simp: acquire_effect_def)
  then obtain q and lock :: sys_lock where up0: "sql_up s0" and q: "sql_recs s0 (lock_key (\<lambda>s. s)) = Some q" "ir_id q = sl_record_id lock"
    by blast
  obtain e s1 where rel: "sys_release (Some sql_idem_repo) demo_svc 110 (Some lock) False [] s0 = (e, s1)" by fastforce
  obtain r2 s2 where acq: "sys_acquire (\<lambda>s. s) (Some sql_idem_repo) demo_svc 110 ''op-2'' s1 = (r2, s2)" by fastforce
  from release_then_acquire [OF up0 q rel _ _ acq] rel acq show ?thesis by fastforce
qed

end
