(* ===== verification/Sql_Values.thy ===== *)
theory Sql_Values
  imports Go_Errors
begin

text \<open>
  What the repositories share about PostgreSQL: the errors that the driver returns and the text that a
  column of type \<open>varchar(n)\<close> or \<open>text\<close> can hold.
\<close>

definition err_db :: go_error where "err_db = PlainErr ''driver: bad connection''"
definition err_no_rows :: go_error where "err_no_rows = PlainErr ''sql: no rows in result set''"
definition err_check :: go_error where "err_check = PlainErr ''pq: check violation (23514)''"
definition err_foreign_key :: go_error where "err_foreign_key = PlainErr ''pq: foreign key violation (23503)''"
definition err_tx_aborted :: go_error where
  "err_tx_aborted = PlainErr ''pq: current transaction is aborted (25P02)''"

text \<open>Text that a column can hold: valid UTF-8 without a zero byte, and at most n characters.\<close>

definition pg_valid :: "string \<Rightarrow> bool" where "pg_valid s \<longleftrightarrow> valid_utf8 s \<and> CHR 0x00 \<notin> set s"

definition pg_text :: "nat \<Rightarrow> string \<Rightarrow> bool" where "pg_text n s \<longleftrightarrow> pg_valid s \<and> rune_count s \<le> n"

definition opt_text :: "nat \<Rightarrow> string option \<Rightarrow> bool" where
  "opt_text n s = (case s of None \<Rightarrow> True | Some s \<Rightarrow> pg_text n s)"

end
