(* ===== verification/VC_Types.thy ===== *)
theory VC_Types
  imports Sql_Values Sql_Table
begin

text \<open>
  The data model of the virtual currency: the types and errors of
  \<open>backend/internal/service/virtual_currency.go\<close> and the tables of migrations 182, 183 and 186
  with their unique indexes, CHECK constraints and triggers. A \<open>map[string]any\<close> is nil, a map
  whose JSON text is given, or a map that \<open>json.Marshal\<close> rejects. A row is what a table stores;
  the Go structs that join the currency's columns to a row are the records \<open>vc_entry\<close> and \<open>vc_hold\<close>.
\<close>

section \<open>Constants and errors\<close>

definition vc_active :: string where "vc_active = ''active''"
definition vc_disabled :: string where "vc_disabled = ''disabled''"
definition hold_active :: string where "hold_active = ''active''"
definition hold_committed :: string where "hold_committed = ''committed''"
definition hold_released :: string where "hold_released = ''released''"
definition hold_expired :: string where "hold_expired = ''expired''"
definition entry_grant :: string where "entry_grant = ''grant''"
definition entry_spend :: string where "entry_spend = ''spend''"
definition entry_refund :: string where "entry_refund = ''refund''"
definition entry_adjustment :: string where "entry_adjustment = ''adjustment''"
definition entry_reserve :: string where "entry_reserve = ''reserve''"
definition entry_commit :: string where "entry_commit = ''commit''"
definition entry_release :: string where "entry_release = ''release''"
definition entry_expire :: string where "entry_expire = ''expire''"
definition source_admin :: string where "source_admin = ''admin''"

lemmas vc_statuses = vc_active_def vc_disabled_def hold_active_def hold_committed_def hold_released_def
  hold_expired_def
lemmas vc_entries = entry_grant_def entry_spend_def entry_refund_def entry_adjustment_def
  entry_reserve_def entry_commit_def entry_release_def entry_expire_def

definition err_vc_not_found :: go_error where
  "err_vc_not_found = not_found ''VIRTUAL_CURRENCY_NOT_FOUND'' ''virtual currency not found''"
definition err_vc_code_exists :: go_error where
  "err_vc_code_exists = conflict_err ''VIRTUAL_CURRENCY_CODE_EXISTS'' ''virtual currency code already exists''"
definition err_vc_disabled :: go_error where
  "err_vc_disabled = conflict_err ''VIRTUAL_CURRENCY_DISABLED'' ''virtual currency is disabled''"
definition err_vc_policy_not_found :: go_error where
  "err_vc_policy_not_found = not_found ''VIRTUAL_CURRENCY_POLICY_NOT_FOUND'' ''virtual currency group policy not found''"
definition err_vc_group_denied :: go_error where
  "err_vc_group_denied = forbidden ''VIRTUAL_CURRENCY_GROUP_DENIED'' ''user is not allowed to use this currency in the group''"
definition err_vc_insufficient :: go_error where
  "err_vc_insufficient = bad_request ''VIRTUAL_CURRENCY_INSUFFICIENT'' ''insufficient virtual currency balance''"
definition err_vc_limit :: go_error where
  "err_vc_limit = bad_request ''VIRTUAL_CURRENCY_LIMIT_EXCEEDED'' ''virtual currency balance limit exceeded''"
definition err_vc_idempotency :: go_error where
  "err_vc_idempotency = conflict_err ''VIRTUAL_CURRENCY_IDEMPOTENCY_CONFLICT'' ''idempotency key was already used with a different request''"
definition err_vc_invalid :: go_error where
  "err_vc_invalid = bad_request ''VIRTUAL_CURRENCY_INVALID_INPUT'' ''invalid virtual currency request''"
definition err_vc_hold_not_found :: go_error where
  "err_vc_hold_not_found = not_found ''VIRTUAL_CURRENCY_HOLD_NOT_FOUND'' ''virtual currency hold not found''"
definition err_vc_hold_state :: go_error where
  "err_vc_hold_state = conflict_err ''VIRTUAL_CURRENCY_HOLD_STATE'' ''virtual currency hold is no longer active''"
definition err_vc_hold_expired :: go_error where
  "err_vc_hold_expired = conflict_err ''VIRTUAL_CURRENCY_HOLD_EXPIRED'' ''virtual currency hold has expired''"

lemmas vc_errors = err_vc_not_found_def err_vc_code_exists_def err_vc_disabled_def
  err_vc_policy_not_found_def err_vc_group_denied_def err_vc_insufficient_def err_vc_limit_def
  err_vc_idempotency_def err_vc_invalid_def err_vc_hold_not_found_def err_vc_hold_state_def
  err_vc_hold_expired_def

definition max_mutation_units :: int where "max_mutation_units = 1152921504606846976"
definition max_source_id_runes :: nat where "max_source_id_runes = 128"
definition max_reason_runes :: nat where "max_reason_runes = 500"
definition max_metadata_bytes :: nat where "max_metadata_bytes = 16384"
definition max_hold_ttl :: gduration where "max_hold_ttl = 7 * 24 * hour"
definition max_hold_key_runes :: nat where "max_hold_key_runes = 96"

text \<open>The regular expressions: a lower-case letter, then 1 to 31 characters of a class.\<close>

definition is_lower :: "char \<Rightarrow> bool" where "is_lower c \<longleftrightarrow> byte_between 97 c 122"

definition letter_then :: "(char \<Rightarrow> bool) \<Rightarrow> string \<Rightarrow> bool" where
  "letter_then cls s \<longleftrightarrow> (case s of [] \<Rightarrow> False
     | c # cs \<Rightarrow> is_lower c \<and> 1 \<le> length cs \<and> length cs \<le> 31 \<and> list_all cls cs)"

definition code_pattern :: "string \<Rightarrow> bool" where
  "code_pattern = letter_then (\<lambda>c. is_lower c \<or> is_digit c \<or> c \<in> {CHR ''_'', CHR ''-''})"
definition source_pattern :: "string \<Rightarrow> bool" where
  "source_pattern = letter_then (\<lambda>c. is_lower c \<or> is_digit c \<or> c \<in> {CHR ''_'', CHR ''.'', CHR ''-''})"

section \<open>Metadata\<close>

datatype metadata = NilMap | JsonMap string | BadMap

definition empty_json :: string where "empty_json = ''{}''"

definition marshal_metadata :: "metadata \<Rightarrow> go_error + string" where
  "marshal_metadata m = (case m of NilMap \<Rightarrow> Inr empty_json | JsonMap s \<Rightarrow> Inr s
     | BadMap \<Rightarrow> Inl (WrapErr ''marshal virtual currency metadata'' (PlainErr ''json: unsupported type'')))"

definition decode_metadata :: "string \<Rightarrow> metadata" where
  "decode_metadata raw = (if raw = [] \<or> raw = ''null'' then JsonMap empty_json else JsonMap raw)"

definition validate_metadata :: "metadata \<Rightarrow> go_error option" where
  "validate_metadata m = (case (case m of NilMap \<Rightarrow> Some ''null'' | JsonMap s \<Rightarrow> Some s | BadMap \<Rightarrow> None) of
     None \<Rightarrow> Some err_vc_invalid
   | Some encoded \<Rightarrow> if length encoded > max_metadata_bytes then Some err_vc_invalid else None)"

definition default_metadata :: "metadata \<Rightarrow> metadata" where
  "default_metadata m = (if m = NilMap then JsonMap empty_json else m)"

section \<open>Rows\<close>

record vc_currency =
  cu_id :: int64
  cu_code :: string
  cu_name :: string
  cu_symbol :: string
  cu_description :: string
  cu_scale :: int
  cu_status :: string
  cu_metadata :: metadata
  cu_created_by :: "int64 option"
  cu_created_at :: gtime
  cu_updated_at :: gtime

record vc_policy =
  po_id :: int64
  po_currency :: int64
  po_group :: int64
  po_enabled :: bool
  po_can_earn :: bool
  po_can_spend :: bool
  po_max :: "int64 option"
  po_metadata :: metadata
  po_created_at :: gtime
  po_updated_at :: gtime

record vc_wallet_row =
  wa_id :: int64
  wa_user :: int64
  wa_currency :: int64
  wa_available :: int64
  wa_reserved :: int64
  wa_version :: int64
  wa_created_at :: gtime
  wa_updated_at :: gtime

record vc_ledger_row =
  lr_id :: int64
  lr_journal :: int64
  lr_currency :: int64
  lr_user :: int64
  lr_group :: "int64 option"
  lr_delta :: int64
  lr_available :: int64
  lr_reserved :: int64
  lr_available_after :: int64
  lr_reserved_after :: int64
  lr_type :: string
  lr_source_type :: string
  lr_source_id :: "string option"
  lr_key :: string
  lr_fingerprint :: string
  lr_reason :: string
  lr_metadata :: metadata
  lr_created_by :: "int64 option"
  lr_created_at :: gtime

record vc_hold_row =
  ho_id :: int64
  ho_currency :: int64
  ho_user :: int64
  ho_group :: "int64 option"
  ho_amount :: int64
  ho_status :: string
  ho_source_type :: string
  ho_source_id :: "string option"
  ho_key :: string
  ho_expires_at :: gtime
  ho_metadata :: metadata
  ho_created_at :: gtime
  ho_updated_at :: gtime
  ho_settled_at :: "gtime option"

record vc_journal =
  jo_id :: int64
  jo_currency :: int64
  jo_user :: int64
  jo_group :: "int64 option"
  jo_type :: string
  jo_source_type :: string
  jo_source_id :: "string option"
  jo_key :: string
  jo_fingerprint :: string
  jo_reason :: string
  jo_metadata :: metadata
  jo_created_by :: "int64 option"
  jo_created_at :: gtime
  jo_posted_at :: "gtime option"

record vc_posting =
  pt_id :: int64
  pt_journal :: int64
  pt_currency :: int64
  pt_user :: "int64 option"
  pt_kind :: string
  pt_amount :: int64
  pt_created_at :: gtime

text \<open>The columns of \<open>groups\<close> and \<open>user_subscriptions\<close> that the queries read.\<close>

record vc_group =
  gr_id :: int64
  gr_status :: string
  gr_deleted_at :: "gtime option"
  gr_subscription_type :: string
  gr_exclusive :: bool

record vc_subscription =
  su_user :: int64
  su_group :: int64
  su_status :: string
  su_deleted_at :: "gtime option"
  su_expires_at :: "gtime option"

section \<open>The Go structs that join the currency\<close>

record vc_entry =
  le_row :: vc_ledger_row
  le_code :: string
  le_name :: string
  le_symbol :: string
  le_scale :: int

record vc_hold =
  hd_row :: vc_hold_row
  hd_code :: string
  hd_name :: string
  hd_symbol :: string
  hd_scale :: int

record vc_wallet =
  wl_currency :: int64
  wl_code :: string
  wl_name :: string
  wl_symbol :: string
  wl_scale :: int
  wl_available :: int64
  wl_reserved :: int64
  wl_groups :: "int64 list"
  wl_updated_at :: gtime

record vc_page =
  pg_total :: int64
  pg_page :: int
  pg_size :: int
  pg_pages :: int

section \<open>Inputs\<close>

record vc_create_input =
  ci_code :: string
  ci_name :: string
  ci_symbol :: string
  ci_description :: string
  ci_scale :: int
  ci_metadata :: metadata
  ci_created_by :: "int64 option"

record vc_update_input =
  ui_name :: "string option"
  ui_symbol :: "string option"
  ui_description :: "string option"
  ui_metadata :: metadata

record vc_policy_input =
  pi_currency :: int64
  pi_group :: int64
  pi_enabled :: bool
  pi_can_earn :: bool
  pi_can_spend :: bool
  pi_max :: "int64 option"
  pi_metadata :: metadata

record vc_delta_input =
  di_currency :: int64
  di_user :: int64
  di_group :: int64
  di_delta :: int64
  di_available :: int64
  di_reserved :: int64
  di_type :: string
  di_source_type :: string
  di_source_id :: string
  di_key :: string
  di_fingerprint :: string
  di_reason :: string
  di_metadata :: metadata
  di_created_by :: "int64 option"
  di_require_access :: bool
  di_require_spend :: bool
  di_require_earn :: bool
  di_settlement :: bool

record vc_reserve_input =
  ri_currency :: int64
  ri_user :: int64
  ri_group :: int64
  ri_amount :: int64
  ri_expires_at :: gtime
  ri_source_type :: string
  ri_source_id :: string
  ri_key :: string
  ri_fingerprint :: string
  ri_reason :: string
  ri_metadata :: metadata

record vc_settle_input =
  si_hold :: int64
  si_user :: int64
  si_action :: string
  si_source_type :: string
  si_source_id :: string
  si_key :: string
  si_fingerprint :: string
  si_reason :: string
  si_metadata :: metadata

record vc_query =
  qu_user :: int64
  qu_code :: string
  qu_status :: string
  qu_page :: int
  qu_size :: int

text \<open>
  The payload of a fingerprint, \<open>virtualCurrencyMutationFingerprint\<close> and its twin for holds; its
  digest is SHA-256 over its JSON text, an argument of the operations that use it.
\<close>

datatype fp_payload =
    MutationPayload int64 int64 int64 int64 int64 string string string string metadata
  | HoldPayload int64 int64 int64 int64 int64 string string string string metadata

section \<open>The database\<close>

record vc_db =
  vd_currencies :: "vc_currency table"
  vd_policies :: "vc_policy table"
  vd_wallets :: "vc_wallet_row table"
  vd_ledger :: "vc_ledger_row table"
  vd_holds :: "vc_hold_row table"
  vd_journals :: "vc_journal table"
  vd_postings :: "vc_posting table"
  vd_groups :: "vc_group list"
  vd_users :: "int64 list"
  vd_allowed :: "(int64 \<times> int64) list"
  vd_subscriptions :: "vc_subscription list"
  vd_now :: gtime
  vd_faults :: "bool list"

definition pg_trim :: "string \<Rightarrow> string" where
  "pg_trim s = rev (dropWhile (\<lambda>c. c = CHR 0x20) (rev (dropWhile (\<lambda>c. c = CHR 0x20) s)))"

definition is_hex64 :: "string \<Rightarrow> bool" where
  "is_hex64 s \<longleftrightarrow> length s = 64 \<and> list_all (\<lambda>c. is_digit c \<or> byte_between 97 c 102) s"

definition entry_types :: "string list" where
  "entry_types = [entry_grant, entry_spend, entry_refund, entry_adjustment, entry_reserve, entry_commit,
     entry_release, entry_expire]"

text \<open>The CHECK constraints and column types of the ledger and the journals.\<close>

definition entry_check :: "string \<Rightarrow> string \<Rightarrow> string option \<Rightarrow> string \<Rightarrow> string \<Rightarrow> string \<Rightarrow> bool" where
  "entry_check typ src src_id key fp reason \<longleftrightarrow> typ \<in> set entry_types \<and> source_pattern src \<and>
     opt_text 128 src_id \<and> pg_text 128 key \<and> 1 \<le> rune_count (pg_trim key) \<and> is_hex64 fp \<and> pg_valid reason"

definition ledger_check :: "vc_ledger_row \<Rightarrow> bool" where
  "ledger_check r \<longleftrightarrow> entry_check (lr_type r) (lr_source_type r) (lr_source_id r) (lr_key r) (lr_fingerprint r) (lr_reason r) \<and>
     0 \<le> lr_available_after r \<and> 0 \<le> lr_reserved_after r \<and>
     lr_delta r = lr_available r + lr_reserved r \<and>
     (lr_delta r \<noteq> 0 \<or> lr_available r \<noteq> 0 \<or> lr_reserved r \<noteq> 0)"

definition hold_check :: "vc_hold_row \<Rightarrow> bool" where
  "hold_check h \<longleftrightarrow> 0 < ho_amount h \<and> ho_amount h \<le> max_mutation_units \<and>
     ho_status h \<in> {hold_active, hold_committed, hold_released, hold_expired} \<and>
     source_pattern (ho_source_type h) \<and> opt_text 128 (ho_source_id h) \<and> pg_text 128 (ho_key h)"

text \<open>The unique keys.\<close>

definition po_key :: "vc_policy \<Rightarrow> int64 \<times> int64" where "po_key p = (po_currency p, po_group p)"
definition wa_key :: "vc_wallet_row \<Rightarrow> int64 \<times> int64" where "wa_key w = (wa_user w, wa_currency w)"
definition lr_ukey :: "vc_ledger_row \<Rightarrow> int64 \<times> int64 \<times> string" where
  "lr_ukey r = (lr_currency r, lr_user r, lr_key r)"
definition ho_ukey :: "vc_hold_row \<Rightarrow> int64 \<times> int64 \<times> string" where
  "ho_ukey h = (ho_currency h, ho_user h, ho_key h)"
definition jo_ukey :: "vc_journal \<Rightarrow> int64 \<times> int64 \<times> string" where
  "jo_ukey j = (jo_currency j, jo_user j, jo_key j)"

end
