(* ===== verification/VC_Repo.thy ===== *)
theory VC_Repo
  imports VC_Types
begin

text \<open>
  The repository of the virtual currency, \<open>backend/internal/repository/virtual_currency_repo.go\<close>,
  over the tables of \<open>VC_Types\<close>. An operation is a function from the database to a result or an
  error and the database; \<open>vc_call\<close> is one autocommit statement or one transaction: it may fail as a
  whole, an error rolls it back, and its commit runs the deferred balance triggers of migration 186.
  \<open>NOW()\<close> is \<open>vd_now\<close>; the readings of \<open>time.Now\<close> are arguments. A savepoint is never taken, so
  after a statement that failed every further statement of a transaction fails.
\<close>

section \<open>Calls\<close>

type_synonym 'x vc_op = "vc_db \<Rightarrow> (go_error + 'x) \<times> vc_db"

definition vc_return :: "'x \<Rightarrow> 'x vc_op" where "vc_return x db = (Inr x, db)"
definition vc_fail :: "go_error \<Rightarrow> 'x vc_op" where "vc_fail e db = (Inl e, db)"

definition vc_bind :: "'x vc_op \<Rightarrow> ('x \<Rightarrow> 'y vc_op) \<Rightarrow> 'y vc_op" where
  "vc_bind m f db = (case m db of (Inl e, db1) \<Rightarrow> (Inl e, db1) | (Inr x, db1) \<Rightarrow> f x db1)"

definition vc_guard :: "bool \<Rightarrow> go_error \<Rightarrow> unit vc_op" where
  "vc_guard ok e = (if ok then vc_return () else vc_fail e)"

definition vc_lift :: "go_error + 'x \<Rightarrow> 'x vc_op" where
  "vc_lift r = (case r of Inl e \<Rightarrow> vc_fail e | Inr x \<Rightarrow> vc_return x)"

definition vc_read :: "(vc_db \<Rightarrow> 'x) \<Rightarrow> 'x vc_op" where "vc_read f db = (Inr (f db), db)"

text \<open>The deferred triggers: every journal of the transaction is sealed and balanced.\<close>

definition journal_postings :: "vc_db \<Rightarrow> int64 \<Rightarrow> vc_posting list" where
  "journal_postings db j = tab_select (\<lambda>p. pt_journal p = j) (vd_postings db)"

definition journal_balanced :: "vc_db \<Rightarrow> vc_journal \<Rightarrow> bool" where
  "journal_balanced db j \<longleftrightarrow> jo_posted_at j \<noteq> None \<and> 2 \<le> length (journal_postings db (jo_id j)) \<and>
     sum_list (map pt_amount (journal_postings db (jo_id j))) = 0"

definition commit_ok :: "vc_db \<Rightarrow> vc_db \<Rightarrow> bool" where
  "commit_ok db0 db \<longleftrightarrow>
     list_all (journal_balanced db) (tab_select (\<lambda>j. t_seq (vd_journals db0) < jo_id j) (vd_journals db))"

definition vc_call :: "'x vc_op \<Rightarrow> 'x vc_op" where
  "vc_call m db0 = (case vd_faults db0 of
       True # fs \<Rightarrow> (Inl err_db, db0\<lparr>vd_faults := fs\<rparr>)
     | fs \<Rightarrow> (let db = db0\<lparr>vd_faults := tl fs\<rparr> in
         (case m db of
            (Inl e, _) \<Rightarrow> (Inl e, db)
          | (Inr x, db1) \<Rightarrow> if commit_ok db db1 then (Inr x, db1) else (Inl err_check, db))))"

section \<open>Integers and access\<close>

definition safe_add_int64 :: "int64 \<Rightarrow> int64 \<Rightarrow> int64 \<times> bool" where
  "safe_add_int64 left right =
     (if right > 0 \<and> left > wrap64 (max_int64 - right) then (0, False)
      else if right < 0 \<and> left < wrap64 (wrap64 (- max_int64 - 1) - right) then (0, False)
      else (wrap64 (left + right), True))"

definition dereference_int64 :: "int64 option \<Rightarrow> int64" where
  "dereference_int64 v = (case v of None \<Rightarrow> 0 | Some x \<Rightarrow> x)"

definition null_if_empty :: "string \<Rightarrow> string option" where
  "null_if_empty s = (if s = [] then None else Some s)"

text \<open>The condition on groups that three queries share.\<close>

definition group_open_to :: "vc_db \<Rightarrow> int64 \<Rightarrow> vc_group \<Rightarrow> bool" where
  "group_open_to db user g \<longleftrightarrow> gr_status g = ''active'' \<and> gr_deleted_at g = None \<and>
     (gr_subscription_type g = ''standard'' \<and>
        (\<not> gr_exclusive g \<or> (user, gr_id g) \<in> set (vd_allowed db)) \<or>
      gr_subscription_type g = ''subscription'' \<and>
        list_ex (\<lambda>s. su_user s = user \<and> su_group s = gr_id g \<and> su_status s = ''active'' \<and>
          su_deleted_at s = None \<and> (case su_expires_at s of None \<Rightarrow> True | Some t \<Rightarrow> t > vd_now db))
          (vd_subscriptions db))"

definition user_allowed :: "vc_db \<Rightarrow> int64 \<Rightarrow> int64 \<Rightarrow> bool" where
  "user_allowed db grp user \<longleftrightarrow> list_ex (\<lambda>g. gr_id g = grp \<and> group_open_to db user g) (vd_groups db)"

definition group_exists :: "vc_db \<Rightarrow> int64 \<Rightarrow> bool" where
  "group_exists db g \<longleftrightarrow> list_ex (\<lambda>r. gr_id r = g) (vd_groups db)"

definition user_exists :: "vc_db \<Rightarrow> int64 option \<Rightarrow> bool" where
  "user_exists db u \<longleftrightarrow> (case u of None \<Rightarrow> True | Some i \<Rightarrow> i \<in> set (vd_users db))"

section \<open>Currencies and policies\<close>

definition find_currency :: "(vc_currency \<Rightarrow> bool) \<Rightarrow> vc_currency vc_op" where
  "find_currency P db = (case tab_find P (vd_currencies db) of
     None \<Rightarrow> (Inl err_vc_not_found, db) | Some c \<Rightarrow> (Inr c, db))"

definition list_currencies :: "bool \<Rightarrow> vc_currency list vc_op" where
  "list_currencies include_disabled = vc_call (vc_read (\<lambda>db.
     sort_key cu_id (tab_select (\<lambda>c. include_disabled \<or> cu_status c = vc_active) (vd_currencies db))))"

definition get_currency_by_id :: "int64 \<Rightarrow> vc_currency vc_op" where
  "get_currency_by_id i = vc_call (find_currency (\<lambda>c. cu_id c = i))"

definition get_currency_by_code :: "string \<Rightarrow> vc_currency vc_op" where
  "get_currency_by_code code = vc_call (find_currency (\<lambda>c. to_lower (cu_code c) = to_lower (trim_space code)))"

definition currency_check :: "vc_currency \<Rightarrow> bool" where
  "currency_check c \<longleftrightarrow> pg_text 32 (cu_code c) \<and> pg_text 64 (cu_name c) \<and> pg_text 16 (cu_symbol c) \<and>
     pg_valid (cu_description c) \<and> 0 \<le> cu_scale c \<and> cu_scale c \<le> 8 \<and>
     cu_status c \<in> {vc_active, vc_disabled}"

definition repo_create_currency :: "vc_create_input \<Rightarrow> vc_currency vc_op" where
  "repo_create_currency inp = vc_bind (vc_lift (marshal_metadata (ci_metadata inp))) (\<lambda>md.
     vc_call (\<lambda>db.
       (let mk = (\<lambda>i. \<lparr>cu_id = i, cu_code = ci_code inp, cu_name = ci_name inp, cu_symbol = ci_symbol inp,
              cu_description = ci_description inp, cu_scale = ci_scale inp, cu_status = vc_active,
              cu_metadata = decode_metadata md, cu_created_by = ci_created_by inp,
              cu_created_at = vd_now db, cu_updated_at = vd_now db\<rparr>)
        in if \<not> currency_check (mk 0) then (Inl err_check, db)
           else if tab_find (\<lambda>c. to_lower (cu_code c) = to_lower (ci_code inp)) (vd_currencies db) \<noteq> None
             then (Inl err_vc_code_exists, db)
           else if \<not> user_exists db (ci_created_by inp) then (Inl err_foreign_key, db)
           else (case tab_insert mk (vd_currencies db) of
             (i, t') \<Rightarrow> (Inr (mk i), db\<lparr>vd_currencies := t'\<rparr>)))))"

text \<open>The columns an \<open>UPDATE\<close> of a currency sets.\<close>

datatype currency_upd = CurFields "string option" "string option" "string option" "metadata option" gtime
  | CurStatus string gtime

fun set_currency :: "currency_upd \<Rightarrow> vc_currency \<Rightarrow> vc_currency" where
  "set_currency (CurFields n s d m at) c = c\<lparr>cu_name := (case n of None \<Rightarrow> cu_name c | Some x \<Rightarrow> x),
     cu_symbol := (case s of None \<Rightarrow> cu_symbol c | Some x \<Rightarrow> x),
     cu_description := (case d of None \<Rightarrow> cu_description c | Some x \<Rightarrow> x),
     cu_metadata := (case m of None \<Rightarrow> cu_metadata c | Some x \<Rightarrow> x), cu_updated_at := at\<rparr>"
| "set_currency (CurStatus st at) c = c\<lparr>cu_status := st, cu_updated_at := at\<rparr>"

definition update_currency_row :: "int64 \<Rightarrow> (vc_db \<Rightarrow> currency_upd) \<Rightarrow> vc_currency vc_op" where
  "update_currency_row i mk_upd db = (case tab_find (\<lambda>c. cu_id c = i) (vd_currencies db) of
     None \<Rightarrow> (Inl err_vc_not_found, db)
   | Some c \<Rightarrow> (let c' = set_currency (mk_upd db) c in
       if \<not> currency_check c' then (Inl err_check, db)
       else (Inr c', db\<lparr>vd_currencies :=
         snd (tab_update (\<lambda>c. cu_id c = i) (set_currency (mk_upd db)) (vd_currencies db))\<rparr>)))"

definition repo_update_currency :: "int64 \<Rightarrow> vc_update_input \<Rightarrow> vc_currency vc_op" where
  "repo_update_currency i inp =
     vc_bind (if ui_metadata inp = NilMap then vc_return None
              else vc_bind (vc_lift (marshal_metadata (ui_metadata inp))) (\<lambda>md. vc_return (Some (decode_metadata md))))
       (\<lambda>md. vc_call (update_currency_row i (\<lambda>db.
          CurFields (ui_name inp) (ui_symbol inp) (ui_description inp) md (vd_now db))))"

definition repo_set_status :: "int64 \<Rightarrow> string \<Rightarrow> vc_currency vc_op" where
  "repo_set_status i status = vc_call (update_currency_row i (\<lambda>db. CurStatus status (vd_now db)))"

definition list_group_policies :: "int64 \<Rightarrow> vc_policy list vc_op" where
  "list_group_policies currency = vc_call (vc_read (\<lambda>db.
     sort_key po_group (tab_select (\<lambda>p. po_currency p = currency) (vd_policies db))))"

text \<open>\<open>INSERT ... ON CONFLICT (currency_id, group_id) DO UPDATE\<close> of one policy row.\<close>

definition set_policy :: "vc_policy \<Rightarrow> vc_policy \<Rightarrow> vc_policy" where
  "set_policy n p = p\<lparr>po_enabled := po_enabled n, po_can_earn := po_can_earn n,
     po_can_spend := po_can_spend n, po_max := po_max n, po_metadata := po_metadata n,
     po_updated_at := po_updated_at n\<rparr>"

definition upsert_policy_row :: "(int64 \<Rightarrow> vc_policy) \<Rightarrow> (vc_policy \<Rightarrow> vc_policy) \<Rightarrow> vc_policy vc_op" where
  "upsert_policy_row mk conflict_set db =
     (case tab_find (\<lambda>p. po_key p = po_key (mk 0)) (vd_policies db) of
        Some p \<Rightarrow> (Inr (conflict_set p), db\<lparr>vd_policies :=
          snd (tab_update (\<lambda>q. po_key q = po_key (mk 0)) conflict_set (vd_policies db))\<rparr>)
      | None \<Rightarrow> (case tab_insert mk (vd_policies db) of
          (i, t') \<Rightarrow> (Inr (mk i), db\<lparr>vd_policies := t'\<rparr>)))"

definition currency_exists :: "vc_db \<Rightarrow> int64 \<Rightarrow> bool" where
  "currency_exists db i \<longleftrightarrow> tab_find (\<lambda>c. cu_id c = i) (vd_currencies db) \<noteq> None"

definition repo_upsert_policy :: "vc_policy_input \<Rightarrow> vc_policy vc_op" where
  "repo_upsert_policy inp = vc_bind (vc_lift (marshal_metadata (pi_metadata inp))) (\<lambda>md.
     vc_call (\<lambda>db.
       (let mk = (\<lambda>i. \<lparr>po_id = i, po_currency = pi_currency inp, po_group = pi_group inp,
              po_enabled = pi_enabled inp, po_can_earn = pi_can_earn inp, po_can_spend = pi_can_spend inp,
              po_max = pi_max inp, po_metadata = decode_metadata md, po_created_at = vd_now db,
              po_updated_at = vd_now db\<rparr>)
        in if (case pi_max inp of None \<Rightarrow> False | Some m \<Rightarrow> m \<le> 0) then (Inl err_check, db)
           else if \<not> currency_exists db (pi_currency inp) \<or> \<not> group_exists db (pi_group inp)
             then (Inl err_vc_invalid, db)
           else upsert_policy_row mk (set_policy (mk 0)) db)))"

definition public_group :: "vc_group \<Rightarrow> bool" where
  "public_group g \<longleftrightarrow> gr_status g = ''active'' \<and> gr_deleted_at g = None \<and>
     gr_subscription_type g = ''standard'' \<and> \<not> gr_exclusive g"

definition open_policy :: "int64 \<Rightarrow> int64 \<Rightarrow> gtime \<Rightarrow> int64 \<Rightarrow> vc_policy" where
  "open_policy currency grp at i = \<lparr>po_id = i, po_currency = currency, po_group = grp, po_enabled = True,
     po_can_earn = True, po_can_spend = True, po_max = None, po_metadata = JsonMap empty_json,
     po_created_at = at, po_updated_at = at\<rparr>"

fun upsert_open :: "int64 \<Rightarrow> int64 list \<Rightarrow> vc_policy list vc_op" where
  "upsert_open currency [] db = (Inr [], db)"
| "upsert_open currency (g # gs) db =
     vc_bind (upsert_policy_row (open_policy currency g (vd_now db))
        (\<lambda>p. p\<lparr>po_enabled := True, po_can_earn := True, po_can_spend := True, po_updated_at := vd_now db\<rparr>))
      (\<lambda>p. vc_bind (upsert_open currency gs) (\<lambda>ps. vc_return (p # ps))) db"

definition repo_enable_for_all :: "int64 \<Rightarrow> vc_policy list vc_op" where
  "repo_enable_for_all currency = vc_call (\<lambda>db.
     (let gs = map gr_id (filter public_group (vd_groups db)) in
      if gs \<noteq> [] \<and> \<not> currency_exists db currency then (Inl err_vc_not_found, db)
      else vc_bind (upsert_open currency gs) (\<lambda>ps. vc_return (sort_key po_group ps)) db))"

definition repo_delete_policy :: "int64 \<Rightarrow> int64 \<Rightarrow> unit vc_op" where
  "repo_delete_policy currency grp = vc_call (\<lambda>db.
     (case tab_delete (\<lambda>p. po_key p = (currency, grp)) (vd_policies db) of
        (n, t') \<Rightarrow> if n = 0 then (Inl err_vc_policy_not_found, db)
          else (Inr (), db\<lparr>vd_policies := t'\<rparr>)))"

end
