(* ===== verification/VC_Ledger.thy ===== *)
theory VC_Ledger
  imports VC_Repo
begin

text \<open>
  The mutations of \<open>virtual_currency_repo.go\<close>: \<open>apply_delta_tx\<close> is \<open>applyCurrencyDeltaTx\<close>, the one
  place that changes a wallet, split at its journal, ledger and posting statements; \<open>reserve_hold\<close>
  and \<open>settle_hold\<close> wrap it with the rows of \<open>virtual_currency_holds\<close>; \<open>expire_holds\<close> is the sweep.
\<close>

section \<open>Journals and postings\<close>

definition acct_user_available :: string where "acct_user_available = ''user_available''"
definition acct_user_reserved :: string where "acct_user_reserved = ''user_reserved''"
definition acct_issuance :: string where "acct_issuance = ''system_issuance''"
definition acct_sink :: string where "acct_sink = ''system_sink''"
definition acct_adjust :: string where "acct_adjust = ''system_adjustment''"

lemmas accts = acct_user_available_def acct_user_reserved_def acct_issuance_def acct_sink_def acct_adjust_def

record posting_spec =
  ps_kind :: string
  ps_user :: "int64 option"
  ps_amount :: int64

definition system_account :: "string \<Rightarrow> string" where
  "system_account typ = (if typ = entry_grant then acct_issuance
     else if typ \<in> {entry_spend, entry_commit, entry_refund} then acct_sink else acct_adjust)"

definition build_postings :: "vc_delta_input \<Rightarrow> posting_spec list" where
  "build_postings inp =
     (if di_available inp \<noteq> 0 then [\<lparr>ps_kind = acct_user_available, ps_user = Some (di_user inp), ps_amount = di_available inp\<rparr>] else []) @
     (if di_reserved inp \<noteq> 0 then [\<lparr>ps_kind = acct_user_reserved, ps_user = Some (di_user inp), ps_amount = di_reserved inp\<rparr>] else []) @
     (if di_delta inp \<noteq> 0 then [\<lparr>ps_kind = system_account (di_type inp), ps_user = None, ps_amount = wrap64 (- di_delta inp)\<rparr>] else [])"

definition new_journal :: "vc_delta_input \<Rightarrow> metadata \<Rightarrow> gtime \<Rightarrow> int64 \<Rightarrow> vc_journal" where
  "new_journal inp md at i = \<lparr>jo_id = i, jo_currency = di_currency inp, jo_user = di_user inp,
     jo_group = Some (di_group inp), jo_type = di_type inp, jo_source_type = di_source_type inp,
     jo_source_id = null_if_empty (di_source_id inp), jo_key = di_key inp, jo_fingerprint = di_fingerprint inp,
     jo_reason = di_reason inp, jo_metadata = md, jo_created_by = di_created_by inp, jo_created_at = at,
     jo_posted_at = None\<rparr>"

definition delta_check :: "vc_delta_input \<Rightarrow> bool" where
  "delta_check inp \<longleftrightarrow> entry_check (di_type inp) (di_source_type inp) (null_if_empty (di_source_id inp))
     (di_key inp) (di_fingerprint inp) (di_reason inp)"

definition create_journal_tx :: "vc_delta_input \<Rightarrow> string \<Rightarrow> int64 vc_op" where
  "create_journal_tx inp md db =
     (let mk = new_journal inp (decode_metadata md) (vd_now db) in
      if \<not> delta_check inp then (Inl err_check, db)
      else if tab_find (\<lambda>j. jo_ukey j = jo_ukey (mk 0)) (vd_journals db) \<noteq> None then (Inl err_vc_idempotency, db)
      else if \<not> group_exists db (di_group inp) \<or> \<not> user_exists db (Some (di_user inp)) \<or> \<not> user_exists db (di_created_by inp)
        then (Inl err_foreign_key, db)
      else (case tab_insert mk (vd_journals db) of (i, t') \<Rightarrow> (Inr i, db\<lparr>vd_journals := t'\<rparr>)))"

text \<open>The trigger that guards the rows of a journal.\<close>

definition journal_open :: "vc_db \<Rightarrow> int64 \<Rightarrow> bool" where
  "journal_open db j \<longleftrightarrow> (case tab_find (\<lambda>r. jo_id r = j) (vd_journals db) of
     None \<Rightarrow> False | Some r \<Rightarrow> jo_posted_at r = None)"

definition insert_posting :: "int64 \<Rightarrow> int64 \<Rightarrow> posting_spec \<Rightarrow> unit vc_op" where
  "insert_posting j currency p db =
     (if \<not> journal_open db j then (Inl err_check, db)
      else if ps_amount p = 0 \<or> (ps_user p = None) \<noteq> (ps_kind p \<in> {acct_issuance, acct_sink, acct_adjust})
        then (Inl err_check, db)
      else if tab_find (\<lambda>r. pt_journal r = j \<and> pt_kind r = ps_kind p \<and> pt_user r = ps_user p) (vd_postings db) \<noteq> None
        then (Inl err_check, db)
      else (Inr (), db\<lparr>vd_postings := snd (tab_insert (\<lambda>i. \<lparr>pt_id = i, pt_journal = j, pt_currency = currency,
        pt_user = ps_user p, pt_kind = ps_kind p, pt_amount = ps_amount p, pt_created_at = vd_now db\<rparr>)
        (vd_postings db))\<rparr>))"

fun insert_postings :: "int64 \<Rightarrow> int64 \<Rightarrow> posting_spec list \<Rightarrow> unit vc_op" where
  "insert_postings j currency [] db = (Inr (), db)"
| "insert_postings j currency (p # ps) db =
     vc_bind (insert_posting j currency p) (\<lambda>_. insert_postings j currency ps) db"

definition seal_journal :: "gtime \<Rightarrow> vc_journal \<Rightarrow> vc_journal" where
  "seal_journal at r = r\<lparr>jo_posted_at := Some at\<rparr>"

definition seal_journal_tx :: "int64 \<Rightarrow> unit vc_op" where
  "seal_journal_tx j db =
     (case tab_update (\<lambda>r. jo_id r = j \<and> jo_posted_at r = None) (seal_journal (vd_now db)) (vd_journals db) of
        (n, t') \<Rightarrow> if n \<noteq> 1 then (Inl (PlainErr ''seal virtual currency journal''), db\<lparr>vd_journals := t'\<rparr>)
          else (Inr (), db\<lparr>vd_journals := t'\<rparr>))"

section \<open>applyCurrencyDeltaTx\<close>

definition join_entry :: "vc_currency \<Rightarrow> vc_ledger_row \<Rightarrow> vc_entry" where
  "join_entry c r = \<lparr>le_row = r, le_code = cu_code c, le_name = cu_name c, le_symbol = cu_symbol c, le_scale = cu_scale c\<rparr>"

definition ledger_by_key :: "int64 \<Rightarrow> int64 \<Rightarrow> string \<Rightarrow> vc_db \<Rightarrow> vc_entry option" where
  "ledger_by_key currency user key db =
     (case tab_find (\<lambda>r. lr_ukey r = (currency, user, key)) (vd_ledger db) of None \<Rightarrow> None
      | Some r \<Rightarrow> (case tab_find (\<lambda>c. cu_id c = lr_currency r) (vd_currencies db) of None \<Rightarrow> None
          | Some c \<Rightarrow> Some (join_entry c r)))"

definition ensure_wallet :: "int64 \<Rightarrow> int64 \<Rightarrow> unit vc_op" where
  "ensure_wallet user currency db =
     (if tab_find (\<lambda>w. wa_key w = (user, currency)) (vd_wallets db) \<noteq> None then (Inr (), db)
      else if user \<notin> set (vd_users db) \<or> \<not> currency_exists db currency then (Inl err_vc_invalid, db)
      else (Inr (), db\<lparr>vd_wallets := snd (tab_insert (\<lambda>i. \<lparr>wa_id = i, wa_user = user, wa_currency = currency,
        wa_available = 0, wa_reserved = 0, wa_version = 0, wa_created_at = vd_now db, wa_updated_at = vd_now db\<rparr>)
        (vd_wallets db))\<rparr>))"

definition lock_wallet :: "int64 \<Rightarrow> int64 \<Rightarrow> vc_wallet_row vc_op" where
  "lock_wallet user currency db = (case tab_find (\<lambda>w. wa_key w = (user, currency)) (vd_wallets db) of
     None \<Rightarrow> (Inl err_no_rows, db) | Some w \<Rightarrow> (Inr w, db))"

text \<open>The policy of the group: its maximum balance, unless a settlement skips the check.\<close>

definition check_policy :: "vc_delta_input \<Rightarrow> int64 option vc_op" where
  "check_policy inp db = (if di_settlement inp then (Inr None, db)
     else (case tab_find (\<lambda>p. po_key p = (di_currency inp, di_group inp)) (vd_policies db) of
       None \<Rightarrow> (Inl err_vc_group_denied, db)
     | Some p \<Rightarrow> if \<not> po_enabled p \<or> (di_require_spend inp \<and> \<not> po_can_spend p) \<or> (di_require_earn inp \<and> \<not> po_can_earn p)
         then (Inl err_vc_group_denied, db) else (Inr (po_max p), db)))"

definition check_access :: "vc_delta_input \<Rightarrow> unit vc_op" where
  "check_access inp db =
     vc_guard (\<not> (di_require_access inp \<and> \<not> di_settlement inp) \<or> user_allowed db (di_group inp) (di_user inp))
       err_vc_group_denied db"

definition new_balances :: "vc_delta_input \<Rightarrow> vc_wallet_row \<Rightarrow> int64 option \<Rightarrow> go_error + int64 \<times> int64" where
  "new_balances inp w max_balance =
     (case safe_add_int64 (wa_available w) (di_available inp) of (available, ok1) \<Rightarrow>
        if \<not> ok1 \<or> available < 0 then Inl err_vc_insufficient
        else (case safe_add_int64 (wa_reserved w) (di_reserved inp) of (reserved, ok2) \<Rightarrow>
          if \<not> ok2 \<or> reserved < 0 then Inl err_vc_insufficient
          else (case max_balance of None \<Rightarrow> Inr (available, reserved)
            | Some m \<Rightarrow> (case safe_add_int64 available reserved of (units, ok3) \<Rightarrow>
                if \<not> ok3 \<or> units > m then Inl err_vc_limit else Inr (available, reserved)))))"

definition set_wallet :: "int64 \<times> int64 \<times> gtime \<Rightarrow> vc_wallet_row \<Rightarrow> vc_wallet_row" where
  "set_wallet u w = (case u of (a, r, at) \<Rightarrow>
     w\<lparr>wa_available := a, wa_reserved := r, wa_version := wa_version w + 1, wa_updated_at := at\<rparr>)"

definition update_wallet :: "vc_wallet_row \<Rightarrow> int64 \<times> int64 \<Rightarrow> unit vc_op" where
  "update_wallet w b db = (Inr (), db\<lparr>vd_wallets :=
     snd (tab_update (\<lambda>x. wa_id x = wa_id w \<and> wa_version x = wa_version w) (set_wallet (fst b, snd b, vd_now db)) (vd_wallets db))\<rparr>)"

definition new_ledger_row ::
  "vc_delta_input \<Rightarrow> metadata \<Rightarrow> gtime \<Rightarrow> int64 \<Rightarrow> int64 \<times> int64 \<Rightarrow> int64 \<Rightarrow> vc_ledger_row" where
  "new_ledger_row inp md at j b i = \<lparr>lr_id = i, lr_journal = j, lr_currency = di_currency inp, lr_user = di_user inp,
     lr_group = Some (di_group inp), lr_delta = di_delta inp, lr_available = di_available inp,
     lr_reserved = di_reserved inp, lr_available_after = fst b, lr_reserved_after = snd b, lr_type = di_type inp,
     lr_source_type = di_source_type inp, lr_source_id = null_if_empty (di_source_id inp), lr_key = di_key inp,
     lr_fingerprint = di_fingerprint inp, lr_reason = di_reason inp, lr_metadata = md,
     lr_created_by = di_created_by inp, lr_created_at = at\<rparr>"

definition insert_ledger_tx :: "vc_delta_input \<Rightarrow> string \<Rightarrow> int64 \<Rightarrow> int64 \<times> int64 \<Rightarrow> int64 vc_op" where
  "insert_ledger_tx inp md j b db =
     (let mk = new_ledger_row inp (decode_metadata md) (vd_now db) j b in
      if \<not> journal_open db j \<or> \<not> ledger_check (mk 0) then (Inl err_check, db)
      else if tab_find (\<lambda>r. lr_ukey r = lr_ukey (mk 0)) (vd_ledger db) \<noteq> None then (Inl err_vc_idempotency, db)
      else if \<not> group_exists db (di_group inp) \<or> \<not> user_exists db (di_created_by inp) then (Inl err_foreign_key, db)
      else (case tab_insert mk (vd_ledger db) of (i, t') \<Rightarrow> (Inr i, db\<lparr>vd_ledger := t'\<rparr>)))"

text \<open>The statements after the checks: journal, ledger entry, postings, seal.\<close>

definition record_delta :: "gtime \<Rightarrow> vc_delta_input \<Rightarrow> vc_currency \<Rightarrow> int64 \<times> int64 \<Rightarrow> vc_entry vc_op" where
  "record_delta go_now inp cur b =
     vc_bind (vc_lift (marshal_metadata (di_metadata inp))) (\<lambda>md.
     vc_bind (create_journal_tx inp md) (\<lambda>j.
     vc_bind (insert_ledger_tx inp md j b) (\<lambda>i.
     vc_bind (insert_postings j (di_currency inp) (build_postings inp)) (\<lambda>_.
     vc_bind (seal_journal_tx j) (\<lambda>_.
     vc_return (join_entry cur (new_ledger_row inp (di_metadata inp) go_now j b i)))))))"

definition post_delta :: "gtime \<Rightarrow> vc_delta_input \<Rightarrow> vc_currency \<Rightarrow> vc_wallet_row \<Rightarrow> vc_entry vc_op" where
  "post_delta go_now inp cur w =
     vc_bind (vc_guard (cu_status cur = vc_active \<or> di_settlement inp) err_vc_disabled) (\<lambda>_.
     vc_bind (check_policy inp) (\<lambda>max_balance.
     vc_bind (check_access inp) (\<lambda>_.
     vc_bind (vc_lift (new_balances inp w max_balance)) (\<lambda>b.
     vc_bind (update_wallet w b) (\<lambda>_.
     record_delta go_now inp cur b)))))"

definition apply_delta_tx :: "gtime \<Rightarrow> vc_delta_input \<Rightarrow> vc_entry vc_op" where
  "apply_delta_tx go_now inp =
     vc_bind (find_currency (\<lambda>c. cu_id c = di_currency inp)) (\<lambda>cur.
     vc_bind (ensure_wallet (di_user inp) (di_currency inp)) (\<lambda>_.
     vc_bind (lock_wallet (di_user inp) (di_currency inp)) (\<lambda>w.
     vc_bind (vc_read (ledger_by_key (di_currency inp) (di_user inp) (di_key inp))) (\<lambda>existing.
     case existing of
       Some e \<Rightarrow> if lr_fingerprint (le_row e) \<noteq> di_fingerprint inp then vc_fail err_vc_idempotency
                 else vc_return e
     | None \<Rightarrow> post_delta go_now inp cur w))))"

definition apply_currency_delta :: "gtime \<Rightarrow> vc_delta_input \<Rightarrow> vc_entry vc_op" where
  "apply_currency_delta go_now inp = vc_call (apply_delta_tx go_now inp)"

section \<open>Holds\<close>

definition join_hold :: "vc_currency \<Rightarrow> vc_hold_row \<Rightarrow> vc_hold" where
  "join_hold c h = \<lparr>hd_row = h, hd_code = cu_code c, hd_name = cu_name c, hd_symbol = cu_symbol c, hd_scale = cu_scale c\<rparr>"

definition get_hold_where :: "(vc_hold_row \<Rightarrow> bool) \<Rightarrow> vc_hold vc_op" where
  "get_hold_where P db = (case tab_find P (vd_holds db) of None \<Rightarrow> (Inl err_vc_hold_not_found, db)
     | Some h \<Rightarrow> (case tab_find (\<lambda>c. cu_id c = ho_currency h) (vd_currencies db) of
         None \<Rightarrow> (Inl err_vc_hold_not_found, db) | Some c \<Rightarrow> (Inr (join_hold c h), db)))"

definition get_hold :: "int64 \<Rightarrow> int64 \<Rightarrow> vc_hold vc_op" where
  "get_hold user hold = vc_call (get_hold_where (\<lambda>h. ho_id h = hold \<and> ho_user h = user))"

definition new_hold :: "vc_reserve_input \<Rightarrow> metadata \<Rightarrow> gtime \<Rightarrow> int64 \<Rightarrow> vc_hold_row" where
  "new_hold inp md at i = \<lparr>ho_id = i, ho_currency = ri_currency inp, ho_user = ri_user inp,
     ho_group = Some (ri_group inp), ho_amount = ri_amount inp, ho_status = hold_active,
     ho_source_type = ri_source_type inp, ho_source_id = null_if_empty (ri_source_id inp), ho_key = ri_key inp,
     ho_expires_at = ri_expires_at inp, ho_metadata = md, ho_created_at = at, ho_updated_at = at, ho_settled_at = None\<rparr>"

text \<open>
  The insert of a hold. When its unique index refuses it, the transaction is aborted, so the
  \<open>getHoldByIdempotency\<close> that the code then issues fails too.
\<close>

definition insert_hold_tx :: "vc_reserve_input \<Rightarrow> string \<Rightarrow> int64 vc_op" where
  "insert_hold_tx inp md db =
     (let mk = new_hold inp (decode_metadata md) (vd_now db) in
      if \<not> hold_check (mk 0) then (Inl err_check, db)
      else if tab_find (\<lambda>h. ho_ukey h = ho_ukey (mk 0)) (vd_holds db) \<noteq> None then (Inl err_tx_aborted, db)
      else if \<not> group_exists db (ri_group inp) then (Inl err_foreign_key, db)
      else (case tab_insert mk (vd_holds db) of (i, t') \<Rightarrow> (Inr i, db\<lparr>vd_holds := t'\<rparr>)))"

definition reserve_delta :: "vc_reserve_input \<Rightarrow> vc_delta_input" where
  "reserve_delta inp = \<lparr>di_currency = ri_currency inp, di_user = ri_user inp, di_group = ri_group inp,
     di_delta = 0, di_available = wrap64 (- ri_amount inp), di_reserved = ri_amount inp, di_type = entry_reserve,
     di_source_type = ri_source_type inp, di_source_id = ri_source_id inp, di_key = ri_key inp,
     di_fingerprint = ri_fingerprint inp, di_reason = ri_reason inp, di_metadata = ri_metadata inp,
     di_created_by = None, di_require_access = True, di_require_spend = True, di_require_earn = False,
     di_settlement = False\<rparr>"

definition reserve_hold_tx :: "gtime \<Rightarrow> vc_reserve_input \<Rightarrow> (vc_hold \<times> vc_entry) vc_op" where
  "reserve_hold_tx go_now inp =
     vc_bind (apply_delta_tx go_now (reserve_delta inp)) (\<lambda>entry.
     vc_bind (vc_lift (marshal_metadata (ri_metadata inp))) (\<lambda>md.
     vc_bind (insert_hold_tx inp md) (\<lambda>i.
     vc_bind (get_hold_where (\<lambda>h. ho_id h = i)) (\<lambda>hold.
     vc_return (hold, entry)))))"

definition reserve_hold :: "gtime \<Rightarrow> vc_reserve_input \<Rightarrow> (vc_hold \<times> vc_entry) vc_op" where
  "reserve_hold go_now inp =
     (if is_zero_time (ri_expires_at inp) \<or> \<not> t_after (ri_expires_at inp) go_now then vc_fail err_vc_invalid
      else vc_call (reserve_hold_tx go_now inp))"

definition settle_delta :: "vc_settle_input \<Rightarrow> vc_hold_row \<Rightarrow> string \<Rightarrow> vc_delta_input" where
  "settle_delta inp h typ = \<lparr>di_currency = ho_currency h, di_user = ho_user h,
     di_group = dereference_int64 (ho_group h),
     di_delta = (if si_action inp = entry_commit then wrap64 (- ho_amount h) else 0),
     di_available = (if si_action inp = entry_commit then 0 else ho_amount h),
     di_reserved = wrap64 (- ho_amount h), di_type = typ,
     di_source_type = si_source_type inp, di_source_id = si_source_id inp, di_key = si_key inp,
     di_fingerprint = si_fingerprint inp, di_reason = si_reason inp, di_metadata = si_metadata inp,
     di_created_by = None, di_require_access = False, di_require_spend = False, di_require_earn = False,
     di_settlement = True\<rparr>"

definition set_hold :: "string \<times> gtime \<Rightarrow> vc_hold_row \<Rightarrow> vc_hold_row" where
  "set_hold u h = (case u of (st, at) \<Rightarrow> h\<lparr>ho_status := st, ho_settled_at := Some at, ho_updated_at := at\<rparr>)"

definition update_hold_tx :: "vc_hold_row \<Rightarrow> string \<Rightarrow> unit vc_op" where
  "update_hold_tx h st db =
     (case tab_update (\<lambda>x. ho_id x = ho_id h \<and> ho_user x = ho_user h \<and> ho_status x = hold_active)
         (set_hold (st, vd_now db)) (vd_holds db) of
        (n, t') \<Rightarrow> if n \<noteq> 1 then (Inl err_vc_hold_state, db\<lparr>vd_holds := t'\<rparr>) else (Inr (), db\<lparr>vd_holds := t'\<rparr>))"

text \<open>Entry type and status of a settlement; a release of an expired hold is an expiry.\<close>

definition settle_kind :: "gtime \<Rightarrow> vc_settle_input \<Rightarrow> vc_hold_row \<Rightarrow> string \<Rightarrow> string \<Rightarrow> string \<times> string" where
  "settle_kind go_now inp h typ st = (if si_action inp = entry_release \<and> \<not> t_after (ho_expires_at h) go_now
     then (entry_expire, hold_expired) else (typ, st))"

definition settle_hold_tx ::
  "gtime \<Rightarrow> vc_settle_input \<Rightarrow> string \<Rightarrow> string \<Rightarrow> (vc_hold \<times> vc_entry) vc_op" where
  "settle_hold_tx go_now inp typ0 st0 =
     vc_bind (get_hold_where (\<lambda>h. ho_id h = si_hold inp \<and> ho_user h = si_user inp)) (\<lambda>hold.
     vc_bind (vc_read (ledger_by_key (ho_currency (hd_row hold)) (si_user inp) (si_key inp))) (\<lambda>existing.
     case existing of
       Some e \<Rightarrow> if lr_fingerprint (le_row e) \<noteq> si_fingerprint inp then vc_fail err_vc_idempotency
                 else vc_return (hold, e)
     | None \<Rightarrow>
       (let h = hd_row hold in
        if ho_status h \<noteq> hold_active then vc_fail err_vc_hold_state
        else if si_action inp = entry_commit \<and> \<not> t_after (ho_expires_at h) go_now then vc_fail err_vc_hold_expired
        else if si_action inp \<noteq> entry_commit \<and> si_action inp \<noteq> entry_release then vc_fail err_vc_invalid
        else (case settle_kind go_now inp h typ0 st0 of (typ, st) \<Rightarrow>
          vc_bind (apply_delta_tx go_now (settle_delta inp h typ)) (\<lambda>entry.
          vc_bind (update_hold_tx h st) (\<lambda>_.
          vc_bind (get_hold_where (\<lambda>x. ho_id x = ho_id h \<and> ho_user x = ho_user h)) (\<lambda>settled.
          vc_return (settled, entry))))))))"

definition settle_hold ::
  "gtime \<Rightarrow> vc_settle_input \<Rightarrow> string \<Rightarrow> string \<Rightarrow> (vc_hold \<times> vc_entry) vc_op" where
  "settle_hold go_now inp typ st = vc_call (settle_hold_tx go_now inp typ st)"

definition commit_hold :: "gtime \<Rightarrow> vc_settle_input \<Rightarrow> (vc_hold \<times> vc_entry) vc_op" where
  "commit_hold go_now inp = settle_hold go_now inp entry_commit hold_committed"
definition release_hold :: "gtime \<Rightarrow> vc_settle_input \<Rightarrow> (vc_hold \<times> vc_entry) vc_op" where
  "release_hold go_now inp = settle_hold go_now inp entry_release hold_released"

section \<open>The sweep\<close>

definition hold_fingerprint ::
  "(fp_payload \<Rightarrow> string) \<Rightarrow> vc_hold_row \<Rightarrow> string \<Rightarrow> string \<Rightarrow> string \<Rightarrow> string \<Rightarrow> metadata \<Rightarrow> string" where
  "hold_fingerprint digest h action src src_id reason md =
     digest (HoldPayload (ho_currency h) (ho_user h) (dereference_int64 (ho_group h)) (ho_amount h)
       (unix_nano (ho_expires_at h)) action src src_id reason md)"

definition sweep_metadata :: metadata where
  "sweep_metadata = JsonMap (''{'' @ [CHR 0x22] @ ''automatic'' @ [CHR 0x22] @ '':true}'')"

definition sweep_input :: "(fp_payload \<Rightarrow> string) \<Rightarrow> vc_hold_row \<Rightarrow> vc_settle_input" where
  "sweep_input digest h =
     (let src_id = ''hold-expiry-sweep:'' @ itoa (ho_id h); reason = ''expired hold sweep'' in
      \<lparr>si_hold = ho_id h, si_user = ho_user h, si_action = entry_release, si_source_type = ''system'',
       si_source_id = src_id, si_key = ''sweep:'' @ itoa (ho_id h),
       si_fingerprint = hold_fingerprint digest h entry_release ''system'' src_id reason sweep_metadata,
       si_reason = reason, si_metadata = sweep_metadata\<rparr>)"

fun sweep :: "gtime \<Rightarrow> (fp_payload \<Rightarrow> string) \<Rightarrow> (int64 \<times> int64) list \<Rightarrow> int64 \<Rightarrow> vc_db \<Rightarrow> (go_error option \<times> int64) \<times> vc_db" where
  "sweep go_now digest [] n db = ((None, n), db)"
| "sweep go_now digest ((i, user) # cs) n db =
     (case get_hold user i db of
        (Inl e, db1) \<Rightarrow> if errors_is e err_vc_hold_not_found then sweep go_now digest cs n db1 else ((Some e, n), db1)
      | (Inr hold, db1) \<Rightarrow>
        (case settle_hold go_now (sweep_input digest (hd_row hold)) entry_expire hold_expired db1 of
           (Inl e, db2) \<Rightarrow> if errors_is e err_vc_hold_state \<or> errors_is e err_vc_hold_not_found
             then sweep go_now digest cs n db2 else ((Some e, n), db2)
         | (Inr _, db2) \<Rightarrow> sweep go_now digest cs (n + 1) db2))"

definition expired_candidates :: "int64 \<Rightarrow> int \<Rightarrow> vc_db \<Rightarrow> (int64 \<times> int64) list" where
  "expired_candidates currency limit db =
     map (\<lambda>h. (ho_id h, ho_user h)) (take (nat limit)
       (sort_key ho_expires_at (sort_key ho_id (tab_select (\<lambda>h. ho_status h = hold_active \<and> ho_expires_at h \<le> vd_now db \<and>
          (currency > 0 \<longrightarrow> ho_currency h = currency)) (vd_holds db)))))"

text \<open>As in Go, the count of settled holds is returned beside the error.\<close>

definition repo_expire_holds :: "gtime \<Rightarrow> (fp_payload \<Rightarrow> string) \<Rightarrow> int64 \<Rightarrow> int \<Rightarrow> vc_db \<Rightarrow> (go_error option \<times> int64) \<times> vc_db" where
  "repo_expire_holds go_now digest currency limit db =
     (if limit < 1 \<or> limit > 500 then ((Some err_vc_invalid, 0), db)
      else (case vc_call (vc_read (expired_candidates currency limit)) db of
        (Inl e, db1) \<Rightarrow> ((Some e, 0), db1)
      | (Inr cs, db1) \<Rightarrow> sweep go_now digest cs 0 db1))"

end
