(* ===== verification/VC_Queries.thy ===== *)
theory VC_Queries
  imports VC_Ledger
begin

text \<open>
  The read side of \<open>virtual_currency_repo.go\<close>: the pages of holds and ledger entries, the wallets of
  a user with the groups that open a currency to him, and the reconciliation report. Every statement
  is a call of its own; between two of them the database is the same one.
\<close>

section \<open>Pages\<close>

definition err_offset :: go_error where "err_offset = PlainErr ''pq: OFFSET must not be negative (2201X)''"

text \<open>\<open>JOIN virtual_currencies c ON c.id = ...\<close>.\<close>

definition join_currency :: "vc_db \<Rightarrow> ('r \<Rightarrow> int64) \<Rightarrow> (vc_currency \<Rightarrow> 'r \<Rightarrow> 'e) \<Rightarrow> (vc_currency \<Rightarrow> 'r \<Rightarrow> bool) \<Rightarrow> 'r list \<Rightarrow> 'e list" where
  "join_currency db cur_id join keep rows = concat (map (\<lambda>r.
     case tab_find (\<lambda>c. cu_id c = cur_id r) (vd_currencies db) of None \<Rightarrow> []
     | Some c \<Rightarrow> if keep c r then [join c r] else []) rows)"

definition code_matches :: "string \<Rightarrow> vc_currency \<Rightarrow> bool" where
  "code_matches code c \<longleftrightarrow> code = [] \<or> to_lower (cu_code c) = to_lower code"

text \<open>The defaults of a page, the rows \<open>LIMIT size OFFSET (page - 1) * size\<close> keeps, and the counts.\<close>

definition page_of :: "vc_query \<Rightarrow> int \<times> int" where
  "page_of q = (if qu_page q < 1 then 1 else qu_page q,
     if qu_size q < 1 then 20 else if qu_size q > 100 then 100 else qu_size q)"

definition limit_rows :: "int \<Rightarrow> int \<Rightarrow> 'e list \<Rightarrow> go_error + 'e list" where
  "limit_rows page per rows =
     (let offset = wrap64 (wrap64 (page - 1) * per) in
      if offset < 0 then Inl err_offset else Inr (take (nat per) (drop (nat offset) rows)))"

definition page_result :: "int64 \<Rightarrow> int \<Rightarrow> int \<Rightarrow> vc_page" where
  "page_result n page per = \<lparr>pg_total = n, pg_page = page, pg_size = per,
     pg_pages = (if n > 0 then quot (wrap64 (wrap64 (n + per) - 1)) per else 0)\<rparr>"

definition list_page :: "(vc_db \<Rightarrow> 'e list) \<Rightarrow> vc_query \<Rightarrow> ('e list \<times> vc_page) vc_op" where
  "list_page rows q =
     vc_bind (vc_call (vc_read (\<lambda>db. int (length (rows db))))) (\<lambda>n.
     case page_of q of (page, per) \<Rightarrow>
     vc_bind (vc_call (\<lambda>db. vc_lift (limit_rows page per (rows db)) db)) (\<lambda>items.
     vc_return (items, page_result n page per)))"

text \<open>\<open>ORDER BY created_at DESC, id DESC\<close>.\<close>

definition newest_first :: "('r \<Rightarrow> gtime) \<Rightarrow> ('r \<Rightarrow> int64) \<Rightarrow> 'r list \<Rightarrow> 'r list" where
  "newest_first created i rows = sort_key (\<lambda>r. - created r) (sort_key (\<lambda>r. - i r) rows)"

definition hold_rows :: "vc_query \<Rightarrow> vc_db \<Rightarrow> vc_hold list" where
  "hold_rows q db = join_currency db ho_currency join_hold
     (\<lambda>c h. code_matches (qu_code q) c \<and> (qu_status q = [] \<or> ho_status h = qu_status q))
     (newest_first ho_created_at ho_id (tab_select (\<lambda>h. ho_user h = qu_user q) (vd_holds db)))"

definition repo_list_holds :: "vc_query \<Rightarrow> (vc_hold list \<times> vc_page) vc_op" where
  "repo_list_holds q = list_page (hold_rows q) q"

definition ledger_rows :: "vc_query \<Rightarrow> vc_db \<Rightarrow> vc_entry list" where
  "ledger_rows q db = join_currency db lr_currency join_entry (\<lambda>c r. code_matches (qu_code q) c)
     (newest_first lr_created_at lr_id (tab_select (\<lambda>r. lr_user r = qu_user q) (vd_ledger db)))"

definition repo_list_ledger :: "vc_query \<Rightarrow> (vc_entry list \<times> vc_page) vc_op" where
  "repo_list_ledger q = list_page (ledger_rows q) q"

section \<open>Wallets\<close>

definition open_groups :: "vc_db \<Rightarrow> int64 \<Rightarrow> int64 \<Rightarrow> int64 list" where
  "open_groups db user currency = sort (remdups (map po_group
     (tab_select (\<lambda>p. po_currency p = currency \<and> po_enabled p \<and> user_allowed db (po_group p) user) (vd_policies db))))"

definition wallet_of :: "vc_db \<Rightarrow> int64 \<Rightarrow> int64 \<Rightarrow> vc_wallet_row option" where
  "wallet_of db user currency = tab_find (\<lambda>w. wa_key w = (user, currency)) (vd_wallets db)"

definition wallet_view :: "vc_db \<Rightarrow> int64 \<Rightarrow> vc_currency \<Rightarrow> vc_wallet" where
  "wallet_view db user c =
     (let w = wallet_of db user (cu_id c) in
      \<lparr>wl_currency = cu_id c, wl_code = cu_code c, wl_name = cu_name c, wl_symbol = cu_symbol c, wl_scale = cu_scale c,
       wl_available = (case w of None \<Rightarrow> 0 | Some w \<Rightarrow> wa_available w),
       wl_reserved = (case w of None \<Rightarrow> 0 | Some w \<Rightarrow> wa_reserved w),
       wl_groups = open_groups db user (cu_id c),
       wl_updated_at = (case w of None \<Rightarrow> cu_updated_at c | Some w \<Rightarrow> wa_updated_at w)\<rparr>)"

definition repo_list_user_wallets :: "int64 \<Rightarrow> vc_wallet list vc_op" where
  "repo_list_user_wallets user = vc_call (vc_read (\<lambda>db. map (wallet_view db user)
     (sort_key cu_id (tab_select (\<lambda>c. cu_status c = vc_active \<and>
        (wallet_of db user (cu_id c) \<noteq> None \<or> open_groups db user (cu_id c) \<noteq> [])) (vd_currencies db)))))"

section \<open>Reconciliation\<close>

record vc_mismatch =
  mm_user :: int64
  mm_wallet_available :: int64
  mm_wallet_reserved :: int64
  mm_ledger_available :: int64
  mm_ledger_reserved :: int64
  mm_wallet_exists :: bool
  mm_ledger_found :: bool

record vc_accounting =
  ac_journals :: int64
  ac_postings :: int64
  ac_invalid_journals :: int64
  ac_wallet_available :: string
  ac_wallet_reserved :: string
  ac_posted_available :: string
  ac_posted_reserved :: string
  ac_gross_issued :: string
  ac_net_sink :: string
  ac_net_adjustment :: string
  ac_projection_delta :: string
  ac_conservation_delta :: string

record vc_report =
  rp_currency :: int64
  rp_wallets :: int64
  rp_ledger_users :: int64
  rp_mismatches :: int64
  rp_sample_limit :: int
  rp_sample :: "vc_mismatch list"
  rp_accounting :: vc_accounting
  rp_checked_at :: gtime

text \<open>The common table expressions: the newest entry of a user, and wallets beside it.\<close>

definition latest_entry :: "vc_db \<Rightarrow> int64 \<Rightarrow> int64 \<Rightarrow> vc_ledger_row option" where
  "latest_entry db currency user =
     (case newest_first lr_created_at lr_id (tab_select (\<lambda>r. lr_user r = user \<and> lr_currency r = currency) (vd_ledger db)) of
        [] \<Rightarrow> None | r # _ \<Rightarrow> Some r)"

definition recon_row :: "int64 \<Rightarrow> vc_wallet_row option \<Rightarrow> vc_ledger_row option \<Rightarrow> vc_mismatch" where
  "recon_row user w l = \<lparr>mm_user = user,
     mm_wallet_available = (case w of None \<Rightarrow> 0 | Some w \<Rightarrow> wa_available w),
     mm_wallet_reserved = (case w of None \<Rightarrow> 0 | Some w \<Rightarrow> wa_reserved w),
     mm_ledger_available = (case l of None \<Rightarrow> 0 | Some r \<Rightarrow> lr_available_after r),
     mm_ledger_reserved = (case l of None \<Rightarrow> 0 | Some r \<Rightarrow> lr_reserved_after r),
     mm_wallet_exists = (w \<noteq> None), mm_ledger_found = (l \<noteq> None)\<rparr>"

definition recon :: "int64 \<Rightarrow> vc_db \<Rightarrow> vc_mismatch list" where
  "recon currency db =
     map (\<lambda>w. recon_row (wa_user w) (Some w) (latest_entry db currency (wa_user w)))
       (tab_select (\<lambda>w. wa_currency w = currency) (vd_wallets db)) @
     map (\<lambda>u. recon_row u None (latest_entry db currency u))
       (filter (\<lambda>u. wallet_of db u currency = None)
         (remdups (map lr_user (tab_select (\<lambda>r. lr_currency r = currency) (vd_ledger db)))))"

definition mismatched :: "vc_mismatch \<Rightarrow> bool" where
  "mismatched m \<longleftrightarrow> \<not> mm_wallet_exists m \<or> \<not> mm_ledger_found m \<or>
     mm_wallet_available m \<noteq> mm_ledger_available m \<or> mm_wallet_reserved m \<noteq> mm_ledger_reserved m"

definition wallet_sum :: "(vc_wallet_row \<Rightarrow> int) \<Rightarrow> int64 \<Rightarrow> vc_db \<Rightarrow> int" where
  "wallet_sum f currency db = sum_list (map f (tab_select (\<lambda>w. wa_currency w = currency) (vd_wallets db)))"

definition posting_sum :: "(vc_posting \<Rightarrow> bool) \<Rightarrow> int64 \<Rightarrow> vc_db \<Rightarrow> int" where
  "posting_sum P currency db = sum_list (map pt_amount (tab_select (\<lambda>p. pt_currency p = currency \<and> P p) (vd_postings db)))"

definition accounting :: "int64 \<Rightarrow> vc_db \<Rightarrow> vc_accounting" where
  "accounting currency db =
     (let avail = wallet_sum wa_available currency db; resv = wallet_sum wa_reserved currency db;
          kind = (\<lambda>k. posting_sum (\<lambda>p. pt_kind p = k) currency db);
          journals = tab_select (\<lambda>j. jo_currency j = currency) (vd_journals db)
      in \<lparr>ac_journals = int (length journals),
       ac_postings = int (length (tab_select (\<lambda>p. pt_currency p = currency) (vd_postings db))),
       ac_invalid_journals = int (length (filter (\<lambda>j. \<not> journal_balanced db j) journals)),
       ac_wallet_available = itoa avail, ac_wallet_reserved = itoa resv,
       ac_posted_available = itoa (kind acct_user_available), ac_posted_reserved = itoa (kind acct_user_reserved),
       ac_gross_issued = itoa (- kind acct_issuance), ac_net_sink = itoa (kind acct_sink),
       ac_net_adjustment = itoa (- kind acct_adjust),
       ac_projection_delta = itoa (avail + resv - kind acct_user_available - kind acct_user_reserved),
       ac_conservation_delta = itoa (posting_sum (\<lambda>_. True) currency db)\<rparr>)"

definition repo_reconcile :: "gtime \<Rightarrow> int64 \<Rightarrow> int \<Rightarrow> vc_report vc_op" where
  "repo_reconcile go_now currency sample_limit =
     vc_bind (vc_call (vc_read (\<lambda>db. (let rs = recon currency db in
       (int (length (filter mm_wallet_exists rs)), int (length (filter mm_ledger_found rs)),
        int (length (filter mismatched rs))))))) (\<lambda>(wallets, users, mismatches).
     vc_bind (vc_call (vc_read (accounting currency))) (\<lambda>acc.
     vc_bind (vc_call (vc_read (\<lambda>db. take (nat sample_limit) (sort_key mm_user (filter mismatched (recon currency db)))))) (\<lambda>sample.
     vc_return \<lparr>rp_currency = currency, rp_wallets = wallets, rp_ledger_users = users, rp_mismatches = mismatches,
       rp_sample_limit = sample_limit, rp_sample = sample, rp_accounting = acc, rp_checked_at = go_now\<rparr>)))"

end
