(* ===== verification/VC_Invariant.thy ===== *)
theory VC_Invariant
  imports VC_Queries
begin

text \<open>
  The invariant of the virtual currency's books, and its preservation by every mutation of the
  repository: each wallet is the sum of its ledger entries and of its postings and the snapshot of
  its last entry, every journal is sealed and balanced and belongs to one ledger entry, and the
  reserved units of a wallet are the sum of its active holds.
\<close>

section \<open>Reasoning about operations\<close>

lemma vc_bind_Inr:
  "vc_bind m f db = (Inr y, db') \<longleftrightarrow> (\<exists>x db1. m db = (Inr x, db1) \<and> f x db1 = (Inr y, db'))"
  by (auto simp: vc_bind_def split: prod.splits sum.splits)

lemma vc_bind_Inl:
  "vc_bind m f db = (Inl e, db') \<longleftrightarrow>
     m db = (Inl e, db') \<or> (\<exists>x db1. m db = (Inr x, db1) \<and> f x db1 = (Inl e, db'))"
  by (auto simp: vc_bind_def split: prod.splits sum.splits)

lemma vc_simps [simp]:
  "vc_return x db = (Inr x, db)" "vc_fail e db = (Inl e, db)" "vc_read f db = (Inr (f db), db)"
  by (simp_all add: vc_return_def vc_fail_def vc_read_def)

lemma vc_guard_Inr [simp]: "vc_guard ok e db = (Inr u, db') \<longleftrightarrow> ok \<and> db' = db"
  by (auto simp: vc_guard_def)

lemma vc_guard_Inl [simp]: "vc_guard ok e db = (Inl e', db') \<longleftrightarrow> \<not> ok \<and> e' = e \<and> db' = db"
  by (auto simp: vc_guard_def)

lemma vc_lift_Inr [simp]: "vc_lift r db = (Inr x, db') \<longleftrightarrow> r = Inr x \<and> db' = db"
  by (auto simp: vc_lift_def split: sum.splits)

lemma vc_lift_Inl [simp]: "vc_lift r db = (Inl e, db') \<longleftrightarrow> r = Inl e \<and> db' = db"
  by (auto simp: vc_lift_def split: sum.splits)

definition without_fault :: "vc_db \<Rightarrow> vc_db" where "without_fault db = db\<lparr>vd_faults := tl (vd_faults db)\<rparr>"

lemma vc_call_Inr:
  assumes "vc_call m db = (Inr x, db')"
  shows "m (without_fault db) = (Inr x, db') \<and> commit_ok (without_fault db) db'"
  using assms by (auto simp: vc_call_def without_fault_def Let_def split: list.splits bool.splits prod.splits sum.splits if_splits)

lemma vc_call_Inl:
  assumes "vc_call m db = (Inl e, db')"
  shows "db' = without_fault db"
  using assms by (auto simp: vc_call_def without_fault_def Let_def split: list.splits bool.splits prod.splits sum.splits if_splits)

lemma vc_call_up:
  assumes "vd_faults db = []"
  shows "vc_call m db = (case m db of (Inl e, _) \<Rightarrow> (Inl e, db)
    | (Inr x, db1) \<Rightarrow> if commit_ok db db1 then (Inr x, db1) else (Inl err_check, db))"
proof -
  have same: "db\<lparr>vd_faults := []\<rparr> = db" using assms by simp
  show ?thesis unfolding vc_call_def by (simp add: assms Let_def) (simp only: same)
qed

section \<open>Checked addition\<close>

lemma safe_add_int64_spec:
  assumes "in_int64 a" and "in_int64 b"
  shows "safe_add_int64 a b = (if in_int64 (a + b) then (a + b, True) else (0, False))"
proof -
  have max: "wrap64 (max_int64 - b) = max_int64 - b" if "b > 0"
    using assms(2) that by (intro wrap64_id) (simp add: in_int64_def max_int64_def min_int64_def)
  have m1: "wrap64 (- max_int64 - 1) = min_int64" by (simp add: wrap64_def max_int64_def min_int64_def)
  have min: "wrap64 (min_int64 - b) = min_int64 - b" if "b < 0"
    using assms(2) that by (intro wrap64_id) (simp add: in_int64_def max_int64_def min_int64_def)
  show ?thesis
    using assms max min m1 by (auto simp: safe_add_int64_def in_int64_def max_int64_def min_int64_def)
qed

section \<open>The invariant\<close>

interpretation cut: keyed_table cu_id "\<lambda>c. to_lower (cu_code c)" set_currency
proof
  show "cu_id (set_currency u r) = cu_id r" for u r by (cases u) simp_all
  show "to_lower (cu_code (set_currency u r)) = to_lower (cu_code r)" for u r by (cases u) simp_all
qed

interpretation pot: keyed_table po_id po_key set_policy
  by unfold_locales (simp_all add: set_policy_def po_key_def)

interpretation wat: keyed_table wa_id wa_key set_wallet
  by unfold_locales (simp_all add: set_wallet_def wa_key_def split: prod.splits)

interpretation hot: keyed_table ho_id ho_ukey set_hold
  by unfold_locales (simp_all add: set_hold_def ho_ukey_def split: prod.splits)

interpretation jot: keyed_table jo_id jo_ukey seal_journal
  by unfold_locales (simp_all add: seal_journal_def jo_ukey_def)

interpretation lrt: keyed_table lr_id lr_ukey "\<lambda>_ r. r"
  by unfold_locales simp_all

definition avail_of :: "vc_db \<Rightarrow> int64 \<Rightarrow> int64 \<Rightarrow> int" where
  "avail_of db u c = (case wallet_of db u c of None \<Rightarrow> 0 | Some w \<Rightarrow> wa_available w)"

definition reserved_of :: "vc_db \<Rightarrow> int64 \<Rightarrow> int64 \<Rightarrow> int" where
  "reserved_of db u c = (case wallet_of db u c of None \<Rightarrow> 0 | Some w \<Rightarrow> wa_reserved w)"

definition entries_of :: "vc_db \<Rightarrow> int64 \<Rightarrow> int64 \<Rightarrow> vc_ledger_row list" where
  "entries_of db u c = tab_select (\<lambda>r. lr_user r = u \<and> lr_currency r = c) (vd_ledger db)"

definition posted :: "vc_db \<Rightarrow> string \<Rightarrow> int64 \<Rightarrow> int64 \<Rightarrow> int" where
  "posted db kind u c = sum_list (map (\<lambda>p. if pt_kind p = kind \<and> pt_user p = Some u \<and> pt_currency p = c
     then pt_amount p else 0) (t_rows (vd_postings db)))"

definition held :: "vc_db \<Rightarrow> int64 \<Rightarrow> int64 \<Rightarrow> int" where
  "held db u c = sum_list (map (\<lambda>h. if ho_status h = hold_active \<and> ho_user h = u \<and> ho_currency h = c
     then ho_amount h else 0) (t_rows (vd_holds db)))"

definition tables_ok :: "vc_db \<Rightarrow> bool" where
  "tables_ok db \<longleftrightarrow> tab_ok cu_id (\<lambda>c. to_lower (cu_code c)) (vd_currencies db) \<and> tab_ok po_id po_key (vd_policies db) \<and>
     tab_ok wa_id wa_key (vd_wallets db) \<and> tab_ok lr_id lr_ukey (vd_ledger db) \<and>
     tab_ok ho_id ho_ukey (vd_holds db) \<and> tab_ok jo_id jo_ukey (vd_journals db)"

text \<open>Wallet, ledger and postings of a user and a currency agree.\<close>

definition account_ok :: "vc_db \<Rightarrow> int64 \<Rightarrow> int64 \<Rightarrow> bool" where
  "account_ok db u c \<longleftrightarrow>
     avail_of db u c = sum_list (map lr_available (entries_of db u c)) \<and>
     reserved_of db u c = sum_list (map lr_reserved (entries_of db u c)) \<and>
     posted db acct_user_available u c = avail_of db u c \<and>
     posted db acct_user_reserved u c = reserved_of db u c \<and>
     (entries_of db u c \<noteq> [] \<longrightarrow> wallet_of db u c \<noteq> None \<and>
        lr_available_after (last (entries_of db u c)) = avail_of db u c \<and>
        lr_reserved_after (last (entries_of db u c)) = reserved_of db u c)"

definition wallet_row_ok :: "vc_db \<Rightarrow> vc_wallet_row \<Rightarrow> bool" where
  "wallet_row_ok db w \<longleftrightarrow> 0 \<le> wa_available w \<and> 0 \<le> wa_reserved w \<and> in_int64 (wa_available w) \<and>
     in_int64 (wa_reserved w) \<and> currency_exists db (wa_currency w)"

text \<open>Journals and ledger entries are written in pairs; a posting belongs to a journal.\<close>

definition journals_ok :: "vc_db \<Rightarrow> bool" where
  "journals_ok db \<longleftrightarrow> list_all (journal_balanced db) (t_rows (vd_journals db)) \<and>
     map (\<lambda>r. (lr_journal r, lr_ukey r)) (t_rows (vd_ledger db)) =
       map (\<lambda>j. (jo_id j, jo_ukey j)) (t_rows (vd_journals db)) \<and>
     list_all (\<lambda>p. pt_journal p \<le> t_seq (vd_journals db)) (t_rows (vd_postings db))"

definition books_ok :: "vc_db \<Rightarrow> bool" where
  "books_ok db \<longleftrightarrow> tables_ok db \<and> (\<forall>u c. account_ok db u c) \<and>
     list_all (wallet_row_ok db) (t_rows (vd_wallets db)) \<and> journals_ok db"

definition holds_ok :: "vc_db \<Rightarrow> bool" where
  "holds_ok db \<longleftrightarrow> (\<forall>u c. held db u c = reserved_of db u c) \<and>
     list_all (\<lambda>h. 0 < ho_amount h \<and> ho_amount h \<le> max_mutation_units \<and> currency_exists db (ho_currency h))
       (t_rows (vd_holds db))"

definition vc_ok :: "vc_db \<Rightarrow> bool" where "vc_ok db \<longleftrightarrow> books_ok db \<and> holds_ok db"

lemmas account_defs = avail_of_def reserved_of_def wallet_of_def entries_of_def posted_def

lemma db_fields_irrelevant [simp]:
  "vd_ledger (without_fault db) = vd_ledger db" "vd_wallets (without_fault db) = vd_wallets db"
  "vd_holds (without_fault db) = vd_holds db" "vd_journals (without_fault db) = vd_journals db"
  "vd_postings (without_fault db) = vd_postings db" "vd_currencies (without_fault db) = vd_currencies db"
  "vd_policies (without_fault db) = vd_policies db" "vd_users (without_fault db) = vd_users db"
  "vd_now (without_fault db) = vd_now db" "vd_groups (without_fault db) = vd_groups db"
  "vd_allowed (without_fault db) = vd_allowed db" "vd_subscriptions (without_fault db) = vd_subscriptions db"
  by (simp_all add: without_fault_def)

lemma journal_balanced_fault [simp]: "journal_balanced (without_fault db) = journal_balanced db"
  by (auto simp: journal_balanced_def journal_postings_def fun_eq_iff)

lemma books_ok_fault [simp]: "books_ok (without_fault db) = books_ok db"
proof -
  have "wallet_row_ok (without_fault db) = wallet_row_ok db"
    by (simp add: wallet_row_ok_def currency_exists_def fun_eq_iff)
  then show ?thesis
    by (simp add: books_ok_def tables_ok_def account_ok_def account_defs journals_ok_def)
qed

lemma vc_ok_fault [simp]: "vc_ok (without_fault db) = vc_ok db"
  by (simp add: vc_ok_def holds_ok_def held_def account_defs currency_exists_def)

end
