(* ===== verification/VC_Preserve.thy ===== *)
theory VC_Preserve
  imports VC_Invariant
begin

text \<open>
  The effect of each mutation on the tables, and the preservation of the invariant of
  \<open>VC_Invariant\<close>.
\<close>

section \<open>Effects of the statements\<close>

text \<open>The tables a mutation of the books does not touch.\<close>

definition same_rest :: "vc_db \<Rightarrow> vc_db \<Rightarrow> bool" where
  "same_rest db db' \<longleftrightarrow> vd_currencies db' = vd_currencies db \<and> vd_policies db' = vd_policies db \<and>
     vd_groups db' = vd_groups db \<and> vd_users db' = vd_users db \<and> vd_allowed db' = vd_allowed db \<and>
     vd_subscriptions db' = vd_subscriptions db \<and> vd_now db' = vd_now db \<and> vd_faults db' = vd_faults db"

lemma same_rest_refl [simp]: "same_rest db db" by (simp add: same_rest_def)

lemma same_rest_trans: "same_rest a b \<Longrightarrow> same_rest b c \<Longrightarrow> same_rest a c" by (simp add: same_rest_def)

definition posting_of :: "int64 \<Rightarrow> int64 \<Rightarrow> vc_posting \<Rightarrow> posting_spec \<Rightarrow> bool" where
  "posting_of j c p s \<longleftrightarrow> pt_journal p = j \<and> pt_currency p = c \<and> pt_user p = ps_user s \<and>
     pt_kind p = ps_kind s \<and> pt_amount p = ps_amount s"

lemma insert_posting_effect:
  assumes "insert_posting j c s db = (Inr u, db')"
  shows "\<exists>p n. db' = db\<lparr>vd_postings := \<lparr>t_seq = n, t_rows = t_rows (vd_postings db) @ [p]\<rparr>\<rparr> \<and> posting_of j c p s"
  using assms by (auto simp: insert_posting_def tab_insert_def Let_def posting_of_def split: if_splits)

lemma insert_postings_effect:
  "insert_postings j c ps db = (Inr u, db') \<Longrightarrow>
     \<exists>rows n. db' = db\<lparr>vd_postings := \<lparr>t_seq = n, t_rows = t_rows (vd_postings db) @ rows\<rparr>\<rparr> \<and>
       list_all2 (posting_of j c) rows ps"
proof (induction ps arbitrary: db)
  case Nil
  then show ?case by (auto intro!: exI [of _ "t_seq (vd_postings db)"])
next
  case (Cons s ps)
  then obtain v db1 where one: "insert_posting j c s db = (Inr v, db1)"
    and rest: "insert_postings j c ps db1 = (Inr u, db')" by (auto simp: vc_bind_Inr)
  obtain p n where p: "db1 = db\<lparr>vd_postings := \<lparr>t_seq = n, t_rows = t_rows (vd_postings db) @ [p]\<rparr>\<rparr>"
    "posting_of j c p s" using insert_posting_effect [OF one] by blast
  obtain rows m where r: "db' = db1\<lparr>vd_postings := \<lparr>t_seq = m, t_rows = t_rows (vd_postings db1) @ rows\<rparr>\<rparr>"
    "list_all2 (posting_of j c) rows ps" using Cons.IH [OF rest] by blast
  have "list_all2 (posting_of j c) (p # rows) (s # ps)" using p(2) r(2) by simp
  with p(1) r(1) show ?case by (intro exI [of _ "p # rows"] exI [of _ m]) simp
qed

lemma seal_new:
  assumes "\<And>r. r \<in> set rows \<Longrightarrow> jo_id r \<noteq> j" and "jo_id x = j" and "jo_posted_at x = None"
  shows "length (filter (\<lambda>r. jo_id r = j \<and> jo_posted_at r = None) (rows @ [x])) = 1"
    and "map (\<lambda>r. if jo_id r = j \<and> jo_posted_at r = None then f r else r) (rows @ [x]) = rows @ [f x]"
proof -
  have "filter (\<lambda>r. jo_id r = j \<and> jo_posted_at r = None) rows = []" using assms(1) by (auto simp: filter_empty_conv)
  then show "length (filter (\<lambda>r. jo_id r = j \<and> jo_posted_at r = None) (rows @ [x])) = 1" using assms by simp
  show "map (\<lambda>r. if jo_id r = j \<and> jo_posted_at r = None then f r else r) (rows @ [x]) = rows @ [f x]"
    using assms by (auto intro: map_idI)
qed

text \<open>What \<open>record_delta\<close> appends.\<close>

definition recorded :: "vc_delta_input \<Rightarrow> int64 \<times> int64 \<Rightarrow> metadata \<Rightarrow> vc_posting list \<Rightarrow> vc_db \<Rightarrow> vc_db \<Rightarrow> bool" where
  "recorded inp b md rows db db' \<longleftrightarrow> same_rest db db' \<and> vd_wallets db' = vd_wallets db \<and> vd_holds db' = vd_holds db \<and>
     (let j = t_seq (vd_journals db) + 1; i = t_seq (vd_ledger db) + 1;
          row = new_ledger_row inp md (vd_now db) j b i;
          jrow = seal_journal (vd_now db) (new_journal inp md (vd_now db) j)
      in delta_check inp \<and> ledger_check row \<and>
         tab_find (\<lambda>r. lr_ukey r = lr_ukey row) (vd_ledger db) = None \<and>
         tab_find (\<lambda>r. jo_ukey r = jo_ukey jrow) (vd_journals db) = None \<and>
         vd_journals db' = \<lparr>t_seq = j, t_rows = t_rows (vd_journals db) @ [jrow]\<rparr> \<and>
         vd_ledger db' = \<lparr>t_seq = i, t_rows = t_rows (vd_ledger db) @ [row]\<rparr> \<and>
         t_rows (vd_postings db') = t_rows (vd_postings db) @ rows \<and>
         list_all2 (posting_of j (di_currency inp)) rows (build_postings inp))"

lemma record_delta_effect:
  assumes ids: "\<And>r. r \<in> set (t_rows (vd_journals db)) \<Longrightarrow> jo_id r \<le> t_seq (vd_journals db)"
    and run: "record_delta go_now inp cur b db = (Inr e, db')"
  shows "\<exists>md rows. recorded inp b md rows db db' \<and> e = join_entry cur (new_ledger_row inp (di_metadata inp) go_now
      (t_seq (vd_journals db) + 1) b (t_seq (vd_ledger db) + 1))"
proof -
  let ?j = "t_seq (vd_journals db) + 1" and ?i = "t_seq (vd_ledger db) + 1"
  obtain enc db1 db2 db3 db4 j i u v where md: "marshal_metadata (di_metadata inp) = Inr enc"
    and j: "create_journal_tx inp enc db = (Inr j, db1)" and l: "insert_ledger_tx inp enc j b db1 = (Inr i, db2)"
    and p: "insert_postings j (di_currency inp) (build_postings inp) db2 = (Inr u, db3)"
    and s: "seal_journal_tx j db3 = (Inr v, db4)"
    and e: "e = join_entry cur (new_ledger_row inp (di_metadata inp) go_now j b i)" "db' = db4"
    using run by (auto simp: record_delta_def vc_bind_Inr)
  let ?md = "decode_metadata enc"
  let ?jrow = "new_journal inp ?md (vd_now db) ?j"
  have j1: "j = ?j" "delta_check inp" "tab_find (\<lambda>r. jo_ukey r = jo_ukey (new_journal inp ?md (vd_now db) 0)) (vd_journals db) = None"
    "db1 = db\<lparr>vd_journals := \<lparr>t_seq = ?j, t_rows = t_rows (vd_journals db) @ [?jrow]\<rparr>\<rparr>"
    using j by (auto simp: create_journal_tx_def tab_insert_def Let_def split: if_splits)
  let ?row = "new_ledger_row inp ?md (vd_now db) ?j b ?i"
  have l1: "i = ?i" "ledger_check (new_ledger_row inp ?md (vd_now db) ?j b 0)"
    "tab_find (\<lambda>r. lr_ukey r = lr_ukey (new_ledger_row inp ?md (vd_now db) ?j b 0)) (vd_ledger db) = None"
    "db2 = db1\<lparr>vd_ledger := \<lparr>t_seq = ?i, t_rows = t_rows (vd_ledger db) @ [?row]\<rparr>\<rparr>"
    using l j1(1,4) by (auto simp: insert_ledger_tx_def tab_insert_def Let_def split: if_splits)
  obtain rows n where p1: "db3 = db2\<lparr>vd_postings := \<lparr>t_seq = n, t_rows = t_rows (vd_postings db2) @ rows\<rparr>\<rparr>"
    "list_all2 (posting_of j (di_currency inp)) rows (build_postings inp)"
    using insert_postings_effect [OF p] by blast
  have rows3: "t_rows (vd_journals db3) = t_rows (vd_journals db) @ [?jrow]" and seq3: "t_seq (vd_journals db3) = ?j"
    and now3: "vd_now db3 = vd_now db" using j1(4) l1(4) p1(1) by simp_all
  have s1: "db4 = db3\<lparr>vd_journals := \<lparr>t_seq = ?j, t_rows = t_rows (vd_journals db) @ [seal_journal (vd_now db) ?jrow]\<rparr>\<rparr>"
  proof -
    have "map (\<lambda>r. if jo_id r = ?j \<and> jo_posted_at r = None then seal_journal (vd_now db) r else r)
        (t_rows (vd_journals db3)) = t_rows (vd_journals db) @ [seal_journal (vd_now db) ?jrow]"
      unfolding rows3 by (rule seal_new(2)) (use ids in \<open>force simp: new_journal_def\<close>)+
    with s seq3 now3 j1(1) show ?thesis
      by (cases "vd_journals db3") (auto simp: seal_journal_tx_def tab_update_def split: if_splits)
  qed
  have "jo_ukey ?jrow = jo_ukey (new_journal inp ?md (vd_now db) 0)" "jo_ukey (seal_journal (vd_now db) ?jrow) = jo_ukey ?jrow"
    by (simp_all add: jo_ukey_def new_journal_def seal_journal_def)
  moreover have "lr_ukey ?row = lr_ukey (new_ledger_row inp ?md (vd_now db) ?j b 0)"
    "ledger_check ?row = ledger_check (new_ledger_row inp ?md (vd_now db) ?j b 0)"
    by (simp_all add: lr_ukey_def new_ledger_row_def ledger_check_def)
  ultimately have "recorded inp b ?md rows db db'"
    using j1 l1 p1 s1 e(2) by (simp add: recorded_def Let_def same_rest_def)
  with e(1) j1(1) l1(1) show ?thesis by blast
qed

definition wallet_after :: "vc_wallet_row \<Rightarrow> int64 \<times> int64 \<Rightarrow> vc_db \<Rightarrow> vc_db" where
  "wallet_after w b db = db\<lparr>vd_wallets :=
     snd (tab_update (\<lambda>x. wa_id x = wa_id w \<and> wa_version x = wa_version w) (set_wallet (fst b, snd b, vd_now db)) (vd_wallets db))\<rparr>"

lemma post_delta_effect:
  assumes ids: "\<And>r. r \<in> set (t_rows (vd_journals db)) \<Longrightarrow> jo_id r \<le> t_seq (vd_journals db)"
    and run: "post_delta go_now inp cur w db = (Inr e, db')"
  shows "\<exists>mb b md rows. (cu_status cur = vc_active \<or> di_settlement inp) \<and> check_policy inp db = (Inr mb, db) \<and>
    (di_require_access inp \<and> \<not> di_settlement inp \<longrightarrow> user_allowed db (di_group inp) (di_user inp)) \<and>
    new_balances inp w mb = Inr b \<and> recorded inp b md rows (wallet_after w b db) db' \<and>
    e = join_entry cur (new_ledger_row inp (di_metadata inp) go_now
      (t_seq (vd_journals db) + 1) b (t_seq (vd_ledger db) + 1))"
proof -
  obtain mb db2 b db3 where st: "cu_status cur = vc_active \<or> di_settlement inp"
    and pol: "check_policy inp db = (Inr mb, db2)" and acc: "check_access inp db2 = (Inr (), db3)"
    and bal: "new_balances inp w mb = Inr b" and rec: "record_delta go_now inp cur b (wallet_after w b db3) = (Inr e, db')"
    using run by (auto simp: post_delta_def vc_bind_Inr update_wallet_def wallet_after_def)
  have db2: "db2 = db" using pol by (auto simp: check_policy_def split: if_splits option.splits)
  have db3: "db3 = db" and allowed: "di_require_access inp \<and> \<not> di_settlement inp \<longrightarrow> user_allowed db (di_group inp) (di_user inp)"
    using acc db2 by (auto simp: check_access_def)
  have "vd_journals (wallet_after w b db) = vd_journals db" "vd_ledger (wallet_after w b db) = vd_ledger db"
    by (simp_all add: wallet_after_def)
  with record_delta_effect [OF _ rec] ids db3 have "\<exists>md rows. recorded inp b md rows (wallet_after w b db) db' \<and>
    e = join_entry cur (new_ledger_row inp (di_metadata inp) go_now (t_seq (vd_journals db) + 1) b (t_seq (vd_ledger db) + 1))"
    by auto
  with st pol db2 allowed bal show ?thesis by blast
qed

section \<open>Sums\<close>

definition spec_sum :: "string \<Rightarrow> int64 \<Rightarrow> posting_spec list \<Rightarrow> int" where
  "spec_sum kind u ps = sum_list (map (\<lambda>s. if ps_kind s = kind \<and> ps_user s = Some u then ps_amount s else 0) ps)"

lemma posted_rows:
  assumes "list_all2 (posting_of j c) rows ps"
  shows "sum_list (map (\<lambda>p. if pt_kind p = kind \<and> pt_user p = Some u \<and> pt_currency p = c' then pt_amount p else 0) rows) =
    (if c' = c then spec_sum kind u ps else 0)"
  using assms by (induction rule: list_all2_induct) (auto simp: spec_sum_def posting_of_def)

lemma system_account_not_user [simp]:
  "system_account typ \<noteq> acct_user_available" "system_account typ \<noteq> acct_user_reserved"
  "acct_user_available \<noteq> acct_user_reserved" "acct_user_reserved \<noteq> acct_user_available"
  by (auto simp: system_account_def accts)

lemma spec_sum_postings:
  "spec_sum acct_user_available u (build_postings inp) = (if u = di_user inp then di_available inp else 0)"
  "spec_sum acct_user_reserved u (build_postings inp) = (if u = di_user inp then di_reserved inp else 0)"
  by (auto simp: spec_sum_def build_postings_def)

lemma posting_journals: "list_all2 (posting_of j c) rows ps \<Longrightarrow> p \<in> set rows \<Longrightarrow> pt_journal p = j"
  by (induction rule: list_all2_induct) (auto simp: posting_of_def)

section \<open>Preservation of the books\<close>

lemma new_balances_spec:
  assumes "new_balances inp w mb = Inr b" and "in_int64 (wa_available w)" "in_int64 (wa_reserved w)"
    and "in_int64 (di_available inp)" "in_int64 (di_reserved inp)"
  shows "b = (wa_available w + di_available inp, wa_reserved w + di_reserved inp) \<and>
    0 \<le> fst b \<and> 0 \<le> snd b \<and> in_int64 (fst b) \<and> in_int64 (snd b) \<and>
    (case mb of None \<Rightarrow> True | Some m \<Rightarrow> fst b + snd b \<le> m)"
  using assms(1)
  by (auto simp: new_balances_def safe_add_int64_spec [OF assms(2,4)] safe_add_int64_spec [OF assms(3,5)]
      safe_add_int64_spec split: prod.splits if_splits option.splits)

lemma wallet_of_row:
  "tab_ok wa_id wa_key (vd_wallets db) \<Longrightarrow>
     wallet_of db u c = Some w \<longleftrightarrow> w \<in> set (t_rows (vd_wallets db)) \<and> wa_key w = (u, c)"
  by (simp add: wallet_of_def wat.lookup_iff)

lemma wallet_after_lookup:
  assumes ok: "tab_ok wa_id wa_key (vd_wallets db)" and w: "wallet_of db u c = Some w"
  shows "wallet_of (wallet_after w b db) u' c' =
    (if u' = u \<and> c' = c then Some (set_wallet (fst b, snd b, vd_now db) w) else wallet_of db u' c')"
proof -
  have upd: "wallet_of (wallet_after w b db) u' c' = map_option (\<lambda>x. if wa_id x = wa_id w \<and> wa_version x = wa_version w
      then set_wallet (fst b, snd b, vd_now db) x else x) (wallet_of db u' c')"
    by (simp add: wallet_of_def wallet_after_def wat.lookup_update)
  have same: "u' = u \<and> c' = c" if "wallet_of db u' c' = Some x" "wa_id x = wa_id w" for x
  proof -
    have "x = w" using that w wat.row_unique_rid [OF ok] by (simp add: wallet_of_row [OF ok])
    with that w show ?thesis by (simp add: wallet_of_row [OF ok])
  qed
  show ?thesis
  proof (cases "u' = u \<and> c' = c")
    case True
    with upd w show ?thesis by simp
  next
    case False
    with upd same show ?thesis by (cases "wallet_of db u' c'") auto
  qed
qed

lemma recorded_sel:
  assumes "recorded inp b md rows db db'"
  shows "entries_of db' u c = entries_of db u c @
      (if u = di_user inp \<and> c = di_currency inp
       then [new_ledger_row inp md (vd_now db) (t_seq (vd_journals db) + 1) b (t_seq (vd_ledger db) + 1)] else [])"
    and "posted db' kind u c = posted db kind u c + (if c = di_currency inp then spec_sum kind u (build_postings inp) else 0)"
    and "wallet_of db' u c = wallet_of db u c"
    and "currency_exists db' i = currency_exists db i"
proof -
  note r = assms [unfolded recorded_def Let_def]
  show "entries_of db' u c = entries_of db u c @
      (if u = di_user inp \<and> c = di_currency inp
       then [new_ledger_row inp md (vd_now db) (t_seq (vd_journals db) + 1) b (t_seq (vd_ledger db) + 1)] else [])"
    using r by (auto simp: entries_of_def tab_select_def new_ledger_row_def)
  show "posted db' kind u c = posted db kind u c + (if c = di_currency inp then spec_sum kind u (build_postings inp) else 0)"
  proof -
    have "list_all2 (posting_of (t_seq (vd_journals db) + 1) (di_currency inp)) rows (build_postings inp)"
      and "t_rows (vd_postings db') = t_rows (vd_postings db) @ rows" using r by simp_all
    then show ?thesis by (simp add: posted_def posted_rows)
  qed
  show "wallet_of db' u c = wallet_of db u c" using r by (simp add: wallet_of_def)
  show "currency_exists db' i = currency_exists db i" using r by (simp add: currency_exists_def same_rest_def)
qed

lemma wallet_after_sel [simp]:
  "vd_journals (wallet_after w b db) = vd_journals db" "vd_ledger (wallet_after w b db) = vd_ledger db"
  "vd_postings (wallet_after w b db) = vd_postings db" "vd_holds (wallet_after w b db) = vd_holds db"
  "vd_now (wallet_after w b db) = vd_now db" "vd_currencies (wallet_after w b db) = vd_currencies db"
  "same_rest db (wallet_after w b db)" "entries_of (wallet_after w b db) = entries_of db"
  "posted (wallet_after w b db) = posted db" "vd_policies (wallet_after w b db) = vd_policies db"
  by (simp_all add: wallet_after_def same_rest_def entries_of_def posted_def fun_eq_iff)

lemma recorded_account:
  assumes acc: "account_ok db u c" and ok: "tab_ok wa_id wa_key (vd_wallets db)"
    and w: "wallet_of db (di_user inp) (di_currency inp) = Some w"
    and b: "b = (wa_available w + di_available inp, wa_reserved w + di_reserved inp)"
    and rec: "recorded inp b md rows (wallet_after w b db) db'"
  shows "account_ok db' u c"
proof (cases "u = di_user inp \<and> c = di_currency inp")
  case True
  have wal: "wallet_of db' u c = Some (set_wallet (fst b, snd b, vd_now db) w)"
    using True recorded_sel(3) [OF rec, of u c] wallet_after_lookup [OF ok w, of b u c] by simp
  have av: "avail_of db' u c = avail_of db u c + di_available inp" "reserved_of db' u c = reserved_of db u c + di_reserved inp"
    using wal w True b by (simp_all add: avail_of_def reserved_of_def set_wallet_def)
  have after: "avail_of db' u c = fst b" "reserved_of db' u c = snd b"
    using wal by (simp_all add: avail_of_def reserved_of_def set_wallet_def)
  show ?thesis
    using acc True av after wal unfolding account_ok_def recorded_sel(1,2) [OF rec]
    by (simp add: spec_sum_postings) (simp add: new_ledger_row_def)
next
  case False
  have wal: "wallet_of db' u c = wallet_of db u c"
    using False recorded_sel(3) [OF rec, of u c] wallet_after_lookup [OF ok w, of b u c] by auto
  then have same: "avail_of db' u c = avail_of db u c" "reserved_of db' u c = reserved_of db u c"
    by (simp_all add: avail_of_def reserved_of_def)
  have ent: "entries_of db' u c = entries_of db u c"
    using recorded_sel(1) [OF rec, of u c] False by auto
  have post: "posted db' acct_user_available u c = posted db acct_user_available u c"
    "posted db' acct_user_reserved u c = posted db acct_user_reserved u c"
    using recorded_sel(2) [OF rec] False by (auto simp: spec_sum_postings)
  show ?thesis using acc unfolding account_ok_def same ent post wal .
qed

lemma recorded_journals:
  assumes books: "journals_ok db" and ids: "tab_ok jo_id jo_ukey (vd_journals db)"
    and rec: "recorded inp b md rows (wallet_after w b db) db'"
    and new: "\<And>j. j \<in> set (t_rows (vd_journals db')) \<Longrightarrow> t_seq (vd_journals db) < jo_id j \<Longrightarrow> journal_balanced db' j"
  shows "journals_ok db'"
proof -
  note r = rec [unfolded recorded_def Let_def, simplified]
  let ?j = "t_seq (vd_journals db) + 1"
  have posts: "t_rows (vd_postings db') = t_rows (vd_postings db) @ rows"
    and specs: "list_all2 (posting_of ?j (di_currency inp)) rows (build_postings inp)" using r by simp_all
  have rows: "\<And>p. p \<in> set rows \<Longrightarrow> pt_journal p = ?j" using posting_journals [OF specs] .
  have old: "journal_balanced db' j" if "j \<in> set (t_rows (vd_journals db))" for j
  proof -
    have "jo_id j \<noteq> ?j" using ids that by (auto simp: tab_ok_def)
    then have "filter (\<lambda>p. pt_journal p = jo_id j) rows = []" using rows by (auto simp: filter_empty_conv)
    then have "journal_postings db' (jo_id j) = journal_postings db (jo_id j)"
      using posts by (simp add: journal_postings_def tab_select_def)
    with books that show ?thesis by (simp add: journals_ok_def journal_balanced_def list_all_iff)
  qed
  have "list_all (journal_balanced db') (t_rows (vd_journals db'))"
  proof -
    have "journal_balanced db' j" if j: "j \<in> set (t_rows (vd_journals db'))" for j
    proof (cases "j \<in> set (t_rows (vd_journals db))")
      case False
      with j r have "jo_id j = ?j" by (auto simp: seal_journal_def new_journal_def)
      with new [OF j] show ?thesis by simp
    qed (rule old)
    then show ?thesis by (simp add: list_all_iff)
  qed
  moreover have "list_all (\<lambda>p. pt_journal p \<le> t_seq (vd_journals db')) (t_rows (vd_postings db'))"
    using books posts rows r by (fastforce simp: journals_ok_def list_all_iff)
  moreover have "map (\<lambda>r. (lr_journal r, lr_ukey r)) (t_rows (vd_ledger db')) =
      map (\<lambda>j. (jo_id j, jo_ukey j)) (t_rows (vd_journals db'))"
    using books r by (simp add: journals_ok_def new_ledger_row_def lr_ukey_def jo_ukey_def seal_journal_def new_journal_def)
  ultimately show ?thesis by (simp add: journals_ok_def)
qed

lemma recorded_books:
  assumes books: "books_ok db" and w: "wallet_of db (di_user inp) (di_currency inp) = Some w"
    and bal: "new_balances inp w mb = Inr b" and range: "in_int64 (di_available inp)" "in_int64 (di_reserved inp)"
    and rec: "recorded inp b md rows (wallet_after w b db) db'"
    and new: "\<And>j. j \<in> set (t_rows (vd_journals db')) \<Longrightarrow> t_seq (vd_journals db) < jo_id j \<Longrightarrow> journal_balanced db' j"
  shows "books_ok db'"
proof -
  have tabs: "tables_ok db" and acc: "\<And>u c. account_ok db u c" and rows: "list_all (wallet_row_ok db) (t_rows (vd_wallets db))"
    and jok: "journals_ok db" using books by (simp_all add: books_ok_def)
  have wt: "tab_ok wa_id wa_key (vd_wallets db)" using tabs by (simp add: tables_ok_def)
  have wrow: "w \<in> set (t_rows (vd_wallets db))" using w by (simp add: wallet_of_row [OF wt])
  have "wallet_row_ok db w" using rows wrow by (simp add: list_all_iff)
  then have b: "b = (wa_available w + di_available inp, wa_reserved w + di_reserved inp)"
    "0 \<le> fst b" "0 \<le> snd b" "in_int64 (fst b)" "in_int64 (snd b)"
    using new_balances_spec [OF bal _ _ range] by (auto simp: wallet_row_ok_def)
  note r = rec [unfolded recorded_def Let_def, simplified]
  have wt': "tab_ok wa_id wa_key (vd_wallets (wallet_after w b db))"
    unfolding wallet_after_def using wat.update_ok [OF wt] by simp
  have "tables_ok db'"
  proof -
    have "tab_ok lr_id lr_ukey (vd_ledger db')"
      using r tabs by (auto simp: tables_ok_def new_ledger_row_def intro!: tab_ok_append)
    moreover have "tab_ok jo_id jo_ukey (vd_journals db')"
      using r tabs by (auto simp: tables_ok_def seal_journal_def new_journal_def intro!: tab_ok_append)
    moreover have "vd_currencies db' = vd_currencies db" "vd_policies db' = vd_policies db"
      using r by (auto simp: same_rest_def)
    ultimately show ?thesis using tabs wt' r by (simp add: tables_ok_def)
  qed
  moreover have "list_all (wallet_row_ok db') (t_rows (vd_wallets db'))"
  proof -
    have "wallet_row_ok db x" if "x \<in> set (t_rows (vd_wallets (wallet_after w b db)))" for x
      using that rows b by (auto simp: wallet_after_def list_all_iff wallet_row_ok_def set_wallet_def)
    then show ?thesis using r recorded_sel(4) [OF rec]
      by (simp add: list_all_iff wallet_row_ok_def currency_exists_def)
  qed
  moreover have "journals_ok db'"
    using recorded_journals [OF jok _ rec new] tabs by (simp add: tables_ok_def)
  moreover have "account_ok db' u c" for u c using recorded_account [OF acc wt w b(1) rec] .
  ultimately show ?thesis by (simp add: books_ok_def)
qed

section \<open>applyCurrencyDeltaTx\<close>

text \<open>The balances of an account, as the sum of what the mutations added.\<close>

definition moved :: "vc_db \<Rightarrow> vc_db \<Rightarrow> int64 \<Rightarrow> int64 \<Rightarrow> int \<Rightarrow> int \<Rightarrow> bool" where
  "moved db db' u c da dr \<longleftrightarrow> (\<forall>u' c'.
     avail_of db' u' c' = avail_of db u' c' + (if u' = u \<and> c' = c then da else 0) \<and>
     reserved_of db' u' c' = reserved_of db u' c' + (if u' = u \<and> c' = c then dr else 0))"

lemma ensure_wallet_effect:
  assumes books: "books_ok db" and run: "ensure_wallet u c db = (Inr x, db1)"
  shows "books_ok db1 \<and> same_rest db db1 \<and> moved db db1 u c 0 0 \<and> vd_ledger db1 = vd_ledger db \<and>
    vd_journals db1 = vd_journals db \<and> vd_holds db1 = vd_holds db \<and> vd_postings db1 = vd_postings db \<and>
    (\<exists>w. wallet_of db1 u c = Some w)"
proof (cases "wallet_of db u c")
  case (Some w)
  with run have "db1 = db" by (simp add: ensure_wallet_def wallet_of_def)
  with Some books show ?thesis by (simp add: moved_def)
next
  case None
  define mk where "mk i = \<lparr>wa_id = i, wa_user = u, wa_currency = c, wa_available = 0, wa_reserved = 0,
    wa_version = 0, wa_created_at = vd_now db, wa_updated_at = vd_now db\<rparr>" for i
  from None run have db1: "db1 = db\<lparr>vd_wallets := snd (tab_insert mk (vd_wallets db))\<rparr>" and cur: "currency_exists db c"
    by (auto simp: ensure_wallet_def wallet_of_def mk_def split: if_splits)
  have wt: "tab_ok wa_id wa_key (vd_wallets db)" using books by (simp add: books_ok_def tables_ok_def)
  have key: "wa_key (mk i) = (u, c)" "wa_id (mk i) = i" for i by (simp_all add: mk_def wa_key_def)
  have none: "wat.lookup (vd_wallets db) (u, c) = None" using None by (simp add: wallet_of_def)
  have look: "wallet_of db1 u' c' = (if u' = u \<and> c' = c then Some (mk (t_seq (vd_wallets db) + 1)) else wallet_of db u' c')" for u' c'
    using wat.lookup_insert [of mk "(u, c)" "vd_wallets db", OF key(1) none] by (simp add: wallet_of_def db1)
  have wt1: "tab_ok wa_id wa_key (vd_wallets db1)"
    using wat.insert_ok [OF wt, of mk "(u, c)"] key none by (simp add: db1)
  have av: "avail_of db1 u' c' = avail_of db u' c'" "reserved_of db1 u' c' = reserved_of db u' c'" for u' c'
    using None by (auto simp: avail_of_def reserved_of_def look mk_def)
  have acc: "account_ok db1 u' c'" for u' c'
  proof -
    have "account_ok db u' c'" using books by (simp add: books_ok_def)
    moreover have "entries_of db1 u' c' = entries_of db u' c'" "posted db1 k u' c' = posted db k u' c'" for k
      by (simp_all add: entries_of_def posted_def db1)
    moreover have "wallet_of db u' c' \<noteq> None \<Longrightarrow> wallet_of db1 u' c' \<noteq> None" by (simp add: look)
    ultimately show ?thesis by (simp add: account_ok_def av)
  qed
  have rows: "list_all (wallet_row_ok db1) (t_rows (vd_wallets db1))"
  proof -
    have "wallet_row_ok db1 = wallet_row_ok db" by (simp add: wallet_row_ok_def currency_exists_def db1 fun_eq_iff)
    moreover have "wallet_row_ok db (mk i)" for i
      using cur by (simp add: wallet_row_ok_def mk_def in_int64_def max_int64_def min_int64_def)
    ultimately show ?thesis using books by (simp add: books_ok_def db1)
  qed
  have "journal_balanced db1 = journal_balanced db"
    by (simp add: fun_eq_iff journal_balanced_def journal_postings_def db1)
  then have "journals_ok db1" using books by (simp add: books_ok_def journals_ok_def db1)
  moreover have "tables_ok db1" using books wt1 by (simp add: books_ok_def tables_ok_def db1)
  ultimately have "books_ok db1" using acc rows by (simp add: books_ok_def)
  then show ?thesis using av by (simp add: moved_def same_rest_def look) (simp add: db1)
qed

lemma moved_zero:
  "moved a b u c 0 0 \<Longrightarrow> avail_of b u' c' = avail_of a u' c' \<and> reserved_of b u' c' = reserved_of a u' c'"
  by (simp add: moved_def)

lemma moved_zero_trans: "moved a b u c 0 0 \<Longrightarrow> moved b d u c x y \<Longrightarrow> moved a d u c x y"
  by (simp add: moved_def)

lemma ledger_by_key_None:
  assumes "currency_exists db c"
  shows "ledger_by_key c u k db = None \<longleftrightarrow> tab_find (\<lambda>r. lr_ukey r = (c, u, k)) (vd_ledger db) = None"
proof (cases "tab_find (\<lambda>r. lr_ukey r = (c, u, k)) (vd_ledger db)")
  case None
  then show ?thesis by (simp add: ledger_by_key_def)
next
  case (Some r)
  then have "lr_currency r = c" using tab_find_Some [OF Some] by (simp add: lr_ukey_def)
  with Some assms show ?thesis by (auto simp: ledger_by_key_def currency_exists_def)
qed

definition no_new_unbalanced :: "vc_db \<Rightarrow> vc_db \<Rightarrow> bool" where
  "no_new_unbalanced db db' \<longleftrightarrow>
     (\<forall>j \<in> set (t_rows (vd_journals db')). t_seq (vd_journals db) < jo_id j \<longrightarrow> journal_balanced db' j)"

lemma commit_ok_iff: "commit_ok db db' \<longleftrightarrow> no_new_unbalanced db db'"
  by (auto simp: commit_ok_def no_new_unbalanced_def tab_select_def list_all_iff)

lemma find_currency_Inr:
  "find_currency (\<lambda>c. cu_id c = i) db = (Inr cur, db') \<Longrightarrow> db' = db \<and> cu_id cur = i \<and> currency_exists db i"
  by (auto simp: find_currency_def currency_exists_def split: option.splits dest: tab_find_Some)

lemma same_rest_reads:
  assumes "same_rest db db1"
  shows "check_policy inp db1 = (fst (check_policy inp db), db1)" "user_allowed db1 g u = user_allowed db g u"
    "currency_exists db1 i = currency_exists db i"
  using assms by (auto simp: check_policy_def user_allowed_def group_open_to_def same_rest_def currency_exists_def
      list_ex_iff split: option.splits)

text \<open>A mutation either replays the entry of its key or passes the checks and is recorded.\<close>

lemma apply_delta_cases:
  assumes books: "books_ok db" and run: "apply_delta_tx go_now inp db = (Inr e, db')"
  obtains (replay) cur x where "find_currency (\<lambda>c. cu_id c = di_currency inp) db = (Inr cur, db)"
      "ensure_wallet (di_user inp) (di_currency inp) db = (Inr x, db')"
      "ledger_by_key (di_currency inp) (di_user inp) (di_key inp) db = Some e" "lr_fingerprint (le_row e) = di_fingerprint inp"
  | (fresh) cur x db1 w mb b md rows where "find_currency (\<lambda>c. cu_id c = di_currency inp) db = (Inr cur, db)"
      "ensure_wallet (di_user inp) (di_currency inp) db = (Inr x, db1)" "wallet_of db1 (di_user inp) (di_currency inp) = Some w"
      "ledger_by_key (di_currency inp) (di_user inp) (di_key inp) db = None"
      "cu_status cur = vc_active \<or> di_settlement inp" "fst (check_policy inp db) = Inr mb"
      "di_require_access inp \<and> \<not> di_settlement inp \<longrightarrow> user_allowed db (di_group inp) (di_user inp)"
      "new_balances inp w mb = Inr b" "recorded inp b md rows (wallet_after w b db1) db'"
      "e = join_entry cur (new_ledger_row inp (di_metadata inp) go_now (t_seq (vd_journals db) + 1) b (t_seq (vd_ledger db) + 1))"
proof -
  obtain cur db1 w x where cur: "find_currency (\<lambda>c. cu_id c = di_currency inp) db = (Inr cur, db)"
    and ens: "ensure_wallet (di_user inp) (di_currency inp) db = (Inr x, db1)"
    and lock: "lock_wallet (di_user inp) (di_currency inp) db1 = (Inr w, db1)"
    and rest: "(case ledger_by_key (di_currency inp) (di_user inp) (di_key inp) db1 of
       Some e \<Rightarrow> if lr_fingerprint (le_row e) \<noteq> di_fingerprint inp then vc_fail err_vc_idempotency else vc_return e
     | None \<Rightarrow> post_delta go_now inp cur w) db1 = (Inr e, db')"
    using run by (auto simp: apply_delta_tx_def vc_bind_Inr find_currency_def lock_wallet_def split: option.splits)
  note eff = ensure_wallet_effect [OF books ens]
  have w: "wallet_of db1 (di_user inp) (di_currency inp) = Some w"
    using lock by (auto simp: lock_wallet_def wallet_of_def split: option.splits)
  have led: "ledger_by_key c u k db1 = ledger_by_key c u k db" for c u k
  proof -
    have same: "vd_ledger db1 = vd_ledger db" "vd_currencies db1 = vd_currencies db"
      using eff by (simp_all add: same_rest_def)
    show ?thesis unfolding ledger_by_key_def same ..
  qed
  show ?thesis
  proof (cases "ledger_by_key (di_currency inp) (di_user inp) (di_key inp) db")
    case (Some e0)
    with rest led have "e = e0" "db' = db1" "lr_fingerprint (le_row e0) = di_fingerprint inp" by (auto split: if_splits)
    with replay [OF cur] ens Some show ?thesis by simp
  next
    case None
    with rest led have post: "post_delta go_now inp cur w db1 = (Inr e, db')" by simp
    have "tab_ok jo_id jo_ukey (vd_journals db1)" using eff unfolding books_ok_def tables_ok_def by blast
    then have ids: "\<And>r. r \<in> set (t_rows (vd_journals db1)) \<Longrightarrow> jo_id r \<le> t_seq (vd_journals db1)" by (simp add: tab_ok_def)
    have seq: "vd_journals db1 = vd_journals db" "vd_ledger db1 = vd_ledger db" and same: "same_rest db db1" using eff by blast+
    obtain mb b md rows where "cu_status cur = vc_active \<or> di_settlement inp" "check_policy inp db1 = (Inr mb, db1)"
      "di_require_access inp \<and> \<not> di_settlement inp \<longrightarrow> user_allowed db1 (di_group inp) (di_user inp)"
      "new_balances inp w mb = Inr b" "recorded inp b md rows (wallet_after w b db1) db'"
      "e = join_entry cur (new_ledger_row inp (di_metadata inp) go_now (t_seq (vd_journals db1) + 1) b (t_seq (vd_ledger db1) + 1))"
      using post_delta_effect [OF ids post] by blast
    then show ?thesis using fresh [OF cur ens w None] by (simp add: same_rest_reads [OF same] seq)
  qed
qed

lemma apply_delta_effect:
  assumes books: "books_ok db" and range: "in_int64 (di_available inp)" "in_int64 (di_reserved inp)"
    and run: "apply_delta_tx go_now inp db = (Inr e, db')" and bal: "no_new_unbalanced db db'"
  shows "books_ok db' \<and> same_rest db db' \<and> vd_holds db' = vd_holds db \<and>
    (case ledger_by_key (di_currency inp) (di_user inp) (di_key inp) db of
       Some e0 \<Rightarrow> e = e0 \<and> lr_fingerprint (le_row e0) = di_fingerprint inp \<and> moved db db' (di_user inp) (di_currency inp) 0 0 \<and>
         vd_ledger db' = vd_ledger db
     | None \<Rightarrow> moved db db' (di_user inp) (di_currency inp) (di_available inp) (di_reserved inp) \<and>
         (\<exists>cur j i b. cu_id cur = di_currency inp \<and>
            b = (avail_of db (di_user inp) (di_currency inp) + di_available inp, reserved_of db (di_user inp) (di_currency inp) + di_reserved inp) \<and>
            e = join_entry cur (new_ledger_row inp (di_metadata inp) go_now j b i) \<and> 0 \<le> fst b \<and> 0 \<le> snd b))"
proof (rule apply_delta_cases [OF books run])
  fix cur x
  assume ens: "ensure_wallet (di_user inp) (di_currency inp) db = (Inr x, db')"
    and "ledger_by_key (di_currency inp) (di_user inp) (di_key inp) db = Some e" "lr_fingerprint (le_row e) = di_fingerprint inp"
  then show ?thesis using ensure_wallet_effect [OF books ens] by simp
next
  fix cur x db1 w mb b md rows
  assume cur: "find_currency (\<lambda>c. cu_id c = di_currency inp) db = (Inr cur, db)"
    and ens: "ensure_wallet (di_user inp) (di_currency inp) db = (Inr x, db1)"
    and w: "wallet_of db1 (di_user inp) (di_currency inp) = Some w"
    and none: "ledger_by_key (di_currency inp) (di_user inp) (di_key inp) db = None"
    and nb: "new_balances inp w mb = Inr b" and rec: "recorded inp b md rows (wallet_after w b db1) db'"
    and e: "e = join_entry cur (new_ledger_row inp (di_metadata inp) go_now (t_seq (vd_journals db) + 1) b (t_seq (vd_ledger db) + 1))"
  note eff = ensure_wallet_effect [OF books ens]
  have books1: "books_ok db1" using eff by blast
  have wt: "tab_ok wa_id wa_key (vd_wallets db1)" using books1 by (simp add: books_ok_def tables_ok_def)
  have new: "\<And>j. j \<in> set (t_rows (vd_journals db')) \<Longrightarrow> t_seq (vd_journals db1) < jo_id j \<Longrightarrow> journal_balanced db' j"
    using bal eff by (auto simp: no_new_unbalanced_def)
  note books' = recorded_books [OF books1 w nb range rec new]
  have "w \<in> set (t_rows (vd_wallets db1))" using w by (simp add: wallet_of_row [OF wt])
  then have "wallet_row_ok db1 w" using books1 by (simp add: books_ok_def list_all_iff)
  then have b: "b = (wa_available w + di_available inp, wa_reserved w + di_reserved inp)" "0 \<le> fst b" "0 \<le> snd b"
    using new_balances_spec [OF nb _ _ range] by (auto simp: wallet_row_ok_def)
  have wal: "wallet_of db' u c = (if u = di_user inp \<and> c = di_currency inp
      then Some (set_wallet (fst b, snd b, vd_now db1) w) else wallet_of db1 u c)" for u c
    using recorded_sel(3) [OF rec, of u c] wallet_after_lookup [OF wt w, of b u c] by simp
  have "moved db1 db' (di_user inp) (di_currency inp) (di_available inp) (di_reserved inp)"
    using w b(1) by (auto simp: moved_def avail_of_def reserved_of_def wal set_wallet_def)
  then have mv: "moved db db' (di_user inp) (di_currency inp) (di_available inp) (di_reserved inp)"
    using eff moved_zero_trans by blast
  have av: "avail_of db (di_user inp) (di_currency inp) = wa_available w" "reserved_of db (di_user inp) (di_currency inp) = wa_reserved w"
    using eff moved_zero [of db db1 "di_user inp" "di_currency inp" "di_user inp" "di_currency inp"] w
    by (auto simp: avail_of_def [of db1] reserved_of_def [of db1])
  have "same_rest db db'" "vd_holds db' = vd_holds db"
    using eff rec by (auto simp: recorded_def same_rest_def wallet_after_def Let_def)
  with books' mv b av e find_currency_Inr [OF cur] none show ?thesis by auto
qed

end
