(* ===== verification/VC_Holds.thy ===== *)
theory VC_Holds
  imports VC_Preserve
begin

text \<open>
  Preservation of the invariant by the operations on holds and by the whole calls of the
  repository. A replayed reservation must find its hold: \<open>reserve_linked\<close> says that every ledger
  entry that carries the fingerprint of a reservation has one.
\<close>

section \<open>Tables of holds\<close>

lemma held_same: "vd_holds db' = vd_holds db \<Longrightarrow> held db' u c = held db u c"
  by (simp add: held_def)

lemma tab_find_rid:
  assumes "tab_ok rid key t" and "r \<in> set (t_rows t)" and "rid r = i"
  shows "tab_find (\<lambda>x. rid x = i) t = Some r"
proof (cases "tab_find (\<lambda>x. rid x = i) t")
  case None
  with assms(2,3) show ?thesis by (auto simp: tab_find_None)
next
  case (Some x)
  then have "x \<in> set (t_rows t)" "rid x = i" by (auto dest: tab_find_Some)
  with assms Some show ?thesis by (auto simp: tab_ok_def distinct_map inj_on_def)
qed

lemma update_hold_effect:
  assumes ok: "tab_ok ho_id ho_ukey (vd_holds db)" and row: "h \<in> set (t_rows (vd_holds db))"
    and act: "ho_status h = hold_active" and st: "st \<noteq> hold_active"
    and run: "update_hold_tx h st db = (Inr x, db')"
  shows "db' = db\<lparr>vd_holds := vd_holds db'\<rparr> \<and> tab_ok ho_id ho_ukey (vd_holds db') \<and>
    (\<forall>u c. held db' u c = held db u c - (if ho_user h = u \<and> ho_currency h = c then ho_amount h else 0)) \<and>
    t_rows (vd_holds db') = map (\<lambda>r. if ho_id r = ho_id h then set_hold (st, vd_now db) r else r) (t_rows (vd_holds db))"
proof -
  let ?P = "\<lambda>x. ho_id x = ho_id h \<and> ho_user x = ho_user h \<and> ho_status x = hold_active"
  have db': "db' = db\<lparr>vd_holds := snd (tab_update ?P (set_hold (st, vd_now db)) (vd_holds db))\<rparr>"
    using run by (auto simp: update_hold_tx_def split: prod.splits if_splits)
  have eq: "?P x \<longleftrightarrow> ho_id x = ho_id h" if "x \<in> set (t_rows (vd_holds db))" for x
    using hot.row_unique_rid [OF ok that row] act by auto
  have rows: "t_rows (vd_holds db') = map (\<lambda>r. if ho_id r = ho_id h then set_hold (st, vd_now db) r else r) (t_rows (vd_holds db))"
    using eq by (simp add: db')
  have held: "held db' u c = held db u c - (if ho_user h = u \<and> ho_currency h = c then ho_amount h else 0)" for u c
  proof -
    let ?g = "\<lambda>h. if ho_status h = hold_active \<and> ho_user h = u \<and> ho_currency h = c then ho_amount h else 0"
    have "held db' u c = sum_list (map ?g (map (\<lambda>r. if ho_id r = ho_id h then set_hold (st, vd_now db) r else r) (t_rows (vd_holds db))))"
      by (simp add: held_def rows)
    also have "\<dots> = sum_list (map ?g (t_rows (vd_holds db))) - ?g h + ?g (set_hold (st, vd_now db) h)"
      by (rule sum_list_map_update) (use ok row in \<open>auto simp: tab_ok_def\<close>)
    also have "?g (set_hold (st, vd_now db) h) = 0" using st by (simp add: set_hold_def)
    finally show ?thesis using act by (simp add: held_def)
  qed
  have "tab_ok ho_id ho_ukey (vd_holds db')" unfolding db' using hot.update_ok [OF ok] by simp
  moreover have "db' = db\<lparr>vd_holds := vd_holds db'\<rparr>" by (simp add: db')
  ultimately show ?thesis using held rows by blast
qed

lemma insert_hold_effect:
  assumes ok: "tab_ok ho_id ho_ukey (vd_holds db)" and run: "insert_hold_tx inp md db = (Inr i, db')"
  shows "db' = db\<lparr>vd_holds := vd_holds db'\<rparr> \<and> tab_ok ho_id ho_ukey (vd_holds db') \<and>
    (\<exists>h. t_rows (vd_holds db') = t_rows (vd_holds db) @ [h] \<and> ho_id h = i \<and> h = new_hold inp (decode_metadata md) (vd_now db) i \<and>
       hold_check h) \<and>
    tab_find (\<lambda>h. ho_ukey h = (ri_currency inp, ri_user inp, ri_key inp)) (vd_holds db) = None"
proof -
  define mk where "mk = new_hold inp (decode_metadata md) (vd_now db)"
  have key: "ho_ukey (mk n) = (ri_currency inp, ri_user inp, ri_key inp)" "ho_id (mk n) = n" for n
    by (simp_all add: mk_def new_hold_def ho_ukey_def)
  have "hold_check (mk 0)" and none: "tab_find (\<lambda>h. ho_ukey h = (ri_currency inp, ri_user inp, ri_key inp)) (vd_holds db) = None"
    and db': "db' = db\<lparr>vd_holds := snd (tab_insert mk (vd_holds db))\<rparr>" and i: "i = t_seq (vd_holds db) + 1"
    using run key by (auto simp: insert_hold_tx_def Let_def mk_def [symmetric] tab_insert_def split: if_splits)
  then have check: "hold_check (mk n)" for n by (simp add: hold_check_def mk_def new_hold_def)
  have "tab_ok ho_id ho_ukey (vd_holds db')"
    unfolding db' using hot.insert_ok [OF ok, of mk, OF key(2) key(1) none] by simp
  moreover have "t_rows (vd_holds db') = t_rows (vd_holds db) @ [mk i]" by (simp add: db' i)
  moreover have "db' = db\<lparr>vd_holds := vd_holds db'\<rparr>" by (simp add: db')
  ultimately show ?thesis using none check key(2) by (simp add: mk_def)
qed

lemma get_hold_where_effect:
  assumes "get_hold_where P db = (Inr hold, db')"
  shows "db' = db \<and> hd_row hold \<in> set (t_rows (vd_holds db)) \<and> P (hd_row hold) \<and> currency_exists db (ho_currency (hd_row hold))"
  using assms by (auto simp: get_hold_where_def join_hold_def currency_exists_def split: option.splits dest: tab_find_Some)

section \<open>Reserve\<close>

lemma holds_only:
  assumes "books_ok db" and "db' = db\<lparr>vd_holds := vd_holds db'\<rparr>" and "tab_ok ho_id ho_ukey (vd_holds db')"
  shows "books_ok db' \<and> (\<forall>u c. avail_of db' u c = avail_of db u c \<and> reserved_of db' u c = reserved_of db u c)"
proof -
  have same: "vd_currencies db' = vd_currencies db" "vd_policies db' = vd_policies db" "vd_wallets db' = vd_wallets db"
    "vd_ledger db' = vd_ledger db" "vd_journals db' = vd_journals db" "vd_postings db' = vd_postings db"
    by (subst assms(2); simp)+
  have "journal_balanced db' = journal_balanced db" "wallet_row_ok db' = wallet_row_ok db"
    by (simp_all add: fun_eq_iff journal_balanced_def journal_postings_def same wallet_row_ok_def currency_exists_def)
  then show ?thesis
    using assms(1,3) by (simp add: books_ok_def tables_ok_def same account_ok_def account_defs journals_ok_def)
qed

lemma unbalanced_same:
  assumes "no_new_unbalanced db db'" and "vd_journals db1 = vd_journals db'" and "vd_postings db1 = vd_postings db'"
  shows "no_new_unbalanced db db1"
  using assms by (auto simp: no_new_unbalanced_def journal_balanced_def journal_postings_def)

lemma reserve_hold_tx_effect:
  assumes ok: "vc_ok db" and range: "in_int64 (ri_amount inp)"
    and linked: "\<forall>e0. ledger_by_key (ri_currency inp) (ri_user inp) (ri_key inp) db = Some e0 \<longrightarrow>
      lr_fingerprint (le_row e0) = ri_fingerprint inp \<longrightarrow>
      tab_find (\<lambda>h. ho_ukey h = (ri_currency inp, ri_user inp, ri_key inp)) (vd_holds db) \<noteq> None"
    and run: "reserve_hold_tx go_now inp db = (Inr (hold, e), db')" and bal: "no_new_unbalanced db db'"
  shows "vc_ok db' \<and> same_rest db db' \<and> ledger_by_key (ri_currency inp) (ri_user inp) (ri_key inp) db = None \<and>
    moved db db' (ri_user inp) (ri_currency inp) (- ri_amount inp) (ri_amount inp) \<and>
    ri_amount inp \<le> avail_of db (ri_user inp) (ri_currency inp) \<and>
    (\<exists>md at. hd_row hold = new_hold inp md at (ho_id (hd_row hold)) \<and> t_rows (vd_holds db') = t_rows (vd_holds db) @ [hd_row hold]) \<and>
    lr_fingerprint (le_row e) = ri_fingerprint inp \<and> lr_ukey (le_row e) = (ri_currency inp, ri_user inp, ri_key inp)"
proof -
  obtain db1 db2 enc i where app: "apply_delta_tx go_now (reserve_delta inp) db = (Inr e, db1)"
    and ins: "insert_hold_tx inp enc db1 = (Inr i, db2)"
    and get: "get_hold_where (\<lambda>h. ho_id h = i) db2 = (Inr hold, db')"
    using run by (auto simp: reserve_hold_tx_def vc_bind_Inr)
  have db': "db' = db2" and hrow: "hd_row hold \<in> set (t_rows (vd_holds db2))" "ho_id (hd_row hold) = i"
    and hcur: "currency_exists db2 (ho_currency (hd_row hold))"
    using get_hold_where_effect [OF get] by auto
  have books: "books_ok db" and hok: "holds_ok db" using ok by (simp_all add: vc_ok_def)
  have ht: "tab_ok ho_id ho_ukey (vd_holds db)" using books by (simp add: books_ok_def tables_ok_def)
  have dsel: "di_currency (reserve_delta inp) = ri_currency inp" "di_user (reserve_delta inp) = ri_user inp"
    "di_key (reserve_delta inp) = ri_key inp" "di_fingerprint (reserve_delta inp) = ri_fingerprint inp"
    "di_available (reserve_delta inp) = wrap64 (- ri_amount inp)" "di_reserved (reserve_delta inp) = ri_amount inp"
    by (simp_all add: reserve_delta_def)
  have rr: "in_int64 (di_available (reserve_delta inp))" "in_int64 (di_reserved (reserve_delta inp))"
    using range by (simp_all add: dsel)
  have only: "db2 = db1\<lparr>vd_holds := vd_holds db2\<rparr>"
  proof -
    have "insert_hold_tx inp enc db1 = (Inr i, db2) \<Longrightarrow> db2 = db1\<lparr>vd_holds := vd_holds db2\<rparr>"
      by (auto simp: insert_hold_tx_def Let_def tab_insert_def split: if_splits)
    with ins show ?thesis by blast
  qed
  have "no_new_unbalanced db db1"
    by (rule unbalanced_same [OF bal]) (subst db', subst only, simp)+
  note eff = apply_delta_effect [OF books rr app this, unfolded dsel]
  have h1: "vd_holds db1 = vd_holds db" and books1: "books_ok db1" and rest1: "same_rest db db1" using eff by blast+
  note ie = insert_hold_effect [OF ht [folded h1] ins]
  have fresh: "ledger_by_key (ri_currency inp) (ri_user inp) (ri_key inp) db = None"
  proof (cases "ledger_by_key (ri_currency inp) (ri_user inp) (ri_key inp) db")
    case (Some e0)
    with eff have "lr_fingerprint (le_row e0) = ri_fingerprint inp" by simp
    with linked Some ie h1 show ?thesis by simp
  qed
  obtain h where h: "t_rows (vd_holds db2) = t_rows (vd_holds db) @ [h]" "ho_id h = i"
    "h = new_hold inp (decode_metadata enc) (vd_now db1) i" "hold_check h"
    using ie h1 by auto
  have ht2: "tab_ok ho_id ho_ukey (vd_holds db2)" using ie by blast
  have "hd_row hold = h" using hrow h hot.row_unique_rid [OF ht2] by simp
  have amount: "0 < ri_amount inp" "ri_amount inp \<le> max_mutation_units"
    using h(3,4) by (simp_all add: hold_check_def new_hold_def)
  then have neg: "wrap64 (- ri_amount inp) = - ri_amount inp"
    by (intro wrap64_id) (simp add: in_int64_def max_int64_def min_int64_def max_mutation_units_def)
  have mv: "moved db db1 (ri_user inp) (ri_currency inp) (- ri_amount inp) (ri_amount inp)"
    and enough: "ri_amount inp \<le> avail_of db (ri_user inp) (ri_currency inp)"
    and erow: "lr_fingerprint (le_row e) = ri_fingerprint inp \<and> lr_ukey (le_row e) = (ri_currency inp, ri_user inp, ri_key inp)"
    using eff fresh neg by (auto simp: join_entry_def new_ledger_row_def lr_ukey_def dsel)
  have b2: "books_ok db2" and av: "\<And>u c. avail_of db2 u c = avail_of db1 u c \<and> reserved_of db2 u c = reserved_of db1 u c"
    using holds_only [OF books1 only ht2] by auto
  have mv2: "moved db db2 (ri_user inp) (ri_currency inp) (- ri_amount inp) (ri_amount inp)"
    using mv av by (simp add: moved_def)
  have "held db2 u c = reserved_of db2 u c" for u c
    using hok mv2 h(3) unfolding held_def holds_ok_def moved_def h(1)
    by (simp add: new_hold_def held_def)
  moreover have "vd_currencies db2 = vd_currencies db1" by (subst only) simp
  then have "vd_currencies db2 = vd_currencies db" using rest1 by (simp add: same_rest_def)
  then have "list_all (\<lambda>h. 0 < ho_amount h \<and> ho_amount h \<le> max_mutation_units \<and> currency_exists db2 (ho_currency h)) (t_rows (vd_holds db2))"
    using hok h hcur \<open>hd_row hold = h\<close> by (simp add: holds_ok_def list_all_iff hold_check_def currency_exists_def)
  ultimately have "vc_ok db2" using b2 by (simp add: vc_ok_def holds_ok_def)
  moreover have "same_rest db1 db2" by (subst only) (simp add: same_rest_def)
  ultimately show ?thesis
    using rest1 same_rest_trans fresh mv2 enough erow h \<open>hd_row hold = h\<close> db' by auto
qed

section \<open>Settlement\<close>

text \<open>What a settlement moves: a commit takes the units out of the reserve, a release frees them.\<close>

definition settled_available :: "vc_settle_input \<Rightarrow> vc_hold_row \<Rightarrow> int" where
  "settled_available inp h = (if si_action inp = entry_commit then 0 else ho_amount h)"

lemma get_hold_where_key:
  assumes "tab_ok ho_id ho_ukey (vd_holds db)" and "get_hold_where (\<lambda>h. ho_id h = i \<and> ho_user h = u) db = (Inr hold, db')"
    and "h \<in> set (t_rows (vd_holds db))" "ho_id h = i"
  shows "hd_row hold = h \<and> db' = db"
  using get_hold_where_effect [OF assms(2)] hot.row_unique_rid [OF assms(1), of "hd_row hold" h] assms(3,4) by auto

lemma settle_fresh:
  assumes ok: "vc_ok db" and h: "h \<in> set (t_rows (vd_holds db))" "ho_status h = hold_active" "ho_user h = si_user inp"
    and st: "st \<noteq> hold_active"
    and none: "ledger_by_key (ho_currency h) (si_user inp) (si_key inp) db = None"
    and app: "apply_delta_tx go_now (settle_delta inp h typ) db = (Inr e, db1)"
    and upd: "update_hold_tx h st db1 = (Inr x, db2)" and bal: "no_new_unbalanced db db2"
  shows "vc_ok db2 \<and> same_rest db db2 \<and> moved db db2 (ho_user h) (ho_currency h) (settled_available inp h) (- ho_amount h) \<and>
    t_rows (vd_holds db2) = map (\<lambda>r. if ho_id r = ho_id h then set_hold (st, vd_now db) r else r) (t_rows (vd_holds db)) \<and>
    lr_fingerprint (le_row e) = si_fingerprint inp \<and> lr_ukey (le_row e) = (ho_currency h, ho_user h, si_key inp) \<and>
    lr_type (le_row e) = typ \<and> ho_amount h \<le> reserved_of db (ho_user h) (ho_currency h)"
proof -
  have books: "books_ok db" and hok: "holds_ok db" using ok by (simp_all add: vc_ok_def)
  have ht: "tab_ok ho_id ho_ukey (vd_holds db)" using books by (simp add: books_ok_def tables_ok_def)
  have amount: "0 < ho_amount h" "ho_amount h \<le> max_mutation_units" using hok h(1) by (simp_all add: holds_ok_def list_all_iff)
  then have rng: "in_int64 (ho_amount h)" "wrap64 (- ho_amount h) = - ho_amount h"
    by (auto simp: in_int64_def max_int64_def min_int64_def max_mutation_units_def intro!: wrap64_id)
  have dsel: "di_currency (settle_delta inp h typ) = ho_currency h" "di_user (settle_delta inp h typ) = ho_user h"
    "di_key (settle_delta inp h typ) = si_key inp" "di_fingerprint (settle_delta inp h typ) = si_fingerprint inp"
    "di_type (settle_delta inp h typ) = typ" "di_reserved (settle_delta inp h typ) = - ho_amount h"
    "di_available (settle_delta inp h typ) = settled_available inp h"
    by (simp_all add: settle_delta_def settled_available_def rng(2))
  have rr: "in_int64 (di_available (settle_delta inp h typ))" "in_int64 (di_reserved (settle_delta inp h typ))"
    unfolding dsel using rng(1) amount by (auto simp: settled_available_def in_int64_def max_int64_def min_int64_def)
  have upd1: "db2 = db1\<lparr>vd_holds := vd_holds db2\<rparr>"
    using upd by (auto simp: update_hold_tx_def split: prod.splits if_splits)
  have bal1: "no_new_unbalanced db db1"
    by (rule unbalanced_same [OF bal]) (subst upd1, simp)+
  note eff = apply_delta_effect [OF books rr app bal1, unfolded dsel, unfolded h(3) none option.case, folded h(3)]
  have books1: "books_ok db1" and rest1: "same_rest db db1" and hs: "vd_holds db1 = vd_holds db"
    and mv: "moved db db1 (ho_user h) (ho_currency h) (settled_available inp h) (- ho_amount h)"
    and ent: "lr_fingerprint (le_row e) = si_fingerprint inp \<and> lr_ukey (le_row e) = (ho_currency h, ho_user h, si_key inp) \<and>
      lr_type (le_row e) = typ \<and> 0 \<le> reserved_of db (ho_user h) (ho_currency h) - ho_amount h"
    using eff by (auto simp: join_entry_def new_ledger_row_def lr_ukey_def dsel)
  have now: "vd_now db1 = vd_now db" "vd_currencies db1 = vd_currencies db" using rest1 by (simp_all add: same_rest_def)
  note ue = update_hold_effect [OF ht [folded hs] h(1) [folded hs] h(2) st upd, unfolded hs now(1)]
  have only: "db2 = db1\<lparr>vd_holds := vd_holds db2\<rparr>" and ht2: "tab_ok ho_id ho_ukey (vd_holds db2)"
    and rows: "t_rows (vd_holds db2) = map (\<lambda>r. if ho_id r = ho_id h then set_hold (st, vd_now db) r else r) (t_rows (vd_holds db))"
    using ue by auto
  have held2: "held db2 u c = held db u c - (if ho_user h = u \<and> ho_currency h = c then ho_amount h else 0)" for u c
    using ue held_same [OF hs] by simp
  have b2: "books_ok db2" and av: "\<And>u c. avail_of db2 u c = avail_of db1 u c \<and> reserved_of db2 u c = reserved_of db1 u c"
    using holds_only [OF books1 only ht2] by auto
  have mv2: "moved db db2 (ho_user h) (ho_currency h) (settled_available inp h) (- ho_amount h)"
    using mv av by (simp add: moved_def)
  have "held db2 u c = reserved_of db2 u c" for u c
    using hok mv2 held2 [of u c] by (auto simp: holds_ok_def moved_def)
  moreover have cur2: "vd_currencies db2 = vd_currencies db" using now(2) by (subst only) simp
  then have "list_all (\<lambda>h. 0 < ho_amount h \<and> ho_amount h \<le> max_mutation_units \<and> currency_exists db2 (ho_currency h)) (t_rows (vd_holds db2))"
    using hok by (auto simp: rows holds_ok_def list_all_iff set_hold_def currency_exists_def)
  ultimately have "vc_ok db2" using b2 by (simp add: vc_ok_def holds_ok_def)
  moreover have "same_rest db1 db2" by (subst only) (simp add: same_rest_def)
  ultimately show ?thesis using rest1 same_rest_trans mv2 rows ent by auto
qed

text \<open>A settlement replays the entry of its key or settles an active hold.\<close>

lemma settle_cases:
  assumes run: "settle_hold_tx go_now inp ty0 st0 db = (Inr (hold, e), db')"
  obtains (replay) "hd_row hold \<in> set (t_rows (vd_holds db))" "ho_id (hd_row hold) = si_hold inp" "ho_user (hd_row hold) = si_user inp"
      "ledger_by_key (ho_currency (hd_row hold)) (si_user inp) (si_key inp) db = Some e"
      "lr_fingerprint (le_row e) = si_fingerprint inp" "db' = db"
  | (fresh) h ty st db1 u where "h \<in> set (t_rows (vd_holds db))" "ho_id h = si_hold inp" "ho_user h = si_user inp"
      "ledger_by_key (ho_currency h) (si_user inp) (si_key inp) db = None" "ho_status h = hold_active"
      "si_action inp = entry_commit \<Longrightarrow> t_after (ho_expires_at h) go_now" "si_action inp \<in> {entry_commit, entry_release}"
      "settle_kind go_now inp h ty0 st0 = (ty, st)" "apply_delta_tx go_now (settle_delta inp h ty) db = (Inr e, db1)"
      "update_hold_tx h st db1 = (Inr u, db')" "hd_row hold \<in> set (t_rows (vd_holds db'))" "ho_id (hd_row hold) = ho_id h"
proof -
  obtain hold0 where get: "get_hold_where (\<lambda>h. ho_id h = si_hold inp \<and> ho_user h = si_user inp) db = (Inr hold0, db)"
    using run get_hold_where_effect by (fastforce simp: settle_hold_tx_def vc_bind_Inr)
  note h = get_hold_where_effect [OF get]
  show ?thesis
  proof (cases "ledger_by_key (ho_currency (hd_row hold0)) (si_user inp) (si_key inp) db")
    case (Some e0)
    with run get h show ?thesis
      by (intro replay) (auto simp: settle_hold_tx_def vc_bind_Inr split: if_splits)
  next
    case None
    let ?h = "hd_row hold0"
    obtain ty st where kind: "settle_kind go_now inp ?h ty0 st0 = (ty, st)" by (cases "settle_kind go_now inp ?h ty0 st0")
    from run get None kind obtain db1 db2 u where app: "apply_delta_tx go_now (settle_delta inp ?h ty) db = (Inr e, db1)"
      and upd: "update_hold_tx ?h st db1 = (Inr u, db2)"
      and settled: "get_hold_where (\<lambda>x. ho_id x = ho_id ?h \<and> ho_user x = ho_user ?h) db2 = (Inr hold, db')"
      and guards: "ho_status ?h = hold_active" "si_action inp = entry_commit \<longrightarrow> t_after (ho_expires_at ?h) go_now"
        "si_action inp \<in> {entry_commit, entry_release}"
      by (auto simp: settle_hold_tx_def vc_bind_Inr Let_def split: if_splits)
    note after = get_hold_where_effect [OF settled]
    show ?thesis
      by (rule fresh [of ?h]) (use h None kind app upd guards after in auto)
  qed
qed

end
