(* ===== verification/VC_Totals.thy ===== *)
theory VC_Totals
  imports VC_Holds
begin

text \<open>
  What the reconciliation report relies on: the totals of the wallets of a currency are those of its
  postings, all postings of a currency sum to zero, and a wallet that exists has ledger entries. The
  locale \<open>book_invariant\<close> is the contract of such a property of the books: it reads only the tables
  of wallets, ledger and journal, and a mutation keeps it; every other operation then keeps it too.
\<close>

section \<open>The contract\<close>

definition same_books :: "vc_db \<Rightarrow> vc_db \<Rightarrow> bool" where
  "same_books db db' \<longleftrightarrow> vd_wallets db' = vd_wallets db \<and> vd_ledger db' = vd_ledger db \<and>
     vd_journals db' = vd_journals db \<and> vd_postings db' = vd_postings db"

lemma same_books_fault [simp]: "same_books db (without_fault db)" by (simp add: same_books_def)

locale book_invariant =
  fixes I :: "vc_db \<Rightarrow> bool"
  assumes reads: "same_books db db' \<Longrightarrow> I db' = I db"
    and delta: "books_ok db \<Longrightarrow> I db \<Longrightarrow> in_int64 (di_available inp) \<Longrightarrow> in_int64 (di_reserved inp) \<Longrightarrow>
      apply_delta_tx go_now inp db = (Inr e, db') \<Longrightarrow> no_new_unbalanced db db' \<Longrightarrow> I db'"
begin

lemma call:
  assumes "I db" and "vc_call m db = (r, db')"
    and "\<And>x db1. m (without_fault db) = (Inr x, db1) \<Longrightarrow> no_new_unbalanced (without_fault db) db1 \<Longrightarrow> I (without_fault db) \<Longrightarrow> I db1"
  shows "I db'"
proof -
  have i0: "I (without_fault db)" using assms(1) reads [OF same_books_fault] by blast
  show ?thesis
  proof (cases r)
    case (Inl e)
    with assms(2) have "db' = without_fault db" by (simp add: vc_call_Inl)
    with i0 show ?thesis by simp
  next
    case (Inr x)
    with assms(2) vc_call_Inr [of m db x db'] have "m (without_fault db) = (Inr x, db')" "commit_ok (without_fault db) db'" by auto
    with assms(3) i0 show ?thesis by (simp add: commit_ok_iff)
  qed
qed

lemma apply_call:
  assumes "books_ok db" "I db" "in_int64 (di_available inp)" "in_int64 (di_reserved inp)"
    and "apply_currency_delta go_now inp db = (r, db')"
  shows "I db'"
proof (rule call [OF assms(2) assms(5) [unfolded apply_currency_delta_def]])
  fix x db1
  assume "apply_delta_tx go_now inp (without_fault db) = (Inr x, db1)" "no_new_unbalanced (without_fault db) db1" "I (without_fault db)"
  then show "I db1" using delta assms(1,3,4) books_ok_fault by blast
qed

lemma reserve:
  assumes "books_ok db" "I db" "in_int64 (ri_amount inp)" and run: "reserve_hold_tx go_now inp db = (Inr (hold, e), db')"
    and bal: "no_new_unbalanced db db'"
  shows "I db'"
proof -
  obtain db1 db2 enc i where app: "apply_delta_tx go_now (reserve_delta inp) db = (Inr e, db1)"
    and ins: "insert_hold_tx inp enc db1 = (Inr i, db2)"
    and get: "get_hold_where (\<lambda>h. ho_id h = i) db2 = (Inr hold, db')"
    using run by (auto simp: reserve_hold_tx_def vc_bind_Inr)
  have "same_books db1 db2"
    using ins by (auto simp: insert_hold_tx_def Let_def tab_insert_def same_books_def split: if_splits)
  moreover have "db' = db2" using get_hold_where_effect [OF get] by blast
  ultimately have same: "same_books db1 db'" by simp
  then have "no_new_unbalanced db db1" using unbalanced_same [OF bal] by (simp add: same_books_def)
  with delta [OF assms(1,2) _ _ app] assms(3) have "I db1" by (simp add: reserve_delta_def)
  with reads [OF same] show ?thesis by simp
qed

lemma settle:
  assumes "vc_ok db" "I db" and run: "settle_hold_tx go_now inp typ0 st0 db = (Inr (hold, e), db')"
    and bal: "no_new_unbalanced db db'"
  shows "I db'"
proof (rule settle_cases [OF run])
  assume "db' = db"
  with assms(2) show ?thesis by simp
next
  fix h ty st db1 u
  assume h: "h \<in> set (t_rows (vd_holds db))" and app: "apply_delta_tx go_now (settle_delta inp h ty) db = (Inr e, db1)"
    and upd: "update_hold_tx h st db1 = (Inr u, db')"
  have same: "same_books db1 db'"
    using upd by (auto simp: update_hold_tx_def same_books_def split: prod.splits if_splits)
  then have "no_new_unbalanced db db1" using unbalanced_same [OF bal] by (simp add: same_books_def)
  moreover have "in_int64 (di_available (settle_delta inp h ty))" "in_int64 (di_reserved (settle_delta inp h ty))"
    using assms(1) h by (auto simp: settle_delta_def vc_ok_def holds_ok_def list_all_iff in_int64_def max_int64_def
        min_int64_def max_mutation_units_def)
  moreover have "books_ok db" using assms(1) by (simp add: vc_ok_def)
  ultimately have "I db1" using delta [OF _ assms(2) _ _ app] by blast
  with reads [OF same] show ?thesis by simp
qed

end

section \<open>Totals\<close>

definition totals_ok :: "vc_db \<Rightarrow> bool" where
  "totals_ok db \<longleftrightarrow> (\<forall>c. wallet_sum wa_available c db = posting_sum (\<lambda>p. pt_kind p = acct_user_available) c db \<and>
     wallet_sum wa_reserved c db = posting_sum (\<lambda>p. pt_kind p = acct_user_reserved) c db \<and>
     posting_sum (\<lambda>_. True) c db = 0)"

definition wallets_used :: "vc_db \<Rightarrow> bool" where
  "wallets_used db \<longleftrightarrow> (\<forall>u c. wallet_of db u c \<noteq> None \<longrightarrow> entries_of db u c \<noteq> [])"

lemma wallet_sum_if:
  "wallet_sum f c db = sum_list (map (\<lambda>w. if wa_currency w = c then f w else 0) (t_rows (vd_wallets db)))"
  by (simp add: wallet_sum_def tab_select_def sum_list_map_filter')

lemma ensure_wallet_rows:
  assumes "ensure_wallet u c db = (Inr x, db1)"
  shows "wallet_sum wa_available c' db1 = wallet_sum wa_available c' db \<and>
    wallet_sum wa_reserved c' db1 = wallet_sum wa_reserved c' db \<and>
    vd_postings db1 = vd_postings db \<and>
    (\<forall>u' c'. wallet_of db1 u' c' \<noteq> None \<longrightarrow> wallet_of db u' c' \<noteq> None \<or> (u' = u \<and> c' = c))"
  using assms by (auto simp: ensure_wallet_def wallet_sum_def tab_select_def wallet_of_def tab_find_insert wa_key_def split: if_splits option.splits)

lemma wallet_after_sum:
  assumes ok: "tab_ok wa_id wa_key (vd_wallets db)" and w: "w \<in> set (t_rows (vd_wallets db))"
    and b: "b = (wa_available w + da, wa_reserved w + dr)"
  shows "wallet_sum wa_available c (wallet_after w b db) = wallet_sum wa_available c db + (if wa_currency w = c then da else 0)"
    and "wallet_sum wa_reserved c (wallet_after w b db) = wallet_sum wa_reserved c db + (if wa_currency w = c then dr else 0)"
proof -
  have rows: "t_rows (vd_wallets (wallet_after w b db)) =
      map (\<lambda>x. if wa_id x = wa_id w then set_wallet (fst b, snd b, vd_now db) x else x) (t_rows (vd_wallets db))"
    using wat.row_unique_rid [OF ok _ w] by (auto simp: wallet_after_def)
  have ids: "distinct (map wa_id (t_rows (vd_wallets db)))" using ok by (simp add: tab_ok_def)
  note upd = sum_list_map_update [OF ids w]
  show "wallet_sum wa_available c (wallet_after w b db) = wallet_sum wa_available c db + (if wa_currency w = c then da else 0)"
    and "wallet_sum wa_reserved c (wallet_after w b db) = wallet_sum wa_reserved c db + (if wa_currency w = c then dr else 0)"
    unfolding wallet_sum_if rows upd using b by (simp_all add: set_wallet_def)
qed

lemma kind_rows:
  assumes "list_all2 (posting_of j c) rows ps"
  shows "sum_list (map pt_amount (filter (\<lambda>p. pt_currency p = c' \<and> pt_kind p = k) rows)) =
      (if c' = c then sum_list (map ps_amount (filter (\<lambda>s. ps_kind s = k) ps)) else 0)"
    and "filter (\<lambda>p. pt_currency p = c') rows = (if c' = c then rows else [])"
  using assms by (induction rule: list_all2_induct) (auto simp: posting_of_def)

lemma spec_kinds:
  "sum_list (map ps_amount (filter (\<lambda>s. ps_kind s = acct_user_available) (build_postings inp))) = di_available inp"
  "sum_list (map ps_amount (filter (\<lambda>s. ps_kind s = acct_user_reserved) (build_postings inp))) = di_reserved inp"
  by (simp_all add: build_postings_def)

lemma recorded_totals:
  assumes books: "books_ok db" and tot: "totals_ok db" and w: "wallet_of db (di_user inp) (di_currency inp) = Some w"
    and b: "b = (wa_available w + di_available inp, wa_reserved w + di_reserved inp)"
    and rec: "recorded inp b md rows (wallet_after w b db) db'"
    and new: "\<And>j. j \<in> set (t_rows (vd_journals db')) \<Longrightarrow> t_seq (vd_journals db) < jo_id j \<Longrightarrow> journal_balanced db' j"
  shows "totals_ok db'"
proof -
  note r = rec [unfolded recorded_def Let_def, simplified]
  let ?j = "t_seq (vd_journals db) + 1"
  have posts: "t_rows (vd_postings db') = t_rows (vd_postings db) @ rows" and wal: "vd_wallets db' = vd_wallets (wallet_after w b db)"
    and specs: "list_all2 (posting_of ?j (di_currency inp)) rows (build_postings inp)"
    and jrows: "t_rows (vd_journals db') = t_rows (vd_journals db) @ [seal_journal (vd_now db) (new_journal inp md (vd_now db) ?j)]"
    using r by simp_all
  have wt: "tab_ok wa_id wa_key (vd_wallets db)" using books by (simp add: books_ok_def tables_ok_def)
  have wrow: "w \<in> set (t_rows (vd_wallets db))" "wa_currency w = di_currency inp"
    using w by (auto simp: wallet_of_row [OF wt] wa_key_def)
  have ws: "wallet_sum f c db' = wallet_sum f c (wallet_after w b db)" for f c by (simp add: wallet_sum_def wal)
  note sums = wallet_after_sum [OF wt wrow(1) b, unfolded wrow(2)]
  have kind: "posting_sum (\<lambda>p. pt_kind p = k) c db' = posting_sum (\<lambda>p. pt_kind p = k) c db +
      (if c = di_currency inp then sum_list (map ps_amount (filter (\<lambda>s. ps_kind s = k) (build_postings inp))) else 0)" for k c
    by (simp add: posting_sum_def tab_select_def posts kind_rows(1) [OF specs])
  have zero: "sum_list (map pt_amount rows) = 0"
  proof -
    have "journal_balanced db' (seal_journal (vd_now db) (new_journal inp md (vd_now db) ?j))"
      by (rule new) (simp_all add: jrows seal_journal_def new_journal_def)
    moreover have "filter (\<lambda>p. pt_journal p = ?j) (t_rows (vd_postings db)) = []"
      using books by (force simp: books_ok_def journals_ok_def list_all_iff filter_empty_conv)
    moreover have "filter (\<lambda>p. pt_journal p = ?j) rows = rows" using posting_journals [OF specs] by simp
    ultimately show ?thesis
      by (simp add: journal_balanced_def journal_postings_def tab_select_def posts seal_journal_def new_journal_def)
  qed
  have "posting_sum (\<lambda>_. True) c db' = posting_sum (\<lambda>_. True) c db" for c
    using zero by (simp add: posting_sum_def tab_select_def posts kind_rows(2) [OF specs])
  with tot show ?thesis by (simp add: totals_ok_def ws sums kind spec_kinds)
qed

lemma apply_delta_totals:
  assumes books: "books_ok db" and inv: "totals_ok db \<and> wallets_used db"
    and range: "in_int64 (di_available inp)" "in_int64 (di_reserved inp)"
    and run: "apply_delta_tx go_now inp db = (Inr e, db')" and bal: "no_new_unbalanced db db'"
  shows "totals_ok db' \<and> wallets_used db'"
proof -
  have ens: "totals_ok db1" "books_ok db1" "entries_of db1 u c = entries_of db u c" "vd_journals db1 = vd_journals db"
    "wallet_of db1 u c \<noteq> None \<Longrightarrow> entries_of db u c \<noteq> [] \<or> (u = di_user inp \<and> c = di_currency inp)"
    if e: "ensure_wallet (di_user inp) (di_currency inp) db = (Inr x, db1)" for x db1 u c
  proof -
    note rows = ensure_wallet_rows [OF e] and eff = ensure_wallet_effect [OF books e]
    show "totals_ok db1" using rows inv by (simp add: totals_ok_def posting_sum_def)
    show "books_ok db1" "vd_journals db1 = vd_journals db" using eff by blast+
    show "entries_of db1 u c = entries_of db u c" using eff by (simp add: entries_of_def)
    show "entries_of db u c \<noteq> [] \<or> (u = di_user inp \<and> c = di_currency inp)" if "wallet_of db1 u c \<noteq> None"
      using rows that inv unfolding wallets_used_def by blast
  qed
  show ?thesis
  proof (rule apply_delta_cases [OF books run])
    fix cur x
    assume e: "ensure_wallet (di_user inp) (di_currency inp) db = (Inr x, db')"
      and l: "ledger_by_key (di_currency inp) (di_user inp) (di_key inp) db = Some e"
    have "entries_of db (di_user inp) (di_currency inp) \<noteq> []"
      using l by (auto simp: ledger_by_key_def entries_of_def tab_select_def filter_empty_conv lr_ukey_def
          split: option.splits dest!: tab_find_Some)
    then have "wallets_used db'" unfolding wallets_used_def ens(3) [OF e] using ens(5) [OF e] by blast
    with ens(1) [OF e] show ?thesis by blast
  next
    fix cur x db1 w mb b md rows
    assume e: "ensure_wallet (di_user inp) (di_currency inp) db = (Inr x, db1)"
      and w: "wallet_of db1 (di_user inp) (di_currency inp) = Some w" and nb: "new_balances inp w mb = Inr b"
      and rec: "recorded inp b md rows (wallet_after w b db1) db'"
    note en = ens [OF e]
    have wt: "tab_ok wa_id wa_key (vd_wallets db1)" using en(2) by (simp add: books_ok_def tables_ok_def)
    have "wallet_row_ok db1 w" using en(2) w by (simp add: books_ok_def list_all_iff wallet_of_row [OF wt])
    then have b: "b = (wa_available w + di_available inp, wa_reserved w + di_reserved inp)"
      using new_balances_spec [OF nb _ _ range] by (simp add: wallet_row_ok_def)
    have new: "\<And>j. j \<in> set (t_rows (vd_journals db')) \<Longrightarrow> t_seq (vd_journals db1) < jo_id j \<Longrightarrow> journal_balanced db' j"
      using bal en(4) by (auto simp: no_new_unbalanced_def)
    have "totals_ok db'" by (rule recorded_totals [OF en(2,1) w b rec new])
    moreover have "wallets_used db'"
      unfolding wallets_used_def recorded_sel(1,3) [OF rec] wallet_after_lookup [OF wt w] wallet_after_sel(8) en(3)
      using en(5) by auto
    ultimately show ?thesis by blast
  qed
qed

interpretation totals: book_invariant "\<lambda>db. totals_ok db \<and> wallets_used db"
proof
  show "(totals_ok db' \<and> wallets_used db') = (totals_ok db \<and> wallets_used db)" if "same_books db db'" for db db'
    using that by (simp add: same_books_def totals_ok_def wallets_used_def wallet_sum_def posting_sum_def wallet_of_def entries_of_def)
qed (use apply_delta_totals in blast)

end
