(* ===== verification/VC_Service.thy ===== *)
theory VC_Service
  imports VC_Queries
begin

text \<open>
  \<open>backend/internal/service/virtual_currency.go\<close> over the repository: normalisation and validation of
  every request, the fingerprints, and the hold cleanup service. A service with its repository set
  is modelled; \<open>digest\<close> is the SHA-256 of a payload's JSON text and \<open>now\<close> a reading of the clock.
\<close>

section \<open>Requests\<close>

record vc_adjust_request =
  aq_code :: string
  aq_user :: int64
  aq_group :: int64
  aq_amount :: int64
  aq_type :: string
  aq_source_type :: string
  aq_source_id :: string
  aq_key :: string
  aq_reason :: string
  aq_metadata :: metadata
  aq_created_by :: "int64 option"
  aq_require_access :: bool

record vc_reserve_request =
  rq_code :: string
  rq_user :: int64
  rq_group :: int64
  rq_amount :: int64
  rq_expires_at :: gtime
  rq_source_type :: string
  rq_source_id :: string
  rq_key :: string
  rq_reason :: string
  rq_metadata :: metadata

record vc_spend_request =
  sq_code :: string
  sq_user :: int64
  sq_group :: int64
  sq_amount :: int64
  sq_source_type :: string
  sq_source_id :: string
  sq_key :: string
  sq_reason :: string
  sq_metadata :: metadata

record vc_settle_request =
  tq_hold :: int64
  tq_user :: int64
  tq_source_type :: string
  tq_source_id :: string
  tq_key :: string
  tq_reason :: string
  tq_metadata :: metadata

section \<open>Currencies and policies\<close>

definition check_metadata :: "metadata \<Rightarrow> unit vc_op" where
  "check_metadata m = (case validate_metadata m of Some e \<Rightarrow> vc_fail e | None \<Rightarrow> vc_return ())"

definition svc_get_currency :: "int64 \<Rightarrow> vc_currency vc_op" where
  "svc_get_currency i = (if i \<le> 0 then vc_fail err_vc_invalid else get_currency_by_id i)"

definition svc_get_currency_by_code :: "string \<Rightarrow> vc_currency vc_op" where
  "svc_get_currency_by_code code = (let code = to_lower (trim_space code) in
     if \<not> code_pattern code then vc_fail err_vc_invalid else get_currency_by_code code)"

definition norm_create :: "vc_create_input \<Rightarrow> vc_create_input" where
  "norm_create inp = inp\<lparr>ci_code := to_lower (trim_space (ci_code inp)), ci_name := trim_space (ci_name inp),
     ci_symbol := trim_space (ci_symbol inp), ci_description := trim_space (ci_description inp)\<rparr>"

definition svc_create_currency :: "vc_create_input \<Rightarrow> vc_currency vc_op" where
  "svc_create_currency inp0 =
     (let inp = norm_create inp0 in
      if \<not> code_pattern (ci_code inp) \<or> ci_name inp = [] \<or> rune_count (ci_name inp) > 64 then vc_fail err_vc_invalid
      else if rune_count (ci_symbol inp) > 16 \<or> rune_count (ci_description inp) > 2000 \<or> ci_scale inp < 0 \<or> ci_scale inp > 8
        then vc_fail err_vc_invalid
      else (let inp = inp\<lparr>ci_metadata := default_metadata (ci_metadata inp)\<rparr> in
        vc_bind (check_metadata (ci_metadata inp)) (\<lambda>_. repo_create_currency inp)))"

definition bad_field :: "bool \<Rightarrow> nat \<Rightarrow> string option \<Rightarrow> bool" where
  "bad_field required n f = (case f of None \<Rightarrow> False | Some v \<Rightarrow> (required \<and> v = []) \<or> rune_count v > n)"

definition norm_update :: "vc_update_input \<Rightarrow> vc_update_input" where
  "norm_update inp = inp\<lparr>ui_name := map_option trim_space (ui_name inp), ui_symbol := map_option trim_space (ui_symbol inp),
     ui_description := map_option trim_space (ui_description inp)\<rparr>"

definition svc_update_currency :: "int64 \<Rightarrow> vc_update_input \<Rightarrow> vc_currency vc_op" where
  "svc_update_currency i inp0 =
     (let inp = norm_update inp0 in
      if i \<le> 0 \<or> (ui_name inp0 = None \<and> ui_symbol inp0 = None \<and> ui_description inp0 = None \<and> ui_metadata inp0 = NilMap)
        then vc_fail err_vc_invalid
      else if bad_field True 64 (ui_name inp) then vc_fail err_vc_invalid
      else if bad_field False 16 (ui_symbol inp) then vc_fail err_vc_invalid
      else if bad_field False 2000 (ui_description inp) then vc_fail err_vc_invalid
      else vc_bind (if ui_metadata inp \<noteq> NilMap then check_metadata (ui_metadata inp) else vc_return ())
        (\<lambda>_. repo_update_currency i inp))"

definition svc_set_status :: "int64 \<Rightarrow> string \<Rightarrow> vc_currency vc_op" where
  "svc_set_status i status0 = (let status = to_lower (trim_space status0) in
     if i \<le> 0 \<or> (status \<noteq> vc_active \<and> status \<noteq> vc_disabled) then vc_fail err_vc_invalid else repo_set_status i status)"

definition svc_list_policies :: "int64 \<Rightarrow> vc_policy list vc_op" where
  "svc_list_policies currency = (if currency \<le> 0 then vc_fail err_vc_invalid else list_group_policies currency)"

definition svc_validate_grant_policy :: "int64 \<Rightarrow> int64 \<Rightarrow> vc_currency vc_op" where
  "svc_validate_grant_policy currency grp =
     (if currency \<le> 0 \<or> grp \<le> 0 then vc_fail err_vc_invalid
      else vc_bind (svc_get_currency currency) (\<lambda>c.
        if cu_status c \<noteq> vc_active then vc_fail err_vc_disabled
        else vc_bind (svc_list_policies currency) (\<lambda>ps.
          if list_ex (\<lambda>p. po_group p = grp \<and> po_enabled p \<and> po_can_earn p) ps then vc_return c
          else vc_fail err_vc_group_denied)))"

definition svc_upsert_policy :: "vc_policy_input \<Rightarrow> vc_policy vc_op" where
  "svc_upsert_policy inp =
     (if pi_currency inp \<le> 0 \<or> pi_group inp \<le> 0 \<or>
         (case pi_max inp of None \<Rightarrow> False | Some m \<Rightarrow> m \<le> 0 \<or> m > max_mutation_units) then vc_fail err_vc_invalid
      else (let inp = inp\<lparr>pi_metadata := default_metadata (pi_metadata inp)\<rparr> in
        vc_bind (check_metadata (pi_metadata inp)) (\<lambda>_. repo_upsert_policy inp)))"

definition svc_enable_for_all :: "int64 \<Rightarrow> vc_policy list vc_op" where
  "svc_enable_for_all currency =
     (if currency \<le> 0 then vc_fail err_vc_invalid
      else vc_bind (svc_get_currency currency) (\<lambda>c.
        if cu_status c \<noteq> vc_active then vc_fail err_vc_disabled else repo_enable_for_all currency))"

definition svc_delete_policy :: "int64 \<Rightarrow> int64 \<Rightarrow> unit vc_op" where
  "svc_delete_policy currency grp =
     (if currency \<le> 0 \<or> grp \<le> 0 then vc_fail err_vc_invalid else repo_delete_policy currency grp)"

section \<open>Mutations of balances\<close>

definition bad_texts :: "string \<Rightarrow> string \<Rightarrow> string \<Rightarrow> bool" where
  "bad_texts src src_id reason \<longleftrightarrow> \<not> source_pattern src \<or> rune_count src_id > max_source_id_runes \<or>
     rune_count reason > max_reason_runes"

definition resolve_admin_group :: "int64 \<Rightarrow> int64 \<Rightarrow> bool \<Rightarrow> int64 vc_op" where
  "resolve_admin_group currency user require_earn =
     vc_bind (repo_list_user_wallets user) (\<lambda>wallets.
     vc_bind (list_group_policies currency) (\<lambda>policies.
       (let accessible = (case find (\<lambda>w. wl_currency w = currency) wallets of None \<Rightarrow> [] | Some w \<Rightarrow> wl_groups w);
            selected = foldl (\<lambda>sel p. if \<not> po_enabled p \<or> (require_earn \<and> \<not> po_can_earn p) then sel
               else if po_group p \<notin> set accessible then sel
               else if sel = 0 \<or> po_group p < sel then po_group p else sel) 0 policies
        in if selected = 0 then vc_fail err_vc_group_denied else vc_return selected)))"

definition norm_adjust :: "vc_adjust_request \<Rightarrow> vc_adjust_request" where
  "norm_adjust q = q\<lparr>aq_code := to_lower (trim_space (aq_code q)), aq_type := to_lower (trim_space (aq_type q)),
     aq_source_type := to_lower (trim_space (aq_source_type q)), aq_source_id := trim_space (aq_source_id q),
     aq_key := trim_space (aq_key q), aq_reason := trim_space (aq_reason q)\<rparr>"

definition adjust_type :: "vc_adjust_request \<Rightarrow> string" where
  "adjust_type q = (if aq_type q = [] then (if aq_amount q > 0 then entry_grant else entry_adjustment) else aq_type q)"

definition adjust_ok :: "vc_adjust_request \<Rightarrow> bool" where
  "adjust_ok q \<longleftrightarrow> \<not> (aq_user q \<le> 0 \<or> aq_group q < 0 \<or> aq_code q = [] \<or> aq_amount q = 0 \<or> aq_source_type q = [] \<or>
       aq_key q = [] \<or> rune_count (aq_key q) > max_source_id_runes) \<and>
     \<not> (aq_group q = 0 \<and> aq_source_type q \<noteq> source_admin) \<and>
     \<not> (aq_amount q > max_mutation_units \<or> aq_amount q < - max_mutation_units) \<and>
     (if adjust_type q \<in> {entry_grant, entry_refund} then aq_amount q > 0 else adjust_type q = entry_adjustment) \<and>
     \<not> bad_texts (aq_source_type q) (aq_source_id q) (aq_reason q)"

definition adjust_delta :: "(fp_payload \<Rightarrow> string) \<Rightarrow> vc_adjust_request \<Rightarrow> int64 \<Rightarrow> int64 \<Rightarrow> vc_delta_input" where
  "adjust_delta digest q currency grp = \<lparr>di_currency = currency, di_user = aq_user q, di_group = grp, di_delta = aq_amount q,
     di_available = aq_amount q, di_reserved = 0, di_type = adjust_type q, di_source_type = aq_source_type q,
     di_source_id = aq_source_id q, di_key = aq_key q,
     di_fingerprint = digest (MutationPayload currency (aq_user q) grp (aq_amount q) 0 (adjust_type q) (aq_source_type q)
       (aq_source_id q) (aq_reason q) (aq_metadata q)),
     di_reason = aq_reason q, di_metadata = aq_metadata q, di_created_by = aq_created_by q,
     di_require_access = (aq_require_access q \<or> (aq_source_type q = source_admin \<and> aq_amount q > 0)),
     di_require_spend = False, di_require_earn = (aq_amount q > 0), di_settlement = False\<rparr>"

definition svc_adjust :: "(fp_payload \<Rightarrow> string) \<Rightarrow> gtime \<Rightarrow> vc_adjust_request \<Rightarrow> vc_entry vc_op" where
  "svc_adjust digest now q0 =
     (let q = (norm_adjust q0)\<lparr>aq_metadata := default_metadata (aq_metadata q0)\<rparr> in
      if \<not> adjust_ok q then vc_fail err_vc_invalid
      else vc_bind (check_metadata (aq_metadata q)) (\<lambda>_.
        vc_bind (get_currency_by_code (aq_code q)) (\<lambda>c.
        vc_bind (if aq_group q = 0 then resolve_admin_group (cu_id c) (aq_user q) (aq_amount q > 0) else vc_return (aq_group q)) (\<lambda>grp.
        apply_currency_delta now (adjust_delta digest q (cu_id c) grp)))))"

definition svc_grant :: "(fp_payload \<Rightarrow> string) \<Rightarrow> gtime \<Rightarrow> vc_adjust_request \<Rightarrow> vc_entry vc_op" where
  "svc_grant digest now q = (if aq_amount q \<le> 0 then vc_fail err_vc_invalid
     else svc_adjust digest now (q\<lparr>aq_type := entry_grant\<rparr>))"

definition svc_grant_by_id :: "(fp_payload \<Rightarrow> string) \<Rightarrow> gtime \<Rightarrow> int64 \<Rightarrow> vc_adjust_request \<Rightarrow> vc_entry vc_op" where
  "svc_grant_by_id digest now currency q = vc_bind (svc_get_currency currency) (\<lambda>c.
     svc_grant digest now (q\<lparr>aq_code := cu_code c\<rparr>))"

definition norm_spend :: "vc_spend_request \<Rightarrow> vc_spend_request" where
  "norm_spend q = q\<lparr>sq_code := to_lower (trim_space (sq_code q)), sq_source_type := to_lower (trim_space (sq_source_type q)),
     sq_source_id := trim_space (sq_source_id q), sq_key := trim_space (sq_key q), sq_reason := trim_space (sq_reason q),
     sq_metadata := default_metadata (sq_metadata q)\<rparr>"

definition spend_ok :: "vc_spend_request \<Rightarrow> bool" where
  "spend_ok q \<longleftrightarrow> \<not> (sq_user q \<le> 0 \<or> sq_group q \<le> 0 \<or> sq_amount q \<le> 0 \<or> sq_amount q > max_mutation_units \<or> sq_code q = [] \<or>
       sq_source_type q = [] \<or> sq_key q = [] \<or> rune_count (sq_key q) > max_source_id_runes) \<and>
     \<not> bad_texts (sq_source_type q) (sq_source_id q) (sq_reason q)"

definition spend_delta :: "(fp_payload \<Rightarrow> string) \<Rightarrow> vc_spend_request \<Rightarrow> int64 \<Rightarrow> vc_delta_input" where
  "spend_delta digest q currency = (let delta = wrap64 (- sq_amount q) in
     \<lparr>di_currency = currency, di_user = sq_user q, di_group = sq_group q, di_delta = delta, di_available = delta, di_reserved = 0,
      di_type = entry_spend, di_source_type = sq_source_type q, di_source_id = sq_source_id q, di_key = sq_key q,
      di_fingerprint = digest (MutationPayload currency (sq_user q) (sq_group q) delta 0 entry_spend (sq_source_type q)
        (sq_source_id q) (sq_reason q) (sq_metadata q)),
      di_reason = sq_reason q, di_metadata = sq_metadata q, di_created_by = None,
      di_require_access = True, di_require_spend = True, di_require_earn = False, di_settlement = False\<rparr>)"

definition svc_spend :: "(fp_payload \<Rightarrow> string) \<Rightarrow> gtime \<Rightarrow> vc_spend_request \<Rightarrow> vc_entry vc_op" where
  "svc_spend digest now q0 =
     (let q = norm_spend q0 in
      if \<not> spend_ok q then vc_fail err_vc_invalid
      else vc_bind (check_metadata (sq_metadata q)) (\<lambda>_.
        vc_bind (get_currency_by_code (sq_code q)) (\<lambda>c.
        apply_currency_delta now (spend_delta digest q (cu_id c)))))"

section \<open>Holds\<close>

definition hold_idempotency_key :: "string \<Rightarrow> string \<Rightarrow> go_error + string" where
  "hold_idempotency_key action key0 =
     (let key = trim_space key0; result = ''hold.'' @ action @ '':'' @ key in
      if key = [] \<or> rune_count key > max_hold_key_runes then Inl err_vc_invalid
      else if rune_count result > max_source_id_runes then Inl err_vc_invalid else Inr result)"

definition norm_reserve :: "vc_reserve_request \<Rightarrow> vc_reserve_request" where
  "norm_reserve q = q\<lparr>rq_code := to_lower (trim_space (rq_code q)), rq_source_type := to_lower (trim_space (rq_source_type q)),
     rq_source_id := trim_space (rq_source_id q), rq_reason := trim_space (rq_reason q),
     rq_metadata := default_metadata (rq_metadata q)\<rparr>"

definition reserve_ok :: "vc_reserve_request \<Rightarrow> bool" where
  "reserve_ok q \<longleftrightarrow> \<not> (rq_user q \<le> 0 \<or> rq_group q \<le> 0 \<or> rq_amount q \<le> 0 \<or> rq_amount q > max_mutation_units \<or> rq_code q = []) \<and>
     \<not> bad_texts (rq_source_type q) (rq_source_id q) (rq_reason q)"

text \<open>The expiry of a request without one is fifteen minutes after the reading of the clock.\<close>

definition reserve_expiry :: "gtime \<Rightarrow> vc_reserve_request \<Rightarrow> gtime" where
  "reserve_expiry now q = (if is_zero_time (rq_expires_at q) then t_add now (15 * minute) else rq_expires_at q)"

definition reserve_input :: "(fp_payload \<Rightarrow> string) \<Rightarrow> vc_reserve_request \<Rightarrow> string \<Rightarrow> gtime \<Rightarrow> int64 \<Rightarrow> vc_reserve_input" where
  "reserve_input digest q key expires currency =
     \<lparr>ri_currency = currency, ri_user = rq_user q, ri_group = rq_group q, ri_amount = rq_amount q, ri_expires_at = expires,
      ri_source_type = rq_source_type q, ri_source_id = rq_source_id q, ri_key = key,
      ri_fingerprint = digest (HoldPayload currency (rq_user q) (rq_group q) (rq_amount q) (unix_nano expires) entry_reserve
        (rq_source_type q) (rq_source_id q) (rq_reason q) (rq_metadata q)),
      ri_reason = rq_reason q, ri_metadata = rq_metadata q\<rparr>"

definition svc_reserve_hold :: "(fp_payload \<Rightarrow> string) \<Rightarrow> gtime \<Rightarrow> gtime \<Rightarrow> vc_reserve_request \<Rightarrow> (vc_hold \<times> vc_entry) vc_op" where
  "svc_reserve_hold digest now repo_now q0 =
     (let q = norm_reserve q0; expires = reserve_expiry now q in
      if \<not> reserve_ok q then vc_fail err_vc_invalid
      else vc_bind (vc_lift (hold_idempotency_key ''reserve'' (rq_key q))) (\<lambda>key.
        vc_bind (check_metadata (rq_metadata q)) (\<lambda>_.
        if \<not> t_after expires now \<or> t_after expires (t_add now max_hold_ttl) then vc_fail err_vc_invalid
        else vc_bind (get_currency_by_code (rq_code q)) (\<lambda>c.
          reserve_hold repo_now (reserve_input digest q key expires (cu_id c))))))"

definition norm_settle :: "vc_settle_request \<Rightarrow> vc_settle_request" where
  "norm_settle q = q\<lparr>tq_source_type := to_lower (trim_space (tq_source_type q)), tq_source_id := trim_space (tq_source_id q),
     tq_reason := trim_space (tq_reason q), tq_metadata := default_metadata (tq_metadata q)\<rparr>"

definition settle_input :: "(fp_payload \<Rightarrow> string) \<Rightarrow> vc_settle_request \<Rightarrow> string \<Rightarrow> string \<Rightarrow> vc_hold_row \<Rightarrow> vc_settle_input" where
  "settle_input digest q action key h =
     \<lparr>si_hold = tq_hold q, si_user = tq_user q, si_action = action, si_source_type = tq_source_type q,
      si_source_id = tq_source_id q, si_key = key,
      si_fingerprint = hold_fingerprint digest h action (tq_source_type q) (tq_source_id q) (tq_reason q) (tq_metadata q),
      si_reason = tq_reason q, si_metadata = tq_metadata q\<rparr>"

definition svc_settle_hold :: "(fp_payload \<Rightarrow> string) \<Rightarrow> gtime \<Rightarrow> vc_settle_request \<Rightarrow> string \<Rightarrow> (vc_hold \<times> vc_entry) vc_op" where
  "svc_settle_hold digest now q0 action =
     (let q = norm_settle q0 in
      if tq_user q \<le> 0 \<or> tq_hold q \<le> 0 \<or> bad_texts (tq_source_type q) (tq_source_id q) (tq_reason q) then vc_fail err_vc_invalid
      else vc_bind (vc_lift (hold_idempotency_key action (tq_key q))) (\<lambda>key.
        vc_bind (check_metadata (tq_metadata q)) (\<lambda>_.
        vc_bind (get_hold (tq_user q) (tq_hold q)) (\<lambda>hold.
        (let inp = settle_input digest q action key (hd_row hold) in
         if action = entry_commit then commit_hold now inp
         else if action = entry_release then release_hold now inp else vc_fail err_vc_invalid)))))"

definition svc_commit_hold :: "(fp_payload \<Rightarrow> string) \<Rightarrow> gtime \<Rightarrow> vc_settle_request \<Rightarrow> (vc_hold \<times> vc_entry) vc_op" where
  "svc_commit_hold digest now q = svc_settle_hold digest now q entry_commit"
definition svc_release_hold :: "(fp_payload \<Rightarrow> string) \<Rightarrow> gtime \<Rightarrow> vc_settle_request \<Rightarrow> (vc_hold \<times> vc_entry) vc_op" where
  "svc_release_hold digest now q = svc_settle_hold digest now q entry_release"

definition svc_expire_holds :: "(fp_payload \<Rightarrow> string) \<Rightarrow> gtime \<Rightarrow> int64 \<Rightarrow> int \<Rightarrow> vc_db \<Rightarrow> (go_error option \<times> int64) \<times> vc_db" where
  "svc_expire_holds digest now currency limit0 db =
     (let limit = (if limit0 < 1 then 100 else limit0) in
      if currency < 0 \<or> limit > 500 then ((Some err_vc_invalid, 0), db)
      else repo_expire_holds now digest currency limit db)"

section \<open>Reads\<close>

definition svc_get_hold :: "int64 \<Rightarrow> int64 \<Rightarrow> vc_hold vc_op" where
  "svc_get_hold user hold = (if user \<le> 0 \<or> hold \<le> 0 then vc_fail err_vc_invalid else get_hold user hold)"

definition is_hold_status :: "string \<Rightarrow> bool" where
  "is_hold_status s \<longleftrightarrow> s \<in> {hold_active, hold_committed, hold_released, hold_expired}"

definition norm_page :: "vc_query \<Rightarrow> vc_query" where
  "norm_page q = q\<lparr>qu_page := fst (page_of q), qu_size := snd (page_of q)\<rparr>"

definition svc_list_holds :: "vc_query \<Rightarrow> (vc_hold list \<times> vc_page) vc_op" where
  "svc_list_holds q0 =
     (let q = q0\<lparr>qu_code := to_lower (trim_space (qu_code q0)), qu_status := to_lower (trim_space (qu_status q0))\<rparr> in
      if qu_user q \<le> 0 \<or> (qu_status q \<noteq> [] \<and> \<not> is_hold_status (qu_status q)) then vc_fail err_vc_invalid
      else repo_list_holds (norm_page q))"

definition svc_list_user_wallets :: "int64 \<Rightarrow> vc_wallet list vc_op" where
  "svc_list_user_wallets user = (if user \<le> 0 then vc_fail err_vc_invalid else repo_list_user_wallets user)"

definition svc_list_ledger :: "vc_query \<Rightarrow> (vc_entry list \<times> vc_page) vc_op" where
  "svc_list_ledger q0 = (let q = q0\<lparr>qu_code := to_lower (trim_space (qu_code q0))\<rparr> in
     if qu_user q \<le> 0 then vc_fail err_vc_invalid else repo_list_ledger (norm_page q))"

definition svc_reconcile :: "gtime \<Rightarrow> int64 \<Rightarrow> int \<Rightarrow> vc_report vc_op" where
  "svc_reconcile now currency limit0 = (let limit = (if limit0 < 1 then 20 else limit0) in
     if currency \<le> 0 \<or> limit > 100 then vc_fail err_vc_invalid else repo_reconcile now currency limit)"

text \<open>
  \<open>FormatUnits\<close>, a nil currency being \<open>None\<close>. The magnitude and the powers of ten are \<open>uint64\<close>; the
  CHECK constraint keeps the scale between 0 and 8.
\<close>

definition wrap_u64 :: "int \<Rightarrow> int" where "wrap_u64 x = x mod 18446744073709551616"

definition units_magnitude :: "int64 \<Rightarrow> int" where
  "units_magnitude units = (if units < 0 then wrap_u64 (wrap_u64 (wrap64 (- wrap64 (units + 1))) + 1) else wrap_u64 units)"

fun scale_base :: "nat \<Rightarrow> int" where
  "scale_base 0 = 1"
| "scale_base (Suc n) = wrap_u64 (scale_base n * 10)"

definition format_units :: "int option \<Rightarrow> int64 \<Rightarrow> string" where
  "format_units scale units = (case scale of None \<Rightarrow> itoa units | Some s \<Rightarrow>
     if s = 0 then itoa units
     else (let m = units_magnitude units; base = scale_base (nat s);
               result = itoa (m div base) @ ''.'' @ show_nat_pad (nat s) (nat (m mod base))
           in if units < 0 then ''-'' @ result else result))"

section \<open>The cleanup service\<close>

record vc_cleanup =
  vcl_interval :: gduration
  vcl_batch :: int

definition default_cleanup_interval :: gduration where "default_cleanup_interval = minute"
definition default_cleanup_batch :: int where "default_cleanup_batch = 500"

definition new_vc_cleanup :: "gduration \<Rightarrow> int \<Rightarrow> vc_cleanup" where
  "new_vc_cleanup interval batch = \<lparr>vcl_interval = (if interval \<le> 0 then default_cleanup_interval else interval),
     vcl_batch = (if batch < 1 \<or> batch > 500 then default_cleanup_batch else batch)\<rparr>"

definition vc_cleanup_once :: "vc_cleanup \<Rightarrow> (fp_payload \<Rightarrow> string) \<Rightarrow> gtime \<Rightarrow> vc_db \<Rightarrow> vc_db" where
  "vc_cleanup_once s digest now db = snd (svc_expire_holds digest now 0 (vcl_batch s) db)"

text \<open>\<open>runLoop\<close>: one round at the start and one per tick until the stop; the clock of each round is given.\<close>

fun vc_cleanup_loop :: "vc_cleanup \<Rightarrow> (fp_payload \<Rightarrow> string) \<Rightarrow> gtime list \<Rightarrow> vc_db \<Rightarrow> vc_db" where
  "vc_cleanup_loop s digest [] db = db"
| "vc_cleanup_loop s digest (now # ticks) db = vc_cleanup_loop s digest ticks (vc_cleanup_once s digest now db)"

end
