(* ===== verification/VC_System.thy ===== *)
theory VC_System
  imports VC_Totals VC_Service
begin

text \<open>
  The invariant of the whole database, \<open>vc_inv\<close>, and its preservation by the catalogue statements and
  by the three transactions that write the books.
\<close>

section \<open>The invariant\<close>

fun is_reserve :: "fp_payload \<Rightarrow> bool" where
  "is_reserve (HoldPayload _ _ _ _ _ action _ _ _ _) = (action = entry_reserve)"
| "is_reserve (MutationPayload _ _ _ _ _ _ _ _ _ _) = False"

text \<open>
  What the development needs of SHA-256 over JSON: a reservation and another request never have the
  same fingerprint.
\<close>

definition kinded :: "(fp_payload \<Rightarrow> string) \<Rightarrow> bool" where
  "kinded digest \<longleftrightarrow> (\<forall>p q. digest p = digest q \<longrightarrow> is_reserve p = is_reserve q)"

definition reserve_print :: "(fp_payload \<Rightarrow> string) \<Rightarrow> string \<Rightarrow> bool" where
  "reserve_print digest f \<longleftrightarrow> (\<exists>p. is_reserve p \<and> digest p = f)"

lemma other_print: "kinded digest \<Longrightarrow> \<not> is_reserve p \<Longrightarrow> \<not> reserve_print digest (digest p)"
  unfolding kinded_def reserve_print_def by blast

definition reserve_linked :: "(fp_payload \<Rightarrow> string) \<Rightarrow> vc_db \<Rightarrow> bool" where
  "reserve_linked digest db \<longleftrightarrow> (\<forall>r \<in> set (t_rows (vd_ledger db)). reserve_print digest (lr_fingerprint r) \<longrightarrow>
     lr_ukey r \<in> ho_ukey ` set (t_rows (vd_holds db)))"

definition vc_inv :: "(fp_payload \<Rightarrow> string) \<Rightarrow> vc_db \<Rightarrow> bool" where
  "vc_inv digest db \<longleftrightarrow> vc_ok db \<and> (totals_ok db \<and> wallets_used db) \<and> reserve_linked digest db"

lemma vc_inv_sel:
  "vc_inv digest db \<Longrightarrow> vc_ok db" "vc_inv digest db \<Longrightarrow> books_ok db" "vc_inv digest db \<Longrightarrow> holds_ok db"
  "vc_inv digest db \<Longrightarrow> reserve_linked digest db" "vc_inv digest db \<Longrightarrow> totals_ok db \<and> wallets_used db"
  "vc_inv digest db \<Longrightarrow> tab_ok ho_id ho_ukey (vd_holds db)"
  by (simp_all add: vc_inv_def vc_ok_def books_ok_def tables_ok_def)

text \<open>A step that leaves the books alone.\<close>

definition catalog_only :: "vc_db \<Rightarrow> vc_db \<Rightarrow> bool" where
  "catalog_only db db' \<longleftrightarrow> same_books db db' \<and> vd_holds db' = vd_holds db \<and>
     (\<forall>i. currency_exists db i \<longrightarrow> currency_exists db' i) \<and>
     (tab_ok cu_id (\<lambda>c. to_lower (cu_code c)) (vd_currencies db) \<longrightarrow> tab_ok cu_id (\<lambda>c. to_lower (cu_code c)) (vd_currencies db')) \<and>
     (tab_ok po_id po_key (vd_policies db) \<longrightarrow> tab_ok po_id po_key (vd_policies db'))"

lemma catalog_only_refl [simp]: "catalog_only db db" by (simp add: catalog_only_def same_books_def)

lemma catalog_only_trans: "catalog_only a b \<Longrightarrow> catalog_only b c \<Longrightarrow> catalog_only a c"
  by (auto simp: catalog_only_def same_books_def)

lemma catalog_only_inv:
  assumes inv: "vc_inv digest db" and cat: "catalog_only db db'"
  shows "vc_inv digest db'"
proof -
  have same: "vd_wallets db' = vd_wallets db" "vd_ledger db' = vd_ledger db" "vd_journals db' = vd_journals db"
    "vd_postings db' = vd_postings db" "vd_holds db' = vd_holds db" and cur: "\<And>i. currency_exists db i \<Longrightarrow> currency_exists db' i"
    using cat by (auto simp: catalog_only_def same_books_def)
  have bal: "journal_balanced db' = journal_balanced db" by (simp add: fun_eq_iff journal_balanced_def journal_postings_def same)
  have "books_ok db'"
    using vc_inv_sel(2) [OF inv] cat cur
    by (auto simp: books_ok_def tables_ok_def account_ok_def account_defs journals_ok_def same bal catalog_only_def
        list_all_iff wallet_row_ok_def)
  moreover have "holds_ok db'"
    using vc_inv_sel(3) [OF inv] cur by (auto simp: holds_ok_def held_def reserved_of_def wallet_of_def same list_all_iff)
  moreover have "totals_ok db' \<and> wallets_used db'"
    using totals.reads [of db db'] vc_inv_sel(5) [OF inv] by (simp add: same_books_def same)
  ultimately show ?thesis using vc_inv_sel(4) [OF inv] by (simp add: vc_inv_def vc_ok_def reserve_linked_def same)
qed

lemma fault_only: "catalog_only db (without_fault db)"
  by (simp add: catalog_only_def same_books_def currency_exists_def)

section \<open>Currencies and policies\<close>

lemma find_currency_catalog: "find_currency P db = (Inr x, db1) \<Longrightarrow> catalog_only db db1"
  by (auto simp: find_currency_def split: option.splits)

lemma currency_iff: "currency_exists db i \<longleftrightarrow> i \<in> cu_id ` set (t_rows (vd_currencies db))"
  by (auto simp: currency_exists_def tab_find_None)

lemma update_currency_catalog:
  assumes "update_currency_row i mk db = (Inr x, db1)"
  shows "catalog_only db db1"
proof -
  have db1: "db1 = db\<lparr>vd_currencies := snd (tab_update (\<lambda>c. cu_id c = i) (set_currency (mk db)) (vd_currencies db))\<rparr>"
    using assms by (auto simp: update_currency_row_def Let_def split: option.splits if_splits)
  have "map cu_id (t_rows (vd_currencies db1)) = map cu_id (t_rows (vd_currencies db))"
    by (simp add: db1 cut.upd_rid)
  then have "cu_id ` set (t_rows (vd_currencies db1)) = cu_id ` set (t_rows (vd_currencies db))" by (metis set_map)
  then have "currency_exists db j \<Longrightarrow> currency_exists db1 j" for j
    by (simp add: currency_iff)
  moreover have "tab_ok cu_id (\<lambda>c. to_lower (cu_code c)) (vd_currencies db) \<Longrightarrow> tab_ok cu_id (\<lambda>c. to_lower (cu_code c)) (vd_currencies db1)"
    using cut.update_ok by (simp add: db1)
  ultimately show ?thesis by (simp add: catalog_only_def same_books_def db1)
qed

lemma create_catalog:
  assumes "(let mk = (\<lambda>i. \<lparr>cu_id = i, cu_code = ci_code inp, cu_name = ci_name inp, cu_symbol = ci_symbol inp,
         cu_description = ci_description inp, cu_scale = ci_scale inp, cu_status = vc_active,
         cu_metadata = decode_metadata md, cu_created_by = ci_created_by inp,
         cu_created_at = vd_now db, cu_updated_at = vd_now db\<rparr>)
     in if \<not> currency_check (mk 0) then (Inl err_check, db)
     else if tab_find (\<lambda>c. to_lower (cu_code c) = to_lower (ci_code inp)) (vd_currencies db) \<noteq> None then (Inl err_vc_code_exists, db)
     else if \<not> user_exists db (ci_created_by inp) then (Inl err_foreign_key, db)
     else case tab_insert mk (vd_currencies db) of (i, t') \<Rightarrow> (Inr (mk i), db\<lparr>vd_currencies := t'\<rparr>)) = (Inr x, db1)"
  shows "catalog_only db db1"
proof -
  define mk where "mk i = \<lparr>cu_id = i, cu_code = ci_code inp, cu_name = ci_name inp, cu_symbol = ci_symbol inp,
      cu_description = ci_description inp, cu_scale = ci_scale inp, cu_status = vc_active,
      cu_metadata = decode_metadata md, cu_created_by = ci_created_by inp,
      cu_created_at = vd_now db, cu_updated_at = vd_now db\<rparr>" for i
  from assms have none: "tab_find (\<lambda>c. to_lower (cu_code c) = to_lower (ci_code inp)) (vd_currencies db) = None"
    and db1: "db1 = db\<lparr>vd_currencies := snd (tab_insert mk (vd_currencies db))\<rparr>"
    by (auto simp: Let_def tab_insert_def mk_def split: if_splits)
  have "currency_exists db i \<Longrightarrow> currency_exists db1 i" for i
    by (auto simp: currency_exists_def db1 tab_find_insert split: option.splits)
  moreover have "tab_ok cu_id (\<lambda>c. to_lower (cu_code c)) (vd_currencies db) \<Longrightarrow> tab_ok cu_id (\<lambda>c. to_lower (cu_code c)) (vd_currencies db1)"
    using cut.insert_ok [of "vd_currencies db" mk "to_lower (ci_code inp)"] none by (simp add: db1 mk_def)
  ultimately show ?thesis by (simp add: catalog_only_def same_books_def db1)
qed

lemma policies_only:
  assumes "tab_ok po_id po_key (vd_policies db) \<Longrightarrow> tab_ok po_id po_key t"
  shows "catalog_only db (db\<lparr>vd_policies := t\<rparr>)"
  using assms by (simp add: catalog_only_def same_books_def currency_exists_def)

lemma upsert_catalog:
  assumes run: "upsert_policy_row mk f db = (Inr x, db1)" and f: "\<And>p. po_id (f p) = po_id p \<and> po_key (f p) = po_key p"
    and mk: "\<And>i. po_id (mk i) = i" "\<And>i. po_key (mk i) = k"
  shows "catalog_only db db1"
proof -
  have upd: "tab_ok po_id po_key (snd (tab_update P f t))" if "tab_ok po_id po_key t" for P t
  proof -
    have "po_id \<circ> (\<lambda>p. if P p then f p else p) = po_id" "po_key \<circ> (\<lambda>p. if P p then f p else p) = po_key" using f by auto
    with that f show ?thesis by (auto simp: tab_ok_def)
  qed
  show ?thesis
  proof (cases "tab_find (\<lambda>p. po_key p = k) (vd_policies db)")
    case (Some p)
    with run mk have "db1 = db\<lparr>vd_policies := snd (tab_update (\<lambda>q. po_key q = k) f (vd_policies db))\<rparr>"
      by (simp add: upsert_policy_row_def)
    with upd policies_only show ?thesis by simp
  next
    case None
    with run mk have "db1 = db\<lparr>vd_policies := snd (tab_insert mk (vd_policies db))\<rparr>"
      by (auto simp: upsert_policy_row_def tab_insert_def Let_def)
    with pot.insert_ok [of "vd_policies db" mk k] mk None policies_only show ?thesis by simp
  qed
qed

lemma upsert_open_catalog: "upsert_open currency gs db = (Inr ps, db') \<Longrightarrow> catalog_only db db'"
proof (induction gs arbitrary: db ps)
  case (Cons g gs)
  then obtain p db1 ps1 where one: "upsert_policy_row (open_policy currency g (vd_now db))
      (\<lambda>p. p\<lparr>po_enabled := True, po_can_earn := True, po_can_spend := True, po_updated_at := vd_now db\<rparr>) db = (Inr p, db1)"
    and rest: "upsert_open currency gs db1 = (Inr ps1, db')" by (auto simp: vc_bind_Inr)
  have "catalog_only db db1" by (rule upsert_catalog [OF one]) (simp_all add: open_policy_def po_key_def)
  with Cons.IH [OF rest] show ?case by (blast intro: catalog_only_trans)
qed simp

lemma upsert_policy_catalog:
  assumes "(let mk = (\<lambda>i. \<lparr>po_id = i, po_currency = pi_currency inp, po_group = pi_group inp,
         po_enabled = pi_enabled inp, po_can_earn = pi_can_earn inp, po_can_spend = pi_can_spend inp,
         po_max = pi_max inp, po_metadata = decode_metadata md, po_created_at = vd_now db, po_updated_at = vd_now db\<rparr>)
     in if (case pi_max inp of None \<Rightarrow> False | Some m \<Rightarrow> m \<le> 0) then (Inl err_check, db)
        else if \<not> currency_exists db (pi_currency inp) \<or> \<not> group_exists db (pi_group inp) then (Inl err_vc_invalid, db)
        else upsert_policy_row mk (set_policy (mk 0)) db) = (Inr x, db1)"
  shows "catalog_only db db1"
  using assms by (auto simp: Let_def set_policy_def po_key_def split: if_splits intro!: upsert_catalog)

lemma enable_catalog:
  assumes "(let gs = map gr_id (filter public_group (vd_groups db)) in
      if gs \<noteq> [] \<and> \<not> currency_exists db currency then (Inl err_vc_not_found, db)
      else vc_bind (upsert_open currency gs) (\<lambda>ps. vc_return (sort_key po_group ps)) db) = (Inr x, db1)"
  shows "catalog_only db db1"
  using assms by (auto simp: Let_def vc_bind_Inr split: if_splits intro: upsert_open_catalog)

lemma delete_catalog:
  assumes "(case tab_delete (\<lambda>p. po_key p = k) (vd_policies db) of
      (n, t') \<Rightarrow> if n = 0 then (Inl err_vc_policy_not_found, db) else (Inr (), db\<lparr>vd_policies := t'\<rparr>)) = (Inr x, db1)"
  shows "catalog_only db db1"
proof -
  have "db1 = db\<lparr>vd_policies := snd (tab_delete (\<lambda>p. po_key p = k) (vd_policies db))\<rparr>"
    using assms by (auto split: prod.splits if_splits)
  with pot.delete_ok policies_only show ?thesis by simp
qed

section \<open>Mutations\<close>

lemma apply_delta_ledger:
  assumes books: "books_ok db" and run: "apply_delta_tx go_now inp db = (Inr e, db')"
  shows "\<exists>rows. t_rows (vd_ledger db') = t_rows (vd_ledger db) @ rows \<and>
    (\<forall>r \<in> set rows. lr_fingerprint r = di_fingerprint inp \<and> lr_ukey r = (di_currency inp, di_user inp, di_key inp))"
proof (rule apply_delta_cases [OF books run])
  fix cur x assume "ensure_wallet (di_user inp) (di_currency inp) db = (Inr x, db')"
  from ensure_wallet_effect [OF books this] show ?thesis by (intro exI [of _ "[]"]) simp
next
  fix cur x db1 w mb b md rows
  assume ens: "ensure_wallet (di_user inp) (di_currency inp) db = (Inr x, db1)"
    and rec: "recorded inp b md rows (wallet_after w b db1) db'"
  let ?r = "new_ledger_row inp md (vd_now db1) (t_seq (vd_journals db1) + 1) b (t_seq (vd_ledger db1) + 1)"
  have "t_rows (vd_ledger db') = t_rows (vd_ledger db) @ [?r]"
    using rec ensure_wallet_effect [OF books ens] by (simp add: recorded_def Let_def)
  then show ?thesis by (intro exI [of _ "[?r]"]) (simp add: new_ledger_row_def lr_ukey_def)
qed

lemma linked_append:
  assumes "reserve_linked digest db" and "t_rows (vd_ledger db') = t_rows (vd_ledger db) @ rows"
    and "ho_ukey ` set (t_rows (vd_holds db)) \<subseteq> ho_ukey ` set (t_rows (vd_holds db'))"
    and "\<And>r. r \<in> set rows \<Longrightarrow> reserve_print digest (lr_fingerprint r) \<Longrightarrow> lr_ukey r \<in> ho_ukey ` set (t_rows (vd_holds db'))"
  shows "reserve_linked digest db'"
  using assms unfolding reserve_linked_def by auto

definition plain_delta :: "(fp_payload \<Rightarrow> string) \<Rightarrow> vc_delta_input \<Rightarrow> bool" where
  "plain_delta digest inp \<longleftrightarrow> in_int64 (di_available inp) \<and> di_reserved inp = 0 \<and> \<not> reserve_print digest (di_fingerprint inp)"

lemma plain_delta_inv:
  assumes inv: "vc_inv digest db" and pl: "plain_delta digest inp"
    and run: "apply_delta_tx go_now inp db = (Inr e, db')" and bal: "no_new_unbalanced db db'"
  shows "vc_inv digest db'"
proof -
  note books = vc_inv_sel(2) [OF inv]
  have rng: "in_int64 (di_available inp)" "in_int64 (di_reserved inp)" "di_reserved inp = 0"
    using pl by (simp_all add: plain_delta_def in_int64_def min_int64_def max_int64_def)
  note eff = apply_delta_effect [OF books rng(1,2) run bal]
  have hs: "vd_holds db' = vd_holds db" and cur: "vd_currencies db' = vd_currencies db"
    using eff by (simp_all add: same_rest_def)
  have "reserved_of db' u c = reserved_of db u c" for u c
    using eff rng(3) by (auto simp: moved_def split: option.splits)
  then have "holds_ok db'" using vc_inv_sel(3) [OF inv] by (simp add: holds_ok_def held_def hs currency_exists_def cur)
  moreover have "totals_ok db' \<and> wallets_used db'" using totals.delta [OF books vc_inv_sel(5) [OF inv] rng(1,2) run bal] .
  moreover obtain rows where rows: "t_rows (vd_ledger db') = t_rows (vd_ledger db) @ rows"
      "\<And>r. r \<in> set rows \<Longrightarrow> lr_fingerprint r = di_fingerprint inp"
    using apply_delta_ledger [OF books run] by blast
  have "reserve_linked digest db'"
    by (rule linked_append [OF vc_inv_sel(4) [OF inv] rows(1)]) (use pl rows(2) hs in \<open>auto simp: plain_delta_def\<close>)
  ultimately show ?thesis using eff by (simp add: vc_inv_def vc_ok_def)
qed

lemma ledger_print:
  assumes "reserve_linked digest db" and "ledger_by_key c u k db = Some e" and "reserve_print digest (lr_fingerprint (le_row e))"
  shows "tab_find (\<lambda>h. ho_ukey h = (c, u, k)) (vd_holds db) \<noteq> None"
proof -
  from assms(2) have "le_row e \<in> set (t_rows (vd_ledger db))" "lr_ukey (le_row e) = (c, u, k)"
    by (auto simp: ledger_by_key_def join_entry_def split: option.splits dest: tab_find_Some)
  with assms(1,3) have "(c, u, k) \<in> ho_ukey ` set (t_rows (vd_holds db))" unfolding reserve_linked_def by metis
  then show ?thesis by (auto simp: tab_find_None)
qed

lemma reserve_inv:
  assumes inv: "vc_inv digest db" and range: "in_int64 (ri_amount inp)" and fp: "reserve_print digest (ri_fingerprint inp)"
    and run: "reserve_hold_tx go_now inp db = (Inr (hold, e), db')" and bal: "no_new_unbalanced db db'"
  shows "vc_inv digest db'"
proof -
  note books = vc_inv_sel(2) [OF inv]
  have linked: "\<forall>e0. ledger_by_key (ri_currency inp) (ri_user inp) (ri_key inp) db = Some e0 \<longrightarrow>
      lr_fingerprint (le_row e0) = ri_fingerprint inp \<longrightarrow>
      tab_find (\<lambda>h. ho_ukey h = (ri_currency inp, ri_user inp, ri_key inp)) (vd_holds db) \<noteq> None"
    using ledger_print [OF vc_inv_sel(4) [OF inv]] fp by simp
  note eff = reserve_hold_tx_effect [OF vc_inv_sel(1) [OF inv] range linked run bal]
  obtain md at where hold: "hd_row hold = new_hold inp md at (ho_id (hd_row hold))"
    "t_rows (vd_holds db') = t_rows (vd_holds db) @ [hd_row hold]" using eff by blast
  have key: "ho_ukey (hd_row hold) = (ri_currency inp, ri_user inp, ri_key inp)"
    by (subst hold(1)) (simp add: new_hold_def ho_ukey_def)
  obtain db1 :: vc_db and rows where rows: "t_rows (vd_ledger db1) = t_rows (vd_ledger db) @ rows" "vd_ledger db' = vd_ledger db1"
      "\<And>r. r \<in> set rows \<Longrightarrow> lr_ukey r = (ri_currency inp, ri_user inp, ri_key inp)"
  proof -
    obtain db1 db2 enc i where app: "apply_delta_tx go_now (reserve_delta inp) db = (Inr e, db1)"
      and ins: "insert_hold_tx inp enc db1 = (Inr i, db2)" and get: "get_hold_where (\<lambda>h. ho_id h = i) db2 = (Inr hold, db')"
      using run by (auto simp: reserve_hold_tx_def vc_bind_Inr)
    have "vd_ledger db2 = vd_ledger db1" using ins by (auto simp: insert_hold_tx_def Let_def tab_insert_def split: if_splits)
    moreover have "db' = db2" using get_hold_where_effect [OF get] by blast
    moreover obtain rows where "t_rows (vd_ledger db1) = t_rows (vd_ledger db) @ rows"
        "\<And>r. r \<in> set rows \<Longrightarrow> lr_ukey r = (ri_currency inp, ri_user inp, ri_key inp)"
      using apply_delta_ledger [OF books app] by (auto simp: reserve_delta_def)
    ultimately show ?thesis by (intro that [of db1 rows]) simp_all
  qed
  have "reserve_linked digest db'"
    by (rule linked_append [OF vc_inv_sel(4) [OF inv], of db' rows]) (use rows hold(2) key in auto)
  with eff totals.reserve [OF books vc_inv_sel(5) [OF inv] range run bal] show ?thesis by (simp add: vc_inv_def)
qed

text \<open>A settlement.\<close>

lemma settle_tx_effect:
  assumes ok: "vc_ok db" and st0: "st0 \<noteq> hold_active" and run: "settle_hold_tx go_now inp ty0 st0 db = (Inr (hold, e), db')"
    and bal: "no_new_unbalanced db db'"
  shows "vc_ok db' \<and> (db' = db \<or>
    ho_ukey ` set (t_rows (vd_holds db')) = ho_ukey ` set (t_rows (vd_holds db)))"
proof (rule settle_cases [OF run])
  assume "db' = db" with ok show ?thesis by simp
next
  fix h ty st db1 u
  assume h: "h \<in> set (t_rows (vd_holds db))" "ho_status h = hold_active" "ho_user h = si_user inp"
    and none: "ledger_by_key (ho_currency h) (si_user inp) (si_key inp) db = None"
    and kind: "settle_kind go_now inp h ty0 st0 = (ty, st)"
    and app: "apply_delta_tx go_now (settle_delta inp h ty) db = (Inr e, db1)" and upd: "update_hold_tx h st db1 = (Inr u, db')"
  have st: "st \<noteq> hold_active" using kind st0 by (auto simp: settle_kind_def vc_statuses split: if_splits)
  note eff = settle_fresh [OF ok h(1,2,3) st none app upd bal]
  have "map ho_ukey (t_rows (vd_holds db')) = map ho_ukey (t_rows (vd_holds db))"
    using eff by (simp add: hot.upd_key)
  then have "ho_ukey ` set (t_rows (vd_holds db')) = ho_ukey ` set (t_rows (vd_holds db))" by (metis set_map)
  with eff show ?thesis by blast
qed

lemma settle_inv:
  assumes inv: "vc_inv digest db" and st0: "st0 \<noteq> hold_active" and fp: "\<not> reserve_print digest (si_fingerprint inp)"
    and run: "settle_hold_tx go_now inp ty0 st0 db = (Inr (hold, e), db')" and bal: "no_new_unbalanced db db'"
  shows "vc_inv digest db'"
proof -
  note eff = settle_tx_effect [OF vc_inv_sel(1) [OF inv] st0 run bal]
  have "\<exists>rows. t_rows (vd_ledger db') = t_rows (vd_ledger db) @ rows \<and> (\<forall>r \<in> set rows. lr_fingerprint r = si_fingerprint inp)"
  proof (rule settle_cases [OF run])
    assume "db' = db" then show ?thesis by (intro exI [of _ "[]"]) simp
  next
    fix h ty st db1 u
    assume app: "apply_delta_tx go_now (settle_delta inp h ty) db = (Inr e, db1)" and upd: "update_hold_tx h st db1 = (Inr u, db')"
    have "vd_ledger db' = vd_ledger db1" using upd by (auto simp: update_hold_tx_def split: prod.splits if_splits)
    with apply_delta_ledger [OF vc_inv_sel(2) [OF inv] app] show ?thesis by (auto simp: settle_delta_def)
  qed
  then obtain rows where rows: "t_rows (vd_ledger db') = t_rows (vd_ledger db) @ rows" "\<And>r. r \<in> set rows \<Longrightarrow> lr_fingerprint r = si_fingerprint inp"
    by blast
  have "reserve_linked digest db'"
    by (rule linked_append [OF vc_inv_sel(4) [OF inv] rows(1)]) (use rows(2) fp eff in auto)
  with eff totals.settle [OF vc_inv_sel(1,5) [OF inv] run bal] show ?thesis by (simp add: vc_inv_def)
qed

end
