(* ===== verification/VC_Evolve.thy ===== *)
theory VC_Evolve
  imports VC_System
begin

text \<open>
  How a database evolves. \<open>vc_evolution\<close> is the contract of a relation between the database before and
  after a request: reflexive, transitive, implied by a change of the catalogue, and satisfied by the
  three transactions that write the books. Inside it every request of the service satisfies the
  relation and keeps \<open>vc_inv\<close>; the interpretations give the invariant of the reachable databases, the
  immutability of the ledger and the life of a hold.
\<close>

section \<open>The transition system\<close>

text \<open>The tables of users and groups, the clock and the outcomes of the coming statements.\<close>

record vc_world =
  ww_groups :: "vc_group list"
  ww_users :: "int64 list"
  ww_allowed :: "(int64 \<times> int64) list"
  ww_subscriptions :: "vc_subscription list"
  ww_now :: gtime
  ww_faults :: "bool list"

definition set_world :: "vc_world \<Rightarrow> vc_db \<Rightarrow> vc_db" where
  "set_world w db = db\<lparr>vd_groups := ww_groups w, vd_users := ww_users w, vd_allowed := ww_allowed w,
     vd_subscriptions := ww_subscriptions w, vd_now := ww_now w, vd_faults := ww_faults w\<rparr>"

definition empty_vc_db :: vc_db where
  "empty_vc_db = \<lparr>vd_currencies = tab_empty, vd_policies = tab_empty, vd_wallets = tab_empty, vd_ledger = tab_empty,
     vd_holds = tab_empty, vd_journals = tab_empty, vd_postings = tab_empty, vd_groups = [], vd_users = [],
     vd_allowed = [], vd_subscriptions = [], vd_now = 0, vd_faults = []\<rparr>"

inductive vc_step :: "(fp_payload \<Rightarrow> string) \<Rightarrow> vc_db \<Rightarrow> vc_db \<Rightarrow> bool" for digest where
  step_world: "vc_step digest db (set_world w db)"
| step_create: "svc_create_currency ci db = (r, db') \<Longrightarrow> vc_step digest db db'"
| step_update: "svc_update_currency i ui db = (r, db') \<Longrightarrow> vc_step digest db db'"
| step_status: "svc_set_status i status db = (r, db') \<Longrightarrow> vc_step digest db db'"
| step_policy: "svc_upsert_policy pin db = (r', db') \<Longrightarrow> vc_step digest db db'"
| step_enable: "svc_enable_for_all i db = (rs, db') \<Longrightarrow> vc_step digest db db'"
| step_delete: "svc_delete_policy i g db = (ru, db') \<Longrightarrow> vc_step digest db db'"
| step_grant: "svc_grant digest now q db = (re, db') \<Longrightarrow> vc_step digest db db'"
| step_grant_by_id: "svc_grant_by_id digest now i q db = (re, db') \<Longrightarrow> vc_step digest db db'"
| step_adjust: "svc_adjust digest now q db = (re, db') \<Longrightarrow> vc_step digest db db'"
| step_spend: "svc_spend digest now sq db = (re, db') \<Longrightarrow> vc_step digest db db'"
| step_reserve: "svc_reserve_hold digest now now' rq db = (rh, db') \<Longrightarrow> vc_step digest db db'"
| step_commit: "svc_commit_hold digest now tq db = (rh, db') \<Longrightarrow> vc_step digest db db'"
| step_release: "svc_release_hold digest now tq db = (rh, db') \<Longrightarrow> vc_step digest db db'"
| step_expire: "svc_expire_holds digest now i limit db = (rx, db') \<Longrightarrow> vc_step digest db db'"
| step_cleanup: "vc_step digest db (vc_cleanup_once s digest now db)"

inductive vc_reachable :: "(fp_payload \<Rightarrow> string) \<Rightarrow> vc_db \<Rightarrow> bool" for digest where
  reach_empty: "vc_reachable digest empty_vc_db"
| reach_step: "vc_reachable digest db \<Longrightarrow> vc_step digest db db' \<Longrightarrow> vc_reachable digest db'"

lemma vc_inv_empty: "vc_inv digest empty_vc_db"
  by (simp add: vc_inv_def vc_ok_def books_ok_def tables_ok_def account_ok_def account_defs journals_ok_def holds_ok_def
      held_def totals_ok_def wallets_used_def wallet_sum_def posting_sum_def reserve_linked_def empty_vc_db_def
      tab_select_def tab_find_def) (simp add: tab_empty_def)

lemma world_catalog: "catalog_only db (set_world w db)"
  by (simp add: catalog_only_def same_books_def set_world_def currency_exists_def)

lemma units_range: "- max_mutation_units \<le> a \<Longrightarrow> a \<le> max_mutation_units \<Longrightarrow> in_int64 a \<and> wrap64 (- a) = - a \<and> in_int64 (- a)"
  by (auto simp: in_int64_def max_int64_def min_int64_def max_mutation_units_def intro!: wrap64_id)

lemma hold_fingerprint_other:
  "kinded digest \<Longrightarrow> action \<noteq> entry_reserve \<Longrightarrow> \<not> reserve_print digest (hold_fingerprint digest h action src sid reason md)"
  by (simp add: hold_fingerprint_def other_print)

section \<open>The contract of a relation\<close>

definition evolves :: "(fp_payload \<Rightarrow> string) \<Rightarrow> (vc_db \<Rightarrow> vc_db \<Rightarrow> bool) \<Rightarrow> (vc_db \<Rightarrow> 'x \<times> vc_db) \<Rightarrow> bool" where
  "evolves digest E m \<longleftrightarrow> (\<forall>db. vc_inv digest db \<longrightarrow> vc_inv digest (snd (m db)) \<and> E db (snd (m db)))"

lemma evolvesD:
  "evolves digest E m \<Longrightarrow> vc_inv digest db \<Longrightarrow> m db = (r, db') \<Longrightarrow> vc_inv digest db' \<and> E db db'"
  unfolding evolves_def by (metis snd_conv)

locale vc_evolution =
  fixes E :: "vc_db \<Rightarrow> vc_db \<Rightarrow> bool"
  assumes E_refl: "E db db"
    and E_trans: "E db db1 \<Longrightarrow> E db1 db2 \<Longrightarrow> E db db2"
    and E_catalog: "catalog_only db db1 \<Longrightarrow> E db db1"
    and E_delta: "vc_inv digest db \<Longrightarrow> apply_delta_tx go_now dinp db = (Inr e, db1) \<Longrightarrow> E db db1"
    and E_reserve: "vc_inv digest db \<Longrightarrow> reserve_hold_tx go_now rinp db = (Inr he, db1) \<Longrightarrow>
      no_new_unbalanced db db1 \<Longrightarrow> vc_inv digest db1 \<Longrightarrow> E db db1"
    and E_settle: "vc_inv digest db \<Longrightarrow> st0 \<in> {hold_committed, hold_released, hold_expired} \<Longrightarrow>
      settle_hold_tx go_now sinp ty0 st0 db = (Inr he, db1) \<Longrightarrow> no_new_unbalanced db db1 \<Longrightarrow> vc_inv digest db1 \<Longrightarrow> E db db1"
begin

lemma simple: "evolves digest E (vc_return x)" "evolves digest E (vc_fail e)" "evolves digest E (vc_lift r)" "evolves digest E (vc_read f)"
  using E_refl by (auto simp: evolves_def vc_lift_def split: sum.splits)

lemma bind: "evolves digest E m \<Longrightarrow> (\<And>x. evolves digest E (f x)) \<Longrightarrow> evolves digest E (vc_bind m f)"
  unfolding evolves_def
proof (intro allI impI)
  fix db assume m: "\<forall>db. vc_inv digest db \<longrightarrow> vc_inv digest (snd (m db)) \<and> E db (snd (m db))"
    and f: "\<And>x. \<forall>db. vc_inv digest db \<longrightarrow> vc_inv digest (snd (f x db)) \<and> E db (snd (f x db))" and inv: "vc_inv digest db"
  obtain r db1 where run: "m db = (r, db1)" by fastforce
  have m1: "vc_inv digest db1 \<and> E db db1" using m [rule_format, OF inv] run by simp
  show "vc_inv digest (snd (vc_bind m f db)) \<and> E db (snd (vc_bind m f db))"
  proof (cases r)
    case (Inl e)
    with run m1 show ?thesis by (simp add: vc_bind_def)
  next
    case (Inr x)
    with run m1 f [rule_format, of db1 x] E_trans [of db db1] show ?thesis by (simp add: vc_bind_def)
  qed
qed

lemma branch: "(b \<Longrightarrow> evolves digest E m) \<Longrightarrow> (\<not> b \<Longrightarrow> evolves digest E n) \<Longrightarrow> evolves digest E (if b then m else n)"
  by simp

lemma call:
  assumes step: "\<And>db x db1. vc_inv digest db \<Longrightarrow> m db = (Inr x, db1) \<Longrightarrow> no_new_unbalanced db db1 \<Longrightarrow>
    vc_inv digest db1 \<and> E db db1"
  shows "evolves digest E (vc_call m)"
  unfolding evolves_def
proof (intro allI impI)
  fix db assume inv: "vc_inv digest db"
  have i0: "vc_inv digest (without_fault db)" using catalog_only_inv [OF inv fault_only] .
  have e0: "E db (without_fault db)" using E_catalog [OF fault_only] .
  obtain r db' where run: "vc_call m db = (r, db')" by fastforce
  have "vc_inv digest db' \<and> E db db'"
  proof (cases r)
    case (Inl e)
    with run have "db' = without_fault db" by (simp add: vc_call_Inl)
    with i0 e0 show ?thesis by simp
  next
    case (Inr x)
    with run vc_call_Inr [of m db x db'] have "m (without_fault db) = (Inr x, db')" "commit_ok (without_fault db) db'" by auto
    with step [OF i0] E_trans [OF e0] show ?thesis by (simp add: commit_ok_iff)
  qed
  with run show "vc_inv digest (snd (vc_call m db)) \<and> E db (snd (vc_call m db))" by simp
qed

lemma catalog_call: "(\<And>db x db1. m db = (Inr x, db1) \<Longrightarrow> catalog_only db db1) \<Longrightarrow> evolves digest E (vc_call m)"
  by (rule call) (use E_catalog catalog_only_inv in blast)

lemma read: "evolves digest E (vc_call (vc_read f))"
  by (rule catalog_call) simp

lemma lookup: "evolves digest E (get_currency_by_id i)" "evolves digest E (get_currency_by_code code)"
  "evolves digest E (get_hold user i)" "evolves digest E (check_metadata md)"
proof -
  show "evolves digest E (get_currency_by_id i)" "evolves digest E (get_currency_by_code code)"
    unfolding get_currency_by_id_def get_currency_by_code_def by (rule catalog_call, erule find_currency_catalog)+
  show "evolves digest E (get_hold user i)"
    unfolding get_hold_def by (rule catalog_call) (auto dest: get_hold_where_effect)
  show "evolves digest E (check_metadata md)" by (simp add: check_metadata_def simple split: option.splits)
qed

lemmas composing = simple bind branch read lookup

lemma catalog_requests: "evolves digest E (svc_create_currency ci)" "evolves digest E (svc_update_currency i ui)"
  "evolves digest E (svc_set_status i status)" "evolves digest E (svc_upsert_policy pin)" "evolves digest E (svc_enable_for_all i)"
  "evolves digest E (svc_delete_policy i g)"
  unfolding svc_create_currency_def svc_update_currency_def svc_set_status_def svc_upsert_policy_def
    svc_enable_for_all_def svc_delete_policy_def svc_get_currency_def Let_def repo_create_currency_def repo_update_currency_def
    repo_set_status_def repo_upsert_policy_def repo_enable_for_all_def repo_delete_policy_def
  by (intro composing; rule catalog_call, erule create_catalog [unfolded Let_def] update_currency_catalog
      upsert_policy_catalog [unfolded Let_def] enable_catalog [unfolded Let_def] delete_catalog)+

lemma mutate: "plain_delta digest inp \<Longrightarrow> evolves digest E (apply_currency_delta go_now inp)"
  unfolding apply_currency_delta_def by (rule call) (use E_delta plain_delta_inv in blast)

lemma reserve:
  assumes "in_int64 (ri_amount inp)" and "reserve_print digest (ri_fingerprint inp)"
  shows "evolves digest E (reserve_hold go_now inp)"
proof -
  have "evolves digest E (vc_call (reserve_hold_tx go_now inp))"
    by (rule call) (use assms E_reserve reserve_inv in \<open>metis surj_pair\<close>)
  then show ?thesis unfolding reserve_hold_def by (intro composing)
qed

lemma settle:
  assumes "st0 \<in> {hold_committed, hold_released, hold_expired}" and "\<not> reserve_print digest (si_fingerprint inp)"
  shows "evolves digest E (settle_hold go_now inp ty0 st0)"
proof -
  have "st0 \<noteq> hold_active" using assms(1) by (auto simp: vc_statuses)
  then show ?thesis
    unfolding settle_hold_def by (intro call) (use assms E_settle settle_inv in \<open>metis surj_pair\<close>)
qed

lemma sweep_evolves:
  "kinded digest \<Longrightarrow> vc_inv digest db \<Longrightarrow>
     vc_inv digest (snd (sweep go_now digest cs n db)) \<and> E db (snd (sweep go_now digest cs n db))"
proof (induction go_now digest cs n db rule: sweep.induct)
  case (2 go_now digest i user cs n db)
  obtain r db1 where get: "get_hold user i db = (r, db1)" by fastforce
  have i1: "vc_inv digest db1" "E db db1" using evolvesD [OF lookup(3) 2(5) get] by auto
  show ?case
  proof (cases r)
    case (Inl e)
    with 2(1) [OF get [symmetric]] 2(4) i1 get E_trans [OF i1(2)] show ?thesis by simp
  next
    case (Inr hold)
    obtain r2 db2 where st: "settle_hold go_now (sweep_input digest (hd_row hold)) entry_expire hold_expired db1 = (r2, db2)" by fastforce
    have "\<not> reserve_print digest (si_fingerprint (sweep_input digest (hd_row hold)))"
      using 2(4) by (simp add: sweep_input_def Let_def hold_fingerprint_other vc_entries)
    then have "vc_inv digest db2 \<and> E db1 db2" using evolvesD [OF settle i1(1) st] by simp
    then have i2: "vc_inv digest db2" "E db db2" using E_trans [OF i1(2)] by auto
    then show ?thesis using 2 get Inr st E_trans [OF i2(2)] by (auto split: sum.splits)
  qed
qed (simp add: E_refl)

lemma expire:
  assumes "kinded digest"
  shows "evolves digest E (svc_expire_holds digest now currency limit)"
proof -
  have "evolves digest E (repo_expire_holds now digest currency l)" for l
    unfolding evolves_def
  proof (intro allI impI)
    fix db assume inv: "vc_inv digest db"
    obtain r db1 where run: "vc_call (vc_read (expired_candidates currency l)) db = (r, db1)" by fastforce
    have "vc_inv digest db1 \<and> E db db1" using evolvesD [OF read inv run] .
    then show "vc_inv digest (snd (repo_expire_holds now digest currency l db)) \<and> E db (snd (repo_expire_holds now digest currency l db))"
      using sweep_evolves [OF assms] inv run E_trans [of db db1] E_refl by (auto simp: repo_expire_holds_def split: sum.splits)
  qed
  then show ?thesis using E_refl by (simp add: svc_expire_holds_def Let_def evolves_def)
qed

lemma adjust:
  assumes "kinded digest" shows "evolves digest E (svc_adjust digest now q)"
proof -
  have pl: "plain_delta digest (adjust_delta digest q' c g)" if "adjust_ok q'" for q' c g
  proof -
    have "in_int64 (aq_amount q')" using that units_range [of "aq_amount q'"] by (simp add: adjust_ok_def)
    with other_print [OF assms] show ?thesis by (simp add: plain_delta_def adjust_delta_def)
  qed
  show ?thesis
    unfolding svc_adjust_def resolve_admin_group_def repo_list_user_wallets_def list_group_policies_def Let_def
    by (intro composing mutate pl) simp
qed

lemma grant: "kinded digest \<Longrightarrow> evolves digest E (svc_grant digest now q)"
  "kinded digest \<Longrightarrow> evolves digest E (svc_grant_by_id digest now i q)"
  unfolding svc_grant_def svc_grant_by_id_def svc_get_currency_def by (intro composing adjust; assumption)+

lemma spend:
  assumes "kinded digest" shows "evolves digest E (svc_spend digest now q)"
proof -
  have pl: "plain_delta digest (spend_delta digest q' c)" for q' c
    using other_print [OF assms] by (simp add: plain_delta_def spend_delta_def Let_def)
  show ?thesis unfolding svc_spend_def Let_def by (intro composing mutate pl)
qed

lemma reserve_request: "evolves digest E (svc_reserve_hold digest now repo_now q)"
proof -
  have "evolves digest E (reserve_hold repo_now (reserve_input digest q' key ex c))" if "reserve_ok q'" for q' key ex c
  proof (rule reserve)
    show "in_int64 (ri_amount (reserve_input digest q' key ex c))"
      using that units_range [of "rq_amount q'"] by (simp add: reserve_ok_def reserve_input_def max_mutation_units_def)
    have "is_reserve (HoldPayload c (rq_user q') (rq_group q') (rq_amount q') (unix_nano ex) entry_reserve
        (rq_source_type q') (rq_source_id q') (rq_reason q') (rq_metadata q'))" by simp
    then show "reserve_print digest (ri_fingerprint (reserve_input digest q' key ex c))"
      unfolding reserve_print_def reserve_input_def vc_reserve_input.simps by blast
  qed
  then show ?thesis unfolding svc_reserve_hold_def Let_def by (intro composing) simp_all
qed

lemma settle_request:
  assumes "kinded digest" and "action \<noteq> entry_reserve"
  shows "evolves digest E (svc_settle_hold digest now q action)"
proof -
  have "\<not> reserve_print digest (si_fingerprint (settle_input digest q' action key h))" for q' key h
    using hold_fingerprint_other [OF assms] by (simp add: settle_input_def)
  then show ?thesis
    unfolding svc_settle_hold_def commit_hold_def release_hold_def Let_def by (intro composing settle) simp_all
qed

lemma settle_requests: "kinded digest \<Longrightarrow> evolves digest E (svc_commit_hold digest now q)"
  "kinded digest \<Longrightarrow> evolves digest E (svc_release_hold digest now q)"
  unfolding svc_commit_hold_def svc_release_hold_def by (rule settle_request; simp add: vc_entries)+

lemma one_step:
  assumes "kinded digest" and "vc_inv digest db" and "vc_step digest db db'"
  shows "vc_inv digest db' \<and> E db db'"
  using assms(3)
proof cases
  case (step_world w)
  then show ?thesis using catalog_only_inv [OF assms(2) world_catalog] E_catalog [OF world_catalog] by simp
next
  case (step_cleanup s now)
  then show ?thesis using expire [OF assms(1)] assms(2) by (simp add: vc_cleanup_once_def evolves_def)
qed (erule catalog_requests [THEN evolvesD, OF assms(2)] grant [OF assms(1), THEN evolvesD, OF assms(2)]
    adjust [OF assms(1), THEN evolvesD, OF assms(2)] spend [OF assms(1), THEN evolvesD, OF assms(2)]
    reserve_request [THEN evolvesD, OF assms(2)] settle_requests [OF assms(1), THEN evolvesD, OF assms(2)]
    expire [OF assms(1), THEN evolvesD, OF assms(2)])+

lemma steps:
  assumes "(vc_step digest)\<^sup>*\<^sup>* db db'" and "kinded digest" and "vc_inv digest db"
  shows "vc_inv digest db' \<and> E db db'"
  using assms
proof (induction rule: rtranclp_induct)
  case (step y z)
  with one_step [of digest y z] E_trans [of db y z] show ?case by blast
qed (simp add: E_refl)

end

section \<open>Reachable databases\<close>

interpretation sound: vc_evolution "\<lambda>_ _. True"
  by unfold_locales simp_all

lemma reachable_steps: "vc_reachable digest db \<Longrightarrow> (vc_step digest)\<^sup>*\<^sup>* empty_vc_db db"
  by (induction rule: vc_reachable.induct) auto

lemma reachable_inv: "vc_reachable digest db \<Longrightarrow> kinded digest \<Longrightarrow> vc_inv digest db"
  using sound.steps [OF reachable_steps _ vc_inv_empty] by blast

end
