(* ===== verification/VC_Exact.thy ===== *)
theory VC_Exact
  imports VC_Evolve
begin

text \<open>
  The converse of \<open>VC_Preserve\<close>: on sound books a mutation whose checks pass is recorded and commits,
  so that the result of a mutation is determined by its checks alone.
\<close>

section \<open>Writing a journal\<close>

lemma insert_posting_total:
  assumes "journal_open db j" and "ps_amount p \<noteq> 0" and "(ps_user p = None) = (ps_kind p \<in> {acct_issuance, acct_sink, acct_adjust})"
    and "\<And>r. r \<in> set (t_rows (vd_postings db)) \<Longrightarrow> pt_journal r = j \<Longrightarrow> (pt_kind r, pt_user r) \<noteq> (ps_kind p, ps_user p)"
  shows "\<exists>db'. insert_posting j c p db = (Inr (), db') \<and> journal_open db' j = journal_open db j \<and>
    (\<exists>r. t_rows (vd_postings db') = t_rows (vd_postings db) @ [r] \<and> (pt_kind r, pt_user r) = (ps_kind p, ps_user p))"
  using assms by (auto simp: insert_posting_def tab_find_None journal_open_def)

lemma insert_postings_total:
  assumes "journal_open db j" and "\<And>p. p \<in> set ps \<Longrightarrow> ps_amount p \<noteq> 0"
    and "\<And>p. p \<in> set ps \<Longrightarrow> (ps_user p = None) = (ps_kind p \<in> {acct_issuance, acct_sink, acct_adjust})"
    and "distinct (map (\<lambda>p. (ps_kind p, ps_user p)) ps)"
    and "\<And>r p. r \<in> set (t_rows (vd_postings db)) \<Longrightarrow> pt_journal r = j \<Longrightarrow> p \<in> set ps \<Longrightarrow> (pt_kind r, pt_user r) \<noteq> (ps_kind p, ps_user p)"
  shows "\<exists>db'. insert_postings j c ps db = (Inr (), db')"
  using assms
proof (induction ps arbitrary: db)
  case (Cons p ps)
  have "\<exists>db'. insert_posting j c p db = (Inr (), db') \<and> journal_open db' j = journal_open db j \<and>
    (\<exists>r. t_rows (vd_postings db') = t_rows (vd_postings db) @ [r] \<and> (pt_kind r, pt_user r) = (ps_kind p, ps_user p))"
    by (rule insert_posting_total) (use Cons.prems in auto)
  then obtain db1 r where one: "insert_posting j c p db = (Inr (), db1)" "journal_open db1 j = journal_open db j"
      "t_rows (vd_postings db1) = t_rows (vd_postings db) @ [r]" "(pt_kind r, pt_user r) = (ps_kind p, ps_user p)"
    by blast
  have apart: "(pt_kind x, pt_user x) \<noteq> (ps_kind q, ps_user q)"
    if "x \<in> set (t_rows (vd_postings db1))" "pt_journal x = j" "q \<in> set ps" for x q
  proof (cases "x = r")
    case True
    have "(ps_kind q, ps_user q) \<noteq> (ps_kind p, ps_user p)"
      using Cons.prems(4) that(3) by (force simp: image_iff)
    with True one(4) show ?thesis by metis
  next
    case False
    with one(3) that Cons.prems(5) show ?thesis by simp
  qed
  have "\<exists>db'. insert_postings j c ps db1 = (Inr (), db')"
    by (rule Cons.IH) (use Cons.prems one(2) apart in simp_all)
  with one(1) show ?case by (auto simp: vc_bind_def)
qed simp

lemma build_postings_ok:
  assumes "in_int64 (- di_delta inp)"
  shows "p \<in> set (build_postings inp) \<Longrightarrow> ps_amount p \<noteq> 0"
    and "p \<in> set (build_postings inp) \<Longrightarrow> (ps_user p = None) = (ps_kind p \<in> {acct_issuance, acct_sink, acct_adjust})"
    and "distinct (map (\<lambda>p. (ps_kind p, ps_user p)) (build_postings inp))"
proof -
  have "wrap64 (- di_delta inp) \<noteq> 0" if "di_delta inp \<noteq> 0"
    using assms that by simp
  then show "p \<in> set (build_postings inp) \<Longrightarrow> ps_amount p \<noteq> 0" by (auto simp: build_postings_def split: if_splits)
  show "p \<in> set (build_postings inp) \<Longrightarrow> (ps_user p = None) = (ps_kind p \<in> {acct_issuance, acct_sink, acct_adjust})"
    by (auto simp: build_postings_def system_account_def accts split: if_splits)
  show "distinct (map (\<lambda>p. (ps_kind p, ps_user p)) (build_postings inp))" by (auto simp: build_postings_def)
qed

text \<open>What the columns of a mutation must satisfy, and the references it makes.\<close>

definition delta_fits :: "vc_delta_input \<Rightarrow> vc_db \<Rightarrow> bool" where
  "delta_fits inp db \<longleftrightarrow> delta_check inp \<and> di_delta inp = di_available inp + di_reserved inp \<and>
     (di_available inp \<noteq> 0 \<or> di_reserved inp \<noteq> 0) \<and> in_int64 (di_delta inp) \<and> in_int64 (- di_delta inp) \<and>
     group_exists db (di_group inp) \<and> user_exists db (Some (di_user inp)) \<and> user_exists db (di_created_by inp) \<and>
     di_metadata inp \<noteq> BadMap"

lemma delta_fits_same:
  assumes "vd_groups db' = vd_groups db" and "vd_users db' = vd_users db"
  shows "delta_fits inp db' = delta_fits inp db"
  unfolding delta_fits_def group_exists_def user_exists_def assms ..

lemma record_delta_total:
  assumes jo: "journals_ok db" and jt: "tab_ok jo_id jo_ukey (vd_journals db)" and fits: "delta_fits inp db"
    and none: "tab_find (\<lambda>r. lr_ukey r = (di_currency inp, di_user inp, di_key inp)) (vd_ledger db) = None"
    and b: "0 \<le> fst b" "0 \<le> snd b"
  shows "\<exists>e db'. record_delta go_now inp cur b db = (Inr e, db')"
proof -
  obtain enc where enc: "marshal_metadata (di_metadata inp) = Inr enc"
    using fits by (cases "di_metadata inp") (auto simp: delta_fits_def marshal_metadata_def)
  let ?j = "t_seq (vd_journals db) + 1"
  let ?mk = "new_journal inp (decode_metadata enc) (vd_now db)"
  have ids: "\<And>r. r \<in> set (t_rows (vd_journals db)) \<Longrightarrow> jo_id r \<le> t_seq (vd_journals db)" using jt by (simp add: tab_ok_def)
  have ku: "jo_ukey (?mk i) = (di_currency inp, di_user inp, di_key inp)" for i by (simp add: new_journal_def jo_ukey_def)
  have "jo_ukey ` set (t_rows (vd_journals db)) = lr_ukey ` set (t_rows (vd_ledger db))"
  proof -
    have "map snd (map (\<lambda>r. (lr_journal r, lr_ukey r)) (t_rows (vd_ledger db))) =
        map snd (map (\<lambda>j. (jo_id j, jo_ukey j)) (t_rows (vd_journals db)))" using jo by (simp add: journals_ok_def)
    then have "map jo_ukey (t_rows (vd_journals db)) = map lr_ukey (t_rows (vd_ledger db))" by (simp add: comp_def)
    then show ?thesis by (metis set_map)
  qed
  moreover have "(di_currency inp, di_user inp, di_key inp) \<notin> lr_ukey ` set (t_rows (vd_ledger db))"
    using none by (auto simp: tab_find_None)
  ultimately have "(di_currency inp, di_user inp, di_key inp) \<notin> jo_ukey ` set (t_rows (vd_journals db))" by simp
  then have nonej: "tab_find (\<lambda>j. jo_ukey j = (di_currency inp, di_user inp, di_key inp)) (vd_journals db) = None"
    by (force simp: tab_find_None)
  define db1 where "db1 = db\<lparr>vd_journals := \<lparr>t_seq = ?j, t_rows = t_rows (vd_journals db) @ [?mk ?j]\<rparr>\<rparr>"
  have c: "create_journal_tx inp enc db = (Inr ?j, db1)"
    using fits nonej ku by (simp add: create_journal_tx_def tab_insert_def Let_def db1_def delta_fits_def)
  have open1: "journal_open db1 ?j"
  proof -
    have "find (\<lambda>r. jo_id r = ?j) (t_rows (vd_journals db)) = None" using ids by (force simp: find_None_iff)
    then show ?thesis by (simp add: journal_open_def db1_def tab_find_def find_append new_journal_def)
  qed
  let ?lmk = "new_ledger_row inp (decode_metadata enc) (vd_now db) ?j b"
  have lk: "lr_ukey (?lmk i) = (di_currency inp, di_user inp, di_key inp)" for i by (simp add: new_ledger_row_def lr_ukey_def)
  have lc: "ledger_check (?lmk 0)"
    using fits b by (simp add: ledger_check_def new_ledger_row_def delta_fits_def delta_check_def)
  define db2 where "db2 = db1\<lparr>vd_ledger := \<lparr>t_seq = t_seq (vd_ledger db) + 1, t_rows = t_rows (vd_ledger db) @ [?lmk (t_seq (vd_ledger db) + 1)]\<rparr>\<rparr>"
  have l: "insert_ledger_tx inp enc ?j b db1 = (Inr (t_seq (vd_ledger db) + 1), db2)"
    using fits none lk lc open1
    by (simp add: insert_ledger_tx_def tab_insert_def Let_def db2_def) (simp add: db1_def delta_fits_def group_exists_def user_exists_def split: option.splits)
  have open2: "journal_open db2 ?j" using open1 by (simp add: journal_open_def db2_def)
  have posts: "vd_postings db2 = vd_postings db" by (simp add: db2_def db1_def)
  have "pt_journal r \<noteq> ?j" if "r \<in> set (t_rows (vd_postings db2))" for r
    using jo that by (auto simp: posts journals_ok_def list_all_iff)
  then obtain db3 where p: "insert_postings ?j (di_currency inp) (build_postings inp) db2 = (Inr (), db3)"
    using insert_postings_total [OF open2 build_postings_ok] fits by (fastforce simp: delta_fits_def)
  obtain rows n where db3: "db3 = db2\<lparr>vd_postings := \<lparr>t_seq = n, t_rows = t_rows (vd_postings db2) @ rows\<rparr>\<rparr>"
    using insert_postings_effect [OF p] by blast
  have "length (filter (\<lambda>r. jo_id r = ?j \<and> jo_posted_at r = None) (t_rows (vd_journals db3))) = 1"
  proof -
    have "t_rows (vd_journals db3) = t_rows (vd_journals db) @ [?mk ?j]" by (simp add: db3 db2_def db1_def)
    then show ?thesis using seal_new(1) [of "t_rows (vd_journals db)" ?j "?mk ?j"] ids by (fastforce simp: new_journal_def)
  qed
  then have "\<exists>db4. seal_journal_tx ?j db3 = (Inr (), db4)" by (simp add: seal_journal_tx_def tab_update_def)
  with enc c l p show ?thesis by (auto simp: record_delta_def vc_bind_def vc_lift_def)
qed

section \<open>Committing it\<close>

lemma specs_balanced:
  assumes "delta_fits inp db"
  shows "2 \<le> length (build_postings inp) \<and> sum_list (map ps_amount (build_postings inp)) = 0"
proof -
  have "in_int64 (- di_delta inp)" using assms unfolding delta_fits_def by blast
  then have "wrap64 (- di_delta inp) = - di_delta inp" by (rule wrap64_id)
  with assms show ?thesis by (auto simp: build_postings_def delta_fits_def)
qed

lemma posting_amounts: "list_all2 (posting_of j c) rows ps \<Longrightarrow> map pt_amount rows = map ps_amount ps"
  by (induction rule: list_all2_induct) (auto simp: posting_of_def)

lemma recorded_commits:
  assumes fits: "delta_fits inp db" and jo: "journals_ok db" and jt: "tab_ok jo_id jo_ukey (vd_journals db)"
    and same: "vd_journals db1 = vd_journals db" "vd_postings db1 = vd_postings db"
    and rec: "recorded inp b md rows db1 db'"
  shows "no_new_unbalanced db db'"
proof -
  note r = rec [unfolded recorded_def Let_def same]
  let ?j = "t_seq (vd_journals db) + 1"
  have specs: "list_all2 (posting_of ?j (di_currency inp)) rows (build_postings inp)" using r by simp
  have old: "filter (\<lambda>p. pt_journal p = ?j) (t_rows (vd_postings db)) = []"
    using jo by (force simp: journals_ok_def list_all_iff filter_empty_conv)
  have mine: "filter (\<lambda>p. pt_journal p = ?j) rows = rows" using posting_journals [OF specs] by simp
  have len: "length rows = length (build_postings inp)" using specs by (rule list_all2_lengthD)
  have "journal_balanced db' j" if j: "j \<in> set (t_rows (vd_journals db'))" "t_seq (vd_journals db) < jo_id j" for j
  proof -
    have "jo_id j = ?j \<and> jo_posted_at j \<noteq> None"
      using r j jt by (auto simp: tab_ok_def seal_journal_def new_journal_def)
    with r old mine len posting_amounts [OF specs] specs_balanced [OF fits] show ?thesis
      by (simp add: journal_balanced_def journal_postings_def tab_select_def)
  qed
  then show ?thesis by (simp add: no_new_unbalanced_def)
qed

text \<open>The result of the checks of \<open>applyCurrencyDeltaTx\<close> over the balances of the account.\<close>

definition balance_verdict :: "vc_delta_input \<Rightarrow> int64 option \<Rightarrow> int \<Rightarrow> int \<Rightarrow> go_error + int64 \<times> int64" where
  "balance_verdict inp mb a r =
     (let a' = a + di_available inp; r' = r + di_reserved inp in
      if a' < 0 \<or> a' > max_int64 \<or> r' < 0 \<or> r' > max_int64 then Inl err_vc_insufficient
      else (case mb of None \<Rightarrow> Inr (a', r') | Some m \<Rightarrow> if a' + r' > max_int64 \<or> a' + r' > m then Inl err_vc_limit else Inr (a', r')))"

definition delta_verdict :: "vc_delta_input \<Rightarrow> vc_currency \<Rightarrow> vc_db \<Rightarrow> go_error + int64 \<times> int64" where
  "delta_verdict inp cur db =
     (if cu_status cur \<noteq> vc_active \<and> \<not> di_settlement inp then Inl err_vc_disabled
      else (case fst (check_policy inp db) of Inl e \<Rightarrow> Inl e | Inr mb \<Rightarrow>
        if di_require_access inp \<and> \<not> di_settlement inp \<and> \<not> user_allowed db (di_group inp) (di_user inp) then Inl err_vc_group_denied
        else balance_verdict inp mb (avail_of db (di_user inp) (di_currency inp)) (reserved_of db (di_user inp) (di_currency inp))))"

lemma new_balances_verdict:
  assumes "0 \<le> wa_available w" "0 \<le> wa_reserved w" "in_int64 (wa_available w)" "in_int64 (wa_reserved w)"
    and "in_int64 (di_available inp)" "in_int64 (di_reserved inp)"
  shows "new_balances inp w mb = balance_verdict inp mb (wa_available w) (wa_reserved w)"
  using assms unfolding new_balances_def balance_verdict_def Let_def safe_add_int64_spec [OF assms(3,5)] safe_add_int64_spec [OF assms(4,6)]
  by (auto simp: in_int64_def min_int64_def max_int64_def safe_add_int64_spec split: option.splits prod.splits)

lemma ensure_wallet_total:
  assumes "user_exists db (Some u)" and "currency_exists db c"
  shows "\<exists>db1. ensure_wallet u c db = (Inr (), db1)"
  using assms by (auto simp: ensure_wallet_def user_exists_def)

lemma apply_delta_exact:
  assumes books: "books_ok db" and up: "vd_faults db = []" and fits: "delta_fits inp db"
    and range: "in_int64 (di_available inp)" "in_int64 (di_reserved inp)"
    and cur: "find_currency (\<lambda>c. cu_id c = di_currency inp) db = (Inr cur, db)"
    and none: "ledger_by_key (di_currency inp) (di_user inp) (di_key inp) db = None"
  shows "fst (apply_currency_delta go_now inp db) = (case delta_verdict inp cur db of Inl e \<Rightarrow> Inl e
     | Inr b \<Rightarrow> Inr (join_entry cur (new_ledger_row inp (di_metadata inp) go_now (t_seq (vd_journals db) + 1) b (t_seq (vd_ledger db) + 1))))"
proof -
  have cx: "currency_exists db (di_currency inp)" using find_currency_Inr [OF cur] by simp
  obtain db1 where ens: "ensure_wallet (di_user inp) (di_currency inp) db = (Inr (), db1)"
    using ensure_wallet_total [OF _ cx] fits by (auto simp: delta_fits_def)
  note eff = ensure_wallet_effect [OF books ens]
  have books1: "books_ok db1" and seqs: "vd_journals db1 = vd_journals db" "vd_ledger db1 = vd_ledger db" "vd_postings db1 = vd_postings db"
    and same: "same_rest db db1" using eff by blast+
  have wt: "tab_ok wa_id wa_key (vd_wallets db1)" and jt: "tab_ok jo_id jo_ukey (vd_journals db1)" and jo1: "journals_ok db1"
    using books1 by (simp_all add: books_ok_def tables_ok_def)
  obtain w where w: "wallet_of db1 (di_user inp) (di_currency inp) = Some w" using eff by blast
  have wok: "wallet_row_ok db1 w" using books1 w by (simp add: books_ok_def list_all_iff wallet_of_row [OF wt])
  have av: "avail_of db (di_user inp) (di_currency inp) = wa_available w" "reserved_of db (di_user inp) (di_currency inp) = wa_reserved w"
    using eff moved_zero [of db db1 "di_user inp" "di_currency inp" "di_user inp" "di_currency inp"] w
    by (auto simp: avail_of_def [of db1] reserved_of_def [of db1])
  have lock: "lock_wallet (di_user inp) (di_currency inp) db1 = (Inr w, db1)" using w by (simp add: lock_wallet_def wallet_of_def)
  have led: "ledger_by_key (di_currency inp) (di_user inp) (di_key inp) db1 = None"
  proof -
    have curs: "vd_currencies db1 = vd_currencies db" using same by (simp add: same_rest_def)
    show ?thesis using none unfolding ledger_by_key_def seqs curs .
  qed
  have tx: "apply_delta_tx go_now inp db = post_delta go_now inp cur w db1"
    unfolding apply_delta_tx_def by (simp add: vc_bind_def cur ens lock led)
  have fits1: "delta_fits inp db1"
    using fits same delta_fits_same [of db1 db] by (simp add: same_rest_def)
  have nb: "new_balances inp w mb = balance_verdict inp mb (wa_available w) (wa_reserved w)" for mb
    using new_balances_verdict [of w inp mb] wok range by (simp add: wallet_row_ok_def)
  show ?thesis
  proof (cases "delta_verdict inp cur db")
    case (Inl err)
    have "fst (post_delta go_now inp cur w db1) = Inl err"
      using Inl same_rest_reads(1) [OF same, of inp] same_rest_reads(2) [OF same]
      unfolding post_delta_def delta_verdict_def av
      by (auto simp: vc_bind_def vc_guard_def check_access_def vc_lift_def nb split: if_splits sum.splits prod.splits)
    with Inl tx show ?thesis
      by (cases "post_delta go_now inp cur w db1") (simp add: apply_currency_delta_def vc_call_up [OF up])
  next
    case (Inr b)
    then obtain mb where mb: "fst (check_policy inp db) = Inr mb" and bal: "balance_verdict inp mb (wa_available w) (wa_reserved w) = Inr b"
      and ok: "cu_status cur = vc_active \<or> di_settlement inp" "di_require_access inp \<and> \<not> di_settlement inp \<longrightarrow> user_allowed db (di_group inp) (di_user inp)"
      by (auto simp: delta_verdict_def av split: if_splits sum.splits)
    have b: "0 \<le> fst b" "0 \<le> snd b"
      using bal by (auto simp: balance_verdict_def Let_def split: if_splits option.splits)
    have "tab_find (\<lambda>r. lr_ukey r = (di_currency inp, di_user inp, di_key inp)) (vd_ledger (wallet_after w b db1)) = None"
      using none ledger_by_key_None [OF cx] by (simp add: seqs)
    moreover have "delta_fits inp (wallet_after w b db1)"
      using fits1 delta_fits_same [of "wallet_after w b db1" db1] by (simp add: wallet_after_def)
    moreover have "journals_ok (wallet_after w b db1)" "tab_ok jo_id jo_ukey (vd_journals (wallet_after w b db1))"
    proof -
      have "journal_balanced (wallet_after w b db1) = journal_balanced db1"
        by (simp add: fun_eq_iff journal_balanced_def journal_postings_def)
      then show "journals_ok (wallet_after w b db1)" using jo1 by (simp add: journals_ok_def)
    qed (use jt in simp)
    ultimately obtain e db' where rec: "record_delta go_now inp cur b (wallet_after w b db1) = (Inr e, db')"
      using record_delta_total b by blast
    have post: "post_delta go_now inp cur w db1 = (Inr e, db')"
      using same_rest_reads(1) [OF same, of inp] same_rest_reads(2) [OF same] mb ok bal rec nb
      unfolding post_delta_def
      by (auto simp: vc_bind_def vc_guard_def check_access_def vc_lift_def update_wallet_def wallet_after_def)
    have "\<And>r. r \<in> set (t_rows (vd_journals (wallet_after w b db1))) \<Longrightarrow> jo_id r \<le> t_seq (vd_journals (wallet_after w b db1))"
      using jt by (simp add: tab_ok_def)
    from record_delta_effect [OF this rec] obtain md rows where rcd: "recorded inp b md rows (wallet_after w b db1) db'"
      and e: "e = join_entry cur (new_ledger_row inp (di_metadata inp) go_now (t_seq (vd_journals db) + 1) b (t_seq (vd_ledger db) + 1))"
      by (auto simp: seqs)
    have "no_new_unbalanced db db'"
      using recorded_commits [OF fits _ _ _ _ rcd] books by (simp add: books_ok_def tables_ok_def seqs)
    with tx post e Inr show ?thesis by (simp add: apply_currency_delta_def vc_call_up [OF up] commit_ok_iff)
  qed
qed

end
