(* ===== verification/VC_Life.thy ===== *)
theory VC_Life
  imports VC_Exact "HOL-Library.Sublist"
begin

text \<open>
  Two interpretations of \<open>vc_evolution\<close>: the ledger is only appended to, and a hold is settled at most
  once and then never changes. Then the other facts the properties of the currency rest on: replays,
  errors that leave the database alone, and the sweep.
\<close>

section \<open>The ledger\<close>

definition ledger_grows :: "vc_db \<Rightarrow> vc_db \<Rightarrow> bool" where
  "ledger_grows db db' \<longleftrightarrow> prefix (t_rows (vd_ledger db)) (t_rows (vd_ledger db'))"

lemma update_hold_books: "update_hold_tx h st db = (Inr u, db') \<Longrightarrow> same_books db db'"
  by (auto simp: update_hold_tx_def same_books_def split: prod.splits if_splits)

lemma reserve_tx_parts:
  assumes "reserve_hold_tx go_now inp db = (Inr he, db')"
  obtains e db1 where "apply_delta_tx go_now (reserve_delta inp) db = (Inr e, db1)" "same_books db1 db'"
    "prefix (t_rows (vd_holds db1)) (t_rows (vd_holds db'))"
proof -
  obtain e db1 db2 enc i hold where app: "apply_delta_tx go_now (reserve_delta inp) db = (Inr e, db1)"
    and ins: "insert_hold_tx inp enc db1 = (Inr i, db2)" and get: "get_hold_where (\<lambda>h. ho_id h = i) db2 = (Inr hold, db')"
    using assms by (auto simp: reserve_hold_tx_def vc_bind_Inr)
  have "same_books db1 db2" "prefix (t_rows (vd_holds db1)) (t_rows (vd_holds db2))"
    using ins by (auto simp: insert_hold_tx_def Let_def tab_insert_def same_books_def split: if_splits)
  with app get_hold_where_effect [OF get] that show ?thesis by blast
qed

interpretation ledger: vc_evolution ledger_grows
proof
  show "ledger_grows db db1" if "catalog_only db db1" for db db1
    using that by (simp add: ledger_grows_def catalog_only_def same_books_def)
  show grow: "ledger_grows db db1" if "vc_inv digest db" "apply_delta_tx go_now dinp db = (Inr e, db1)" for digest db go_now dinp e db1
    using apply_delta_ledger [OF vc_inv_sel(2) [OF that(1)] that(2)] by (auto simp: ledger_grows_def)
  show "ledger_grows db db1" if inv: "vc_inv digest db" and run: "reserve_hold_tx go_now rinp db = (Inr he, db1)" for digest db go_now rinp he db1
  proof (rule reserve_tx_parts [OF run])
    fix e db2
    assume "apply_delta_tx go_now (reserve_delta rinp) db = (Inr e, db2)" "same_books db2 db1"
    with grow [OF inv] show ?thesis by (simp add: ledger_grows_def same_books_def)
  qed
  show "ledger_grows db db1" if inv: "vc_inv digest db" and run: "settle_hold_tx go_now sinp ty0 st0 db = (Inr he, db1)"
    for digest db go_now sinp ty0 st0 he db1
  proof -
    obtain hold e where he: "he = (hold, e)" by fastforce
    show ?thesis
    proof (rule settle_cases [OF run [unfolded he]])
      fix h ty st db2 u
      assume app: "apply_delta_tx go_now (settle_delta sinp h ty) db = (Inr e, db2)" and upd: "update_hold_tx h st db2 = (Inr u, db1)"
      from grow [OF inv app] update_hold_books [OF upd] show ?thesis by (simp add: ledger_grows_def same_books_def)
    qed (simp add: ledger_grows_def)
  qed
qed (auto simp: ledger_grows_def)

section \<open>The life of a hold\<close>

definition hold_next :: "vc_hold_row \<Rightarrow> vc_hold_row \<Rightarrow> bool" where
  "hold_next h h' \<longleftrightarrow> h' = h \<or> (ho_status h = hold_active \<and>
     (\<exists>at. \<exists>st \<in> {hold_committed, hold_released, hold_expired}. h' = set_hold (st, at) h))"

definition holds_evolve :: "vc_db \<Rightarrow> vc_db \<Rightarrow> bool" where
  "holds_evolve db db' \<longleftrightarrow> (\<forall>h \<in> set (t_rows (vd_holds db)). \<exists>h' \<in> set (t_rows (vd_holds db')). hold_next h h')"

lemma hold_next_refl [simp]: "hold_next h h" by (simp add: hold_next_def)

lemma settled_not_active: "st \<in> {hold_committed, hold_released, hold_expired} \<Longrightarrow> st \<noteq> hold_active"
  by (auto simp: vc_statuses)

lemma hold_next_trans: "hold_next a b \<Longrightarrow> hold_next b c \<Longrightarrow> hold_next a c"
  unfolding hold_next_def using settled_not_active by (fastforce simp: set_hold_def)

lemma holds_evolve_same: "vd_holds db' = vd_holds db \<Longrightarrow> holds_evolve db db'"
  unfolding holds_evolve_def using hold_next_refl by metis

lemma apply_delta_holds:
  assumes books: "books_ok db" and run: "apply_delta_tx go_now inp db = (Inr e, db')"
  shows "vd_holds db' = vd_holds db"
proof (rule apply_delta_cases [OF books run])
  fix cur x assume "ensure_wallet (di_user inp) (di_currency inp) db = (Inr x, db')"
  then show ?thesis using ensure_wallet_effect [OF books] by blast
next
  fix cur x db1 w mb b md rows
  assume "ensure_wallet (di_user inp) (di_currency inp) db = (Inr x, db1)" "recorded inp b md rows (wallet_after w b db1) db'"
  then show ?thesis using ensure_wallet_effect [OF books] by (simp add: recorded_def)
qed

interpretation life: vc_evolution holds_evolve
proof
  show "holds_evolve db db2" if "holds_evolve db db1" "holds_evolve db1 db2" for db db1 db2
    using that hold_next_trans unfolding holds_evolve_def by blast
  show "holds_evolve db db1" if "catalog_only db db1" for db db1
  proof -
    have "vd_holds db1 = vd_holds db" using that by (simp add: catalog_only_def)
    then show ?thesis using holds_evolve_same by simp
  qed
  show same: "holds_evolve db db1" if "vc_inv digest db" "apply_delta_tx go_now dinp db = (Inr e, db1)" for digest db go_now dinp e db1
    using apply_delta_holds [OF vc_inv_sel(2) [OF that(1)] that(2)] holds_evolve_same by blast
  show "holds_evolve db db1" if inv: "vc_inv digest db" and run: "reserve_hold_tx go_now rinp db = (Inr he, db1)" for digest db go_now rinp he db1
  proof (rule reserve_tx_parts [OF run])
    fix e db2
    assume app: "apply_delta_tx go_now (reserve_delta rinp) db = (Inr e, db2)" and pre: "prefix (t_rows (vd_holds db2)) (t_rows (vd_holds db1))"
    have "set (t_rows (vd_holds db)) \<subseteq> set (t_rows (vd_holds db1))"
      using apply_delta_holds [OF vc_inv_sel(2) [OF inv] app] set_mono_prefix [OF pre] by simp
    then show ?thesis unfolding holds_evolve_def using hold_next_refl by blast
  qed
  show "holds_evolve db db1" if inv: "vc_inv digest db" and st0: "st0 \<in> {hold_committed, hold_released, hold_expired}"
    and run: "settle_hold_tx go_now sinp ty0 st0 db = (Inr he, db1)"
    for digest db go_now sinp ty0 st0 he db1
  proof -
    obtain hold e where he: "he = (hold, e)" by fastforce
    show ?thesis
    proof (rule settle_cases [OF run [unfolded he]])
      fix h ty st db2 u
      assume h: "h \<in> set (t_rows (vd_holds db))" "ho_status h = hold_active" and kind: "settle_kind go_now sinp h ty0 st0 = (ty, st)"
        and app: "apply_delta_tx go_now (settle_delta sinp h ty) db = (Inr e, db2)" and upd: "update_hold_tx h st db2 = (Inr u, db1)"
      have st: "st \<in> {hold_committed, hold_released, hold_expired}" using kind st0 by (auto simp: settle_kind_def split: if_splits)
      have hs: "vd_holds db2 = vd_holds db" using apply_delta_holds [OF vc_inv_sel(2) [OF inv] app] .
      note ue = update_hold_effect [OF vc_inv_sel(6) [OF inv, folded hs] h(1) [folded hs] h(2) settled_not_active [OF st] upd]
      have nxt: "hold_next x (if ho_id x = ho_id h then set_hold (st, vd_now db2) x else x)"
        if "x \<in> set (t_rows (vd_holds db))" for x
        using hot.row_unique_rid [OF vc_inv_sel(6) [OF inv] that h(1)] h(2) st unfolding hold_next_def by auto
      have "t_rows (vd_holds db1) = map (\<lambda>x. if ho_id x = ho_id h then set_hold (st, vd_now db2) x else x) (t_rows (vd_holds db))"
        using ue hs by simp
      then show ?thesis using nxt unfolding holds_evolve_def by fastforce
    next
      assume "db1 = db"
      then show ?thesis using holds_evolve_same by simp
    qed
  qed
qed (auto simp: holds_evolve_def intro: hold_next_refl)

end
