(* ===== verification/VC_Demo.thy ===== *)
theory VC_Demo
  imports VC_Life
begin

text \<open>
  A small history of the virtual currency at which the properties are applied: a currency, a policy,
  a grant of 100 units to user 7 and a hold of 40 of them.
\<close>

definition demo_amount :: "fp_payload \<Rightarrow> int64" where
  "demo_amount p = (case p of MutationPayload _ _ _ a _ _ _ _ _ _ \<Rightarrow> a | HoldPayload _ _ _ a _ _ _ _ _ _ \<Rightarrow> a)"

definition demo_digest :: "fp_payload \<Rightarrow> string" where
  "demo_digest p = (if is_reserve p then CHR ''a'' else CHR ''b'') # show_nat_pad 63 (nat (\<bar>demo_amount p\<bar> mod 1000))"

lemma demo_kinded: "kinded demo_digest"
  by (auto simp: kinded_def demo_digest_def)

definition demo_now :: gtime where "demo_now = 1000"

definition demo_world :: vc_world where
  "demo_world = \<lparr>ww_groups = [\<lparr>gr_id = 3, gr_status = ''active'', gr_deleted_at = None,
     gr_subscription_type = ''standard'', gr_exclusive = False\<rparr>], ww_users = [7], ww_allowed = [],
     ww_subscriptions = [], ww_now = demo_now, ww_faults = []\<rparr>"

definition demo_currency :: vc_create_input where
  "demo_currency = \<lparr>ci_code = '' Gems '', ci_name = ''Gems'', ci_symbol = ''G'', ci_description = [], ci_scale = 2,
     ci_metadata = NilMap, ci_created_by = None\<rparr>"

definition demo_policy :: "int64 option \<Rightarrow> vc_policy_input" where
  "demo_policy limit = \<lparr>pi_currency = 1, pi_group = 3, pi_enabled = True, pi_can_earn = True, pi_can_spend = True,
     pi_max = limit, pi_metadata = NilMap\<rparr>"

definition demo_grant :: "int64 \<Rightarrow> string \<Rightarrow> vc_adjust_request" where
  "demo_grant amount key = \<lparr>aq_code = ''gems'', aq_user = 7, aq_group = 3, aq_amount = amount, aq_type = [],
     aq_source_type = ''mission'', aq_source_id = [], aq_key = key, aq_reason = [], aq_metadata = NilMap,
     aq_created_by = None, aq_require_access = True\<rparr>"

definition demo_reserve :: vc_reserve_request where
  "demo_reserve = \<lparr>rq_code = ''gems'', rq_user = 7, rq_group = 3, rq_amount = 40, rq_expires_at = demo_now + hour,
     rq_source_type = ''game'', rq_source_id = [], rq_key = ''r1'', rq_reason = [], rq_metadata = NilMap\<rparr>"

definition demo_spend :: "int64 \<Rightarrow> string \<Rightarrow> vc_spend_request" where
  "demo_spend amount key = \<lparr>sq_code = ''gems'', sq_user = 7, sq_group = 3, sq_amount = amount, sq_source_type = ''game'',
     sq_source_id = [], sq_key = key, sq_reason = [], sq_metadata = NilMap\<rparr>"

definition demo_settle :: "string \<Rightarrow> vc_settle_request" where
  "demo_settle key = \<lparr>tq_hold = 1, tq_user = 7, tq_source_type = ''game'', tq_source_id = [], tq_key = key,
     tq_reason = [], tq_metadata = NilMap\<rparr>"

definition demo_db1 :: vc_db where "demo_db1 = snd (svc_create_currency demo_currency (set_world demo_world empty_vc_db))"
definition demo_db2 :: vc_db where "demo_db2 = snd (svc_upsert_policy (demo_policy None) demo_db1)"
definition demo_db3 :: vc_db where "demo_db3 = snd (svc_grant demo_digest demo_now (demo_grant 100 ''g1'') demo_db2)"
definition demo_db4 :: vc_db where "demo_db4 = snd (svc_reserve_hold demo_digest demo_now demo_now demo_reserve demo_db3)"
definition demo_db5 :: vc_db where "demo_db5 = snd (svc_commit_hold demo_digest demo_now (demo_settle ''c1'') demo_db4)"

lemma demo_reachable: "vc_reachable demo_digest demo_db1" "vc_reachable demo_digest demo_db2"
  "vc_reachable demo_digest demo_db3" "vc_reachable demo_digest demo_db4" "vc_reachable demo_digest demo_db5"
proof -
  show r1: "vc_reachable demo_digest demo_db1"
    unfolding demo_db1_def by (rule reach_step [OF reach_step [OF reach_empty step_world] step_create [OF prod.collapse [symmetric]]])
  show r2: "vc_reachable demo_digest demo_db2"
    unfolding demo_db2_def by (rule reach_step [OF r1 step_policy [OF prod.collapse [symmetric]]])
  show r3: "vc_reachable demo_digest demo_db3"
    unfolding demo_db3_def by (rule reach_step [OF r2 step_grant [OF prod.collapse [symmetric]]])
  show r4: "vc_reachable demo_digest demo_db4"
    unfolding demo_db4_def by (rule reach_step [OF r3 step_reserve [OF prod.collapse [symmetric]]])
  show "vc_reachable demo_digest demo_db5"
    unfolding demo_db5_def by (rule reach_step [OF r4 step_commit [OF prod.collapse [symmetric]]])
qed

text \<open>The databases of the history, computed step by step.\<close>

definition demo_entry :: "int64 \<Rightarrow> int64 \<times> int64 \<times> int64 \<Rightarrow> int64 \<times> int64 \<Rightarrow> string \<times> string \<Rightarrow> string \<times> string \<Rightarrow> vc_ledger_row" where
  "demo_entry i d b t k = \<lparr>lr_id = i, lr_journal = i, lr_currency = 1, lr_user = 7, lr_group = Some 3,
     lr_delta = fst d, lr_available = fst (snd d), lr_reserved = snd (snd d), lr_available_after = fst b, lr_reserved_after = snd b,
     lr_type = fst t, lr_source_type = snd t, lr_source_id = None, lr_key = fst k, lr_fingerprint = snd k, lr_reason = [],
     lr_metadata = JsonMap empty_json, lr_created_by = None, lr_created_at = demo_now\<rparr>"

definition demo_journal :: "int64 \<Rightarrow> string \<times> string \<Rightarrow> string \<times> string \<Rightarrow> vc_journal" where
  "demo_journal i t k = \<lparr>jo_id = i, jo_currency = 1, jo_user = 7, jo_group = Some 3, jo_type = fst t, jo_source_type = snd t,
     jo_source_id = None, jo_key = fst k, jo_fingerprint = snd k, jo_reason = [], jo_metadata = JsonMap empty_json,
     jo_created_by = None, jo_created_at = demo_now, jo_posted_at = Some demo_now\<rparr>"

definition demo_posting :: "int64 \<Rightarrow> int64 \<Rightarrow> int64 option \<Rightarrow> string \<Rightarrow> int64 \<Rightarrow> vc_posting" where
  "demo_posting i j u k a = \<lparr>pt_id = i, pt_journal = j, pt_currency = 1, pt_user = u, pt_kind = k, pt_amount = a, pt_created_at = demo_now\<rparr>"

definition demo_hold :: "string \<Rightarrow> gtime option \<Rightarrow> vc_hold_row" where
  "demo_hold st settled = \<lparr>ho_id = 1, ho_currency = 1, ho_user = 7, ho_group = Some 3, ho_amount = 40, ho_status = st,
     ho_source_type = ''game'', ho_source_id = None, ho_key = ''hold.reserve:r1'', ho_expires_at = demo_now + hour,
     ho_metadata = JsonMap empty_json, ho_created_at = demo_now, ho_updated_at = demo_now, ho_settled_at = settled\<rparr>"

definition demo_books :: "int64 \<times> int64 \<Rightarrow> vc_hold_row list \<Rightarrow> vc_ledger_row list \<Rightarrow> vc_journal list \<Rightarrow> vc_posting list \<Rightarrow> vc_db \<Rightarrow> vc_db" where
  "demo_books b hs ls js ps db = db\<lparr>
     vd_wallets := \<lparr>t_seq = 1, t_rows = [\<lparr>wa_id = 1, wa_user = 7, wa_currency = 1, wa_available = fst b, wa_reserved = snd b,
       wa_version = int (length ls), wa_created_at = demo_now, wa_updated_at = demo_now\<rparr>]\<rparr>,
     vd_ledger := \<lparr>t_seq = int (length ls), t_rows = ls\<rparr>, vd_holds := \<lparr>t_seq = int (length hs), t_rows = hs\<rparr>,
     vd_journals := \<lparr>t_seq = int (length js), t_rows = js\<rparr>, vd_postings := \<lparr>t_seq = int (length ps), t_rows = ps\<rparr>\<rparr>"

definition demo_base :: vc_db where
  "demo_base = (set_world demo_world empty_vc_db)\<lparr>
     vd_currencies := \<lparr>t_seq = 1, t_rows = [\<lparr>cu_id = 1, cu_code = ''gems'', cu_name = ''Gems'', cu_symbol = ''G'', cu_description = [],
       cu_scale = 2, cu_status = vc_active, cu_metadata = JsonMap empty_json, cu_created_by = None, cu_created_at = demo_now,
       cu_updated_at = demo_now\<rparr>]\<rparr>,
     vd_policies := \<lparr>t_seq = 1, t_rows = [\<lparr>po_id = 1, po_currency = 1, po_group = 3, po_enabled = True, po_can_earn = True,
       po_can_spend = True, po_max = None, po_metadata = JsonMap empty_json, po_created_at = demo_now, po_updated_at = demo_now\<rparr>]\<rparr>\<rparr>"

definition demo_print :: "string \<Rightarrow> nat \<Rightarrow> string" where "demo_print c n = c @ show_nat_pad 63 n"

definition demo_ledger :: "vc_ledger_row list" where
  "demo_ledger = [demo_entry 1 (100, 100, 0) (100, 0) (entry_grant, ''mission'') (''g1'', demo_print ''b'' 100),
     demo_entry 2 (0, - 40, 40) (60, 40) (entry_reserve, ''game'') (''hold.reserve:r1'', demo_print ''a'' 40),
     demo_entry 3 (- 40, 0, - 40) (60, 0) (entry_commit, ''game'') (''hold.commit:c1'', demo_print ''b'' 40)]"

definition demo_journals :: "vc_journal list" where
  "demo_journals = [demo_journal 1 (entry_grant, ''mission'') (''g1'', demo_print ''b'' 100),
     demo_journal 2 (entry_reserve, ''game'') (''hold.reserve:r1'', demo_print ''a'' 40),
     demo_journal 3 (entry_commit, ''game'') (''hold.commit:c1'', demo_print ''b'' 40)]"

definition demo_postings :: "vc_posting list" where
  "demo_postings = [demo_posting 1 1 (Some 7) acct_user_available 100, demo_posting 2 1 None acct_issuance (- 100),
     demo_posting 3 2 (Some 7) acct_user_available (- 40), demo_posting 4 2 (Some 7) acct_user_reserved 40,
     demo_posting 5 3 (Some 7) acct_user_reserved (- 40), demo_posting 6 3 None acct_sink 40]"

lemma demo_db2_eq: "demo_db2 = demo_base" unfolding demo_db2_def demo_db1_def by code_simp

lemma demo_db3_eq: "demo_db3 = demo_books (100, 0) [] (take 1 demo_ledger) (take 1 demo_journals) (take 2 demo_postings) demo_base"
  unfolding demo_db3_def demo_db2_eq by code_simp

lemma demo_db4_eq: "demo_db4 = demo_books (60, 40) [demo_hold hold_active None] (take 2 demo_ledger) (take 2 demo_journals) (take 4 demo_postings) demo_base"
  unfolding demo_db4_def demo_db3_eq by code_simp

lemma demo_db5_eq: "demo_db5 = demo_books (60, 0) [demo_hold hold_committed (Some demo_now)] demo_ledger demo_journals demo_postings demo_base"
  unfolding demo_db5_def demo_db4_eq by code_simp

end
