(* ===== verification/VC_Props.thy ===== *)
theory VC_Props
  imports VC_Demo
begin

text \<open>
  The properties of the virtual currency: of every reachable database, of one request, and of
  sequences of requests, each applied at the history of \<open>VC_Demo\<close>.
\<close>

section \<open>Every reachable database\<close>



text \<open>
Claim C14: the ledger is immutable: whatever steps follow a reachable database, its entries stay where
they are, unchanged, and new ones are only appended.
\<close>

theorem ledger_immutable:
  assumes "vc_reachable digest db" and "kinded digest" and "(vc_step digest)\<^sup>*\<^sup>* db db'"
  shows "prefix (t_rows (vd_ledger db)) (t_rows (vd_ledger db'))"
  using ledger.steps [OF assms(3,2) reachable_inv [OF assms(1,2)]] by (simp add: ledger_grows_def)

theorem ledger_immutable_witness:
  "prefix (t_rows (vd_ledger demo_db3)) (t_rows (vd_ledger demo_db4)) \<and> length (t_rows (vd_ledger demo_db4)) = 2"
proof -
  have "vc_step demo_digest demo_db3 demo_db4"
    unfolding demo_db4_def by (rule step_reserve [OF prod.collapse [symmetric]])
  with ledger_immutable [OF demo_reachable(3) demo_kinded]
  have "prefix (t_rows (vd_ledger demo_db3)) (t_rows (vd_ledger demo_db4))" by blast
  moreover have "length (t_rows (vd_ledger demo_db4)) = 2" unfolding demo_db4_eq by code_simp
  ultimately show ?thesis by blast
qed

text \<open>
Claim C13: a hold is never lost and is settled at most once: after any steps a hold that was active is
still there, unchanged but for its status and the times of its settlement, and one that was not active
is unchanged.
\<close>

theorem hold_settled_once:
  assumes "vc_reachable digest db" and "kinded digest" and "(vc_step digest)\<^sup>*\<^sup>* db db'" and "h \<in> set (t_rows (vd_holds db))"
  shows "\<exists>h' \<in> set (t_rows (vd_holds db')). h' = h \<or> (ho_status h = hold_active \<and>
    (\<exists>at. \<exists>st \<in> {hold_committed, hold_released, hold_expired}.
       h' = h\<lparr>ho_status := st, ho_settled_at := Some at, ho_updated_at := at\<rparr>))"
proof -
  have "holds_evolve db db'" using life.steps [OF assms(3,2) reachable_inv [OF assms(1,2)]] by blast
  with assms(4) show ?thesis by (simp add: holds_evolve_def hold_next_def set_hold_def)
qed

theorem hold_settled_once_witness:
  "\<exists>h' \<in> set (t_rows (vd_holds demo_db5)). ho_status h' \<noteq> hold_active \<and> ho_amount h' = 40"
proof -
  have "vc_step demo_digest demo_db4 demo_db5"
    unfolding demo_db5_def by (rule step_commit [OF prod.collapse [symmetric]])
  then have steps: "(vc_step demo_digest)\<^sup>*\<^sup>* demo_db4 demo_db5" by blast
  have h: "demo_hold hold_active None \<in> set (t_rows (vd_holds demo_db4))" unfolding demo_db4_eq by code_simp
  have none: "\<not> list_ex (\<lambda>h. ho_status h = hold_active) (t_rows (vd_holds demo_db5))" unfolding demo_db5_eq by code_simp
  have amount: "ho_amount (demo_hold hold_active None) = 40" by code_simp
  from hold_settled_once [OF demo_reachable(4) demo_kinded steps h] obtain h' at st where
    h': "h' \<in> set (t_rows (vd_holds demo_db5))"
    "h' = demo_hold hold_active None \<or> h' = (demo_hold hold_active None)\<lparr>ho_status := st, ho_settled_at := Some at, ho_updated_at := at\<rparr>"
    by blast
  then have "ho_amount h' = 40" using amount by auto
  moreover have "ho_status h' \<noteq> hold_active" using none h'(1) by (auto simp: list_ex_iff)
  ultimately show ?thesis using h'(1) by blast
qed

end
