(* ===== verification/VC_Laws.thy ===== *)
theory VC_Laws
  imports VC_Life
begin

text \<open>
  Laws of single requests: an error leaves the database as it was, a repeated key is answered from the
  ledger, and on a database whose statements all answer the result of a request is determined by its
  checks.
\<close>

section \<open>Errors change nothing\<close>

definition only_faults :: "vc_db \<Rightarrow> vc_db \<Rightarrow> bool" where
  "only_faults db db' \<longleftrightarrow> (\<exists>n. db' = db\<lparr>vd_faults := drop n (vd_faults db)\<rparr>)"

definition quiet :: "'x vc_op \<Rightarrow> bool" where "quiet m \<longleftrightarrow> (\<forall>db r db'. m db = (r, db') \<longrightarrow> only_faults db db')"
definition atomic :: "'x vc_op \<Rightarrow> bool" where "atomic m \<longleftrightarrow> (\<forall>db e db'. m db = (Inl e, db') \<longrightarrow> only_faults db db')"

lemma only_faults_refl [simp]: "only_faults db db" unfolding only_faults_def by (rule exI [of _ 0]) simp

lemma only_faults_without [simp]: "only_faults db (without_fault db)"
  unfolding only_faults_def without_fault_def by (rule exI [of _ 1]) (simp add: drop_Suc)

lemma only_faults_trans: "only_faults a b \<Longrightarrow> only_faults b c \<Longrightarrow> only_faults a c"
  by (auto simp: only_faults_def)

lemma quiet_simple: "quiet (vc_return x)" "quiet (vc_fail e)" "quiet (vc_lift r)"
  by (auto simp: quiet_def vc_lift_def split: sum.splits)

lemma quiet_atomic: "quiet m \<Longrightarrow> atomic m" by (simp add: quiet_def atomic_def)

lemma quiet_bind: "quiet m \<Longrightarrow> (\<And>x. quiet (f x)) \<Longrightarrow> quiet (vc_bind m f)"
  unfolding quiet_def vc_bind_def by (auto split: prod.splits sum.splits dest: only_faults_trans) (metis only_faults_trans)+

lemma atomic_bind: "quiet m \<Longrightarrow> (\<And>x. atomic (f x)) \<Longrightarrow> atomic (vc_bind m f)"
  unfolding quiet_def atomic_def vc_bind_def by (auto split: prod.splits sum.splits) (metis only_faults_trans)+

lemma atomic_call: "atomic (vc_call m)"
  by (auto simp: atomic_def dest: vc_call_Inl)

lemma quiet_call:
  assumes "\<And>db x db'. m db = (Inr x, db') \<Longrightarrow> db' = db"
  shows "quiet (vc_call m)"
  unfolding quiet_def
proof (intro allI impI)
  fix db r db' assume run: "vc_call m db = (r, db')"
  show "only_faults db db'"
  proof (cases r)
    case (Inl e) with run vc_call_Inl show ?thesis by (metis only_faults_without)
  next
    case (Inr x) with run vc_call_Inr [of m db x db'] assms show ?thesis by (metis only_faults_without)
  qed
qed

lemma quiet_reads: "quiet (vc_call (vc_read f))" "quiet (get_currency_by_id i)" "quiet (get_currency_by_code code)"
  "quiet (get_hold user i)" "quiet (check_metadata md)"
proof -
  show "quiet (vc_call (vc_read f))" by (rule quiet_call) simp
  show "quiet (get_currency_by_id i)" "quiet (get_currency_by_code code)"
    unfolding get_currency_by_id_def get_currency_by_code_def
    by (rule quiet_call; auto simp: find_currency_def split: option.splits)+
  show "quiet (get_hold user i)" unfolding get_hold_def by (rule quiet_call) (auto dest: get_hold_where_effect)
  show "quiet (check_metadata md)" by (simp add: check_metadata_def quiet_simple split: option.splits)
qed

lemma quiet_if: "(b \<Longrightarrow> quiet m) \<Longrightarrow> (\<not> b \<Longrightarrow> quiet n) \<Longrightarrow> quiet (if b then m else n)" by simp
lemma atomic_if: "(b \<Longrightarrow> atomic m) \<Longrightarrow> (\<not> b \<Longrightarrow> atomic n) \<Longrightarrow> atomic (if b then m else n)" by simp

lemmas atomic_rules = atomic_if atomic_bind quiet_if quiet_bind quiet_reads quiet_simple quiet_simple [THEN quiet_atomic] atomic_call

lemma atomic_requests:
  "atomic (svc_create_currency ci)" "atomic (svc_update_currency i ui)" "atomic (svc_set_status i status)"
  "atomic (svc_upsert_policy pin)" "atomic (svc_enable_for_all i)" "atomic (svc_delete_policy i g)"
  "atomic (svc_adjust digest now q)" "atomic (svc_grant digest now q)" "atomic (svc_spend digest now sq)"
  "atomic (svc_reserve_hold digest now now' rq)" "atomic (svc_settle_hold digest now tq action)"
  unfolding svc_create_currency_def svc_update_currency_def svc_set_status_def svc_upsert_policy_def svc_enable_for_all_def
    svc_delete_policy_def svc_get_currency_def repo_create_currency_def repo_update_currency_def repo_set_status_def
    repo_upsert_policy_def repo_enable_for_all_def repo_delete_policy_def svc_grant_def svc_adjust_def svc_spend_def
    svc_reserve_hold_def svc_settle_hold_def apply_currency_delta_def reserve_hold_def settle_hold_def commit_hold_def
    release_hold_def resolve_admin_group_def repo_list_user_wallets_def list_group_policies_def Let_def
  by (intro atomic_rules)+

lemma atomicD: "atomic m \<Longrightarrow> m db = (Inl e, db') \<Longrightarrow> \<exists>n. db' = db\<lparr>vd_faults := drop n (vd_faults db)\<rparr>"
  unfolding atomic_def only_faults_def by blast

section \<open>Repeated keys\<close>

lemma commit_same: "books_ok db \<Longrightarrow> commit_ok db db"
  by (auto simp: commit_ok_iff no_new_unbalanced_def books_ok_def tables_ok_def tab_ok_def)

lemma entry_row:
  assumes "ledger_by_key c u k db = Some e"
  shows "le_row e \<in> set (t_rows (vd_ledger db)) \<and> lr_ukey (le_row e) = (c, u, k) \<and> currency_exists db c"
  using assms by (auto simp: ledger_by_key_def join_entry_def currency_exists_def lr_ukey_def split: option.splits dest: tab_find_Some)

lemma entry_wallet:
  assumes "books_ok db" and "ledger_by_key c u k db = Some e"
  shows "wallet_of db u c \<noteq> None"
proof -
  have "le_row e \<in> set (entries_of db u c)" using entry_row [OF assms(2)] by (auto simp: entries_of_def tab_select_def lr_ukey_def)
  then have "entries_of db u c \<noteq> []" by auto
  moreover have "account_ok db u c" using assms(1) by (simp add: books_ok_def)
  ultimately show ?thesis by (simp add: account_ok_def)
qed

lemma apply_delta_tx_replay:
  assumes books: "books_ok db" and hit: "ledger_by_key (di_currency inp) (di_user inp) (di_key inp) db = Some e"
  shows "apply_delta_tx go_now inp db =
    (if lr_fingerprint (le_row e) = di_fingerprint inp then Inr e else Inl err_vc_idempotency, db)"
proof -
  have cx: "currency_exists db (di_currency inp)" using entry_row [OF hit] by blast
  then obtain cur where cur: "find_currency (\<lambda>c. cu_id c = di_currency inp) db = (Inr cur, db)"
    by (auto simp: currency_exists_def find_currency_def)
  obtain w where w: "wallet_of db (di_user inp) (di_currency inp) = Some w" using entry_wallet [OF books hit] by blast
  then have "ensure_wallet (di_user inp) (di_currency inp) db = (Inr (), db)" "lock_wallet (di_user inp) (di_currency inp) db = (Inr w, db)"
    by (simp_all add: ensure_wallet_def lock_wallet_def wallet_of_def)
  then show ?thesis by (simp add: apply_delta_tx_def vc_bind_def cur hit)
qed

lemma apply_delta_replay:
  assumes books: "books_ok db" and up: "vd_faults db = []"
    and hit: "ledger_by_key (di_currency inp) (di_user inp) (di_key inp) db = Some e"
  shows "apply_currency_delta go_now inp db =
    (if lr_fingerprint (le_row e) = di_fingerprint inp then Inr e else Inl err_vc_idempotency, db)"
  using commit_same [OF books] by (simp add: apply_currency_delta_def vc_call_up [OF up] apply_delta_tx_replay [OF books hit])

lemma code_lookup:
  assumes "books_ok db" and "vd_faults db = []"
  shows "get_currency_by_code code db = find_currency (\<lambda>c. to_lower (cu_code c) = to_lower (trim_space code)) db"
  using commit_same [OF assms(1)]
  by (auto simp: get_currency_by_code_def vc_call_up [OF assms(2)] find_currency_def split: option.splits)

lemma find_by_id:
  assumes "tab_ok cu_id (\<lambda>c. to_lower (cu_code c)) (vd_currencies db)" and "tab_find P (vd_currencies db) = Some c"
  shows "find_currency (\<lambda>x. cu_id x = cu_id c) db = (Inr c, db)"
  using tab_find_rid [OF assms(1), of c] tab_find_Some [OF assms(2)] by (simp add: find_currency_def)

text \<open>A valid Spend is one mutation.\<close>

lemma spend_run:
  assumes books: "books_ok db" and up: "vd_faults db = []" and ok: "spend_ok (norm_spend q)"
    and md: "validate_metadata (sq_metadata (norm_spend q)) = None"
    and cur: "tab_find (\<lambda>c. to_lower (cu_code c) = to_lower (trim_space (sq_code (norm_spend q)))) (vd_currencies db) = Some c"
  shows "svc_spend digest now q db = apply_currency_delta now (spend_delta digest (norm_spend q) (cu_id c)) db"
  using ok md cur by (simp add: svc_spend_def Let_def vc_bind_def check_metadata_def code_lookup [OF books up] find_currency_def)

lemma vc_bind_up_Inr: "vc_bind m f db = (Inr y, db') \<Longrightarrow> quiet m \<Longrightarrow> \<exists>x db1. only_faults db db1 \<and> m db = (Inr x, db1) \<and> f x db1 = (Inr y, db')"
  unfolding vc_bind_Inr quiet_def by metis

lemma only_faults_inv: "vc_inv digest db \<Longrightarrow> only_faults db db1 \<Longrightarrow> vc_inv digest db1"
  by (rule catalog_only_inv) (auto simp: only_faults_def catalog_only_def same_books_def currency_exists_def)

lemma only_faults_reads:
  assumes "only_faults db db1"
  shows "vd_currencies db1 = vd_currencies db" "ledger_by_key c u k db1 = ledger_by_key c u k db" "avail_of db1 = avail_of db"
    "reserved_of db1 = reserved_of db" "vd_holds db1 = vd_holds db" "vd_ledger db1 = vd_ledger db"
proof -
  show same: "vd_currencies db1 = vd_currencies db" "vd_ledger db1 = vd_ledger db" "vd_holds db1 = vd_holds db"
    using assms by (auto simp: only_faults_def)
  show "ledger_by_key c u k db1 = ledger_by_key c u k db" unfolding ledger_by_key_def same ..
  show "avail_of db1 = avail_of db" "reserved_of db1 = reserved_of db"
    using assms by (auto simp: only_faults_def avail_of_def reserved_of_def wallet_of_def fun_eq_iff)
qed

lemma only_faults_without_trans: "only_faults db db1 \<Longrightarrow> only_faults db (without_fault db1)"
  using only_faults_trans only_faults_without by blast

text \<open>What a Spend that succeeded has done.\<close>

lemma spend_inv:
  assumes "svc_spend digest now q db = (Inr e, db')"
  obtains c db0 where "spend_ok (norm_spend q)" "validate_metadata (sq_metadata (norm_spend q)) = None"
    "tab_find (\<lambda>c. to_lower (cu_code c) = to_lower (trim_space (sq_code (norm_spend q)))) (vd_currencies db) = Some c"
    "only_faults db db0" "apply_delta_tx now (spend_delta digest (norm_spend q) (cu_id c)) db0 = (Inr e, db')" "no_new_unbalanced db0 db'"
proof -
  have ok: "spend_ok (norm_spend q)" using assms by (auto simp: svc_spend_def Let_def split: if_splits)
  with assms obtain x c db1 db2 where md: "check_metadata (sq_metadata (norm_spend q)) db = (Inr x, db1)"
    and c: "get_currency_by_code (sq_code (norm_spend q)) db1 = (Inr c, db2)"
    and run: "vc_call (apply_delta_tx now (spend_delta digest (norm_spend q) (cu_id c))) db2 = (Inr e, db')"
    by (auto simp: svc_spend_def Let_def vc_bind_Inr apply_currency_delta_def)
  have valid: "validate_metadata (sq_metadata (norm_spend q)) = None" "db1 = db"
    using md by (auto simp: check_metadata_def split: option.splits)
  have f2: "only_faults db db2" using quiet_reads(3) [of "sq_code (norm_spend q)"] c valid(2) unfolding quiet_def by blast
  have find: "tab_find (\<lambda>c. to_lower (cu_code c) = to_lower (trim_space (sq_code (norm_spend q)))) (vd_currencies db) = Some c"
    using vc_call_Inr [OF c [unfolded get_currency_by_code_def]] valid(2)
    by (auto simp: find_currency_def split: option.splits)
  from vc_call_Inr [OF run] show ?thesis
    using that [OF ok valid(1) find only_faults_without_trans [OF f2]] by (simp add: commit_ok_iff)
qed

text \<open>A mutation that succeeded is in the ledger under its key.\<close>

lemma apply_delta_logged:
  assumes books: "books_ok db" and run: "apply_delta_tx go_now inp db = (Inr e, db')"
  shows "\<exists>e'. ledger_by_key (di_currency inp) (di_user inp) (di_key inp) db' = Some e' \<and>
    lr_fingerprint (le_row e') = di_fingerprint inp \<and> lr_id (le_row e') = lr_id (le_row e) \<and>
    lr_delta (le_row e') = lr_delta (le_row e) \<and> lr_available_after (le_row e') = lr_available_after (le_row e) \<and>
    lr_reserved_after (le_row e') = lr_reserved_after (le_row e) \<and> lr_journal (le_row e') = lr_journal (le_row e)"
proof (rule apply_delta_cases [OF books run])
  fix cur x
  assume ens: "ensure_wallet (di_user inp) (di_currency inp) db = (Inr x, db')"
    and hit: "ledger_by_key (di_currency inp) (di_user inp) (di_key inp) db = Some e" "lr_fingerprint (le_row e) = di_fingerprint inp"
  have same: "vd_ledger db' = vd_ledger db" "vd_currencies db' = vd_currencies db"
    using ensure_wallet_effect [OF books ens] by (auto simp: same_rest_def)
  have "ledger_by_key (di_currency inp) (di_user inp) (di_key inp) db' = Some e" using hit(1) unfolding ledger_by_key_def same .
  with hit(2) show ?thesis by simp
next
  fix cur x db1 w mb b md rows
  assume cur: "find_currency (\<lambda>c. cu_id c = di_currency inp) db = (Inr cur, db)"
    and ens: "ensure_wallet (di_user inp) (di_currency inp) db = (Inr x, db1)"
    and rec: "recorded inp b md rows (wallet_after w b db1) db'"
    and e: "e = join_entry cur (new_ledger_row inp (di_metadata inp) go_now (t_seq (vd_journals db) + 1) b (t_seq (vd_ledger db) + 1))"
  note eff = ensure_wallet_effect [OF books ens]
  have seqs: "vd_journals db1 = vd_journals db" "vd_ledger db1 = vd_ledger db" "vd_currencies db1 = vd_currencies db"
    using eff by (auto simp: same_rest_def)
  note r = rec [unfolded recorded_def Let_def, simplified seqs wallet_after_sel]
  let ?row = "new_ledger_row inp md (vd_now db1) (t_seq (vd_journals db) + 1) b (t_seq (vd_ledger db) + 1)"
  have key: "lr_ukey ?row = (di_currency inp, di_user inp, di_key inp)" "lr_currency ?row = di_currency inp"
    by (simp_all add: new_ledger_row_def lr_ukey_def)
  have none: "find (\<lambda>r. lr_ukey r = (di_currency inp, di_user inp, di_key inp)) (t_rows (vd_ledger db)) = None"
    using r key by (simp add: tab_find_def)
  have led: "tab_find (\<lambda>r. lr_ukey r = (di_currency inp, di_user inp, di_key inp)) (vd_ledger db') = Some ?row"
    using r none key by (simp add: tab_find_def find_append)
  have curs: "vd_currencies db' = vd_currencies db" using r seqs by (simp add: same_rest_def)
  have "tab_find (\<lambda>c. cu_id c = di_currency inp) (vd_currencies db) = Some cur"
    using cur by (auto simp: find_currency_def split: option.splits)
  with led key(2) have "ledger_by_key (di_currency inp) (di_user inp) (di_key inp) db' = Some (join_entry cur ?row)"
    unfolding ledger_by_key_def curs by simp
  then show ?thesis using e by (simp add: join_entry_def new_ledger_row_def)
qed

lemma spend_sel: "di_currency (spend_delta digest q c) = c" "di_user (spend_delta digest q c) = sq_user q"
  "di_key (spend_delta digest q c) = sq_key q" "di_reserved (spend_delta digest q c) = 0"
  "di_group (spend_delta digest q c) = sq_group q" "di_settlement (spend_delta digest q c) = False"
  "di_require_spend (spend_delta digest q c)" "\<not> di_require_earn (spend_delta digest q c)" "di_require_access (spend_delta digest q c)"
  by (simp_all add: spend_delta_def Let_def)

lemma spend_units:
  assumes "spend_ok q"
  shows "di_available (spend_delta digest q c) = - sq_amount q" "di_delta (spend_delta digest q c) = - sq_amount q"
    "in_int64 (- sq_amount q)" "0 < sq_amount q"
  using assms units_range [of "sq_amount q"] by (simp_all add: spend_delta_def Let_def spend_ok_def max_mutation_units_def)

text \<open>The checks of a Spend, over the balances of its user.\<close>

definition spend_verdict :: "vc_spend_request \<Rightarrow> vc_currency \<Rightarrow> vc_db \<Rightarrow> go_error option" where
  "spend_verdict q c db =
     (if cu_status c \<noteq> vc_active then Some err_vc_disabled
      else (case tab_find (\<lambda>p. po_key p = (cu_id c, sq_group q)) (vd_policies db) of
        None \<Rightarrow> Some err_vc_group_denied
      | Some p \<Rightarrow>
        if \<not> po_enabled p \<or> \<not> po_can_spend p \<or> \<not> user_allowed db (sq_group q) (sq_user q) then Some err_vc_group_denied
        else if avail_of db (sq_user q) (cu_id c) < sq_amount q then Some err_vc_insufficient
        else (case po_max p of None \<Rightarrow> None | Some m \<Rightarrow>
          if avail_of db (sq_user q) (cu_id c) - sq_amount q + reserved_of db (sq_user q) (cu_id c) > min m max_int64
          then Some err_vc_limit else None)))"

lemma account_range:
  assumes "books_ok db"
  shows "0 \<le> avail_of db u c \<and> avail_of db u c \<le> max_int64 \<and> 0 \<le> reserved_of db u c \<and> reserved_of db u c \<le> max_int64"
proof (cases "wallet_of db u c")
  case (Some w)
  then have "wallet_row_ok db w" using assms by (auto simp: books_ok_def list_all_iff wallet_of_def dest: tab_find_Some)
  with Some show ?thesis by (simp add: avail_of_def reserved_of_def wallet_row_ok_def in_int64_def)
qed (simp add: avail_of_def reserved_of_def max_int64_def)

lemma spend_verdict_delta:
  assumes "books_ok db" and "spend_ok q"
  shows "(case delta_verdict (spend_delta digest q (cu_id c)) c db of Inl e \<Rightarrow> Some e | Inr _ \<Rightarrow> None) = spend_verdict q c db"
  using account_range [OF assms(1), of "sq_user q" "cu_id c"] spend_units(1,2) [OF assms(2), of digest "cu_id c"] spend_units(3,4) [OF assms(2)]
  by (auto simp: delta_verdict_def spend_verdict_def check_policy_def spend_sel balance_verdict_def Let_def po_key_def
      split: option.splits)

end
