(* ===== verification/VC_Spend_Props.thy ===== *)
theory VC_Spend_Props
  imports VC_Laws VC_Demo
begin

text \<open>
  The properties of Spend and of the mutations in general: the result of a request against its
  abstract specification, repetition, conflict, and errors.
\<close>

text \<open>
Claim C3: on a database whose statements answer, a valid Spend with a key not used before does exactly
what its specification says: the first failing check in the order disabled, group denied, insufficient,
limit exceeded is the error and nothing changes, and otherwise the units leave the available balance of
that user and no other balance moves.
\<close>

theorem spend_refines_spec:
  assumes reach: "vc_reachable digest db" "kinded digest" and up: "vd_faults db = []" and ok: "spend_ok (norm_spend q)"
    and md: "validate_metadata (sq_metadata (norm_spend q)) = None"
    and cur: "tab_find (\<lambda>c. to_lower (cu_code c) = to_lower (trim_space (sq_code (norm_spend q)))) (vd_currencies db) = Some c"
    and fits: "delta_fits (spend_delta digest (norm_spend q) (cu_id c)) db"
    and fresh: "ledger_by_key (cu_id c) (sq_user q) (sq_key (norm_spend q)) db = None"
  shows "case spend_verdict (norm_spend q) c db of
     Some err \<Rightarrow> svc_spend digest now q db = (Inl err, db)
   | None \<Rightarrow> \<exists>e db'. svc_spend digest now q db = (Inr e, db') \<and> moved db db' (sq_user q) (cu_id c) (- sq_amount q) 0 \<and>
       lr_delta (le_row e) = - sq_amount q \<and> lr_available_after (le_row e) = avail_of db (sq_user q) (cu_id c) - sq_amount q"
proof -
  let ?q = "norm_spend q" let ?inp = "spend_delta digest ?q (cu_id c)"
  have books: "books_ok db" using vc_inv_sel(2) reachable_inv reach by blast
  have same: "sq_user ?q = sq_user q" "sq_amount ?q = sq_amount q" by (simp_all add: norm_spend_def)
  have units: "di_available ?inp = - sq_amount q" "di_delta ?inp = - sq_amount q" "in_int64 (- sq_amount q)"
    using spend_units [OF ok] same by simp_all
  note run = spend_run [OF books up ok md cur, of digest now]
  have curt: "tab_ok cu_id (\<lambda>c. to_lower (cu_code c)) (vd_currencies db)" using books by (simp add: books_ok_def tables_ok_def)
  have exact: "fst (apply_currency_delta now ?inp db) = (case delta_verdict ?inp c db of Inl e \<Rightarrow> Inl e
     | Inr b \<Rightarrow> Inr (join_entry c (new_ledger_row ?inp (di_metadata ?inp) now (t_seq (vd_journals db) + 1) b (t_seq (vd_ledger db) + 1))))"
    by (rule apply_delta_exact [OF books up fits])
      (use units fresh find_by_id [OF curt cur] in \<open>simp_all add: spend_sel same in_int64_def max_int64_def min_int64_def\<close>)
  obtain r db' where res: "apply_currency_delta now ?inp db = (r, db')" by fastforce
  note verdict = spend_verdict_delta [OF books ok, of digest c]
  show ?thesis
  proof (cases "delta_verdict ?inp c db")
    case (Inl err)
    with exact res have "r = Inl err" by simp
    moreover have "db' = db"
      using atomic_call [of "apply_delta_tx now ?inp"] res \<open>r = Inl err\<close> up
      unfolding atomic_def apply_currency_delta_def only_faults_def by fastforce
    moreover have "spend_verdict ?q c db = Some err" using verdict [symmetric] Inl by simp
    ultimately show ?thesis using run res by simp
  next
    case (Inr b)
    let ?e = "join_entry c (new_ledger_row ?inp (di_metadata ?inp) now (t_seq (vd_journals db) + 1) b (t_seq (vd_ledger db) + 1))"
    have r: "r = Inr ?e" using exact res Inr by simp
    have wf: "without_fault db = db" using up by (simp add: without_fault_def)
    have tx: "apply_delta_tx now ?inp db = (Inr ?e, db')" "no_new_unbalanced db db'"
      using vc_call_Inr [of "apply_delta_tx now ?inp" db ?e db'] res r wf by (simp_all add: apply_currency_delta_def commit_ok_iff)
    have "in_int64 (di_available ?inp)" "in_int64 (di_reserved ?inp)"
      using units by (simp_all add: spend_sel in_int64_def max_int64_def min_int64_def)
    from apply_delta_effect [OF books this tx] fresh units
    have "moved db db' (sq_user q) (cu_id c) (- sq_amount q) 0" by (simp add: spend_sel same)
    moreover have "fst b = avail_of db (sq_user q) (cu_id c) - sq_amount q"
      using Inr units by (auto simp: delta_verdict_def balance_verdict_def Let_def spend_sel same split: if_splits sum.splits option.splits)
    moreover have "spend_verdict ?q c db = None" using verdict [symmetric] Inr by simp
    ultimately show ?thesis
      using run res r units by (simp add: join_entry_def new_ledger_row_def)
  qed
qed

lemma demo_spend_facts:
  "vd_faults demo_db3 = [] \<and> spend_ok (norm_spend (demo_spend 30 ''s1'')) \<and> spend_ok (norm_spend (demo_spend 101 ''s1'')) \<and>
   validate_metadata (sq_metadata (norm_spend (demo_spend 30 ''s1''))) = None"
  unfolding demo_db3_eq by code_simp

lemma demo_find:
  "tab_find (\<lambda>c. to_lower (cu_code c) = to_lower (trim_space (sq_code (norm_spend (demo_spend 30 ''s1''))))) (vd_currencies demo_db3) =
     Some (hd (t_rows (vd_currencies demo_base)))"
  unfolding demo_db3_eq by code_simp

lemma demo_fits: "delta_fits (spend_delta demo_digest (norm_spend (demo_spend 30 ''s1'')) (cu_id (hd (t_rows (vd_currencies demo_base))))) demo_db3"
  unfolding demo_db3_eq by code_simp

lemma demo_fresh: "ledger_by_key (cu_id (hd (t_rows (vd_currencies demo_base)))) (sq_user (demo_spend 30 ''s1'')) (sq_key (norm_spend (demo_spend 30 ''s1''))) demo_db3 = None"
  unfolding demo_db3_eq by code_simp

lemma demo_verdict: "spend_verdict (norm_spend (demo_spend 30 ''s1'')) (hd (t_rows (vd_currencies demo_base))) demo_db3 = None"
  unfolding demo_db3_eq by code_simp

theorem spend_refines_spec_witness:
  "\<exists>e db'. svc_spend demo_digest demo_now (demo_spend 30 ''s1'') demo_db3 = (Inr e, db') \<and> lr_available_after (le_row e) = 70"
proof -
  have "avail_of demo_db3 (sq_user (demo_spend 30 ''s1'')) (cu_id (hd (t_rows (vd_currencies demo_base)))) - sq_amount (demo_spend 30 ''s1'') = 70"
    unfolding demo_db3_eq by code_simp
  with spend_refines_spec [OF demo_reachable(3) demo_kinded _ _ _ demo_find demo_fits demo_fresh, of demo_now] demo_spend_facts demo_verdict
  show ?thesis by auto
qed

text \<open>
Claim C12: Spend is idempotent: after one that succeeded, the same request answers the same ledger entry
and changes nothing, and a request of that user with that key whose fingerprint differs is refused with
IDEMPOTENCY_CONFLICT and changes nothing.
\<close>

theorem spend_idempotent:
  assumes reach: "vc_reachable digest db" "kinded digest" and run: "svc_spend digest now q db = (Inr e, db1)" and up: "vd_faults db1 = []"
  shows "\<exists>e1. svc_spend digest later q db1 = (Inr e1, db1) \<and> lr_id (le_row e1) = lr_id (le_row e) \<and>
    lr_available_after (le_row e1) = lr_available_after (le_row e) \<and>
    (\<forall>q2. sq_code q2 = sq_code q \<and> sq_user q2 = sq_user q \<and> sq_key q2 = sq_key q \<and> spend_ok (norm_spend q2) \<and>
       validate_metadata (sq_metadata (norm_spend q2)) = None \<and>
       di_fingerprint (spend_delta digest (norm_spend q2) (lr_currency (le_row e1))) \<noteq> lr_fingerprint (le_row e1) \<longrightarrow>
       svc_spend digest later q2 db1 = (Inl err_vc_idempotency, db1))"
proof (rule spend_inv [OF run])
  fix c db0
  assume ok: "spend_ok (norm_spend q)" and md: "validate_metadata (sq_metadata (norm_spend q)) = None"
    and cur: "tab_find (\<lambda>c. to_lower (cu_code c) = to_lower (trim_space (sq_code (norm_spend q)))) (vd_currencies db) = Some c"
    and f: "only_faults db db0" and tx: "apply_delta_tx now (spend_delta digest (norm_spend q) (cu_id c)) db0 = (Inr e, db1)"
    and bal: "no_new_unbalanced db0 db1"
  let ?inp = "spend_delta digest (norm_spend q) (cu_id c)"
  have inv: "vc_inv digest db" using reachable_inv reach by blast
  then have books0: "books_ok db0" using only_faults_inv [OF _ f] vc_inv_sel(2) by blast
  have "in_int64 (di_available ?inp)" "in_int64 (di_reserved ?inp)"
    using spend_units(1,3) [OF ok] by (simp_all add: spend_sel in_int64_def max_int64_def min_int64_def)
  note eff = apply_delta_effect [OF books0 this tx bal]
  have books1: "books_ok db1" using eff by blast
  have curs: "vd_currencies db1 = vd_currencies db" using eff only_faults_reads(1) [OF f] by (simp add: same_rest_def)
  obtain e1 where hit: "ledger_by_key (di_currency ?inp) (di_user ?inp) (di_key ?inp) db1 = Some e1"
    and fp: "lr_fingerprint (le_row e1) = di_fingerprint ?inp" "lr_id (le_row e1) = lr_id (le_row e)"
      "lr_available_after (le_row e1) = lr_available_after (le_row e)"
    using apply_delta_logged [OF books0 tx] by blast
  have again: "svc_spend digest later q db1 = (Inr e1, db1)"
    using spend_run [OF books1 up ok md, of c digest later] cur curs apply_delta_replay [OF books1 up hit, of later] fp(1) by simp
  have currency: "lr_currency (le_row e1) = cu_id c" using entry_row [OF hit] by (simp add: lr_ukey_def spend_sel)
  have conflict: "svc_spend digest later q2 db1 = (Inl err_vc_idempotency, db1)"
    if "sq_code q2 = sq_code q \<and> sq_user q2 = sq_user q \<and> sq_key q2 = sq_key q \<and> spend_ok (norm_spend q2) \<and>
       validate_metadata (sq_metadata (norm_spend q2)) = None \<and>
       di_fingerprint (spend_delta digest (norm_spend q2) (lr_currency (le_row e1))) \<noteq> lr_fingerprint (le_row e1)" for q2
  proof -
    let ?inp2 = "spend_delta digest (norm_spend q2) (cu_id c)"
    have keys: "sq_code (norm_spend q2) = sq_code (norm_spend q)" "sq_user (norm_spend q2) = sq_user (norm_spend q)"
      "sq_key (norm_spend q2) = sq_key (norm_spend q)" using that by (simp_all add: norm_spend_def)
    then have hit2: "ledger_by_key (di_currency ?inp2) (di_user ?inp2) (di_key ?inp2) db1 = Some e1" using hit by (simp add: spend_sel)
    have "svc_spend digest later q2 db1 = apply_currency_delta later ?inp2 db1"
      by (rule spend_run [OF books1 up]) (use that cur curs keys in simp_all)
    with apply_delta_replay [OF books1 up hit2, of later] currency that show ?thesis by auto
  qed
  show ?thesis
    by (rule exI [of _ e1], intro conjI allI impI, rule again, rule fp, rule fp, rule conflict)
qed

theorem spend_idempotent_witness:
  "\<exists>e e1. svc_spend demo_digest demo_now (demo_spend 30 ''s1'') demo_db3 = (Inr e, snd (svc_spend demo_digest demo_now (demo_spend 30 ''s1'') demo_db3)) \<and>
     fst (svc_spend demo_digest 2000 (demo_spend 30 ''s1'') (snd (svc_spend demo_digest demo_now (demo_spend 30 ''s1'') demo_db3))) = Inr e1 \<and>
     lr_id (le_row e1) = lr_id (le_row e) \<and> lr_id (le_row e) = 2"
proof -
  let ?db1 = "snd (svc_spend demo_digest demo_now (demo_spend 30 ''s1'') demo_db3)"
  have run: "(case fst (svc_spend demo_digest demo_now (demo_spend 30 ''s1'') demo_db3) of Inl _ \<Rightarrow> False | Inr e \<Rightarrow> lr_id (le_row e) = 2) \<and>
      vd_faults ?db1 = []"
    unfolding demo_db3_eq by code_simp
  then obtain e where e: "fst (svc_spend demo_digest demo_now (demo_spend 30 ''s1'') demo_db3) = Inr e" "lr_id (le_row e) = 2"
    by (auto split: sum.splits)
  then have full: "svc_spend demo_digest demo_now (demo_spend 30 ''s1'') demo_db3 = (Inr e, ?db1)" by (metis prod.collapse)
  from spend_idempotent [OF demo_reachable(3) demo_kinded full, of 2000] run obtain e1 where
    "svc_spend demo_digest 2000 (demo_spend 30 ''s1'') ?db1 = (Inr e1, ?db1)" "lr_id (le_row e1) = lr_id (le_row e)" by blast
  with full e show ?thesis by (metis fst_conv)
qed



end
