(* ===== verification/VC_Hold_Laws.thy ===== *)
theory VC_Hold_Laws
  imports VC_Laws
begin

text \<open>
  Laws of the requests on holds: what a reservation and a settlement that succeeded have done, when a
  settlement succeeds, and the sweep as a sequence of such settlements.
\<close>

section \<open>Requests that succeeded\<close>

definition settled_key :: "string \<Rightarrow> vc_settle_request \<Rightarrow> string" where
  "settled_key action q = ''hold.'' @ action @ '':'' @ trim_space (tq_key q)"

definition settled_status :: "string \<Rightarrow> string" where
  "settled_status action = (if action = entry_commit then hold_committed else hold_released)"

lemma get_hold_found:
  assumes "get_hold u i db = (Inr hold, db1)"
  shows "only_faults db db1 \<and> hd_row hold \<in> set (t_rows (vd_holds db)) \<and> ho_id (hd_row hold) = i \<and> ho_user (hd_row hold) = u"
proof -
  have "only_faults db db1" using quiet_reads(4) [of u i] assms unfolding quiet_def by blast
  moreover have "get_hold_where (\<lambda>h. ho_id h = i \<and> ho_user h = u) (without_fault db) = (Inr hold, db1)"
    using vc_call_Inr [OF assms [unfolded get_hold_def]] by blast
  ultimately show ?thesis using get_hold_where_effect by fastforce
qed

lemma settle_request_inv:
  assumes run: "svc_settle_hold digest now q action db = (Inr (hold, e), db')"
  obtains h db0 where "action \<in> {entry_commit, entry_release}" "h \<in> set (t_rows (vd_holds db))" "ho_id h = tq_hold q"
    "ho_user h = tq_user q" "only_faults db db0"
    "settle_hold_tx now (settle_input digest (norm_settle q) action (settled_key action q) h) action (settled_status action) db0 = (Inr (hold, e), db')"
    "no_new_unbalanced db0 db'"
proof -
  let ?q = "norm_settle q"
  obtain key x hold0 db1 db2 where k: "hold_idempotency_key action (tq_key ?q) = Inr key"
    and m: "check_metadata (tq_metadata ?q) db = (Inr x, db1)" and g: "get_hold (tq_user ?q) (tq_hold ?q) db1 = (Inr hold0, db2)"
    and s: "(let inp = settle_input digest ?q action key (hd_row hold0) in if action = entry_commit then commit_hold now inp
         else if action = entry_release then release_hold now inp else vc_fail err_vc_invalid) db2 = (Inr (hold, e), db')"
    using run by (auto simp: svc_settle_hold_def Let_def vc_bind_Inr split: if_splits)
  have db1: "db1 = db" using m by (auto simp: check_metadata_def split: option.splits)
  have key: "key = settled_key action q"
    using k by (auto simp: hold_idempotency_key_def Let_def settled_key_def norm_settle_def split: if_splits)
  note h = get_hold_found [OF g [unfolded db1]]
  have same: "tq_user ?q = tq_user q" "tq_hold ?q = tq_hold q" by (simp_all add: norm_settle_def)
  have action: "action \<in> {entry_commit, entry_release}" using s by (auto simp: Let_def split: if_splits)
  have "vc_call (settle_hold_tx now (settle_input digest ?q action key (hd_row hold0)) action (settled_status action)) db2 = (Inr (hold, e), db')"
    using s action by (auto simp: Let_def commit_hold_def release_hold_def settle_hold_def settled_status_def vc_entries)
  from vc_call_Inr [OF this] that [of "hd_row hold0" "without_fault db2"] h same action only_faults_without_trans show ?thesis
    by (simp add: commit_ok_iff key)
qed

lemma reserve_request_inv:
  assumes run: "svc_reserve_hold digest now now' q db = (Inr (hold, e), db')"
  obtains c key db0 where "reserve_ok (norm_reserve q)"
    "tab_find (\<lambda>c. to_lower (cu_code c) = to_lower (trim_space (rq_code (norm_reserve q)))) (vd_currencies db) = Some c"
    "key = ''hold.reserve:'' @ trim_space (rq_key q)" "only_faults db db0"
    "reserve_hold_tx now' (reserve_input digest (norm_reserve q) key (reserve_expiry now (norm_reserve q)) (cu_id c)) db0 = (Inr (hold, e), db')"
    "no_new_unbalanced db0 db'"
proof -
  let ?q = "norm_reserve q" let ?x = "reserve_expiry now (norm_reserve q)"
  have ok: "reserve_ok ?q" using run by (auto simp: svc_reserve_hold_def Let_def split: if_splits)
  with run obtain key x c db1 db2 where k: "hold_idempotency_key ''reserve'' (rq_key ?q) = Inr key"
    and m: "check_metadata (rq_metadata ?q) db = (Inr x, db1)" and g: "get_currency_by_code (rq_code ?q) db1 = (Inr c, db2)"
    and r: "reserve_hold now' (reserve_input digest ?q key ?x (cu_id c)) db2 = (Inr (hold, e), db')"
    by (auto simp: svc_reserve_hold_def Let_def vc_bind_Inr split: if_splits)
  have db1: "db1 = db" using m by (auto simp: check_metadata_def split: option.splits)
  have key: "key = ''hold.reserve:'' @ trim_space (rq_key q)"
    using k by (auto simp: hold_idempotency_key_def Let_def norm_reserve_def split: if_splits)
  have f: "only_faults db db2" using quiet_reads(3) [of "rq_code ?q"] g db1 unfolding quiet_def by blast
  have find: "tab_find (\<lambda>c. to_lower (cu_code c) = to_lower (trim_space (rq_code ?q))) (vd_currencies db) = Some c"
    using vc_call_Inr [OF g [unfolded get_currency_by_code_def]] db1 by (auto simp: find_currency_def split: option.splits)
  have "vc_call (reserve_hold_tx now' (reserve_input digest ?q key ?x (cu_id c))) db2 = (Inr (hold, e), db')"
    using r by (auto simp: reserve_hold_def split: if_splits)
  from vc_call_Inr [OF this] that [OF ok find key only_faults_without_trans [OF f]] show ?thesis by (simp add: commit_ok_iff)
qed

lemma reserve_print_input: "reserve_print digest (ri_fingerprint (reserve_input digest q key ex c))"
proof -
  have "is_reserve (HoldPayload c (rq_user q) (rq_group q) (rq_amount q) (unix_nano ex) entry_reserve
      (rq_source_type q) (rq_source_id q) (rq_reason q) (rq_metadata q))" by simp
  then show ?thesis unfolding reserve_print_def reserve_input_def vc_reserve_input.simps by blast
qed

lemma reserve_tx_linked:
  assumes "vc_inv digest db"
  shows "\<forall>e0. ledger_by_key c u k db = Some e0 \<longrightarrow> lr_fingerprint (le_row e0) = ri_fingerprint (reserve_input digest q key ex c') \<longrightarrow>
    tab_find (\<lambda>h. ho_ukey h = (c, u, k)) (vd_holds db) \<noteq> None"
  using ledger_print [OF vc_inv_sel(4) [OF assms]] reserve_print_input by metis

section \<open>A settlement that succeeds\<close>

lemma sum_list_member: "\<forall>y\<in>set xs. 0 \<le> f y \<Longrightarrow> x \<in> set xs \<Longrightarrow> f x \<le> (\<Sum>y\<leftarrow>xs. f y)" for f :: "'a \<Rightarrow> int"
proof (induction xs)
  case (Cons a xs)
  moreover have "0 \<le> (\<Sum>y\<leftarrow>xs. f y)" using Cons.prems(1) by (intro sum_list_nonneg) auto
  ultimately show ?case by fastforce
qed simp

lemma held_member:
  assumes ok: "holds_ok db" and h: "h \<in> set (t_rows (vd_holds db))" "ho_status h = hold_active"
  shows "ho_amount h \<le> held db (ho_user h) (ho_currency h)"
proof -
  let ?g = "\<lambda>x. if ho_status x = hold_active \<and> ho_user x = ho_user h \<and> ho_currency x = ho_currency h then ho_amount x else 0"
  have "\<forall>x\<in>set (t_rows (vd_holds db)). 0 \<le> ?g x" using ok by (auto simp: holds_ok_def list_all_iff)
  from sum_list_member [OF this h(1)] have "?g h \<le> (\<Sum>x\<leftarrow>t_rows (vd_holds db). ?g x)" .
  then show ?thesis using h(2) by (simp add: held_def)
qed

lemma release_total:
  assumes inv: "vc_inv digest db" and up: "vd_faults db = []" and h: "h \<in> set (t_rows (vd_holds db))" "ho_status h = hold_active"
    and inp: "si_hold inp = ho_id h" "si_user inp = ho_user h" "si_action inp = entry_release"
    and fresh: "ledger_by_key (ho_currency h) (ho_user h) (si_key inp) db = None"
    and kind: "settle_kind go_now inp h ty0 st0 = (ty, st)" and fits: "delta_fits (settle_delta inp h ty) db"
    and room: "avail_of db (ho_user h) (ho_currency h) + ho_amount h \<le> max_int64"
  shows "\<exists>hold e db'. settle_hold go_now inp ty0 st0 db = (Inr (hold, e), db')"
proof -
  let ?d = "settle_delta inp h ty"
  have books: "books_ok db" and hok: "holds_ok db" and ht: "tab_ok ho_id ho_ukey (vd_holds db)"
    using inv by (simp_all add: vc_inv_sel)
  have amount: "0 < ho_amount h" "ho_amount h \<le> max_mutation_units" "currency_exists db (ho_currency h)"
    using hok h(1) by (simp_all add: holds_ok_def list_all_iff)
  then have neg: "wrap64 (- ho_amount h) = - ho_amount h" "in_int64 (ho_amount h)" "in_int64 (- ho_amount h)"
    using units_range [of "ho_amount h"] by (simp_all add: max_mutation_units_def)
  have dsel: "di_currency ?d = ho_currency h" "di_user ?d = ho_user h" "di_key ?d = si_key inp"
    "di_available ?d = ho_amount h" "di_reserved ?d = - ho_amount h" "di_settlement ?d"
    using inp(3) neg by (simp_all add: settle_delta_def vc_entries)
  obtain cur where cur: "find_currency (\<lambda>c. cu_id c = di_currency ?d) db = (Inr cur, db)"
    using amount(3) by (auto simp: dsel find_currency_def currency_exists_def)
  have res: "ho_amount h \<le> reserved_of db (ho_user h) (ho_currency h)"
    using held_member [OF hok h] hok by (simp add: holds_ok_def)
  have "\<exists>b. delta_verdict ?d cur db = Inr b"
    using room res amount account_range [OF books, of "ho_user h" "ho_currency h"]
    by (simp add: delta_verdict_def dsel check_policy_def balance_verdict_def Let_def)
  then have "\<exists>e. fst (apply_currency_delta go_now ?d db) = Inr e"
    using apply_delta_exact [OF books up fits _ _ cur, of go_now] fresh neg by (auto simp: dsel)
  then obtain e db1 where call: "apply_currency_delta go_now ?d db = (Inr e, db1)" by (metis prod.collapse)
  have wf: "without_fault db = db" using up by (simp add: without_fault_def)
  have tx: "apply_delta_tx go_now ?d db = (Inr e, db1)" and bal: "no_new_unbalanced db db1"
    using vc_call_Inr [OF call [unfolded apply_currency_delta_def]] wf by (simp_all add: commit_ok_iff)
  have hs: "vd_holds db1 = vd_holds db" using apply_delta_holds [OF books tx] .
  have cx1: "currency_exists db1 (ho_currency h)"
    using apply_delta_effect [OF books _ _ tx bal] neg amount(3) by (auto simp: dsel same_rest_reads(3))
  have count: "length (filter (\<lambda>x. ho_id x = ho_id h \<and> ho_user x = ho_user h \<and> ho_status x = hold_active) (t_rows (vd_holds db1))) = 1"
  proof -
    have "length (filter (\<lambda>x. ho_id x = ho_id h \<and> (ho_user x = ho_user h \<and> ho_status x = hold_active)) (t_rows (vd_holds db))) = 1"
      using hot.count_by_rid [OF ht h(1), of "\<lambda>x. ho_user x = ho_user h \<and> ho_status x = hold_active"] h(2) by simp
    then show ?thesis by (simp add: hs)
  qed
  then obtain db2 where upd: "update_hold_tx h st db1 = (Inr (), db2)" and db2: "db2 = db1\<lparr>vd_holds := vd_holds db2\<rparr>"
    and rows: "t_rows (vd_holds db2) = map (\<lambda>x. if ho_id x = ho_id h \<and> ho_user x = ho_user h \<and> ho_status x = hold_active
      then set_hold (st, vd_now db1) x else x) (t_rows (vd_holds db1))"
    by (auto simp: update_hold_tx_def tab_update_def)
  have "set_hold (st, vd_now db1) h \<in> set (t_rows (vd_holds db2))" using h hs by (auto simp: rows)
  moreover have "ho_id (set_hold (st, vd_now db1) h) = ho_id h" "ho_user (set_hold (st, vd_now db1) h) = ho_user h" by (simp_all add: set_hold_def)
  ultimately have "tab_find (\<lambda>x. ho_id x = ho_id h \<and> ho_user x = ho_user h) (vd_holds db2) \<noteq> None" by (auto simp: tab_find_None)
  moreover have "ho_currency x = ho_currency h" if x: "x \<in> set (t_rows (vd_holds db2))" "ho_id x = ho_id h" for x
  proof -
    obtain y where y: "y \<in> set (t_rows (vd_holds db))" "ho_id y = ho_id x" "ho_currency y = ho_currency x"
      using x(1) by (auto simp: rows hs set_hold_def)
    then have "y = h" using hot.row_unique_rid [OF ht _ h(1)] x(2) by simp
    then show ?thesis using y(3) by simp
  qed
  moreover have "currency_exists db2 (ho_currency h)" using cx1 by (subst db2) (simp add: currency_exists_def)
  ultimately obtain settled where got: "get_hold_where (\<lambda>x. ho_id x = ho_id h \<and> ho_user x = ho_user h) db2 = (Inr settled, db2)"
    by (fastforce simp: get_hold_where_def currency_exists_def split: option.splits dest: tab_find_Some)
  have "tab_find (\<lambda>x. ho_id x = si_hold inp \<and> ho_user x = si_user inp) (vd_holds db) = Some h"
  proof -
    have "tab_find (\<lambda>x. ho_id x = si_hold inp \<and> ho_user x = si_user inp) (vd_holds db) \<noteq> None" using h(1) inp by (auto simp: tab_find_None)
    then obtain x where x: "tab_find (\<lambda>x. ho_id x = si_hold inp \<and> ho_user x = si_user inp) (vd_holds db) = Some x" by blast
    with tab_find_Some [OF x] hot.row_unique_rid [OF ht _ h(1)] inp show ?thesis by metis
  qed
  then obtain hold where first: "get_hold_where (\<lambda>x. ho_id x = si_hold inp \<and> ho_user x = si_user inp) db = (Inr hold, db)" "hd_row hold = h"
    using amount(3) by (auto simp: get_hold_where_def currency_exists_def join_hold_def)
  have "settle_hold_tx go_now inp ty0 st0 db = (Inr (settled, e), db2)"
    using fresh inp h(2) kind tx upd got by (simp add: settle_hold_tx_def vc_bind_def vc_read_def first(1) [unfolded inp] first(2) Let_def vc_entries)
  moreover have "no_new_unbalanced db db2" by (rule unbalanced_same [OF bal]) (subst db2, simp)+
  ultimately show ?thesis by (simp add: settle_hold_def vc_call_up [OF up] commit_ok_iff)
qed

end
