(* ===== verification/VC_Hold_Effects.thy ===== *)
theory VC_Hold_Effects
  imports VC_Hold_Laws
begin

text \<open>
  What the requests on holds have done when they succeed: the balances and rows they move, and their
  answers to a key that was used before.
\<close>

lemma only_faults_moved: "only_faults db db0 \<Longrightarrow> moved db0 db' u c a r \<Longrightarrow> moved db db' u c a r"
  using only_faults_reads(3,4) [of db db0] by (simp add: moved_def)

lemma only_faults_now: "only_faults db db0 \<Longrightarrow> vd_now db0 = vd_now db"
  by (auto simp: only_faults_def)

lemma settle_request_effect:
  assumes inv: "vc_inv digest db" and run: "svc_settle_hold digest now q action db = (Inr (hold, e), db')"
    and fresh: "\<forall>c. ledger_by_key c (tq_user q) (settled_key action q) db = None"
  shows "\<exists>h\<in>set (t_rows (vd_holds db)). ho_id h = tq_hold q \<and> ho_user h = tq_user q \<and> ho_status h = hold_active \<and>
    (action = entry_commit \<longrightarrow> t_after (ho_expires_at h) now) \<and>
    moved db db' (tq_user q) (ho_currency h) (if action = entry_commit then 0 else ho_amount h) (- ho_amount h) \<and>
    (let st = if action = entry_commit then hold_committed else if t_after (ho_expires_at h) now then hold_released else hold_expired
     in t_rows (vd_holds db') = map (\<lambda>r. if ho_id r = ho_id h then set_hold (st, vd_now db) r else r) (t_rows (vd_holds db)) \<and>
       hd_row hold = set_hold (st, vd_now db) h)"
proof (rule settle_request_inv [OF run])
  fix h db0
  let ?inp = "settle_input digest (norm_settle q) action (settled_key action q) h"
  assume act: "action \<in> {entry_commit, entry_release}" and h: "h \<in> set (t_rows (vd_holds db))" "ho_id h = tq_hold q" "ho_user h = tq_user q"
    and f: "only_faults db db0" and tx: "settle_hold_tx now ?inp action (settled_status action) db0 = (Inr (hold, e), db')"
    and bal: "no_new_unbalanced db0 db'"
  have inv0: "vc_inv digest db0" using only_faults_inv [OF inv f] .
  have hs0: "vd_holds db0 = vd_holds db" and none: "\<And>c. ledger_by_key c (tq_user q) (settled_key action q) db0 = None"
    using only_faults_reads(2,5) [OF f] fresh by auto
  have isel: "si_hold ?inp = tq_hold q" "si_user ?inp = tq_user q" "si_key ?inp = settled_key action q" "si_action ?inp = action"
    by (simp_all add: settle_input_def norm_settle_def)
  have ht: "tab_ok ho_id ho_ukey (vd_holds db)" using vc_inv_sel(6) [OF inv] .
  show ?thesis using tx
  proof (cases rule: settle_cases)
    case replay then show ?thesis using none isel by simp
  next
    case (fresh h1 ty st db1 u)
    then have "h1 = h" using hot.row_unique_rid [OF ht _ h(1), of h1] h isel hs0 by simp
    note fr = fresh [unfolded this isel]
    have st: "st = (if action = entry_commit then hold_committed else if t_after (ho_expires_at h) now then hold_released else hold_expired)"
      using fr(8) act by (auto simp: settle_kind_def settled_status_def isel vc_entries split: if_splits)
    then have stn: "st \<noteq> hold_active" by (auto simp: vc_statuses)
    have h0: "h \<in> set (t_rows (vd_holds db0))" using h(1) hs0 by simp
    have n0: "ledger_by_key (ho_currency h) (si_user ?inp) (si_key ?inp) db0 = None" using none isel by simp
    note eff = settle_fresh [OF vc_inv_sel(1) [OF inv0] h0 fr(5) _ stn n0 fr(9,10) bal, unfolded isel, OF h(3)]
    have mv: "moved db db' (tq_user q) (ho_currency h) (if action = entry_commit then 0 else ho_amount h) (- ho_amount h)"
      using only_faults_moved [OF f] eff h(3) by (auto simp: settled_available_def isel)
    have rows: "t_rows (vd_holds db') = map (\<lambda>r. if ho_id r = ho_id h then set_hold (st, vd_now db) r else r) (t_rows (vd_holds db))"
      using eff only_faults_now [OF f] hs0 by simp
    have "hd_row hold = set_hold (st, vd_now db) h"
      using fr(11,12) hot.row_unique_rid [OF ht _ h(1)] by (auto simp: rows set_hold_def split: if_splits)
    with mv rows fr(5,6) h show ?thesis
      by (intro bexI [of _ h]) (simp_all add: isel Let_def flip: st)
  qed
qed

lemma reserve_request_effect:
  assumes inv: "vc_inv digest db" and run: "svc_reserve_hold digest now now' q db = (Inr (hold, e), db')"
  obtains c db0 key where
    "tab_find (\<lambda>c. to_lower (cu_code c) = to_lower (trim_space (rq_code (norm_reserve q)))) (vd_currencies db) = Some c"
    "key = ''hold.reserve:'' @ trim_space (rq_key q)" "only_faults db db0" "vc_inv digest db0" "vc_inv digest db'"
    "vd_currencies db' = vd_currencies db" "vd_faults db' = vd_faults db0"
    "reserve_hold_tx now' (reserve_input digest (norm_reserve q) key (reserve_expiry now (norm_reserve q)) (cu_id c)) db0 = (Inr (hold, e), db')"
    "ledger_by_key (cu_id c) (rq_user q) key db = None"
    "\<exists>e1. ledger_by_key (cu_id c) (rq_user q) key db' = Some e1 \<and>
       lr_fingerprint (le_row e1) = ri_fingerprint (reserve_input digest (norm_reserve q) key (reserve_expiry now (norm_reserve q)) (cu_id c))"
    "moved db db' (rq_user q) (cu_id c) (- rq_amount q) (rq_amount q)" "rq_amount q \<le> avail_of db (rq_user q) (cu_id c)"
    "\<exists>md at. hd_row hold = new_hold (reserve_input digest (norm_reserve q) key (reserve_expiry now (norm_reserve q)) (cu_id c)) md at (ho_id (hd_row hold))"
    "t_rows (vd_holds db') = t_rows (vd_holds db) @ [hd_row hold]"
proof (rule reserve_request_inv [OF run])
  fix c :: vc_currency and key db0
  let ?inp = "reserve_input digest (norm_reserve q) key (reserve_expiry now (norm_reserve q)) (cu_id c)"
  assume ok: "reserve_ok (norm_reserve q)"
    and find: "tab_find (\<lambda>c. to_lower (cu_code c) = to_lower (trim_space (rq_code (norm_reserve q)))) (vd_currencies db) = Some c"
    and key: "key = ''hold.reserve:'' @ trim_space (rq_key q)" and f: "only_faults db db0"
    and tx: "reserve_hold_tx now' ?inp db0 = (Inr (hold, e), db')" and bal: "no_new_unbalanced db0 db'"
  have isel: "ri_currency ?inp = cu_id c" "ri_user ?inp = rq_user q" "ri_key ?inp = key" "ri_amount ?inp = rq_amount q"
    by (simp_all add: reserve_input_def norm_reserve_def)
  have rng: "in_int64 (ri_amount ?inp)"
    unfolding isel using ok by (auto simp: reserve_ok_def norm_reserve_def in_int64_def max_int64_def min_int64_def max_mutation_units_def)
  have inv0: "vc_inv digest db0" using only_faults_inv [OF inv f] .
  note eff = reserve_hold_tx_effect [OF vc_inv_sel(1) [OF inv0] rng reserve_tx_linked [OF inv0] tx bal, unfolded isel]
  have "vc_inv digest db'" using reserve_inv [OF inv0 rng reserve_print_input tx bal] .
  moreover have "\<exists>e1. ledger_by_key (cu_id c) (rq_user q) key db' = Some e1 \<and> lr_fingerprint (le_row e1) = ri_fingerprint ?inp"
  proof -
    obtain db1 db2 enc i where app: "apply_delta_tx now' (reserve_delta ?inp) db0 = (Inr e, db1)"
      and ins: "insert_hold_tx ?inp enc db1 = (Inr i, db2)" and get: "get_hold_where (\<lambda>h. ho_id h = i) db2 = (Inr hold, db')"
      using tx by (auto simp: reserve_hold_tx_def vc_bind_Inr)
    have "vd_ledger db2 = vd_ledger db1 \<and> vd_currencies db2 = vd_currencies db1"
      using ins by (auto simp: insert_hold_tx_def Let_def tab_insert_def split: if_splits)
    then have "ledger_by_key x u k db2 = ledger_by_key x u k db1" for x u k by (simp add: ledger_by_key_def cong: option.case_cong)
    moreover have "db' = db2" using get_hold_where_effect [OF get] by blast
    ultimately show ?thesis using apply_delta_logged [OF vc_inv_sel(2) [OF inv0] app] by (auto simp: reserve_delta_def isel)
  qed
  moreover have "ledger_by_key (cu_id c) (rq_user q) key db = None" using eff only_faults_reads(2) [OF f] by simp
  moreover have "rq_amount q \<le> avail_of db (rq_user q) (cu_id c)" using eff only_faults_reads(3) [OF f] by simp
  moreover have "vd_currencies db' = vd_currencies db" "vd_faults db' = vd_faults db0"
    using eff only_faults_reads(1) [OF f] by (simp_all add: same_rest_def)
  moreover have "moved db db' (rq_user q) (cu_id c) (- rq_amount q) (rq_amount q)" using eff only_faults_moved [OF f] by blast
  ultimately show ?thesis using that [OF find key f inv0 _ _ _ tx] eff only_faults_reads(5) [OF f] by auto
qed

lemma reserve_again_fails:
  assumes inv: "vc_inv digest db" and run: "svc_reserve_hold digest now now' q db = (Inr (hold, e), db')"
    and same: "rq_code q2 = rq_code q" "rq_user q2 = rq_user q" "rq_key q2 = rq_key q"
  shows "\<exists>err db2. svc_reserve_hold digest n n' q2 db' = (Inl err, db2)"
proof (rule reserve_request_effect [OF inv run])
  fix c :: vc_currency and key
  assume find: "tab_find (\<lambda>c. to_lower (cu_code c) = to_lower (trim_space (rq_code (norm_reserve q)))) (vd_currencies db) = Some c"
    and key: "key = ''hold.reserve:'' @ trim_space (rq_key q)" and inv': "vc_inv digest db'" and cur: "vd_currencies db' = vd_currencies db"
    and hit: "\<exists>e1. ledger_by_key (cu_id c) (rq_user q) key db' = Some e1 \<and>
       lr_fingerprint (le_row e1) = ri_fingerprint (reserve_input digest (norm_reserve q) key (reserve_expiry now (norm_reserve q)) (cu_id c))"
  show ?thesis
  proof (rule ccontr)
    assume "\<not> ?thesis"
    then obtain hold2 e2 db2 where run2: "svc_reserve_hold digest n n' q2 db' = (Inr (hold2, e2), db2)"
      by (metis prod.exhaust sum.exhaust)
    show False
    proof (rule reserve_request_effect [OF inv' run2])
      fix c2 :: vc_currency and key2
      assume "tab_find (\<lambda>c. to_lower (cu_code c) = to_lower (trim_space (rq_code (norm_reserve q2)))) (vd_currencies db') = Some c2"
        "key2 = ''hold.reserve:'' @ trim_space (rq_key q2)" "ledger_by_key (cu_id c2) (rq_user q2) key2 db' = None"
      then show False using find key hit same cur by (simp add: norm_reserve_def)
    qed
  qed
qed

lemma hold_check_new: "hold_check (new_hold inp md at i) \<longleftrightarrow> hold_check (new_hold inp md2 at2 j)"
  by (simp add: hold_check_def new_hold_def)

lemma reserve_replay_aborts:
  assumes inv: "vc_inv digest db" and run: "svc_reserve_hold digest now now' q db = (Inr (hold, e), db')" and up: "vd_faults db' = []"
    and given: "\<not> is_zero_time (rq_expires_at q)" and live: "now \<le> later" "t_after (rq_expires_at q) later" "t_after (rq_expires_at q) later'"
  shows "svc_reserve_hold digest later later' q db' = (Inl err_tx_aborted, db')"
proof (rule reserve_request_effect [OF inv run])
  fix c :: vc_currency and key db0
  let ?inp = "reserve_input digest (norm_reserve q) key (rq_expires_at q) (cu_id c)"
  have ex: "reserve_expiry t (norm_reserve q) = rq_expires_at q" for t using given by (simp add: reserve_expiry_def norm_reserve_def)
  assume find: "tab_find (\<lambda>c. to_lower (cu_code c) = to_lower (trim_space (rq_code (norm_reserve q)))) (vd_currencies db) = Some c"
    and key: "key = ''hold.reserve:'' @ trim_space (rq_key q)" and inv': "vc_inv digest db'" and cur: "vd_currencies db' = vd_currencies db"
    and tx0: "reserve_hold_tx now' (reserve_input digest (norm_reserve q) key (reserve_expiry now (norm_reserve q)) (cu_id c)) db0 = (Inr (hold, e), db')"
    and hit0: "\<exists>e1. ledger_by_key (cu_id c) (rq_user q) key db' = Some e1 \<and>
       lr_fingerprint (le_row e1) = ri_fingerprint (reserve_input digest (norm_reserve q) key (reserve_expiry now (norm_reserve q)) (cu_id c))"
    and hold: "\<exists>md at. hd_row hold = new_hold (reserve_input digest (norm_reserve q) key (reserve_expiry now (norm_reserve q)) (cu_id c)) md at (ho_id (hd_row hold))"
    and rows: "t_rows (vd_holds db') = t_rows (vd_holds db) @ [hd_row hold]"
  note tx = tx0 [unfolded ex] and hit = hit0 [unfolded ex]
  obtain e1 where e1: "ledger_by_key (cu_id c) (rq_user q) key db' = Some e1" "lr_fingerprint (le_row e1) = ri_fingerprint ?inp"
    using hit by blast
  have isel: "di_currency (reserve_delta ?inp) = cu_id c" "di_user (reserve_delta ?inp) = rq_user q" "di_key (reserve_delta ?inp) = key"
    "di_fingerprint (reserve_delta ?inp) = ri_fingerprint ?inp" "ri_currency ?inp = cu_id c" "ri_user ?inp = rq_user q" "ri_key ?inp = key"
    "ri_expires_at ?inp = rq_expires_at q"
    by (simp_all add: reserve_delta_def reserve_input_def norm_reserve_def)
  have app: "apply_delta_tx later' (reserve_delta ?inp) db' = (Inr e1, db')"
    using apply_delta_tx_replay [OF vc_inv_sel(2) [OF inv'], of "reserve_delta ?inp" e1 later', unfolded isel, OF e1(1)] e1(2) by simp
  obtain db1 db2 enc i where enc: "marshal_metadata (ri_metadata ?inp) = Inr enc" and ins: "insert_hold_tx ?inp enc db1 = (Inr i, db2)"
    using tx by (auto simp: reserve_hold_tx_def vc_bind_Inr)
  have "hold_check (new_hold ?inp (decode_metadata enc) (vd_now db1) 0)"
    using ins by (auto simp: insert_hold_tx_def Let_def split: if_splits)
  then have check: "hold_check (new_hold ?inp md at j)" for md at j using hold_check_new by blast
  have "ho_ukey (hd_row hold) = (cu_id c, rq_user q, key)"
    using hold unfolding ex by (metis (no_types, lifting) ho_ukey_def isel(5,6,7) new_hold_def vc_hold_row.select_convs(2,3,9))
  then have "tab_find (\<lambda>h. ho_ukey h = (cu_id c, rq_user q, key)) (vd_holds db') \<noteq> None" using rows by (auto simp: tab_find_None)
  then have "insert_hold_tx ?inp enc db' = (Inl err_tx_aborted, db')"
    using check by (simp add: insert_hold_tx_def Let_def ho_ukey_def new_hold_def isel)
  then have "reserve_hold_tx later' ?inp db' = (Inl err_tx_aborted, db')"
    using app enc by (simp add: reserve_hold_tx_def vc_bind_def vc_lift_def)
  then have aborted: "reserve_hold later' ?inp db' = (Inl err_tx_aborted, db')"
    using given live by (simp add: reserve_hold_def isel vc_call_up [OF up])
  have ok: "reserve_ok (norm_reserve q)" using run by (auto simp: svc_reserve_hold_def Let_def split: if_splits)
  have k: "rq_key (norm_reserve q) = rq_key q" by (simp add: norm_reserve_def)
  have "hold_idempotency_key ''reserve'' (rq_key (norm_reserve q)) = Inr key \<and> validate_metadata (rq_metadata (norm_reserve q)) = None \<and>
    t_after (rq_expires_at q) now \<and> \<not> t_after (rq_expires_at q) (t_add now max_hold_ttl)"
    using run ok key by (auto simp: svc_reserve_hold_def Let_def vc_bind_Inr ex check_metadata_def hold_idempotency_key_def k
        split: if_splits option.splits)
  then show ?thesis
    using ok live aborted find cur
    by (simp add: svc_reserve_hold_def Let_def vc_bind_def vc_lift_def ex check_metadata_def code_lookup [OF vc_inv_sel(2) [OF inv'] up]
        find_currency_def time_defs)
qed

lemma apply_delta_rest:
  assumes books: "books_ok db" and run: "apply_delta_tx go_now inp db = (Inr e, db')"
  shows "same_rest db db'"
proof (rule apply_delta_cases [OF books run])
  fix cur x assume "ensure_wallet (di_user inp) (di_currency inp) db = (Inr x, db')"
  then show ?thesis using ensure_wallet_effect [OF books] by blast
next
  fix cur x db1 w mb b md rows
  assume "ensure_wallet (di_user inp) (di_currency inp) db = (Inr x, db1)" "recorded inp b md rows (wallet_after w b db1) db'"
  then show ?thesis using ensure_wallet_effect [OF books] by (auto simp: recorded_def wallet_after_def same_rest_def)
qed

text \<open>A settlement leaves its key in the ledger.\<close>

lemma settle_logged:
  assumes inv: "vc_inv digest db" and run: "settle_hold_tx go_now inp ty0 st0 db = (Inr (hold, e), db')"
    and h: "h \<in> set (t_rows (vd_holds db))" "ho_id h = si_hold inp" "ho_user h = si_user inp"
  shows "\<exists>e1. ledger_by_key (ho_currency h) (si_user inp) (si_key inp) db' = Some e1 \<and>
    lr_fingerprint (le_row e1) = si_fingerprint inp \<and> vd_currencies db' = vd_currencies db \<and> lr_id (le_row e1) = lr_id (le_row e)"
  using run
proof (cases rule: settle_cases)
  case replay
  then have "hd_row hold = h" using hot.row_unique_rid [OF vc_inv_sel(6) [OF inv] _ h(1)] h(2) by simp
  with replay show ?thesis by simp
next
  case (fresh h1 ty st db1 u)
  then have h1: "h1 = h" using hot.row_unique_rid [OF vc_inv_sel(6) [OF inv] _ h(1)] h(2) by simp
  have same: "vd_ledger db' = vd_ledger db1 \<and> vd_currencies db' = vd_currencies db1"
    using fresh(10) by (auto simp: update_hold_tx_def split: prod.splits if_splits)
  then have led: "ledger_by_key x v k db' = ledger_by_key x v k db1" for x v k by (simp add: ledger_by_key_def cong: option.case_cong)
  have "vd_currencies db1 = vd_currencies db" using apply_delta_rest [OF vc_inv_sel(2) [OF inv] fresh(9)] by (simp add: same_rest_def)
  with apply_delta_logged [OF vc_inv_sel(2) [OF inv] fresh(9)] led same h1 h(3) show ?thesis by (auto simp: settle_delta_def)
qed

text \<open>
  The fingerprint of a settlement does not name its hold, so the key of one that succeeded answers the
  settlement of another hold that looks alike.
\<close>

lemma settle_other_holds:
  assumes inv: "vc_inv digest db" and run: "settle_hold_tx go_now inp ty0 st0 db = (Inr (hold, e), db')"
    and g: "g \<in> set (t_rows (vd_holds db))" "ho_id g \<noteq> si_hold inp"
  shows "g \<in> set (t_rows (vd_holds db'))"
  using run
proof (cases rule: settle_cases)
  case (fresh h1 ty st db1 u)
  have "vd_holds db1 = vd_holds db" using apply_delta_holds [OF vc_inv_sel(2) [OF inv] fresh(9)] .
  with fresh(2,10) g show ?thesis by (force simp: update_hold_tx_def tab_update_def split: if_splits)
qed (use g in simp)

definition alike :: "vc_hold_row \<Rightarrow> vc_hold_row \<Rightarrow> bool" where
  "alike g h \<longleftrightarrow> ho_id g \<noteq> ho_id h \<and> ho_currency g = ho_currency h \<and> ho_user g = ho_user h \<and> ho_group g = ho_group h \<and>
     ho_amount g = ho_amount h \<and> ho_expires_at g = ho_expires_at h"

lemma settle_alike:
  assumes inv: "vc_inv digest db" and run: "svc_settle_hold digest now q action db = (Inr (hold, e), db')" and up: "vd_faults db' = []"
    and inv': "vc_inv digest db'" and g0: "g \<in> set (t_rows (vd_holds db))"
    and like: "\<forall>h\<in>set (t_rows (vd_holds db)). ho_id h = tq_hold q \<longrightarrow> alike g h"
  shows "\<exists>c e1. svc_settle_hold digest later (q\<lparr>tq_hold := ho_id g\<rparr>) action db' = (Inr (join_hold c g, e1), db') \<and>
    lr_id (le_row e1) = lr_id (le_row e) \<and> g \<in> set (t_rows (vd_holds db'))"
proof (rule settle_request_inv [OF run])
  fix h db0
  let ?q = "q\<lparr>tq_hold := ho_id g\<rparr>" let ?n = "norm_settle q" let ?key = "settled_key action q"
  let ?inp = "settle_input digest ?n action ?key h" let ?inp2 = "settle_input digest (norm_settle ?q) action ?key g"
  assume act: "action \<in> {entry_commit, entry_release}" and h: "h \<in> set (t_rows (vd_holds db))" "ho_id h = tq_hold q" "ho_user h = tq_user q"
    and f: "only_faults db db0" and tx: "settle_hold_tx now ?inp action (settled_status action) db0 = (Inr (hold, e), db')"
  have like: "alike g h" using like h by blast
  have isel: "si_hold ?inp = tq_hold q" "si_user ?inp = tq_user q" "si_key ?inp = ?key" "si_hold ?inp2 = ho_id g" "si_user ?inp2 = tq_user q"
    "si_key ?inp2 = ?key" "si_fingerprint ?inp2 = si_fingerprint ?inp" "si_action ?inp2 = action"
    using like by (simp_all add: settle_input_def norm_settle_def hold_fingerprint_def alike_def)
  have g: "g \<in> set (t_rows (vd_holds db))" "g \<in> set (t_rows (vd_holds db'))"
    using g0 settle_other_holds [OF only_faults_inv [OF inv f] tx, of g] only_faults_reads(5) [OF f] isel(1) like h(2) by (auto simp: alike_def)
  obtain e1 where e1: "ledger_by_key (ho_currency g) (tq_user q) ?key db' = Some e1" "lr_fingerprint (le_row e1) = si_fingerprint ?inp2"
    "lr_id (le_row e1) = lr_id (le_row e)"
    using settle_logged [OF only_faults_inv [OF inv f] tx, of h] h only_faults_reads(5) [OF f] isel like by (auto simp: alike_def)
  have gu: "ho_user g = tq_user q" using like h(3) by (simp add: alike_def)
  have gid: "0 < ho_id g" using vc_inv_sel(6) [OF inv'] g(2) by (auto simp: tab_ok_def)
  have "currency_exists db' (ho_currency g)" using vc_inv_sel(3) [OF inv'] g(2) by (simp add: holds_ok_def list_all_iff)
  then obtain c where c: "tab_find (\<lambda>c. cu_id c = ho_currency g) (vd_currencies db') = Some c" by (auto simp: currency_exists_def)
  have "tab_find (\<lambda>x. ho_id x = ho_id g \<and> ho_user x = tq_user q) (vd_holds db') \<noteq> None" using g(2) gu by (auto simp: tab_find_None)
  then obtain x where x: "tab_find (\<lambda>x. ho_id x = ho_id g \<and> ho_user x = tq_user q) (vd_holds db') = Some x" by blast
  with tab_find_Some [OF x] hot.row_unique_rid [OF vc_inv_sel(6) [OF inv'] _ g(2)] have "x = g" by blast
  with x c have got: "get_hold_where (\<lambda>x. ho_id x = ho_id g \<and> ho_user x = tq_user q) db' = (Inr (join_hold c g), db')"
    by (simp add: get_hold_where_def)
  have same: "commit_ok db' db'" using commit_same [OF vc_inv_sel(2) [OF inv']] .
  have settle: "vc_call (settle_hold_tx later ?inp2 ty st) db' = (Inr (join_hold c g, e1), db')" for ty st
    using e1 got same by (simp add: vc_call_up [OF up] settle_hold_tx_def vc_bind_def vc_read_def isel join_hold_def)
  have k: "tq_key ?n = tq_key q" "tq_key (norm_settle ?q) = tq_key q" "tq_user ?n = tq_user q" "tq_hold ?n = tq_hold q"
    "tq_user (norm_settle ?q) = tq_user q" "tq_hold (norm_settle ?q) = ho_id g" "tq_metadata (norm_settle ?q) = tq_metadata ?n"
    "tq_source_type (norm_settle ?q) = tq_source_type ?n" "tq_source_id (norm_settle ?q) = tq_source_id ?n" "tq_reason (norm_settle ?q) = tq_reason ?n"
    by (simp_all add: norm_settle_def)
  have pre: "0 < tq_user q \<and> \<not> bad_texts (tq_source_type ?n) (tq_source_id ?n) (tq_reason ?n) \<and>
    hold_idempotency_key action (tq_key q) = Inr ?key \<and> validate_metadata (tq_metadata ?n) = None"
    using run by (auto simp: svc_settle_hold_def Let_def vc_bind_Inr k check_metadata_def hold_idempotency_key_def settled_key_def
        split: if_splits option.splits)
  have "svc_settle_hold digest later ?q action db' = (Inr (join_hold c g, e1), db')"
    using pre act gid got same settle
    by (auto simp: svc_settle_hold_def Let_def k vc_bind_def vc_lift_def check_metadata_def get_hold_def vc_call_up [OF up]
        commit_hold_def release_hold_def settle_hold_def settled_status_def join_hold_def)
  then show ?thesis using e1(3) g(2) by blast
qed

end
