(* ===== verification/VC_Hold_Props.thy ===== *)
theory VC_Hold_Props
  imports VC_Hold_Effects VC_Demo
begin

text \<open>
  The properties of the requests on holds: what a reservation and a settlement move, and how they
  answer a repeated key.
\<close>

lemma run_Inr: "(case fst r of Inl _ \<Rightarrow> False | Inr x \<Rightarrow> P x) \<Longrightarrow> \<exists>x. r = (Inr x, snd r) \<and> P x"
  by (cases r) (auto split: sum.splits)

lemma demo_reserved: "\<exists>hold e. svc_reserve_hold demo_digest demo_now demo_now demo_reserve demo_db3 = (Inr (hold, e), demo_db4)"
proof -
  have "case fst (svc_reserve_hold demo_digest demo_now demo_now demo_reserve demo_db3) of Inl _ \<Rightarrow> False | Inr _ \<Rightarrow> True"
    unfolding demo_db3_eq by code_simp
  then show ?thesis using run_Inr unfolding demo_db4_def by fastforce
qed

text \<open>
Claim C25: a reservation that succeeds takes its units from the available balance of its user, never more than
there are, puts them into the reserve, moves no other balance and adds one active hold of that amount.
\<close>

theorem reserve_moves:
  assumes "vc_reachable digest db" and "kinded digest" and "svc_reserve_hold digest now now' q db = (Inr (hold, e), db')"
  shows "\<exists>c. to_lower (cu_code c) = to_lower (trim_space (rq_code (norm_reserve q))) \<and> c \<in> set (t_rows (vd_currencies db)) \<and>
    moved db db' (rq_user q) (cu_id c) (- rq_amount q) (rq_amount q) \<and> rq_amount q \<le> avail_of db (rq_user q) (cu_id c) \<and>
    t_rows (vd_holds db') = t_rows (vd_holds db) @ [hd_row hold] \<and> ho_status (hd_row hold) = hold_active \<and>
    ho_amount (hd_row hold) = rq_amount q \<and> ho_user (hd_row hold) = rq_user q \<and> ho_currency (hd_row hold) = cu_id c"
proof (rule reserve_request_effect [OF reachable_inv [OF assms(1,2)] assms(3)])
  fix c :: vc_currency and key
  let ?inp = "reserve_input digest (norm_reserve q) key (reserve_expiry now (norm_reserve q)) (cu_id c)"
  assume find: "tab_find (\<lambda>c. to_lower (cu_code c) = to_lower (trim_space (rq_code (norm_reserve q)))) (vd_currencies db) = Some c"
    and mv: "moved db db' (rq_user q) (cu_id c) (- rq_amount q) (rq_amount q)" "rq_amount q \<le> avail_of db (rq_user q) (cu_id c)"
    and hold: "\<exists>md at. hd_row hold = new_hold ?inp md at (ho_id (hd_row hold))"
    and rows: "t_rows (vd_holds db') = t_rows (vd_holds db) @ [hd_row hold]"
  have c: "c \<in> set (t_rows (vd_currencies db)) \<and> to_lower (cu_code c) = to_lower (trim_space (rq_code (norm_reserve q)))"
    using tab_find_Some [OF find] by simp
  obtain md at i where row: "hd_row hold = new_hold ?inp md at i" using hold by blast
  have "ho_status (hd_row hold) = hold_active \<and> ho_amount (hd_row hold) = rq_amount q \<and> ho_user (hd_row hold) = rq_user q \<and>
    ho_currency (hd_row hold) = cu_id c"
    unfolding row by (simp add: new_hold_def reserve_input_def norm_reserve_def)
  with c mv rows show ?thesis by blast
qed

theorem reserve_moves_witness:
  "\<exists>c. avail_of demo_db4 7 c = avail_of demo_db3 7 c - 40 \<and> reserved_of demo_db4 7 c = reserved_of demo_db3 7 c + 40"
proof -
  obtain hold e where run: "svc_reserve_hold demo_digest demo_now demo_now demo_reserve demo_db3 = (Inr (hold, e), demo_db4)"
    using demo_reserved by blast
  have "rq_user demo_reserve = 7 \<and> rq_amount demo_reserve = 40" by (simp add: demo_reserve_def)
  with reserve_moves [OF demo_reachable(3) demo_kinded run] show ?thesis by (auto simp: moved_def)
qed

text \<open>
Claim C9: a settlement with a key not used before settles one active hold of its user: a commit needs an
unexpired hold and takes its units out of the reserve, a release gives them back to the available balance
and, of an expired hold, counts as its expiry; no other balance and no other hold changes.
\<close>

theorem settle_moves:
  assumes "vc_reachable digest db" and "kinded digest" and "svc_settle_hold digest now q action db = (Inr (hold, e), db')"
    and "\<forall>c. ledger_by_key c (tq_user q) (settled_key action q) db = None"
  shows "\<exists>h\<in>set (t_rows (vd_holds db)). ho_id h = tq_hold q \<and> ho_user h = tq_user q \<and> ho_status h = hold_active \<and>
    (action = entry_commit \<longrightarrow> t_after (ho_expires_at h) now) \<and>
    moved db db' (tq_user q) (ho_currency h) (if action = entry_commit then 0 else ho_amount h) (- ho_amount h) \<and>
    (let st = if action = entry_commit then hold_committed else if t_after (ho_expires_at h) now then hold_released else hold_expired
     in t_rows (vd_holds db') = map (\<lambda>r. if ho_id r = ho_id h then set_hold (st, vd_now db) r else r) (t_rows (vd_holds db)) \<and>
       hd_row hold = set_hold (st, vd_now db) h)"
  by (rule settle_request_effect [OF reachable_inv [OF assms(1,2)] assms(3,4)])

lemma demo_commit: "\<exists>hold e. svc_settle_hold demo_digest demo_now (demo_settle ''c1'') entry_commit demo_db4 = (Inr (hold, e), demo_db5)"
proof -
  have "case fst (svc_commit_hold demo_digest demo_now (demo_settle ''c1'') demo_db4) of Inl _ \<Rightarrow> False | Inr _ \<Rightarrow> True"
    unfolding demo_db4_eq by code_simp
  then show ?thesis using run_Inr unfolding demo_db5_def svc_commit_hold_def by fastforce
qed

theorem settle_moves_witness:
  "\<exists>c. avail_of demo_db5 7 c = avail_of demo_db4 7 c \<and> reserved_of demo_db5 7 c = reserved_of demo_db4 7 c - 40"
proof -
  obtain hold e where run: "svc_settle_hold demo_digest demo_now (demo_settle ''c1'') entry_commit demo_db4 = (Inr (hold, e), demo_db5)"
    using demo_commit by blast
  have keys: "list_all (\<lambda>r. lr_key r \<noteq> settled_key entry_commit (demo_settle ''c1'')) (t_rows (vd_ledger demo_db4))"
    unfolding demo_db4_eq by code_simp
  have "ledger_by_key c (tq_user (demo_settle ''c1'')) (settled_key entry_commit (demo_settle ''c1'')) demo_db4 = None" for c
    using keys by (auto simp: ledger_by_key_def lr_ukey_def list_all_iff split: option.splits dest: tab_find_Some)
  from settle_moves [OF demo_reachable(4) demo_kinded run] this obtain h where h: "h \<in> set (t_rows (vd_holds demo_db4))"
    "moved demo_db4 demo_db5 (tq_user (demo_settle ''c1'')) (ho_currency h) 0 (- ho_amount h)" by auto
  have amounts: "list_all (\<lambda>h. ho_amount h = 40) (t_rows (vd_holds demo_db4))" unfolding demo_db4_eq by code_simp
  then have "ho_amount h = 40" using h(1) by (simp add: list_all_iff)
  with h(2) show ?thesis by (auto simp: moved_def demo_settle_def)
qed



text \<open>
Claim C35: the request fingerprint of a settlement does not name its hold: after a settlement that
succeeded, the same request for another active hold of the same user, currency, group, amount and expiry
succeeds with the entry of the first one, changes nothing and returns the other hold still active.
\<close>

theorem settlement_ignores_hold:
  assumes reach: "vc_reachable digest db" "kinded digest" and run: "svc_settle_hold digest now q action db = (Inr (hold, e), db')"
    and up: "vd_faults db' = []" and g: "g \<in> set (t_rows (vd_holds db))" "ho_status g = hold_active"
    and like: "\<forall>h\<in>set (t_rows (vd_holds db)). ho_id h = tq_hold q \<longrightarrow> alike g h"
  shows "\<exists>hold2 e1. svc_settle_hold digest later (q\<lparr>tq_hold := ho_id g\<rparr>) action db' = (Inr (hold2, e1), db') \<and>
    lr_id (le_row e1) = lr_id (le_row e) \<and> hd_row hold2 = g \<and> g \<in> set (t_rows (vd_holds db'))"
proof -
  have "vc_step digest db db'"
  proof (rule settle_request_inv [OF run])
    assume "action \<in> {entry_commit, entry_release}"
    with run show ?thesis
      by (auto simp: svc_commit_hold_def svc_release_hold_def intro: step_commit step_release)
  qed
  then have "vc_inv digest db'" using reachable_inv reach_step reach by blast
  from settle_alike [OF reachable_inv [OF reach] run up this g(1) like, of later] show ?thesis
    by (metis join_hold_def vc_hold.select_convs(1))
qed

definition demo_other :: vc_reserve_request where "demo_other = demo_reserve\<lparr>rq_key := ''r2''\<rparr>"
definition demo_db6 :: vc_db where "demo_db6 = snd (svc_reserve_hold demo_digest demo_now demo_now demo_other demo_db4)"
definition demo_twin :: vc_hold_row where
  "demo_twin = (demo_hold hold_active None)\<lparr>ho_id := 2, ho_key := ''hold.reserve:r2''\<rparr>"

lemma demo_db6_reachable: "vc_reachable demo_digest demo_db6"
  unfolding demo_db6_def by (rule reach_step [OF demo_reachable(4) step_reserve [OF prod.collapse [symmetric]]])

lemma demo_db6_eq: "demo_db6 = demo_books (20, 80) [demo_hold hold_active None, demo_twin]
    (take 2 demo_ledger @ [demo_entry 3 (0, - 40, 40) (20, 80) (entry_reserve, ''game'') (''hold.reserve:r2'', demo_print ''a'' 40)])
    (take 2 demo_journals @ [demo_journal 3 (entry_reserve, ''game'') (''hold.reserve:r2'', demo_print ''a'' 40)])
    (take 4 demo_postings @ [demo_posting 5 3 (Some 7) acct_user_available (- 40), demo_posting 6 3 (Some 7) acct_user_reserved 40]) demo_base"
  unfolding demo_db6_def demo_db4_eq by code_simp

lemma demo_db6_holds: "t_rows (vd_holds demo_db6) = [demo_hold hold_active None, demo_twin]"
  by (simp add: demo_db6_eq demo_books_def)

theorem settlement_ignores_hold_witness:
  "\<exists>db hold e hold2 e1. svc_settle_hold demo_digest demo_now (demo_settle ''c1'') entry_commit demo_db6 = (Inr (hold, e), db) \<and>
     svc_settle_hold demo_digest demo_now ((demo_settle ''c1'')\<lparr>tq_hold := 2\<rparr>) entry_commit db = (Inr (hold2, e1), db) \<and>
     ho_status (hd_row hold2) = hold_active"
proof -
  let ?r = "svc_settle_hold demo_digest demo_now (demo_settle ''c1'') entry_commit demo_db6"
  have ok: "(case ?r of (Inl _, _) \<Rightarrow> False | (Inr _, db) \<Rightarrow> vd_faults db = [])"
    unfolding demo_db6_eq by code_simp
  then obtain hold e db where run: "?r = (Inr (hold, e), db)" and up: "vd_faults db = []" by (auto split: prod.splits sum.splits)
  have twin: "demo_twin \<in> set (t_rows (vd_holds demo_db6))" "ho_status demo_twin = hold_active" "ho_id demo_twin = 2"
    by (simp_all add: demo_db6_holds demo_twin_def demo_hold_def)
  have like: "\<forall>h\<in>set (t_rows (vd_holds demo_db6)). ho_id h = tq_hold (demo_settle ''c1'') \<longrightarrow> alike demo_twin h"
    by (simp add: demo_db6_holds alike_def demo_twin_def demo_hold_def demo_settle_def)
  from settlement_ignores_hold [OF demo_db6_reachable demo_kinded run up twin(1,2) like, of demo_now] twin run show ?thesis by metis
qed

end
