(* ===== verification/VC_Sweep.thy ===== *)
theory VC_Sweep
  imports VC_Hold_Effects
begin

text \<open>
  The sweep of expired holds as a sequence of settlements: one candidate of it, and the whole list.
\<close>

lemma itoa_inj_pos: "0 < i \<Longrightarrow> 0 < j \<Longrightarrow> itoa i = itoa j \<longleftrightarrow> i = j"
  by (auto simp: itoa_def)

lemma sweep_sel: "si_hold (sweep_input digest h) = ho_id h" "si_user (sweep_input digest h) = ho_user h"
  "si_action (sweep_input digest h) = entry_release" "si_key (sweep_input digest h) = ''sweep:'' @ itoa (ho_id h)"
  by (simp_all add: sweep_input_def Let_def)

lemma sweep_kind: "settle_kind now (sweep_input digest h) h entry_expire hold_expired = (entry_expire, hold_expired)"
  by (simp add: settle_kind_def)

lemma sweep_print: "kinded digest \<Longrightarrow> \<not> reserve_print digest (si_fingerprint (sweep_input digest h))"
  by (simp add: sweep_input_def Let_def hold_fingerprint_other vc_entries)

text \<open>The holds a sweep looks at, and the reading of one.\<close>

definition due_holds :: "int64 \<Rightarrow> int \<Rightarrow> vc_db \<Rightarrow> vc_hold_row list" where
  "due_holds currency limit db = take (nat limit) (sort_key ho_expires_at (sort_key ho_id
     (tab_select (\<lambda>h. ho_status h = hold_active \<and> ho_expires_at h \<le> vd_now db \<and> (currency > 0 \<longrightarrow> ho_currency h = currency)) (vd_holds db))))"

lemma expired_candidates_due: "expired_candidates currency limit db = map (\<lambda>h. (ho_id h, ho_user h)) (due_holds currency limit db)"
  by (simp add: expired_candidates_def due_holds_def)

lemma due_holds_rows: "set (due_holds currency limit db) \<subseteq> {h \<in> set (t_rows (vd_holds db)). ho_status h = hold_active \<and> ho_expires_at h \<le> vd_now db}"
  by (auto simp: due_holds_def tab_select_def dest: in_set_takeD)

lemma due_holds_distinct:
  assumes "tab_ok ho_id ho_ukey (vd_holds db)"
  shows "distinct (map ho_id (due_holds currency limit db))"
proof -
  let ?xs = "tab_select (\<lambda>h. ho_status h = hold_active \<and> ho_expires_at h \<le> vd_now db \<and> (currency > 0 \<longrightarrow> ho_currency h = currency)) (vd_holds db)"
  have "distinct (map ho_id ?xs)" using assms by (auto simp: tab_ok_def tab_select_def distinct_map_filter)
  then have "distinct (map ho_id (sort_key ho_expires_at (sort_key ho_id ?xs)))"
    by (simp add: distinct_map)
  then show ?thesis by (simp add: due_holds_def take_map [symmetric])
qed

lemma get_hold_row:
  assumes inv: "vc_inv digest db" and up: "vd_faults db = []" and h: "h \<in> set (t_rows (vd_holds db))"
  shows "\<exists>hold. get_hold (ho_user h) (ho_id h) db = (Inr hold, db) \<and> hd_row hold = h"
proof -
  have "tab_find (\<lambda>x. ho_id x = ho_id h \<and> ho_user x = ho_user h) (vd_holds db) \<noteq> None" using h by (auto simp: tab_find_None)
  then obtain x where x: "tab_find (\<lambda>x. ho_id x = ho_id h \<and> ho_user x = ho_user h) (vd_holds db) = Some x" by blast
  with tab_find_Some [OF x] hot.row_unique_rid [OF vc_inv_sel(6) [OF inv] _ h] have "x = h" by blast
  moreover have "currency_exists db (ho_currency h)" using vc_inv_sel(3) [OF inv] h by (simp add: holds_ok_def list_all_iff)
  then obtain c where "tab_find (\<lambda>c. cu_id c = ho_currency h) (vd_currencies db) = Some c" by (auto simp: currency_exists_def)
  ultimately show ?thesis using x commit_same [OF vc_inv_sel(2) [OF inv]]
    by (simp add: get_hold_def vc_call_up [OF up] get_hold_where_def join_hold_def)
qed

text \<open>The entry a candidate's key must not have, the columns of its mutation, and the room for its units.\<close>

definition sweepable :: "(fp_payload \<Rightarrow> string) \<Rightarrow> vc_db \<Rightarrow> vc_hold_row \<Rightarrow> bool" where
  "sweepable digest db h \<longleftrightarrow> h \<in> set (t_rows (vd_holds db)) \<and> ho_status h = hold_active \<and>
     ledger_by_key (ho_currency h) (ho_user h) (''sweep:'' @ itoa (ho_id h)) db = None \<and>
     delta_fits (settle_delta (sweep_input digest h) h entry_expire) db \<and>
     avail_of db (ho_user h) (ho_currency h) + reserved_of db (ho_user h) (ho_currency h) \<le> max_int64"

definition expire_rows :: "vc_hold_row list \<Rightarrow> gtime \<Rightarrow> vc_hold_row list \<Rightarrow> vc_hold_row list" where
  "expire_rows hs at = map (\<lambda>r. if ho_id r \<in> ho_id ` set hs then set_hold (hold_expired, at) r else r)"

lemma ledger_by_key_kept:
  assumes "t_rows (vd_ledger db') = t_rows (vd_ledger db) @ rows" and "\<forall>r\<in>set rows. lr_ukey r \<noteq> (c, u, k)"
    and "vd_currencies db' = vd_currencies db" and "ledger_by_key c u k db = None"
  shows "ledger_by_key c u k db' = None"
proof -
  have "tab_find (\<lambda>r. lr_ukey r = (c, u, k)) (vd_ledger db') = tab_find (\<lambda>r. lr_ukey r = (c, u, k)) (vd_ledger db)"
  proof -
    have "find (\<lambda>r. lr_ukey r = (c, u, k)) rows = None" using assms(2) by (simp add: find_None_iff)
    with assms(1) show ?thesis by (auto simp: tab_find_def find_append split: option.splits)
  qed
  with assms(3) have "ledger_by_key c u k db' = ledger_by_key c u k db" by (simp add: ledger_by_key_def cong: option.case_cong)
  with assms(4) show ?thesis by simp
qed

lemma sweep_one:
  assumes inv: "vc_inv digest db" "kinded digest" and up: "vd_faults db = []" and ok: "sweepable digest db h"
  obtains he db' where "settle_hold now (sweep_input digest h) entry_expire hold_expired db = (Inr he, db')"
    "vc_inv digest db'" "same_rest db db'" "t_rows (vd_holds db') = expire_rows [h] (vd_now db) (t_rows (vd_holds db))"
    "moved db db' (ho_user h) (ho_currency h) (ho_amount h) (- ho_amount h)"
    "\<And>g. sweepable digest db g \<Longrightarrow> ho_id g \<noteq> ho_id h \<Longrightarrow> sweepable digest db' g"
proof -
  let ?inp = "sweep_input digest h"
  have h: "h \<in> set (t_rows (vd_holds db))" "ho_status h = hold_active"
    and fresh: "ledger_by_key (ho_currency h) (ho_user h) (si_key ?inp) db = None"
    and fits: "delta_fits (settle_delta ?inp h entry_expire) db"
    and room: "avail_of db (ho_user h) (ho_currency h) + reserved_of db (ho_user h) (ho_currency h) \<le> max_int64"
    using ok by (simp_all add: sweepable_def sweep_sel)
  have "ho_amount h \<le> reserved_of db (ho_user h) (ho_currency h)"
    using held_member [OF vc_inv_sel(3) [OF inv(1)] h] vc_inv_sel(3) [OF inv(1)] by (simp add: holds_ok_def)
  then have "avail_of db (ho_user h) (ho_currency h) + ho_amount h \<le> max_int64" using room by simp
  from release_total [OF inv(1) up h sweep_sel(1,2,3) fresh sweep_kind fits this, of now] obtain hold e db' where
    run: "settle_hold now ?inp entry_expire hold_expired db = (Inr (hold, e), db')" by blast
  have wf: "without_fault db = db" using up by (simp add: without_fault_def)
  have tx: "settle_hold_tx now ?inp entry_expire hold_expired db = (Inr (hold, e), db')" and bal: "no_new_unbalanced db db'"
    using vc_call_Inr [OF run [unfolded settle_hold_def]] wf by (simp_all add: commit_ok_iff)
  have st: "hold_expired \<noteq> hold_active" by (simp add: vc_statuses)
  have inv': "vc_inv digest db'" using settle_inv [OF inv(1) st sweep_print [OF inv(2)] tx bal] .
  from tx show ?thesis
  proof (cases rule: settle_cases)
    case replay
    then have "hd_row hold = h" using hot.row_unique_rid [OF vc_inv_sel(6) [OF inv(1)] _ h(1)] by (simp add: sweep_sel)
    with replay fresh show ?thesis by (simp add: sweep_sel)
  next
    case (fresh h1 ty st1 db1 u)
    then have "h1 = h" using hot.row_unique_rid [OF vc_inv_sel(6) [OF inv(1)] _ h(1)] by (simp add: sweep_sel)
    note fr = fresh [unfolded this]
    have kinds: "ty = entry_expire" "st1 = hold_expired" using fr(8) by (simp_all add: sweep_kind)
    note eff = settle_fresh [OF vc_inv_sel(1) [OF inv(1)] h fr(3) st fr(4) fr(9) [unfolded kinds] fr(10) [unfolded kinds] bal]
    have rest: "same_rest db db'" using eff by blast
    have rows: "t_rows (vd_holds db') = expire_rows [h] (vd_now db) (t_rows (vd_holds db))" using eff by (simp add: expire_rows_def)
    have mv: "moved db db' (ho_user h) (ho_currency h) (ho_amount h) (- ho_amount h)"
      using eff by (simp add: settled_available_def sweep_sel vc_entries)
    have led: "vd_ledger db' = vd_ledger db1" using fr(10) by (auto simp: update_hold_tx_def split: prod.splits if_splits)
    obtain lrows where lrows: "t_rows (vd_ledger db') = t_rows (vd_ledger db) @ lrows"
      "\<And>r. r \<in> set lrows \<Longrightarrow> lr_ukey r = (ho_currency h, ho_user h, ''sweep:'' @ itoa (ho_id h))"
      using apply_delta_ledger [OF vc_inv_sel(2) [OF inv(1)] fr(9)] led by (auto simp: settle_delta_def sweep_sel)
    have pos: "0 < ho_id x" if "x \<in> set (t_rows (vd_holds db))" for x using vc_inv_sel(6) [OF inv(1)] that by (simp add: tab_ok_def)
    have keep: "sweepable digest db' g" if g: "sweepable digest db g" "ho_id g \<noteq> ho_id h" for g
    proof -
      have row: "g \<in> set (t_rows (vd_holds db))" using g(1) by (simp add: sweepable_def)
      have "itoa (ho_id g) \<noteq> itoa (ho_id h)" using itoa_inj_pos [OF pos [OF row] pos [OF h(1)]] g(2) by simp
      then have "ledger_by_key (ho_currency g) (ho_user g) (''sweep:'' @ itoa (ho_id g)) db' = None"
        using ledger_by_key_kept [OF lrows(1)] lrows(2) g(1) rest by (auto simp: sweepable_def same_rest_def)
      moreover have "g \<in> set (t_rows (vd_holds db'))" using row g(2) by (force simp: rows expire_rows_def)
      moreover have "delta_fits (settle_delta (sweep_input digest g) g entry_expire) db'"
        using g(1) rest delta_fits_same [of db' db] by (simp add: sweepable_def same_rest_def)
      ultimately show ?thesis using g(1) mv by (auto simp: sweepable_def moved_def)
    qed
    show ?thesis by (rule that [OF run inv' rest rows mv keep])
  qed
qed

text \<open>All candidates.\<close>

lemma sweep_all:
  assumes "vc_inv digest db" "kinded digest" "vd_faults db = []" "distinct (map ho_id hs)" "\<forall>h\<in>set hs. sweepable digest db h"
  shows "\<exists>db'. sweep now digest (map (\<lambda>h. (ho_id h, ho_user h)) hs) n db = ((None, n + int (length hs)), db') \<and>
    t_rows (vd_holds db') = expire_rows hs (vd_now db) (t_rows (vd_holds db)) \<and>
    (\<forall>u c. avail_of db' u c = avail_of db u c + (\<Sum>h\<leftarrow>hs. if ho_user h = u \<and> ho_currency h = c then ho_amount h else 0) \<and>
       avail_of db' u c + reserved_of db' u c = avail_of db u c + reserved_of db u c)"
  using assms
proof (induction hs arbitrary: n db)
  case Nil
  have "expire_rows [] t rs = rs" for t rs by (simp add: expire_rows_def)
  then show ?case by simp
next
  case (Cons h hs)
  have h: "h \<in> set (t_rows (vd_holds db))" and ok: "sweepable digest db h" using Cons.prems(5) by (simp_all add: sweepable_def)
  obtain hold where got: "get_hold (ho_user h) (ho_id h) db = (Inr hold, db)" "hd_row hold = h"
    using get_hold_row [OF Cons.prems(1,3) h] by blast
  show ?case
  proof (rule sweep_one [OF Cons.prems(1,2,3) ok, of now])
    fix he db1
    assume run: "settle_hold now (sweep_input digest h) entry_expire hold_expired db = (Inr he, db1)"
      and inv1: "vc_inv digest db1" and rest: "same_rest db db1" and rows: "t_rows (vd_holds db1) = expire_rows [h] (vd_now db) (t_rows (vd_holds db))"
      and mv: "moved db db1 (ho_user h) (ho_currency h) (ho_amount h) (- ho_amount h)"
      and keep: "\<And>g. sweepable digest db g \<Longrightarrow> ho_id g \<noteq> ho_id h \<Longrightarrow> sweepable digest db1 g"
    have up1: "vd_faults db1 = []" "vd_now db1 = vd_now db" using rest Cons.prems(3) by (simp_all add: same_rest_def)
    have ok1: "\<forall>g\<in>set hs. sweepable digest db1 g" using Cons.prems(4,5) keep by (metis image_eqI distinct.simps(2) list.set_map list.simps(9) set_subset_Cons subsetD)
    from Cons.IH [OF inv1 Cons.prems(2) up1(1) _ ok1, of "n + 1"] Cons.prems(4) obtain db2 where
      go: "sweep now digest (map (\<lambda>h. (ho_id h, ho_user h)) hs) (n + 1) db1 = ((None, n + 1 + int (length hs)), db2)"
      and rows2: "t_rows (vd_holds db2) = expire_rows hs (vd_now db) (t_rows (vd_holds db1))"
      and bal2: "\<forall>u c. avail_of db2 u c = avail_of db1 u c + (\<Sum>h\<leftarrow>hs. if ho_user h = u \<and> ho_currency h = c then ho_amount h else 0) \<and>
       avail_of db2 u c + reserved_of db2 u c = avail_of db1 u c + reserved_of db1 u c"
      using up1(2) by auto
    have "expire_rows hs t (expire_rows [h] t rs) = expire_rows (h # hs) t rs" for t rs
      by (auto simp: expire_rows_def set_hold_def)
    with rows2 rows have "t_rows (vd_holds db2) = expire_rows (h # hs) (vd_now db) (t_rows (vd_holds db))" by simp
    moreover have "sweep now digest (map (\<lambda>h. (ho_id h, ho_user h)) (h # hs)) n db = ((None, n + int (length (h # hs))), db2)"
      using got run go by simp
    moreover have "\<forall>u c. avail_of db2 u c = avail_of db u c + (\<Sum>h\<leftarrow>h # hs. if ho_user h = u \<and> ho_currency h = c then ho_amount h else 0) \<and>
       avail_of db2 u c + reserved_of db2 u c = avail_of db u c + reserved_of db u c"
    proof (intro allI)
      fix u c
      from bal2 [rule_format, of u c] mv [unfolded moved_def, rule_format, of u c]
      show "avail_of db2 u c = avail_of db u c + (\<Sum>h\<leftarrow>h # hs. if ho_user h = u \<and> ho_currency h = c then ho_amount h else 0) \<and>
         avail_of db2 u c + reserved_of db2 u c = avail_of db u c + reserved_of db u c"
        by (cases "u = ho_user h \<and> c = ho_currency h") auto
    qed
    ultimately show ?thesis by blast
  qed
qed

end
