(* ===== verification/VC_Sweep_Props.thy ===== *)
theory VC_Sweep_Props
  imports VC_Sweep VC_Demo
begin

text \<open>
  The properties of ExpireExpiredHolds: when it settles every hold that is due, and when it never does.
\<close>


definition demo_late :: vc_world where "demo_late = demo_world\<lparr>ww_now := demo_now + 2 * hour\<rparr>"




text \<open>
Claim C36: the sweep shares its idempotency keys with the users: when the first hold that is due has the id i and
its user has used the key "sweep:i" in that currency for a request with another fingerprint, every call of
ExpireExpiredHolds ends at that hold with IDEMPOTENCY_CONFLICT, settles nothing and leaves the database as
it is, so no hold behind it expires either.
\<close>

theorem sweep_blocked:
  assumes reach: "vc_reachable digest db" "kinded digest" and up: "vd_faults db = []"
    and range: "0 \<le> currency" "1 \<le> limit" "limit \<le> 500"
    and due: "due_holds currency limit db = h # hs"
    and used: "ledger_by_key (ho_currency h) (ho_user h) (''sweep:'' @ itoa (ho_id h)) db = Some e"
    and other: "lr_fingerprint (le_row e) \<noteq> si_fingerprint (sweep_input digest h)"
  shows "svc_expire_holds digest now currency limit db = ((Some err_vc_idempotency, 0), db)"
proof -
  note inv = reachable_inv [OF reach]
  have h: "h \<in> set (t_rows (vd_holds db))" using due_holds_rows [of currency limit db] due by auto
  have read: "vc_call (vc_read (expired_candidates currency limit)) db = (Inr (map (\<lambda>h. (ho_id h, ho_user h)) (h # hs)), db)"
    using commit_same [OF vc_inv_sel(2) [OF inv]] due by (simp add: vc_call_up [OF up] vc_read_def expired_candidates_due)
  obtain hold where got: "get_hold (ho_user h) (ho_id h) db = (Inr hold, db)" "hd_row hold = h"
    using get_hold_row [OF inv up h] by blast
  have first: "get_hold_where (\<lambda>x. ho_id x = ho_id h \<and> ho_user x = ho_user h) db = (Inr hold, db)"
  proof -
    have "without_fault db = db" using up by (simp add: without_fault_def)
    with vc_call_Inr [OF got(1) [unfolded get_hold_def]] show ?thesis by simp
  qed
  have "settle_hold_tx now (sweep_input digest h) entry_expire hold_expired db = (Inl err_vc_idempotency, db)"
    using first used other got(2) by (simp add: settle_hold_tx_def vc_bind_def vc_read_def sweep_sel vc_fail_def)
  then have "settle_hold now (sweep_input digest h) entry_expire hold_expired db = (Inl err_vc_idempotency, db)"
    by (simp add: settle_hold_def vc_call_up [OF up])
  moreover have "\<not> errors_is err_vc_idempotency err_vc_hold_state" "\<not> errors_is err_vc_idempotency err_vc_hold_not_found"
    by code_simp+
  ultimately show ?thesis
    using range read got by (simp add: svc_expire_holds_def Let_def repo_expire_holds_def)
qed

definition demo_taken :: vc_db where
  "demo_taken = snd (svc_spend demo_digest demo_now (demo_spend 10 ''sweep:1'') demo_db4)"

lemma demo_taken_eq: "demo_taken = demo_books (50, 40) [demo_hold hold_active None]
    (take 2 demo_ledger @ [demo_entry 3 (- 10, - 10, 0) (50, 40) (entry_spend, ''game'') (''sweep:1'', demo_print ''b'' 10)])
    (take 2 demo_journals @ [demo_journal 3 (entry_spend, ''game'') (''sweep:1'', demo_print ''b'' 10)])
    (take 4 demo_postings @ [demo_posting 5 3 (Some 7) acct_user_available (- 10), demo_posting 6 3 None acct_sink 10]) demo_base"
  unfolding demo_taken_def demo_db4_eq by code_simp

theorem sweep_blocked_witness:
  "svc_expire_holds demo_digest (demo_now + 2 * hour) 0 100 (set_world demo_late demo_taken) =
     ((Some err_vc_idempotency, 0), set_world demo_late demo_taken)"
proof -
  let ?db = "set_world demo_late demo_taken"
  have reach: "vc_reachable demo_digest ?db"
    unfolding demo_taken_def by (rule reach_step [OF reach_step [OF demo_reachable(4) step_spend [OF prod.collapse [symmetric]]] step_world])
  have due: "vd_faults ?db = []" "due_holds 0 100 ?db = [demo_hold hold_active None]"
    unfolding demo_taken_eq by code_simp+
  have used: "case ledger_by_key (ho_currency (demo_hold hold_active None)) (ho_user (demo_hold hold_active None))
      (''sweep:'' @ itoa (ho_id (demo_hold hold_active None))) ?db of None \<Rightarrow> False
    | Some e \<Rightarrow> lr_fingerprint (le_row e) \<noteq> si_fingerprint (sweep_input demo_digest (demo_hold hold_active None))"
    unfolding demo_taken_eq by code_simp
  from sweep_blocked [OF reach demo_kinded due(1) _ _ _ due(2)] used show ?thesis by (auto split: option.splits)
qed

end
