(* ===== verification/VC_Recon_Props.thy ===== *)
theory VC_Recon_Props
  imports VC_Laws VC_Demo
begin

text \<open>
  The properties of ReconcileCurrency: what a report says of sound books, and when it reports a
  difference that is not there.
\<close>

section \<open>The newest entry\<close>

lemma filter_entries_sorted:
  assumes "tab_ok lr_id lr_ukey (vd_ledger db)"
  shows "sorted (map lr_id (entries_of db u c))"
  using assms by (simp add: entries_of_def tab_select_def tab_ok_def sorted_filter)

lemma sort_key_last_first:
  fixes f :: "'a \<Rightarrow> 'b::linorder"
  assumes "xs \<noteq> []" and "\<And>x. x \<in> set xs \<Longrightarrow> f z \<le> f x" and "z \<in> set xs" and "\<And>x. x \<in> set xs \<Longrightarrow> f x = f z \<Longrightarrow> x = z"
  shows "hd (sort_key f xs) = z"
proof -
  have s: "sorted (map f (sort_key f xs))" "set (sort_key f xs) = set xs" by simp_all
  obtain y ys where y: "sort_key f xs = y # ys" using assms(1) by (metis length_0_conv length_sort neq_Nil_conv)
  have "f y \<le> f z" using s y assms(3) by (metis list.simps(9) set_ConsD sorted_simps(2) order_refl imageI list.set_map)
  moreover have "y \<in> set xs" using s(2) y by (metis list.set_intros(1))
  ultimately show ?thesis using assms(2,4) y by (metis antisym list.sel(1))
qed

text \<open>Ties of \<open>created_at\<close> go to the greater id.\<close>

lemma newest_first_hd:
  assumes "z \<in> set rows" and "\<And>x. x \<in> set rows \<Longrightarrow> x \<noteq> z \<Longrightarrow> created x < created z \<or> created x = created z \<and> i x < i z"
  shows "\<exists>rest. newest_first created i rows = z # rest"
proof -
  let ?ys = "sort_key (\<lambda>r. - i r) rows"
  let ?t = "- created z"
  have "newest_first created i rows = sort_key (\<lambda>r. - created r) ?ys" by (simp add: newest_first_def)
  moreover have "filter (\<lambda>r. - created r = ?t) (sort_key (\<lambda>r. - created r) ?ys) = filter (\<lambda>r. - created r = ?t) ?ys"
    by (rule sort_key_stable)
  moreover have "filter (\<lambda>r. - created r = ?t) ?ys = sort_key (\<lambda>r. - i r) (filter (\<lambda>r. - created r = ?t) rows)"
    by (simp add: filter_sort)
  moreover have "hd (sort_key (\<lambda>r. - i r) (filter (\<lambda>r. - created r = ?t) rows)) = z"
    by (rule sort_key_last_first) (use assms in \<open>auto simp: filter_empty_conv, fastforce+\<close>)
  ultimately have tied: "hd (filter (\<lambda>r. - created r = ?t) (newest_first created i rows)) = z" by simp
  obtain y ys where y: "newest_first created i rows = y # ys"
    using assms(1) by (metis newest_first_def length_0_conv length_sort list.size(3) neq_Nil_conv empty_iff list.set(1))
  have "sorted (map (\<lambda>r. - created r) (y # ys))" using y unfolding newest_first_def by (metis sorted_sort_key)
  moreover have "set (y # ys) = set rows" using y by (metis newest_first_def set_sort)
  ultimately have "- created y \<le> ?t" using assms(1) by auto
  moreover have "y \<in> set rows" using \<open>set (y # ys) = set rows\<close> by auto
  ultimately have "created y = created z" using assms(2) [of y] by fastforce
  with tied y show ?thesis by simp
qed

lemma latest_newest:
  assumes "z \<in> set (entries_of db u c)"
    and "\<And>x. x \<in> set (entries_of db u c) \<Longrightarrow> x \<noteq> z \<Longrightarrow> lr_created_at x < lr_created_at z \<or> lr_created_at x = lr_created_at z \<and> lr_id x < lr_id z"
  shows "latest_entry db c u = Some z"
proof -
  have "\<exists>rest. newest_first lr_created_at lr_id (entries_of db u c) = z # rest" by (rule newest_first_hd) (use assms in auto)
  then show ?thesis by (auto simp: latest_entry_def entries_of_def)
qed

lemma last_greatest: "sorted xs \<Longrightarrow> x \<in> set xs \<Longrightarrow> x \<le> last xs"
  by (induction xs) auto

lemma latest_chronological:
  assumes ok: "tab_ok lr_id lr_ukey (vd_ledger db)" and some: "entries_of db u c \<noteq> []"
    and mono: "sorted (map lr_created_at (entries_of db u c))"
  shows "latest_entry db c u = Some (last (entries_of db u c))"
proof (rule latest_newest)
  let ?es = "entries_of db u c"
  show "last ?es \<in> set ?es" using some by simp
  fix x assume x: "x \<in> set ?es" "x \<noteq> last ?es"
  have "lr_created_at x \<le> lr_created_at (last ?es)"
    using last_greatest [OF mono, of "lr_created_at x"] x(1) some by (simp add: last_map)
  moreover have "lr_id x \<le> lr_id (last ?es)"
    using last_greatest [OF filter_entries_sorted [OF ok, of u c], of "lr_id x"] x(1) some by (simp add: last_map)
  moreover have "lr_id x \<noteq> lr_id (last ?es)"
  proof -
    have "x \<in> set (t_rows (vd_ledger db))" "last ?es \<in> set (t_rows (vd_ledger db))"
      using x(1) last_in_set [OF some] by (simp_all add: entries_of_def tab_select_def)
    with lrt.row_unique_rid [OF ok] x(2) show ?thesis by blast
  qed
  ultimately show "lr_created_at x < lr_created_at (last ?es) \<or> lr_created_at x = lr_created_at (last ?es) \<and> lr_id x < lr_id (last ?es)" by auto
qed

section \<open>The report\<close>

definition chronological :: "int64 \<Rightarrow> vc_db \<Rightarrow> bool" where
  "chronological c db \<longleftrightarrow> (\<forall>u. sorted (map lr_created_at (entries_of db u c)))"

lemma recon_clean:
  assumes inv: "vc_inv digest db" and mono: "chronological c db"
  shows "filter mismatched (recon c db) = []"
proof -
  have books: "books_ok db" using vc_inv_sel(2) [OF inv] .
  have wt: "tab_ok wa_id wa_key (vd_wallets db)" and lt: "tab_ok lr_id lr_ukey (vd_ledger db)"
    using books by (simp_all add: books_ok_def tables_ok_def)
  have acc: "account_ok db u c" for u using books by (simp add: books_ok_def)
  have used: "wallet_of db u c \<noteq> None \<Longrightarrow> entries_of db u c \<noteq> []" for u using vc_inv_sel(5) [OF inv] by (simp add: wallets_used_def)
  have "\<not> mismatched (recon_row (wa_user w) (Some w) (latest_entry db c (wa_user w)))"
    if w: "w \<in> set (t_rows (vd_wallets db))" "wa_currency w = c" for w
  proof -
    have wo: "wallet_of db (wa_user w) c = Some w" using wat.lookup_row [OF wt w(1)] w(2) by (simp add: wallet_of_def wa_key_def)
    then have some: "entries_of db (wa_user w) c \<noteq> []" using used by simp
    have "latest_entry db c (wa_user w) = Some (last (entries_of db (wa_user w) c))"
      using latest_chronological [OF lt some] mono by (simp add: chronological_def)
    with acc [of "wa_user w"] some wo show ?thesis
      by (simp add: mismatched_def recon_row_def account_ok_def avail_of_def reserved_of_def)
  qed
  moreover have "wallet_of db u c \<noteq> None" if "u \<in> lr_user ` set (tab_select (\<lambda>r. lr_currency r = c) (vd_ledger db))" for u
  proof -
    have "entries_of db u c \<noteq> []" using that by (auto simp: entries_of_def tab_select_def filter_empty_conv)
    with acc show ?thesis by (simp add: account_ok_def)
  qed
  then have "filter (\<lambda>u. wallet_of db u c = None) (remdups (map lr_user (tab_select (\<lambda>r. lr_currency r = c) (vd_ledger db)))) = []"
    by (simp add: filter_empty_conv)
  ultimately show ?thesis by (auto simp: recon_def filter_empty_conv tab_select_def)
qed

lemma accounting_clean:
  assumes inv: "vc_inv digest db"
  shows "ac_projection_delta (accounting c db) = ''0'' \<and> ac_conservation_delta (accounting c db) = ''0'' \<and> ac_invalid_journals (accounting c db) = 0"
proof -
  have "filter (\<lambda>j. \<not> journal_balanced db j) (tab_select P (vd_journals db)) = []" for P
    using vc_inv_sel(2) [OF inv] by (auto simp: books_ok_def journals_ok_def list_all_iff filter_empty_conv tab_select_def)
  moreover have "totals_ok db" using vc_inv_sel(5) [OF inv] by blast
  moreover have "itoa 0 = ''0''" by code_simp
  ultimately show ?thesis by (simp add: accounting_def Let_def totals_ok_def)
qed

lemma reconcile_run:
  assumes inv: "vc_inv digest db" and up: "vd_faults db = []" and range: "0 < currency" "1 \<le> limit" "limit \<le> 100"
  shows "\<exists>rep. svc_reconcile now currency limit db = (Inr rep, db) \<and> rp_accounting rep = accounting currency db \<and>
    rp_mismatches rep = int (length (filter mismatched (recon currency db))) \<and>
    rp_sample rep = take (nat limit) (sort_key mm_user (filter mismatched (recon currency db)))"
  using range commit_same [OF vc_inv_sel(2) [OF inv]]
  by (simp add: svc_reconcile_def Let_def repo_reconcile_def vc_bind_def vc_read_def vc_return_def vc_call_up [OF up])

text \<open>
Claim C27: on every reachable database a report finds no journal out of balance, no difference between wallets
and postings and a conservation sum of zero, and when the entries of each user carry growing times it
counts no mismatch and lists none.
\<close>

theorem reconcile_clean:
  assumes "vc_reachable digest db" and "kinded digest" and "vd_faults db = []"
    and "0 < currency" and "1 \<le> limit" and "limit \<le> 100"
  shows "\<exists>rep. svc_reconcile now currency limit db = (Inr rep, db) \<and> ac_invalid_journals (rp_accounting rep) = 0 \<and>
    ac_projection_delta (rp_accounting rep) = ''0'' \<and> ac_conservation_delta (rp_accounting rep) = ''0'' \<and>
    (chronological currency db \<longrightarrow> rp_mismatches rep = 0 \<and> rp_sample rep = [])"
proof -
  note inv = reachable_inv [OF assms(1,2)]
  show ?thesis
    using reconcile_run [OF inv assms(3,4,5,6), of now] accounting_clean [OF inv, of currency] recon_clean [OF inv, of currency] by auto
qed

theorem reconcile_clean_witness:
  "\<exists>rep. svc_reconcile demo_now 1 20 demo_db4 = (Inr rep, demo_db4) \<and> rp_mismatches rep = 0 \<and>
     ac_projection_delta (rp_accounting rep) = ''0''"
proof -
  have up: "vd_faults demo_db4 = []" unfolding demo_db4_eq by code_simp
  have same: "list_all (\<lambda>r. lr_created_at r = demo_now) (t_rows (vd_ledger demo_db4))" unfolding demo_db4_eq by code_simp
  have "sorted (map lr_created_at (filter P (t_rows (vd_ledger demo_db4))))" for P
  proof -
    have "map lr_created_at (filter P (t_rows (vd_ledger demo_db4))) = replicate (length (filter P (t_rows (vd_ledger demo_db4)))) demo_now"
      using same by (auto simp: list_all_iff map_replicate_const [symmetric])
    then show ?thesis by simp
  qed
  then have "chronological 1 demo_db4" by (simp add: chronological_def entries_of_def tab_select_def)
  with reconcile_clean [OF demo_reachable(4) demo_kinded up, of 1 20 demo_now] show ?thesis by auto
qed

text \<open>
The report takes the newest entry of a user by its time, and the time of an entry is the start of
its transaction, which may lie before that of an entry written earlier: when the entry with the
greatest time is not the last one and its balance is not the present one, the report counts a mismatch
although the books are sound.
\<close>

theorem reconcile_stale:
  assumes "vc_reachable digest db" and "kinded digest" and "vd_faults db = []"
    and "0 < currency" and "1 \<le> limit" and "limit \<le> 100"
    and "r \<in> set (entries_of db u currency)" and "\<forall>x\<in>set (entries_of db u currency). x \<noteq> r \<longrightarrow> lr_created_at x < lr_created_at r"
    and "lr_available_after r \<noteq> avail_of db u currency"
  shows "\<exists>rep. svc_reconcile now currency limit db = (Inr rep, db) \<and> 0 < rp_mismatches rep \<and> rp_sample rep \<noteq> [] \<and> books_ok db"
proof -
  note inv = reachable_inv [OF assms(1,2)]
  have books: "books_ok db" using vc_inv_sel(2) [OF inv] .
  have wt: "tab_ok wa_id wa_key (vd_wallets db)" using books by (simp add: books_ok_def tables_ok_def)
  have "account_ok db u currency" using books by (simp add: books_ok_def)
  then obtain w where w: "wallet_of db u currency = Some w" using assms(7) by (auto simp: account_ok_def)
  then have row: "w \<in> set (t_rows (vd_wallets db))" "wa_user w = u" "wa_currency w = currency"
    by (auto simp: wallet_of_row [OF wt] wa_key_def)
  have "latest_entry db currency u = Some r" by (rule latest_newest) (use assms(7,8) in auto)
  then have "mismatched (recon_row (wa_user w) (Some w) (latest_entry db currency (wa_user w)))"
    using w row(2) assms(9) by (simp add: mismatched_def recon_row_def avail_of_def)
  then have "filter mismatched (recon currency db) \<noteq> []"
    using row(1,3) by (auto simp: recon_def filter_empty_conv tab_select_def)
  moreover from this have "sort_key mm_user (filter mismatched (recon currency db)) \<noteq> []"
    by (metis length_0_conv length_sort)
  ultimately show ?thesis using reconcile_run [OF inv assms(3,4,5,6), of now] books assms(5) by auto
qed

definition demo_early :: vc_world where "demo_early = demo_world\<lparr>ww_now := demo_now - 100\<rparr>"
definition demo_skewed :: vc_db where
  "demo_skewed = snd (svc_spend demo_digest demo_now (demo_spend 30 ''s1'') (set_world demo_early demo_db3))"

theorem reconcile_stale_witness:
  "\<exists>rep. svc_reconcile demo_now 1 20 demo_skewed = (Inr rep, demo_skewed) \<and> 0 < rp_mismatches rep"
proof -
  have reach: "vc_reachable demo_digest demo_skewed"
    unfolding demo_skewed_def
    by (rule reach_step [OF reach_step [OF demo_reachable(3) step_world] step_spend [OF prod.collapse [symmetric]]])
  have "case svc_spend demo_digest demo_now (demo_spend 30 ''s1'') (set_world demo_early demo_db3) of (_, db) \<Rightarrow>
      vd_faults db = [] \<and> map lr_created_at (entries_of db 7 1) = [demo_now, demo_now - 100] \<and>
      map lr_available_after (entries_of db 7 1) = [100, 70] \<and> avail_of db 7 1 = 70"
    unfolding demo_db3_eq by code_simp
  then have facts: "vd_faults demo_skewed = [] \<and> map lr_created_at (entries_of demo_skewed 7 1) = [demo_now, demo_now - 100] \<and>
      map lr_available_after (entries_of demo_skewed 7 1) = [100, 70] \<and> avail_of demo_skewed 7 1 = 70"
    by (simp add: demo_skewed_def case_prod_unfold)
  then obtain a b where es: "entries_of demo_skewed 7 1 = [a, b]" "lr_created_at a = demo_now" "lr_created_at b = demo_now - 100"
    "lr_available_after a = 100" by (auto simp: map_eq_Cons_conv)
  from reconcile_stale [OF reach demo_kinded, of 1 20 a 7 demo_now] facts es show ?thesis by auto
qed

end
