(* ===== verification/VC_Read_Props.thy ===== *)
theory VC_Read_Props
  imports VC_Laws VC_Demo
begin

text \<open>
  The properties of the pure helpers and of the reads: FormatUnits, the keys of hold requests, the group
  of an administrator's adjustment, and pages.
\<close>

section \<open>Amounts\<close>

lemma digits_val_append: "digits_val (xs @ ys) = digits_val xs * 10 ^ length ys + digits_val ys"
  by (induction ys rule: rev_induct) (simp_all add: digits_val_def algebra_simps)

lemma scale_base_power: "s \<le> 8 \<Longrightarrow> scale_base s = 10 ^ s"
proof (induction s)
  case (Suc s)
  then have "(10::int) ^ s * 10 < 18446744073709551616"
    using power_increasing [of s 7 "10::int"] by simp
  with Suc show ?case by (simp add: wrap_u64_def algebra_simps)
qed simp

lemma units_magnitude_abs: "in_int64 units \<Longrightarrow> units_magnitude units = \<bar>units\<bar>"
  by (auto simp: units_magnitude_def wrap_u64_def in_int64_def max_int64_def min_int64_def wrap64_id)

lemma pad_digits: "list_all is_digit (show_nat_pad w n)"
  using show_nat_digits [of _ n] by (auto simp: show_nat_pad_def list_all_iff is_digit_def byte_between_def byte_of_def)

lemma digit_not_point: "is_digit c \<Longrightarrow> c \<noteq> CHR ''.''"
  by (auto simp: is_digit_def byte_between_def byte_of_def)

lemma filter_digits: "list_all is_digit s \<Longrightarrow> filter (\<lambda>c. c \<noteq> CHR ''.'') s = s"
  by (auto simp: list_all_iff filter_id_conv digit_not_point)

lemma abs_value: "\<bar>units\<bar> = int m \<Longrightarrow> units = (if units < 0 then - int m else int m)" by auto

text \<open>
FormatUnits loses nothing: for a scale of at most eight the text without its point reads back as the
units, also for the least 64-bit integer, and a scale above zero gives exactly that many digits after the
point.
\<close>

theorem format_units_roundtrip:
  assumes "in_int64 units" and "0 \<le> scale" and "scale \<le> 8"
  shows "atoi (filter (\<lambda>c. c \<noteq> CHR ''.'') (format_units (Some scale) units)) = Some units \<and>
    (0 < scale \<longrightarrow> (\<exists>whole frac. format_units (Some scale) units = whole @ ''.'' @ frac \<and> length frac = nat scale \<and> list_all is_digit frac))"
proof (cases "scale = 0")
  case True
  have "filter (\<lambda>c. c \<noteq> CHR ''.'') (itoa units) = itoa units"
    using show_nat_digits [THEN digit_not_point] by (auto simp: itoa_def filter_id_conv)
  with True atoi_itoa [OF assms(1)] show ?thesis by (simp add: format_units_def)
next
  case False
  let ?w = "nat scale"
  obtain m where m: "\<bar>units\<bar> = int m" by (metis abs_ge_zero zero_le_imp_eq_int)
  have w: "0 < ?w" "?w \<le> 8" using False assms by auto
  let ?frac = "show_nat_pad ?w (m mod 10 ^ ?w)" let ?whole = "show_nat (m div 10 ^ ?w)"
  have base: "units_magnitude units div scale_base ?w = int (m div 10 ^ ?w)" "units_magnitude units mod scale_base ?w = int (m mod 10 ^ ?w)"
    using scale_base_power [OF w(2)] units_magnitude_abs [OF assms(1)] m by (simp_all add: of_nat_div of_nat_mod)
  have fmt: "format_units (Some scale) units = (if units < 0 then ''-'' else []) @ ?whole @ ''.'' @ ?frac"
    unfolding format_units_def Let_def option.case base using False by (simp add: itoa_def)
  have len: "length ?frac = ?w" using length_show_nat_pad [OF w(1), of "m mod 10 ^ ?w"] by simp
  have "digits_val (?whole @ ?frac) = m" using div_mult_mod_eq [of m "10 ^ ?w"] by (simp add: digits_val_append len)
  moreover have digits: "list_all is_digit (?whole @ ?frac)" using pad_digits show_nat_digits by (auto simp: list_all_iff)
  moreover obtain c cs where c: "?whole = c # cs" by (cases ?whole) auto
  moreover note sign = show_nat_no_sign [OF c]
  moreover have "filter (\<lambda>c. c \<noteq> CHR ''.'') (format_units (Some scale) units) = (if units < 0 then ''-'' else []) @ ?whole @ ?frac"
    using filter_digits [of ?whole] filter_digits [of ?frac] digits by (simp add: fmt)
  ultimately have "atoi (filter (\<lambda>c. c \<noteq> CHR ''.'') (format_units (Some scale) units)) = Some units"
    using assms(1) abs_value [OF m] by (cases "units < 0") (auto simp: atoi_def Let_def)
  moreover have "format_units (Some scale) units = ((if units < 0 then ''-'' else []) @ ?whole) @ ''.'' @ ?frac" using fmt by simp
  ultimately show ?thesis using len pad_digits by blast
qed

theorem format_units_roundtrip_witness:
  "atoi (filter (\<lambda>c. c \<noteq> CHR ''.'') (format_units (Some 2) min_int64)) = Some min_int64 \<and> format_units (Some 2) (- 5) = ''-0.05''"
proof -
  have "in_int64 min_int64" by (simp add: in_int64_def max_int64_def min_int64_def)
  then have "atoi (filter (\<lambda>c. c \<noteq> CHR ''.'') (format_units (Some 2) min_int64)) = Some min_int64"
    using format_units_roundtrip [of min_int64 2] by simp
  moreover have "format_units (Some 2) (- 5) = ''-0.05''" by code_simp
  ultimately show ?thesis by simp
qed

section \<open>Keys of hold requests\<close>

lemma hold_key_value: "hold_idempotency_key action key = Inr r \<Longrightarrow> r = ''hold.'' @ action @ '':'' @ trim_space key \<and> rune_count r \<le> max_source_id_runes"
  by (auto simp: hold_idempotency_key_def Let_def split: if_splits)

text \<open>
The idempotency keys of hold requests are kept apart: two accepted keys are equal only when the action
and the trimmed text are, an accepted key has at most 128 characters, and it is never a key of the sweep.
\<close>

theorem hold_keys_separate:
  assumes "hold_idempotency_key a k = Inr r" and "hold_idempotency_key b l = Inr r'"
    and "a \<in> {''reserve'', entry_commit, entry_release}" and "b \<in> {''reserve'', entry_commit, entry_release}"
  shows "(r = r' \<longleftrightarrow> a = b \<and> trim_space k = trim_space l) \<and> rune_count r \<le> 128 \<and> (\<forall>i. r \<noteq> ''sweep:'' @ itoa i)"
  using assms(3,4) hold_key_value [OF assms(1)] hold_key_value [OF assms(2)]
  by (auto simp: vc_entries max_source_id_runes_def)

theorem hold_keys_separate_witness:
  "\<exists>r r'. hold_idempotency_key ''reserve'' '' k1 '' = Inr r \<and> hold_idempotency_key entry_commit ''k1'' = Inr r' \<and> r \<noteq> r'"
proof -
  have "hold_idempotency_key ''reserve'' '' k1 '' = Inr ''hold.reserve:k1''" "hold_idempotency_key entry_commit ''k1'' = Inr ''hold.commit:k1''"
    by code_simp+
  with hold_keys_separate [OF this] show ?thesis by (auto simp: vc_entries)
qed

section \<open>The group of an adjustment\<close>

definition select_group :: "(vc_policy \<Rightarrow> bool) \<Rightarrow> int64 set \<Rightarrow> int64 \<Rightarrow> vc_policy list \<Rightarrow> int64" where
  "select_group skip A = foldl (\<lambda>sel p. if skip p then sel else if po_group p \<notin> A then sel
     else if sel = 0 \<or> po_group p < sel then po_group p else sel)"

lemma select_least:
  fixes skip A
  assumes "\<forall>p\<in>set ps. 0 < po_group p" and "0 \<le> sel"
  defines "S \<equiv> {po_group p | p. p \<in> set ps \<and> \<not> skip p \<and> po_group p \<in> A}"
  shows "(select_group skip A sel ps = 0 \<longleftrightarrow> sel = 0 \<and> S = {}) \<and>
    (select_group skip A sel ps \<noteq> 0 \<longrightarrow> select_group skip A sel ps \<in> S \<union> {sel}) \<and>
    (\<forall>g\<in>S. select_group skip A sel ps \<le> g) \<and> (sel \<noteq> 0 \<longrightarrow> select_group skip A sel ps \<le> sel)"
  using assms(1,2) unfolding S_def
proof (induction ps arbitrary: sel)
  case (Cons q ps)
  let ?sel = "if skip q then sel else if po_group q \<notin> A then sel else if sel = 0 \<or> po_group q < sel then po_group q else sel"
  have step: "select_group skip A sel (q # ps) = select_group skip A ?sel ps" by (simp add: select_group_def)
  have pos: "0 < po_group q" "\<forall>p\<in>set ps. 0 < po_group p" using Cons.prems(1) by simp_all
  show ?case
  proof (cases "skip q \<or> po_group q \<notin> A")
    case True
    then have "?sel = sel" by auto
    then show ?thesis using Cons.IH [OF pos(2) Cons.prems(2)] True unfolding step by auto
  next
    case False
    show ?thesis
    proof (cases "sel = 0 \<or> po_group q < sel")
      case True
      then have sel: "?sel = po_group q" using False by simp
      have "0 \<le> po_group q" using pos(1) by simp
      from Cons.IH [OF pos(2) this] pos(1) False True show ?thesis unfolding step sel by force
    next
      case less: False
      then have sel: "?sel = sel" by simp
      from Cons.IH [OF pos(2) Cons.prems(2)] pos(1) False less show ?thesis unfolding step sel by force
    qed
  qed
qed (auto simp: select_group_def)

lemma fail_or_return: "(if b then vc_fail e else vc_return x) db = (if b then Inl e else Inr x, db)"
  by (simp add: vc_fail_def vc_return_def)

lemma found_member: "find P xs = Some x \<Longrightarrow> x \<in> set xs \<and> P x"
  by (induction xs) (auto split: if_splits)

text \<open>The groups an adjustment of a currency may name for a user.\<close>

definition admin_groups :: "vc_db \<Rightarrow> int64 \<Rightarrow> vc_currency \<Rightarrow> bool \<Rightarrow> int64 set" where
  "admin_groups db user c earn = (if cu_status c \<noteq> vc_active then {} else
     {po_group p | p. p \<in> set (t_rows (vd_policies db)) \<and> po_currency p = cu_id c \<and> po_enabled p \<and>
       (earn \<longrightarrow> po_can_earn p) \<and> user_allowed db (po_group p) user})"

text \<open>
An administrator's adjustment that names no group uses the smallest group whose policy for the
currency is enabled, allows earning when units are given, and which is open to the user; when there is
none, or the currency is disabled, it is denied.
\<close>

theorem admin_group_least:
  assumes reach: "vc_reachable digest db" "kinded digest" and up: "vd_faults db = []"
    and pos: "\<forall>p\<in>set (t_rows (vd_policies db)). 0 < po_group p"
    and cur: "c \<in> set (t_rows (vd_currencies db))"
  shows "resolve_admin_group (cu_id c) user earn db =
    (if admin_groups db user c earn = {} then Inl err_vc_group_denied else Inr (Min (admin_groups db user c earn)), db)"
proof -
  have books: "books_ok db" using vc_inv_sel(2) [OF reachable_inv [OF reach]] .
  have ct: "tab_ok cu_id (\<lambda>c. to_lower (cu_code c)) (vd_currencies db)" using books by (simp add: books_ok_def tables_ok_def)
  let ?keep = "\<lambda>c. cu_status c = vc_active \<and> (wallet_of db user (cu_id c) \<noteq> None \<or> open_groups db user (cu_id c) \<noteq> [])"
  let ?shown = "map (wallet_view db user) (sort_key cu_id (tab_select ?keep (vd_currencies db)))"
  have uniq: "c' = c" if "c' \<in> set (t_rows (vd_currencies db))" "cu_id c' = cu_id c" for c'
    using cut.row_unique_rid [OF ct that(1) cur] that(2) by simp
  define A where "A = (case find (\<lambda>w. wl_currency w = cu_id c) ?shown of None \<Rightarrow> [] | Some w \<Rightarrow> wl_groups w)"
  have A: "set A = (if cu_status c = vc_active then set (open_groups db user (cu_id c)) else {})"
  proof (cases "find (\<lambda>w. wl_currency w = cu_id c) ?shown")
    case None
    then have "\<not> ?keep c" using cur by (auto simp: find_None_iff wallet_view_def Let_def tab_select_def)
    with None show ?thesis by (auto simp: A_def)
  next
    case (Some w)
    then have "w \<in> set ?shown \<and> wl_currency w = cu_id c" by (rule found_member)
    then obtain c' where c': "c' \<in> set (t_rows (vd_currencies db))" "?keep c'" "w = wallet_view db user c'" "cu_id c' = cu_id c"
      by (auto simp: tab_select_def wallet_view_def Let_def)
    with uniq [OF c'(1,4)] Some show ?thesis by (simp add: A_def wallet_view_def Let_def)
  qed
  let ?ps = "sort_key po_group (tab_select (\<lambda>p. po_currency p = cu_id c) (vd_policies db))"
  let ?skip = "\<lambda>p. \<not> po_enabled p \<or> (earn \<and> \<not> po_can_earn p)"
  let ?S = "admin_groups db user c earn"
  have S: "?S = {po_group p | p. p \<in> set ?ps \<and> \<not> ?skip p \<and> po_group p \<in> set A}"
    unfolding admin_groups_def A by (auto simp: open_groups_def tab_select_def)
  have fin: "finite ?S" unfolding S by simp
  have pos': "\<forall>p\<in>set ?ps. 0 < po_group p" using pos by (simp add: tab_select_def)
  note least = select_least [OF pos' order.refl, of ?skip "set A", folded S]
  have l1: "repo_list_user_wallets user db = (Inr ?shown, db)" and l2: "list_group_policies (cu_id c) db = (Inr ?ps, db)"
    using commit_same [OF books] by (simp_all add: repo_list_user_wallets_def list_group_policies_def vc_read_def vc_call_up [OF up])
  have "resolve_admin_group (cu_id c) user earn db =
      (if select_group ?skip (set A) 0 ?ps = 0 then Inl err_vc_group_denied else Inr (select_group ?skip (set A) 0 ?ps), db)"
    by (simp only: resolve_admin_group_def vc_bind_def l1 l2 prod.case sum.case Let_def A_def select_group_def fail_or_return)
  moreover have "select_group ?skip (set A) 0 ?ps = Min ?S" if "?S \<noteq> {}"
    using least that fin by (intro Min_eqI [symmetric]) auto
  ultimately show ?thesis using least by auto
qed

theorem admin_group_least_witness:
  "resolve_admin_group 1 7 True demo_db3 = (Inr 3, demo_db3)"
proof -
  let ?c = "hd (t_rows (vd_currencies demo_base))"
  have facts: "vd_faults demo_db3 = []" "list_all (\<lambda>p. 0 < po_group p) (t_rows (vd_policies demo_db3))"
    "t_rows (vd_currencies demo_db3) = [?c]" "cu_id ?c = 1" "cu_status ?c = vc_active"
    unfolding demo_db3_eq by code_simp+
  have "map (\<lambda>p. (po_group p, po_currency p, po_enabled p, po_can_earn p, user_allowed demo_db3 (po_group p) 7)) (t_rows (vd_policies demo_db3)) =
      [(3, 1, True, True, True)]"
    unfolding demo_db3_eq by code_simp
  then have "admin_groups demo_db3 7 ?c True = {3}" using facts(4,5) by (auto simp: admin_groups_def map_eq_Cons_conv)
  with admin_group_least [OF demo_reachable(3) demo_kinded facts(1), of ?c 7 True] facts show ?thesis by (simp add: list_all_iff)
qed

section \<open>Pages\<close>

lemma limit_rows_fits:
  assumes "1 \<le> page" "1 \<le> per" "per \<le> 100" "page * 100 \<le> max_int64"
  shows "limit_rows page per rows = Inr (take (nat per) (drop ((nat page - 1) * nat per) rows))"
proof -
  have le: "(page - 1) * per \<le> (page - 1) * 100" using assms by (intro mult_left_mono) auto
  then have "in_int64 (page - 1)" "in_int64 ((page - 1) * per)"
    using assms by (auto simp: in_int64_def min_int64_def max_int64_def intro: order_trans [of _ 0])
  moreover have "nat ((page - 1) * per) = (nat page - 1) * nat per" using assms by (simp add: nat_mult_distrib nat_diff_distrib)
  moreover have "0 \<le> (page - 1) * per" using assms by simp
  ultimately show ?thesis by (simp add: limit_rows_def Let_def wrap64_id)
qed

lemma pages_take: "concat (map (\<lambda>p. take k (drop ((p - 1) * k) xs)) [1..<Suc n]) = take (n * k) xs"
proof (induction n)
  case (Suc n)
  have "take (Suc n * k) xs = take (n * k) xs @ take k (drop (n * k) xs)" by (simp add: take_add [symmetric] add.commute)
  with Suc show ?case by simp
qed simp

definition page_items :: "go_error + ('e list \<times> vc_page) \<Rightarrow> 'e list" where
  "page_items r = (case r of Inl _ \<Rightarrow> [] | Inr (items, _) \<Rightarrow> items)"

lemma ledger_page:
  assumes inv: "vc_inv digest db" and up: "vd_faults db = []" and user: "0 < qu_user q"
    and range: "1 \<le> page" "1 \<le> per" "per \<le> 100" "page * 100 \<le> max_int64"
  shows "svc_list_ledger (q\<lparr>qu_page := page, qu_size := per\<rparr>) db =
    (Inr (take (nat per) (drop ((nat page - 1) * nat per) (ledger_rows (q\<lparr>qu_code := to_lower (trim_space (qu_code q))\<rparr>) db)),
       page_result (int (length (ledger_rows (q\<lparr>qu_code := to_lower (trim_space (qu_code q))\<rparr>) db))) page per), db)"
proof -
  have same: "ledger_rows (q\<lparr>qu_page := a, qu_size := b, qu_code := c\<rparr>) db = ledger_rows (q\<lparr>qu_code := c\<rparr>) db" for a b c
    by (simp add: ledger_rows_def)
  show ?thesis
    using assms commit_same [OF vc_inv_sel(2) [OF inv]]
    by (simp add: svc_list_ledger_def Let_def norm_page_def page_of_def repo_list_ledger_def list_page_def vc_bind_def vc_read_def vc_lift_def
        vc_call_up [OF up] limit_rows_fits vc_return_def ledger_rows_def)
qed

text \<open>
the pages of a ledger cut it without loss: the first n pages of one size, concatenated, are the
first rows of the whole list, each page reports the number of all rows, and a page number whose offset
leaves 64 bits ends in the error of a negative OFFSET.
\<close>

theorem list_pages_partition:
  assumes reach: "vc_reachable digest db" "kinded digest" and up: "vd_faults db = []" and user: "0 < qu_user q"
    and range: "1 \<le> per" "per \<le> 100" "int n * 100 \<le> max_int64"
  shows "concat (map (\<lambda>p. page_items (fst (svc_list_ledger (q\<lparr>qu_page := int p, qu_size := per\<rparr>) db))) [1..<Suc n]) =
      take (n * nat per) (ledger_rows (q\<lparr>qu_code := to_lower (trim_space (qu_code q))\<rparr>) db) \<and>
    (\<forall>p\<in>{1..n}. \<exists>items pg. svc_list_ledger (q\<lparr>qu_page := int p, qu_size := per\<rparr>) db = (Inr (items, pg), db) \<and>
      pg_total pg = int (length (ledger_rows (q\<lparr>qu_code := to_lower (trim_space (qu_code q))\<rparr>) db))) \<and>
    svc_list_ledger (q\<lparr>qu_page := 92233720368547760, qu_size := 100\<rparr>) db = (Inl err_offset, db)"
proof -
  note inv = reachable_inv [OF reach]
  let ?rows = "ledger_rows (q\<lparr>qu_code := to_lower (trim_space (qu_code q))\<rparr>) db"
  have page: "svc_list_ledger (q\<lparr>qu_page := int p, qu_size := per\<rparr>) db =
      (Inr (take (nat per) (drop ((p - 1) * nat per) ?rows), page_result (int (length ?rows)) (int p) per), db)" if "p \<in> {1..n}" for p
    using ledger_page [OF inv up user, of "int p" per] that range by simp
  have maps: "map (\<lambda>p. page_items (fst (svc_list_ledger (q\<lparr>qu_page := int p, qu_size := per\<rparr>) db))) [1..<Suc n] =
      map (\<lambda>p. take (nat per) (drop ((p - 1) * nat per) ?rows)) [1..<Suc n]"
  proof (rule map_cong [OF refl])
    fix p assume "p \<in> set [1..<Suc n]"
    then have "p \<in> {1..n}" by auto
    from page [OF this] show "page_items (fst (svc_list_ledger (q\<lparr>qu_page := int p, qu_size := per\<rparr>) db)) = take (nat per) (drop ((p - 1) * nat per) ?rows)"
      by (simp add: page_items_def)
  qed
  have first: "concat (map (\<lambda>p. page_items (fst (svc_list_ledger (q\<lparr>qu_page := int p, qu_size := per\<rparr>) db))) [1..<Suc n]) = take (n * nat per) ?rows"
    unfolding maps by (rule pages_take)
  have second: "\<exists>items pg. svc_list_ledger (q\<lparr>qu_page := int p, qu_size := per\<rparr>) db = (Inr (items, pg), db) \<and> pg_total pg = int (length ?rows)"
    if "p \<in> {1..n}" for p
    using page [OF that] by (simp add: page_result_def)
  have third: "svc_list_ledger (q\<lparr>qu_page := 92233720368547760, qu_size := 100\<rparr>) db = (Inl err_offset, db)"
  proof -
    have "limit_rows 92233720368547760 100 rows = Inl err_offset" for rows :: "vc_entry list"
      by (simp add: limit_rows_def Let_def wrap64_def)
    then show ?thesis
      using user commit_same [OF vc_inv_sel(2) [OF inv]]
      by (simp add: svc_list_ledger_def Let_def norm_page_def page_of_def repo_list_ledger_def list_page_def vc_bind_def vc_read_def vc_lift_def
          vc_fail_def vc_call_up [OF up])
  qed
  show ?thesis using first second third by blast
qed

definition demo_query :: vc_query where
  "demo_query = \<lparr>qu_user = 7, qu_code = [], qu_status = [], qu_page = 1, qu_size = 1\<rparr>"

theorem list_pages_partition_witness:
  "length (concat (map (\<lambda>p. page_items (fst (svc_list_ledger (demo_query\<lparr>qu_page := int p, qu_size := 1\<rparr>) demo_db4))) [1..<Suc 2])) = 2"
proof -
  have "vd_faults demo_db4 = []" "0 < qu_user demo_query" unfolding demo_db4_eq by code_simp+
  moreover have "length (ledger_rows (demo_query\<lparr>qu_code := to_lower (trim_space (qu_code demo_query))\<rparr>) demo_db4) = 2"
    unfolding demo_db4_eq by code_simp
  ultimately show ?thesis
    using list_pages_partition [OF demo_reachable(4) demo_kinded, of demo_query 1 2] by (simp add: max_int64_def)
qed

end
