(* ===== verification/Auth_Abuse.thy ===== *)
theory Auth_Abuse
  imports Go_Prelude
begin

text \<open>
  \<open>backend/internal/service/invalid_auth_abuse_limiter.go\<close>: the limiter of failed authentications, sixteen
  shards of client keys with a common capacity and an overflow entry for the clients beyond it. Every
  operation takes the reading of its clock; operations are atomic (each shard and the overflow entry has
  its own mutex, the counters are atomic). A disabled limiter is the nil pointer, \<open>None\<close>.
\<close>

section \<open>State\<close>

record aa_entry =
  ae_failures :: int
  ae_window_start :: gtime
  ae_blocked_until :: gtime

record aa_limiter =
  al_threshold :: int
  al_window :: gduration
  al_block :: gduration
  al_capacity :: int64
  al_shards :: "(string, aa_entry) gomap list"
  al_overflow :: aa_entry
  al_tracked :: int64
  al_recorded :: "64 word"
  al_blocked :: "64 word"
  al_rejected :: "64 word"
  al_expired :: "64 word"
  al_overflowed :: "64 word"
  al_global_blocked :: "64 word"
  al_cleanup_next :: int64
  al_cleanup_cursor :: "32 word"

definition shard_count :: nat where "shard_count = 16"

text \<open>The part of the configuration that the limiter reads.\<close>

record abuse_config =
  cf_enabled :: bool
  cf_threshold :: int
  cf_window_seconds :: int
  cf_block_seconds :: int
  cf_capacity :: int

definition no_entry :: aa_entry where
  "no_entry = \<lparr>ae_failures = 0, ae_window_start = zero_time, ae_blocked_until = zero_time\<rparr>"

definition new_limiter :: "abuse_config option \<Rightarrow> aa_limiter option" where
  "new_limiter cfg = (case cfg of None \<Rightarrow> None | Some c \<Rightarrow>
     if \<not> cf_enabled c then None
     else if cf_threshold c \<le> 0 \<or> cf_window_seconds c \<le> 0 \<or> cf_block_seconds c \<le> 0 \<or> cf_capacity c \<le> 0 then None
     else Some \<lparr>al_threshold = cf_threshold c, al_window = wrap64 (cf_window_seconds c * second),
       al_block = wrap64 (cf_block_seconds c * second), al_capacity = cf_capacity c,
       al_shards = replicate shard_count [], al_overflow = no_entry, al_tracked = 0, al_recorded = 0, al_blocked = 0,
       al_rejected = 0, al_expired = 0, al_overflowed = 0, al_global_blocked = 0, al_cleanup_next = 0,
       al_cleanup_cursor = 0\<rparr>)"

section \<open>Shards\<close>

fun fnv32a :: "32 word \<Rightarrow> string \<Rightarrow> 32 word" where
  "fnv32a h [] = h"
| "fnv32a h (c # cs) = fnv32a (xor h (of_nat (byte_of c)) * 16777619) cs"

definition shard_of :: "string \<Rightarrow> nat" where
  "shard_of key = unat (fnv32a 2166136261 key mod 16)"

definition entry_of :: "aa_limiter \<Rightarrow> string \<Rightarrow> aa_entry option" where
  "entry_of l key = gm_get (al_shards l ! shard_of key) key"

definition put_entry :: "string \<Rightarrow> aa_entry \<Rightarrow> aa_limiter \<Rightarrow> aa_limiter" where
  "put_entry key e l = l\<lparr>al_shards := (al_shards l)[shard_of key := gm_put key e (al_shards l ! shard_of key)]\<rparr>"

definition entry_expired :: "gduration \<Rightarrow> aa_entry \<Rightarrow> gtime \<Rightarrow> bool" where
  "entry_expired window e now \<longleftrightarrow> \<not> t_after (ae_blocked_until e) now \<and> \<not> t_after (ae_window_start e) now \<and>
     \<not> t_before now (t_add (ae_window_start e) window)"

text \<open>\<open>maybeCleanupAtCapacity\<close>: at most every 100 milliseconds, the expired entries of the shard at the cursor.\<close>

definition maybe_cleanup :: "gtime \<Rightarrow> aa_limiter \<Rightarrow> aa_limiter" where
  "maybe_cleanup now l =
     (if al_tracked l < al_capacity l then l
      else if unix_nano now < al_cleanup_next l then l
      else (let i = unat (al_cleanup_cursor l mod 16);
                shard = al_shards l ! i;
                kept = filter (\<lambda>(k, e). \<not> entry_expired (al_window l) e now) shard;
                gone = gm_len shard - gm_len kept
            in l\<lparr>al_cleanup_next := unix_nano (t_add now (100 * millisecond)),
                 al_cleanup_cursor := al_cleanup_cursor l + 1,
                 al_shards := (al_shards l)[i := kept],
                 al_tracked := al_tracked l - int gone,
                 al_expired := al_expired l + of_nat gone\<rparr>))"

text \<open>The lookup that both operations start with: an expired entry is deleted.\<close>

definition drop_expired :: "string \<Rightarrow> gtime \<Rightarrow> aa_limiter \<Rightarrow> aa_entry option \<times> aa_limiter" where
  "drop_expired key now l =
     (case entry_of l key of None \<Rightarrow> (None, l)
      | Some e \<Rightarrow> if entry_expired (al_window l) e now
          then (None, l\<lparr>al_shards := (al_shards l)[shard_of key := gm_del key (al_shards l ! shard_of key)],
                        al_tracked := al_tracked l - 1, al_expired := al_expired l + 1\<rparr>)
          else (Some e, l))"

section \<open>Operations\<close>

definition check_overflow :: "gtime \<Rightarrow> aa_limiter \<Rightarrow> gduration \<times> bool" where
  "check_overflow now l = (if t_after (ae_blocked_until (al_overflow l)) now
     then (t_sub (ae_blocked_until (al_overflow l)) now, True) else (0, False))"

definition abuse_check :: "string \<Rightarrow> gtime \<Rightarrow> aa_limiter \<Rightarrow> (gduration \<times> bool) \<times> aa_limiter" where
  "abuse_check key now l =
     (if key = [] then ((0, False), l)
      else (case drop_expired key now (maybe_cleanup now l) of (entry, l1) \<Rightarrow>
        (case entry of
           Some e \<Rightarrow> if t_after (ae_blocked_until e) now
             then ((t_sub (ae_blocked_until e) now, True), l1\<lparr>al_rejected := al_rejected l1 + 1\<rparr>)
             else ((0, False), l1)
         | None \<Rightarrow> if al_tracked l1 \<ge> al_capacity l1 \<and> snd (check_overflow now l1)
             then (check_overflow now l1, l1\<lparr>al_rejected := al_rejected l1 + 1, al_global_blocked := al_global_blocked l1 + 1\<rparr>)
             else ((0, False), l1))))"

text \<open>The counting of one failure, with the restart of the window and the block at the threshold.\<close>

definition count_failure :: "aa_limiter \<Rightarrow> gtime \<Rightarrow> bool \<Rightarrow> aa_entry \<Rightarrow> aa_entry \<times> bool" where
  "count_failure l now fresh_window e =
     (let e = (if fresh_window then e\<lparr>ae_window_start := now, ae_failures := 0\<rparr> else e);
          e = e\<lparr>ae_failures := ae_failures e + 1\<rparr>
      in if ae_failures e \<ge> al_threshold l
         then (e\<lparr>ae_failures := 0, ae_blocked_until := t_add now (al_block l), ae_window_start := t_add now (al_block l)\<rparr>, True)
         else (e, False))"

definition note_block :: "bool \<Rightarrow> aa_limiter \<Rightarrow> aa_limiter" where
  "note_block b l = (if b then l\<lparr>al_blocked := al_blocked l + 1\<rparr> else l)"

definition record_overflow :: "gtime \<Rightarrow> aa_limiter \<Rightarrow> aa_limiter" where
  "record_overflow now l0 =
     (let l = l0\<lparr>al_overflowed := al_overflowed l0 + 1\<rparr>; o1 = al_overflow l in
      if t_after (ae_blocked_until o1) now then l
      else (case count_failure l now (is_zero_time (ae_window_start o1) \<or>
              \<not> t_before now (t_add (ae_window_start o1) (al_window l))) o1 of
        (o2, b) \<Rightarrow> note_block b (l\<lparr>al_overflow := o2\<rparr>)))"

definition abuse_record :: "string \<Rightarrow> gtime \<Rightarrow> aa_limiter \<Rightarrow> aa_limiter" where
  "abuse_record key now l0 =
     (if key = [] then l0
      else (case drop_expired key now (maybe_cleanup now (l0\<lparr>al_recorded := al_recorded l0 + 1\<rparr>)) of (entry, l) \<Rightarrow>
        (if entry = None \<and> al_tracked l \<ge> al_capacity l then record_overflow now l
         else (let e = (case entry of None \<Rightarrow> no_entry\<lparr>ae_window_start := now\<rparr> | Some e \<Rightarrow> e);
                   l = (if entry = None then put_entry key e (l\<lparr>al_tracked := al_tracked l + 1\<rparr>) else l)
               in if t_after (ae_blocked_until e) now then l
                  else (case count_failure l now (t_after (ae_window_start e) now \<or>
                          \<not> t_before now (t_add (ae_window_start e) (al_window l))) e of
                    (e', b) \<Rightarrow> note_block b (put_entry key e' l))))))"

text \<open>The service's entry points on a limiter that may be nil.\<close>

definition check_invalid_auth :: "string \<Rightarrow> gtime \<Rightarrow> aa_limiter option \<Rightarrow> (gduration \<times> bool) \<times> aa_limiter option" where
  "check_invalid_auth key now l = (case l of None \<Rightarrow> ((0, False), None)
     | Some l \<Rightarrow> (case abuse_check key now l of (r, l') \<Rightarrow> (r, Some l')))"

definition record_invalid_auth :: "string \<Rightarrow> gtime \<Rightarrow> aa_limiter option \<Rightarrow> aa_limiter option" where
  "record_invalid_auth key now l = map_option (abuse_record key now) l"

record abuse_health =
  ah_enabled :: bool
  ah_tracked :: int64
  ah_capacity :: int64
  ah_recorded :: "64 word"
  ah_blocks :: "64 word"
  ah_rejected :: "64 word"
  ah_expired :: "64 word"
  ah_overflowed :: "64 word"
  ah_global_blocked :: "64 word"

definition invalid_auth_health :: "aa_limiter option \<Rightarrow> abuse_health" where
  "invalid_auth_health l = (case l of
     None \<Rightarrow> \<lparr>ah_enabled = False, ah_tracked = 0, ah_capacity = 0, ah_recorded = 0, ah_blocks = 0, ah_rejected = 0,
       ah_expired = 0, ah_overflowed = 0, ah_global_blocked = 0\<rparr>
   | Some l \<Rightarrow> \<lparr>ah_enabled = True, ah_tracked = al_tracked l, ah_capacity = al_capacity l, ah_recorded = al_recorded l,
       ah_blocks = al_blocked l, ah_rejected = al_rejected l, ah_expired = al_expired l, ah_overflowed = al_overflowed l,
       ah_global_blocked = al_global_blocked l\<rparr>)"

end
