(* ===== verification/Auth_Laws.thy ===== *)
theory Auth_Laws
  imports Auth_Abuse
begin

text \<open>
  The limiter as sixteen maps under one capacity: its invariant, what each part of an operation does to
  the live entry of every client, and the machine of one client that it implements.
\<close>

section \<open>Invariant\<close>

definition al_size :: "aa_limiter \<Rightarrow> nat" where "al_size l = sum_list (map gm_len (al_shards l))"
definition al_keys :: "aa_limiter \<Rightarrow> string set" where "al_keys l = (\<Union>m\<in>set (al_shards l). fst ` set m)"

definition aa_inv :: "aa_limiter \<Rightarrow> bool" where
  "aa_inv l \<longleftrightarrow> length (al_shards l) = shard_count \<and>
     (\<forall>i < shard_count. gm_ok (al_shards l ! i) \<and> (\<forall>k\<in>fst ` set (al_shards l ! i). shard_of k = i)) \<and>
     al_tracked l = int (al_size l) \<and> al_tracked l \<le> al_capacity l \<and>
     0 < al_threshold l \<and> 0 < al_window l \<and> 0 < al_block l \<and> 0 < al_capacity l"

definition same_params :: "aa_limiter \<Rightarrow> aa_limiter \<Rightarrow> bool" where
  "same_params l l' \<longleftrightarrow> al_threshold l' = al_threshold l \<and> al_window l' = al_window l \<and> al_block l' = al_block l \<and>
     al_capacity l' = al_capacity l"

lemma same_params_refl [simp]: "same_params l l" by (simp add: same_params_def)
lemma same_params_trans: "same_params a b \<Longrightarrow> same_params b c \<Longrightarrow> same_params a c" by (simp add: same_params_def)

lemma shard_of_less [simp]: "shard_of k < shard_count"
proof -
  have "shard_of k = unat (fnv32a 2166136261 k) mod 16" by (simp add: shard_of_def unat_mod_distrib)
  then show ?thesis by (simp add: shard_count_def)
qed

lemma aa_inv_sel:
  assumes "aa_inv l"
  shows "length (al_shards l) = shard_count" "i < shard_count \<Longrightarrow> gm_ok (al_shards l ! i)"
    "i < shard_count \<Longrightarrow> k \<in> fst ` set (al_shards l ! i) \<Longrightarrow> shard_of k = i"
    "al_tracked l = int (al_size l)" "al_tracked l \<le> al_capacity l"
  using assms unfolding aa_inv_def by blast+

lemma al_size_card:
  assumes "aa_inv l"
  shows "card (al_keys l) = al_size l"
proof -
  have len: "length (al_shards l) = shard_count" using assms by (simp add: aa_inv_def)
  let ?K = "\<lambda>i. fst ` set (al_shards l ! i)"
  have "al_keys l = (\<Union>i < shard_count. ?K i)" by (auto simp: al_keys_def set_conv_nth len)
  moreover have "card (\<Union>i < shard_count. ?K i) = (\<Sum>i < shard_count. card (?K i))"
  proof (rule card_UN_disjoint)
    show "\<forall>i\<in>{..<shard_count}. \<forall>j\<in>{..<shard_count}. i \<noteq> j \<longrightarrow> ?K i \<inter> ?K j = {}"
    proof (intro ballI impI)
      fix i j assume "i \<in> {..<shard_count}" "j \<in> {..<shard_count}" "i \<noteq> j"
      then show "?K i \<inter> ?K j = {}" using aa_inv_sel(3) [OF assms, of i] aa_inv_sel(3) [OF assms, of j] by blast
    qed
  qed auto
  moreover have "card (?K i) = gm_len (al_shards l ! i)" if "i < shard_count" for i
  proof -
    have "distinct (map fst (al_shards l ! i))" using assms that by (simp add: aa_inv_def gm_ok_def)
    then show ?thesis by (metis distinct_card length_map list.set_map)
  qed
  ultimately show ?thesis by (simp add: al_size_def sum_list_sum_nth len atLeast0LessThan)
qed

lemma size_update:
  assumes "i < length (al_shards l)" and "al_shards l' = (al_shards l)[i := m]"
  shows "al_size l' + gm_len (al_shards l ! i) = al_size l + gm_len m"
proof -
  have "gm_len (al_shards l ! i) \<le> al_size l"
    unfolding al_size_def by (rule member_le_sum_list) (use assms(1) in simp_all)
  moreover have "al_size l' = sum_list ((map gm_len (al_shards l))[i := gm_len m])"
    unfolding al_size_def assms(2) by (simp only: map_update)
  then have "al_size l' = al_size l + gm_len m - gm_len (al_shards l ! i)"
    using assms(1) by (simp add: al_size_def sum_list_update)
  ultimately show ?thesis by simp
qed

lemma entry_update:
  assumes "aa_inv l" and "al_shards l' = (al_shards l)[i := m]" and "i < shard_count"
  shows "entry_of l' k = (if shard_of k = i then gm_get m k else entry_of l k)"
  using assms by (simp add: entry_of_def aa_inv_def)

text \<open>Replacing a shard by a smaller one.\<close>

lemma inv_shrink:
  assumes "aa_inv l" and "i < shard_count" and "al_shards l' = (al_shards l)[i := m]" and "gm_ok m"
    and "fst ` set m \<subseteq> fst ` set (al_shards l ! i)" and "same_params l l'"
    and "al_tracked l' = al_tracked l - int (gm_len (al_shards l ! i) - gm_len m)" and "gm_len m \<le> gm_len (al_shards l ! i)"
  shows "aa_inv l'"
proof -
  have len: "i < length (al_shards l)" using assms(1,2) by (simp add: aa_inv_def)
  have "al_tracked l' = int (al_size l')" using size_update [OF len assms(3)] assms(1,7,8) by (simp add: aa_inv_def)
  moreover have "gm_ok (al_shards l' ! j) \<and> (\<forall>k\<in>fst ` set (al_shards l' ! j). shard_of k = j)" if "j < shard_count" for j
  proof (cases "j = i")
    case True
    then have "al_shards l' ! j = m" using assms(3) len by simp
    then show ?thesis using True assms(4,5) aa_inv_sel(3) [OF assms(1,2)] by blast
  next
    case False
    then have "al_shards l' ! j = al_shards l ! j" using assms(3) by simp
    then show ?thesis using aa_inv_sel(2,3) [OF assms(1) that] by auto
  qed
  moreover have "al_tracked l' \<le> al_capacity l'" using assms(1,6,7) by (simp add: aa_inv_def same_params_def)
  ultimately show ?thesis using assms(1,3,6) by (simp add: aa_inv_def same_params_def)
qed

section \<open>Live entries\<close>

definition live :: "gduration \<Rightarrow> gtime \<Rightarrow> aa_entry option \<Rightarrow> aa_entry option" where
  "live window t e = (case e of None \<Rightarrow> None | Some x \<Rightarrow> if entry_expired window x t then None else Some x)"

lemma expired_mono: "entry_expired w x s \<Longrightarrow> s \<le> t \<Longrightarrow> entry_expired w x t"
  by (auto simp: entry_expired_def time_defs)

lemma live_mono: "live w s e = live w s e' \<Longrightarrow> s \<le> t \<Longrightarrow> live w t e = live w t e'"
  unfolding live_def using expired_mono by (auto split: option.splits if_splits)

lemma live_live [simp]: "live w t (live w t e) = live w t e"
  by (simp add: live_def split: option.splits)

definition keeps_live :: "gtime \<Rightarrow> aa_limiter \<Rightarrow> aa_limiter \<Rightarrow> bool" where
  "keeps_live now l l' \<longleftrightarrow> (\<forall>k. live (al_window l) now (entry_of l' k) = live (al_window l) now (entry_of l k))"

lemma cleanup_effect:
  assumes inv: "aa_inv l"
  shows "aa_inv (maybe_cleanup now l) \<and> same_params l (maybe_cleanup now l) \<and> al_overflow (maybe_cleanup now l) = al_overflow l \<and>
    al_keys (maybe_cleanup now l) \<subseteq> al_keys l \<and> al_tracked (maybe_cleanup now l) \<le> al_tracked l \<and>
    keeps_live now l (maybe_cleanup now l)"
proof (cases "al_tracked l < al_capacity l \<or> unix_nano now < al_cleanup_next l")
  case True
  then have "maybe_cleanup now l = l" by (auto simp: maybe_cleanup_def)
  with inv show ?thesis by (simp add: keeps_live_def)
next
  case False
  let ?l = "maybe_cleanup now l" let ?i = "unat (al_cleanup_cursor l mod 16)"
  let ?shard = "al_shards l ! ?i"
  let ?kept = "filter (\<lambda>(k, e). \<not> entry_expired (al_window l) e now) ?shard"
  have i: "?i < shard_count" by (simp add: unat_mod_distrib shard_count_def)
  have l: "al_shards ?l = (al_shards l)[?i := ?kept]" "al_tracked ?l = al_tracked l - int (gm_len ?shard - gm_len ?kept)"
    "same_params l ?l" "al_overflow ?l = al_overflow l"
    using False by (simp_all add: maybe_cleanup_def Let_def same_params_def)
  have ok: "gm_ok ?shard" using aa_inv_sel(2) [OF inv i] .
  have inv': "aa_inv ?l" 
  proof (rule inv_shrink [OF inv i l(1) _ _ l(3,2)])
    show "gm_ok ?kept" using ok by (rule gm_ok_filter)
    show "fst ` set ?kept \<subseteq> fst ` set ?shard" by auto
    show "gm_len ?kept \<le> gm_len ?shard" by (rule length_filter_le)
  qed
  moreover have "al_keys ?l \<subseteq> al_keys l"
  proof -
    have "?shard \<in> set (al_shards l)" using i aa_inv_sel(1) [OF inv] by simp
    then have "fst ` set ?kept \<subseteq> al_keys l" unfolding al_keys_def by auto
    moreover have "set (al_shards ?l) \<subseteq> insert ?kept (set (al_shards l))" unfolding l(1) by (rule set_update_subset_insert)
    ultimately show ?thesis unfolding al_keys_def by blast
  qed
  moreover have "keeps_live now l ?l"
    unfolding keeps_live_def
  proof
    fix k
    show "live (al_window l) now (entry_of ?l k) = live (al_window l) now (entry_of l k)"
    proof (cases "shard_of k = ?i")
      case True
      then have "entry_of ?l k = (case gm_get ?shard k of None \<Rightarrow> None | Some v \<Rightarrow> if \<not> entry_expired (al_window l) v now then Some v else None)"
        using entry_update [OF inv l(1) i] gm_get_filter [OF ok] by (simp split: option.split)
      with True show ?thesis by (auto simp: live_def entry_of_def split: option.splits)
    qed (use entry_update [OF inv l(1) i] in simp)
  qed
  ultimately show ?thesis using l(2,3,4) by simp
qed

lemma drop_effect:
  assumes inv: "aa_inv l" and run: "drop_expired key now l = (e, l1)"
  shows "aa_inv l1 \<and> same_params l l1 \<and> al_overflow l1 = al_overflow l \<and> al_keys l1 \<subseteq> al_keys l \<and>
    e = live (al_window l) now (entry_of l key) \<and> entry_of l1 key = e \<and> keeps_live now l l1 \<and> (e = None \<longrightarrow> key \<notin> al_keys l1)"
proof -
  have len: "length (al_shards l) = shard_count" using inv by (simp add: aa_inv_def)
  have absent: "key \<notin> al_keys x" if x: "entry_of x key = None" "aa_inv x" for x
  proof
    assume "key \<in> al_keys x"
    then obtain i where i: "i < shard_count" "key \<in> fst ` set (al_shards x ! i)"
      using aa_inv_sel(1) [OF x(2)] by (auto simp: al_keys_def set_conv_nth)
    then have "shard_of key = i" using aa_inv_sel(3) [OF x(2)] by blast
    with i(2) x(1) show False by (simp add: entry_of_def gm_get_None_iff)
  qed
  show ?thesis
  proof (cases "\<exists>x. entry_of l key = Some x \<and> entry_expired (al_window l) x now")
    case False
    then have "l1 = l" "e = entry_of l key" using run by (auto simp: drop_expired_def split: option.splits if_splits)
    with False inv absent show ?thesis by (auto simp: keeps_live_def live_def split: option.splits)
  next
    case True
    then obtain x where x: "entry_of l key = Some x" "entry_expired (al_window l) x now" by blast
    let ?shard = "al_shards l ! shard_of key"
    have l1: "al_shards l1 = (al_shards l)[shard_of key := gm_del key ?shard]" "al_tracked l1 = al_tracked l - 1"
      "same_params l l1" "al_overflow l1 = al_overflow l" "e = None"
      using run x by (auto simp: drop_expired_def same_params_def)
    have ok: "gm_ok ?shard" using aa_inv_sel(2) [OF inv shard_of_less] .
    have have_key: "gm_get ?shard key \<noteq> None" using x(1) by (simp add: entry_of_def)
    have del: "gm_len (gm_del key ?shard) = gm_len ?shard - 1" "0 < gm_len ?shard"
      using gm_len_del [OF ok, of key] have_key by (auto simp: length_greater_0_conv)
    have inv1: "aa_inv l1"
    proof (rule inv_shrink [OF inv shard_of_less l1(1) _ _ l1(3)])
      show "gm_ok (gm_del key ?shard)" using ok by simp
      show "fst ` set (gm_del key ?shard) \<subseteq> fst ` set ?shard" by (auto simp: gm_del_filter)
      show "gm_len (gm_del key ?shard) \<le> gm_len ?shard" by (rule gm_len_del_le)
      show "al_tracked l1 = al_tracked l - int (gm_len ?shard - gm_len (gm_del key ?shard))" using l1(2) del by linarith
    qed
    have ent: "entry_of l1 k = (if k = key then None else entry_of l k)" for k
      using entry_update [OF inv l1(1) shard_of_less, of k] by (auto simp: entry_of_def)
    have "al_keys l1 \<subseteq> al_keys l"
    proof -
      have "fst ` set (gm_del key ?shard) \<subseteq> fst ` set ?shard" by (auto simp: gm_del_filter)
      moreover have "fst ` set ?shard \<subseteq> al_keys l" unfolding al_keys_def using shard_of_less [of key] len by force
      moreover have "set (al_shards l1) \<subseteq> insert (gm_del key ?shard) (set (al_shards l))" unfolding l1(1) by (rule set_update_subset_insert)
      ultimately show ?thesis unfolding al_keys_def by blast
    qed
    with inv1 l1 ent x absent [of l1] show ?thesis by (simp add: live_def keeps_live_def)
  qed
qed

section \<open>The machine of one client\<close>

definition restarts :: "gduration \<Rightarrow> gtime \<Rightarrow> aa_entry \<Rightarrow> bool" where
  "restarts window now e \<longleftrightarrow> t_after (ae_window_start e) now \<or> \<not> t_before now (t_add (ae_window_start e) window)"

definition client_fail :: "aa_limiter \<Rightarrow> gtime \<Rightarrow> aa_entry option \<Rightarrow> aa_entry option" where
  "client_fail l now e0 =
     (let e = (case live (al_window l) now e0 of None \<Rightarrow> no_entry\<lparr>ae_window_start := now\<rparr> | Some e \<Rightarrow> e)
      in if t_after (ae_blocked_until e) now then Some e else Some (fst (count_failure l now (restarts (al_window l) now e) e)))"

definition client_check :: "aa_limiter \<Rightarrow> gtime \<Rightarrow> aa_entry option \<Rightarrow> gduration \<times> bool" where
  "client_check l now e0 = (case live (al_window l) now e0 of None \<Rightarrow> (0, False)
     | Some e \<Rightarrow> if t_after (ae_blocked_until e) now then (t_sub (ae_blocked_until e) now, True) else (0, False))"

lemma count_failure_params: "same_params l l' \<Longrightarrow> count_failure l' = count_failure l"
  by (simp add: count_failure_def fun_eq_iff same_params_def Let_def)

lemma client_params: "same_params l l' \<Longrightarrow> client_fail l' = client_fail l \<and> client_check l' = client_check l"
proof -
  assume sp: "same_params l l'"
  then have w: "al_window l' = al_window l" by (simp add: same_params_def)
  show ?thesis
    unfolding client_fail_def client_check_def fun_eq_iff count_failure_params [OF sp] w by blast
qed

lemma client_live: "live (al_window l) now e = live (al_window l) now e' \<Longrightarrow> client_fail l now e = client_fail l now e' \<and> client_check l now e = client_check l now e'"
  by (simp add: client_fail_def client_check_def)

lemma keeps_live_trans: "keeps_live now a b \<Longrightarrow> same_params a b \<Longrightarrow> keeps_live now b c \<Longrightarrow> keeps_live now a c"
  by (simp add: keeps_live_def same_params_def)

text \<open>The first half of both operations.\<close>

lemma lookup_effect:
  assumes inv: "aa_inv l" and run: "drop_expired key now (maybe_cleanup now l) = (e, l1)"
  shows "aa_inv l1 \<and> same_params l l1 \<and> al_overflow l1 = al_overflow l \<and> al_keys l1 \<subseteq> al_keys l \<and>
    e = live (al_window l) now (entry_of l key) \<and> entry_of l1 key = e \<and> keeps_live now l l1 \<and> (e = None \<longrightarrow> key \<notin> al_keys l1)"
proof -
  note c = cleanup_effect [OF inv, of now]
  note d = drop_effect [OF _ run]
  have c1: "aa_inv (maybe_cleanup now l)" "same_params l (maybe_cleanup now l)" "keeps_live now l (maybe_cleanup now l)" using c by blast+
  note d = d [OF c1(1)]
  have "live (al_window (maybe_cleanup now l)) now (entry_of (maybe_cleanup now l) key) = live (al_window l) now (entry_of l key)"
    using c1(2,3) by (simp add: keeps_live_def same_params_def)
  with c d keeps_live_trans [OF c1(3,2)] same_params_trans [OF c1(2)] show ?thesis by auto
qed

lemma check_effect:
  assumes inv: "aa_inv l" and run: "abuse_check key now l = (r, l')"
  shows "aa_inv l' \<and> same_params l l' \<and> al_overflow l' = al_overflow l \<and> al_keys l' \<subseteq> al_keys l \<and> keeps_live now l l' \<and>
    (key \<noteq> [] \<longrightarrow> (live (al_window l) now (entry_of l key) \<noteq> None \<or> \<not> snd (check_overflow now l)) \<longrightarrow>
      r = client_check l now (entry_of l key))"
proof (cases "key = []")
  case True
  with run inv show ?thesis by (simp add: abuse_check_def keeps_live_def)
next
  case False
  obtain e l1 where look: "drop_expired key now (maybe_cleanup now l) = (e, l1)" by fastforce
  note eff = lookup_effect [OF inv look]
  have "l' = l1 \<or> l' = l1\<lparr>al_rejected := al_rejected l1 + 1\<rparr> \<or>
      l' = l1\<lparr>al_rejected := al_rejected l1 + 1, al_global_blocked := al_global_blocked l1 + 1\<rparr>"
    using run False look by (auto simp: abuse_check_def split: option.splits if_splits)
  then have same: "aa_inv l' = aa_inv l1" "entry_of l' = entry_of l1" "al_keys l' = al_keys l1" "same_params l1 l'" "al_overflow l' = al_overflow l1"
    by (elim disjE; simp add: aa_inv_def entry_of_def al_keys_def al_size_def same_params_def fun_eq_iff)+
  have over: "check_overflow now l1 = check_overflow now l" using eff by (simp add: check_overflow_def)
  have r: "r = client_check l now (entry_of l key)"
    if "live (al_window l) now (entry_of l key) \<noteq> None \<or> \<not> snd (check_overflow now l)"
    using run False look that eff over by (auto simp: abuse_check_def client_check_def split: option.splits if_splits)
  show ?thesis using eff same r same_params_trans by (auto simp: keeps_live_def)
qed

lemma size_step: "a + n = b + m \<Longrightarrow> m = n + c \<Longrightarrow> a = b + c" for a n b m c :: nat by simp

lemma put_effect:
  assumes inv: "aa_inv l" and room: "entry_of l key = None \<longrightarrow> al_tracked l < al_capacity l"
    and l1: "al_shards l1 = al_shards (put_entry key e l)" "same_params l l1"
      "al_tracked l1 = al_tracked l + (if entry_of l key = None then 1 else 0)"
  shows "aa_inv l1 \<and> al_keys l1 \<subseteq> insert key (al_keys l) \<and> (\<forall>k. entry_of l1 k = (if k = key then Some e else entry_of l k))"
proof -
  let ?i = "shard_of key" let ?m = "gm_put key e (al_shards l ! ?i)"
  have sh: "al_shards l1 = (al_shards l)[?i := ?m]" using l1(1) by (simp add: put_entry_def)
  have len: "?i < length (al_shards l)" using aa_inv_sel(1) [OF inv] by simp
  have keys: "fst ` set ?m \<subseteq> insert key (fst ` set (al_shards l ! ?i))" using dom_update [of key e "al_shards l ! ?i"] by (auto simp: dom_map_of_conv_image_fst)
  have "al_size l1 = al_size l + (if entry_of l key = None then 1 else 0)"
  proof -
    have "gm_len ?m = gm_len (al_shards l ! ?i) + (if entry_of l key = None then 1 else 0)"
      unfolding entry_of_def using gm_len_put [of key e "al_shards l ! ?i"] by (cases "gm_get (al_shards l ! ?i) key = None") simp_all
    with size_update [OF len sh] show ?thesis by (rule size_step)
  qed
  then have tr: "al_tracked l1 = int (al_size l1)" "al_tracked l1 \<le> al_capacity l1"
    using l1(2,3) aa_inv_sel(4,5) [OF inv] room by (auto simp: same_params_def)
  have "gm_ok (al_shards l1 ! j) \<and> (\<forall>k\<in>fst ` set (al_shards l1 ! j). shard_of k = j)" if j: "j < shard_count" for j
  proof (cases "j = ?i")
    case True
    have at: "al_shards l1 ! j = ?m" unfolding sh True using len by (rule nth_list_update_eq)
    have "gm_ok ?m" using aa_inv_sel(2) [OF inv shard_of_less] by (rule gm_ok_put)
    moreover have "\<forall>k\<in>fst ` set ?m. shard_of k = ?i" using keys aa_inv_sel(3) [OF inv shard_of_less] by blast
    ultimately show ?thesis unfolding True at [unfolded True] by blast
  next
    case False
    then have "al_shards l1 ! j = al_shards l ! j" using sh by simp
    then show ?thesis using aa_inv_sel(2,3) [OF inv j] by auto
  qed
  moreover have "length (al_shards l1) = shard_count" using sh aa_inv_sel(1) [OF inv] by simp
  moreover have "0 < al_threshold l1 \<and> 0 < al_window l1 \<and> 0 < al_block l1 \<and> 0 < al_capacity l1"
    using inv l1(2) by (simp add: aa_inv_def same_params_def)
  ultimately have "aa_inv l1" using tr unfolding aa_inv_def by blast
  moreover have "al_keys l1 \<subseteq> insert key (al_keys l)"
  proof -
    have "al_shards l ! ?i \<in> set (al_shards l)" using len by simp
    then have "fst ` set ?m \<subseteq> insert key (al_keys l)" using keys unfolding al_keys_def by blast
    moreover have "set (al_shards l1) \<subseteq> insert ?m (set (al_shards l))" unfolding sh by (rule set_update_subset_insert)
    ultimately show ?thesis unfolding al_keys_def by blast
  qed
  moreover have "entry_of l1 k = (if k = key then Some e else entry_of l k)" for k
    using entry_update [OF inv sh shard_of_less, of k] by (auto simp: entry_of_def)
  ultimately show ?thesis by blast
qed

text \<open>A failure that is counted for its client, and one that goes to the overflow entry.\<close>

lemma record_effect_at:
  assumes inv: "aa_inv l" and key: "key \<noteq> []"
    and look: "drop_expired key now (maybe_cleanup now (l\<lparr>al_recorded := al_recorded l + 1\<rparr>)) = (e, l1)"
    and room1: "e = None \<Longrightarrow> al_tracked l1 < al_capacity l1"
  shows "aa_inv (abuse_record key now l) \<and> same_params l (abuse_record key now l) \<and>
    al_overflow (abuse_record key now l) = al_overflow l \<and> al_keys (abuse_record key now l) \<subseteq> insert key (al_keys l) \<and>
    entry_of (abuse_record key now l) key = client_fail l now (entry_of l key) \<and>
    (\<forall>k. k \<noteq> key \<longrightarrow> live (al_window l) now (entry_of (abuse_record key now l) k) = live (al_window l) now (entry_of l k))"
proof -
  let ?l0 = "l\<lparr>al_recorded := al_recorded l + 1\<rparr>"
  have l0: "aa_inv ?l0" "same_params l ?l0" "entry_of ?l0 = entry_of l" "al_keys ?l0 = al_keys l" "al_overflow ?l0 = al_overflow l" "al_window ?l0 = al_window l"
    using inv by (simp_all add: aa_inv_def entry_of_def al_keys_def al_size_def same_params_def fun_eq_iff)
  note eff = lookup_effect [OF l0(1) look, unfolded l0 keeps_live_def]
  have inv1: "aa_inv l1" and sp1: "same_params l l1" and e: "e = live (al_window l) now (entry_of l key)" "entry_of l1 key = e"
    using eff same_params_trans [OF l0(2)] by blast+
  let ?e = "case e of None \<Rightarrow> no_entry\<lparr>ae_window_start := now\<rparr> | Some e \<Rightarrow> e"
  define l2 where "l2 = (if e = None then put_entry key ?e (l1\<lparr>al_tracked := al_tracked l1 + 1\<rparr>) else l1)"
  have l2: "aa_inv l2 \<and> same_params l l2 \<and> al_overflow l2 = al_overflow l \<and> al_keys l2 \<subseteq> insert key (al_keys l) \<and>
      (\<forall>k. entry_of l2 k = (if k = key then Some ?e else entry_of l1 k))"
  proof (cases e)
    case None
    have "aa_inv l2 \<and> al_keys l2 \<subseteq> insert key (al_keys l1) \<and> (\<forall>k. entry_of l2 k = (if k = key then Some ?e else entry_of l1 k))"
      by (rule put_effect [OF inv1]) (use None room1 e(2) in \<open>simp_all add: l2_def put_entry_def same_params_def\<close>)
    moreover have "same_params l l2 \<and> al_overflow l2 = al_overflow l1" using None sp1 by (simp add: l2_def put_entry_def same_params_def)
    ultimately show ?thesis using eff by auto
  next
    case (Some x)
    then have "l2 = l1" by (simp add: l2_def)
    with Some eff e sp1 inv1 show ?thesis by auto
  qed
  let ?f = "count_failure l2 now (restarts (al_window l2) now ?e) ?e"
  have w: "al_window l2 = al_window l" using l2 by (simp add: same_params_def)
  have run: "abuse_record key now l = (if t_after (ae_blocked_until ?e) now then l2 else note_block (snd ?f) (put_entry key (fst ?f) l2))"
    using key look room1
    by (cases e) (simp_all add: abuse_record_def Let_def l2_def restarts_def case_prod_unfold)
  have cf: "client_fail l now (entry_of l key) = (if t_after (ae_blocked_until ?e) now then Some ?e else Some (fst ?f))"
    using count_failure_params [of l l2] l2 e(1) by (simp add: client_fail_def Let_def w)
  show ?thesis
  proof (cases "t_after (ae_blocked_until ?e) now")
    case True
    with run cf l2 eff show ?thesis by auto
  next
    case False
    let ?l3 = "abuse_record key now l"
    have l3: "?l3 = note_block (snd ?f) (put_entry key (fst ?f) l2)" using run False by simp
    have "al_shards ?l3 = al_shards (put_entry key (fst ?f) l2)" "same_params l2 ?l3" "al_tracked ?l3 = al_tracked l2"
      "al_overflow ?l3 = al_overflow l2"
      unfolding l3 by (simp_all add: note_block_def put_entry_def same_params_def)
    moreover have some: "entry_of l2 key \<noteq> None" using l2 by simp
    moreover have "aa_inv ?l3 \<and> al_keys ?l3 \<subseteq> insert key (al_keys l2) \<and> (\<forall>k. entry_of ?l3 k = (if k = key then Some (fst ?f) else entry_of l2 k))"
      by (rule put_effect) (use l2 calculation in auto)
    ultimately show ?thesis using l2 cf False eff same_params_trans [of l l2] by auto
  qed
qed


lemma record_effect:
  assumes inv: "aa_inv l" and key: "key \<noteq> []"
    and room: "live (al_window l) now (entry_of l key) = None \<longrightarrow> card (insert key (al_keys l)) \<le> nat (al_capacity l)"
  shows "aa_inv (abuse_record key now l) \<and> same_params l (abuse_record key now l) \<and>
    al_overflow (abuse_record key now l) = al_overflow l \<and> al_keys (abuse_record key now l) \<subseteq> insert key (al_keys l) \<and>
    entry_of (abuse_record key now l) key = client_fail l now (entry_of l key) \<and>
    (\<forall>k. k \<noteq> key \<longrightarrow> live (al_window l) now (entry_of (abuse_record key now l) k) = live (al_window l) now (entry_of l k))"
proof -
  let ?l0 = "l\<lparr>al_recorded := al_recorded l + 1\<rparr>"
  have l0: "aa_inv ?l0" "same_params l ?l0" "entry_of ?l0 = entry_of l" "al_keys ?l0 = al_keys l" "al_overflow ?l0 = al_overflow l" "al_window ?l0 = al_window l"
    using inv by (simp_all add: aa_inv_def entry_of_def al_keys_def al_size_def same_params_def fun_eq_iff)
  obtain e l1 where look: "drop_expired key now (maybe_cleanup now ?l0) = (e, l1)" by fastforce
  note eff = lookup_effect [OF l0(1) look, unfolded l0 keeps_live_def]
  have inv1: "aa_inv l1" and sp1: "same_params l l1" and e: "e = live (al_window l) now (entry_of l key)" "entry_of l1 key = e"
    using eff same_params_trans [OF l0(2)] by blast+
  have room1: "al_tracked l1 < al_capacity l1" if "e = None"
  proof -
    have "key \<notin> al_keys l1" "al_keys l1 \<subseteq> al_keys l" using eff that by blast+
    have fin: "finite (al_keys l)" by (simp add: al_keys_def)
    have "card (al_keys l1) < card (insert key (al_keys l))"
      by (rule psubset_card_mono) (use fin \<open>key \<notin> al_keys l1\<close> \<open>al_keys l1 \<subseteq> al_keys l\<close> in auto)
    also have "\<dots> \<le> nat (al_capacity l)" using room that e(1) by simp
    finally have "al_size l1 < nat (al_capacity l)" using al_size_card [OF inv1] by simp
    then show ?thesis using aa_inv_sel(4) [OF inv1] sp1 by (simp add: same_params_def)
  qed
  show ?thesis by (rule record_effect_at [OF inv key look room1])
qed

text \<open>The overflow entry does not touch the shards.\<close>

lemma record_overflow_inv: "aa_inv l \<Longrightarrow> aa_inv (record_overflow now l) \<and> same_params l (record_overflow now l)"
  by (auto simp: record_overflow_def note_block_def Let_def aa_inv_def al_size_def same_params_def split: prod.split)

lemma abuse_record_inv:
  assumes inv: "aa_inv l"
  shows "aa_inv (abuse_record key now l) \<and> same_params l (abuse_record key now l)"
proof (cases "key = []")
  case True
  with inv show ?thesis by (simp add: abuse_record_def)
next
  case False
  let ?l0 = "l\<lparr>al_recorded := al_recorded l + 1\<rparr>"
  have l0: "aa_inv ?l0" "same_params l ?l0" using inv by (simp_all add: aa_inv_def al_size_def same_params_def)
  obtain e l1 where look: "drop_expired key now (maybe_cleanup now ?l0) = (e, l1)" by fastforce
  show ?thesis
  proof (cases "e = None \<and> al_tracked l1 \<ge> al_capacity l1")
    case True
    then have "abuse_record key now l = record_overflow now l1" using False look by (simp add: abuse_record_def)
    moreover have "aa_inv l1" "same_params ?l0 l1" using lookup_effect [OF l0(1) look] by blast+
    ultimately show ?thesis using record_overflow_inv same_params_trans l0(2) by metis
  next
    case roomy: False
    show ?thesis using record_effect_at [OF inv False look] roomy by force
  qed
qed

end
