(* ===== verification/Auth_Props.thy ===== *)
theory Auth_Props
  imports Auth_Laws
begin

text \<open>
  The properties of the limiter over histories: a history is a list of failures and checks with the
  readings of the clock.
\<close>

section \<open>Histories\<close>

datatype aa_event = Failed string gtime | Checked string gtime

fun event_time :: "aa_event \<Rightarrow> gtime" where
  "event_time (Failed k t) = t"
| "event_time (Checked k t) = t"

fun abuse_step :: "aa_event \<Rightarrow> aa_limiter \<Rightarrow> aa_limiter" where
  "abuse_step (Failed k t) l = abuse_record k t l"
| "abuse_step (Checked k t) l = snd (abuse_check k t l)"

definition abuse_run :: "aa_event list \<Rightarrow> aa_limiter \<Rightarrow> aa_limiter" where "abuse_run = fold abuse_step"

fun failures_of :: "string \<Rightarrow> aa_event list \<Rightarrow> gtime list" where
  "failures_of key [] = []"
| "failures_of key (Failed k t # es) = (if k = key then [t] else []) @ failures_of key es"
| "failures_of key (Checked k t # es) = failures_of key es"

definition failed_keys :: "aa_event list \<Rightarrow> string set" where "failed_keys es = {k. \<exists>t. Failed k t \<in> set es}"

definition client_run :: "aa_limiter \<Rightarrow> gtime list \<Rightarrow> aa_entry option" where
  "client_run l ts = foldl (\<lambda>e t. client_fail l t e) None ts"

lemma failures_append [simp]: "failures_of key (es @ fs) = failures_of key es @ failures_of key fs"
  by (induction key es rule: failures_of.induct) auto

lemma failed_keys_snoc: "failed_keys (es @ [Failed k t]) = insert k (failed_keys es)" "failed_keys (es @ [Checked k t]) = failed_keys es"
  by (auto simp: failed_keys_def)

lemma finite_failed [simp]: "finite (failed_keys es)"
proof (induction es rule: rev_induct)
  case (snoc e es)
  then show ?case by (cases e) (simp_all add: failed_keys_snoc)
qed (simp add: failed_keys_def)

lemma client_run_snoc: "client_run l (ts @ [t]) = client_fail l t (client_run l ts)"
  by (simp add: client_run_def)

text \<open>What a history of fewer clients than the capacity leaves behind.\<close>

definition history_inv :: "aa_limiter \<Rightarrow> aa_event list \<Rightarrow> aa_limiter \<Rightarrow> bool" where
  "history_inv l0 es l \<longleftrightarrow> aa_inv l \<and> same_params l0 l \<and> al_overflow l = no_entry \<and> al_keys l \<subseteq> failed_keys es \<and>
     (\<forall>key t. key \<noteq> [] \<longrightarrow> (\<forall>e\<in>set es. event_time e \<le> t) \<longrightarrow>
        live (al_window l0) t (entry_of l key) = live (al_window l0) t (client_run l0 (failures_of key es)))"

lemma new_limiter_inv:
  assumes "new_limiter (Some c) = Some l" and "in_int64 (cf_window_seconds c * second)" and "in_int64 (cf_block_seconds c * second)"
  shows "aa_inv l \<and> al_overflow l = no_entry \<and> al_keys l = {} \<and> (\<forall>k. entry_of l k = None) \<and> al_threshold l = cf_threshold c \<and>
    al_window l = cf_window_seconds c * second \<and> al_block l = cf_block_seconds c * second \<and> al_capacity l = cf_capacity c"
proof -
  have c: "0 < cf_threshold c" "0 < cf_window_seconds c" "0 < cf_block_seconds c" "0 < cf_capacity c" and
    l: "al_shards l = replicate shard_count []" "al_tracked l = 0" "al_overflow l = no_entry" "al_threshold l = cf_threshold c"
      "al_window l = cf_window_seconds c * second" "al_block l = cf_block_seconds c * second" "al_capacity l = cf_capacity c"
    using assms by (auto simp: new_limiter_def split: if_splits)
  have "al_size l = 0" "al_keys l = {}" by (auto simp: al_size_def al_keys_def l(1))
  moreover have "entry_of l k = None" for k by (simp add: entry_of_def l(1))
  ultimately show ?thesis using c l by (simp add: aa_inv_def second_def)
qed

lemma client_fail_live:
  "live (al_window l) now e = live (al_window l) now e' \<Longrightarrow> client_fail l now e = client_fail l now e'"
  using client_live by blast

lemma history_run:
  assumes "history_inv l0 [] l0" and "sorted (map event_time es)" and "card (failed_keys es) \<le> nat (al_capacity l0)"
  shows "history_inv l0 es (abuse_run es l0)"
  using assms(2,3)
proof (induction es rule: rev_induct)
  case Nil
  then show ?case using assms(1) by (simp add: abuse_run_def)
next
  case (snoc ev es)
  let ?l = "abuse_run es l0"
  have sub: "failed_keys es \<subseteq> failed_keys (es @ [ev])" by (auto simp: failed_keys_def)
  have "card (failed_keys es) \<le> nat (al_capacity l0)" using card_mono [OF finite_failed sub] snoc.prems(2) by simp
  moreover have times: "sorted (map event_time es)" "\<forall>e\<in>set es. event_time e \<le> event_time ev" using snoc.prems(1) by (simp_all add: sorted_append)
  ultimately have IH: "history_inv l0 es ?l" using snoc.IH by blast
  then have inv: "aa_inv ?l" and sp: "same_params l0 ?l" and ov: "al_overflow ?l = no_entry" and keys: "al_keys ?l \<subseteq> failed_keys es"
    by (simp_all add: history_inv_def)
  have ents: "live (al_window l0) t (entry_of ?l key) = live (al_window l0) t (client_run l0 (failures_of key es))"
    if "key \<noteq> []" "event_time ev \<le> t" for key t
  proof -
    have "\<forall>e\<in>set es. event_time e \<le> t" using times(2) that(2) order_trans by blast
    then show ?thesis using IH that(1) by (simp add: history_inv_def)
  qed
  have w: "al_window ?l = al_window l0" "al_capacity ?l = al_capacity l0" using sp by (simp_all add: same_params_def)
  have run: "abuse_run (es @ [ev]) l0 = abuse_step ev ?l" by (simp add: abuse_run_def)
  show ?case
  proof (cases ev)
    case (Checked k now)
    obtain r l' where c: "abuse_check k now ?l = (r, l')" by fastforce
    note eff = check_effect [OF inv c]
    have "live (al_window l0) t (entry_of l' key) = live (al_window l0) t (client_run l0 (failures_of key es))"
      if "key \<noteq> []" "now \<le> t" for key t
      using eff ents [OF that(1)] that(2) Checked live_mono [of "al_window l0" now "entry_of l' key" "entry_of ?l key" t]
      by (simp add: keeps_live_def w)
    moreover have "abuse_run (es @ [ev]) l0 = l'" "event_time ev = now" "failed_keys (es @ [ev]) = failed_keys es"
      "failures_of key (es @ [ev]) = failures_of key es" for key
      using run c by (simp_all add: Checked failed_keys_snoc)
    moreover have "aa_inv l'" "same_params l0 l'" "al_overflow l' = no_entry" "al_keys l' \<subseteq> failed_keys es"
      using eff same_params_trans [OF sp] ov keys by (blast, blast, simp, blast)
    ultimately show ?thesis by (simp add: history_inv_def)
  next
    case (Failed k now)
    show ?thesis
    proof (cases "k = []")
      case True
      then have "abuse_record k now ?l = ?l" by (simp add: abuse_record_def)
      moreover have "failures_of key (es @ [ev]) = failures_of key es" if "key \<noteq> []" for key using that True Failed by simp
      moreover have "failed_keys es \<subseteq> failed_keys (es @ [ev])" by (rule sub)
      ultimately show ?thesis using inv sp ov keys ents Failed unfolding history_inv_def run by auto
    next
      case False
      have "card (insert k (al_keys ?l)) \<le> nat (al_capacity ?l)"
      proof -
        have "insert k (al_keys ?l) \<subseteq> failed_keys (es @ [ev])" using keys Failed by (auto simp: failed_keys_snoc)
        from card_mono [OF finite_failed this] show ?thesis using snoc.prems(2) w(2) by simp
      qed
      note eff = record_effect [OF inv False impI [OF this], of now]
      let ?l' = "abuse_record k now ?l"
      have own: "entry_of ?l' k = client_run l0 (failures_of k (es @ [ev]))"
      proof -
        have "entry_of ?l' k = client_fail l0 now (entry_of ?l k)" using eff client_params [OF sp] by simp
        also have "\<dots> = client_fail l0 now (client_run l0 (failures_of k es))"
          by (rule client_fail_live) (use ents [OF False, of now] Failed in simp)
        finally show ?thesis using Failed by (simp add: client_run_snoc)
      qed
      have "live (al_window l0) t (entry_of ?l' key) = live (al_window l0) t (client_run l0 (failures_of key (es @ [ev])))"
        if key: "key \<noteq> []" "now \<le> t" for key t
      proof (cases "key = k")
        case True with own show ?thesis by simp
      next
        case neq: False
        then have "live (al_window l0) t (entry_of ?l' key) = live (al_window l0) t (entry_of ?l key)"
          using eff live_mono [of "al_window l0" now "entry_of ?l' key" "entry_of ?l key" t] key(2) by (simp add: w)
        with ents [OF key(1)] key(2) neq Failed show ?thesis by simp
      qed
      moreover have "abuse_run (es @ [ev]) l0 = ?l'" "event_time ev = now" "failed_keys (es @ [ev]) = insert k (failed_keys es)"
        using run by (simp_all add: Failed failed_keys_snoc)
      moreover have "aa_inv ?l'" "same_params l0 ?l'" "al_overflow ?l' = no_entry" "al_keys ?l' \<subseteq> insert k (failed_keys es)"
        using eff same_params_trans [OF sp] ov keys by (blast, blast, simp, blast)
      ultimately show ?thesis by (simp add: history_inv_def)
    qed
  qed
qed

lemma history_start: "new_limiter (Some c) = Some l \<Longrightarrow> in_int64 (cf_window_seconds c * second) \<Longrightarrow> in_int64 (cf_block_seconds c * second) \<Longrightarrow> history_inv l [] l"
  using new_limiter_inv by (auto simp: history_inv_def client_run_def live_def)

lemma failures_sorted: "set (failures_of key es) \<subseteq> event_time ` set es \<and> (sorted (map event_time es) \<longrightarrow> sorted (failures_of key es))"
proof (induction key es rule: failures_of.induct)
  case (2 key k t es)
  have "\<forall>x\<in>set (failures_of key es). t \<le> x" if "\<forall>e\<in>set es. t \<le> event_time e"
    using 2 that by blast
  with 2 show ?case by auto
qed auto

lemma limiter_isolates_clients_aux:
  assumes "new_limiter (Some c) = Some l0" and "in_int64 (cf_window_seconds c * second)" and "in_int64 (cf_block_seconds c * second)"
    and "sorted (map event_time es)" and "card (failed_keys es) \<le> nat (cf_capacity c)"
    and "key \<noteq> []" and "\<forall>e\<in>set es. event_time e \<le> now" and "0 \<le> now"
  shows "fst (abuse_check key now (abuse_run es l0)) = client_check l0 now (client_run l0 (failures_of key es))"
proof -
  let ?l = "abuse_run es l0"
  have cap: "al_capacity l0 = cf_capacity c" using new_limiter_inv [OF assms(1,2,3)] by blast
  have hist: "history_inv l0 es ?l" using history_run [OF history_start [OF assms(1,2,3)] assms(4)] assms(5) cap by simp
  then have inv: "aa_inv ?l" and sp: "same_params l0 ?l" and ov: "al_overflow ?l = no_entry" by (simp_all add: history_inv_def)
  obtain r l' where c: "abuse_check key now ?l = (r, l')" by fastforce
  have "\<not> snd (check_overflow now ?l)" using assms(8) ov by (simp add: check_overflow_def no_entry_def time_defs)
  then have "r = client_check ?l now (entry_of ?l key)" using check_effect [OF inv c] assms(6) by simp
  also have "\<dots> = client_check l0 now (entry_of ?l key)" using client_params [OF sp] by simp
  also have "\<dots> = client_check l0 now (client_run l0 (failures_of key es))"
  proof -
    have "live (al_window l0) now (entry_of ?l key) = live (al_window l0) now (client_run l0 (failures_of key es))"
      using hist assms(6,7) unfolding history_inv_def by blast
    from client_live [OF this] show ?thesis by blast
  qed
  finally show ?thesis using c by simp
qed

text \<open>
Claim C37: as long as no more clients fail than the capacity holds, the answer of a check for a client depends on
that client's failures alone: it is the answer of a machine with the single entry of that client, whatever
other clients, checks and clean-ups the history contains.
\<close>

theorem limiter_isolates_clients:
  assumes "new_limiter (Some c) = Some l0" and "in_int64 (cf_window_seconds c * second)" and "in_int64 (cf_block_seconds c * second)"
    and "sorted (map event_time es)" and "card (failed_keys es) \<le> nat (cf_capacity c)"
    and "key \<noteq> []" and "\<forall>e\<in>set es. event_time e \<le> now" and "0 \<le> now"
  shows "fst (abuse_check key now (abuse_run es l0)) = client_check l0 now (client_run l0 (failures_of key es))"
  by (rule limiter_isolates_clients_aux [OF assms])

definition demo_config :: abuse_config where
  "demo_config = \<lparr>cf_enabled = True, cf_threshold = 2, cf_window_seconds = 60, cf_block_seconds = 300, cf_capacity = 2\<rparr>"

definition demo_limiter :: aa_limiter where "demo_limiter = the (new_limiter (Some demo_config))"

definition demo_history :: "aa_event list" where
  "demo_history = [Failed ''a'' (unix_epoch + second), Failed ''b'' (unix_epoch + 2 * second),
     Checked ''a'' (unix_epoch + 3 * second), Failed ''a'' (unix_epoch + 4 * second)]"

lemmas demo_defs = demo_config_def demo_limiter_def demo_history_def

lemma demo_start: "new_limiter (Some demo_config) = Some demo_limiter" "in_int64 (cf_window_seconds demo_config * second)"
  "in_int64 (cf_block_seconds demo_config * second)"
  by (simp_all add: demo_defs new_limiter_def in_int64_def min_int64_def max_int64_def second_def)

lemma demo_times: "sorted (map event_time demo_history)" "card (failed_keys demo_history) \<le> nat (cf_capacity demo_config)"
  "\<forall>e\<in>set demo_history. 0 \<le> event_time e \<and> event_time e \<le> unix_epoch + 5 * second" "0 \<le> unix_epoch + 5 * second"
proof -
  have "failed_keys demo_history = {''a'', ''b''}" unfolding failed_keys_def demo_history_def by auto
  then show "card (failed_keys demo_history) \<le> nat (cf_capacity demo_config)" by (simp add: demo_defs)
qed (simp_all add: demo_history_def second_def unix_epoch_def)

theorem limiter_isolates_clients_witness:
  "fst (abuse_check ''b'' (unix_epoch + 5 * second) (abuse_run demo_history demo_limiter)) =
     client_check demo_limiter (unix_epoch + 5 * second) (client_run demo_limiter [unix_epoch + 2 * second])"
proof -
  have "\<forall>e\<in>set demo_history. event_time e \<le> unix_epoch + 5 * second" using demo_times(3) by blast
  from limiter_isolates_clients [OF demo_start demo_times(1,2) _ this demo_times(4), of "''b''"]
  show ?thesis by (simp add: demo_history_def)
qed

section \<open>One client\<close>

lemma client_few:
  assumes "int (length ts) < al_threshold l" and "\<forall>t\<in>set ts. 0 \<le> t"
  shows "case client_run l ts of None \<Rightarrow> True | Some e \<Rightarrow> ae_blocked_until e = zero_time \<and> 0 \<le> ae_failures e \<and> ae_failures e \<le> int (length ts)"
  using assms
proof (induction ts rule: rev_induct)
  case (snoc t ts)
  then have IH: "case client_run l ts of None \<Rightarrow> True | Some e \<Rightarrow> ae_blocked_until e = zero_time \<and> 0 \<le> ae_failures e \<and> ae_failures e \<le> int (length ts)"
    by simp
  let ?e = "case live (al_window l) t (client_run l ts) of None \<Rightarrow> no_entry\<lparr>ae_window_start := t\<rparr> | Some e \<Rightarrow> e"
  have e: "ae_blocked_until ?e = zero_time \<and> 0 \<le> ae_failures ?e \<and> ae_failures ?e \<le> int (length ts)"
    using IH by (auto simp: live_def no_entry_def split: option.splits)
  then have "client_run l (ts @ [t]) = Some (fst (count_failure l t (restarts (al_window l) t ?e) ?e))"
    using snoc.prems(2) by (simp add: client_run_snoc client_fail_def Let_def time_defs)
  with e snoc.prems(1) show ?case by (auto simp: count_failure_def Let_def)
qed (simp add: client_run_def)

lemma client_window:
  assumes "ts \<noteq> []" and "int (length ts) < al_threshold l" and "sorted ts" and "last ts < hd ts + al_window l" and "0 \<le> hd ts"
  shows "client_run l ts = Some \<lparr>ae_failures = int (length ts), ae_window_start = hd ts, ae_blocked_until = zero_time\<rparr>"
  using assms
proof (induction ts rule: rev_induct)
  case (snoc t ts)
  show ?case
  proof (cases "ts = []")
    case True
    with snoc.prems show ?thesis
      by (simp add: client_run_def client_fail_def live_def restarts_def count_failure_def no_entry_def Let_def time_defs)
  next
    case False
    have le: "hd ts \<le> last ts" "last ts \<le> t" using snoc.prems(3) False by (auto simp: sorted_append hd_conv_nth last_conv_nth sorted_nth_mono)
    have near: "t < hd ts + al_window l" "last ts < hd ts + al_window l" using snoc.prems(4) False le(2) by simp_all
    have "client_run l ts = Some \<lparr>ae_failures = int (length ts), ae_window_start = hd ts, ae_blocked_until = zero_time\<rparr>"
      by (rule snoc.IH [OF False]) (use snoc.prems le near False in \<open>simp_all add: sorted_append\<close>)
    with le near snoc.prems False show ?thesis
      by (simp add: client_run_snoc client_fail_def live_def entry_expired_def restarts_def count_failure_def Let_def time_defs)
  qed
qed simp

lemma client_blocked:
  assumes "int (length ts) = al_threshold l" and "0 < al_threshold l" and "0 < al_block l" and "0 < al_window l" and "sorted ts"
    and "last ts < hd ts + al_window l" and "0 \<le> hd ts" and "last ts \<le> now" and "now < last ts + al_block l"
  shows "client_check l now (client_run l ts) = (t_sub (last ts + al_block l) now, True)"
proof -
  have "ts \<noteq> []" using assms(1,2) by auto
  then obtain us t where ts: "ts = us @ [t]" by (metis append_butlast_last_id)
  have "client_run l ts = Some \<lparr>ae_failures = 0, ae_window_start = t + al_block l, ae_blocked_until = t + al_block l\<rparr>"
  proof (cases "us = []")
    case True
    with ts assms(1,7) show ?thesis
      by (simp add: client_run_def client_fail_def live_def restarts_def count_failure_def no_entry_def Let_def time_defs)
  next
    case False
    have le: "hd us \<le> last us" "last us \<le> t" using assms(5) ts False by (auto simp: sorted_append hd_conv_nth last_conv_nth sorted_nth_mono)
    have near: "t < hd us + al_window l" "last us < hd us + al_window l" "0 \<le> hd us" using assms(6,7) ts False le(2) by simp_all
    have "client_run l us = Some \<lparr>ae_failures = int (length us), ae_window_start = hd us, ae_blocked_until = zero_time\<rparr>"
      by (rule client_window [OF False]) (use assms(1,5) ts le near in \<open>simp_all add: sorted_append\<close>)
    with le near assms(1) ts False show ?thesis
      by (simp add: client_run_snoc client_fail_def live_def entry_expired_def restarts_def count_failure_def Let_def time_defs)
  qed
  with ts assms show ?thesis by (simp add: client_check_def live_def entry_expired_def time_defs)
qed

text \<open>
the limiter blocks exactly at its threshold: a client with fewer failures is never blocked, and one
whose failures reach the threshold within the window is refused from the last of them for the block
duration, with the remaining time as the retry delay.
\<close>

theorem block_at_threshold:
  assumes "new_limiter (Some c) = Some l0" and "in_int64 (cf_window_seconds c * second)" and "in_int64 (cf_block_seconds c * second)"
    and "sorted (map event_time es)" and "card (failed_keys es) \<le> nat (cf_capacity c)"
    and "key \<noteq> []" and "\<forall>e\<in>set es. 0 \<le> event_time e \<and> event_time e \<le> now" and "0 \<le> now"
  shows "(int (length (failures_of key es)) < cf_threshold c \<longrightarrow> fst (abuse_check key now (abuse_run es l0)) = (0, False)) \<and>
    (int (length (failures_of key es)) = cf_threshold c \<and>
      last (failures_of key es) < hd (failures_of key es) + cf_window_seconds c * second \<and>
      now < last (failures_of key es) + cf_block_seconds c * second \<longrightarrow>
      fst (abuse_check key now (abuse_run es l0)) = (t_sub (last (failures_of key es) + cf_block_seconds c * second) now, True))"
proof -
  let ?ts = "failures_of key es"
  have par: "al_threshold l0 = cf_threshold c" "al_window l0 = cf_window_seconds c * second" "al_block l0 = cf_block_seconds c * second"
    and pos: "0 < al_threshold l0" "0 < al_window l0" "0 < al_block l0"
    using new_limiter_inv [OF assms(1,2,3)] by (auto simp: aa_inv_def)
  have answer: "fst (abuse_check key now (abuse_run es l0)) = client_check l0 now (client_run l0 ?ts)"
    by (rule limiter_isolates_clients_aux [OF assms(1-6) _ assms(8)]) (use assms(7) in blast)
  have ts: "set ?ts \<subseteq> event_time ` set es \<and> (sorted (map event_time es) \<longrightarrow> sorted ?ts)" by (rule failures_sorted)
  have times: "\<forall>t\<in>set ?ts. 0 \<le> t \<and> t \<le> now" using ts assms(7) by auto
  have few: "client_check l0 now (client_run l0 ?ts) = (0, False)" if "int (length ?ts) < al_threshold l0"
    using client_few [OF that] times assms(8) by (auto simp: client_check_def live_def time_defs split: option.splits)
  have many: "client_check l0 now (client_run l0 ?ts) = (t_sub (last ?ts + al_block l0) now, True)"
    if "int (length ?ts) = al_threshold l0" "last ?ts < hd ?ts + al_window l0" "now < last ?ts + al_block l0"
  proof -
    have "?ts \<noteq> []" using that(1) pos(1) by auto
    then show ?thesis using client_blocked [OF that(1) pos(1,3,2)] ts assms(4) that times by simp
  qed
  show ?thesis using few many par unfolding answer by auto
qed

theorem block_at_threshold_witness:
  "fst (abuse_check ''a'' (unix_epoch + 5 * second) (abuse_run demo_history demo_limiter)) = (299 * second, True) \<and>
   fst (abuse_check ''b'' (unix_epoch + 5 * second) (abuse_run demo_history demo_limiter)) = (0, False)"
proof -
  have f: "failures_of ''a'' demo_history = [unix_epoch + second, unix_epoch + 4 * second]" "failures_of ''b'' demo_history = [unix_epoch + 2 * second]"
    by (simp_all add: demo_history_def)
  note b = block_at_threshold [OF demo_start demo_times(1,2) _ demo_times(3,4)]
  from b [of "''a''"] b [of "''b''"] show ?thesis
    by (simp add: f demo_config_def second_def unix_epoch_def t_sub_def max_int64_def min_int64_def)
qed

section \<open>The bound\<close>

text \<open>
Claim C38: whatever failures and checks arrive, also from more clients than the capacity, the tracked counter is
the number of clients with an entry and stays within the configured capacity.
\<close>

theorem limiter_bounded:
  assumes "new_limiter (Some c) = Some l0" and "in_int64 (cf_window_seconds c * second)" and "in_int64 (cf_block_seconds c * second)"
  shows "al_tracked (abuse_run es l0) = int (card (al_keys (abuse_run es l0))) \<and> al_tracked (abuse_run es l0) \<le> cf_capacity c"
proof -
  have "aa_inv (abuse_run es l0) \<and> same_params l0 (abuse_run es l0)"
  proof (induction es rule: rev_induct)
    case Nil
    then show ?case using new_limiter_inv [OF assms] by (simp add: abuse_run_def)
  next
    case (snoc ev es)
    have "aa_inv (abuse_step ev l) \<and> same_params l (abuse_step ev l)" if "aa_inv l" for l
    proof (cases ev)
      case (Checked k t)
      then show ?thesis using check_effect [OF that surjective_pairing] by simp
    qed (use abuse_record_inv [OF that] in simp)
    with snoc show ?case using same_params_trans by (fastforce simp: abuse_run_def)
  qed
  with new_limiter_inv [OF assms] show ?thesis using al_size_card by (simp add: aa_inv_def same_params_def)
qed

theorem limiter_bounded_witness:
  "al_tracked (abuse_run (demo_history @ [Failed ''c'' (unix_epoch + 5 * second)]) demo_limiter) \<le> 2"
  using limiter_bounded [OF demo_start, of "demo_history @ [Failed ''c'' (unix_epoch + 5 * second)]"] by (simp add: demo_config_def)

end
