(* ===== verification/Evicting.thy ===== *)
theory Evicting
  imports Go_Prelude "HOL-Library.Multiset"
begin

text \<open>
  What the bounded in-memory maps of the gateway share: a map that makes room by evicting entries before
  it stores a new key. The locale states what an eviction promises; the facts about storing are proved
  from it once.
\<close>

section \<open>Storing under a bound\<close>

definition gm_store :: "(('k, 'v) gomap \<Rightarrow> ('k, 'v) gomap) \<Rightarrow> 'k \<Rightarrow> 'v \<Rightarrow> ('k, 'v) gomap \<Rightarrow> ('k, 'v) gomap" where
  "gm_store evict k v m = gm_put k v (if gm_get m k = None then evict m else m)"

text \<open>A \<open>range\<close> statement visits every entry once, in some order.\<close>

definition visits :: "(('k, 'v) gomap \<Rightarrow> ('k, 'v) gomap) \<Rightarrow> bool" where
  "visits visit \<longleftrightarrow> (\<forall>m. mset (visit m) = mset m)"

lemma visits_set: "visits visit \<Longrightarrow> set (visit m) = set m"
  unfolding visits_def by (metis set_mset_mset)

lemma visits_id [simp]: "visits (\<lambda>m. m)" by (simp add: visits_def)

definition map_ok :: "('k \<Rightarrow> bool) \<Rightarrow> int \<Rightarrow> ('k, 'v) gomap \<Rightarrow> bool" where
  "map_ok good bound m \<longleftrightarrow> gm_ok m \<and> (\<forall>k\<in>fst ` set m. good k) \<and> int (gm_len m) \<le> bound"

lemma map_okI [intro]: "gm_ok m \<Longrightarrow> (\<And>k. k \<in> fst ` set m \<Longrightarrow> good k) \<Longrightarrow> int (gm_len m) \<le> bound \<Longrightarrow> map_ok good bound m"
  by (simp add: map_ok_def)

lemma map_ok_Nil [simp]: "0 \<le> bound \<Longrightarrow> map_ok good bound []" by (simp add: map_ok_def)

lemma map_ok_filter:
  assumes "map_ok good bound m"
  shows "map_ok good bound (filter P m)"
proof
  show "gm_ok (filter P m)" using assms by (simp add: map_ok_def)
  show "good k" if "k \<in> fst ` set (filter P m)" for k using assms that by (auto simp: map_ok_def)
  have "gm_len (filter P m) \<le> gm_len m" by (rule length_filter_le)
  then show "int (gm_len (filter P m)) \<le> bound" using assms unfolding map_ok_def by linarith
qed

lemma map_ok_del: "map_ok good bound m \<Longrightarrow> map_ok good bound (gm_del k m)"
  unfolding gm_del_filter by (rule map_ok_filter)

lemma fst_update: "fst ` set (gm_put k v m) = insert k (fst ` set m)"
  using dom_update [of k v m] unfolding dom_map_of_conv_image_fst by simp

lemma map_ok_put_old:
  assumes "map_ok good bound m" and "gm_get m k \<noteq> None"
  shows "map_ok good bound (gm_put k v m)"
proof -
  have "k \<in> fst ` set m" using assms(2) unfolding gm_get_None_iff by blast
  then have "insert k (fst ` set m) = fst ` set m" by blast
  moreover have "gm_len (gm_put k v m) = gm_len m" using assms(2) unfolding gm_len_put by (rule if_not_P)
  ultimately show ?thesis using assms(1) unfolding map_ok_def fst_update by simp
qed

lemma gm_kept:
  assumes "m' = m \<or> m' = gm_del r m"
  shows "fst ` set m' \<subseteq> fst ` set m \<and> (r \<noteq> p \<longrightarrow> gm_get m' p = gm_get m p)"
proof -
  have "fst ` set (gm_del r m) \<subseteq> fst ` set m" unfolding gm_del_filter by auto
  with assms show ?thesis by auto
qed

section \<open>The least recently touched entry\<close>

text \<open>\<open>is_oldest\<close>: the entry of \<open>k\<close> has the least touching time.\<close>

definition is_oldest :: "('v \<Rightarrow> gtime) \<Rightarrow> ('k, 'v) gomap \<Rightarrow> 'k \<Rightarrow> bool" where
  "is_oldest touched m k \<longleftrightarrow> (\<exists>v. gm_get m k = Some v \<and> (\<forall>k' v'. gm_get m k' = Some v' \<longrightarrow> touched v \<le> touched v'))"

lemma is_oldestI: "gm_ok m \<Longrightarrow> (k, v) \<in> set m \<Longrightarrow> \<forall>(k', v')\<in>set m. touched v \<le> touched v' \<Longrightarrow> is_oldest touched m k"
  unfolding is_oldest_def gm_ok_def by (rule exI [of _ v]) (auto dest: map_of_SomeD)

section \<open>The interface of an eviction\<close>

locale eviction =
  fixes evict :: "'c \<Rightarrow> ('k, 'v) gomap \<Rightarrow> ('k, 'v) gomap" and bound :: "'c \<Rightarrow> int" and good :: "'k \<Rightarrow> bool" and ready :: "'c \<Rightarrow> bool"
  assumes evict_idle: "int (gm_len m) < bound c \<Longrightarrow> evict c m = m"
    and evict_drops: "ready c \<Longrightarrow> map_ok good (bound c) m \<Longrightarrow> \<exists>P. evict c m = filter P m"
    and evict_room: "ready c \<Longrightarrow> 0 < bound c \<Longrightarrow> map_ok good (bound c) m \<Longrightarrow> int (gm_len (evict c m)) < bound c"
begin

lemma store_ok:
  assumes "ready c" and "0 < bound c" and "map_ok good (bound c) m" and "good k"
  shows "map_ok good (bound c) (gm_store (evict c) k v m)"
proof (cases "gm_get m k = None")
  case True
  obtain P where P: "evict c m = filter P m" using evict_drops [OF assms(1,3)] by blast
  have "map_ok good (bound c) (evict c m)" unfolding P by (rule map_ok_filter) (rule assms(3))
  moreover have "int (gm_len (gm_put k v (evict c m))) \<le> bound c"
    using evict_room [OF assms(1-3)] by (simp add: gm_len_put)
  ultimately show ?thesis using True assms(4) by (simp add: gm_store_def map_ok_def fst_update)
next
  case False
  then show ?thesis using map_ok_put_old [OF assms(3) False] unfolding gm_store_def by (simp only: if_False)
qed

lemma store_own: "gm_get (gm_store (evict c) k v m) k = Some v"
  by (simp add: gm_store_def)

lemma store_other:
  assumes "ready c" and "map_ok good (bound c) m" and "k' \<noteq> k"
  shows "gm_get (gm_store (evict c) k v m) k' \<in> {None, gm_get m k'}"
proof -
  obtain P where "evict c m = filter P m" using evict_drops [OF assms(1,2)] by blast
  with assms(2,3) show ?thesis by (auto simp: gm_store_def map_ok_def gm_get_filter split: option.split)
qed

text \<open>As long as the keys in use fit, nothing is evicted.\<close>

lemma store_fits:
  assumes "map_ok good (bound c) m" and "fst ` set m \<subseteq> K" and "k \<in> K" and "finite K" and "int (card K) \<le> bound c"
  shows "gm_store (evict c) k v m = gm_put k v m"
proof (cases "gm_get m k = None")
  case True
  have "card (fst ` set m) = gm_len m" using assms(1) by (metis distinct_card gm_ok_def length_map list.set_map map_ok_def)
  moreover have "fst ` set m \<subset> K" using True assms(2,3) by (auto simp: gm_get_None_iff)
  then have "card (fst ` set m) < card K" by (rule psubset_card_mono [OF assms(4)])
  ultimately have "evict c m = m" using assms(5) by (intro evict_idle) simp
  then show ?thesis by (simp add: gm_store_def)
next
  case False
  then show ?thesis unfolding gm_store_def by (simp only: if_False)
qed

end

end
