(* ===== verification/Proxy_Circuit.thy ===== *)
theory Proxy_Circuit
  imports Evicting Go_Errors
begin

text \<open>
  \<open>backend/internal/service/openai_proxy_stream_circuit.go\<close>: the circuit that quarantines a proxy after
  repeated stream disconnects. The methods run under one mutex, so they are functions on the state; the
  reading of the clock and the order in which the eviction visits the map are arguments.
\<close>

section \<open>State\<close>

definition default_failure_threshold :: int where "default_failure_threshold = 2"
definition default_failure_window :: gduration where "default_failure_window = minute"
definition default_quarantine_ttl :: gduration where "default_quarantine_ttl = 10 * minute"
definition default_circuit_max :: int where "default_circuit_max = 4096"
definition default_collapse :: gduration where "default_collapse = 3 * second"
definition fail_open_log_interval :: gduration where "fail_open_log_interval = 5 * second"

record pc_settings =
  ps_disabled :: bool
  ps_threshold :: int
  ps_window :: gduration
  ps_ttl :: gduration
  ps_collapse :: gduration
  ps_max :: int

record pc_entry =
  pe_count :: int
  pe_start :: gtime
  pe_last :: gtime
  pe_until :: gtime
  pe_touched :: gtime

record pc_circuit =
  pc_settings :: pc_settings
  pc_entries :: "(int64, pc_entry) gomap"

text \<open>The zero value of an entry, which a lookup of an absent key returns.\<close>

definition zero_pc_entry :: pc_entry where
  "zero_pc_entry = \<lparr>pe_count = 0, pe_start = zero_time, pe_last = zero_time, pe_until = zero_time, pe_touched = zero_time\<rparr>"

record circuit_config =
  cc_disabled :: bool
  cc_threshold :: int
  cc_window_seconds :: int
  cc_ttl_seconds :: int

definition resolve_settings :: "circuit_config option \<Rightarrow> pc_settings" where
  "resolve_settings cfg =
     (let s = \<lparr>ps_disabled = False, ps_threshold = default_failure_threshold, ps_window = default_failure_window,
                ps_ttl = default_quarantine_ttl, ps_collapse = default_collapse, ps_max = default_circuit_max\<rparr>
      in case cfg of None \<Rightarrow> s
      | Some c \<Rightarrow> (let s = s\<lparr>ps_disabled := cc_disabled c\<rparr>;
            s = (if cc_threshold c > 0 then s\<lparr>ps_threshold := cc_threshold c\<rparr> else s);
            s = (if cc_window_seconds c > 0 then s\<lparr>ps_window := wrap64 (cc_window_seconds c * second)\<rparr> else s)
          in if cc_ttl_seconds c > 0 then s\<lparr>ps_ttl := wrap64 (cc_ttl_seconds c * second)\<rparr> else s))"

definition new_circuit :: "pc_settings \<Rightarrow> pc_circuit" where
  "new_circuit s =
     (let s = (if ps_threshold s \<le> 0 then s\<lparr>ps_threshold := default_failure_threshold\<rparr> else s);
          s = (if ps_window s \<le> 0 then s\<lparr>ps_window := default_failure_window\<rparr> else s);
          s = (if ps_ttl s \<le> 0 then s\<lparr>ps_ttl := default_quarantine_ttl\<rparr> else s);
          s = (if ps_max s \<le> 0 then s\<lparr>ps_max := default_circuit_max\<rparr> else s);
          s = (if ps_collapse s < 0 then s\<lparr>ps_collapse := 0\<rparr> else s)
      in \<lparr>pc_settings = s, pc_entries = []\<rparr>)"

section \<open>Eviction\<close>

definition pc_stale :: "pc_settings \<Rightarrow> gtime \<Rightarrow> pc_entry \<Rightarrow> bool" where
  "pc_stale s now e \<longleftrightarrow> (is_zero_time (pe_until e) \<and> t_sub now (pe_touched e) > ps_window s) \<or>
     (\<not> is_zero_time (pe_until e) \<and> \<not> t_before now (pe_until e))"

definition pc_oldest :: "(int64, pc_entry) gomap \<Rightarrow> int64 \<times> gtime" where
  "pc_oldest = foldl (\<lambda>(oldest_id, oldest) (p, e). if oldest_id = 0 \<or> t_before (pe_touched e) oldest
     then (p, pe_touched e) else (oldest_id, oldest)) (0, zero_time)"

definition pc_ensure_capacity :: "((int64, pc_entry) gomap \<Rightarrow> (int64, pc_entry) gomap) \<Rightarrow> pc_settings \<Rightarrow> gtime \<Rightarrow>
    (int64, pc_entry) gomap \<Rightarrow> (int64, pc_entry) gomap" where
  "pc_ensure_capacity visit s now m =
     (if int (gm_len m) < ps_max s then m
      else (let m = filter (\<lambda>(p, e). \<not> pc_stale s now e) m in
        if int (gm_len m) < ps_max s then m
        else (let oldest_id = fst (pc_oldest (visit m)) in if oldest_id > 0 then gm_del oldest_id m else m)))"

lemma pc_oldest_spec:
  assumes "\<forall>(p, e)\<in>set m. 0 < p" and "m \<noteq> []"
  shows "\<exists>e. (fst (pc_oldest m), e) \<in> set m \<and> snd (pc_oldest m) = pe_touched e \<and> (\<forall>(p', e')\<in>set m. pe_touched e \<le> pe_touched e')"
  using assms
proof (induction m rule: rev_induct)
  case (snoc x m)
  obtain p e where x: "x = (p, e)" by (cases x)
  have step: "pc_oldest (m @ [(p, e)]) = (if fst (pc_oldest m) = 0 \<or> t_before (pe_touched e) (snd (pc_oldest m)) then (p, pe_touched e) else pc_oldest m)"
    by (simp add: pc_oldest_def case_prod_unfold)
  show ?case
  proof (cases "m = []")
    case True
    then show ?thesis by (simp add: step x pc_oldest_def)
  next
    case False
    then obtain e0 where e0: "(fst (pc_oldest m), e0) \<in> set m" "snd (pc_oldest m) = pe_touched e0"
        "\<forall>(p', e')\<in>set m. pe_touched e0 \<le> pe_touched e'"
      using snoc by auto
    have nz: "fst (pc_oldest m) \<noteq> 0" using e0(1) snoc.prems(1) by fastforce
    show ?thesis
    proof (cases "pe_touched e < pe_touched e0")
      case True
      then have "pc_oldest (m @ [(p, e)]) = (p, pe_touched e)" using e0(2) by (simp add: step t_before_def)
      with True e0(3) show ?thesis by (force simp: x)
    next
      case False
      with nz e0 have "pc_oldest (m @ [(p, e)]) = pc_oldest m" by (simp add: step t_before_def)
      with e0 False show ?thesis by (auto simp: x)
    qed
  qed
qed simp

lemma pc_ensure_cases:
  assumes "visits visit" and "map_ok (\<lambda>p. 0 < p) (ps_max s) m" and "\<not> int (gm_len m) < ps_max s"
    and "\<not> int (gm_len (filter (\<lambda>(p, e). \<not> pc_stale s now e) m)) < ps_max s" and "0 < ps_max s"
  shows "\<exists>p. pc_ensure_capacity visit s now m = gm_del p m \<and> is_oldest pe_touched m p"
proof -
  let ?m = "filter (\<lambda>(p, e). \<not> pc_stale s now e) m"
  have "gm_len ?m \<le> gm_len m" by (rule length_filter_le)
  then have "gm_len ?m = gm_len m" using assms(2-4) unfolding map_ok_def by linarith
  then have same: "?m = m" by (simp add: filter_id_conv length_filter_conv_card) (metis \<open>gm_len ?m = gm_len m\<close> filter_id_conv length_filter_less nat_neq_iff)
  have set: "set (visit m) = set m" using assms(1) by (rule visits_set)
  have "m \<noteq> []" using assms(3,5) by auto
  then have "visit m \<noteq> []" using set by auto
  moreover have "\<forall>(p, e)\<in>set (visit m). 0 < p" using assms(2) set by (auto simp: map_ok_def)
  ultimately obtain e where e: "(fst (pc_oldest (visit m)), e) \<in> set m" "\<forall>(p', e')\<in>set m. pe_touched e \<le> pe_touched e'"
    using pc_oldest_spec [of "visit m"] set by auto
  have "is_oldest pe_touched m (fst (pc_oldest (visit m)))"
    by (rule is_oldestI [OF _ e]) (use assms(2) in \<open>simp add: map_ok_def\<close>)
  moreover have "0 < fst (pc_oldest (visit m))" using e(1) assms(2) by (force simp: map_ok_def)
  ultimately show ?thesis using assms(3,4) by (auto simp: pc_ensure_capacity_def Let_def same)
qed

abbreviation pc_evict where "pc_evict c m \<equiv> (case c of (visit, s, now) \<Rightarrow> pc_ensure_capacity visit s now m)"
abbreviation pc_bound where "pc_bound c \<equiv> (case c of (visit, s, now) \<Rightarrow> ps_max s)"
abbreviation pc_ready where "pc_ready c \<equiv> (case c of (visit, s, now) \<Rightarrow> visits visit)"

interpretation pc: eviction "\<lambda>c. pc_evict c" "\<lambda>c. pc_bound c" "\<lambda>p. 0 < p" "\<lambda>c. pc_ready c"
proof (unfold_locales)
  fix m :: "(int64, pc_entry) gomap" and c :: "((int64, pc_entry) gomap \<Rightarrow> (int64, pc_entry) gomap) \<times> pc_settings \<times> gtime"
  obtain visit s now where c: "c = (visit, s, now)" by (cases c)
  show "pc_evict c m = m" if "int (gm_len m) < pc_bound c" using that by (simp add: c pc_ensure_capacity_def)
  assume "pc_ready c" "map_ok (\<lambda>p. 0 < p) (pc_bound c) m"
  then have ok: "visits visit" "map_ok (\<lambda>p. 0 < p) (ps_max s) m" by (simp_all add: c)
  show "\<exists>P. pc_evict c m = filter P m"
    by (auto simp: c pc_ensure_capacity_def Let_def gm_del_filter intro: exI [of _ "\<lambda>x. True"])
  show "int (gm_len (pc_evict c m)) < pc_bound c" if room: "0 < pc_bound c"
  proof (cases "int (gm_len m) < ps_max s \<or> int (gm_len (filter (\<lambda>(p, e). \<not> pc_stale s now e) m)) < ps_max s")
    case True
    then show ?thesis by (auto simp: c pc_ensure_capacity_def Let_def)
  next
    case False
    then obtain p where p: "pc_ensure_capacity visit s now m = gm_del p m" "is_oldest pe_touched m p"
      using pc_ensure_cases [OF ok, of now] room unfolding c by auto
    have "gm_get m p \<noteq> None" using p(2) by (auto simp: is_oldest_def)
    then have "gm_len (gm_del p m) < gm_len m" using gm_len_del [of m p] ok(2) by (cases m) (auto simp: map_ok_def)
    with p(1) ok(2) show ?thesis by (simp add: c map_ok_def)
  qed
qed

section \<open>Operations\<close>

text \<open>One failure of an entry that is not in quarantine: the entry it stores and the answer.\<close>

definition pc_count_failure :: "pc_settings \<Rightarrow> gtime \<Rightarrow> pc_entry \<Rightarrow> pc_entry \<times> bool \<times> gtime" where
  "pc_count_failure s now e0 =
     (let e = (if is_zero_time (pe_start e0) \<or> t_before now (pe_start e0) \<or> t_sub now (pe_start e0) > ps_window s
               then e0\<lparr>pe_count := 0, pe_start := now, pe_until := zero_time\<rparr> else e0)
      in if ps_collapse s > 0 \<and> \<not> is_zero_time (pe_last e) \<and> t_sub now (pe_last e) \<ge> 0 \<and> t_sub now (pe_last e) < ps_collapse s
         then (e\<lparr>pe_touched := now\<rparr>, False, zero_time)
         else (let e = e\<lparr>pe_count := pe_count e + 1, pe_last := now, pe_touched := now\<rparr>;
                   tripped = (pe_count e \<ge> ps_threshold s);
                   e = (if tripped then e\<lparr>pe_until := t_add now (ps_ttl s)\<rparr> else e)
               in (e, tripped, pe_until e)))"

definition pc_record_failure :: "((int64, pc_entry) gomap \<Rightarrow> (int64, pc_entry) gomap) \<Rightarrow> int64 \<Rightarrow> gtime \<Rightarrow> pc_circuit \<Rightarrow>
    (bool \<times> gtime) \<times> pc_circuit" where
  "pc_record_failure visit p now c =
     (if ps_disabled (pc_settings c) \<or> p \<le> 0 then ((False, zero_time), c)
      else (case gm_get (pc_entries c) p of
        Some e \<Rightarrow> if t_before now (pe_until e)
          then ((False, pe_until e), c\<lparr>pc_entries := gm_put p (e\<lparr>pe_touched := now\<rparr>) (pc_entries c)\<rparr>)
          else (case pc_count_failure (pc_settings c) now e of
            (e', r) \<Rightarrow> (r, c\<lparr>pc_entries := gm_put p e' (pc_entries c)\<rparr>))
      | None \<Rightarrow> (case pc_count_failure (pc_settings c) now zero_pc_entry of
            (e', r) \<Rightarrow> (r, c\<lparr>pc_entries := gm_put p e' (pc_ensure_capacity visit (pc_settings c) now (pc_entries c))\<rparr>))))"

definition pc_record_success :: "int64 \<Rightarrow> pc_circuit \<Rightarrow> bool \<times> pc_circuit" where
  "pc_record_success p c =
     (if p \<le> 0 then (False, c)
      else if gm_get (pc_entries c) p = None then (False, c)
      else (True, c\<lparr>pc_entries := gm_del p (pc_entries c)\<rparr>))"

definition pc_is_blocked :: "int64 \<Rightarrow> gtime \<Rightarrow> pc_circuit \<Rightarrow> bool \<times> pc_circuit" where
  "pc_is_blocked p now c =
     (if ps_disabled (pc_settings c) \<or> p \<le> 0 then (False, c)
      else (case gm_get (pc_entries c) p of
        None \<Rightarrow> (False, c)
      | Some e \<Rightarrow> if is_zero_time (pe_until e) then (False, c)
          else if \<not> t_before now (pe_until e) then (False, c\<lparr>pc_entries := gm_del p (pc_entries c)\<rparr>)
          else (True, c)))"

definition pc_active_blocks :: "gtime \<Rightarrow> pc_circuit \<Rightarrow> int" where
  "pc_active_blocks now c = (if ps_disabled (pc_settings c) then 0
     else int (length (filter (\<lambda>(p, e). \<not> is_zero_time (pe_until e) \<and> t_before now (pe_until e)) (pc_entries c))))"

section \<open>The gateway's use of the circuit\<close>

text \<open>The fields of the gateway service and of an account that the circuit reads.\<close>

record pc_account =
  ac_platform :: string
  ac_proxy_id :: "int64 option"

record pc_gateway =
  pg_config :: "circuit_config option"
  pg_once :: bool
  pg_circuit :: "pc_circuit option"
  pg_log_at :: int64

definition platform_openai :: string where "platform_openai = ''openai''"
definition err_canceled :: go_error where "err_canceled = PlainErr ''context canceled''"
definition err_deadline :: go_error where "err_deadline = PlainErr ''context deadline exceeded''"

definition get_circuit :: "pc_gateway \<Rightarrow> pc_gateway" where
  "get_circuit g = (if pg_once g then g
     else (let g = g\<lparr>pg_once := True\<rparr> in case pg_circuit g of
       None \<Rightarrow> g\<lparr>pg_circuit := Some (new_circuit (resolve_settings (pg_config g)))\<rparr>
     | Some _ \<Rightarrow> g))"

definition circuit_proxy_id :: "pc_account option \<Rightarrow> int64 option" where
  "circuit_proxy_id a = (case a of None \<Rightarrow> None | Some a \<Rightarrow>
     if ac_platform a \<noteq> platform_openai then None
     else (case ac_proxy_id a of None \<Rightarrow> None | Some p \<Rightarrow> if p \<le> 0 then None else Some p))"

definition record_disconnect :: "((int64, pc_entry) gomap \<Rightarrow> (int64, pc_entry) gomap) \<Rightarrow> pc_account option \<Rightarrow> go_error option \<Rightarrow>
    gtime \<Rightarrow> pc_gateway \<Rightarrow> pc_gateway" where
  "record_disconnect visit a err now g = (case (circuit_proxy_id a, err) of
     (Some p, Some e) \<Rightarrow>
       if errors_is e err_canceled \<or> errors_is e err_deadline then g
       else (let g = get_circuit g in case pg_circuit g of None \<Rightarrow> g
         | Some c \<Rightarrow> g\<lparr>pg_circuit := Some (snd (pc_record_failure visit p now c))\<rparr>)
   | _ \<Rightarrow> g)"

definition clear_disconnect :: "pc_account option \<Rightarrow> pc_gateway \<Rightarrow> pc_gateway" where
  "clear_disconnect a g = (case circuit_proxy_id a of None \<Rightarrow> g
     | Some p \<Rightarrow> (let g = get_circuit g in case pg_circuit g of None \<Rightarrow> g
         | Some c \<Rightarrow> g\<lparr>pg_circuit := Some (snd (pc_record_success p c))\<rparr>))"

definition is_quarantined :: "bool \<Rightarrow> pc_account option \<Rightarrow> gtime \<Rightarrow> pc_gateway \<Rightarrow> bool \<times> pc_gateway" where
  "is_quarantined bypassed a now g = (case circuit_proxy_id a of None \<Rightarrow> (False, g)
     | Some p \<Rightarrow> if bypassed then (False, g)
         else (let g = get_circuit g in case pg_circuit g of None \<Rightarrow> (False, g)
           | Some c \<Rightarrow> (case pc_is_blocked p now c of (b, c') \<Rightarrow> (b, g\<lparr>pg_circuit := Some c'\<rparr>))))"

text \<open>Whether the fail-open warning is written, at most once per interval.\<close>

definition fail_open_log :: "gtime \<Rightarrow> pc_gateway \<Rightarrow> bool \<times> pc_gateway" where
  "fail_open_log t g = (let now = unix_nano t in
     if wrap64 (now - pg_log_at g) < fail_open_log_interval then (False, g) else (True, g\<lparr>pg_log_at := now\<rparr>))"

end
