(* ===== verification/Circuit_Props.thy ===== *)
theory Circuit_Props
  imports Proxy_Circuit
begin

text \<open>
  The properties of the proxy circuit over histories of failures, successes and questions with the
  readings of the clock.
\<close>

section \<open>Histories\<close>

datatype pc_event = Failure int64 gtime | Success int64 gtime | Asked int64 gtime

fun pc_time :: "pc_event \<Rightarrow> gtime" where
  "pc_time (Failure p t) = t" | "pc_time (Success p t) = t" | "pc_time (Asked p t) = t"

fun pc_step :: "((int64, pc_entry) gomap \<Rightarrow> (int64, pc_entry) gomap) \<Rightarrow> pc_event \<Rightarrow> pc_circuit \<Rightarrow> pc_circuit" where
  "pc_step visit (Failure p t) c = snd (pc_record_failure visit p t c)"
| "pc_step visit (Success p t) c = snd (pc_record_success p c)"
| "pc_step visit (Asked p t) c = snd (pc_is_blocked p t c)"

definition pc_run :: "((int64, pc_entry) gomap \<Rightarrow> (int64, pc_entry) gomap) \<Rightarrow> pc_event list \<Rightarrow> pc_circuit \<Rightarrow> pc_circuit" where
  "pc_run visit es c = foldl (\<lambda>c ev. pc_step visit ev c) c es"

definition failing :: "pc_event list \<Rightarrow> int64 set" where "failing es = {p. \<exists>t. Failure p t \<in> set es}"

fun pc_failures_of :: "int64 \<Rightarrow> pc_event list \<Rightarrow> gtime list" where
  "pc_failures_of p [] = []"
| "pc_failures_of p (Failure q t # es) = (if q = p then [t] else []) @ pc_failures_of p es"
| "pc_failures_of p (_ # es) = pc_failures_of p es"

text \<open>Failures closer than the collapse interval to the last incident belong to that incident.\<close>

definition incidents :: "gduration \<Rightarrow> gtime list \<Rightarrow> gtime list" where
  "incidents d = foldl (\<lambda>inc t. if inc \<noteq> [] \<and> t - last inc < d then inc else inc @ [t]) []"

definition settings_ok :: "pc_settings \<Rightarrow> bool" where
  "settings_ok s \<longleftrightarrow> \<not> ps_disabled s \<and> 0 < ps_threshold s \<and> 0 < ps_window s \<and> 0 < ps_ttl s \<and> 0 \<le> ps_collapse s \<and> 0 < ps_max s \<and>
     in_int64 (ps_window s) \<and> in_int64 (ps_collapse s)"

lemma pc_run_simps: "pc_run visit [] c = c" "pc_run visit (es @ [ev]) c = pc_step visit ev (pc_run visit es c)"
  by (simp_all add: pc_run_def)

lemma incidents_simps: "incidents d [] = []"
  "incidents d (ts @ [t]) = (if incidents d ts \<noteq> [] \<and> t - last (incidents d ts) < d then incidents d ts else incidents d ts @ [t])"
  by (simp_all add: incidents_def)

lemma incidents_some: "ts \<noteq> [] \<Longrightarrow> incidents d ts \<noteq> []"
  by (induction ts rule: rev_induct) (auto simp: incidents_simps)

lemma incidents_sub: "set (incidents d ts) \<subseteq> set ts"
  by (induction ts rule: rev_induct) (auto simp: incidents_simps)

lemma pc_failures_append [simp]: "pc_failures_of p (es @ fs) = pc_failures_of p es @ pc_failures_of p fs"
  by (induction p es rule: pc_failures_of.induct) auto

lemma pc_failures_in: "t \<in> set (pc_failures_of p es) \<Longrightarrow> Failure p t \<in> set es"
  by (induction p es rule: pc_failures_of.induct) (auto split: if_splits)

lemma failing_snoc: "failing (es @ [Failure p t]) = insert p (failing es)" "failing (es @ [Success p t]) = failing es"
  "failing (es @ [Asked p t]) = failing es"
  by (auto simp: failing_def)

lemma finite_failing [simp]: "finite (failing es)"
proof (induction es rule: rev_induct)
  case (snoc e es)
  then show ?case by (cases e) (simp_all add: failing_snoc)
qed (simp add: failing_def)

lemma new_circuit_ok: "settings_ok s \<Longrightarrow> new_circuit s = \<lparr>pc_settings = s, pc_entries = []\<rparr>"
  by (simp add: new_circuit_def settings_ok_def Let_def)

section \<open>The bound\<close>

definition stored_failure :: "pc_settings \<Rightarrow> gtime \<Rightarrow> pc_entry option \<Rightarrow> pc_entry" where
  "stored_failure s now e = (case e of None \<Rightarrow> fst (pc_count_failure s now zero_pc_entry)
     | Some x \<Rightarrow> if t_before now (pe_until x) then x\<lparr>pe_touched := now\<rparr> else fst (pc_count_failure s now x))"

lemma pc_record_failure_store:
  assumes "\<not> ps_disabled (pc_settings c)" and "0 < p"
  shows "snd (pc_record_failure visit p now c) = c\<lparr>pc_entries := gm_store (pc_ensure_capacity visit (pc_settings c) now) p
    (stored_failure (pc_settings c) now (gm_get (pc_entries c) p)) (pc_entries c)\<rparr>"
  using assms by (simp add: pc_record_failure_def stored_failure_def gm_store_def case_prod_unfold split: option.split)

abbreviation pc_map_ok :: "pc_circuit \<Rightarrow> bool" where
  "pc_map_ok c \<equiv> map_ok (\<lambda>p. 0 < p) (ps_max (pc_settings c)) (pc_entries c)"

lemma pc_step_ok:
  assumes "visits visit" and "0 < ps_max (pc_settings c)" and "pc_map_ok c"
  shows "pc_map_ok (pc_step visit ev c) \<and> pc_settings (pc_step visit ev c) = pc_settings c"
proof (cases ev)
  case (Failure p t)
  show ?thesis
  proof (cases "ps_disabled (pc_settings c) \<or> p \<le> 0")
    case True
    then show ?thesis using assms(3) Failure by (simp add: pc_record_failure_def)
  next
    case False
    let ?e = "stored_failure (pc_settings c) t (gm_get (pc_entries c) p)"
    have "pc_step visit ev c = c\<lparr>pc_entries := gm_store (pc_ensure_capacity visit (pc_settings c) t) p ?e (pc_entries c)\<rparr>"
      using pc_record_failure_store [of c p visit t] Failure False by simp
    moreover have "map_ok (\<lambda>p. 0 < p) (ps_max (pc_settings c)) (gm_store (pc_ensure_capacity visit (pc_settings c) t) p ?e (pc_entries c))"
      using pc.store_ok [of "(visit, pc_settings c, t)" "pc_entries c" p ?e] assms False by simp
    ultimately show ?thesis by simp
  qed
next
  case (Success p t)
  then show ?thesis using assms(3) map_ok_del [OF assms(3), of p] by (simp add: pc_record_success_def)
next
  case (Asked p t)
  then show ?thesis using assms(3) map_ok_del [OF assms(3), of p] by (simp add: pc_is_blocked_def split: option.split)
qed

lemma pc_run_ok:
  assumes "visits visit" and "0 < ps_max (pc_settings c)" and "pc_map_ok c"
  shows "pc_map_ok (pc_run visit es c) \<and> pc_settings (pc_run visit es c) = pc_settings c"
proof (induction es rule: rev_induct)
  case (snoc ev es)
  have eq: "pc_settings (pc_run visit es c) = pc_settings c" using snoc.IH by blast
  have "pc_map_ok (pc_step visit ev (pc_run visit es c)) \<and> pc_settings (pc_step visit ev (pc_run visit es c)) = pc_settings (pc_run visit es c)"
    by (rule pc_step_ok [OF assms(1)]) (use snoc.IH assms(2) in \<open>simp_all add: eq\<close>)
  then show ?case unfolding pc_run_simps eq .
qed (simp add: pc_run_simps assms)

text \<open>
whatever is reported of whatever proxies, and in whatever order the map is visited, the circuit never
holds more entries than its bound; and when a new proxy fails at a full map without stale entries,
exactly the least recently touched proxy is dropped for it.
\<close>

theorem circuit_bounded:
  assumes "visits visit"
  shows "int (gm_len (pc_entries (pc_run visit es (new_circuit s)))) \<le> ps_max (pc_settings (new_circuit s)) \<and>
    (\<forall>p now. let c = pc_run visit es (new_circuit s) in
       \<not> ps_disabled (pc_settings c) \<and> 0 < p \<and> gm_get (pc_entries c) p = None \<and>
       int (gm_len (filter (\<lambda>(q, e). \<not> pc_stale (pc_settings c) now e) (pc_entries c))) = ps_max (pc_settings c) \<longrightarrow>
       (\<exists>old. is_oldest pe_touched (pc_entries c) old \<and>
          (\<forall>q. gm_get (pc_entries (snd (pc_record_failure visit p now c))) q \<noteq> None \<longleftrightarrow> q = p \<or> q \<noteq> old \<and> gm_get (pc_entries c) q \<noteq> None)))"
proof -
  let ?c = "pc_run visit es (new_circuit s)"
  have max: "0 < ps_max (pc_settings (new_circuit s))"
    by (simp add: new_circuit_def Let_def default_circuit_max_def)
  have ok: "pc_map_ok ?c \<and> pc_settings ?c = pc_settings (new_circuit s)"
    by (rule pc_run_ok [OF assms max]) (use max in \<open>simp add: new_circuit_def Let_def\<close>)
  have "\<exists>old. is_oldest pe_touched (pc_entries ?c) old \<and>
      (\<forall>q. gm_get (pc_entries (snd (pc_record_failure visit p now ?c))) q \<noteq> None \<longleftrightarrow> q = p \<or> q \<noteq> old \<and> gm_get (pc_entries ?c) q \<noteq> None)"
    if "\<not> ps_disabled (pc_settings ?c)" "0 < p" "gm_get (pc_entries ?c) p = None"
      and full: "int (gm_len (filter (\<lambda>(q, e). \<not> pc_stale (pc_settings ?c) now e) (pc_entries ?c))) = ps_max (pc_settings ?c)" for p now
  proof -
    have absent: "pc_entries (snd (pc_record_failure visit p now ?c)) =
        gm_put p (fst (pc_count_failure (pc_settings ?c) now zero_pc_entry)) (pc_ensure_capacity visit (pc_settings ?c) now (pc_entries ?c))"
      using that(1-3) by (simp add: pc_record_failure_def case_prod_unfold)
    have "gm_len (filter (\<lambda>(q, e). \<not> pc_stale (pc_settings ?c) now e) (pc_entries ?c)) \<le> gm_len (pc_entries ?c)" by (rule length_filter_le)
    then have le: "\<not> int (gm_len (pc_entries ?c)) < ps_max (pc_settings ?c)" using full by linarith
    have pos: "0 < ps_max (pc_settings ?c)" using max ok by simp
    obtain old where "pc_ensure_capacity visit (pc_settings ?c) now (pc_entries ?c) = gm_del old (pc_entries ?c)"
        "is_oldest pe_touched (pc_entries ?c) old"
      using pc_ensure_cases [OF assms conjunct1 [OF ok] le _ pos, of now] full by auto
    then show ?thesis using absent by auto
  qed
  moreover have "int (gm_len (pc_entries ?c)) \<le> ps_max (pc_settings (new_circuit s))" using ok unfolding map_ok_def by metis
  ultimately show ?thesis unfolding Let_def by blast
qed

section \<open>One proxy\<close>

text \<open>The entry of a proxy after the failures \<open>ts\<close> within one window.\<close>

definition entry_after :: "pc_settings \<Rightarrow> gtime list \<Rightarrow> pc_entry option" where
  "entry_after s ts = (if ts = [] then None
     else (let inc = incidents (ps_collapse s) ts; k = nat (ps_threshold s) in
       if length inc < k
       then Some \<lparr>pe_count = int (length inc), pe_start = hd ts, pe_last = last inc, pe_until = zero_time, pe_touched = last ts\<rparr>
       else Some \<lparr>pe_count = int k, pe_start = hd ts, pe_last = inc ! (k - 1), pe_until = inc ! (k - 1) + ps_ttl s, pe_touched = last ts\<rparr>))"


lemma settings_sel: "settings_ok s \<Longrightarrow> 0 < nat (ps_threshold s)" "settings_ok s \<Longrightarrow> int (nat (ps_threshold s)) = ps_threshold s"
  by (auto simp: settings_ok_def)

lemma t_sub_within: "x - y \<le> w \<Longrightarrow> 0 < w \<Longrightarrow> in_int64 w \<Longrightarrow> \<not> t_sub x y > w"
  by (auto simp: t_sub_def in_int64_def min_int64_def max_int64_def)

lemma collapse_iff: "y \<le> x \<Longrightarrow> 0 \<le> d \<Longrightarrow> in_int64 d \<Longrightarrow> d > 0 \<and> t_sub x y \<ge> 0 \<and> t_sub x y < d \<longleftrightarrow> x - y < d"
  by (auto simp: t_sub_def in_int64_def min_int64_def max_int64_def)

lemma failure_first:
  assumes "settings_ok s" and "0 < t"
  shows "entry_after s [t] = Some (stored_failure s t None)"
proof -
  have inc: "incidents (ps_collapse s) [t] = [t]" by (simp add: incidents_def)
  have k: "length [t] < nat (ps_threshold s) \<longleftrightarrow> \<not> 1 \<ge> ps_threshold s" by (auto simp: nat_le_iff)
  have t1: "ps_threshold s \<le> 1 \<Longrightarrow> nat (ps_threshold s) = 1 \<and> ps_threshold s = 1" using assms(1) by (auto simp: settings_ok_def)
  show ?thesis
    unfolding entry_after_def stored_failure_def inc Let_def k
    using assms t1 by (simp add: pc_count_failure_def zero_pc_entry_def time_defs Let_def)
qed

lemma failure_next:
  assumes ok: "settings_ok s" and ts: "ts \<noteq> []" "\<forall>u\<in>set ts. 0 < u" "\<forall>u\<in>set ts. u \<le> t" and win: "t \<le> hd ts + ps_window s"
    and block: "nat (ps_threshold s) \<le> length (incidents (ps_collapse s) ts) \<longrightarrow> t < incidents (ps_collapse s) ts ! (nat (ps_threshold s) - 1) + ps_ttl s"
  shows "entry_after s (ts @ [t]) = Some (stored_failure s t (entry_after s ts))"
proof -
  let ?inc = "incidents (ps_collapse s) ts" and ?k = "nat (ps_threshold s)"
  have inc: "?inc \<noteq> []" using incidents_some ts(1) by blast
  then have last: "last ?inc \<in> set ts" using incidents_sub last_in_set by blast
  have k: "0 < ?k" "int ?k = ps_threshold s" using settings_sel [OF ok] by blast+
  have le: "last ?inc \<le> t" "hd ts \<le> t" using ts(1,3) last by auto
  have hd: "hd (ts @ [t]) = hd ts" using ts(1) by simp
  show ?thesis
  proof (cases "?k \<le> length ?inc")
    case True
    then have "incidents (ps_collapse s) (ts @ [t]) ! (?k - 1) = ?inc ! (?k - 1)" "?k \<le> length (incidents (ps_collapse s) (ts @ [t]))"
      using k(1) by (auto simp: incidents_simps nth_append)
    with True block k ts(1) show ?thesis
      by (simp add: entry_after_def stored_failure_def Let_def t_before_def)
  next
    case False
    let ?e = "\<lparr>pe_count = int (length ?inc), pe_start = hd ts, pe_last = last ?inc, pe_until = zero_time, pe_touched = last ts\<rparr>"
    have e: "entry_after s ts = Some ?e" using False ts(1) by (simp add: entry_after_def Let_def)
    have pos: "0 < hd ts" "0 < last ?inc" using ts(1,2) last by auto
    then have zero: "\<not> t_before t zero_time" "hd ts \<noteq> 0" "\<not> t < hd ts" "last ?inc \<noteq> 0" using le by (auto simp: time_defs)
    have win': "\<not> t_sub t (hd ts) > ps_window s" using t_sub_within [of t "hd ts"] win ok by (simp add: settings_ok_def)
    have col: "ps_collapse s > 0 \<and> t_sub t (last ?inc) \<ge> 0 \<and> t_sub t (last ?inc) < ps_collapse s \<longleftrightarrow> t - last ?inc < ps_collapse s"
      using collapse_iff [OF le(1), of "ps_collapse s"] ok by (simp add: settings_ok_def)
    have st: "stored_failure s t (Some ?e) = fst (pc_count_failure s t ?e)" using zero(1) by (simp add: stored_failure_def)
    show ?thesis
    proof (cases "t - last ?inc < ps_collapse s")
      case True
      then have "incidents (ps_collapse s) (ts @ [t]) = ?inc" using inc by (simp add: incidents_simps)
      with True False e st zero pos win' col show ?thesis
        by (simp add: entry_after_def pc_count_failure_def Let_def is_zero_time_def zero_time_def t_before_def hd)
    next
      case apart: False
      then have i: "incidents (ps_collapse s) (ts @ [t]) = ?inc @ [t]" using inc by (simp add: incidents_simps)
      have c: "fst (pc_count_failure s t ?e) = (let e = ?e\<lparr>pe_count := int (length ?inc) + 1, pe_last := t, pe_touched := t\<rparr>
          in if int (length ?inc) + 1 \<ge> ps_threshold s then e\<lparr>pe_until := t + ps_ttl s\<rparr> else e)"
        using apart zero pos win' col by (auto simp: pc_count_failure_def Let_def is_zero_time_def zero_time_def t_before_def t_add_def)
      have "Suc (length ?inc) < ?k \<longleftrightarrow> \<not> int (length ?inc) + 1 \<ge> ps_threshold s" using k(2) by linarith
      moreover have "?k = Suc (length ?inc)" if "int (length ?inc) + 1 \<ge> ps_threshold s" using that k(2) False by linarith
      ultimately show ?thesis unfolding e st c using i k(2)
        by (auto simp: entry_after_def Let_def hd)
    qed
  qed
qed

section \<open>A proxy in a history\<close>

definition pc_quiet :: "pc_settings \<Rightarrow> int64 \<Rightarrow> pc_event list \<Rightarrow> bool" where
  "pc_quiet s p es \<longleftrightarrow> sorted (map pc_time es) \<and> (\<forall>e\<in>set es. 0 < pc_time e) \<and> (\<forall>t. Success p t \<notin> set es) \<and>
     (\<forall>t\<in>set (pc_failures_of p es). t \<le> hd (pc_failures_of p es) + ps_window s) \<and>
     (let inc = incidents (ps_collapse s) (pc_failures_of p es); k = nat (ps_threshold s) in
        k \<le> length inc \<longrightarrow> (\<forall>e\<in>set es. pc_time e < inc ! (k - 1) + ps_ttl s))"

lemma incidents_prefix: "\<exists>us. incidents d (ts @ xs) = incidents d ts @ us"
proof (induction xs rule: rev_induct)
  case (snoc x xs)
  then show ?case using incidents_simps(2) [of d "ts @ xs" x] by auto
qed simp

lemma pc_quiet_prefix:
  assumes "pc_quiet s p (es @ [ev])" and "settings_ok s"
  shows "pc_quiet s p es"
proof -
  let ?ts = "pc_failures_of p es" and ?k = "nat (ps_threshold s)"
  obtain us where us: "incidents (ps_collapse s) (pc_failures_of p (es @ [ev])) = incidents (ps_collapse s) ?ts @ us"
    unfolding pc_failures_append using incidents_prefix by blast
  have "\<forall>t\<in>set ?ts. t \<le> hd ?ts + ps_window s"
    using assms(1) by (cases "?ts = []") (auto simp: pc_quiet_def hd_append)
  moreover have "\<forall>e\<in>set es. pc_time e < incidents (ps_collapse s) ?ts ! (?k - 1) + ps_ttl s"
    if k: "?k \<le> length (incidents (ps_collapse s) ?ts)"
  proof -
    have at: "?k - 1 < length (incidents (ps_collapse s) ?ts)" using k settings_sel(1) [OF assms(2)] by linarith
    have "(incidents (ps_collapse s) ?ts @ us) ! (?k - 1) = incidents (ps_collapse s) ?ts ! (?k - 1)"
      "?k \<le> length (incidents (ps_collapse s) ?ts @ us)" using at k unfolding nth_append by simp_all
    then show ?thesis using assms(1) unfolding pc_quiet_def Let_def us by simp
  qed
  ultimately show ?thesis using assms(1) by (auto simp: pc_quiet_def Let_def sorted_append)
qed

lemma circuit_history:
  assumes "visits visit" and "settings_ok s" and "pc_quiet s p es" and "0 < p" and "card (failing es) \<le> nat (ps_max s)"
  shows "pc_map_ok (pc_run visit es (new_circuit s)) \<and> pc_settings (pc_run visit es (new_circuit s)) = s \<and>
    fst ` set (pc_entries (pc_run visit es (new_circuit s))) \<subseteq> failing es \<and>
    gm_get (pc_entries (pc_run visit es (new_circuit s))) p = entry_after s (pc_failures_of p es)"
  using assms(3,5)
proof (induction es rule: rev_induct)
  case Nil
  then show ?case using assms(2) by (simp add: pc_run_simps new_circuit_ok entry_after_def settings_ok_def)
next
  case (snoc ev es)
  let ?c = "pc_run visit es (new_circuit s)" and ?c' = "pc_run visit (es @ [ev]) (new_circuit s)" and ?ts = "pc_failures_of p es"
  have sub: "failing es \<subseteq> failing (es @ [ev])" by (auto simp: failing_def)
  have q: "pc_quiet s p es" by (rule pc_quiet_prefix [OF snoc.prems(1) assms(2)])
  have "card (failing es) \<le> nat (ps_max s)" using card_mono [OF finite_failing sub] snoc.prems(2) by simp
  with snoc.IH q have IH: "pc_map_ok ?c" "pc_settings ?c = s" "fst ` set (pc_entries ?c) \<subseteq> failing es" "gm_get (pc_entries ?c) p = entry_after s ?ts"
    by blast+
  have c': "?c' = pc_step visit ev ?c" by (simp add: pc_run_simps)
  have "0 < ps_max (pc_settings ?c)" using IH(2) assms(2) by (simp add: settings_ok_def)
  from pc_step_ok [OF assms(1) this IH(1), of ev] have ok: "pc_map_ok ?c' \<and> pc_settings ?c' = s" unfolding c' [symmetric] IH(2) .
  have "fst ` set (pc_entries ?c') \<subseteq> failing (es @ [ev]) \<and> gm_get (pc_entries ?c') p = entry_after s (pc_failures_of p (es @ [ev]))"
  proof (cases ev)
    case (Failure r t)
    show ?thesis
    proof (cases "0 < r")
      case False
      then have "?c' = ?c" using c' Failure by (simp add: pc_record_failure_def)
      moreover have "r \<noteq> p" using False assms(4) by auto
      ultimately show ?thesis using IH(3,4) sub Failure by auto
    next
      case True
      let ?e = "stored_failure s t (gm_get (pc_entries ?c) r)"
      have "pc_entries ?c' = gm_store (pc_ensure_capacity visit s t) r ?e (pc_entries ?c)"
        using pc_record_failure_store [of ?c r visit t] True IH(2) assms(2) c' Failure by (simp add: settings_ok_def)
      also have "\<dots> = gm_put r ?e (pc_entries ?c)"
        using pc.store_fits [of "(visit, s, t)" "pc_entries ?c" "failing (es @ [ev])" r ?e] IH(1-3) sub snoc.prems(2) Failure assms(2)
        by (auto simp: failing_snoc settings_ok_def)
      finally have new: "pc_entries ?c' = gm_put r ?e (pc_entries ?c)" .
      have "gm_get (pc_entries ?c') p = entry_after s (pc_failures_of p (es @ [ev]))"
      proof (cases "r = p")
        case False
        then have "pc_failures_of p (es @ [ev]) = ?ts" using Failure by simp
        with IH(4) False show ?thesis by (simp add: new)
      next
        case True
        have t: "pc_failures_of p (es @ [ev]) = ?ts @ [t]" using True Failure by simp
        have times: "\<forall>u\<in>set ?ts. 0 < u \<and> u \<le> t" "0 < t"
          using snoc.prems(1) pc_failures_in [of _ p es] Failure by (force simp: pc_quiet_def sorted_append)+
        have "entry_after s (?ts @ [t]) = Some (stored_failure s t (entry_after s ?ts))"
        proof (cases "?ts = []")
          case True
          then show ?thesis using failure_first [OF assms(2) times(2)] by (simp add: entry_after_def)
        next
          case False
          show ?thesis
          proof (rule failure_next [OF assms(2) False])
            show "t \<le> hd ?ts + ps_window s" using snoc.prems(1) False unfolding pc_quiet_def t by simp
            show "nat (ps_threshold s) \<le> length (incidents (ps_collapse s) ?ts) \<longrightarrow>
                t < incidents (ps_collapse s) ?ts ! (nat (ps_threshold s) - 1) + ps_ttl s"
            proof
              assume k: "nat (ps_threshold s) \<le> length (incidents (ps_collapse s) ?ts)"
              obtain us where us: "incidents (ps_collapse s) (?ts @ [t]) = incidents (ps_collapse s) ?ts @ us" using incidents_prefix by blast
              have "nat (ps_threshold s) - 1 < length (incidents (ps_collapse s) ?ts)" using k settings_sel(1) [OF assms(2)] by linarith
              then show "t < incidents (ps_collapse s) ?ts ! (nat (ps_threshold s) - 1) + ps_ttl s"
                using snoc.prems(1) k Failure unfolding pc_quiet_def t us Let_def by (simp add: nth_append)
            qed
          qed (use times in auto)
        qed
        then show ?thesis using True IH(4) unfolding new t by simp
      qed
      moreover have fl: "failing (es @ [ev]) = insert r (failing es)" unfolding Failure by (rule failing_snoc)
      have "fst ` set (pc_entries ?c') \<subseteq> failing (es @ [ev])" unfolding new fst_update fl using IH(3) by blast
      ultimately show ?thesis by blast
    qed
  next
    case (Success r t)
    have "r \<noteq> p" using Success snoc.prems(1) by (auto simp: pc_quiet_def)
    have "pc_entries ?c' = pc_entries ?c \<or> pc_entries ?c' = gm_del r (pc_entries ?c)"
      using c' Success by (simp add: pc_record_success_def)
    from gm_kept [OF this] \<open>r \<noteq> p\<close> have kept: "fst ` set (pc_entries ?c') \<subseteq> fst ` set (pc_entries ?c)" "gm_get (pc_entries ?c') p = gm_get (pc_entries ?c) p" by blast+
    have "failing (es @ [ev]) = failing es" "pc_failures_of p (es @ [ev]) = ?ts" using Success by (simp_all add: failing_snoc)
    then show ?thesis using subset_trans [OF kept(1) IH(3)] IH(4) kept(2) by simp
  next
    case (Asked r t)
    have "pc_entries ?c' = pc_entries ?c \<or> pc_entries ?c' = gm_del r (pc_entries ?c)" and
      own: "r = p \<Longrightarrow> pc_entries ?c' = pc_entries ?c"
    proof -
      show "pc_entries ?c' = pc_entries ?c \<or> pc_entries ?c' = gm_del r (pc_entries ?c)"
        using c' Asked by (simp add: pc_is_blocked_def split: option.split)
      assume "r = p"
      have "t < incidents (ps_collapse s) ?ts ! (nat (ps_threshold s) - 1) + ps_ttl s"
        if "nat (ps_threshold s) \<le> length (incidents (ps_collapse s) ?ts)"
        using snoc.prems(1) that Asked by (simp add: pc_quiet_def Let_def)
      then show "pc_entries ?c' = pc_entries ?c"
        using c' Asked \<open>r = p\<close> by (simp add: pc_is_blocked_def IH(4)) (simp add: entry_after_def Let_def time_defs)
    qed
    from gm_kept [OF this(1)] this(2) have kept: "fst ` set (pc_entries ?c') \<subseteq> fst ` set (pc_entries ?c)" "gm_get (pc_entries ?c') p = gm_get (pc_entries ?c) p"
      by (blast, cases "r = p", simp, blast)
    have "failing (es @ [ev]) = failing es" "pc_failures_of p (es @ [ev]) = ?ts" using Asked by (simp_all add: failing_snoc)
    then show ?thesis using subset_trans [OF kept(1) IH(3)] IH(4) kept(2) by simp
  qed
  with ok show ?case by blast
qed


definition demo_settings :: pc_settings where
  "demo_settings = \<lparr>ps_disabled = False, ps_threshold = 2, ps_window = minute, ps_ttl = 10 * minute, ps_collapse = 3 * second, ps_max = 16\<rparr>"

definition demo_burst :: "pc_event list" where
  "demo_burst = [Failure 1 unix_epoch, Failure 1 (unix_epoch + second), Failure 2 (unix_epoch + second),
     Asked 1 (unix_epoch + 2 * second), Success 2 (unix_epoch + 3 * second), Failure 1 (unix_epoch + 5 * second)]"


theorem circuit_bounded_witness:
  "int (gm_len (pc_entries (pc_run (\<lambda>m. m) demo_burst (new_circuit demo_settings)))) \<le> ps_max (pc_settings (new_circuit demo_settings))"
  using circuit_bounded [OF visits_id, of demo_burst demo_settings] by blast

section \<open>The end of a quarantine\<close>

text \<open>
What re-admits a proxy after its quarantine is the question, not the time: when the quarantine ended
inside the failure window and the scheduler asked for the proxy since, one further incident does not
quarantine it (at a threshold above one), but without a question the same incident quarantines it again
at once, with the failures that the ended quarantine had already answered.
\<close>

theorem quarantine_end:
  assumes "visits visit" and "settings_ok s" and "pc_quiet s p es" and "0 < p" and "card (failing es) \<le> nat (ps_max s)"
    and "\<forall>e\<in>set es. pc_time e \<le> now" and "now \<le> hd (pc_failures_of p es) + ps_window s"
    and "nat (ps_threshold s) \<le> length (incidents (ps_collapse s) (pc_failures_of p es))" and "1 < ps_threshold s"
    and "incidents (ps_collapse s) (pc_failures_of p es) ! (nat (ps_threshold s) - 1) + ps_ttl s \<le> now"
    and "incidents (ps_collapse s) (pc_failures_of p es) ! (nat (ps_threshold s) - 1) + ps_collapse s \<le> now"
  shows "fst (pc_record_failure visit p now (pc_run visit es (new_circuit s))) = (True, now + ps_ttl s) \<and>
    fst (pc_record_failure visit p now (pc_run visit (es @ [Asked p now]) (new_circuit s))) = (False, zero_time)"
proof -
  let ?ts = "pc_failures_of p es" and ?c = "pc_run visit es (new_circuit s)"
  let ?inc = "incidents (ps_collapse s) ?ts" and ?k = "nat (ps_threshold s)"
  let ?t = "?inc ! (?k - 1)"
  note h = circuit_history [OF assms(1-5)]
  have k: "?k - 1 < length ?inc" using assms(8) settings_sel(1) [OF assms(2)] by linarith
  then have "?t \<in> set ?ts" using incidents_sub nth_mem by blast
  moreover have ts: "?ts \<noteq> []" using k by (auto simp: incidents_simps)
  moreover have pos: "0 < u" if "u \<in> set ?ts" for u using pc_failures_in [OF that] assms(3) by (force simp: pc_quiet_def)
  ultimately have tpos: "0 < ?t" "0 < hd ?ts" by auto
  let ?e = "\<lparr>pe_count = int ?k, pe_start = hd ?ts, pe_last = ?t, pe_until = ?t + ps_ttl s, pe_touched = last ?ts\<rparr>"
  have e: "gm_get (pc_entries ?c) p = Some ?e" using h assms(8) ts by (simp add: entry_after_def Let_def)
  have set: "pc_settings ?c = s" "\<not> ps_disabled s" using h assms(2) by (simp_all add: settings_ok_def)
  have ttl: "0 < ps_ttl s" and col: "in_int64 (ps_collapse s)" "0 \<le> ps_collapse s" using assms(2) by (simp_all add: settings_ok_def)
  have thr: "int ?k = ps_threshold s" using assms(9) by simp
  have "hd ?ts \<le> now"
  proof -
    have "Failure p (hd ?ts) \<in> set es" using ts by (intro pc_failures_in) simp
    with assms(6) show ?thesis by force
  qed
  moreover have "\<not> t_sub now (hd ?ts) > ps_window s" using t_sub_within [of now "hd ?ts"] assms(2,7) by (simp add: settings_ok_def)
  moreover have "\<not> (ps_collapse s > 0 \<and> t_sub now ?t \<ge> 0 \<and> t_sub now ?t < ps_collapse s)"
    using collapse_iff [OF _ col(2,1), of ?t now] assms(11) col(2) by linarith
  ultimately have cnt: "pc_count_failure s now ?e = (?e\<lparr>pe_count := int ?k + 1, pe_last := now, pe_touched := now, pe_until := now + ps_ttl s\<rparr>, True, now + ps_ttl s)"
    using tpos thr by (auto simp: pc_count_failure_def Let_def time_defs)
  have one: "fst (pc_record_failure visit p now ?c) = (True, now + ps_ttl s)"
    using set assms(4,10) e cnt by (simp add: pc_record_failure_def time_defs)
  have "pc_run visit (es @ [Asked p now]) (new_circuit s) = ?c\<lparr>pc_entries := gm_del p (pc_entries ?c)\<rparr>"
    using set assms(4,10) e tpos ttl by (simp add: pc_run_simps pc_is_blocked_def time_defs)
  moreover have "snd (pc_count_failure s now zero_pc_entry) = (False, zero_time)"
    using assms(9) by (simp add: pc_count_failure_def zero_pc_entry_def Let_def time_defs)
  ultimately have "fst (pc_record_failure visit p now (pc_run visit (es @ [Asked p now]) (new_circuit s))) = (False, zero_time)"
    using set assms(4) by (simp add: pc_record_failure_def case_prod_unfold)
  with one show ?thesis by blast
qed

definition demo_short :: pc_settings where
  "demo_short = demo_settings\<lparr>ps_ttl := 10 * second\<rparr>"

theorem quarantine_end_witness:
  "fst (pc_record_failure (\<lambda>m. m) 1 (unix_epoch + 30 * second) (pc_run (\<lambda>m. m) demo_burst (new_circuit demo_short))) =
     (True, unix_epoch + 40 * second)"
proof -
  have f: "pc_failures_of 1 demo_burst = [unix_epoch, unix_epoch + second, unix_epoch + 5 * second]" by (simp add: demo_burst_def)
  have inc: "incidents (3 * second) [unix_epoch, unix_epoch + second, unix_epoch + 5 * second] = [unix_epoch, unix_epoch + 5 * second]"
    by (simp add: incidents_def second_def)
  have "failing demo_burst = {1, 2}" by (auto simp: failing_def demo_burst_def)
  then have n: "card (failing demo_burst) \<le> nat (ps_max demo_short)" by (simp add: demo_settings_def demo_short_def)
  have ok: "settings_ok demo_short"
    by (simp add: settings_ok_def demo_settings_def demo_short_def minute_def second_def in_int64_def min_int64_def max_int64_def)
  have q: "pc_quiet demo_short 1 demo_burst"
    unfolding pc_quiet_def f by (simp add: demo_settings_def demo_short_def inc) (simp add: demo_burst_def minute_def second_def unix_epoch_def)
  have late: "\<forall>e\<in>set demo_burst. pc_time e \<le> unix_epoch + 30 * second" by (simp add: demo_burst_def second_def)
  have i: "incidents (ps_collapse demo_short) (pc_failures_of 1 demo_burst) = [unix_epoch, unix_epoch + 5 * second]"
    unfolding f by (simp add: demo_settings_def demo_short_def inc)
  have "fst (pc_record_failure (\<lambda>m. m) 1 (unix_epoch + 30 * second) (pc_run (\<lambda>m. m) demo_burst (new_circuit demo_short))) =
     (True, unix_epoch + 30 * second + ps_ttl demo_short)"
    by (rule conjunct1 [OF quarantine_end [OF visits_id ok q _ n late]], unfold i f)
      (simp_all add: incidents_def demo_settings_def demo_short_def minute_def second_def)
  then show ?thesis by (simp add: demo_short_def second_def)
qed

end
