(* ===== verification/Model_Transient.thy ===== *)
theory Model_Transient
  imports Evicting
begin

text \<open>
  \<open>backend/internal/service/openai_account_model_transient.go\<close>: the failure streak of every pair of account
  and model with its cool-down. The methods run under one mutex; the reading of the clock that a
  zero time is replaced with and the order in which the eviction visits the map are arguments.
\<close>

section \<open>State\<close>

definition streak_ttl :: gduration where "streak_ttl = 30 * minute"
definition short_cooldown :: gduration where "short_cooldown = 10 * second"
definition long_cooldown :: gduration where "long_cooldown = 45 * second"
definition transient_default_max :: int where "transient_default_max = 4096"
definition transient_max_model_bytes :: nat where "transient_max_model_bytes = 512"

record mt_key =
  mk_account :: int64
  mk_model :: string

record mt_entry =
  me_streak :: int
  me_last :: gtime
  me_until :: gtime
  me_touched :: gtime

record mt_decision =
  md_streak :: int
  md_cooldown :: gduration
  md_until :: gtime

record mt_state =
  ms_entries :: "(mt_key, mt_entry) gomap"
  ms_max :: int

definition zero_mt_entry :: mt_entry where
  "zero_mt_entry = \<lparr>me_streak = 0, me_last = zero_time, me_until = zero_time, me_touched = zero_time\<rparr>"

definition zero_decision :: mt_decision where
  "zero_decision = \<lparr>md_streak = 0, md_cooldown = 0, md_until = zero_time\<rparr>"

definition new_transient_state :: "int \<Rightarrow> mt_state" where
  "new_transient_state n = \<lparr>ms_entries = [], ms_max = (if n \<le> 0 then transient_default_max else n)\<rparr>"

definition normalize_transient_model :: "string \<Rightarrow> string" where
  "normalize_transient_model model =
     (let model = trim_space model in if length model > transient_max_model_bytes then [] else to_lower model)"

definition transient_key :: "int64 \<Rightarrow> string \<Rightarrow> mt_key option" where
  "transient_key account model = (let model = normalize_transient_model model in
     if account \<le> 0 \<or> model = [] then None else Some \<lparr>mk_account = account, mk_model = model\<rparr>)"

section \<open>Eviction\<close>

definition mt_oldest :: "(mt_key, mt_entry) gomap \<Rightarrow> (mt_key \<times> gtime) option" where
  "mt_oldest = foldl (\<lambda>acc (k, e). case acc of None \<Rightarrow> Some (k, me_touched e)
     | Some (oldest_key, oldest) \<Rightarrow> if t_before (me_touched e) oldest then Some (k, me_touched e) else acc) None"

definition mt_evict_oldest :: "((mt_key, mt_entry) gomap \<Rightarrow> (mt_key, mt_entry) gomap) \<Rightarrow> int \<Rightarrow>
    (mt_key, mt_entry) gomap \<Rightarrow> (mt_key, mt_entry) gomap" where
  "mt_evict_oldest visit bound m = (if int (gm_len m) < bound then m
     else (case mt_oldest (visit m) of None \<Rightarrow> m | Some (k, _) \<Rightarrow> gm_del k m))"

lemma mt_oldest_spec:
  "m \<noteq> [] \<Longrightarrow> \<exists>k e. mt_oldest m = Some (k, me_touched e) \<and> (k, e) \<in> set m \<and> (\<forall>(k', e')\<in>set m. me_touched e \<le> me_touched e')"
proof (induction m rule: rev_induct)
  case (snoc x m)
  obtain k e where x: "x = (k, e)" by (cases x)
  show ?case
  proof (cases "m = []")
    case True
    then show ?thesis by (simp add: x mt_oldest_def)
  next
    case False
    with snoc.IH obtain k0 e0 where e0: "mt_oldest m = Some (k0, me_touched e0)" "(k0, e0) \<in> set m"
        "\<forall>(k', e')\<in>set m. me_touched e0 \<le> me_touched e'"
      by blast
    have "mt_oldest (m @ [(k, e)]) = (if me_touched e < me_touched e0 then Some (k, me_touched e) else Some (k0, me_touched e0))"
      using e0(1) by (simp add: mt_oldest_def t_before_def)
    with e0(2,3) show ?thesis by (cases "me_touched e < me_touched e0") (force simp: x)+
  qed
qed simp

lemma mt_evict_cases:
  assumes "visits visit" and "map_ok (\<lambda>k. True) bound m" and "\<not> int (gm_len m) < bound" and "0 < bound"
  shows "\<exists>k. mt_evict_oldest visit bound m = gm_del k m \<and> is_oldest me_touched m k"
proof -
  have set: "set (visit m) = set m" using assms(1) by (rule visits_set)
  have "m \<noteq> []" using assms(3,4) by auto
  then have "visit m \<noteq> []" using set by auto
  from mt_oldest_spec [OF this] obtain k e where e: "mt_oldest (visit m) = Some (k, me_touched e)" "(k, e) \<in> set m"
      "\<forall>(k', e')\<in>set m. me_touched e \<le> me_touched e'"
    using set by auto
  have "is_oldest me_touched m k" by (rule is_oldestI [OF _ e(2,3)]) (use assms(2) in \<open>simp add: map_ok_def\<close>)
  with e(1) assms(3) show ?thesis by (auto simp: mt_evict_oldest_def)
qed

abbreviation mt_evict where "mt_evict c m \<equiv> (case c of (visit, bound) \<Rightarrow> mt_evict_oldest visit bound m)"
abbreviation mt_ready where "mt_ready c \<equiv> (case c of (visit, bound) \<Rightarrow> visits visit)"

interpretation mt: eviction "\<lambda>c. mt_evict c" "\<lambda>c. snd c" "\<lambda>k. True" "\<lambda>c. mt_ready c"
proof (unfold_locales)
  fix m :: "(mt_key, mt_entry) gomap" and c :: "((mt_key, mt_entry) gomap \<Rightarrow> (mt_key, mt_entry) gomap) \<times> int"
  obtain visit bound where c: "c = (visit, bound)" by (cases c)
  show "mt_evict c m = m" if "int (gm_len m) < snd c" using that by (simp add: c mt_evict_oldest_def)
  assume "mt_ready c" "map_ok (\<lambda>k. True) (snd c) m"
  then have ok: "visits visit" "map_ok (\<lambda>k. True) bound m" by (simp_all add: c)
  show "\<exists>P. mt_evict c m = filter P m"
    by (auto simp: c mt_evict_oldest_def gm_del_filter split: option.split intro: exI [of _ "\<lambda>x. True"])
  show "int (gm_len (mt_evict c m)) < snd c" if room: "0 < snd c"
  proof (cases "int (gm_len m) < bound")
    case True
    then show ?thesis by (simp add: c mt_evict_oldest_def)
  next
    case False
    then obtain k where k: "mt_evict_oldest visit bound m = gm_del k m" "is_oldest me_touched m k"
      using mt_evict_cases [OF ok] room unfolding c by auto
    have "gm_get m k \<noteq> None" using k(2) by (auto simp: is_oldest_def)
    then have "gm_len (gm_del k m) < gm_len m" using gm_len_del [of m k] ok(2) by (cases m) (auto simp: map_ok_def)
    with k(1) ok(2) show ?thesis by (simp add: c map_ok_def)
  qed
qed

section \<open>Operations\<close>

definition mt_cooldown :: "int \<Rightarrow> gduration" where
  "mt_cooldown streak = (if streak \<ge> 3 then long_cooldown else if streak = 2 then short_cooldown else 0)"

text \<open>One failure: the entry that is stored for it.\<close>

definition mt_count_failure :: "gtime \<Rightarrow> mt_entry option \<Rightarrow> mt_entry" where
  "mt_count_failure now e0 =
     (let e = (case e0 of None \<Rightarrow> zero_mt_entry | Some e \<Rightarrow> e);
          e = (if e0 = None \<or> is_zero_time (me_last e) \<or> t_sub now (me_last e) > streak_ttl \<or> t_before now (me_last e)
               then e\<lparr>me_streak := 0, me_until := zero_time\<rparr> else e);
          e = e\<lparr>me_streak := me_streak e + 1, me_last := now, me_touched := now\<rparr>;
          cooldown = mt_cooldown (me_streak e)
      in if cooldown > 0 then e\<lparr>me_until := t_add now cooldown\<rparr> else e\<lparr>me_until := zero_time\<rparr>)"

definition mt_record_failure :: "((mt_key, mt_entry) gomap \<Rightarrow> (mt_key, mt_entry) gomap) \<Rightarrow> gtime \<Rightarrow> int64 \<Rightarrow> string \<Rightarrow> gtime \<Rightarrow>
    mt_state \<Rightarrow> mt_decision \<times> mt_state" where
  "mt_record_failure visit wall account model now0 s0 = (case transient_key account model of
     None \<Rightarrow> (zero_decision, s0)
   | Some key \<Rightarrow>
       (let now = (if is_zero_time now0 then wall else now0);
            s = (if ms_max s0 \<le> 0 then s0\<lparr>ms_max := transient_default_max\<rparr> else s0);
            entry = gm_get (ms_entries s) key;
            m = (if entry = None then mt_evict_oldest visit (ms_max s) (ms_entries s) else ms_entries s);
            e = mt_count_failure now entry
        in (\<lparr>md_streak = me_streak e, md_cooldown = mt_cooldown (me_streak e), md_until = me_until e\<rparr>,
            s\<lparr>ms_entries := gm_put key e m\<rparr>)))"

definition mt_record_success :: "int64 \<Rightarrow> string \<Rightarrow> mt_state \<Rightarrow> mt_state" where
  "mt_record_success account model s = (case transient_key account model of None \<Rightarrow> s
     | Some key \<Rightarrow> s\<lparr>ms_entries := gm_del key (ms_entries s)\<rparr>)"

definition mt_is_blocked :: "gtime \<Rightarrow> int64 \<Rightarrow> string \<Rightarrow> gtime \<Rightarrow> mt_state \<Rightarrow> bool \<times> mt_state" where
  "mt_is_blocked wall account model now0 s = (case transient_key account model of None \<Rightarrow> (False, s)
     | Some key \<Rightarrow>
         (let now = (if is_zero_time now0 then wall else now0) in
          case gm_get (ms_entries s) key of None \<Rightarrow> (False, s)
          | Some e \<Rightarrow>
              if \<not> is_zero_time (me_last e) \<and> t_sub now (me_last e) > streak_ttl
              then (False, s\<lparr>ms_entries := gm_del key (ms_entries s)\<rparr>)
              else (\<not> is_zero_time (me_until e) \<and> t_before now (me_until e),
                    s\<lparr>ms_entries := gm_put key (e\<lparr>me_touched := now\<rparr>) (ms_entries s)\<rparr>)))"

definition mt_size :: "mt_state \<Rightarrow> nat" where "mt_size s = gm_len (ms_entries s)"

end
