(* ===== verification/Transient_Props.thy ===== *)
theory Transient_Props
  imports Model_Transient
begin

text \<open>
  The streaks of the pairs of account and model over histories: the map with its eviction and expiry answers
  as a counter of consecutive failures does.
\<close>

section \<open>Histories\<close>

datatype mt_event = MFailure int64 string gtime | MSuccess int64 string gtime | MAsked int64 string gtime

fun mt_time :: "mt_event \<Rightarrow> gtime" where
  "mt_time (MFailure a m t) = t" | "mt_time (MSuccess a m t) = t" | "mt_time (MAsked a m t) = t"



definition failed_pairs :: "mt_event list \<Rightarrow> mt_key set" where
  "failed_pairs es = {k. \<exists>a m t. MFailure a m t \<in> set es \<and> transient_key a m = Some k}"

text \<open>The number of failures since the lt success with pauses of at most the streak's lifetime, and the last of them.\<close>

fun streak_step :: "mt_key \<Rightarrow> int \<times> gtime \<Rightarrow> mt_event \<Rightarrow> int \<times> gtime" where
  "streak_step k (n, lt) (MFailure a m t) = (if transient_key a m \<noteq> Some k then (n, lt)
     else (if 0 < n \<and> t - lt \<le> streak_ttl then n + 1 else 1, t))"
| "streak_step k (n, lt) (MSuccess a m t) = (if transient_key a m \<noteq> Some k then (n, lt) else (0, lt))"
| "streak_step k (n, lt) (MAsked a m t) = (n, lt)"

definition streak_of :: "mt_key \<Rightarrow> mt_event list \<Rightarrow> int \<times> gtime" where
  "streak_of k = foldl (streak_step k) (0, 0)"


lemma streak_simps: "streak_of k [] = (0, 0)" "streak_of k (es @ [ev]) = streak_step k (streak_of k es) ev"
  by (simp_all add: streak_of_def)





section \<open>One pair\<close>

text \<open>An entry that holds a streak; no entry stands for a streak of zero or one that is too old.\<close>

definition streak_entry :: "mt_entry option \<Rightarrow> int \<times> gtime \<Rightarrow> gtime \<Rightarrow> bool" where
  "streak_entry e st now \<longleftrightarrow> (case st of (n, lt) \<Rightarrow> 0 \<le> n \<and> (case e of
     None \<Rightarrow> n = 0 \<or> lt + streak_ttl < now
   | Some x \<Rightarrow> 0 < n \<and> 0 < lt \<and> lt \<le> now \<and> me_streak x = n \<and> me_last x = lt \<and>
       me_until x = (if mt_cooldown n > 0 then lt + mt_cooldown n else zero_time)))"




section \<open>The bound\<close>

abbreviation mt_map_ok :: "mt_state \<Rightarrow> bool" where "mt_map_ok s \<equiv> map_ok (\<lambda>k. True) (ms_max s) (ms_entries s)"




section \<open>The counter in a history\<close>

definition mt_hist :: "int \<Rightarrow> mt_key \<Rightarrow> mt_event list \<Rightarrow> mt_state \<Rightarrow> bool" where
  "mt_hist cap k es s \<longleftrightarrow> mt_map_ok s \<and> ms_max s = cap \<and> fst ` set (ms_entries s) \<subseteq> failed_pairs es \<and>
     (\<forall>now. (\<forall>e\<in>set es. mt_time e \<le> now) \<longrightarrow> streak_entry (gm_get (ms_entries s) k) (streak_of k es) now)"

lemma mt_histI:
  assumes "mt_map_ok s" and "ms_max s = cap" and "fst ` set (ms_entries s) \<subseteq> failed_pairs (es @ [ev])"
    and "\<forall>e\<in>set es. mt_time e \<le> mt_time ev"
    and "\<And>now. mt_time ev \<le> now \<Longrightarrow> \<forall>e\<in>set es. mt_time e \<le> now \<Longrightarrow> streak_entry (gm_get (ms_entries s) k) (streak_step k (streak_of k es) ev) now"
  shows "mt_hist cap k (es @ [ev]) s"
  using assms by (simp add: mt_hist_def streak_simps)








end
