(* ===== verification/Keyword_Matcher.thy ===== *)
theory Keyword_Matcher
  imports Go_Errors "HOL-Library.Sublist" "HOL-Library.Char_ord"
begin

text \<open>
  \<open>backend/internal/service/content_moderation_keyword_matcher.go\<close>: the automaton that finds the first
  configured keyword contained in a text. The trie with its linked lists of edges, the breadth-first
  computation of the failure links, the packed edge array with its binary search and the scan are modelled
  over the arrays of the source, with \<open>-1\<close> where the source has it. \<open>strings.ToLower\<close> is the argument
  \<open>lower\<close>: nothing depends on the table of letters. A loop that follows links has as fuel the length of the
  array it walks; running out of it is \<open>None\<close>.
\<close>

section \<open>Data\<close>

record kw_node =
  kn_failure :: int
  kn_best :: int
  kn_start :: int
  kn_count :: int

record kw_edge =
  ke_target :: int
  ke_label :: char

record kw_build_edge =
  kb_target :: int
  kb_next :: int
  kb_label :: char

record kw_matcher =
  km_nodes :: "kw_node list"
  km_edges :: "kw_edge list"
  km_root :: "int list"
  km_keywords :: "string list"

definition uint32 :: "int \<Rightarrow> int" where "uint32 x = x mod 4294967296"
definition uint16 :: "int \<Rightarrow> int" where "uint16 x = x mod 65536"

definition kw_new_node :: kw_node where
  "kw_new_node = \<lparr>kn_failure = 0, kn_best = -1, kn_start = 0, kn_count = 0\<rparr>"

text \<open>A loop whose body may run out of fuel.\<close>

fun fold_opt :: "('s \<Rightarrow> 'a \<Rightarrow> 's option) \<Rightarrow> 'a list \<Rightarrow> 's \<Rightarrow> 's option" where
  "fold_opt f [] s = Some s"
| "fold_opt f (x # xs) s = Option.bind (f s x) (fold_opt f xs)"

definition min_keyword :: "int \<Rightarrow> int \<Rightarrow> int" where
  "min_keyword left right = (if left < 0 then right else if right < 0 \<or> left < right then left else right)"

section \<open>The trie\<close>

definition kw_first :: "kw_node \<Rightarrow> int" where
  "kw_first n = (if kn_start n = 0 then -1 else wrap32 (kn_start n - 1))"

text \<open>The edges that \<open>for i := first; i >= 0; i = edges[i].nextSibling\<close> visits.\<close>

fun kw_chain :: "nat \<Rightarrow> kw_build_edge list \<Rightarrow> int \<Rightarrow> kw_build_edge list option" where
  "kw_chain 0 edges i = None"
| "kw_chain (Suc n) edges i = (if i < 0 then Some []
     else map_option (\<lambda>es. (edges ! nat i) # es) (kw_chain n edges (kb_next (edges ! nat i))))"

definition kw_edges_of :: "kw_node list \<Rightarrow> kw_build_edge list \<Rightarrow> int \<Rightarrow> kw_build_edge list option" where
  "kw_edges_of nodes edges s = kw_chain (Suc (length edges)) edges (kw_first (nodes ! nat s))"

definition kw_transition :: "kw_node list \<Rightarrow> kw_build_edge list \<Rightarrow> int \<Rightarrow> char \<Rightarrow> int option" where
  "kw_transition nodes edges s c =
     (if s < 0 \<or> s \<ge> int (length nodes) then Some (-1)
      else map_option (\<lambda>es. case find (\<lambda>e. kb_label e = c) es of None \<Rightarrow> -1 | Some e \<Rightarrow> kb_target e) (kw_edges_of nodes edges s))"

definition kw_extend :: "kw_node list \<times> kw_build_edge list \<times> int \<Rightarrow> char \<Rightarrow> (kw_node list \<times> kw_build_edge list \<times> int) option" where
  "kw_extend st c = (case st of (nodes, edges, s) \<Rightarrow>
     map_option (\<lambda>nx. if nx < 0
       then (let nx = wrap32 (int (length nodes));
                 nodes1 = nodes @ [kw_new_node];
                 edges1 = edges @ [\<lparr>kb_target = nx, kb_next = kw_first (nodes1 ! nat s), kb_label = c\<rparr>];
                 nodes2 = nodes1[nat s := (nodes1 ! nat s)\<lparr>kn_start := uint32 (int (length edges1))\<rparr>]
             in (nodes2, edges1, nx))
       else (nodes, edges, nx)) (kw_transition nodes edges s c))"

definition kw_add :: "(string \<Rightarrow> string) \<Rightarrow> kw_node list \<times> kw_build_edge list \<Rightarrow> nat \<times> string \<Rightarrow>
    (kw_node list \<times> kw_build_edge list) option" where
  "kw_add lower t ik = (case (t, ik) of ((nodes, edges), (i, keyword)) \<Rightarrow>
     if keyword = [] then Some (nodes, edges)
     else map_option (\<lambda>(nodes, edges, s). (let current = kn_best (nodes ! nat s) in
          if current < 0 \<or> wrap32 (int i) < current
          then (nodes[nat s := (nodes ! nat s)\<lparr>kn_best := wrap32 (int i)\<rparr>], edges)
          else (nodes, edges))) (fold_opt kw_extend (lower keyword) (nodes, edges, 0)))"

definition kw_trie :: "(string \<Rightarrow> string) \<Rightarrow> string list \<Rightarrow> (kw_node list \<times> kw_build_edge list) option" where
  "kw_trie lower keywords = fold_opt (kw_add lower) (List.enumerate 0 keywords) ([kw_new_node], [])"

section \<open>The failure links\<close>

fun kw_fallback :: "nat \<Rightarrow> kw_node list \<Rightarrow> kw_build_edge list \<Rightarrow> int \<Rightarrow> char \<Rightarrow> int option" where
  "kw_fallback 0 nodes edges failure c = None"
| "kw_fallback (Suc n) nodes edges failure c = Option.bind (kw_transition nodes edges failure c) (\<lambda>fallback.
     if fallback < 0 \<and> failure \<noteq> 0 then kw_fallback n nodes edges (kn_failure (nodes ! nat failure)) c else Some fallback)"

definition kw_link :: "kw_build_edge list \<Rightarrow> int \<Rightarrow> kw_node list \<Rightarrow> kw_build_edge \<Rightarrow> kw_node list option" where
  "kw_link edges s nodes e =
     map_option (\<lambda>fallback.
       (let t = nat (kb_target e);
            nodes1 = (if fallback \<ge> 0 then nodes[t := (nodes ! t)\<lparr>kn_failure := fallback\<rparr>] else nodes)
        in nodes1[t := (nodes1 ! t)\<lparr>kn_best := min_keyword (kn_best (nodes1 ! t)) (kn_best (nodes1 ! nat (kn_failure (nodes1 ! t))))\<rparr>]))
     (kw_fallback (length nodes) nodes edges (kn_failure (nodes ! nat s)) (kb_label e))"

fun kw_bfs :: "nat \<Rightarrow> kw_build_edge list \<Rightarrow> kw_node list \<Rightarrow> int list \<Rightarrow> kw_node list option" where
  "kw_bfs 0 edges nodes queue = None"
| "kw_bfs (Suc n) edges nodes [] = Some nodes"
| "kw_bfs (Suc n) edges nodes (s # queue) = Option.bind (kw_edges_of nodes edges s) (\<lambda>es.
     Option.bind (fold_opt (kw_link edges s) es nodes) (\<lambda>nodes'. kw_bfs n edges nodes' (queue @ map kb_target es)))"

definition kw_roots :: "kw_build_edge list \<Rightarrow> int list" where
  "kw_roots es = foldl (\<lambda>root e. root[byte_of (kb_label e) := kb_target e]) (replicate 256 0) es"

section \<open>The packed edges\<close>

text \<open>One round of the insertion sort: the edges with larger labels move up by one place.\<close>

definition kw_place :: "kw_edge list \<Rightarrow> kw_edge \<Rightarrow> kw_edge list" where
  "kw_place out e = (let larger = (\<lambda>x. byte_of (ke_label e) < byte_of (ke_label x))
     in rev (takeWhile larger (rev out) @ e # dropWhile larger (rev out)))"

definition kw_sorted_edges :: "kw_build_edge list \<Rightarrow> kw_edge list" where
  "kw_sorted_edges es = foldl kw_place [] (map (\<lambda>e. \<lparr>ke_target = kb_target e, ke_label = kb_label e\<rparr>) es)"

definition kw_pack :: "kw_build_edge list \<Rightarrow> kw_node list \<times> kw_edge list \<Rightarrow> nat \<Rightarrow> (kw_node list \<times> kw_edge list) option" where
  "kw_pack edges st i = (case st of (nodes, packed) \<Rightarrow>
     map_option (\<lambda>es. (nodes[i := (nodes ! i)\<lparr>kn_start := uint32 (int (length packed)), kn_count := uint16 (int (length es))\<rparr>],
       packed @ kw_sorted_edges es)) (kw_edges_of nodes edges (int i)))"

definition new_matcher :: "(string \<Rightarrow> string) \<Rightarrow> string list \<Rightarrow> kw_matcher option option" where
  "new_matcher lower keywords =
     (if keywords = [] then Some None
      else Option.bind (kw_trie lower keywords) (\<lambda>(nodes, edges).
        if length nodes = 1 then Some None
        else Option.bind (kw_edges_of nodes edges 0) (\<lambda>roots.
          Option.bind (kw_bfs (length nodes) edges nodes (map kb_target roots)) (\<lambda>nodes'.
            map_option (\<lambda>(nodes'', packed). Some \<lparr>km_nodes = nodes'', km_edges = packed, km_root = kw_roots roots, km_keywords = keywords\<rparr>)
              (fold_opt (kw_pack edges) [0..<length nodes'] (nodes', []))))))"

section \<open>The scan\<close>

function kw_bsearch :: "kw_edge list \<Rightarrow> char \<Rightarrow> nat \<Rightarrow> nat \<Rightarrow> nat" where
  "kw_bsearch edges c left right =
     (if left < right then (let middle = left + (right - left) div 2 in
        if byte_of (ke_label (edges ! middle)) < byte_of c then kw_bsearch edges c (middle + 1) right
        else kw_bsearch edges c left middle)
      else left)"
  by pat_completeness auto
termination by (relation "measure (\<lambda>(edges, c, left, right). right - left)") auto

declare kw_bsearch.simps [simp del]

definition kw_next :: "kw_matcher \<Rightarrow> int \<Rightarrow> char \<Rightarrow> int" where
  "kw_next m s c =
     (if s = 0 then km_root m ! byte_of c
      else if s < 0 \<or> s \<ge> int (length (km_nodes m)) then 0
      else (let node = km_nodes m ! nat s; end = nat (kn_start node) + nat (kn_count node);
                left = kw_bsearch (km_edges m) c (nat (kn_start node)) end
            in if left < end \<and> ke_label (km_edges m ! left) = c then ke_target (km_edges m ! left) else 0))"

fun kw_step :: "nat \<Rightarrow> kw_matcher \<Rightarrow> int \<Rightarrow> char \<Rightarrow> int option" where
  "kw_step 0 m s c = None"
| "kw_step (Suc n) m s c = (let nx = kw_next m s c in
     if nx \<noteq> 0 then Some nx else if s = 0 then Some 0 else kw_step n m (kn_failure (km_nodes m ! nat s)) c)"

fun kw_scan :: "kw_matcher \<Rightarrow> string \<Rightarrow> int \<Rightarrow> int \<Rightarrow> int option" where
  "kw_scan m [] s best = Some best"
| "kw_scan m (c # cs) s best = Option.bind (kw_step (length (km_nodes m)) m s c) (\<lambda>s'.
     (let best' = min_keyword best (kn_best (km_nodes m ! nat s')) in if best' = 0 then Some 0 else kw_scan m cs s' best'))"

definition kw_match :: "(string \<Rightarrow> string) \<Rightarrow> kw_matcher option \<Rightarrow> string \<Rightarrow> (string \<times> bool) option" where
  "kw_match lower m text = (case m of None \<Rightarrow> Some ([], False)
     | Some m \<Rightarrow> if text = [] \<or> km_nodes m = [] \<or> km_keywords m = [] then Some ([], False)
         else map_option (\<lambda>best. if best < 0 \<or> best \<ge> int (length (km_keywords m)) then ([], False)
           else (km_keywords m ! nat best, True)) (kw_scan m (lower text) 0 (-1)))"

end
