(* ===== verification/Keyword_Trie.thy ===== *)
theory Keyword_Trie
  imports Keyword_Matcher
begin

text \<open>
  What the trie of the matcher holds: every node stands for a word, \<open>ws\<close> lists the words of the nodes,
  and the linked edges of a node lead to the words that extend it by one letter.
\<close>

lemma wrap32_id [simp]: "0 \<le> x \<Longrightarrow> x < 2147483648 \<Longrightarrow> wrap32 x = x"
  by (simp add: wrap32_def)

lemma uint32_id [simp]: "0 \<le> x \<Longrightarrow> x < 4294967296 \<Longrightarrow> uint32 x = x"
  by (simp add: uint32_def)

lemma fold_opt_append: "fold_opt f (xs @ ys) s = Option.bind (fold_opt f xs s) (fold_opt f ys)"
  by (induction xs arbitrary: s) (simp_all add: bind_eq_Some_conv split: bind_splits)

section \<open>Chains of edges\<close>

inductive chain_of :: "kw_build_edge list \<Rightarrow> int \<Rightarrow> kw_build_edge list \<Rightarrow> bool" for edges where
  chain_end: "i < 0 \<Longrightarrow> chain_of edges i []"
| chain_step: "0 \<le> i \<Longrightarrow> i < int (length edges) \<Longrightarrow> kb_next (edges ! nat i) < i \<Longrightarrow> chain_of edges (kb_next (edges ! nat i)) es \<Longrightarrow>
    chain_of edges i (edges ! nat i # es)"

inductive_cases chain_stepE: "chain_of edges i (e # es)"

lemma chain_run: "chain_of edges i es \<Longrightarrow> nat (i + 2) \<le> n \<Longrightarrow> 0 < n \<Longrightarrow> kw_chain n edges i = Some es"
proof (induction arbitrary: n rule: chain_of.induct)
  case (chain_end i)
  then show ?case by (cases n) simp_all
next
  case (chain_step i es)
  then obtain n' where n: "n = Suc n'" by (cases n) auto
  have "nat (kb_next (edges ! nat i) + 2) \<le> n'" "0 < n'" using chain_step.hyps(1,3) chain_step.prems(1) n by linarith+
  with chain_step.IH chain_step.hyps(1) show ?case by (simp add: n)
qed

lemma chain_bound: "chain_of edges i es \<Longrightarrow> i < int (length edges)"
  by (cases rule: chain_of.cases) auto

lemma chain_fuel: "chain_of edges i es \<Longrightarrow> kw_chain (Suc (length edges)) edges i = Some es"
  using chain_bound [of edges i es] chain_run [of edges i es "Suc (length edges)"] by simp

lemma chain_append: "chain_of edges i es \<Longrightarrow> chain_of (edges @ new) i es"
proof (induction rule: chain_of.induct)
  case (chain_step i es)
  have at: "(edges @ new) ! nat i = edges ! nat i" using chain_step.hyps(1,2) by (simp add: nth_append)
  show ?case
    using chain_of.chain_step [of i "edges @ new" es] chain_step.hyps chain_step.IH unfolding at by simp
qed (rule chain_of.chain_end)

section \<open>The trie invariant\<close>

definition children :: "string list \<Rightarrow> string \<Rightarrow> kw_build_edge list \<Rightarrow> bool" where
  "children ws w es \<longleftrightarrow> distinct (map kb_label es) \<and>
     (\<forall>e\<in>set es. 0 \<le> kb_target e \<and> nat (kb_target e) < length ws \<and> ws ! nat (kb_target e) = w @ [kb_label e]) \<and>
     (\<forall>c. w @ [c] \<in> set ws \<longrightarrow> c \<in> kb_label ` set es)"

definition trie_ok :: "string list \<Rightarrow> kw_node list \<Rightarrow> kw_build_edge list \<Rightarrow> bool" where
  "trie_ok ws nodes edges \<longleftrightarrow> length nodes = length ws \<and> ws \<noteq> [] \<and> ws ! 0 = [] \<and> distinct ws \<and> Suc (length edges) = length ws \<and>
     int (length ws) < 2147483648 \<and>
     (\<forall>i < length ws. ws ! i \<noteq> [] \<longrightarrow> butlast (ws ! i) \<in> set ws) \<and>
     (\<forall>i < length ws. \<exists>es. chain_of edges (kw_first (nodes ! i)) es \<and> children ws (ws ! i) es)"

lemma trie_sel:
  assumes "trie_ok ws nodes edges"
  shows "length nodes = length ws" "ws \<noteq> []" "ws ! 0 = []" "distinct ws" "int (length ws) < 2147483648" "Suc (length edges) = length ws"
  using assms by (simp_all add: trie_ok_def)

text \<open>The index of a word.\<close>

definition idx :: "string list \<Rightarrow> string \<Rightarrow> int" where
  "idx ws w = (case find (\<lambda>i. ws ! i = w) [0..<length ws] of None \<Rightarrow> -1 | Some i \<Rightarrow> int i)"

lemma idx_some: "distinct ws \<Longrightarrow> i < length ws \<Longrightarrow> idx ws (ws ! i) = int i"
proof -
  assume d: "distinct ws" and i: "i < length ws"
  have "find (\<lambda>j. ws ! j = ws ! i) [0..<length ws] = Some i"
    using d i by (auto simp: find_Some_iff nth_eq_iff_index_eq intro!: exI [of _ i])
  then show ?thesis by (simp add: idx_def)
qed

lemma idx_none: "w \<notin> set ws \<Longrightarrow> idx ws w = -1"
proof -
  assume "w \<notin> set ws"
  then have "find (\<lambda>i. ws ! i = w) [0..<length ws] = None" by (auto simp: find_None_iff)
  then show ?thesis by (simp add: idx_def)
qed

lemma idx_word:
  assumes "distinct ws" and "w \<in> set ws"
  shows "0 \<le> idx ws w \<and> nat (idx ws w) < length ws \<and> ws ! nat (idx ws w) = w"
proof -
  obtain i where "i < length ws" "ws ! i = w" using assms(2) by (auto simp: in_set_conv_nth)
  with idx_some [OF assms(1)] show ?thesis by fastforce
qed

lemma idx_root: "trie_ok ws nodes edges \<Longrightarrow> idx ws [] = 0"
  using idx_some [of ws 0] trie_sel [of ws nodes edges] by fastforce

lemma trie_root_in: "trie_ok ws nodes edges \<Longrightarrow> [] \<in> set ws"
  using trie_sel(2,3) [of ws nodes edges] nth_mem [of 0 ws] by simp

lemma idx_zero_iff: "trie_ok ws nodes edges \<Longrightarrow> w \<in> set ws \<Longrightarrow> idx ws w = 0 \<longleftrightarrow> w = []"
  using idx_root [of ws nodes edges] idx_word [of ws w] trie_sel [of ws nodes edges] by auto

lemma prefix_closed:
  assumes t: "trie_ok ws nodes edges" and "w @ v \<in> set ws"
  shows "w \<in> set ws"
  using assms(2)
proof (induction v rule: rev_induct)
  case (snoc c v)
  have "\<forall>u\<in>set ws. u \<noteq> [] \<longrightarrow> butlast u \<in> set ws" using t by (auto simp: trie_ok_def in_set_conv_nth)
  with snoc.prems have "butlast (w @ v @ [c]) \<in> set ws" by auto
  then show ?case using snoc.IH by (simp add: butlast_append)
qed simp

lemma edges_of_ok:
  assumes t: "trie_ok ws nodes edges" and "w \<in> set ws"
  shows "\<exists>es. kw_edges_of nodes edges (idx ws w) = Some es \<and> children ws w es"
proof -
  have i: "nat (idx ws w) < length ws" "ws ! nat (idx ws w) = w" using idx_word trie_sel(4) [OF t] assms(2) by blast+
  then obtain es where "chain_of edges (kw_first (nodes ! nat (idx ws w))) es" "children ws w es"
    using t by (auto simp: trie_ok_def)
  then show ?thesis using chain_fuel by (auto simp: kw_edges_of_def)
qed

lemma transition_ok:
  assumes t: "trie_ok ws nodes edges" and w: "w \<in> set ws"
  shows "kw_transition nodes edges (idx ws w) c = Some (idx ws (w @ [c]))"
proof -
  have i: "0 \<le> idx ws w" "idx ws w < int (length nodes)" using idx_word [OF trie_sel(4) [OF t] w] trie_sel(1) [OF t] by linarith+
  obtain es where es: "kw_edges_of nodes edges (idx ws w) = Some es" "children ws w es" using edges_of_ok [OF t w] by blast
  have "(case find (\<lambda>e. kb_label e = c) es of None \<Rightarrow> -1 | Some e \<Rightarrow> kb_target e) = idx ws (w @ [c])"
  proof (cases "find (\<lambda>e. kb_label e = c) es")
    case None
    then have "c \<notin> kb_label ` set es" by (auto simp: find_None_iff)
    then have "w @ [c] \<notin> set ws" using es(2) by (auto simp: children_def)
    with None show ?thesis by (simp add: idx_none)
  next
    case (Some e)
    then have "e \<in> set es" "kb_label e = c" by (auto simp: find_Some_iff)
    then have e: "0 \<le> kb_target e" "nat (kb_target e) < length ws" "ws ! nat (kb_target e) = w @ [c]" using es(2) by (auto simp: children_def)
    then have "idx ws (w @ [c]) = kb_target e" using idx_some [OF trie_sel(4) [OF t] e(2)] by simp
    with Some show ?thesis by simp
  qed
  with i es(1) show ?thesis by (simp add: kw_transition_def)
qed

section \<open>Extending the trie\<close>

lemma trie_init: "trie_ok [[]] [kw_new_node] []"
proof -
  have "chain_of [] (-1) []" by (rule chain_of.chain_end) simp
  then show ?thesis by (auto simp: trie_ok_def kw_first_def kw_new_node_def children_def intro!: exI [of _ "[]"])
qed

lemma extend_new:
  assumes t: "trie_ok ws nodes edges" and w: "w \<in> set ws" and new: "w @ [c] \<notin> set ws" and fits: "int (Suc (length ws)) < 2147483648"
  shows "\<exists>nodes' edges'. kw_extend (nodes, edges, idx ws w) c = Some (nodes', edges', int (length ws)) \<and> trie_ok (ws @ [w @ [c]]) nodes' edges' \<and>
    map kn_best nodes' = map kn_best nodes @ [-1] \<and> map kn_failure nodes' = map kn_failure nodes @ [0]"
proof -
  note s = trie_sel [OF t]
  define i where "i = nat (idx ws w)"
  have i: "i < length ws" "ws ! i = w" "idx ws w = int i" using idx_word [OF s(4) w] by (auto simp: i_def)
  let ?e = "\<lparr>kb_target = int (length ws), kb_next = kw_first (nodes ! i), kb_label = c\<rparr>"
  let ?edges = "edges @ [?e]" and ?ws = "ws @ [w @ [c]]"
  let ?node = "(nodes ! i)\<lparr>kn_start := int (length ?edges)\<rparr>"
  let ?nodes = "(nodes @ [kw_new_node])[i := ?node]"
  have run: "kw_extend (nodes, edges, idx ws w) c = Some (?nodes, ?edges, int (length ws))"
    using transition_ok [OF t w, of c] new i(1) s(1,5,6) fits by (simp add: kw_extend_def idx_none i(3) nth_append Let_def)
  have at: "?nodes ! j = (if j = i then ?node else if j < length ws then nodes ! j else kw_new_node)" if "j < length ?ws" for j
    using that i(1) s(1) by (auto simp: nth_list_update nth_append)
  have first: "kw_first ?node = int (length edges)" using s(5) s(6) [symmetric] by (simp add: kw_first_def)
  have kids: "children ?ws u es" if u: "children ws u es" "u \<noteq> w" for u es
    using u by (auto simp: children_def nth_append)
  have chains: "\<exists>es. chain_of ?edges (kw_first (?nodes ! j)) es \<and> children ?ws (?ws ! j) es" if j: "j < length ?ws" for j
  proof -
    consider "j = i" | "j < length ws" "j \<noteq> i" | "j = length ws" using j by fastforce
    then show ?thesis
    proof cases
      case 1
      obtain es where es: "chain_of edges (kw_first (nodes ! i)) es" "children ws w es" using t i by (auto simp: trie_ok_def)
      have "chain_of ?edges (int (length edges)) (?edges ! nat (int (length edges)) # es)"
        by (rule chain_of.chain_step) (use chain_append [OF es(1)] chain_bound [OF es(1)] in simp_all)
      moreover have "children ?ws w (?e # es)"
      proof -
        have "c \<notin> kb_label ` set es"
        proof
          assume "c \<in> kb_label ` set es"
          then obtain e where e: "e \<in> set es" "c = kb_label e" by blast
          have "nat (kb_target e) < length ws \<and> ws ! nat (kb_target e) = w @ [kb_label e]" using es(2) e(1) unfolding children_def by blast
          with new show False unfolding e(2) by (metis nth_mem)
        qed
        with es(2) show ?thesis by (auto simp: children_def nth_append)
      qed
      ultimately show ?thesis using 1 i at [OF j] first by (auto simp: nth_append)
    next
      case 2
      obtain es where es: "chain_of edges (kw_first (nodes ! j)) es" "children ws (ws ! j) es" using t 2 by (auto simp: trie_ok_def)
      have "ws ! j \<noteq> w" using 2 i s(4) by (metis nth_eq_iff_index_eq)
      with kids es chain_append [OF es(1)] at [OF j] 2 show ?thesis by (auto simp: nth_append)
    next
      case 3
      have "\<not> (w @ [c]) @ [d] \<in> set ?ws" for d
      proof
        assume "(w @ [c]) @ [d] \<in> set ?ws"
        then have "(w @ [c]) @ [d] \<in> set ws" by auto
        with prefix_closed [OF t this] new show False by blast
      qed
      then have "children ?ws (w @ [c]) []" by (auto simp: children_def)
      moreover have "chain_of ?edges (kw_first kw_new_node) []" by (simp add: kw_first_def kw_new_node_def chain_of.chain_end)
      ultimately show ?thesis using 3 at [OF j] i(1) by (auto simp: nth_append)
    qed
  qed
  have "\<forall>j < length ?ws. ?ws ! j \<noteq> [] \<longrightarrow> butlast (?ws ! j) \<in> set ?ws"
    using t w by (auto simp: trie_ok_def nth_append less_Suc_eq)
  with chains s new fits have "trie_ok ?ws ?nodes ?edges" by (simp add: trie_ok_def nth_append)
  moreover have "map kn_best ?nodes = map kn_best nodes @ [-1]" "map kn_failure ?nodes = map kn_failure nodes @ [0]"
    using i(1) s(1) by (simp_all add: map_update list_update_append nth_append kw_new_node_def) (simp_all add: list_update_same_conv)
  ultimately show ?thesis using run by blast
qed

text \<open>The word of a keyword is added letter by letter.\<close>

lemma extend_word:
  assumes t: "trie_ok ws nodes edges" and "w \<in> set ws" and "int (length ws + length v) < 2147483648"
  shows "\<exists>nodes' edges' vs. fold_opt kw_extend v (nodes, edges, idx ws w) = Some (nodes', edges', idx (ws @ vs) (w @ v)) \<and>
    trie_ok (ws @ vs) nodes' edges' \<and> w @ v \<in> set (ws @ vs) \<and> length vs \<le> length v \<and>
    map kn_best nodes' = map kn_best nodes @ replicate (length vs) (-1) \<and>
    map kn_failure nodes' = map kn_failure nodes @ replicate (length vs) 0"
  using assms
proof (induction v arbitrary: ws nodes edges w)
  case Nil
  then show ?case by (intro exI [of _ nodes] exI [of _ edges] exI [of _ "[]"]) simp
next
  case (Cons c v)
  note s = trie_sel [OF Cons.prems(1)]
  show ?case
  proof (cases "w @ [c] \<in> set ws")
    case True
    have "0 \<le> idx ws (w @ [c])" using idx_word [OF s(4) True] by blast
    then have "kw_extend (nodes, edges, idx ws w) c = Some (nodes, edges, idx ws (w @ [c]))"
      using transition_ok [OF Cons.prems(1,2), of c] by (simp add: kw_extend_def)
    moreover from Cons.IH [OF Cons.prems(1) True] Cons.prems(3) obtain nodes' edges' vs where
      r: "fold_opt kw_extend v (nodes, edges, idx ws (w @ [c])) = Some (nodes', edges', idx (ws @ vs) ((w @ [c]) @ v))"
        "trie_ok (ws @ vs) nodes' edges'" "(w @ [c]) @ v \<in> set (ws @ vs)" "length vs \<le> length v"
        "map kn_best nodes' = map kn_best nodes @ replicate (length vs) (-1)" "map kn_failure nodes' = map kn_failure nodes @ replicate (length vs) 0"
      by auto
    ultimately show ?thesis by (intro exI [of _ nodes'] exI [of _ edges'] exI [of _ vs]) simp
  next
    case False
    from extend_new [OF Cons.prems(1,2) False] Cons.prems(3) obtain nodes1 edges1 where
      e: "kw_extend (nodes, edges, idx ws w) c = Some (nodes1, edges1, int (length ws))" "trie_ok (ws @ [w @ [c]]) nodes1 edges1"
        "map kn_best nodes1 = map kn_best nodes @ [-1]" "map kn_failure nodes1 = map kn_failure nodes @ [0]"
      by auto
    have i: "idx (ws @ [w @ [c]]) (w @ [c]) = int (length ws)"
      using idx_some [OF trie_sel(4) [OF e(2)], of "length ws"] by simp
    from Cons.IH [OF e(2), of "w @ [c]"] Cons.prems(3) obtain nodes' edges' vs where
      r: "fold_opt kw_extend v (nodes1, edges1, int (length ws)) = Some (nodes', edges', idx ((ws @ [w @ [c]]) @ vs) ((w @ [c]) @ v))"
        "trie_ok ((ws @ [w @ [c]]) @ vs) nodes' edges'" "(w @ [c]) @ v \<in> set ((ws @ [w @ [c]]) @ vs)" "length vs \<le> length v"
        "map kn_best nodes' = map kn_best nodes1 @ replicate (length vs) (-1)" "map kn_failure nodes' = map kn_failure nodes1 @ replicate (length vs) 0"
      unfolding i by auto
    show ?thesis
      by (intro exI [of _ nodes'] exI [of _ edges'] exI [of _ "(w @ [c]) # vs"]) (use e r in simp)
  qed
qed

section \<open>The best keyword of a word\<close>

text \<open>The least index below \<open>n\<close> with a property, and \<open>-1\<close> when there is none.\<close>

definition least_idx :: "(nat \<Rightarrow> bool) \<Rightarrow> nat \<Rightarrow> int" where
  "least_idx P n = (case find P [0..<n] of None \<Rightarrow> -1 | Some i \<Rightarrow> int i)"

lemma least_idx_cases:
  obtains "\<forall>i < n. \<not> P i" "least_idx P n = -1"
    | k where "k < n" "P k" "\<forall>i < k. \<not> P i" "least_idx P n = int k"
proof (cases "find P [0..<n]")
  case None
  then have "\<forall>i < n. \<not> P i" by (auto simp: find_None_iff)
  moreover have "least_idx P n = -1" using None by (simp add: least_idx_def)
  ultimately show ?thesis by (rule that(1))
next
  case (Some k)
  then have "k < n" "P k" "\<forall>i < k. \<not> P i" by (auto simp: find_Some_iff)
  moreover have "least_idx P n = int k" using Some by (simp add: least_idx_def)
  ultimately show ?thesis by (rule that(2))
qed

lemma least_idxI: "k < n \<Longrightarrow> P k \<Longrightarrow> (\<And>i. i < k \<Longrightarrow> \<not> P i) \<Longrightarrow> least_idx P n = int k"
  by (cases rule: least_idx_cases [of n P]) (auto dest: linorder_neqE_nat)

lemma least_idx_none: "(\<And>i. i < n \<Longrightarrow> \<not> P i) \<Longrightarrow> least_idx P n = -1"
  by (cases rule: least_idx_cases [of n P]) auto

lemma least_idx_min: "least_idx (\<lambda>i. P i \<or> Q i) n = min_keyword (least_idx P n) (least_idx Q n)"
proof (cases rule: least_idx_cases [of n P]; cases rule: least_idx_cases [of n Q])
  fix k l assume *: "k < n" "P k" "\<forall>i < k. \<not> P i" "least_idx P n = int k" "l < n" "Q l" "\<forall>i < l. \<not> Q i" "least_idx Q n = int l"
  then have "least_idx (\<lambda>i. P i \<or> Q i) n = int (min k l)" by (intro least_idxI) (auto simp: min_def split: if_splits)
  with * show ?thesis by (simp add: min_keyword_def min_def)
qed (simp_all add: min_keyword_def least_idx_none least_idxI)

lemma least_idx_cong: "(\<And>i. i < n \<Longrightarrow> P i \<longleftrightarrow> Q i) \<Longrightarrow> least_idx P n = least_idx Q n"
  unfolding least_idx_def by (rule arg_cong [where f = "case_option (-1) int"]) (rule find_cong, simp_all)

lemma least_idx_range: "-1 \<le> least_idx P n \<and> least_idx P n < int n \<or> n = 0 \<and> least_idx P n = -1"
  by (cases rule: least_idx_cases [of n P]) auto

lemma least_idx_Suc: "least_idx P (Suc n) = (if least_idx P n < 0 \<and> P n then int n else least_idx P n)"
proof (cases rule: least_idx_cases [of n P])
  case 1
  then show ?thesis by (cases "P n") (auto intro!: least_idxI least_idx_none simp: less_Suc_eq)
next
  case (2 k)
  then show ?thesis by (auto intro!: least_idxI)
qed

text \<open>A keyword that is the word \<open>w\<close>; empty keywords are skipped.\<close>

definition own :: "(string \<Rightarrow> string) \<Rightarrow> string list \<Rightarrow> string \<Rightarrow> nat \<Rightarrow> bool" where
  "own lower kws w i \<longleftrightarrow> kws ! i \<noteq> [] \<and> lower (kws ! i) = w"

definition trie_for :: "(string \<Rightarrow> string) \<Rightarrow> string list \<Rightarrow> nat \<Rightarrow> string list \<Rightarrow> kw_node list \<Rightarrow> kw_build_edge list \<Rightarrow> bool" where
  "trie_for lower kws n ws nodes edges \<longleftrightarrow> trie_ok ws nodes edges \<and> map kn_failure nodes = replicate (length ws) 0 \<and>
     (\<forall>i < length ws. kn_best (nodes ! i) = least_idx (own lower kws (ws ! i)) n) \<and>
     (\<forall>i < n. kws ! i \<noteq> [] \<longrightarrow> lower (kws ! i) \<in> set ws)"

lemma trie_best_update:
  assumes "trie_ok ws nodes edges"
  shows "trie_ok ws (nodes[i := (nodes ! i)\<lparr>kn_best := b\<rparr>]) edges"
proof -
  have "kw_first (nodes[i := (nodes ! i)\<lparr>kn_best := b\<rparr>] ! j) = kw_first (nodes ! j)" if "j < length nodes" for j
    using that by (cases "i = j") (simp_all add: kw_first_def)
  with assms show ?thesis by (simp add: trie_ok_def)
qed

lemma add_ok:
  assumes t: "trie_for lower kws n ws nodes edges" and n: "n < length kws" "int n < 2147483648"
    and fits: "int (length ws + length (lower (kws ! n))) < 2147483648"
  shows "\<exists>nodes' edges' ws'. kw_add lower (nodes, edges) (n, kws ! n) = Some (nodes', edges') \<and> trie_for lower kws (Suc n) ws' nodes' edges' \<and>
    length ws' \<le> length ws + length (lower (kws ! n))"
proof (cases "kws ! n = []")
  case True
  then have "trie_for lower kws (Suc n) ws nodes edges" using t
    by (auto simp: trie_for_def least_idx_Suc own_def less_Suc_eq)
  with True show ?thesis by (auto simp: kw_add_def)
next
  case False
  have ok: "trie_ok ws nodes edges" using t by (simp add: trie_for_def)
  let ?v = "lower (kws ! n)"
  obtain nodes1 edges1 vs where r: "fold_opt kw_extend ?v (nodes, edges, 0) = Some (nodes1, edges1, idx (ws @ vs) ?v)"
      "trie_ok (ws @ vs) nodes1 edges1" "?v \<in> set (ws @ vs)" "length vs \<le> length ?v"
      "map kn_best nodes1 = map kn_best nodes @ replicate (length vs) (-1)" "map kn_failure nodes1 = map kn_failure nodes @ replicate (length vs) 0"
    using extend_word [OF ok trie_root_in [OF ok] fits] idx_root [OF ok] by auto
  let ?ws = "ws @ vs"
  note s = trie_sel [OF r(2)]
  define j where "j = nat (idx ?ws ?v)"
  have j: "j < length ?ws" "?ws ! j = ?v" "idx ?ws ?v = int j" using idx_word [OF s(4) r(3)] by (auto simp: j_def)
  have best: "kn_best (nodes1 ! i) = least_idx (own lower kws (?ws ! i)) n" if "i < length ?ws" for i
  proof -
    have "kn_best (nodes1 ! i) = map kn_best nodes1 ! i" using that s(1) by simp
    also have "\<dots> = (if i < length ws then kn_best (nodes ! i) else -1)"
      unfolding r(5) using that trie_sel(1) [OF ok] by (auto simp: nth_append)
    also have "\<dots> = least_idx (own lower kws (?ws ! i)) n"
    proof (cases "i < length ws")
      case True
      then show ?thesis using t by (simp add: trie_for_def nth_append)
    next
      case out: False
      have "?ws ! i \<notin> set ws" using s(4) that out by (auto simp: nth_append)
      then have "\<not> own lower kws (?ws ! i) k" if "k < n" for k using t that by (auto simp: trie_for_def own_def)
      with out show ?thesis by (simp add: least_idx_none)
    qed
    finally show ?thesis .
  qed
  let ?b = "kn_best (nodes1 ! j)"
  have b: "?b < 0 \<or> ?b < int n" using best [OF j(1)] least_idx_range [of "own lower kws (?ws ! j)" n] by auto
  define nodes2 where "nodes2 = (if ?b < 0 then nodes1[j := (nodes1 ! j)\<lparr>kn_best := int n\<rparr>] else nodes1)"
  have run: "kw_add lower (nodes, edges) (n, kws ! n) = Some (nodes2, edges1)"
    using False r(1) j(3) b n(2) by (auto simp: kw_add_def nodes2_def Let_def)
  have "trie_ok ?ws nodes2 edges1" using r(2) trie_best_update by (simp add: nodes2_def)
  moreover have "map kn_failure nodes2 = map kn_failure nodes1" using j(1) s(1) by (simp add: nodes2_def map_update list_update_same_conv)
  then have "map kn_failure nodes2 = replicate (length ?ws) 0" using t r(6) by (simp add: trie_for_def replicate_add)
  moreover have "kn_best (nodes2 ! i) = least_idx (own lower kws (?ws ! i)) (Suc n)" if i: "i < length ?ws" for i
  proof (cases "i = j")
    case True
    have "own lower kws (?ws ! j) n" using False j(2) by (simp add: own_def)
    with True best [OF j(1)] j(1) s(1) show ?thesis by (simp add: nodes2_def least_idx_Suc)
  next
    case neq: False
    then have "\<not> own lower kws (?ws ! i) n" using j i s(4) by (auto simp: own_def nth_eq_iff_index_eq)
    with neq best [OF i] show ?thesis by (simp add: nodes2_def least_idx_Suc)
  qed
  moreover have "lower (kws ! i) \<in> set ?ws" if "i < Suc n" "kws ! i \<noteq> []" for i
    using that t r(3) by (auto simp: trie_for_def less_Suc_eq)
  ultimately have "trie_for lower kws (Suc n) ?ws nodes2 edges1" by (simp add: trie_for_def)
  with run r(4) show ?thesis by auto
qed

lemma trie_built:
  assumes "int (Suc (sum_list (map (\<lambda>k. length (lower k)) kws))) < 2147483648" and "int (length kws) < 2147483648"
  shows "\<exists>nodes edges ws. kw_trie lower kws = Some (nodes, edges) \<and> trie_for lower kws (length kws) ws nodes edges"
proof -
  have "\<exists>nodes edges ws. fold_opt (kw_add lower) (List.enumerate 0 (take n kws)) ([kw_new_node], []) = Some (nodes, edges) \<and>
      trie_for lower kws n ws nodes edges \<and> length ws \<le> Suc (sum_list (map (\<lambda>k. length (lower k)) (take n kws)))"
    if "n \<le> length kws" for n
    using that
  proof (induction n)
    case 0
    have "trie_for lower kws 0 [[]] [kw_new_node] []"
      using trie_init by (simp add: trie_for_def kw_new_node_def least_idx_def)
    then show ?case by auto
  next
    case (Suc n)
    then obtain nodes edges ws where IH: "fold_opt (kw_add lower) (List.enumerate 0 (take n kws)) ([kw_new_node], []) = Some (nodes, edges)"
        "trie_for lower kws n ws nodes edges" "length ws \<le> Suc (sum_list (map (\<lambda>k. length (lower k)) (take n kws)))"
      by auto
    have n: "n < length kws" using Suc.prems by simp
    have "sum_list (map (\<lambda>k. length (lower k)) (take (Suc n) kws)) \<le> sum_list (map (\<lambda>k. length (lower k)) kws)"
    proof -
      have "sum_list (map f kws) = sum_list (map f (take m kws)) + sum_list (map f (drop m kws))" for f :: "string \<Rightarrow> nat" and m
        by (metis append_take_drop_id map_append sum_list_append)
      from this [of "\<lambda>k. length (lower k)" "Suc n"] show ?thesis by linarith
    qed
    then have "int (length ws + length (lower (kws ! n))) < 2147483648" "int n < 2147483648"
      using IH(3) assms n by (simp_all add: take_Suc_conv_app_nth)
    from add_ok [OF IH(2) n this(2,1)] obtain nodes' edges' ws' where
      a: "kw_add lower (nodes, edges) (n, kws ! n) = Some (nodes', edges')" "trie_for lower kws (Suc n) ws' nodes' edges'"
        "length ws' \<le> length ws + length (lower (kws ! n))"
      by blast
    have "fold_opt (kw_add lower) (List.enumerate 0 (take (Suc n) kws)) ([kw_new_node], []) = Some (nodes', edges')"
      using IH(1) a(1) n by (simp add: take_Suc_conv_app_nth enumerate_append_eq fold_opt_append)
    with a(2,3) IH(3) n show ?case by (auto simp: take_Suc_conv_app_nth)
  qed
  from this [of "length kws"] show ?thesis by (auto simp: kw_trie_def)
qed

end
