(* ===== verification/Keyword_Failure.thy ===== *)
theory Keyword_Failure
  imports Keyword_Trie
begin

text \<open>
  The failure links: the breadth-first pass gives every word its longest proper suffix in the trie and the
  best keyword that ends there.
\<close>

section \<open>The longest suffix in the trie\<close>

fun lsuf :: "string list \<Rightarrow> string \<Rightarrow> string" where
  "lsuf ws u = (if u \<in> set ws then u else (case u of [] \<Rightarrow> [] | c # v \<Rightarrow> lsuf ws v))"

declare lsuf.simps [simp del]

definition failword :: "string list \<Rightarrow> string \<Rightarrow> string" where "failword ws u = lsuf ws (tl u)"

lemma lsuf_id: "u \<in> set ws \<Longrightarrow> lsuf ws u = u"
  by (simp add: lsuf.simps [of ws u])

lemma lsuf_Cons: "c # u \<notin> set ws \<Longrightarrow> lsuf ws (c # u) = lsuf ws u"
  by (simp add: lsuf.simps [of ws "c # u"])

lemma lsuf_Nil [simp]: "lsuf ws [] = []"
  by (simp add: lsuf.simps [of ws "[]"])

lemma lsuf_in: "[] \<in> set ws \<Longrightarrow> lsuf ws u \<in> set ws"
proof (induction u)
  case (Cons c u)
  then show ?case by (cases "c # u \<in> set ws") (simp_all add: lsuf_id lsuf_Cons)
qed simp

lemma lsuf_suffix: "suffix (lsuf ws u) u"
proof (induction u)
  case (Cons c u)
  then show ?case by (cases "c # u \<in> set ws") (simp_all add: lsuf_id lsuf_Cons suffix_ConsI)
qed simp

lemma lsuf_greatest: "v \<in> set ws \<Longrightarrow> suffix v u \<Longrightarrow> suffix v (lsuf ws u)"
proof (induction u)
  case (Cons c u)
  show ?case
  proof (cases "c # u \<in> set ws")
    case True
    with Cons.prems show ?thesis by (simp add: lsuf_id)
  next
    case False
    then have "v \<noteq> c # u" using Cons.prems(1) by blast
    then have "suffix v u" using Cons.prems(2) by (auto simp: suffix_Cons)
    with Cons.IH Cons.prems(1) False show ?thesis by (simp add: lsuf_Cons)
  qed
qed simp

lemma lsuf_snoc_closed:
  assumes root: "[] \<in> set ws" and closed: "\<And>u v. u @ v \<in> set ws \<Longrightarrow> u \<in> set ws"
  shows "lsuf ws (u @ [c]) = lsuf ws (lsuf ws u @ [c])"
proof (rule suffix_order.antisym)
  let ?a = "lsuf ws (u @ [c])" and ?b = "lsuf ws (lsuf ws u @ [c])"
  have "suffix ?b (lsuf ws u @ [c])" by (rule lsuf_suffix)
  moreover have "suffix (lsuf ws u @ [c]) (u @ [c])" using lsuf_suffix by simp
  ultimately show "suffix ?b ?a" using lsuf_greatest [OF lsuf_in [OF root]] suffix_order.trans by blast
  show "suffix ?a ?b"
  proof (cases "?a = []")
    case False
    have "suffix ?a (u @ [c])" by (rule lsuf_suffix)
    with False obtain a where a: "?a = a @ [c]" "suffix a u" by (auto simp: suffix_snoc)
    have "a \<in> set ws" by (rule closed [of a "[c]"]) (metis a(1) lsuf_in root)
    then have "suffix ?a (lsuf ws u @ [c])" unfolding a(1) using lsuf_greatest a(2) by simp
    then show ?thesis by (rule lsuf_greatest [OF lsuf_in [OF root]])
  qed simp
qed

lemma lsuf_fail_closed:
  assumes root: "[] \<in> set ws" and closed: "\<And>u v. u @ v \<in> set ws \<Longrightarrow> u \<in> set ws" and "v @ [c] \<notin> set ws" and "v \<noteq> []"
  shows "lsuf ws (v @ [c]) = lsuf ws (failword ws v @ [c])"
proof -
  obtain d u where v: "v = d # u" using assms(4) by (cases v) auto
  have "lsuf ws (v @ [c]) = lsuf ws (u @ [c])" using assms(3) unfolding v by (simp add: lsuf_Cons)
  also have "\<dots> = lsuf ws (lsuf ws u @ [c])" by (rule lsuf_snoc_closed [OF root closed])
  finally show ?thesis by (simp add: failword_def v)
qed

lemma lsuf_snoc: "trie_ok ws nodes edges \<Longrightarrow> lsuf ws (u @ [c]) = lsuf ws (lsuf ws u @ [c])"
  by (rule lsuf_snoc_closed [OF trie_root_in]) (assumption, rule prefix_closed)

lemma lsuf_fail: "trie_ok ws nodes edges \<Longrightarrow> v @ [c] \<notin> set ws \<Longrightarrow> v \<noteq> [] \<Longrightarrow> lsuf ws (v @ [c]) = lsuf ws (failword ws v @ [c])"
  by (rule lsuf_fail_closed [OF trie_root_in]) (assumption, rule prefix_closed)

lemma lsuf_miss: "[c] \<notin> set ws \<Longrightarrow> lsuf ws [c] = []"
  by (simp add: lsuf_Cons)

lemma failword_in: "trie_ok ws nodes edges \<Longrightarrow> failword ws u \<in> set ws"
  unfolding failword_def by (rule lsuf_in [OF trie_root_in])

lemma failword_less: "u \<noteq> [] \<Longrightarrow> length (failword ws u) < length u"
  using suffix_length_le [OF lsuf_suffix [of ws "tl u"]] by (cases u) (simp_all add: failword_def)

lemma length_word:
  assumes t: "trie_ok ws nodes edges" and "w \<in> set ws"
  shows "length w < length ws"
proof -
  let ?p = "\<lambda>k. take k w"
  have "?p k \<in> set ws" for k using prefix_closed [OF t, of "take k w" "drop k w"] assms(2) by simp
  then have "?p ` {..length w} \<subseteq> set ws" by blast
  moreover have "inj_on ?p {..length w}" by (rule inj_onI) (metis atMost_iff length_take min.absorb2)
  ultimately have "card {..length w} \<le> card (set ws)" by (metis List.finite_set card_image card_mono)
  also have "\<dots> = length ws" using trie_sel(4) [OF t] by (rule distinct_card)
  finally show ?thesis by simp
qed

section \<open>Settled nodes\<close>

text \<open>A keyword that ends where the word ends.\<close>

definition ends :: "(string \<Rightarrow> string) \<Rightarrow> string list \<Rightarrow> string \<Rightarrow> nat \<Rightarrow> bool" where
  "ends lower kws w i \<longleftrightarrow> kws ! i \<noteq> [] \<and> suffix (lower (kws ! i)) w"

definition settled :: "(string \<Rightarrow> string) \<Rightarrow> string list \<Rightarrow> string list \<Rightarrow> kw_node list \<Rightarrow> string \<Rightarrow> bool" where
  "settled lower kws ws nodes u \<longleftrightarrow> kn_failure (nodes ! nat (idx ws u)) = idx ws (failword ws u) \<and>
     kn_best (nodes ! nat (idx ws u)) = least_idx (ends lower kws u) (length kws)"

definition fresh :: "(string \<Rightarrow> string) \<Rightarrow> string list \<Rightarrow> string list \<Rightarrow> kw_node list \<Rightarrow> string \<Rightarrow> bool" where
  "fresh lower kws ws nodes u \<longleftrightarrow> kn_failure (nodes ! nat (idx ws u)) = 0 \<and>
     kn_best (nodes ! nat (idx ws u)) = least_idx (own lower kws u) (length kws)"

definition words_ok :: "(string \<Rightarrow> string) \<Rightarrow> string list \<Rightarrow> string list \<Rightarrow> bool" where
  "words_ok lower kws ws \<longleftrightarrow> (\<forall>i < length kws. kws ! i \<noteq> [] \<longrightarrow> lower (kws ! i) \<in> set ws \<and> lower (kws ! i) \<noteq> [])"

lemma ends_own:
  assumes ok: "words_ok lower kws ws" and i: "i < length kws" and "u \<noteq> []"
  shows "ends lower kws u i \<longleftrightarrow> own lower kws u i \<or> ends lower kws (failword ws u) i"
proof
  obtain d v where u: "u = d # v" using assms(3) by (cases u) auto
  show "own lower kws u i \<or> ends lower kws (failword ws u) i" if "ends lower kws u i"
  proof (cases "lower (kws ! i) = u")
    case True
    with that show ?thesis by (simp add: ends_def own_def)
  next
    case False
    then have "suffix (lower (kws ! i)) v" using that by (auto simp: ends_def u suffix_Cons)
    moreover have "lower (kws ! i) \<in> set ws" using ok i that by (simp add: words_ok_def ends_def)
    ultimately show ?thesis using that lsuf_greatest by (simp add: ends_def failword_def u)
  qed
  have "suffix (failword ws u) u"
    using lsuf_suffix [of ws v] by (simp add: failword_def u suffix_ConsI)
  then show "ends lower kws u i" if "own lower kws u i \<or> ends lower kws (failword ws u) i"
    using that suffix_order.trans by (auto simp: ends_def own_def)
qed

lemma best_ends:
  assumes "words_ok lower kws ws" and "u \<noteq> []"
  shows "least_idx (ends lower kws u) (length kws) =
    min_keyword (least_idx (own lower kws u) (length kws)) (least_idx (ends lower kws (failword ws u)) (length kws))"
  unfolding least_idx_min [symmetric] by (rule least_idx_cong) (rule ends_own [OF assms(1) _ assms(2)])

lemma ends_Nil: "words_ok lower kws ws \<Longrightarrow> least_idx (ends lower kws []) (length kws) = -1"
  by (rule least_idx_none) (auto simp: words_ok_def ends_def)

text \<open>The words of one letter and the root are settled before the pass begins.\<close>

lemma fresh_settled:
  assumes t: "trie_ok ws nodes edges" and ok: "words_ok lower kws ws" and "butlast u = []" and f: "fresh lower kws ws nodes u"
  shows "settled lower kws ws nodes u"
proof -
  have "failword ws u = []" using assms(3) by (cases u) (auto simp: failword_def split: if_splits)
  moreover have "least_idx (own lower kws u) (length kws) = least_idx (ends lower kws u) (length kws)"
  proof (cases "u = []")
    case True
    then show ?thesis using ends_Nil [OF ok] least_idx_none [of "length kws" "own lower kws []"] ok by (auto simp: own_def words_ok_def)
  next
    case False
    have "min_keyword x (-1) = x" if "-1 \<le> x" for x using that by (auto simp: min_keyword_def)
    moreover have "-1 \<le> least_idx (own lower kws u) (length kws)" using least_idx_range [of "own lower kws u" "length kws"] by auto
    ultimately show ?thesis using best_ends [OF ok False] \<open>failword ws u = []\<close> ends_Nil [OF ok] by simp
  qed
  ultimately show ?thesis using f idx_root [OF t] by (simp add: settled_def fresh_def)
qed

section \<open>One link\<close>

lemma fallback_ok:
  assumes t: "trie_ok ws nodes edges" and fails: "\<forall>u\<in>set ws. length u \<le> l \<longrightarrow> settled lower kws ws nodes u"
    and "f \<in> set ws" and "length f \<le> l" and "length f < n"
  shows "kw_fallback n nodes edges (idx ws f) c = Some (if lsuf ws (f @ [c]) = [] then -1 else idx ws (lsuf ws (f @ [c])))"
  using assms(3-5)
proof (induction n arbitrary: f)
  case (Suc n)
  note tr = transition_ok [OF t Suc.prems(1), of c]
  show ?case
  proof (cases "f @ [c] \<in> set ws")
    case True
    then have "0 \<le> idx ws (f @ [c])" using idx_word trie_sel(4) [OF t] by blast
    with True tr show ?thesis by (simp add: lsuf_id)
  next
    case False
    then have none: "idx ws (f @ [c]) = -1" by (rule idx_none)
    show ?thesis
    proof (cases "f = []")
      case True
      with tr none False idx_root [OF t] show ?thesis by (simp add: lsuf_miss)
    next
      case neq: False
      then have "idx ws f \<noteq> 0" using idx_zero_iff [OF t Suc.prems(1)] by simp
      then have "kw_fallback (Suc n) nodes edges (idx ws f) c = kw_fallback n nodes edges (idx ws (failword ws f)) c"
        using tr none fails Suc.prems(1,2) by (simp add: settled_def)
      moreover have "length (failword ws f) < length f" using failword_less neq by blast
      ultimately show ?thesis
        using Suc.IH [OF failword_in [OF t]] Suc.prems(2,3) lsuf_fail [OF t False neq] by simp
    qed
  qed
qed simp

definition same_at :: "string list \<Rightarrow> kw_node list \<Rightarrow> kw_node list \<Rightarrow> string \<Rightarrow> bool" where
  "same_at ws nodes nodes' u \<longleftrightarrow> nodes' ! nat (idx ws u) = nodes ! nat (idx ws u)"

lemma same_at_keeps: "same_at ws nodes nodes' u \<Longrightarrow> settled lower kws ws nodes' u = settled lower kws ws nodes u"
  "same_at ws nodes nodes' u \<Longrightarrow> fresh lower kws ws nodes' u = fresh lower kws ws nodes u"
  by (simp_all add: same_at_def settled_def fresh_def)

lemma trie_node_update:
  assumes "trie_ok ws nodes edges" and "kn_start x = kn_start (nodes ! i)"
  shows "trie_ok ws (nodes[i := x]) edges"
proof -
  have "kw_first (nodes[i := x] ! j) = kw_first (nodes ! j)" if "j < length nodes" for j
    using that assms(2) by (cases "i = j") (simp_all add: kw_first_def)
  with assms(1) show ?thesis by (simp add: trie_ok_def)
qed

lemma link_ok:
  assumes t: "trie_ok ws nodes edges" and ok: "words_ok lower kws ws"
    and fails: "\<forall>u\<in>set ws. length u \<le> length w \<longrightarrow> settled lower kws ws nodes u"
    and w: "w \<in> set ws" "w \<noteq> []" and e: "kb_target e = idx ws (w @ [kb_label e])" "w @ [kb_label e] \<in> set ws"
    and fr: "fresh lower kws ws nodes (w @ [kb_label e])"
  shows "\<exists>nodes'. kw_link edges (idx ws w) nodes e = Some nodes' \<and> trie_ok ws nodes' edges \<and>
    settled lower kws ws nodes' (w @ [kb_label e]) \<and> (\<forall>u\<in>set ws. u \<noteq> w @ [kb_label e] \<longrightarrow> same_at ws nodes nodes' u)"
proof -
  note s = trie_sel [OF t]
  let ?c = "kb_label e" let ?u = "w @ [?c]" let ?f = "failword ws w"
  define i where "i = nat (idx ws ?u)"
  have i: "i < length nodes" "nat (kb_target e) = i" using idx_word [OF s(4) e(2)] e(1) s(1) by (auto simp: i_def)
  have fu: "lsuf ws (?f @ [?c]) = failword ws ?u" using lsuf_snoc [OF t, of "tl w" ?c] w(2) by (simp add: failword_def)
  have fl: "length ?f < length w" using failword_less w(2) by blast
  have "kn_failure (nodes ! nat (idx ws w)) = idx ws ?f" using fails w(1) by (simp add: settled_def)
  moreover have "length ?f < length nodes" using length_word [OF t failword_in [OF t]] s(1) by simp
  ultimately have fb: "kw_fallback (length nodes) nodes edges (kn_failure (nodes ! nat (idx ws w))) ?c =
      Some (if failword ws ?u = [] then -1 else idx ws (failword ws ?u))"
    using fallback_ok [OF t fails failword_in [OF t], of w "length nodes" ?c] fl fu by simp
  have root: "kn_failure (nodes ! i) = 0" using fr by (simp add: fresh_def i_def)
  have r0: "idx ws [] = 0" by (rule idx_root [OF t])
  have pos: "0 \<le> idx ws (failword ws ?u)" using idx_word [OF s(4) failword_in [OF t]] by blast
  let ?g = "nat (idx ws (failword ws ?u))"
  have lu: "length (failword ws ?u) \<le> length w" using failword_less [of ?u ws] by simp
  then have gb: "kn_best (nodes ! ?g) = least_idx (ends lower kws (failword ws ?u)) (length kws)"
    using fails failword_in [OF t] by (simp add: settled_def)
  have "failword ws ?u \<noteq> ?u" using lu by auto
  then have "?g \<noteq> i" using idx_word [OF s(4) e(2)] idx_word [OF s(4) failword_in [OF t]] unfolding i_def by metis
  define x where "x = (nodes ! i)\<lparr>kn_failure := idx ws (failword ws ?u),
     kn_best := min_keyword (kn_best (nodes ! i)) (kn_best (nodes ! ?g))\<rparr>"
  have run: "kw_link edges (idx ws w) nodes e = Some (nodes[i := x])"
  proof (cases "failword ws ?u = []")
    case True
    have "x = (nodes ! i)\<lparr>kn_best := min_keyword (kn_best (nodes ! i)) (kn_best (nodes ! ?g))\<rparr>"
      unfolding x_def True r0 using root by (cases "nodes ! i") simp
    with True root r0 i fb show ?thesis by (simp add: kw_link_def Let_def)
  next
    case False
    with \<open>?g \<noteq> i\<close> i fb pos show ?thesis by (simp add: kw_link_def Let_def x_def)
  qed
  have "trie_ok ws (nodes[i := x]) edges" by (rule trie_node_update [OF t]) (simp add: x_def)
  moreover have "settled lower kws ws (nodes[i := x]) ?u"
    using i(1) fr gb best_ends [OF ok, of ?u] by (simp add: settled_def i_def [symmetric] x_def fresh_def)
  moreover have "same_at ws nodes (nodes[i := x]) v" if "v \<in> set ws" "v \<noteq> ?u" for v
  proof -
    have "nat (idx ws v) \<noteq> i" using idx_word [OF s(4) that(1)] idx_word [OF s(4) e(2)] that(2) unfolding i_def by metis
    then show ?thesis by (simp add: same_at_def)
  qed
  ultimately show ?thesis using run by blast
qed

lemma links_ok:
  assumes "trie_ok ws nodes edges" and ok: "words_ok lower kws ws"
    and "\<forall>u\<in>set ws. length u \<le> length w \<longrightarrow> settled lower kws ws nodes u" and w: "w \<in> set ws" "w \<noteq> []"
    and "\<forall>e\<in>set es. kb_target e = idx ws (w @ [kb_label e]) \<and> w @ [kb_label e] \<in> set ws \<and> fresh lower kws ws nodes (w @ [kb_label e])"
    and "distinct (map kb_label es)"
  shows "\<exists>nodes'. fold_opt (kw_link edges (idx ws w)) es nodes = Some nodes' \<and> trie_ok ws nodes' edges \<and>
    (\<forall>u\<in>set ws. if \<exists>e\<in>set es. u = w @ [kb_label e] then settled lower kws ws nodes' u else same_at ws nodes nodes' u)"
  using assms(1,3,6,7)
proof (induction es arbitrary: nodes)
  case (Cons e es)
  obtain nodes1 where l: "kw_link edges (idx ws w) nodes e = Some nodes1" "trie_ok ws nodes1 edges"
      "settled lower kws ws nodes1 (w @ [kb_label e])" "\<forall>u\<in>set ws. u \<noteq> w @ [kb_label e] \<longrightarrow> same_at ws nodes nodes1 u"
    using link_ok [OF Cons.prems(1) ok Cons.prems(2) w, of e] Cons.prems(3) by auto
  have "settled lower kws ws nodes1 u" if "u \<in> set ws" "length u \<le> length w" for u
  proof -
    have "u \<noteq> w @ [kb_label e]" using that(2) by auto
    then have "same_at ws nodes nodes1 u" using l(4) that(1) by blast
    then show ?thesis using same_at_keeps(1) Cons.prems(2) that by blast
  qed
  moreover have "fresh lower kws ws nodes1 (w @ [kb_label e'])" if "e' \<in> set es" for e'
  proof -
    have "kb_label e' \<noteq> kb_label e" using Cons.prems(4) imageI [OF that, of kb_label] by auto
    then have "same_at ws nodes nodes1 (w @ [kb_label e'])" using l(4) Cons.prems(3) that by auto
    from same_at_keeps(2) [OF this] show ?thesis using Cons.prems(3) that by simp
  qed
  ultimately obtain nodes' where r: "fold_opt (kw_link edges (idx ws w)) es nodes1 = Some nodes'" "trie_ok ws nodes' edges"
      "\<forall>u\<in>set ws. if \<exists>e\<in>set es. u = w @ [kb_label e] then settled lower kws ws nodes' u else same_at ws nodes1 nodes' u"
    using Cons.IH [OF l(2)] Cons.prems(3,4) by auto
  have "if \<exists>e'\<in>set (e # es). u = w @ [kb_label e'] then settled lower kws ws nodes' u else same_at ws nodes nodes' u" if u: "u \<in> set ws" for u
  proof (cases "\<exists>e\<in>set es. u = w @ [kb_label e]")
    case True
    then show ?thesis using r(3) u by auto
  next
    case False
    then have same: "same_at ws nodes1 nodes' u" using r(3) u by auto
    show ?thesis
    proof (cases "u = w @ [kb_label e]")
      case True
      then show ?thesis using same_at_keeps(1) [OF same] l(3) by simp
    next
      case neq: False
      then have "same_at ws nodes nodes1 u" using l(4) u by blast
      with same False neq show ?thesis by (auto simp: same_at_def)
    qed
  qed
  with l(1) r(1,2) show ?case by auto
qed (simp add: same_at_def)

section \<open>The pass\<close>

text \<open>\<open>done\<close> are the words whose nodes left the queue, \<open>qs\<close> those of the nodes in it.\<close>

definition reached :: "string set \<Rightarrow> string \<Rightarrow> bool" where
  "reached done u \<longleftrightarrow> butlast u = [] \<or> butlast u \<in> done"

definition bfs_inv :: "(string \<Rightarrow> string) \<Rightarrow> string list \<Rightarrow> string list \<Rightarrow> kw_build_edge list \<Rightarrow> kw_node list \<Rightarrow> string set \<Rightarrow> string list \<Rightarrow> bool" where
  "bfs_inv lower kws ws edges nodes done qs \<longleftrightarrow> trie_ok ws nodes edges \<and>
     (\<forall>u\<in>set ws. if reached done u then settled lower kws ws nodes u else fresh lower kws ws nodes u) \<and>
     set qs = {u \<in> set ws. u \<noteq> [] \<and> u \<notin> done \<and> reached done u} \<and> distinct qs \<and>
     sorted (map length qs) \<and> (\<forall>q\<in>set qs. length q \<le> Suc (length (hd qs))) \<and>
     (\<forall>u\<in>done. u \<in> set ws \<and> u \<noteq> [] \<and> reached done u)"

lemma unprocessed:
  assumes inv: "bfs_inv lower kws ws edges nodes done qs" and "u \<in> set ws" and "u \<noteq> []" and "u \<notin> done"
  shows "\<exists>q\<in>set qs. length q \<le> length u"
  using assms(2-4)
proof (induction u rule: rev_induct)
  case (snoc c u)
  have t: "trie_ok ws nodes edges" using inv by (simp add: bfs_inv_def)
  have "u \<in> set ws" using prefix_closed [OF t, of u "[c]"] snoc.prems(1) by simp
  show ?case
  proof (cases "u = [] \<or> u \<in> done")
    case True
    then have "u @ [c] \<in> set qs" using inv snoc.prems by (auto simp: bfs_inv_def reached_def)
    then show ?thesis by blast
  next
    case False
    with snoc.IH \<open>u \<in> set ws\<close> obtain q where "q \<in> set qs" "length q \<le> length u" by auto
    then show ?thesis by (intro bexI [of _ q]) simp_all
  qed
qed simp

lemma bfs_step:
  assumes inv: "bfs_inv lower kws ws edges nodes done (w # qs)" and ok: "words_ok lower kws ws"
  shows "\<exists>es nodes' vs. kw_edges_of nodes edges (idx ws w) = Some es \<and> fold_opt (kw_link edges (idx ws w)) es nodes = Some nodes' \<and>
    map kb_target es = map (idx ws) vs \<and> bfs_inv lower kws ws edges nodes' (insert w done) (qs @ vs)"
proof -
  have t: "trie_ok ws nodes edges" using inv by (simp add: bfs_inv_def)
  have "w \<in> {u \<in> set ws. u \<noteq> [] \<and> u \<notin> done \<and> reached done u}" using inv unfolding bfs_inv_def by (metis list.set_intros(1))
  then have w: "w \<in> set ws" "w \<noteq> []" "w \<notin> done" "reached done w" by auto
  obtain es where es: "kw_edges_of nodes edges (idx ws w) = Some es" "children ws w es" using edges_of_ok [OF t w(1)] by blast
  let ?vs = "map (\<lambda>e. w @ [kb_label e]) es"
  have target: "kb_target e = idx ws (w @ [kb_label e])" "w @ [kb_label e] \<in> set ws" if "e \<in> set es" for e
  proof -
    have e: "0 \<le> kb_target e" "nat (kb_target e) < length ws" "ws ! nat (kb_target e) = w @ [kb_label e]"
      using es(2) that by (auto simp: children_def)
    show "kb_target e = idx ws (w @ [kb_label e])" using idx_some [OF trie_sel(4) [OF t] e(2)] e(1,3) by simp
    show "w @ [kb_label e] \<in> set ws" using e(2,3) nth_mem by metis
  qed
  have kids: "set ?vs = {u \<in> set ws. u \<noteq> [] \<and> butlast u = w}"
  proof
    show "set ?vs \<subseteq> {u \<in> set ws. u \<noteq> [] \<and> butlast u = w}" using target(2) by auto
    show "{u \<in> set ws. u \<noteq> [] \<and> butlast u = w} \<subseteq> set ?vs"
    proof
      fix u assume "u \<in> {u \<in> set ws. u \<noteq> [] \<and> butlast u = w}"
      then have u: "u \<in> set ws" "u = w @ [last u]" by (auto simp: append_butlast_last_id)
      then have "last u \<in> kb_label ` set es" using es(2) unfolding children_def by metis
      with u(2) show "u \<in> set ?vs" by auto
    qed
  qed
  have short: "settled lower kws ws nodes u" if u: "u \<in> set ws" "length u \<le> length w" for u
  proof -
    have "reached done u"
    proof (rule ccontr)
      assume "\<not> reached done u"
      then have b: "butlast u \<noteq> []" "butlast u \<notin> done" by (simp_all add: reached_def)
      have "butlast u @ [last u] = u" using b(1) by (cases "u = []") (simp_all add: append_butlast_last_id)
      then have "butlast u \<in> set ws" using prefix_closed [OF t, of "butlast u" "[last u]"] u(1) by simp
      from unprocessed [OF inv this b] obtain q where q: "q \<in> set (w # qs)" "length q \<le> length (butlast u)" by blast
      have "length w \<le> length q" using inv q(1) by (auto simp: bfs_inv_def)
      moreover have "length (butlast u) < length u" using b(1) by (cases u) auto
      ultimately show False using q(2) u(2) by linarith
    qed
    then show ?thesis using inv u(1) by (auto simp: bfs_inv_def)
  qed
  have unreached: "\<not> reached done u" if "butlast u = w" for u using that w(2,3) by (simp add: reached_def)
  have fr: "fresh lower kws ws nodes (w @ [kb_label e])" if "e \<in> set es" for e
  proof -
    have "\<not> reached done (w @ [kb_label e])" by (rule unreached) simp
    then show ?thesis using inv target(2) [OF that] unfolding bfs_inv_def by auto
  qed
  have "distinct (map kb_label es)" using es(2) by (simp add: children_def)
  then obtain nodes' where n: "fold_opt (kw_link edges (idx ws w)) es nodes = Some nodes'" "trie_ok ws nodes' edges"
      "\<forall>u\<in>set ws. if \<exists>e\<in>set es. u = w @ [kb_label e] then settled lower kws ws nodes' u else same_at ws nodes nodes' u"
    using links_ok [OF t ok _ w(1,2), of es] short target fr by auto
  have step: "reached (insert w done) u \<longleftrightarrow> reached done u \<or> butlast u = w" for u by (auto simp: reached_def)
  have nodes_ok: "if reached (insert w done) u then settled lower kws ws nodes' u else fresh lower kws ws nodes' u" if u: "u \<in> set ws" for u
  proof (cases "u \<in> set ?vs")
    case True
    then have "settled lower kws ws nodes' u" using n(3) u by (auto split: if_splits)
    moreover have "butlast u = w" using True kids by auto
    ultimately show ?thesis using step by simp
  next
    case False
    then have "\<not> (\<exists>e\<in>set es. u = w @ [kb_label e])" by auto
    with bspec [OF n(3) u] have "same_at ws nodes nodes' u" by simp
    moreover have "reached (insert w done) u \<longleftrightarrow> reached done u" using False kids step u w(2) by auto
    ultimately show ?thesis using inv u same_at_keeps unfolding bfs_inv_def by metis
  qed
  have d: "distinct (w # qs)" "sorted (map length (w # qs))" "\<forall>q\<in>set (w # qs). length q \<le> Suc (length (hd (w # qs)))"
    and q: "set (w # qs) = {u \<in> set ws. u \<noteq> [] \<and> u \<notin> done \<and> reached done u}"
    using inv unfolding bfs_inv_def by blast+
  have set: "set (qs @ ?vs) = {u \<in> set ws. u \<noteq> [] \<and> u \<notin> insert w done \<and> reached (insert w done) u}"
  proof -
    have "set qs = set (w # qs) - {w}" using d(1) by auto
    moreover have "u \<notin> insert w done" if "u \<noteq> []" "butlast u = w" for u
    proof -
      have "u \<noteq> w" using that by (metis append_butlast_last_id append_self_conv not_Cons_self2)
      moreover have "u \<notin> done" using unreached [OF that(2)] inv by (auto simp: bfs_inv_def)
      ultimately show ?thesis by blast
    qed
    ultimately show ?thesis unfolding set_append kids q using step w(2) by auto
  qed
  have len: "\<forall>v\<in>set ?vs. length v = Suc (length w)" by simp
  have "sorted (map length ?vs)" by (induction es) simp_all
  then have sorted: "sorted (map length (qs @ ?vs))" using d(2,3) len by (auto simp: sorted_append)
  have head: "\<forall>q\<in>set (qs @ ?vs). length q \<le> Suc (length (hd (qs @ ?vs)))"
  proof (cases "qs = []")
    case True
    then show ?thesis using len by (cases ?vs) auto
  next
    case False
    then have "length w \<le> length (hd qs)" using d(2) by simp
    then show ?thesis using d(3) len False by fastforce
  qed
  have "distinct ?vs"
  proof -
    have "?vs = map (\<lambda>c. w @ [c]) (map kb_label es)" by simp
    moreover have "inj (\<lambda>c. w @ [c])" by (rule injI) simp
    ultimately show ?thesis using \<open>distinct (map kb_label es)\<close> distinct_map inj_on_subset by (metis subset_UNIV)
  qed
  moreover have "set qs \<inter> set ?vs = {}"
  proof -
    have "reached done u" if "u \<in> set qs" for u using that q by auto
    then show ?thesis using unreached kids by blast
  qed
  ultimately have dist: "distinct (qs @ ?vs)" using d(1) by simp
  have "\<forall>u\<in>insert w done. u \<in> set ws \<and> u \<noteq> [] \<and> reached (insert w done) u"
    using inv w step by (auto simp: bfs_inv_def)
  with n(2) nodes_ok set dist sorted head have "bfs_inv lower kws ws edges nodes' (insert w done) (qs @ ?vs)"
    unfolding bfs_inv_def by blast
  moreover have "map kb_target es = map (idx ws) ?vs" using target(1) by simp
  ultimately show ?thesis using es(1) n(1) by blast
qed

lemma bfs_ok:
  assumes "bfs_inv lower kws ws edges nodes done qs" and ok: "words_ok lower kws ws" and "card (set ws - {[]} - done) < n"
  shows "\<exists>nodes'. kw_bfs n edges nodes (map (idx ws) qs) = Some nodes' \<and> trie_ok ws nodes' edges \<and> (\<forall>u\<in>set ws. settled lower kws ws nodes' u)"
  using assms(1,3)
proof (induction n arbitrary: nodes "done" qs)
  case (Suc n)
  show ?case
  proof (cases qs)
    case Nil
    have all: "u \<in> done" if "u \<in> set ws" "u \<noteq> []" for u using unprocessed [OF Suc.prems(1) that] Nil by auto
    have "settled lower kws ws nodes u" if u: "u \<in> set ws" for u
    proof -
      have t: "trie_ok ws nodes edges" using Suc.prems(1) by (simp add: bfs_inv_def)
      have "reached done u"
      proof (cases "butlast u = []")
        case False
        then have "butlast u @ [last u] = u" by (cases "u = []") (simp_all add: append_butlast_last_id)
        then have "butlast u \<in> set ws" using prefix_closed [OF t, of "butlast u" "[last u]"] u by simp
        with all False show ?thesis by (simp add: reached_def)
      qed (simp add: reached_def)
      then show ?thesis using Suc.prems(1) u by (auto simp: bfs_inv_def)
    qed
    with Suc.prems(1) Nil show ?thesis by (simp add: bfs_inv_def)
  next
    case (Cons w qs')
    obtain es nodes1 vs where s: "kw_edges_of nodes edges (idx ws w) = Some es" "fold_opt (kw_link edges (idx ws w)) es nodes = Some nodes1"
        "map kb_target es = map (idx ws) vs" "bfs_inv lower kws ws edges nodes1 (insert w done) (qs' @ vs)"
      using bfs_step [OF Suc.prems(1) [unfolded Cons] ok] by blast
    have "w \<in> set ws - {[]} - done" using Suc.prems(1) unfolding bfs_inv_def Cons by auto
    then have "card (set ws - {[]} - insert w done) < card (set ws - {[]} - done)" by (intro psubset_card_mono) auto
    then obtain nodes' where "kw_bfs n edges nodes1 (map (idx ws) (qs' @ vs)) = Some nodes'" "trie_ok ws nodes' edges"
        "\<forall>u\<in>set ws. settled lower kws ws nodes' u"
      using Suc.IH [OF s(4)] Suc.prems(2) by auto
    with s Cons show ?thesis by simp
  qed
qed simp

text \<open>The links of a finished trie.\<close>

lemma failures_built:
  assumes tf: "trie_for lower kws (length kws) ws nodes edges" and ok: "words_ok lower kws ws"
  shows "\<exists>roots nodes'. kw_edges_of nodes edges 0 = Some roots \<and> children ws [] roots \<and>
    kw_bfs (length nodes) edges nodes (map kb_target roots) = Some nodes' \<and> trie_ok ws nodes' edges \<and>
    (\<forall>u\<in>set ws. settled lower kws ws nodes' u)"
proof -
  have t: "trie_ok ws nodes edges" using tf by (simp add: trie_for_def)
  note s = trie_sel [OF t] and root = trie_root_in [OF t]
  have fr: "fresh lower kws ws nodes u" if "u \<in> set ws" for u
  proof -
    have i: "nat (idx ws u) < length ws" "ws ! nat (idx ws u) = u" using idx_word [OF s(4) that] by blast+
    have "kn_failure (nodes ! nat (idx ws u)) = map kn_failure nodes ! nat (idx ws u)" using i(1) s(1) by simp
    also have "\<dots> = 0" using tf i(1) by (simp add: trie_for_def)
    finally show ?thesis using tf i by (simp add: fresh_def trie_for_def)
  qed
  obtain roots where r: "kw_edges_of nodes edges 0 = Some roots" "children ws [] roots"
    using edges_of_ok [OF t root] idx_root [OF t] by auto
  let ?qs = "map (\<lambda>e. [kb_label e]) roots"
  have target: "kb_target e = idx ws [kb_label e] \<and> [kb_label e] \<in> set ws" if "e \<in> set roots" for e
  proof -
    have e: "0 \<le> kb_target e" "nat (kb_target e) < length ws" "ws ! nat (kb_target e) = [kb_label e]"
      using r(2) that by (auto simp: children_def)
    then show ?thesis using idx_some [OF s(4) e(2)] nth_mem by fastforce
  qed
  have "distinct ?qs"
    using r(2) unfolding children_def distinct_map by (auto simp: inj_on_def)
  moreover have "set ?qs = {u \<in> set ws. u \<noteq> [] \<and> u \<notin> {} \<and> reached {} u}"
  proof
    show "set ?qs \<subseteq> {u \<in> set ws. u \<noteq> [] \<and> u \<notin> {} \<and> reached {} u}" using target by (auto simp: reached_def)
    show "{u \<in> set ws. u \<noteq> [] \<and> u \<notin> {} \<and> reached {} u} \<subseteq> set ?qs"
    proof
      fix u assume u: "u \<in> {u \<in> set ws. u \<noteq> [] \<and> u \<notin> {} \<and> reached {} u}"
      then have "butlast u = []" "u \<noteq> []" by (simp_all add: reached_def)
      then obtain c where "u = [c]" by (metis append_butlast_last_id append_Nil)
      then show "u \<in> set ?qs" using u r(2) unfolding children_def by auto
    qed
  qed
  moreover have "sorted (map length ?qs)" by (induction roots) simp_all
  moreover have "\<forall>q\<in>set ?qs. length q \<le> Suc (length (hd ?qs))" by simp
  moreover have "\<forall>u\<in>set ws. if reached {} u then settled lower kws ws nodes u else fresh lower kws ws nodes u"
    using fr fresh_settled [OF t ok] by (simp add: reached_def)
  ultimately have inv: "bfs_inv lower kws ws edges nodes {} ?qs" using t unfolding bfs_inv_def by blast
  have "card (set ws - {[]} - {}) < card (set ws)" using root by (intro psubset_card_mono) auto
  also have "\<dots> = length nodes" using s(1,4) by (simp add: distinct_card)
  finally obtain nodes' where "kw_bfs (length nodes) edges nodes (map (idx ws) ?qs) = Some nodes'" "trie_ok ws nodes' edges"
      "\<forall>u\<in>set ws. settled lower kws ws nodes' u"
    using bfs_ok [OF inv ok] by blast
  moreover have "map kb_target roots = map (idx ws) ?qs" using target by simp
  ultimately show ?thesis using r by metis
qed

end
