(* ===== verification/Keyword_Props.thy ===== *)
theory Keyword_Props
  imports Keyword_Failure
begin

text \<open>
  The packed automaton and its scan: the matcher answers as a search for every keyword in turn does.
\<close>

section \<open>Packed edges\<close>

lemma byte_of_inj [simp]: "byte_of c = byte_of d \<longleftrightarrow> c = d"
  by (simp add: byte_of_def)

lemma byte_of_less [simp]: "byte_of c < 256"
  by (simp add: byte_of_def)

definition edges_sorted :: "kw_edge list \<Rightarrow> bool" where
  "edges_sorted es \<longleftrightarrow> sorted (map (byte_of \<circ> ke_label) es)"

lemma place_ok:
  assumes "edges_sorted out"
  shows "edges_sorted (kw_place out e) \<and> set (kw_place out e) = insert e (set out) \<and> length (kw_place out e) = Suc (length out)"
proof -
  let ?l = "\<lambda>x. byte_of (ke_label e) < byte_of (ke_label x)"
  let ?k = "byte_of \<circ> ke_label"
  let ?t = "takeWhile ?l (rev out)" and ?d = "dropWhile ?l (rev out)"
  have split: "?t @ ?d = rev out" by (rule takeWhile_dropWhile_id)
  have desc: "sorted_wrt (\<ge>) (map ?k (?t @ ?d))"
    using assms unfolding split edges_sorted_def by (simp add: sorted_wrt_rev rev_map [symmetric])
  have big: "\<forall>x\<in>set ?t. ?k e \<le> ?k x" by (auto dest: set_takeWhileD)
  have small: "\<forall>x\<in>set ?d. ?k x \<le> ?k e"
  proof (cases ?d)
    case (Cons y ys)
    then have "\<not> ?l y" by (metis dropWhile_eq_Cons_conv)
    then show ?thesis using desc Cons by (force simp: sorted_wrt_append)
  next
    case Nil
    show ?thesis unfolding Nil by simp
  qed
  have "sorted_wrt (\<ge>) (map ?k (?t @ e # ?d))"
  proof -
    have "sorted_wrt (\<ge>) (map ?k ?t)" "sorted_wrt (\<ge>) (map ?k ?d)" "\<forall>x\<in>set ?t. \<forall>y\<in>set ?d. ?k y \<le> ?k x"
      using desc unfolding map_append sorted_wrt_append by auto
    with big small show ?thesis unfolding map_append list.map(2) sorted_wrt_append sorted_wrt.simps by auto
  qed
  then have "edges_sorted (kw_place out e)"
    unfolding edges_sorted_def kw_place_def Let_def by (simp add: sorted_wrt_rev rev_map [symmetric] del: map_append rev_append)
  moreover have "set out = set ?t \<union> set ?d" by (metis set_append set_rev split)
  then have "set (kw_place out e) = insert e (set out)" by (auto simp: kw_place_def Let_def)
  moreover have "length out = length ?t + length ?d" by (metis length_append length_rev split)
  then have "length (kw_place out e) = Suc (length out)" by (simp add: kw_place_def Let_def)
  ultimately show ?thesis by blast
qed

lemma sorted_edges_ok:
  "edges_sorted (kw_sorted_edges es) \<and> length (kw_sorted_edges es) = length es \<and>
   set (kw_sorted_edges es) = (\<lambda>e. \<lparr>ke_target = kb_target e, ke_label = kb_label e\<rparr>) ` set es"
proof (induction es rule: rev_induct)
  case Nil
  show ?case by (simp add: kw_sorted_edges_def edges_sorted_def)
next
  case (snoc e es)
  then show ?case using place_ok [of "kw_sorted_edges es"] by (simp add: kw_sorted_edges_def)
qed

text \<open>The segment of a node lists the letters that extend its word.\<close>

definition segment :: "kw_edge list \<Rightarrow> kw_node \<Rightarrow> kw_edge list" where
  "segment packed n = take (nat (kn_count n)) (drop (nat (kn_start n)) packed)"

definition node_packed :: "string list \<Rightarrow> kw_edge list \<Rightarrow> string \<Rightarrow> kw_node \<Rightarrow> bool" where
  "node_packed ws packed w n \<longleftrightarrow> 0 \<le> kn_start n \<and> 0 \<le> kn_count n \<and> nat (kn_start n) + nat (kn_count n) \<le> length packed \<and>
     edges_sorted (segment packed n) \<and> (\<forall>e\<in>set (segment packed n). w @ [ke_label e] \<in> set ws \<and> ke_target e = idx ws (w @ [ke_label e])) \<and>
     (\<forall>c. w @ [c] \<in> set ws \<longrightarrow> c \<in> ke_label ` set (segment packed n))"

lemma segment_append: "nat (kn_start n) + nat (kn_count n) \<le> length packed \<Longrightarrow> segment (packed @ rest) n = segment packed n"
  by (simp add: segment_def)

lemma node_packed_append: "node_packed ws packed w n \<Longrightarrow> node_packed ws (packed @ rest) w n"
  by (simp add: node_packed_def segment_append)

lemma children_targets:
  assumes t: "trie_ok ws nodes edges" and c: "children ws w es"
  shows "\<forall>e\<in>set es. kb_target e = idx ws (w @ [kb_label e]) \<and> w @ [kb_label e] \<in> set ws"
proof
  fix e assume "e \<in> set es"
  then have e: "0 \<le> kb_target e" "nat (kb_target e) < length ws" "ws ! nat (kb_target e) = w @ [kb_label e]"
    using c by (auto simp: children_def)
  then show "kb_target e = idx ws (w @ [kb_label e]) \<and> w @ [kb_label e] \<in> set ws"
    using idx_some [OF trie_sel(4) [OF t] e(2)] nth_mem by fastforce
qed

definition kids :: "string list \<Rightarrow> nat \<Rightarrow> string set" where
  "kids ws i = {u \<in> set ws. u \<noteq> [] \<and> butlast u \<in> set (take i ws)}"

lemma kids_step:
  assumes t: "trie_ok ws nodes edges" and i: "i < length ws" and c: "children ws (ws ! i) es"
  shows "card (kids ws (Suc i)) = card (kids ws i) + length es"
proof -
  let ?new = "(\<lambda>e. ws ! i @ [kb_label e]) ` set es"
  have "kids ws (Suc i) = kids ws i \<union> ?new"
  proof
    show "kids ws (Suc i) \<subseteq> kids ws i \<union> ?new"
    proof
      fix u assume u: "u \<in> kids ws (Suc i)"
      show "u \<in> kids ws i \<union> ?new"
      proof (cases "butlast u = ws ! i")
        case True
        then have "u = ws ! i @ [last u]" using u by (simp add: kids_def append_butlast_last_id flip: True)
        moreover have "u \<in> set ws" using u by (simp add: kids_def)
        ultimately show ?thesis using c unfolding children_def by (metis (no_types, lifting) Un_iff image_iff)
      next
        case False
        with u i show ?thesis by (auto simp: kids_def take_Suc_conv_app_nth)
      qed
    qed
    show "kids ws i \<union> ?new \<subseteq> kids ws (Suc i)"
      using children_targets [OF t c] i by (auto simp: kids_def take_Suc_conv_app_nth)
  qed
  moreover have "kids ws i \<inter> ?new = {}"
  proof -
    have "ws ! i \<notin> set (take i ws)" 
    proof -
      have "distinct (take i ws @ ws ! i # drop (Suc i) ws)" using trie_sel(4) [OF t] by (simp add: id_take_nth_drop [OF i, symmetric])
      then show ?thesis by simp
    qed
    then show ?thesis by (auto simp: kids_def)
  qed
  moreover have "card ?new = length es"
  proof -
    have "inj_on (\<lambda>e. ws ! i @ [kb_label e]) (set es)" using c by (auto simp: children_def distinct_map inj_on_def)
    moreover have "distinct es" using c by (simp add: children_def distinct_map)
    ultimately show ?thesis by (simp add: card_image distinct_card)
  qed
  ultimately show ?thesis by (simp add: card_Un_disjoint kids_def)
qed

lemma packed_ok:
  assumes t: "trie_ok ws nodes edges" and "i \<le> length ws"
  shows "\<exists>nodes' packed. fold_opt (kw_pack edges) [0..<i] (nodes, []) = Some (nodes', packed) \<and> length nodes' = length nodes \<and>
    map kn_failure nodes' = map kn_failure nodes \<and> map kn_best nodes' = map kn_best nodes \<and> length packed = card (kids ws i) \<and>
    (\<forall>j < i. node_packed ws packed (ws ! j) (nodes' ! j)) \<and> (\<forall>j. i \<le> j \<longrightarrow> nodes' ! j = nodes ! j)"
  using assms(2)
proof (induction i)
  case 0
  then show ?case by (simp add: kids_def)
next
  case (Suc i)
  note s = trie_sel [OF t]
  obtain nodes1 packed where IH: "fold_opt (kw_pack edges) [0..<i] (nodes, []) = Some (nodes1, packed)" "length nodes1 = length nodes"
      "map kn_failure nodes1 = map kn_failure nodes" "map kn_best nodes1 = map kn_best nodes" "length packed = card (kids ws i)"
      "\<forall>j < i. node_packed ws packed (ws ! j) (nodes1 ! j)" "\<forall>j. i \<le> j \<longrightarrow> nodes1 ! j = nodes ! j"
    using Suc by auto
  have i: "i < length ws" using Suc.prems by simp
  have at: "idx ws (ws ! i) = int i" by (rule idx_some [OF s(4) i])
  obtain es where es: "kw_edges_of nodes edges (int i) = Some es" "children ws (ws ! i) es"
    using edges_of_ok [OF t nth_mem [OF i]] unfolding at by blast
  have "kids ws i \<subseteq> set ws" by (auto simp: kids_def)
  then have "card (kids ws i) \<le> length ws" using card_mono [of "set ws"] card_length [of ws] le_trans by blast
  then have u32: "uint32 (int (length packed)) = int (length packed)" using IH(5) s(5) by simp
  have "length es \<le> 256"
  proof -
    have "length es = card (kb_label ` set es)" using es(2) by (metis children_def distinct_card length_map list.set_map)
    also have "\<dots> \<le> card (UNIV :: char set)" by (rule card_mono) simp_all
    finally show ?thesis by (simp add: card_UNIV_char)
  qed
  then have u16: "uint16 (int (length es)) = int (length es)" by (simp add: uint16_def)
  let ?node = "(nodes1 ! i)\<lparr>kn_start := int (length packed), kn_count := int (length es)\<rparr>"
  let ?nodes = "nodes1[i := ?node]" and ?packed = "packed @ kw_sorted_edges es"
  have same: "kw_edges_of nodes1 edges (int i) = Some es" using es(1) IH(7) by (simp add: kw_edges_of_def)
  have run: "kw_pack edges (nodes1, packed) i = Some (?nodes, ?packed)"
    by (simp add: kw_pack_def same u32 u16)
  note se = sorted_edges_ok [of es] and tg = children_targets [OF t es(2)]
  have seg: "segment ?packed ?node = kw_sorted_edges es" using se by (simp add: segment_def)
  have lab: "ke_label ` set (kw_sorted_edges es) = kb_label ` set es" using se by (auto simp: image_image)
  have new: "node_packed ws ?packed (ws ! i) ?node"
    unfolding node_packed_def seg lab using se tg es(2) by (auto simp: children_def)
  have li: "i < length nodes1" using i s(1) IH(2) by simp
  have "node_packed ws ?packed (ws ! j) (?nodes ! j)" if "j < Suc i" for j
    using that new node_packed_append IH(6) li by (cases "j = i") auto
  moreover have "map kn_failure ?nodes = map kn_failure nodes" "map kn_best ?nodes = map kn_best nodes"
    using IH(3,4) li by (simp_all add: map_update list_update_same_conv flip: IH(3,4))
  moreover have "length ?packed = card (kids ws (Suc i))" using kids_step [OF t i es(2)] IH(5) se by simp
  moreover have "\<forall>j. Suc i \<le> j \<longrightarrow> ?nodes ! j = nodes ! j" using IH(7) by simp
  moreover have "fold_opt (kw_pack edges) [0..<Suc i] (nodes, []) = Some (?nodes, ?packed)"
    using IH(1) run by (simp add: fold_opt_append)
  ultimately show ?case using IH(2) by auto
qed

section \<open>Steps of the automaton\<close>

lemma bsearch_ok:
  assumes "\<And>i j. l \<le> i \<Longrightarrow> i \<le> j \<Longrightarrow> j < r \<Longrightarrow> byte_of (ke_label (es ! i)) \<le> byte_of (ke_label (es ! j))" and "l \<le> r"
  shows "l \<le> kw_bsearch es c l r \<and> kw_bsearch es c l r \<le> r \<and>
    (\<forall>i. l \<le> i \<and> i < kw_bsearch es c l r \<longrightarrow> byte_of (ke_label (es ! i)) < byte_of c) \<and>
    (\<forall>i. kw_bsearch es c l r \<le> i \<and> i < r \<longrightarrow> byte_of c \<le> byte_of (ke_label (es ! i)))"
  using assms
proof (induction es c l r rule: kw_bsearch.induct)
  case (1 es c l r)
  show ?case
  proof (cases "l < r")
    case False
    then have run: "kw_bsearch es c l r = l" by (simp add: kw_bsearch.simps [of es c l r])
    show ?thesis unfolding run using False "1.prems"(2) by auto
  next
    case True
    let ?m = "l + (r - l) div 2"
    have m: "l \<le> ?m" "?m < r" using True by auto
    show ?thesis
    proof (cases "byte_of (ke_label (es ! ?m)) < byte_of c")
      case less: True
      have run: "kw_bsearch es c l r = kw_bsearch es c (?m + 1) r" using True less by (simp add: kw_bsearch.simps [of es c l r] Let_def)
      have low: "byte_of (ke_label (es ! i)) < byte_of c" if "l \<le> i" "i \<le> ?m" for i
        using "1.prems"(1) [OF that m(2)] less by linarith
      have IH: "?m + 1 \<le> kw_bsearch es c (?m + 1) r \<and> kw_bsearch es c (?m + 1) r \<le> r \<and>
          (\<forall>i. ?m + 1 \<le> i \<and> i < kw_bsearch es c (?m + 1) r \<longrightarrow> byte_of (ke_label (es ! i)) < byte_of c) \<and>
          (\<forall>i. kw_bsearch es c (?m + 1) r \<le> i \<and> i < r \<longrightarrow> byte_of c \<le> byte_of (ke_label (es ! i)))"
        by (rule "1.IH"(1) [OF True refl less]) (use "1.prems"(1) m in auto)
      have "byte_of (ke_label (es ! i)) < byte_of c" if "l \<le> i" "i < kw_bsearch es c (?m + 1) r" for i
        by (cases "i \<le> ?m") (use low IH that in auto)
      with IH m show ?thesis unfolding run by auto
    next
      case geq: False
      have run: "kw_bsearch es c l r = kw_bsearch es c l ?m" using True geq by (simp add: kw_bsearch.simps [of es c l r] Let_def)
      have high: "byte_of c \<le> byte_of (ke_label (es ! i))" if "?m \<le> i" "i < r" for i
        using "1.prems"(1) [OF m(1) that] geq by linarith
      have IH: "l \<le> kw_bsearch es c l ?m \<and> kw_bsearch es c l ?m \<le> ?m \<and>
          (\<forall>i. l \<le> i \<and> i < kw_bsearch es c l ?m \<longrightarrow> byte_of (ke_label (es ! i)) < byte_of c) \<and>
          (\<forall>i. kw_bsearch es c l ?m \<le> i \<and> i < ?m \<longrightarrow> byte_of c \<le> byte_of (ke_label (es ! i)))"
        by (rule "1.IH"(2) [OF True refl geq]) (use "1.prems"(1) m in auto)
      have "byte_of c \<le> byte_of (ke_label (es ! i))" if "kw_bsearch es c l ?m \<le> i" "i < r" for i
        by (cases "i < ?m") (use high IH that in auto)
      with IH m show ?thesis unfolding run by auto
    qed
  qed
qed

text \<open>What a finished matcher is.\<close>

definition matcher_for :: "(string \<Rightarrow> string) \<Rightarrow> string list \<Rightarrow> string list \<Rightarrow> kw_matcher \<Rightarrow> bool" where
  "matcher_for lower kws ws m \<longleftrightarrow> distinct ws \<and> ws \<noteq> [] \<and> ws ! 0 = [] \<and> length (km_nodes m) = length ws \<and>
     (\<forall>u v. u @ v \<in> set ws \<longrightarrow> u \<in> set ws) \<and> words_ok lower kws ws \<and> km_keywords m = kws \<and>
     (\<forall>u\<in>set ws. settled lower kws ws (km_nodes m) u \<and> node_packed ws (km_edges m) u (km_nodes m ! nat (idx ws u))) \<and>
     length (km_root m) = 256 \<and> (\<forall>c. km_root m ! byte_of c = (if [c] \<in> set ws then idx ws [c] else 0))"

lemma roots_ok:
  assumes "\<forall>e\<in>set es. kb_target e = idx ws [kb_label e]"
  shows "length (kw_roots es) = 256 \<and> (\<forall>c. kw_roots es ! byte_of c = (if c \<in> kb_label ` set es then idx ws [c] else 0))"
  using assms
proof (induction es rule: rev_induct)
  case (snoc e es)
  then have IH: "length (kw_roots es) = 256" "kw_roots es ! byte_of c = (if c \<in> kb_label ` set es then idx ws [c] else 0)" for c by auto
  have step: "kw_roots (es @ [e]) = (kw_roots es)[byte_of (kb_label e) := kb_target e]" by (simp add: kw_roots_def)
  show ?case using IH snoc.prems by (auto simp: step nth_list_update)
qed (simp add: kw_roots_def)

lemma matcher_sel:
  assumes "matcher_for lower kws ws m"
  shows "distinct ws" "[] \<in> set ws" "idx ws [] = 0" "length (km_nodes m) = length ws" "u @ v \<in> set ws \<Longrightarrow> u \<in> set ws"
    "words_ok lower kws ws" "km_keywords m = kws"
    "u \<in> set ws \<Longrightarrow> settled lower kws ws (km_nodes m) u" "u \<in> set ws \<Longrightarrow> node_packed ws (km_edges m) u (km_nodes m ! nat (idx ws u))"
    "km_root m ! byte_of c = (if [c] \<in> set ws then idx ws [c] else 0)"
proof -
  have m: "distinct ws" "ws \<noteq> []" "ws ! 0 = []" using assms by (simp_all add: matcher_for_def)
  then show "[] \<in> set ws" by (metis length_greater_0_conv nth_mem)
  show "idx ws [] = 0" using idx_some [OF m(1), of 0] m(2,3) by simp
qed (use assms in \<open>auto simp: matcher_for_def\<close>)

lemma search_segment:
  assumes bound: "l + n \<le> length es" and sorted: "edges_sorted (take n (drop l es))"
  shows "(c \<in> ke_label ` set (take n (drop l es)) \<longrightarrow> kw_bsearch es c l (l + n) < l + n \<and> ke_label (es ! kw_bsearch es c l (l + n)) = c) \<and>
    (kw_bsearch es c l (l + n) < l + n \<longrightarrow> es ! kw_bsearch es c l (l + n) \<in> set (take n (drop l es)))"
proof -
  let ?seg = "take n (drop l es)"
  define x where "x = kw_bsearch es c l (l + n)"
  have len: "length ?seg = n" using bound by simp
  have at: "?seg ! k = es ! (l + k)" if "k < n" for k using that bound by simp
  have sorted: "byte_of (ke_label (es ! a)) \<le> byte_of (ke_label (es ! b))" if "l \<le> a" "a \<le> b" "b < l + n" for a b
  proof -
    have ab: "a - l \<le> b - l" "b - l < n" "a - l < n" using that by linarith+
    have "map (byte_of \<circ> ke_label) ?seg ! (a - l) \<le> map (byte_of \<circ> ke_label) ?seg ! (b - l)"
      by (rule sorted_nth_mono [OF assms(2) [unfolded edges_sorted_def] ab(1)]) (use ab(2) len in simp)
    then have "byte_of (ke_label (?seg ! (a - l))) \<le> byte_of (ke_label (?seg ! (b - l)))" using ab(2,3) len by simp
    then show ?thesis unfolding at [OF ab(3)] at [OF ab(2)] using that by simp
  qed
  have b: "l \<le> x" "x \<le> l + n" "\<forall>i. l \<le> i \<and> i < x \<longrightarrow> byte_of (ke_label (es ! i)) < byte_of c"
    "\<forall>i. x \<le> i \<and> i < l + n \<longrightarrow> byte_of c \<le> byte_of (ke_label (es ! i))"
    using bsearch_ok [of l "l + n" es c] sorted unfolding x_def by auto
  have "x < l + n \<and> ke_label (es ! x) = c" if c: "c \<in> ke_label ` set ?seg"
  proof -
    obtain k where "k < length ?seg" "ke_label (?seg ! k) = c" using c by (metis (no_types, lifting) imageE in_set_conv_nth)
    then have k: "k < n" "ke_label (es ! (l + k)) = c" using len at [of k] by auto
    have le: "x \<le> l + k" using b(3) k by (metis le_add1 less_irrefl not_le)
    then have lt: "x < l + n" using k(1) by simp
    have "byte_of (ke_label (es ! x)) \<le> byte_of c" using sorted [OF b(1) le] k by simp
    moreover have "byte_of c \<le> byte_of (ke_label (es ! x))" using b(4) lt by blast
    ultimately have "ke_label (es ! x) = c" by (metis byte_of_inj le_antisym)
    with lt show ?thesis by blast
  qed
  moreover have "es ! x \<in> set ?seg" if "x < l + n"
  proof -
    have k: "x - l < n" "l + (x - l) = x" using that b(1) by linarith+
    have "?seg ! (x - l) \<in> set ?seg" by (rule nth_mem) (use k(1) len in simp)
    then show ?thesis unfolding at [OF k(1)] k(2) .
  qed
  ultimately show ?thesis unfolding x_def by blast
qed

lemma next_ok:
  assumes m: "matcher_for lower kws ws m" and w: "w \<in> set ws"
  shows "kw_next m (idx ws w) c = (if w @ [c] \<in> set ws then idx ws (w @ [c]) else 0)"
proof (cases "w = []")
  case True
  then show ?thesis using matcher_sel(3,10) [OF m] by (simp add: kw_next_def)
next
  case False
  note d = matcher_sel(1) [OF m]
  have i: "0 \<le> idx ws w" "nat (idx ws w) < length ws" "ws ! nat (idx ws w) = w" using idx_word [OF d w] by blast+
  then have nz: "idx ws w \<noteq> 0" using False matcher_sel(2,3) [OF m] idx_word [OF d matcher_sel(2) [OF m]] by auto
  define l where "l = nat (kn_start (km_nodes m ! nat (idx ws w)))"
  define n where "n = nat (kn_count (km_nodes m ! nat (idx ws w)))"
  define es where "es = km_edges m"
  define x where "x = kw_bsearch es c l (l + n)"
  have p: "l + n \<le> length es" "edges_sorted (take n (drop l es))"
    "\<forall>e\<in>set (take n (drop l es)). w @ [ke_label e] \<in> set ws \<and> ke_target e = idx ws (w @ [ke_label e])"
    "w @ [c] \<in> set ws \<Longrightarrow> c \<in> ke_label ` set (take n (drop l es))"
    using matcher_sel(9) [OF m w] unfolding node_packed_def segment_def l_def n_def es_def by blast+
  have run: "kw_next m (idx ws w) c = (if x < l + n \<and> ke_label (es ! x) = c then ke_target (es ! x) else 0)"
    using nz i matcher_sel(4) [OF m] by (simp add: kw_next_def Let_def l_def n_def es_def x_def)
  note f = search_segment [OF p(1,2), of c, folded x_def]
  show ?thesis
  proof (cases "w @ [c] \<in> set ws")
    case True
    then have x: "x < l + n \<and> ke_label (es ! x) = c" using f p(4) by blast
    then have "es ! x \<in> set (take n (drop l es))" using f by blast
    with p(3) x have "ke_target (es ! x) = idx ws (w @ [c])" by auto
    with run x True show ?thesis by simp
  next
    case False
    have "\<not> (x < l + n \<and> ke_label (es ! x) = c)" using f p(3) False by auto
    with run False show ?thesis by simp
  qed
qed

lemma step_ok:
  assumes m: "matcher_for lower kws ws m" and "w \<in> set ws" and "length w < n"
  shows "kw_step n m (idx ws w) c = Some (idx ws (lsuf ws (w @ [c])))"
  using assms(2,3)
proof (induction n arbitrary: w)
  case (Suc n)
  note d = matcher_sel(1) [OF m] and root = matcher_sel(2,3) [OF m]
  note nx = next_ok [OF m Suc.prems(1), of c]
  have zero: "idx ws u = 0 \<longleftrightarrow> u = []" if "u \<in> set ws" for u
    using idx_word [OF d that] idx_word [OF d root(1)] root(2) by auto
  show ?case
  proof (cases "w @ [c] \<in> set ws")
    case True
    then show ?thesis using nx zero [OF True] by (simp add: lsuf_id Let_def)
  next
    case False
    show ?thesis
    proof (cases "w = []")
      case True
      then show ?thesis using nx False root(2) by (simp add: lsuf_miss Let_def)
    next
      case neq: False
      then obtain e u where w: "w = e # u" by (cases w) auto
      have fw: "failword ws w \<in> set ws" unfolding failword_def by (rule lsuf_in [OF root(1)])
      have "kn_failure (km_nodes m ! nat (idx ws w)) = idx ws (failword ws w)"
        using matcher_sel(8) [OF m Suc.prems(1)] by (simp add: settled_def)
      then have "kw_step (Suc n) m (idx ws w) c = kw_step n m (idx ws (failword ws w)) c"
        using nx False neq zero [OF Suc.prems(1)] by (simp add: Let_def)
      also have "\<dots> = Some (idx ws (lsuf ws (failword ws w @ [c])))"
        by (rule Suc.IH [OF fw]) (use failword_less [OF neq, of ws] Suc.prems(2) in simp)
      also have "lsuf ws (failword ws w @ [c]) = lsuf ws (w @ [c])"
        using lsuf_fail_closed [OF root(1) matcher_sel(5) [OF m] False neq] by simp
      finally show ?thesis .
    qed
  qed
qed simp

section \<open>The finished matcher\<close>

text \<open>The keyword list fits the 32-bit indices of the arrays, and lower-casing keeps a text non-empty.\<close>

definition fits32 :: "(string \<Rightarrow> string) \<Rightarrow> string list \<Rightarrow> bool" where
  "fits32 lower kws \<longleftrightarrow> int (Suc (sum_list (map (\<lambda>k. length (lower k)) kws))) < 2147483648 \<and> int (length kws) < 2147483648"

lemma matcher_built:
  assumes low: "\<And>k. k \<noteq> [] \<Longrightarrow> lower k \<noteq> []" and fits: "fits32 lower kws"
  shows "new_matcher lower kws = Some None \<and> (\<forall>k\<in>set kws. k = []) \<or>
    (\<exists>m ws. new_matcher lower kws = Some (Some m) \<and> matcher_for lower kws ws m \<and> kws \<noteq> [])"
proof (cases "kws = []")
  case True
  then show ?thesis by (simp add: new_matcher_def)
next
  case False
  obtain nodes edges ws where trie: "kw_trie lower kws = Some (nodes, edges)" "trie_for lower kws (length kws) ws nodes edges"
    using trie_built fits unfolding fits32_def by blast
  have t: "trie_ok ws nodes edges" using trie(2) by (simp add: trie_for_def)
  note s = trie_sel [OF t]
  have words: "words_ok lower kws ws" using trie(2) low by (simp add: words_ok_def trie_for_def)
  show ?thesis
  proof (cases "length nodes = 1")
    case True
    then have "ws = [[]]" using s(1,3) by (cases ws) auto
    then have "\<forall>k\<in>set kws. k = []" using words by (force simp: words_ok_def in_set_conv_nth)
    moreover have "new_matcher lower kws = Some None" using False True trie(1) by (simp add: new_matcher_def)
    ultimately show ?thesis by blast
  next
    case many: False
    obtain roots nodes' where b: "kw_edges_of nodes edges 0 = Some roots" "children ws [] roots"
        "kw_bfs (length nodes) edges nodes (map kb_target roots) = Some nodes'" "trie_ok ws nodes' edges"
        "\<forall>u\<in>set ws. settled lower kws ws nodes' u"
      using failures_built [OF trie(2) words] by blast
    have len: "length nodes' = length ws" using trie_sel(1) [OF b(4)] .
    obtain nodes2 packed where p: "fold_opt (kw_pack edges) [0..<length ws] (nodes', []) = Some (nodes2, packed)" "length nodes2 = length nodes'"
        "map kn_failure nodes2 = map kn_failure nodes'" "map kn_best nodes2 = map kn_best nodes'"
        "\<forall>j < length ws. node_packed ws packed (ws ! j) (nodes2 ! j)"
      using packed_ok [OF b(4) order_refl] by blast
    let ?m = "\<lparr>km_nodes = nodes2, km_edges = packed, km_root = kw_roots roots, km_keywords = kws\<rparr>"
    have run: "new_matcher lower kws = Some (Some ?m)"
      using False trie(1) many b(1,3) p(1) len by (simp add: new_matcher_def)
    have node: "settled lower kws ws nodes2 u \<and> node_packed ws packed u (nodes2 ! nat (idx ws u))" if u: "u \<in> set ws" for u
    proof -
      have i: "nat (idx ws u) < length ws" "ws ! nat (idx ws u) = u" using idx_word [OF s(4) u] by blast+
      have "kn_failure (nodes2 ! j) = kn_failure (nodes' ! j) \<and> kn_best (nodes2 ! j) = kn_best (nodes' ! j)" if "j < length ws" for j
        using that len p(2-4) by (metis nth_map)
      then have "settled lower kws ws nodes2 u" using b(5) u i(1) by (simp add: settled_def)
      with p(5) i show ?thesis by metis
    qed
    have "\<forall>e\<in>set roots. kb_target e = idx ws [kb_label e] \<and> [kb_label e] \<in> set ws" using children_targets [OF t b(2)] by simp
    moreover have "[c] \<in> set ws \<longleftrightarrow> c \<in> kb_label ` set roots" for c
      using b(2) \<open>\<forall>e\<in>set roots. _\<close> unfolding children_def by auto
    ultimately have "length (kw_roots roots) = 256 \<and> (\<forall>c. kw_roots roots ! byte_of c = (if [c] \<in> set ws then idx ws [c] else 0))"
      using roots_ok [of roots ws] by auto
    then have "matcher_for lower kws ws ?m"
      using s(2-4) len p(2) words node prefix_closed [OF t] unfolding matcher_for_def by auto
    with run False show ?thesis by blast
  qed
qed

section \<open>The scan\<close>

definition found :: "(string \<Rightarrow> string) \<Rightarrow> string list \<Rightarrow> string \<Rightarrow> nat \<Rightarrow> bool" where
  "found lower kws u i \<longleftrightarrow> kws ! i \<noteq> [] \<and> sublist (lower (kws ! i)) u"

lemma found_snoc:
  assumes m: "matcher_for lower kws ws m" and i: "i < length kws"
  shows "found lower kws (u @ [c]) i \<longleftrightarrow> found lower kws u i \<or> ends lower kws (lsuf ws (u @ [c])) i"
proof -
  have "suffix (lower (kws ! i)) (u @ [c]) \<longleftrightarrow> suffix (lower (kws ! i)) (lsuf ws (u @ [c]))" if "kws ! i \<noteq> []"
  proof
    have "lower (kws ! i) \<in> set ws" using matcher_sel(6) [OF m] i that by (simp add: words_ok_def)
    then show "suffix (lower (kws ! i)) (u @ [c]) \<Longrightarrow> suffix (lower (kws ! i)) (lsuf ws (u @ [c]))" by (rule lsuf_greatest)
    show "suffix (lower (kws ! i)) (lsuf ws (u @ [c])) \<Longrightarrow> suffix (lower (kws ! i)) (u @ [c])"
      using lsuf_suffix suffix_order.trans by blast
  qed
  then show ?thesis by (auto simp: found_def ends_def sublist_snoc)
qed

lemma found_mono: "found lower kws u i \<Longrightarrow> found lower kws (u @ v) i"
  unfolding found_def by (metis append_assoc sublist_def)

lemma word_fits:
  assumes m: "matcher_for lower kws ws m" and w: "w \<in> set ws"
  shows "length w < length (km_nodes m)"
proof -
  have "(\<lambda>k. take k w) ` {..length w} \<subseteq> set ws"
    using matcher_sel(5) [OF m] w by (metis append_take_drop_id image_subset_iff)
  moreover have "inj_on (\<lambda>k. take k w) {..length w}" by (rule inj_onI) (metis atMost_iff length_take min.absorb2)
  ultimately have "card {..length w} \<le> card (set ws)" by (metis List.finite_set card_image card_mono)
  then show ?thesis using matcher_sel(1,4) [OF m] by (simp add: distinct_card)
qed

lemma scan_ok:
  assumes m: "matcher_for lower kws ws m"
  shows "kw_scan m cs (idx ws (lsuf ws u)) (least_idx (found lower kws u) (length kws)) = Some (least_idx (found lower kws (u @ cs)) (length kws))"
proof (induction cs arbitrary: u)
  case (Cons c cs)
  note root = matcher_sel(2) [OF m]
  let ?v = "lsuf ws (u @ [c])" and ?n = "length kws"
  have v: "?v \<in> set ws" "lsuf ws u \<in> set ws" using lsuf_in [OF root] by blast+
  have closed: "lsuf ws (lsuf ws u @ [c]) = ?v" by (rule lsuf_snoc_closed [OF root matcher_sel(5) [OF m], symmetric])
  from step_ok [OF m v(2) word_fits [OF m v(2)], of c] have step: "kw_step (length (km_nodes m)) m (idx ws (lsuf ws u)) c = Some (idx ws ?v)"
    unfolding closed .
  have best: "min_keyword (least_idx (found lower kws u) ?n) (kn_best (km_nodes m ! nat (idx ws ?v))) = least_idx (found lower kws (u @ [c])) ?n"
  proof -
    have "kn_best (km_nodes m ! nat (idx ws ?v)) = least_idx (ends lower kws ?v) ?n"
      using matcher_sel(8) [OF m v(1)] by (simp add: settled_def)
    moreover have "least_idx (\<lambda>i. found lower kws u i \<or> ends lower kws ?v i) ?n = least_idx (found lower kws (u @ [c])) ?n"
      by (rule least_idx_cong) (use found_snoc [OF m] in simp)
    ultimately show ?thesis by (simp flip: least_idx_min)
  qed
  show ?case
  proof (cases "least_idx (found lower kws (u @ [c])) ?n = 0")
    case True
    then have "0 < ?n" "found lower kws (u @ [c]) 0"
      by (cases rule: least_idx_cases [of ?n "found lower kws (u @ [c])"]; simp)+
    moreover from this have "found lower kws ((u @ [c]) @ cs) 0" by (blast intro: found_mono)
    ultimately have "least_idx (found lower kws ((u @ [c]) @ cs)) ?n = int 0" by (intro least_idxI) auto
    with True step best show ?thesis by (simp add: Let_def)
  next
    case False
    with step best Cons.IH [of "u @ [c]"] show ?thesis by (simp add: Let_def)
  qed
qed simp

text \<open>The search that the automaton stands for: every keyword in the configured order.\<close>

definition first_keyword :: "(string \<Rightarrow> string) \<Rightarrow> string list \<Rightarrow> string \<Rightarrow> string \<times> bool" where
  "first_keyword lower kws text = (case find (\<lambda>k. k \<noteq> [] \<and> sublist (lower k) (lower text)) kws of None \<Rightarrow> ([], False) | Some k \<Rightarrow> (k, True))"

lemma least_first:
  fixes kws :: "string list" and lower :: "string \<Rightarrow> string" and "text" :: string
  defines "b \<equiv> least_idx (found lower kws (lower text)) (length kws)"
  shows "first_keyword lower kws text = (if b < 0 \<or> b \<ge> int (length kws) then ([], False) else (kws ! nat b, True))"
proof (cases rule: least_idx_cases [of "length kws" "found lower kws (lower text)"])
  case 1
  then have "find (\<lambda>k. k \<noteq> [] \<and> sublist (lower k) (lower text)) kws = None"
    by (auto simp: find_None_iff found_def in_set_conv_nth)
  with 1 show ?thesis by (simp add: b_def first_keyword_def)
next
  case (2 k)
  then have "find (\<lambda>k. k \<noteq> [] \<and> sublist (lower k) (lower text)) kws = Some (kws ! k)"
    unfolding find_Some_iff found_def by (intro exI [of _ k]) auto
  with 2 show ?thesis by (simp add: b_def first_keyword_def)
qed

text \<open>
Claim C7: the automaton is equivalent to the search that it replaces: for every list of keywords that fits its
32-bit indices, it is built, and on every text it returns the first configured keyword that occurs in
the text up to letter case, as trying the keywords one after the other does.
\<close>

theorem matcher_equivalent:
  assumes "\<And>k. k \<noteq> [] \<Longrightarrow> lower k \<noteq> []" and "lower [] = []" and "fits32 lower kws"
  shows "Option.bind (new_matcher lower kws) (\<lambda>m. kw_match lower m text) = Some (first_keyword lower kws text)"
proof -
  consider "new_matcher lower kws = Some None" "\<forall>k\<in>set kws. k = []"
    | m ws where "new_matcher lower kws = Some (Some m)" "matcher_for lower kws ws m" "kws \<noteq> []"
    using matcher_built [of lower kws, OF assms(1,3)] by blast
  then show ?thesis
  proof cases
    case 1
    then have "find (\<lambda>k. k \<noteq> [] \<and> sublist (lower k) (lower text)) kws = None" by (auto simp: find_None_iff)
    with 1(1) show ?thesis by (simp add: kw_match_def first_keyword_def)
  next
    case 2
    have kw: "km_keywords m = kws" and ws: "[] \<in> set ws" "idx ws [] = 0" using matcher_sel(2,3,7) [OF 2(2)] by blast+
    have nodes: "km_nodes m \<noteq> []" using 2(2) by (auto simp: matcher_for_def)
    show ?thesis
    proof (cases "text = []")
      case True
      have "\<not> (k \<noteq> [] \<and> sublist (lower k) [])" for k using assms(1) [of k] by auto
      then have "find (\<lambda>k. k \<noteq> [] \<and> sublist (lower k) []) kws = None" unfolding find_None_iff by blast
      with True 2(1) assms(2) show ?thesis by (simp add: kw_match_def first_keyword_def)
    next
      case False
      have "least_idx (found lower kws []) (length kws) = -1"
        by (rule least_idx_none) (auto simp: found_def dest: assms(1))
      moreover have "lsuf ws [] = []" by simp
      ultimately have "kw_scan m (lower text) 0 (-1) = Some (least_idx (found lower kws (lower text)) (length kws))"
        using scan_ok [OF 2(2), of "lower text" "[]"] ws(2) by simp
      then show ?thesis using False 2(1,3) kw nodes by (simp add: kw_match_def least_first)
    qed
  qed
qed

lemma to_lower_Nil [simp]: "to_lower [] = []" by (simp add: to_lower.simps [of "[]"])

lemma to_lower_nonempty: "k \<noteq> [] \<Longrightarrow> to_lower k \<noteq> []"
  by (subst to_lower.simps) (auto split: list.split)

theorem matcher_equivalent_witness:
  "Option.bind (new_matcher to_lower [''his'', ''he'', '''', ''SHE'']) (\<lambda>m. kw_match to_lower m ''usHErs'') = Some (''he'', True)"
proof -
  have f: "fits32 to_lower [''his'', ''he'', '''', ''SHE'']" unfolding fits32_def by code_simp
  have "first_keyword to_lower [''his'', ''he'', '''', ''SHE''] ''usHErs'' = (''he'', True)" by code_simp
  with matcher_equivalent [OF to_lower_nonempty to_lower_Nil f, of "''usHErs''"] show ?thesis by simp
qed

section \<open>Well-formed automata\<close>

definition km_ok :: "kw_matcher \<Rightarrow> bool" where
  "km_ok m = (let state = (\<lambda>s. 0 \<le> s \<and> s < int (length (km_nodes m))) in
     length (km_root m) = 256 \<and> list_all state (km_root m) \<and>
     list_all (\<lambda>n. state (kn_failure n) \<and> -1 \<le> kn_best n \<and> kn_best n < int (length (km_keywords m)) \<and>
       0 \<le> kn_start n \<and> 0 \<le> kn_count n \<and> kn_start n + kn_count n \<le> int (length (km_edges m)) \<and>
       edges_sorted (segment (km_edges m) n) \<and> list_all (\<lambda>e. state (ke_target e)) (segment (km_edges m) n)) (km_nodes m))"

lemma idx_state: "distinct ws \<Longrightarrow> u \<in> set ws \<Longrightarrow> length ns = length ws \<Longrightarrow> 0 \<le> idx ws u \<and> idx ws u < int (length ns)"
  using idx_word [of ws u] by auto

lemma matcher_ok:
  assumes m: "matcher_for lower kws ws m" and kws: "kws \<noteq> []"
  shows "km_ok m"
proof -
  note sel = matcher_sel [OF m]
  note st = idx_state [OF sel(1) _ sel(4)]
  have root: "list_all (\<lambda>s. 0 \<le> s \<and> s < int (length (km_nodes m))) (km_root m)"
  proof -
    have "0 \<le> km_root m ! i \<and> km_root m ! i < int (length (km_nodes m))" if "i < 256" for i
    proof -
      have "km_root m ! byte_of (char_of i) = (if [char_of i] \<in> set ws then idx ws [char_of i] else 0)"
        using m unfolding matcher_for_def by blast
      moreover have "byte_of (char_of i) = i" using that by (simp add: byte_of_def)
      ultimately show ?thesis using st sel(2,3) by (metis (full_types))
    qed
    moreover have "length (km_root m) = 256" using m by (simp add: matcher_for_def)
    ultimately show ?thesis by (simp add: list_all_length)
  qed
  have node: "let n = km_nodes m ! i in 0 \<le> kn_failure n \<and> kn_failure n < int (length (km_nodes m)) \<and> -1 \<le> kn_best n \<and> kn_best n < int (length kws) \<and>
      node_packed ws (km_edges m) (ws ! i) n" if "i < length (km_nodes m)" for i
  proof -
    have i: "i < length ws" "idx ws (ws ! i) = int i" using that sel(4) idx_some [OF sel(1)] by auto
    have "failword ws (ws ! i) \<in> set ws" unfolding failword_def by (rule lsuf_in [OF sel(2)])
    then have "0 \<le> idx ws (failword ws (ws ! i)) \<and> idx ws (failword ws (ws ! i)) < int (length (km_nodes m))" by (rule st)
    then show ?thesis using sel(8,9) [OF nth_mem [OF i(1)]] i(2) least_idx_range [of "ends lower kws (ws ! i)" "length kws"] kws
      by (simp add: settled_def Let_def)
  qed
  have seg: "list_all (\<lambda>e. 0 \<le> ke_target e \<and> ke_target e < int (length (km_nodes m))) (segment (km_edges m) n)"
    if "node_packed ws (km_edges m) w n" for w n
    using that st unfolding node_packed_def list_all_iff by metis
  show ?thesis unfolding km_ok_def Let_def
    using root node seg m sel(7) by (fastforce simp: list_all_length [of _ "km_nodes m"] matcher_for_def node_packed_def Let_def)
qed

text \<open>
Claim C29: a built automaton is well formed, and its steps keep it within its arrays: the root table has an entry for
every byte, all transitions and failure links lead to nodes, every segment of edges lies in the edge
array and is sorted, every best keyword is a keyword, and from every node a step on any byte
ends, within as many failure links as there are nodes, in a node.
\<close>

theorem matcher_typed:
  assumes "\<And>k. k \<noteq> [] \<Longrightarrow> lower k \<noteq> []" and "fits32 lower kws" and "new_matcher lower kws = Some (Some m)"
    and "0 \<le> s" and "s < int (length (km_nodes m))"
  shows "km_ok m \<and> (\<exists>s'. kw_step (length (km_nodes m)) m s c = Some s' \<and> 0 \<le> s' \<and> s' < int (length (km_nodes m)))"
proof -
  obtain ws where ws: "matcher_for lower kws ws m" "kws \<noteq> []"
    using matcher_built [of lower kws, OF assms(1,2)] assms(3) by auto
  note sel = matcher_sel [OF ws(1)]
  let ?w = "ws ! nat s"
  have w: "?w \<in> set ws" "idx ws ?w = s" using assms(4,5) sel(4) idx_some [OF sel(1), of "nat s"] by auto
  have "lsuf ws (?w @ [c]) \<in> set ws" by (rule lsuf_in [OF sel(2)])
  then have "0 \<le> idx ws (lsuf ws (?w @ [c])) \<and> idx ws (lsuf ws (?w @ [c])) < int (length (km_nodes m))"
    by (rule idx_state [OF sel(1) _ sel(4)])
  with step_ok [OF ws(1) w(1) word_fits [OF ws(1) w(1)], of c] matcher_ok [OF ws] w(2) show ?thesis by simp
qed

definition kw_sample :: kw_matcher where
  "kw_sample = the (the (new_matcher to_lower [''aB'', ''b'']))"

theorem matcher_typed_witness:
  "km_ok kw_sample \<and> length (km_nodes kw_sample) = 4 \<and> (\<exists>s'. kw_step 4 kw_sample 2 (CHR ''b'') = Some s' \<and> 0 \<le> s' \<and> s' < 4)"
proof -
  have f: "fits32 to_lower [''aB'', ''b'']" unfolding fits32_def by code_simp
  have m: "new_matcher to_lower [''aB'', ''b''] = Some (Some kw_sample)"
  proof -
    have "(case new_matcher to_lower [''aB'', ''b''] of Some (Some m) \<Rightarrow> True | _ \<Rightarrow> False)" by code_simp
    then show ?thesis by (simp add: kw_sample_def split: option.splits)
  qed
  have n: "length (km_nodes kw_sample) = 4" by code_simp
  show ?thesis using matcher_typed [OF to_lower_nonempty f m, of 2 "CHR ''b''"] n by simp
qed

end
