(* ===== verification/Proxy_Fallback.thy ===== *)
theory Proxy_Fallback
  imports Go_Errors
begin

text \<open>
  The outbound proxy of \<open>backend/internal/service/proxy.go\<close> and the choice of where the accounts of an
  expired proxy go, \<open>backend/internal/service/proxy_fallback.go\<close>. The loop over the chain of backups has no
  bound in the source: it is a partial function, so that not returning is \<open>None\<close>.
\<close>

definition mode_none :: string where "mode_none = ''none''"
definition mode_proxy :: string where "mode_proxy = ''proxy''"
definition mode_direct :: string where "mode_direct = ''direct''"
definition status_active :: string where "status_active = ''active''"
definition status_expired :: string where "status_expired = ''expired''"

lemmas proxy_modes = mode_none_def mode_proxy_def mode_direct_def
lemmas proxy_statuses = status_active_def status_expired_def

record proxy =
  px_id :: int64
  px_name :: string
  px_protocol :: string
  px_host :: string
  px_port :: int
  px_username :: string
  px_password :: string
  px_status :: string
  px_created_at :: gtime
  px_updated_at :: gtime
  px_expires_at :: "gtime option"
  px_mode :: string
  px_backup :: "int64 option"
  px_warn_days :: int

definition is_active :: "proxy \<Rightarrow> bool" where "is_active p \<longleftrightarrow> px_status p = status_active"

definition is_expired :: "proxy \<Rightarrow> gtime \<Rightarrow> bool" where
  "is_expired p now = (case px_expires_at p of None \<Rightarrow> False | Some t \<Rightarrow> \<not> t_after t now)"

partial_function (option) fallback_loop ::
    "(int64, proxy) gomap \<Rightarrow> gtime \<Rightarrow> int64 list \<Rightarrow> int64 option \<Rightarrow> (int64 option \<times> bool) option" where
  [code]: "fallback_loop byID now visited cur =
     (if cur = None then Some (None, False)
      else (let i = the cur in
        if i \<in> set visited then Some (None, False)
        else if gm_get byID i = None then Some (None, False)
        else (let p = the (gm_get byID i) in
          if is_active p \<and> \<not> is_expired p now then Some (Some (px_id p), True)
          else if px_mode p = mode_direct then Some (None, True)
          else if px_mode p = mode_proxy then fallback_loop byID now (i # visited) (px_backup p)
          else Some (None, False))))"

definition resolve_fallback :: "proxy \<Rightarrow> (int64, proxy) gomap \<Rightarrow> gtime \<Rightarrow> (int64 option \<times> bool) option" where
  "resolve_fallback start byID now =
     (if px_mode start = mode_direct then Some (None, True)
      else if px_mode start = mode_proxy then fallback_loop byID now [px_id start] (px_backup start)
      else Some (None, False))"

section \<open>Where a chain of backups leads\<close>

definition usable :: "gtime \<Rightarrow> proxy \<Rightarrow> bool" where "usable now p \<longleftrightarrow> is_active p \<and> \<not> is_expired p now"

definition backup_of :: "(int64, proxy) gomap \<Rightarrow> proxy \<Rightarrow> proxy option" where
  "backup_of byID p = (if px_mode p = mode_proxy then Option.bind (px_backup p) (gm_get byID) else None)"

text \<open>\<open>leads byID now p t\<close>: the proxies that follow \<open>p\<close> are unusable up to one that is direct, or
  usable and then \<open>t\<close>.\<close>

inductive leads :: "(int64, proxy) gomap \<Rightarrow> gtime \<Rightarrow> proxy \<Rightarrow> int64 option \<Rightarrow> bool" for byID now where
  direct: "px_mode p = mode_direct \<Longrightarrow> leads byID now p None"
| pick: "backup_of byID p = Some q \<Longrightarrow> usable now q \<Longrightarrow> leads byID now p (Some (px_id q))"
| hop: "backup_of byID p = Some q \<Longrightarrow> \<not> usable now q \<Longrightarrow> leads byID now q t \<Longrightarrow> leads byID now p t"

fun leads_in :: "(int64, proxy) gomap \<Rightarrow> gtime \<Rightarrow> nat \<Rightarrow> proxy \<Rightarrow> int64 option \<Rightarrow> bool" where
  "leads_in byID now 0 p t = (px_mode p = mode_direct \<and> t = None \<or>
     (case backup_of byID p of None \<Rightarrow> False | Some q \<Rightarrow> usable now q \<and> t = Some (px_id q)))"
| "leads_in byID now (Suc n) p t = (case backup_of byID p of None \<Rightarrow> False | Some q \<Rightarrow> \<not> usable now q \<and> leads_in byID now n q t)"

lemma backup_of_direct [simp]: "px_mode p = mode_direct \<Longrightarrow> backup_of byID p = None"
  by (simp add: backup_of_def proxy_modes)

lemma leads_in_iff: "leads byID now p t \<longleftrightarrow> (\<exists>n. leads_in byID now n p t)"
proof
  assume "leads byID now p t"
  then show "\<exists>n. leads_in byID now n p t"
  proof induction
    case (hop p q t)
    then obtain n where "leads_in byID now n q t" by blast
    with hop(1,2) have "leads_in byID now (Suc n) p t" by simp
    then show ?case ..
  next
    case (direct p)
    then show ?case by (intro exI [of _ 0]) simp
  next
    case (pick p q)
    then show ?case by (intro exI [of _ 0]) simp
  qed
next
  assume "\<exists>n. leads_in byID now n p t"
  then obtain n where "leads_in byID now n p t" by blast
  then show "leads byID now p t"
    by (induction n arbitrary: p) (auto split: option.splits intro: leads.intros)
qed

lemma leads_in_unique: "leads_in byID now n p t \<Longrightarrow> leads_in byID now m p u \<Longrightarrow> n = m \<and> t = u"
proof (induction n arbitrary: p m)
  case 0
  then show ?case by (cases m) (auto split: option.splits)
next
  case (Suc n)
  then show ?case by (cases m) (auto split: option.splits)
qed

text \<open>The pointer of the loop, and what its visited proxies say about it.\<close>

definition ptr_leads :: "(int64, proxy) gomap \<Rightarrow> gtime \<Rightarrow> nat \<Rightarrow> int64 option \<Rightarrow> int64 option \<Rightarrow> bool" where
  "ptr_leads byID now n cur t = (case Option.bind cur (gm_get byID) of None \<Rightarrow> False
     | Some q \<Rightarrow> if usable now q then n = 0 \<and> t = Some (px_id q) else 0 < n \<and> leads_in byID now (n - 1) q t)"

lemma leads_in_ptr: "px_mode p = mode_proxy \<Longrightarrow> leads_in byID now n p t \<longleftrightarrow> ptr_leads byID now n (px_backup p) t"
  by (cases n) (auto simp: ptr_leads_def backup_of_def proxy_modes split: option.splits)

text \<open>Each visited proxy is unusable and leads where the pointer does, by more hops.\<close>

definition loop_inv :: "(int64, proxy) gomap \<Rightarrow> gtime \<Rightarrow> int64 list \<Rightarrow> int64 option \<Rightarrow> bool" where
  "loop_inv byID now visited cur \<longleftrightarrow> (\<forall>i\<in>set visited. \<exists>v k. gm_get byID i = Some v \<and> \<not> usable now v \<and>
     (\<forall>n t. leads_in byID now (n + k) v t \<longleftrightarrow> ptr_leads byID now n cur t) \<and> (\<forall>n t. leads_in byID now n v t \<longrightarrow> k \<le> n))"

lemma loop_inv_cycle:
  assumes "loop_inv byID now visited (Some i)" and "i \<in> set visited"
  shows "\<not> ptr_leads byID now n (Some i) t"
proof
  assume p: "ptr_leads byID now n (Some i) t"
  obtain v k where v: "gm_get byID i = Some v" "\<not> usable now v"
      "\<forall>n t. leads_in byID now (n + k) v t \<longleftrightarrow> ptr_leads byID now n (Some i) t"
    using assms by (auto simp: loop_inv_def)
  then have "leads_in byID now (n + k) v t" "0 < n" "leads_in byID now (n - 1) v t"
    using p by (auto simp: ptr_leads_def)
  then have "n + k = n - 1" by (meson leads_in_unique)
  with \<open>0 < n\<close> show False by simp
qed

lemma loop_inv_hop:
  assumes inv: "loop_inv byID now visited (Some i)" and p: "gm_get byID i = Some p" "\<not> usable now p" "px_mode p = mode_proxy"
  shows "loop_inv byID now (i # visited) (px_backup p)"
proof -
  have step: "ptr_leads byID now (Suc n) (Some i) t \<longleftrightarrow> ptr_leads byID now n (px_backup p) t" for n t
    using p leads_in_ptr [OF p(3)] by (simp add: ptr_leads_def)
  have "\<exists>v k. gm_get byID j = Some v \<and> \<not> usable now v \<and>
     (\<forall>n t. leads_in byID now (n + k) v t \<longleftrightarrow> ptr_leads byID now n (px_backup p) t) \<and> (\<forall>n t. leads_in byID now n v t \<longrightarrow> k \<le> n)"
    if "j \<in> set (i # visited)" for j
  proof (cases "j = i")
    case True
    then show ?thesis using p leads_in_ptr [OF p(3)] by (intro exI [of _ p] exI [of _ 0]) simp
  next
    case False
    with that inv obtain v k where v: "gm_get byID j = Some v" "\<not> usable now v"
        "\<forall>n t. leads_in byID now (n + k) v t \<longleftrightarrow> ptr_leads byID now n (Some i) t" "\<forall>n t. leads_in byID now n v t \<longrightarrow> k \<le> n"
      by (auto simp: loop_inv_def)
    have "Suc k \<le> n" if "leads_in byID now n v t" for n t
    proof -
      have "k \<le> n" using v(4) that by blast
      moreover have "\<not> ptr_leads byID now 0 (Some i) t" using p(1,2) by (simp add: ptr_leads_def)
      then have "n \<noteq> k" using v(3) [rule_format, of 0 t] that by auto
      ultimately show ?thesis by simp
    qed
    moreover have "leads_in byID now (n + Suc k) v t \<longleftrightarrow> ptr_leads byID now n (px_backup p) t" for n t
      using v(3) step by (metis add_Suc_shift)
    ultimately show ?thesis using v(1,2) by blast
  qed
  then show ?thesis by (simp add: loop_inv_def)
qed

lemma fallback_loop_ok:
  assumes "loop_inv byID now visited cur"
  shows "\<exists>t c. fallback_loop byID now visited cur = Some (t, c) \<and>
    (if c then \<exists>n. ptr_leads byID now n cur t else t = None \<and> (\<forall>n u. \<not> ptr_leads byID now n cur u))"
  using assms
proof (induction "card (dom (gm_get byID) - set visited)" arbitrary: visited cur rule: less_induct)
  case less
  note run = fallback_loop.simps [of byID now visited cur]
  show ?case
  proof (cases cur)
    case None
    then show ?thesis unfolding run by (intro exI [of _ None] exI [of _ False]) (simp add: ptr_leads_def)
  next
    case (Some i)
    consider (seen) "i \<in> set visited" | (gone) "i \<notin> set visited" "gm_get byID i = None"
      | (node) p where "i \<notin> set visited" "gm_get byID i = Some p" by fastforce
    then show ?thesis
    proof cases
      case seen
      then show ?thesis unfolding run using loop_inv_cycle less.prems Some by auto
    next
      case gone
      then show ?thesis unfolding run using Some by (intro exI [of _ None] exI [of _ False]) (simp add: ptr_leads_def)
    next
      case node
      show ?thesis
      proof (cases "usable now p \<or> px_mode p \<noteq> mode_proxy")
        case True
        have none: "\<not> leads_in byID now n p u" if "px_mode p \<noteq> mode_proxy" "px_mode p \<noteq> mode_direct" for n u
          using that by (cases n) (simp_all add: backup_of_def)
        have tail: "leads_in byID now n p u \<longleftrightarrow> n = 0 \<and> u = None" if "px_mode p = mode_direct" for n u
          using that by (cases n) simp_all
        show ?thesis unfolding run using True node Some none tail
          by (auto simp: usable_def ptr_leads_def Let_def intro: exI [of _ "Suc 0"])
      next
        case False
        then have m: "\<not> usable now p" "px_mode p = mode_proxy" by auto
        have "card (dom (gm_get byID) - set (i # visited)) < card (dom (gm_get byID) - set visited)"
          by (rule psubset_card_mono) (use node in \<open>auto simp: finite_dom_map_of\<close>)
        from less.hyps [OF this loop_inv_hop [OF less.prems [unfolded Some] node(2) m]]
        obtain t c where IH: "fallback_loop byID now (i # visited) (px_backup p) = Some (t, c)"
            "if c then \<exists>n. ptr_leads byID now n (px_backup p) t else t = None \<and> (\<forall>n u. \<not> ptr_leads byID now n (px_backup p) u)" by blast
        have step: "ptr_leads byID now n cur u \<longleftrightarrow> 0 < n \<and> ptr_leads byID now (n - 1) (px_backup p) u" for n u
          using node(2) m leads_in_ptr [OF m(2)] Some by (simp add: ptr_leads_def)
        have "fallback_loop byID now visited cur = Some (t, c)" unfolding run using node m IH(1) Some
          by (auto simp: usable_def Let_def proxy_modes)
        moreover have "if c then \<exists>n. ptr_leads byID now n cur t else t = None \<and> (\<forall>n u. \<not> ptr_leads byID now n cur u)"
          using IH(2) step by (cases c) (auto intro: exI [of _ "Suc _"])
        ultimately show ?thesis by blast
      qed
    qed
  qed
qed

lemma resolve_ok:
  assumes start: "gm_get byID (px_id start) = Some start" "\<not> usable now start"
  obtains t c where "resolve_fallback start byID now = Some (t, c)"
    "if c then leads byID now start t else t = None \<and> (\<forall>u. \<not> leads byID now start u)"
proof -
  have "\<exists>t c. resolve_fallback start byID now = Some (t, c) \<and>
      (if c then leads byID now start t else t = None \<and> (\<forall>u. \<not> leads byID now start u))"
  proof (cases "px_mode start = mode_proxy")
    case True
    have "loop_inv byID now [px_id start] (px_backup start)"
      using start leads_in_ptr [OF True] by (auto simp: loop_inv_def intro!: exI [of _ 0])
    from fallback_loop_ok [OF this] obtain t c where r: "fallback_loop byID now [px_id start] (px_backup start) = Some (t, c)"
        "if c then \<exists>n. ptr_leads byID now n (px_backup start) t else t = None \<and> (\<forall>n u. \<not> ptr_leads byID now n (px_backup start) u)" by blast
    then have "if c then leads byID now start t else t = None \<and> (\<forall>u. \<not> leads byID now start u)"
      unfolding leads_in_iff leads_in_ptr [OF True] by (cases c) auto
    with r(1) True show ?thesis by (auto simp: resolve_fallback_def proxy_modes)
  next
    case False
    then have "\<not> leads byID now start u" if "px_mode start \<noteq> mode_direct" for u
      using that by (auto simp: backup_of_def elim: leads.cases)
    then show ?thesis using False by (auto simp: resolve_fallback_def intro: leads.direct)
  qed
  with that show thesis by blast
qed

lemma leads_unique: "leads byID now p t \<Longrightarrow> leads byID now p u \<Longrightarrow> t = u"
  unfolding leads_in_iff using leads_in_unique by blast

lemma leads_usable: "leads byID now p (Some j) \<Longrightarrow> \<exists>i q. gm_get byID i = Some q \<and> px_id q = j \<and> usable now q"
  by (induction p "Some j" rule: leads.induct) (auto simp: backup_of_def bind_eq_Some_conv split: if_splits)

end
