(* ===== verification/Proxy_Repo.thy ===== *)
theory Proxy_Repo
  imports Proxy_Fallback Sql_Values Sql_Table
begin

text \<open>
  The proxy repository, \<open>backend/internal/repository/proxy_repo.go\<close>, and \<open>RevertProxyFallback\<close> of
  \<open>account_repo.go\<close>, over the tables \<open>proxies\<close> and \<open>scheduler_outbox\<close> and the columns of \<open>accounts\<close> that their
  statements use. A deletion sets \<open>deleted_at\<close>, as the soft-delete hook of the schema makes it do.
  Every call is one statement or one transaction: the next element of \<open>xd_faults\<close> says whether it fails.
  \<open>NOW()\<close> is \<open>xd_now\<close>; the readings of \<open>time.Now\<close> are arguments. A JSON object is the list of its members
  with their JSON text.
\<close>

section \<open>Data\<close>

record px_row =
  pr_id :: int64
  pr_name :: string
  pr_protocol :: string
  pr_host :: string
  pr_port :: int
  pr_username :: "string option"
  pr_password :: "string option"
  pr_status :: string
  pr_created_at :: gtime
  pr_updated_at :: gtime
  pr_expires_at :: "gtime option"
  pr_mode :: string
  pr_backup :: "int64 option"
  pr_warn_days :: int
  pr_deleted_at :: "gtime option"

record px_account =
  pa_id :: int64
  pa_platform :: string
  pa_type :: string
  pa_proxy :: "int64 option"
  pa_origin :: "int64 option"
  pa_extra :: "(string, string) gomap"
  pa_updated_at :: gtime
  pa_deleted_at :: "gtime option"

record outbox_event =
  ob_type :: string
  ob_account :: "int64 option"
  ob_group :: "int64 option"
  ob_accounts :: "int64 list option"
  ob_dedup :: "string option"

record px_db =
  xd_proxies :: "px_row table"
  xd_accounts :: "px_account list"
  xd_outbox :: "outbox_event list"
  xd_now :: gtime
  xd_faults :: "bool list"

definition err_proxy_not_found :: go_error where "err_proxy_not_found = not_found ''PROXY_NOT_FOUND'' ''proxy not found''"
definition err_proxy_in_use :: go_error where "err_proxy_in_use = conflict_err ''PROXY_IN_USE'' ''proxy is in use by accounts''"
definition err_not_in_fallback :: go_error where
  "err_not_in_fallback = bad_request ''ACCOUNT_NOT_IN_FALLBACK'' ''account is not in proxy fallback state''"
definition err_validation :: go_error where "err_validation = PlainErr ''ent: validator failed''"

lemmas px_errors = err_proxy_not_found_def err_proxy_in_use_def err_not_in_fallback_def err_validation_def

type_synonym 'x px_op = "px_db \<Rightarrow> (go_error + 'x) \<times> px_db"

definition px_call :: "'x px_op \<Rightarrow> 'x px_op" where
  "px_call f db0 = (case xd_faults db0 of
       True # fs \<Rightarrow> (Inl err_db, db0\<lparr>xd_faults := fs\<rparr>)
     | fs \<Rightarrow> (let db = db0\<lparr>xd_faults := tl fs\<rparr> in
         (case f db of (Inl e, _) \<Rightarrow> (Inl e, db) | (Inr x, db1) \<Rightarrow> (Inr x, db1))))"

definition px_read :: "(px_db \<Rightarrow> 'x) \<Rightarrow> 'x px_op" where "px_read f = px_call (\<lambda>db. (Inr (f db), db))"

section \<open>Rows\<close>

definition entity_to_service :: "px_row \<Rightarrow> proxy" where
  "entity_to_service r = \<lparr>px_id = pr_id r, px_name = pr_name r, px_protocol = pr_protocol r, px_host = pr_host r,
     px_port = pr_port r, px_username = (case pr_username r of None \<Rightarrow> [] | Some u \<Rightarrow> u),
     px_password = (case pr_password r of None \<Rightarrow> [] | Some u \<Rightarrow> u), px_status = pr_status r,
     px_created_at = pr_created_at r, px_updated_at = pr_updated_at r, px_expires_at = pr_expires_at r,
     px_mode = pr_mode r, px_backup = pr_backup r, px_warn_days = pr_warn_days r\<rparr>"

definition pr_live :: "px_row \<Rightarrow> bool" where "pr_live r \<longleftrightarrow> pr_deleted_at r = None"
definition pa_live :: "px_account \<Rightarrow> bool" where "pa_live a \<longleftrightarrow> pa_deleted_at a = None"

definition live_proxy :: "int64 \<Rightarrow> px_db \<Rightarrow> px_row option" where
  "live_proxy i db = tab_find (\<lambda>r. pr_id r = i \<and> pr_live r) (xd_proxies db)"

text \<open>The columns that \<open>Create\<close> and \<open>Update\<close> assign.\<close>

definition set_columns :: "proxy \<Rightarrow> gtime \<Rightarrow> px_row \<Rightarrow> px_row" where
  "set_columns p now r = r\<lparr>pr_name := px_name p, pr_protocol := px_protocol p, pr_host := px_host p, pr_port := px_port p,
     pr_username := (if px_username p = [] then None else Some (px_username p)),
     pr_password := (if px_password p = [] then None else Some (px_password p)),
     pr_status := px_status p, pr_updated_at := now, pr_expires_at := px_expires_at p, pr_mode := px_mode p,
     pr_backup := px_backup p, pr_warn_days := px_warn_days p\<rparr>"

text \<open>The validators of the schema count bytes, the columns characters.\<close>

definition text_size :: "nat \<Rightarrow> string \<Rightarrow> bool" where "text_size n s \<longleftrightarrow> s \<noteq> [] \<and> length s \<le> n"

definition validators_ok :: "px_row \<Rightarrow> bool" where
  "validators_ok r \<longleftrightarrow> text_size 100 (pr_name r) \<and> text_size 20 (pr_protocol r) \<and> text_size 255 (pr_host r) \<and>
     (case pr_username r of None \<Rightarrow> True | Some u \<Rightarrow> length u \<le> 100) \<and> (case pr_password r of None \<Rightarrow> True | Some u \<Rightarrow> length u \<le> 100) \<and>
     length (pr_status r) \<le> 20 \<and> length (pr_mode r) \<le> 20"

definition in_int32 :: "int \<Rightarrow> bool" where "in_int32 x \<longleftrightarrow> wrap32 x = x"

definition columns_ok :: "px_row \<Rightarrow> bool" where
  "columns_ok r \<longleftrightarrow> pg_text 100 (pr_name r) \<and> pg_text 20 (pr_protocol r) \<and> pg_text 255 (pr_host r) \<and> opt_text 100 (pr_username r) \<and>
     opt_text 100 (pr_password r) \<and> pg_text 20 (pr_status r) \<and> pg_text 20 (pr_mode r) \<and> in_int32 (pr_port r) \<and> in_int32 (pr_warn_days r)"

definition backup_exists :: "px_row list \<Rightarrow> px_row \<Rightarrow> bool" where
  "backup_exists rows r \<longleftrightarrow> (case pr_backup r of None \<Rightarrow> True | Some b \<Rightarrow> list_ex (\<lambda>q. pr_id q = b) rows)"

definition write_error :: "px_row list \<Rightarrow> px_row \<Rightarrow> go_error option" where
  "write_error rows r = (if \<not> validators_ok r then Some err_validation else if \<not> columns_ok r then Some err_check
     else if \<not> backup_exists rows r then Some err_foreign_key else None)"

section \<open>The scheduler outbox\<close>

definition event_account_changed :: string where "event_account_changed = ''account_changed''"
definition event_bulk_changed :: string where "event_bulk_changed = ''account_bulk_changed''"
definition event_group_changed :: string where "event_group_changed = ''group_changed''"
definition event_full_rebuild :: string where "event_full_rebuild = ''full_rebuild''"
definition outbox_chunk :: nat where "outbox_chunk = 500"

definition supports_dedup :: "string \<Rightarrow> bool" where
  "supports_dedup t \<longleftrightarrow> t = event_account_changed \<or> t = event_group_changed \<or> t = event_full_rebuild"

definition dedup_key :: "(string \<Rightarrow> string) \<Rightarrow> string \<Rightarrow> int64 option \<Rightarrow> int64 option \<Rightarrow> string \<Rightarrow> string" where
  "dedup_key hex t acc grp payload = ''scheduler_outbox:'' @ hex (t @ [CHR 0x00] @ (case acc of None \<Rightarrow> [] | Some i \<Rightarrow> itoa i) @ [CHR 0x00] @
     (case grp of None \<Rightarrow> [] | Some i \<Rightarrow> itoa i) @ [CHR 0x00] @ payload)"

text \<open>The JSON text of \<open>{"account_ids": ids}\<close>.\<close>

definition payload_json :: "int64 list option \<Rightarrow> string" where
  "payload_json ids = (case ids of None \<Rightarrow> [] | Some ids \<Rightarrow>
     ''{'' @ [CHR 0x22] @ ''account_ids'' @ [CHR 0x22] @ '':['' @ concat (case map itoa ids of [] \<Rightarrow> [] | s # ss \<Rightarrow> s # map (\<lambda>t. CHR '','' # t) ss) @ '']}'')"

definition enqueue_event :: "(string \<Rightarrow> string) \<Rightarrow> string \<Rightarrow> int64 option \<Rightarrow> int64 option \<Rightarrow> int64 list option \<Rightarrow> px_db \<Rightarrow> px_db" where
  "enqueue_event hex t acc grp ids db =
     (let key = (if supports_dedup t then Some (dedup_key hex t acc grp (payload_json ids)) else None)
      in if key \<noteq> None \<and> list_ex (\<lambda>e. ob_dedup e = key) (xd_outbox db) then db
         else db\<lparr>xd_outbox := xd_outbox db @ [\<lparr>ob_type = t, ob_account = acc, ob_group = grp, ob_accounts = ids, ob_dedup = key\<rparr>]\<rparr>)"

definition sorted_unique_ids :: "int64 list \<Rightarrow> int64 list" where
  "sorted_unique_ids ids = (if length ids < 2 then ids else remdups_adj (sort ids))"

function id_chunks :: "int64 list \<Rightarrow> int64 list list" where
  "id_chunks ids = (if ids = [] then [] else take outbox_chunk ids # id_chunks (drop outbox_chunk ids))"
  by pat_completeness auto
termination by (relation "measure length") (auto simp: outbox_chunk_def)

declare id_chunks.simps [simp del]

definition enqueue_probe_changes :: "(string \<Rightarrow> string) \<Rightarrow> int64 list \<Rightarrow> px_db \<Rightarrow> px_db" where
  "enqueue_probe_changes hex ids db =
     fold (\<lambda>chunk. enqueue_event hex event_bulk_changed None None (Some chunk)) (id_chunks (sorted_unique_ids ids)) db"

section \<open>Reading and writing proxies\<close>

definition px_create :: "gtime \<Rightarrow> proxy \<Rightarrow> proxy px_op" where
  "px_create now p = px_call (\<lambda>db.
     (let mk = (\<lambda>i. set_columns p now \<lparr>pr_id = i, pr_name = [], pr_protocol = [], pr_host = [], pr_port = 0, pr_username = None,
            pr_password = None, pr_status = [], pr_created_at = now, pr_updated_at = now, pr_expires_at = None, pr_mode = [],
            pr_backup = None, pr_warn_days = 0, pr_deleted_at = None\<rparr>);
          (i, tab) = tab_insert mk (xd_proxies db)
      in case write_error (t_rows tab) (mk i) of Some e \<Rightarrow> (Inl e, db)
         | None \<Rightarrow> (Inr (p\<lparr>px_id := i, px_created_at := now, px_updated_at := now\<rparr>), db\<lparr>xd_proxies := tab\<rparr>)))"

definition px_get :: "int64 \<Rightarrow> proxy px_op" where
  "px_get i = px_call (\<lambda>db. (case live_proxy i db of None \<Rightarrow> Inl err_proxy_not_found | Some r \<Rightarrow> Inr (entity_to_service r), db))"

definition select_proxies :: "(px_row list \<Rightarrow> px_row list) \<Rightarrow> (px_row \<Rightarrow> bool) \<Rightarrow> px_db \<Rightarrow> proxy list" where
  "select_proxies ord cond db = map entity_to_service (ord (tab_select (\<lambda>r. pr_live r \<and> cond r) (xd_proxies db)))"

definition px_list_by_ids :: "(px_row list \<Rightarrow> px_row list) \<Rightarrow> int64 list \<Rightarrow> proxy list px_op" where
  "px_list_by_ids ord ids = (if ids = [] then (\<lambda>db. (Inr [], db)) else px_read (select_proxies ord (\<lambda>r. pr_id r \<in> set ids)))"

definition px_list_active :: "(px_row list \<Rightarrow> px_row list) \<Rightarrow> proxy list px_op" where
  "px_list_active ord = px_read (select_proxies ord (\<lambda>r. pr_status r = status_active))"

definition px_list_all :: "(px_row list \<Rightarrow> px_row list) \<Rightarrow> proxy list px_op" where
  "px_list_all ord = px_read (select_proxies ord (\<lambda>r. True))"

definition px_exists :: "string \<Rightarrow> int \<Rightarrow> string \<Rightarrow> string \<Rightarrow> bool px_op" where
  "px_exists host port username password = px_read (\<lambda>db. 0 < length (tab_select (\<lambda>r. pr_live r \<and> pr_host r = host \<and> pr_port r = port \<and>
     (if username = [] then pr_username r = None \<or> pr_username r = Some [] else pr_username r = Some username) \<and>
     (if password = [] then pr_password r = None \<or> pr_password r = Some [] else pr_password r = Some password)) (xd_proxies db)))"

definition px_delete :: "gtime \<Rightarrow> int64 \<Rightarrow> unit px_op" where
  "px_delete now i = px_call (\<lambda>db. (Inr (), db\<lparr>xd_proxies := snd (tab_update (\<lambda>r. pr_id r = i \<and> pr_live r) (\<lambda>r. r\<lparr>pr_deleted_at := Some now\<rparr>) (xd_proxies db))\<rparr>))"

definition accounts_of :: "int64 \<Rightarrow> px_db \<Rightarrow> px_account list" where
  "accounts_of i db = filter (\<lambda>a. pa_proxy a = Some i \<and> pa_live a) (xd_accounts db)"

definition px_count_accounts :: "int64 \<Rightarrow> int px_op" where
  "px_count_accounts i = px_read (\<lambda>db. int (length (accounts_of i db)))"

definition px_account_counts :: "(int64, int) gomap px_op" where
  "px_account_counts = px_read (\<lambda>db. map (\<lambda>i. (i, int (length (accounts_of i db))))
     (remdups (List.map_filter (\<lambda>a. if pa_live a then pa_proxy a else None) (xd_accounts db))))"

definition px_count_expired :: "int px_op" where
  "px_count_expired = px_read (\<lambda>db. int (length (tab_select (\<lambda>r. pr_status r = status_expired \<and> pr_live r) (xd_proxies db))))"

text \<open>\<open>add_days\<close> is PostgreSQL's addition of days to a time, which depends on the session's time zone.\<close>

definition px_count_expiring :: "(gtime \<Rightarrow> int \<Rightarrow> gtime) \<Rightarrow> gtime \<Rightarrow> int px_op" where
  "px_count_expiring add_days now = px_read (\<lambda>db. int (length (tab_select (\<lambda>r. pr_live r \<and> pr_status r = status_active \<and>
     (case pr_expires_at r of None \<Rightarrow> False | Some t \<Rightarrow> now < t \<and> t \<le> add_days now (pr_warn_days r))) (xd_proxies db))))"

section \<open>The probe snapshots of the accounts\<close>

definition key_billing_probe :: string where "key_billing_probe = ''upstream_billing_probe''"
definition key_ollama :: string where "key_ollama = ''ollama_cloud_usage_snapshot''"
definition key_opencode :: string where "key_opencode = ''opencode_go_usage_snapshot''"
definition mount_platforms :: "string list" where
  "mount_platforms = [''openai'', ''anthropic'', ''kimi'', ''zhipu'', ''deepseek'', ''minimax'']"

definition has_snapshot :: "string \<Rightarrow> px_account \<Rightarrow> bool" where
  "has_snapshot k a \<longleftrightarrow> (case gm_get (pa_extra a) k of None \<Rightarrow> False | Some v \<Rightarrow> v \<noteq> ''null'')"

definition probe_stale :: "int64 \<Rightarrow> px_account \<Rightarrow> bool" where
  "probe_stale i a \<longleftrightarrow> pa_proxy a = Some i \<and> pa_type a = ''apikey'' \<and>
     (has_snapshot key_billing_probe a \<or> pa_platform a \<in> set mount_platforms \<and> has_snapshot key_ollama a \<or>
      (pa_platform a = ''opencode_go'' \<or> pa_platform a \<in> set mount_platforms) \<and> has_snapshot key_opencode a) \<and> pa_live a"

definition drop_snapshots :: "gtime \<Rightarrow> px_account \<Rightarrow> px_account" where
  "drop_snapshots now a = a\<lparr>pa_extra := gm_del key_opencode (gm_del key_ollama (gm_del key_billing_probe (pa_extra a))), pa_updated_at := now\<rparr>"

definition update_accounts :: "(px_account \<Rightarrow> bool) \<Rightarrow> (px_account \<Rightarrow> px_account) \<Rightarrow> px_db \<Rightarrow> int64 list \<times> px_db" where
  "update_accounts cond f db = (map pa_id (filter cond (xd_accounts db)),
     db\<lparr>xd_accounts := map (\<lambda>a. if cond a then f a else a) (xd_accounts db)\<rparr>)"

definition invalidate_probes :: "int64 \<Rightarrow> px_db \<Rightarrow> int64 list \<times> px_db" where
  "invalidate_probes i db = update_accounts (probe_stale i) (drop_snapshots (xd_now db)) db"

definition probe_identity :: "px_row \<Rightarrow> string \<times> string \<times> int \<times> string \<times> string \<times> string" where
  "probe_identity r = (pr_protocol r, pr_host r, pr_port r, case pr_username r of None \<Rightarrow> [] | Some u \<Rightarrow> u,
     case pr_password r of None \<Rightarrow> [] | Some u \<Rightarrow> u, pr_status r)"

definition service_identity :: "proxy \<Rightarrow> string \<times> string \<times> int \<times> string \<times> string \<times> string" where
  "service_identity p = (px_protocol p, px_host p, px_port p, px_username p, px_password p, px_status p)"

definition px_update_on :: "(string \<Rightarrow> string) \<Rightarrow> gtime \<Rightarrow> proxy \<Rightarrow> proxy px_op" where
  "px_update_on hex now p db = (case live_proxy (px_id p) db of None \<Rightarrow> (Inl err_proxy_not_found, db)
     | Some r \<Rightarrow> (let tab = snd (tab_update (\<lambda>q. pr_id q = px_id p) (set_columns p now) (xd_proxies db));
         out = p\<lparr>px_created_at := pr_created_at r, px_updated_at := now\<rparr>;
         db1 = db\<lparr>xd_proxies := tab\<rparr>
       in case write_error (t_rows tab) (set_columns p now r) of Some e \<Rightarrow> (Inl e, db)
          | None \<Rightarrow> if probe_identity r = service_identity p then (Inr out, db1)
              else (let (ids, db2) = invalidate_probes (px_id p) db1 in (Inr out, enqueue_probe_changes hex ids db2))))"

definition px_update :: "(string \<Rightarrow> string) \<Rightarrow> gtime \<Rightarrow> proxy \<Rightarrow> proxy px_op" where
  "px_update hex now p = px_call (px_update_on hex now p)"

section \<open>The sweep of expired proxies\<close>

definition still_expired :: "proxy \<Rightarrow> gtime \<Rightarrow> px_row \<Rightarrow> bool" where
  "still_expired snap now r \<longleftrightarrow> pr_id r = px_id snap \<and> pr_live r \<and> pr_status r = status_active \<and>
     (case (pr_expires_at r, px_expires_at snap) of (Some t, Some u) \<Rightarrow> t \<le> now \<and> t = u | _ \<Rightarrow> False) \<and>
     pr_mode r = px_mode snap \<and> pr_backup r = px_backup snap"

definition reroute :: "int64 \<Rightarrow> int64 option \<Rightarrow> gtime \<Rightarrow> px_account \<Rightarrow> px_account" where
  "reroute i target now a = a\<lparr>pa_proxy := target, pa_origin := (case pa_origin a of None \<Rightarrow> Some i | Some j \<Rightarrow> Some j),
     pa_extra := (if pa_type a = ''apikey'' \<and> gm_get (pa_extra a) key_billing_probe \<noteq> None then gm_del key_billing_probe (pa_extra a) else pa_extra a),
     pa_updated_at := now\<rparr>"

definition sweep_one_on_exec :: "(string \<Rightarrow> string) \<Rightarrow> proxy \<Rightarrow> gtime \<Rightarrow> int64 option \<Rightarrow> bool \<Rightarrow> px_db \<Rightarrow> int64 list \<times> px_db" where
  "sweep_one_on_exec hex snap now target change db =
     (let i = px_id snap;
          (changed, tab) = tab_update (still_expired snap now) (\<lambda>r. r\<lparr>pr_status := status_expired, pr_updated_at := xd_now db\<rparr>) (xd_proxies db);
          db1 = db\<lparr>xd_proxies := tab\<rparr>
      in if changed = 0 then ([], db1)
         else if \<not> change then (let (ids, db2) = invalidate_probes i db1 in ([], enqueue_probe_changes hex ids db2))
         else update_accounts (\<lambda>a. pa_proxy a = Some i \<and> pa_live a) (reroute i target (xd_now db)) db1)"

definition sweep_expired_one :: "(string \<Rightarrow> string) \<Rightarrow> proxy \<Rightarrow> gtime \<Rightarrow> int64 option \<Rightarrow> bool \<Rightarrow> int64 list px_op" where
  "sweep_expired_one hex snap now target change = px_call (\<lambda>db. let (ids, db1) = sweep_one_on_exec hex snap now target change db in (Inr ids, db1))"

text \<open>The loop over the snapshot: the identifiers of the accounts it changed, its error, and the
  database. \<open>None\<close> stands for a choice of a target that does not return.\<close>

fun sweep_loop :: "(string \<Rightarrow> string) \<Rightarrow> (int64, proxy) gomap \<Rightarrow> gtime \<Rightarrow> proxy list \<Rightarrow> px_db \<Rightarrow> (int64 list \<times> go_error option \<times> px_db) option" where
  "sweep_loop hex byID now [] db = Some ([], None, db)"
| "sweep_loop hex byID now (p # ps) db =
     (if \<not> is_active p \<or> \<not> is_expired p now then sweep_loop hex byID now ps db
      else Option.bind (resolve_fallback p byID now) (\<lambda>(target, change).
        case sweep_expired_one hex p now target change db of
          (Inl e, db1) \<Rightarrow> Some ([], Some e, db1)
        | (Inr ids, db1) \<Rightarrow> map_option (\<lambda>(more, e, db2). (ids @ more, e, db2)) (sweep_loop hex byID now ps db1)))"

definition sweep_expired :: "(string \<Rightarrow> string) \<Rightarrow> (px_row list \<Rightarrow> px_row list) \<Rightarrow> gtime \<Rightarrow> px_db \<Rightarrow> ((int \<times> go_error option) \<times> px_db) option" where
  "sweep_expired hex ord now db = (case px_list_all ord db of
     (Inl e, db1) \<Rightarrow> Some ((0, Some e), db1)
   | (Inr ps, db1) \<Rightarrow> map_option (\<lambda>(ids, e, db2).
       case e of Some e \<Rightarrow> ((int (length ids), Some e), db2)
       | None \<Rightarrow> (let changed = sorted_unique_ids ids
           in ((int (length ids), None), if changed = [] then db2
              else snd (px_call (\<lambda>db. (Inr (), enqueue_event hex event_bulk_changed None None (Some changed) db)) db2))))
       (sweep_loop hex (foldl (\<lambda>m p. gm_put (px_id p) p m) [] ps) now ps db1))"

section \<open>Back to the origin\<close>

definition in_fallback :: "int64 \<Rightarrow> px_account \<Rightarrow> bool" where "in_fallback i a \<longleftrightarrow> pa_id a = i \<and> pa_origin a \<noteq> None \<and> pa_live a"

definition go_home :: "gtime \<Rightarrow> px_account \<Rightarrow> px_account" where
  "go_home t a = a\<lparr>pa_extra := (if pa_type a = ''apikey'' \<and> pa_proxy a \<noteq> pa_origin a then gm_del key_billing_probe (pa_extra a) else pa_extra a),
     pa_proxy := pa_origin a, pa_origin := None, pa_updated_at := t\<rparr>"

definition revert_rows :: "int64 \<Rightarrow> px_db \<Rightarrow> (go_error + nat) \<times> px_db" where
  "revert_rows i db = (let (ids, db1) = update_accounts (in_fallback i) (go_home (xd_now db)) db in (Inr (length ids), db1))"

definition revert_fallback :: "(string \<Rightarrow> string) \<Rightarrow> int64 \<Rightarrow> unit px_op" where
  "revert_fallback hex i db = (case px_call (revert_rows i) db of
     (Inl e, db1) \<Rightarrow> (Inl e, db1)
   | (Inr n, db1) \<Rightarrow> if n = 0 then (Inl err_not_in_fallback, db1)
       else (Inr (), snd (px_call (\<lambda>db. (Inr (), enqueue_event hex event_account_changed (Some i) None None db)) db1)))"

end
