(* ===== verification/Proxy_Admin.thy ===== *)
theory Proxy_Admin
  imports Proxy_Repo
begin

text \<open>
  The management of proxies: \<open>backend/internal/service/admin_proxy.go\<close> and the older
  \<open>backend/internal/service/proxy_service.go\<close>, over the calls of \<open>Proxy_Repo\<close>. The latency probe
  that a creation starts in the background is not modelled. Instants are in UTC, as the handlers make them.
  A skipped deletion keeps the error whose text the code returns. The last section puts the operations
  together as the actions on the database.
\<close>

section \<open>The year of an instant\<close>

text \<open>\<open>time.Time.Year\<close>: the day of the calendar of 400, 100, 4 and 1 years; the instant 0 begins the year 1.\<close>

definition go_year :: "gtime \<Rightarrow> int" where
  "go_year t = (let d = t div (24 * hour); n400 = d div 146097; d1 = d mod 146097;
     n100 = min 3 (d1 div 36524); d2 = d1 - n100 * 36524; n4 = d2 div 1461; d3 = d2 mod 1461; n1 = min 3 (d3 div 365)
   in 400 * n400 + 100 * n100 + 4 * n4 + n1 + 1)"

definition json_time_in_range :: "gtime option \<Rightarrow> bool" where
  "json_time_in_range v = (case v of None \<Rightarrow> True | Some t \<Rightarrow> 0 \<le> go_year t \<and> go_year t \<le> 9999)"

section \<open>Inputs\<close>

record create_proxy_input =
  cp_name :: string
  cp_protocol :: string
  cp_host :: string
  cp_port :: int
  cp_username :: string
  cp_password :: string
  cp_expires_at :: "gtime option"
  cp_mode :: string
  cp_backup :: "int64 option"
  cp_warn_days :: int

record update_proxy_input =
  up_name :: string
  up_protocol :: string
  up_host :: string
  up_port :: int
  up_username :: "string option"
  up_password :: "string option"
  up_status :: string
  up_expires_at :: "gtime option"
  up_clear_expires :: bool
  up_mode :: string
  up_backup :: "int64 option"
  up_clear_backup :: bool
  up_warn_days :: "int option"

definition err_expiry_invalid :: go_error where
  "err_expiry_invalid = bad_request ''PROXY_EXPIRY_INVALID'' ''proxy expiry year must be between 0 and 9999''"
definition err_backup_required :: go_error where
  "err_backup_required = bad_request ''PROXY_BACKUP_REQUIRED'' ''backup proxy required when fallback_mode=proxy''"
definition err_warn_days :: go_error where
  "err_warn_days = bad_request ''PROXY_WARN_DAYS_INVALID'' ''expiry_warn_days must be >= 0''"
definition err_backup_self :: go_error where
  "err_backup_self = bad_request ''PROXY_BACKUP_SELF'' ''backup proxy cannot be itself''"

section \<open>The administrator's operations\<close>

definition create_proxy :: "gtime \<Rightarrow> create_proxy_input \<Rightarrow> proxy px_op" where
  "create_proxy now inp db =
     (if \<not> json_time_in_range (cp_expires_at inp) then (Inl err_expiry_invalid, db)
      else (let mode = (if cp_mode inp = [] then mode_none else cp_mode inp)
        in if mode = mode_proxy \<and> cp_backup inp = None then (Inl err_backup_required, db)
           else if cp_warn_days inp < 0 then (Inl err_warn_days, db)
           else px_create now \<lparr>px_id = 0, px_name = cp_name inp, px_protocol = cp_protocol inp, px_host = cp_host inp, px_port = cp_port inp,
             px_username = cp_username inp, px_password = cp_password inp, px_status = status_active, px_created_at = zero_time,
             px_updated_at = zero_time, px_expires_at = cp_expires_at inp, px_mode = mode, px_backup = cp_backup inp,
             px_warn_days = cp_warn_days inp\<rparr> db))"

definition merge_update :: "update_proxy_input \<Rightarrow> string \<Rightarrow> int64 option \<Rightarrow> proxy \<Rightarrow> proxy" where
  "merge_update inp mode backup p = p\<lparr>
     px_name := (if up_name inp \<noteq> [] then up_name inp else px_name p),
     px_protocol := (if up_protocol inp \<noteq> [] then up_protocol inp else px_protocol p),
     px_host := (if up_host inp \<noteq> [] then up_host inp else px_host p),
     px_port := (if up_port inp \<noteq> 0 then up_port inp else px_port p),
     px_username := (case up_username inp of Some u \<Rightarrow> u | None \<Rightarrow> px_username p),
     px_password := (case up_password inp of Some u \<Rightarrow> u | None \<Rightarrow> px_password p),
     px_status := (if up_status inp \<noteq> [] then up_status inp else px_status p),
     px_expires_at := (if up_expires_at inp \<noteq> None \<or> up_clear_expires inp then up_expires_at inp else px_expires_at p),
     px_mode := mode, px_backup := backup,
     px_warn_days := (case up_warn_days inp of Some n \<Rightarrow> n | None \<Rightarrow> px_warn_days p)\<rparr>"

definition update_proxy :: "(string \<Rightarrow> string) \<Rightarrow> gtime \<Rightarrow> int64 \<Rightarrow> update_proxy_input \<Rightarrow> proxy px_op" where
  "update_proxy hex now i inp db =
     (if \<not> json_time_in_range (up_expires_at inp) then (Inl err_expiry_invalid, db)
      else if up_backup inp = Some i then (Inl err_backup_self, db)
      else (case px_get i db of (Inl e, db1) \<Rightarrow> (Inl e, db1)
        | (Inr p, db1) \<Rightarrow>
          (let mode = (if up_mode inp \<noteq> [] then up_mode inp else px_mode p);
               backup = (if up_backup inp \<noteq> None \<or> up_clear_backup inp then up_backup inp else px_backup p)
           in if mode = mode_proxy \<and> backup = None then (Inl err_backup_required, db1)
              else if (case up_warn_days inp of Some n \<Rightarrow> n < 0 | None \<Rightarrow> False) then (Inl err_warn_days, db1)
              else px_update hex now (merge_update inp mode backup p) db1)))"

definition delete_proxy :: "gtime \<Rightarrow> int64 \<Rightarrow> unit px_op" where
  "delete_proxy now i db = (case px_count_accounts i db of (Inl e, db1) \<Rightarrow> (Inl e, db1)
     | (Inr n, db1) \<Rightarrow> if n > 0 then (Inl err_proxy_in_use, db1) else px_delete now i db1)"

text \<open>The deleted identifiers and the skipped ones with their errors.\<close>

fun batch_delete :: "gtime \<Rightarrow> int64 list \<Rightarrow> px_db \<Rightarrow> (int64 list \<times> (int64 \<times> go_error) list) \<times> px_db" where
  "batch_delete now [] db = (([], []), db)"
| "batch_delete now (i # ids) db = (case delete_proxy now i db of
     (Inl e, db1) \<Rightarrow> (case batch_delete now ids db1 of ((del, skip), db2) \<Rightarrow> ((del, (i, e) # skip), db2))
   | (Inr _, db1) \<Rightarrow> (case batch_delete now ids db1 of ((del, skip), db2) \<Rightarrow> ((i # del, skip), db2)))"

section \<open>The proxy service\<close>

record create_proxy_request =
  cr_name :: string
  cr_protocol :: string
  cr_host :: string
  cr_port :: int
  cr_username :: string
  cr_password :: string

record update_proxy_request =
  ur_name :: "string option"
  ur_protocol :: "string option"
  ur_host :: "string option"
  ur_port :: "int option"
  ur_username :: "string option"
  ur_password :: "string option"
  ur_status :: "string option"

definition px_wrap :: "string \<Rightarrow> 'x px_op \<Rightarrow> 'x px_op" where
  "px_wrap msg f db = (case f db of (Inl e, db1) \<Rightarrow> (Inl (WrapErr msg e), db1) | (Inr x, db1) \<Rightarrow> (Inr x, db1))"

definition service_create :: "gtime \<Rightarrow> create_proxy_request \<Rightarrow> proxy px_op" where
  "service_create now req = px_wrap ''create proxy'' (px_create now \<lparr>px_id = 0, px_name = cr_name req, px_protocol = cr_protocol req,
     px_host = cr_host req, px_port = cr_port req, px_username = cr_username req, px_password = cr_password req, px_status = status_active,
     px_created_at = zero_time, px_updated_at = zero_time, px_expires_at = None, px_mode = [], px_backup = None, px_warn_days = 0\<rparr>)"

definition service_get :: "int64 \<Rightarrow> proxy px_op" where "service_get i = px_wrap ''get proxy'' (px_get i)"

definition service_update :: "(string \<Rightarrow> string) \<Rightarrow> gtime \<Rightarrow> int64 \<Rightarrow> update_proxy_request \<Rightarrow> proxy px_op" where
  "service_update hex now i req db = (case service_get i db of (Inl e, db1) \<Rightarrow> (Inl e, db1)
     | (Inr p, db1) \<Rightarrow> px_wrap ''update proxy'' (px_update hex now (p\<lparr>
         px_name := (case ur_name req of Some v \<Rightarrow> v | None \<Rightarrow> px_name p),
         px_protocol := (case ur_protocol req of Some v \<Rightarrow> v | None \<Rightarrow> px_protocol p),
         px_host := (case ur_host req of Some v \<Rightarrow> v | None \<Rightarrow> px_host p),
         px_port := (case ur_port req of Some v \<Rightarrow> v | None \<Rightarrow> px_port p),
         px_username := (case ur_username req of Some v \<Rightarrow> v | None \<Rightarrow> px_username p),
         px_password := (case ur_password req of Some v \<Rightarrow> v | None \<Rightarrow> px_password p),
         px_status := (case ur_status req of Some v \<Rightarrow> v | None \<Rightarrow> px_status p)\<rparr>)) db1)"

definition service_delete :: "gtime \<Rightarrow> int64 \<Rightarrow> unit px_op" where
  "service_delete now i db = (case service_get i db of (Inl e, db1) \<Rightarrow> (Inl e, db1)
     | (Inr _, db1) \<Rightarrow> px_wrap ''delete proxy'' (px_delete now i) db1)"

section \<open>Actions\<close>

datatype px_action =
    CreateProxy gtime create_proxy_input
  | UpdateProxy gtime int64 update_proxy_input
  | DeleteProxy gtime int64
  | BatchDelete gtime "int64 list"
  | Sweep gtime
  | Revert int64

definition px_step :: "(string \<Rightarrow> string) \<Rightarrow> (px_row list \<Rightarrow> px_row list) \<Rightarrow> px_action \<Rightarrow> px_db \<Rightarrow> px_db" where
  "px_step hex ord act db = (case act of
     CreateProxy now inp \<Rightarrow> snd (create_proxy now inp db)
   | UpdateProxy now i inp \<Rightarrow> snd (update_proxy hex now i inp db)
   | DeleteProxy now i \<Rightarrow> snd (delete_proxy now i db)
   | BatchDelete now ids \<Rightarrow> snd (batch_delete now ids db)
   | Sweep now \<Rightarrow> (case sweep_expired hex ord now db of Some (_, db1) \<Rightarrow> db1 | None \<Rightarrow> db)
   | Revert i \<Rightarrow> snd (revert_fallback hex i db))"

definition px_run :: "(string \<Rightarrow> string) \<Rightarrow> (px_row list \<Rightarrow> px_row list) \<Rightarrow> px_action list \<Rightarrow> px_db \<Rightarrow> px_db" where
  "px_run hex ord acts db = fold (px_step hex ord) acts db"

end
