(* ===== verification/Proxy_Laws.thy ===== *)
theory Proxy_Laws
  imports Proxy_Admin "HOL-Library.Sublist" "HOL-Library.Multiset"
begin

text \<open>
  What the operations on proxies do to the tables. The sweep handles one proxy after the other; its lemmas
  give its effect as one pass over each table, which does not depend on the order of the snapshot.
\<close>

section \<open>Invariants\<close>

definition row_ids :: "px_db \<Rightarrow> int64 set" where "row_ids db = pr_id ` set (t_rows (xd_proxies db))"
definition live_ids :: "px_db \<Rightarrow> int64 set" where "live_ids db = pr_id ` {r \<in> set (t_rows (xd_proxies db)). pr_live r}"

text \<open>Primary keys and foreign keys.\<close>

definition px_keys :: "px_db \<Rightarrow> bool" where
  "px_keys db \<longleftrightarrow> tab_ok pr_id pr_id (xd_proxies db) \<and> (\<forall>r\<in>set (t_rows (xd_proxies db)). \<forall>b. pr_backup r = Some b \<longrightarrow> b \<in> row_ids db) \<and>
     (\<forall>a\<in>set (xd_accounts db). \<forall>i. pa_proxy a = Some i \<or> pa_origin a = Some i \<longrightarrow> i \<in> row_ids db)"

text \<open>A live proxy that falls back to a backup names one, and a live account never uses a deleted proxy.\<close>

definition px_backups :: "px_db \<Rightarrow> bool" where
  "px_backups db \<longleftrightarrow> (\<forall>r\<in>set (t_rows (xd_proxies db)). pr_live r \<and> pr_mode r = mode_proxy \<longrightarrow> pr_backup r \<noteq> None)"

definition px_bound :: "px_db \<Rightarrow> bool" where
  "px_bound db \<longleftrightarrow> (\<forall>a\<in>set (xd_accounts db). \<forall>i. pa_live a \<and> pa_proxy a = Some i \<longrightarrow> i \<in> live_ids db)"

text \<open>The proxy that an account goes back to.\<close>

definition home :: "px_account \<Rightarrow> int64 option" where
  "home a = (case pa_origin a of None \<Rightarrow> pa_proxy a | Some j \<Rightarrow> Some j)"

section \<open>The sweep as one pass\<close>

definition swept :: "proxy list \<Rightarrow> gtime \<Rightarrow> int64 \<Rightarrow> proxy option" where
  "swept ps now i = find (\<lambda>p. px_id p = i \<and> is_active p \<and> is_expired p now) ps"

definition sweep_row :: "proxy list \<Rightarrow> gtime \<Rightarrow> gtime \<Rightarrow> px_row \<Rightarrow> px_row" where
  "sweep_row ps now t r = (if pr_live r \<and> swept ps now (pr_id r) \<noteq> None then r\<lparr>pr_status := status_expired, pr_updated_at := t\<rparr> else r)"

definition swept_by :: "proxy list \<Rightarrow> gtime \<Rightarrow> px_account \<Rightarrow> proxy option" where
  "swept_by ps now a = (if pa_live a then Option.bind (pa_proxy a) (swept ps now) else None)"

definition move_of :: "proxy list \<Rightarrow> (int64, proxy) gomap \<Rightarrow> gtime \<Rightarrow> px_account \<Rightarrow> int64 option option" where
  "move_of ps byID now a = Option.bind (swept_by ps now a) (\<lambda>p.
     case resolve_fallback p byID now of Some (target, True) \<Rightarrow> Some target | _ \<Rightarrow> None)"

definition sweep_account :: "proxy list \<Rightarrow> (int64, proxy) gomap \<Rightarrow> gtime \<Rightarrow> gtime \<Rightarrow> px_account \<Rightarrow> px_account" where
  "sweep_account ps byID now t a = (case move_of ps byID now a of
     Some target \<Rightarrow> reroute (the (pa_proxy a)) target t a
   | None \<Rightarrow> if swept_by ps now a \<noteq> None \<and> probe_stale (the (pa_proxy a)) a then drop_snapshots t a else a)"

lemma swept_Nil [simp]: "swept [] now i = None" "swept_by [] now a = None" "move_of [] byID now a = None"
  by (simp_all add: swept_def swept_by_def move_of_def bind_eq_None_conv)

lemma sweep_Nil [simp]: "sweep_row [] now t r = r" "sweep_account [] byID now t a = a"
  by (simp_all add: sweep_row_def sweep_account_def)

lemma swept_Cons: "swept (p # ps) now i = (if px_id p = i \<and> is_active p \<and> is_expired p now then Some p else swept ps now i)"
  by (simp add: swept_def)

lemma swept_Some: "swept ps now i = Some p \<Longrightarrow> p \<in> set ps \<and> px_id p = i \<and> is_active p \<and> is_expired p now"
  by (auto simp: swept_def find_Some_iff)

lemma swept_fresh: "i \<notin> px_id ` set ps \<Longrightarrow> swept ps now i = None"
  using swept_Some by (metis image_eqI not_Some_eq)

lemma swept_skip: "\<not> (is_active p \<and> is_expired p now) \<Longrightarrow> swept (p # ps) now = swept ps now"
  by (auto simp: swept_Cons fun_eq_iff)

lemma row_fields [simp]:
  "pr_id (sweep_row ps now t r) = pr_id r" "pr_live (sweep_row ps now t r) = pr_live r" "pr_backup (sweep_row ps now t r) = pr_backup r"
  "pr_mode (sweep_row ps now t r) = pr_mode r"
  by (simp_all add: sweep_row_def pr_live_def)

lemma account_fields [simp]:
  "pa_id (sweep_account ps byID now t a) = pa_id a" "pa_live (sweep_account ps byID now t a) = pa_live a"
  "pa_type (sweep_account ps byID now t a) = pa_type a" "pa_platform (sweep_account ps byID now t a) = pa_platform a"
  by (simp_all add: sweep_account_def reroute_def drop_snapshots_def pa_live_def split: option.splits)

text \<open>The snapshot of a database: one entry for each live row.\<close>

definition snapshot_of :: "proxy list \<Rightarrow> (int64, proxy) gomap \<Rightarrow> bool" where
  "snapshot_of ps byID \<longleftrightarrow> distinct (map px_id ps) \<and> (\<forall>i p. gm_get byID i = Some p \<longleftrightarrow> p \<in> set ps \<and> px_id p = i)"

definition rows_match :: "proxy list \<Rightarrow> px_db \<Rightarrow> bool" where
  "rows_match ps db \<longleftrightarrow> distinct (map pr_id (t_rows (xd_proxies db))) \<and>
     (\<forall>p\<in>set ps. \<exists>r\<in>set (t_rows (xd_proxies db)). pr_live r \<and> entity_to_service r = p)"

lemma entity_fields [simp]:
  "px_id (entity_to_service r) = pr_id r" "px_status (entity_to_service r) = pr_status r" "px_mode (entity_to_service r) = pr_mode r"
  "px_backup (entity_to_service r) = pr_backup r" "px_expires_at (entity_to_service r) = pr_expires_at r"
  by (simp_all add: entity_to_service_def)

lemma snapshot_start:
  assumes "snapshot_of ps byID" and "p \<in> set ps" and "is_active p" and "is_expired p now"
  obtains t c where "resolve_fallback p byID now = Some (t, c)"
    "if c then leads byID now p t else t = None \<and> (\<forall>u. \<not> leads byID now p u)"
  by (rule resolve_ok [of byID p now]) (use assms in \<open>auto simp: snapshot_of_def usable_def\<close>)

text \<open>A target of the sweep is not swept itself.\<close>

lemma target_not_swept:
  assumes "snapshot_of ps byID" and "p \<in> set ps" "is_active p" "is_expired p now"
    and "resolve_fallback p byID now = Some (Some j, True)" and "set qs \<subseteq> set ps"
  shows "swept qs now j = None"
proof (rule ccontr)
  assume "swept qs now j \<noteq> None"
  then obtain q where q: "q \<in> set ps" "px_id q = j" "is_expired q now" using swept_Some assms(6) by blast
  have "leads byID now p (Some j)" using snapshot_start [OF assms(1-4)] assms(5) by fastforce
  then obtain i u where u: "gm_get byID i = Some u" "px_id u = j" "usable now u" using leads_usable by blast
  with assms(1) q have "u = q" unfolding snapshot_of_def by (metis (no_types, lifting) option.inject)
  with u(3) q(3) show False by (simp add: usable_def)
qed

text \<open>One proxy.\<close>

lemma still_expired_match:
  assumes m: "rows_match ps db" and p: "p \<in> set ps" "is_active p" "is_expired p now" and r: "r \<in> set (t_rows (xd_proxies db))"
  shows "still_expired p now r \<longleftrightarrow> pr_live r \<and> swept [p] now (pr_id r) \<noteq> None"
proof -
  obtain q where q: "q \<in> set (t_rows (xd_proxies db))" "pr_live q" "entity_to_service q = p" using m p(1) by (auto simp: rows_match_def)
  have "r = q" if "pr_id r = px_id p"
    using m r q that unfolding rows_match_def distinct_map by (auto dest: inj_onD)
  moreover have "still_expired p now q"
    using q p(2,3) by (auto simp: still_expired_def is_active_def is_expired_def t_after_def split: option.splits)
  ultimately show ?thesis using p(2,3) by (auto simp: still_expired_def swept_Cons)
qed

lemma enqueue_fields [simp]:
  "xd_proxies (enqueue_event hex t a g ids db) = xd_proxies db" "xd_accounts (enqueue_event hex t a g ids db) = xd_accounts db"
  "xd_now (enqueue_event hex t a g ids db) = xd_now db" "xd_faults (enqueue_event hex t a g ids db) = xd_faults db"
  by (simp_all add: enqueue_event_def Let_def)

lemma probe_changes_fields [simp]:
  "xd_proxies (enqueue_probe_changes hex ids db) = xd_proxies db" "xd_accounts (enqueue_probe_changes hex ids db) = xd_accounts db"
  "xd_now (enqueue_probe_changes hex ids db) = xd_now db" "xd_faults (enqueue_probe_changes hex ids db) = xd_faults db"
proof -
  have "xd_proxies (fold f cs db) = xd_proxies db \<and> xd_accounts (fold f cs db) = xd_accounts db \<and> xd_now (fold f cs db) = xd_now db \<and>
      xd_faults (fold f cs db) = xd_faults db"
    if "\<And>c db. xd_proxies (f c db) = xd_proxies db \<and> xd_accounts (f c db) = xd_accounts db \<and> xd_now (f c db) = xd_now db \<and> xd_faults (f c db) = xd_faults db"
    for f :: "int64 list \<Rightarrow> px_db \<Rightarrow> px_db" and cs db
    using that by (induction cs arbitrary: db) auto
  then have "xd_proxies (enqueue_probe_changes hex ids db) = xd_proxies db \<and> xd_accounts (enqueue_probe_changes hex ids db) = xd_accounts db \<and>
      xd_now (enqueue_probe_changes hex ids db) = xd_now db \<and> xd_faults (enqueue_probe_changes hex ids db) = xd_faults db"
    unfolding enqueue_probe_changes_def by simp
  then show "xd_proxies (enqueue_probe_changes hex ids db) = xd_proxies db" "xd_accounts (enqueue_probe_changes hex ids db) = xd_accounts db"
    "xd_now (enqueue_probe_changes hex ids db) = xd_now db" "xd_faults (enqueue_probe_changes hex ids db) = xd_faults db" by blast+
qed

definition same_clock :: "px_db \<Rightarrow> px_db \<Rightarrow> bool" where
  "same_clock db db' \<longleftrightarrow> xd_now db' = xd_now db \<and> t_seq (xd_proxies db') = t_seq (xd_proxies db)"

definition swept_to :: "proxy list \<Rightarrow> (int64, proxy) gomap \<Rightarrow> gtime \<Rightarrow> px_db \<Rightarrow> px_db \<Rightarrow> bool" where
  "swept_to qs byID now db db' \<longleftrightarrow> same_clock db db' \<and>
     t_rows (xd_proxies db') = map (sweep_row qs now (xd_now db)) (t_rows (xd_proxies db)) \<and>
     xd_accounts db' = map (sweep_account qs byID now (xd_now db)) (xd_accounts db)"

definition moved_ids :: "proxy list \<Rightarrow> (int64, proxy) gomap \<Rightarrow> gtime \<Rightarrow> px_account list \<Rightarrow> int64 list" where
  "moved_ids qs byID now as = map pa_id (filter (\<lambda>a. move_of qs byID now a \<noteq> None) as)"

lemma swept_by_one: "is_active p \<Longrightarrow> is_expired p now \<Longrightarrow>
  swept_by [p] now a = (if pa_live a \<and> pa_proxy a = Some (px_id p) then Some p else None)"
  by (cases "pa_proxy a") (auto simp: swept_by_def swept_Cons)

lemma sweep_one_effect:
  assumes m: "rows_match ps db" and p: "p \<in> set ps" "is_active p" "is_expired p now"
    and r: "resolve_fallback p byID now = Some (target, change)"
    and run: "sweep_one_on_exec hex p now target change db = (ids, db1)"
  shows "swept_to [p] byID now db db1 \<and> ids = moved_ids [p] byID now (xd_accounts db) \<and> xd_faults db1 = xd_faults db"
proof -
  let ?t = "xd_now db" and ?rows = "t_rows (xd_proxies db)"
  note by_one = swept_by_one [OF p(2,3)]
  have rows: "map (\<lambda>r. if still_expired p now r then r\<lparr>pr_status := status_expired, pr_updated_at := ?t\<rparr> else r) ?rows = map (sweep_row [p] now ?t) ?rows"
    using still_expired_match [OF m p] by (simp add: sweep_row_def)
  obtain q where q: "q \<in> set ?rows" "pr_live q" "entity_to_service q = p" using m p(1) by (auto simp: rows_match_def)
  then have "still_expired p now q" using still_expired_match [OF m p q(1)] p(2,3) by (auto simp: swept_Cons)
  then have hit: "filter (still_expired p now) ?rows \<noteq> []" using q(1) by (auto simp: filter_empty_conv)
  show ?thesis
  proof (cases change)
    case True
    have move: "move_of [p] byID now a = (if pa_proxy a = Some (px_id p) \<and> pa_live a then Some target else None)" for a
      using r True by (simp add: move_of_def by_one)
    have "map (\<lambda>a. if pa_proxy a = Some (px_id p) \<and> pa_live a then reroute (px_id p) target ?t a else a) (xd_accounts db) =
        map (sweep_account [p] byID now ?t) (xd_accounts db)"
      by (rule map_cong) (auto simp: sweep_account_def move by_one)
    moreover have "moved_ids [p] byID now as = map pa_id (filter (\<lambda>a. pa_proxy a = Some (px_id p) \<and> pa_live a) as)" for as
      by (simp add: moved_ids_def move)
    ultimately show ?thesis using run hit True
      by (auto simp: sweep_one_on_exec_def Let_def tab_update_def update_accounts_def swept_to_def same_clock_def rows)
  next
    case False
    have move: "move_of [p] byID now a = None" for a using r False by (simp add: move_of_def by_one)
    have "map (\<lambda>a. if probe_stale (px_id p) a then drop_snapshots ?t a else a) (xd_accounts db) =
        map (sweep_account [p] byID now ?t) (xd_accounts db)"
      by (rule map_cong) (auto simp: sweep_account_def move by_one probe_stale_def)
    then show ?thesis using run hit False
      by (auto simp: sweep_one_on_exec_def Let_def tab_update_def update_accounts_def invalidate_probes_def swept_to_def same_clock_def
        rows moved_ids_def move)
  qed
qed

text \<open>Passes compose: what the first one moves, no later one touches.\<close>

lemma sweep_row_comp:
  assumes "swept qs now (px_id p) = None"
  shows "sweep_row qs now t (sweep_row [p] now t r) = sweep_row (p # qs) now t r"
proof (cases "pr_live r \<and> swept [p] now (pr_id r) \<noteq> None")
  case True
  then have "swept qs now (pr_id r) = None" "swept (p # qs) now (pr_id r) = swept [p] now (pr_id r)"
    using assms by (auto simp: swept_Cons split: if_splits)
  then show ?thesis using True by (simp only: sweep_row_def row_fields) (simp add: pr_live_def)
next
  case False
  then have "pr_live r \<Longrightarrow> swept (p # qs) now (pr_id r) = swept qs now (pr_id r)" by (auto simp: swept_Cons split: if_splits)
  then show ?thesis using False by (simp only: sweep_row_def) auto
qed

lemma swept_by_Cons:
  "swept_by [p] now a = Some u \<Longrightarrow> swept_by (p # qs) now a = Some u"
  "swept_by [p] now a = None \<Longrightarrow> swept_by (p # qs) now a = swept_by qs now a"
  by (cases "pa_proxy a"; auto simp: swept_by_def swept_Cons split: if_splits)+

lemma sweep_untouched: "swept_by qs now a = None \<Longrightarrow> sweep_account qs byID now t a = a" "swept_by qs now a = None \<Longrightarrow> move_of qs byID now a = None"
  by (simp_all add: sweep_account_def move_of_def)

lemma sweep_account_cong: "swept_by qs now a = swept_by ps now a \<Longrightarrow> sweep_account qs byID now t a = sweep_account ps byID now t a"
  "swept_by qs now a = swept_by ps now a \<Longrightarrow> move_of qs byID now a = move_of ps byID now a"
  by (simp_all add: sweep_account_def move_of_def)

lemma sweep_account_comp:
  assumes snap: "snapshot_of ps byID" and p: "p \<in> set ps" "is_active p" "is_expired p now"
    and qs: "set qs \<subseteq> set ps" "swept qs now (px_id p) = None"
  shows "sweep_account qs byID now t (sweep_account [p] byID now t a) = sweep_account (p # qs) byID now t a \<and>
    move_of qs byID now (sweep_account [p] byID now t a) = (if move_of [p] byID now a \<noteq> None then None else move_of (p # qs) byID now a)"
proof (cases "pa_live a \<and> pa_proxy a = Some (px_id p)")
  case False
  then have none: "swept_by [p] now a = None" by (simp add: swept_by_one p(2,3))
  show ?thesis using sweep_untouched [OF none] sweep_account_cong [OF swept_by_Cons(2) [OF none]] by simp
next
  case True
  then have by_p: "swept_by [p] now a = Some p" by (simp add: swept_by_one p(2,3))
  have all: "sweep_account (p # qs) byID now t a = sweep_account [p] byID now t a" "move_of (p # qs) byID now a = move_of [p] byID now a"
    by (rule sweep_account_cong; use swept_by_Cons(1) [OF by_p] by_p in simp)+
  obtain target change where r: "resolve_fallback p byID now = Some (target, change)" by (rule snapshot_start [OF snap p])
  have "swept_by qs now (sweep_account [p] byID now t a) = None"
  proof (cases change)
    case c: True
    have acc: "sweep_account [p] byID now t a = reroute (px_id p) target t a"
      using r c True by (simp add: sweep_account_def move_of_def by_p)
    have "swept qs now j = None" if "target = Some j" for j
      using target_not_swept [OF snap p, of j qs] r c that qs(1) by simp
    then show ?thesis unfolding acc by (cases target) (simp_all add: swept_by_def reroute_def)
  next
    case False
    then have "pa_proxy (sweep_account [p] byID now t a) = Some (px_id p)"
      using r True by (simp add: sweep_account_def move_of_def by_p drop_snapshots_def)
    then show ?thesis using qs(2) by (simp add: swept_by_def)
  qed
  from sweep_untouched [OF this] show ?thesis using all by simp
qed

lemma moved_ids_simps [simp]:
  "moved_ids qs byID now [] = []"
  "moved_ids qs byID now (a # as) = (if move_of qs byID now a = None then moved_ids qs byID now as else pa_id a # moved_ids qs byID now as)"
  by (simp_all add: moved_ids_def)

lemma moved_ids_comp:
  assumes "snapshot_of ps byID" and "p \<in> set ps" "is_active p" "is_expired p now" and "set qs \<subseteq> set ps" "swept qs now (px_id p) = None"
  shows "mset (moved_ids [p] byID now as) + mset (moved_ids qs byID now (map (sweep_account [p] byID now t) as)) = mset (moved_ids (p # qs) byID now as)"
proof (induction as)
  case (Cons a as)
  have "move_of [p] byID now a \<noteq> None \<Longrightarrow> move_of (p # qs) byID now a = move_of [p] byID now a"
  proof (cases "swept_by [p] now a")
    case (Some u)
    then show ?thesis using sweep_account_cong(2) [of "p # qs" now a "[p]"] swept_by_Cons(1) [OF Some, of qs] by simp
  qed (simp add: sweep_untouched(2))
  then show ?case using Cons sweep_account_comp [OF assms, of t a]
    by (cases "move_of [p] byID now a"; cases "move_of (p # qs) byID now a") simp_all
qed simp

lemma swept_to_cong:
  assumes "swept qs now = swept rs now" and "swept_to qs byID now db db'"
  shows "swept_to rs byID now db db'" and "moved_ids rs byID now as = moved_ids qs byID now as"
proof -
  have by_eq: "swept_by rs now = swept_by qs now" by (rule ext) (simp add: swept_by_def assms(1))
  have "sweep_row rs now t = sweep_row qs now t" for t by (rule ext) (simp add: sweep_row_def assms(1))
  moreover have "sweep_account rs byID now t = sweep_account qs byID now t" for t by (rule ext, rule sweep_account_cong(1)) (simp add: by_eq)
  ultimately show "swept_to rs byID now db db'" using assms(2) by (simp add: swept_to_def)
  have "move_of rs byID now a = move_of qs byID now a" for a by (rule sweep_account_cong(2)) (simp add: by_eq)
  then show "moved_ids rs byID now as = moved_ids qs byID now as" by (simp add: moved_ids_def)
qed

lemma swept_to_comp:
  assumes "snapshot_of ps byID" and "p \<in> set ps" "is_active p" "is_expired p now" and "set qs \<subseteq> set ps" "swept qs now (px_id p) = None"
    and "swept_to [p] byID now db db1" and "swept_to qs byID now db1 db2"
  shows "swept_to (p # qs) byID now db db2"
  using assms(7,8) sweep_row_comp [OF assms(6)] sweep_account_comp [OF assms(1-6)] by (auto simp: swept_to_def same_clock_def)

lemma rows_match_rest:
  assumes "rows_match ps db" and "set qs \<subseteq> set ps" and "px_id p \<notin> px_id ` set qs" and "swept_to [p] byID now db db1"
  shows "rows_match qs db1"
proof -
  have ids: "map pr_id (t_rows (xd_proxies db1)) = map pr_id (t_rows (xd_proxies db))" using assms(4) by (simp add: swept_to_def)
  have "\<exists>r\<in>set (t_rows (xd_proxies db1)). pr_live r \<and> entity_to_service r = q" if q: "q \<in> set qs" for q
  proof -
    obtain r where r: "r \<in> set (t_rows (xd_proxies db))" "pr_live r" "entity_to_service r = q" using assms(1,2) q by (auto simp: rows_match_def)
    then have "pr_id r \<noteq> px_id p" using assms(3) q by (metis entity_fields(1) image_eqI)
    then have "sweep_row [p] now (xd_now db) r = r" by (simp add: sweep_row_def swept_Cons)
    then have "r \<in> set (t_rows (xd_proxies db1))" using assms(4) r(1) by (force simp: swept_to_def)
    with r show ?thesis by blast
  qed
  then show ?thesis using assms(1) ids by (simp add: rows_match_def)
qed

lemma swept_to_refl [simp]: "swept_to [] byID now db db" "swept_to [] byID now db (db\<lparr>xd_faults := fs\<rparr>)"
  by (simp_all add: swept_to_def same_clock_def map_idI)

lemma px_call_cases:
  obtains fs where "px_call f db = (Inl err_db, db\<lparr>xd_faults := fs\<rparr>)"
  | e fs where "px_call f db = (Inl e, db\<lparr>xd_faults := fs\<rparr>)" "fst (f (db\<lparr>xd_faults := fs\<rparr>)) = Inl e"
  | x fs db1 where "px_call f db = (Inr x, db1)" "f (db\<lparr>xd_faults := fs\<rparr>) = (Inr x, db1)"
proof -
  let ?fs = "tl (xd_faults db)"
  show thesis
  proof (cases "xd_faults db \<noteq> [] \<and> hd (xd_faults db)")
    case True
    then have "px_call f db = (Inl err_db, db\<lparr>xd_faults := ?fs\<rparr>)" by (cases "xd_faults db") (auto simp: px_call_def)
    then show thesis by (rule that(1))
  next
    case False
    then have run: "px_call f db = (case f (db\<lparr>xd_faults := ?fs\<rparr>) of (Inl e, _) \<Rightarrow> (Inl e, db\<lparr>xd_faults := ?fs\<rparr>) | (Inr x, db1) \<Rightarrow> (Inr x, db1))"
      by (cases "xd_faults db") (auto simp: px_call_def Let_def split: prod.splits sum.splits)
    show thesis
    proof (cases "f (db\<lparr>xd_faults := ?fs\<rparr>)")
      case (Pair v db1)
      with run that(2,3) show thesis by (cases v) auto
    qed
  qed
qed

lemma sweep_loop_effect:
  assumes snap: "snapshot_of all byID" and "set ps \<subseteq> set all" and "distinct (map px_id ps)" and "rows_match ps db"
  shows "\<exists>ids e db' qs. sweep_loop hex byID now ps db = Some (ids, e, db') \<and> prefix qs ps \<and> (e = None \<longrightarrow> qs = ps) \<and>
    swept_to qs byID now db db' \<and> mset ids = mset (moved_ids qs byID now (xd_accounts db))"
  using assms(2-4)
proof (induction ps arbitrary: db)
  case Nil
  then show ?case by (simp add: moved_ids_def)
next
  case (Cons p ps)
  show ?case
  proof (cases "is_active p \<and> is_expired p now")
    case False
    have "rows_match ps db" using Cons.prems(3) by (simp add: rows_match_def)
    with Cons.IH [of db] Cons.prems(1,2) obtain ids e db' qs where IH: "sweep_loop hex byID now ps db = Some (ids, e, db')" "prefix qs ps"
        "e = None \<longrightarrow> qs = ps" "swept_to qs byID now db db'" "mset ids = mset (moved_ids qs byID now (xd_accounts db))" by auto
    have eq: "swept qs now = swept (p # qs) now" using False by (simp add: swept_skip)
    show ?thesis using False IH(1-3,5) swept_to_cong [OF eq IH(4)]
      by (intro exI [of _ ids] exI [of _ e] exI [of _ db'] exI [of _ "p # qs"]) auto
  next
    case True
    then have p: "p \<in> set all" "is_active p" "is_expired p now" using Cons.prems(1) by auto
    obtain target change where r: "resolve_fallback p byID now = Some (target, change)" by (rule snapshot_start [OF snap p])
    consider (fault) e db1 where "sweep_expired_one hex p now target change db = (Inl e, db1)" "swept_to [] byID now db db1"
      | (ran) ids db1 fs where "sweep_expired_one hex p now target change db = (Inr ids, db1)"
          "sweep_one_on_exec hex p now target change (db\<lparr>xd_faults := fs\<rparr>) = (ids, db1)"
      unfolding sweep_expired_one_def by (rule px_call_cases [of "\<lambda>db. let (ids, db1) = sweep_one_on_exec hex p now target change db in (Inr ids, db1)" db])
        (auto split: prod.splits)
    then show ?thesis
    proof cases
      case fault
      then show ?thesis using True r
        by (intro exI [of _ "[]"] exI [of _ "Some e"] exI [of _ db1]) (simp add: moved_ids_def)
    next
      case ran
      let ?db = "db\<lparr>xd_faults := fs\<rparr>"
      have "rows_match (p # ps) ?db" using Cons.prems(3) by (simp add: rows_match_def)
      from sweep_one_effect [OF this _ p(2,3) r ran(2)]
      have one: "swept_to [p] byID now db db1" "ids = moved_ids [p] byID now (xd_accounts db)"
        by (simp_all add: swept_to_def same_clock_def)
      have fresh: "px_id p \<notin> px_id ` set ps" using Cons.prems(2) by simp
      have "rows_match ps db1" by (rule rows_match_rest [OF Cons.prems(3) _ fresh one(1)]) auto
      with Cons.IH [of db1] Cons.prems(1,2) obtain ids' e db' qs where IH: "sweep_loop hex byID now ps db1 = Some (ids', e, db')"
          "prefix qs ps" "e = None \<longrightarrow> qs = ps" "swept_to qs byID now db1 db'" "mset ids' = mset (moved_ids qs byID now (xd_accounts db1))" by auto
      have sub: "set qs \<subseteq> set ps" by (rule set_mono_prefix [OF IH(2)])
      then have qs: "set qs \<subseteq> set all" "swept qs now (px_id p) = None" using Cons.prems(1) fresh by (auto intro: swept_fresh)
      have "mset (ids @ ids') = mset (moved_ids (p # qs) byID now (xd_accounts db))"
        using moved_ids_comp [OF snap p qs] one IH(5) by (simp add: swept_to_def)
      moreover have "sweep_loop hex byID now (p # ps) db = Some (ids @ ids', e, db')" using True r ran(1) IH(1) by simp
      ultimately show ?thesis using IH(2,3) swept_to_comp [OF snap p qs one(1) IH(4)]
        by (intro exI [of _ "ids @ ids'"] exI [of _ e] exI [of _ db'] exI [of _ "p # qs"]) auto
    qed
  qed
qed

section \<open>The snapshot of a sweep\<close>

lemma foldl_put:
  "distinct (map px_id ps) \<Longrightarrow> gm_get (foldl (\<lambda>m p. gm_put (px_id p) p m) m0 ps) i =
    (case find (\<lambda>p. px_id p = i) ps of Some p \<Rightarrow> Some p | None \<Rightarrow> gm_get m0 i)"
proof (induction ps arbitrary: m0)
  case (Cons p ps)
  have "find (\<lambda>p. px_id p = i) ps = None" if "px_id p = i" using Cons.prems that by (auto simp: find_None_iff image_iff)
  with Cons show ?case by (auto simp: update_conv' split: option.splits)
qed simp

definition live_rows :: "px_db \<Rightarrow> px_row list" where "live_rows db = filter pr_live (t_rows (xd_proxies db))"

lemma snapshot_ok:
  fixes byID db and ord :: "px_row list \<Rightarrow> px_row list"
  defines "ps \<equiv> select_proxies ord (\<lambda>r. True) db"
  assumes d: "distinct (map pr_id (t_rows (xd_proxies db)))" and ord: "mset (ord (live_rows db)) = mset (live_rows db)"
  shows "snapshot_of ps (foldl (\<lambda>m p. gm_put (px_id p) p m) [] ps) \<and> rows_match ps db \<and> distinct (map px_id ps) \<and>
    set ps = entity_to_service ` set (live_rows db)"
proof -
  have ps: "ps = map entity_to_service (ord (live_rows db))"
    by (simp add: ps_def select_proxies_def live_rows_def tab_select_def)
  have "mset (map px_id ps) = mset (map pr_id (live_rows db))" using ord by (simp add: ps image_mset.compositionality comp_def)
  moreover have "distinct (map pr_id (live_rows db))" using d by (simp add: live_rows_def distinct_map_filter)
  ultimately have dist: "distinct (map px_id ps)" by (metis mset_eq_imp_distinct_iff)
  have set_ps: "set ps = entity_to_service ` set (live_rows db)" using ord by (metis ps set_map set_mset_mset)
  have get: "gm_get (foldl (\<lambda>m p. gm_put (px_id p) p m) [] ps) i = find (\<lambda>p. px_id p = i) ps" for i
    by (simp add: foldl_put [OF dist] option.case_eq_if split: option.splits)
  have "find (\<lambda>p. px_id p = i) ps = Some p \<longleftrightarrow> p \<in> set ps \<and> px_id p = i" for i p
  proof
    assume "p \<in> set ps \<and> px_id p = i"
    then show "find (\<lambda>p. px_id p = i) ps = Some p"
      using dist by (cases "find (\<lambda>p. px_id p = i) ps") (auto simp: find_None_iff find_Some_iff distinct_map dest: inj_onD)
  qed (auto simp: find_Some_iff)
  then have "snapshot_of ps (foldl (\<lambda>m p. gm_put (px_id p) p m) [] ps)" using dist by (simp add: snapshot_of_def get)
  moreover have "rows_match ps db" using d set_ps by (auto simp: rows_match_def live_rows_def)
  ultimately show ?thesis using dist set_ps by blast
qed

lemma resolve_snapshot_cong:
  assumes "snapshot_of ps byID" and "snapshot_of qs byID'" and "set ps = set qs"
    and "p \<in> set ps" "is_active p" "is_expired p now"
  shows "resolve_fallback p byID now = resolve_fallback p byID' now"
proof -
  have "gm_get byID i = gm_get byID' i" for i
    using assms(1-3) unfolding snapshot_of_def by (metis (no_types, lifting) not_None_eq)
  then have eq: "gm_get byID = gm_get byID'" by blast
  have up: "leads byID' now q t" if "leads byID now q t" "gm_get byID = gm_get byID'" for byID byID' q t
  proof -
    have "backup_of byID = backup_of byID'" by (rule ext) (simp add: backup_of_def that(2))
    with that(1) show ?thesis by (induction rule: leads.induct) (auto intro: leads.intros)
  qed
  have same: "leads byID now p t \<longleftrightarrow> leads byID' now p t" for t using up eq by metis
  obtain t c where 1: "resolve_fallback p byID now = Some (t, c)" "if c then leads byID now p t else t = None \<and> (\<forall>u. \<not> leads byID now p u)"
    by (rule snapshot_start [OF assms(1,4-6)])
  obtain t' c' where 2: "resolve_fallback p byID' now = Some (t', c')" "if c' then leads byID' now p t' else t' = None \<and> (\<forall>u. \<not> leads byID' now p u)"
    by (rule snapshot_start [OF assms(2) _ assms(5,6)]) (use assms(3,4) in auto)
  show ?thesis using 1 2 same leads_unique by (cases c; cases c') auto
qed

text \<open>The effect of a sweep, also of one that fails half-way.\<close>

lemma sweep_expired_effect:
  fixes db and ord :: "px_row list \<Rightarrow> px_row list"
  defines "ps \<equiv> select_proxies ord (\<lambda>r. True) db"
  defines "byID \<equiv> foldl (\<lambda>m p. gm_put (px_id p) p m) [] ps"
  assumes d: "distinct (map pr_id (t_rows (xd_proxies db)))" and ord: "mset (ord (live_rows db)) = mset (live_rows db)"
  shows "\<exists>n e db' qs. sweep_expired hex ord now db = Some ((n, e), db') \<and> prefix qs ps \<and> (e = None \<longrightarrow> qs = ps) \<and>
    swept_to qs byID now db db' \<and> n = int (length (moved_ids qs byID now (xd_accounts db)))"
proof -
  have snap: "snapshot_of ps byID" "rows_match ps db" "distinct (map px_id ps)"
    using snapshot_ok [of db ord, OF d ord] by (simp_all add: ps_def byID_def)
  consider (fault) fs where "px_list_all ord db = (Inl err_db, db\<lparr>xd_faults := fs\<rparr>)"
    | (ran) fs where "px_list_all ord db = (Inr ps, db\<lparr>xd_faults := fs\<rparr>)"
    unfolding px_list_all_def px_read_def
    by (rule px_call_cases [of "\<lambda>db. (Inr (select_proxies ord (\<lambda>r. True) db), db)" db]) (auto simp: ps_def select_proxies_def)
  then show ?thesis
  proof cases
    case fault
    then show ?thesis by (intro exI [of _ 0] exI [of _ "Some err_db"] exI [of _ "db\<lparr>xd_faults := fs\<rparr>"] exI [of _ "[]"])
      (simp add: sweep_expired_def moved_ids_def)
  next
    case ran
    let ?db = "db\<lparr>xd_faults := fs\<rparr>"
    have "rows_match ps ?db" using snap(2) by (simp add: rows_match_def)
    from sweep_loop_effect [of ps byID ps ?db hex now, OF snap(1) order_refl snap(3) this]
    obtain ids e db' qs where l: "sweep_loop hex byID now ps ?db = Some (ids, e, db')" "prefix qs ps" "e = None \<longrightarrow> qs = ps"
        "swept_to qs byID now db db'" "mset ids = mset (moved_ids qs byID now (xd_accounts db))"
      by (auto simp: swept_to_def same_clock_def)
    have n: "length ids = length (moved_ids qs byID now (xd_accounts db))" using l(5) by (metis size_mset)
    let ?f = "\<lambda>db. (Inr (), enqueue_event hex event_bulk_changed None None (Some (sorted_unique_ids ids)) db)"
    have "swept_to qs byID now db (snd (px_call ?f db'))"
      by (rule px_call_cases [of ?f db']) (use l(4) in \<open>auto simp: swept_to_def same_clock_def\<close>)
    then have "\<exists>db'. sweep_expired hex ord now db = Some ((int (length ids), e), db') \<and> swept_to qs byID now db db'"
      using ran l(1,4) by (cases e) (simp_all add: sweep_expired_def byID_def Let_def)
    with l(2,3) n show ?thesis by metis
  qed
qed

end
