(* ===== verification/Proxy_Invariant.thy ===== *)
theory Proxy_Invariant
  imports Proxy_Laws
begin

text \<open>
  Every action on the proxies keeps the keys of the tables, the backups and the home of every account;
  every action but a reversal also keeps live accounts off deleted proxies.
\<close>

definition px_inv :: "px_db \<Rightarrow> bool" where
  "px_inv db \<longleftrightarrow> px_keys db \<and> px_backups db \<and> distinct (map pa_id (xd_accounts db))"

definition homes :: "px_db \<Rightarrow> (int64 \<times> int64 option) list" where "homes db = map (\<lambda>a. (pa_id a, home a)) (xd_accounts db)"

text \<open>What an operation keeps.\<close>

definition px_keeps :: "px_db \<Rightarrow> px_db \<Rightarrow> bool" where
  "px_keeps db db' \<longleftrightarrow> px_inv db' \<and> homes db' = homes db \<and> (px_bound db \<longrightarrow> px_bound db')"

named_theorems px_sel "fields that only depend on the tables"

lemma px_inv_tables:
  assumes "xd_proxies db' = xd_proxies db" and "xd_accounts db' = xd_accounts db"
  shows "px_inv db' = px_inv db" and "px_bound db' = px_bound db" and "homes db' = homes db" and "px_keeps db0 db' = px_keeps db0 db"
  using assms by (simp_all add: px_inv_def px_keys_def px_backups_def px_bound_def homes_def row_ids_def live_ids_def px_keeps_def)

lemma px_faults [simp]:
  "px_inv (db\<lparr>xd_faults := fs\<rparr>) = px_inv db" "px_bound (db\<lparr>xd_faults := fs\<rparr>) = px_bound db" "homes (db\<lparr>xd_faults := fs\<rparr>) = homes db"
  "px_keeps db0 (db\<lparr>xd_faults := fs\<rparr>) = px_keeps db0 db" "px_keeps (db\<lparr>xd_faults := fs\<rparr>) db0 = px_keeps db db0"
  using px_inv_tables [of "db\<lparr>xd_faults := fs\<rparr>" db] by (simp_all add: px_keeps_def)

lemma px_keeps_refl: "px_inv db \<Longrightarrow> px_keeps db db" by (simp add: px_keeps_def)

lemma px_keeps_trans: "px_keeps db db1 \<Longrightarrow> px_keeps db1 db2 \<Longrightarrow> px_keeps db db2" by (simp add: px_keeps_def)

lemma px_keeps_inv: "px_keeps db db' \<Longrightarrow> px_inv db'" by (simp add: px_keeps_def)

text \<open>A call keeps what its statement keeps.\<close>

lemma px_call_keeps_at:
  assumes "px_inv db" and "\<And>fs x db1. f (db\<lparr>xd_faults := fs\<rparr>) = (Inr x, db1) \<Longrightarrow> px_keeps db db1"
  shows "px_keeps db (snd (px_call f db))"
proof (rule px_call_cases [of f db])
  fix x fs db1 assume r: "px_call f db = (Inr x, db1)" "f (db\<lparr>xd_faults := fs\<rparr>) = (Inr x, db1)"
  show ?thesis using assms(2) [OF r(2)] r(1) by simp
qed (simp_all add: px_keeps_refl assms(1))

lemma px_call_keeps:
  assumes "px_inv db" and "\<And>db x db1. px_inv db \<Longrightarrow> f db = (Inr x, db1) \<Longrightarrow> px_keeps db db1"
  shows "px_keeps db (snd (px_call f db))"
proof (rule px_call_keeps_at [OF assms(1)])
  fix fs x db1 assume "f (db\<lparr>xd_faults := fs\<rparr>) = (Inr x, db1)"
  from assms(2) [OF _ this] show "px_keeps db db1" using assms(1) by simp
qed

lemma px_read_keeps: "px_inv db \<Longrightarrow> px_keeps db (snd (px_read f db))"
  unfolding px_read_def by (rule px_call_keeps) (auto intro: px_keeps_refl)

text \<open>Assignments to rows that keep their keys.\<close>

lemma px_inv_map:
  assumes inv: "px_inv db" and seq: "t_seq (xd_proxies db') = t_seq (xd_proxies db)"
    and rows: "t_rows (xd_proxies db') = map f (t_rows (xd_proxies db))" and accs: "xd_accounts db' = map g (xd_accounts db)"
    and f: "\<And>r. pr_id (f r) = pr_id r"
      "\<And>r b. r \<in> set (t_rows (xd_proxies db)) \<Longrightarrow> pr_backup (f r) = Some b \<Longrightarrow> b \<in> row_ids db"
      "\<And>r. r \<in> set (t_rows (xd_proxies db)) \<Longrightarrow> pr_live (f r) \<Longrightarrow> pr_mode (f r) = mode_proxy \<Longrightarrow> pr_backup (f r) \<noteq> None"
    and g: "\<And>a. pa_id (g a) = pa_id a"
      "\<And>a i. a \<in> set (xd_accounts db) \<Longrightarrow> pa_proxy (g a) = Some i \<or> pa_origin (g a) = Some i \<Longrightarrow> i \<in> row_ids db"
  shows "px_inv db'"
proof -
  have ids: "row_ids db' = row_ids db" using f(1) by (simp add: row_ids_def rows image_image)
  have "pr_id \<circ> f = pr_id" "pa_id \<circ> g = pa_id" using f(1) g(1) by auto
  then have "tab_ok pr_id pr_id (xd_proxies db')" "distinct (map pa_id (xd_accounts db'))"
    using inv by (auto simp: px_inv_def px_keys_def tab_ok_def rows seq accs f(1))
  moreover have "\<forall>r\<in>set (t_rows (xd_proxies db')). \<forall>b. pr_backup r = Some b \<longrightarrow> b \<in> row_ids db'" unfolding ids rows using f(2) by auto
  moreover have "\<forall>a\<in>set (xd_accounts db'). \<forall>i. pa_proxy a = Some i \<or> pa_origin a = Some i \<longrightarrow> i \<in> row_ids db'" unfolding ids accs using g(2) by auto
  moreover have "px_backups db'" unfolding px_backups_def rows using f(3) by auto
  ultimately show ?thesis by (simp add: px_inv_def px_keys_def)
qed

lemma px_inv_sel:
  assumes "px_inv db"
  shows "distinct (map pr_id (t_rows (xd_proxies db)))" "r \<in> set (t_rows (xd_proxies db)) \<Longrightarrow> pr_backup r = Some b \<Longrightarrow> b \<in> row_ids db"
    "r \<in> set (t_rows (xd_proxies db)) \<Longrightarrow> pr_live r \<Longrightarrow> pr_mode r = mode_proxy \<Longrightarrow> pr_backup r \<noteq> None"
    "a \<in> set (xd_accounts db) \<Longrightarrow> pa_proxy a = Some i \<or> pa_origin a = Some i \<Longrightarrow> i \<in> row_ids db"
    "distinct (map pa_id (xd_accounts db))"
  using assms unfolding px_inv_def px_keys_def px_backups_def tab_ok_def by blast+

section \<open>The operations\<close>

lemma create_keeps:
  assumes "px_inv db" and p: "px_mode p = mode_proxy \<Longrightarrow> px_backup p \<noteq> None"
  shows "px_keeps db (snd (px_create now p db))"
  unfolding px_create_def
proof (rule px_call_keeps [OF assms(1)])
  fix db x db1
  assume inv: "px_inv db"
  let ?mk = "\<lambda>i. set_columns p now \<lparr>pr_id = i, pr_name = [], pr_protocol = [], pr_host = [], pr_port = 0, pr_username = None,
    pr_password = None, pr_status = [], pr_created_at = now, pr_updated_at = now, pr_expires_at = None, pr_mode = [],
    pr_backup = None, pr_warn_days = 0, pr_deleted_at = None\<rparr>"
  let ?i = "t_seq (xd_proxies db) + 1"
  define r where "r = ?mk ?i"
  have r: "pr_id r = ?i" "pr_live r" "pr_backup r = px_backup p" "pr_mode r = px_mode p" by (simp_all add: r_def set_columns_def pr_live_def)
  assume "(let mk = ?mk; (i, tab) = tab_insert mk (xd_proxies db) in case write_error (t_rows tab) (mk i) of Some e \<Rightarrow> (Inl e, db)
      | None \<Rightarrow> (Inr (p\<lparr>px_id := i, px_created_at := now, px_updated_at := now\<rparr>), db\<lparr>xd_proxies := tab\<rparr>)) = (Inr x, db1)"
  then have db1: "db1 = db\<lparr>xd_proxies := \<lparr>t_seq = ?i, t_rows = t_rows (xd_proxies db) @ [r]\<rparr>\<rparr>"
    and ok: "write_error (t_rows (xd_proxies db) @ [r]) r = None"
    by (auto simp: Let_def tab_insert_def r_def split: option.splits)
  have old: "tab_ok pr_id pr_id (xd_proxies db)" using inv by (simp add: px_inv_def px_keys_def)
  have "tab_find (\<lambda>q. pr_id q = pr_id r) (xd_proxies db) = None" using old r(1) by (fastforce simp: tab_find_None tab_ok_def)
  from tab_ok_append [OF old r(1) this] have tab: "tab_ok pr_id pr_id (xd_proxies db1)" by (simp add: db1)
  have ids: "row_ids db1 = insert ?i (row_ids db)" "live_ids db \<subseteq> live_ids db1" using r by (auto simp: row_ids_def live_ids_def db1)
  have "b \<in> row_ids db1" if "pr_backup r = Some b" for b
    using ok that by (auto simp: write_error_def backup_exists_def row_ids_def db1 list_ex_iff split: if_splits)
  then have "px_keys db1" using inv tab ids(1) unfolding px_inv_def px_keys_def by (auto simp: db1)
  moreover have "px_backups db1" using inv p r by (auto simp: px_inv_def px_backups_def db1)
  moreover have "px_bound db \<longrightarrow> px_bound db1" using ids(2) by (auto simp: px_bound_def db1)
  ultimately show "px_keeps db db1" using inv by (simp add: px_keeps_def px_inv_def homes_def db1)
qed

lemma live_ids_map:
  assumes "t_rows (xd_proxies db') = map f (t_rows (xd_proxies db))" and "\<And>r. pr_id (f r) = pr_id r" "\<And>r. pr_live (f r) = pr_live r"
  shows "live_ids db' = live_ids db"
proof -
  have "{q \<in> f ` A. pr_live q} = f ` {q \<in> A. pr_live q}" for A using assms(3) by auto
  then show ?thesis unfolding live_ids_def assms(1) by (simp add: image_image assms(2))
qed

lemma accounts_same_home:
  assumes "\<And>a. pa_id (g a) = pa_id a \<and> pa_proxy (g a) = pa_proxy a \<and> pa_origin (g a) = pa_origin a \<and> pa_live (g a) = pa_live a"
    and "xd_accounts db' = map g (xd_accounts db)" and "live_ids db' = live_ids db"
  shows "homes db' = homes db" and "px_bound db \<longrightarrow> px_bound db'"
  using assms by (auto simp: homes_def px_bound_def home_def split: option.split)

lemma drop_if_fields: "pa_id (if P a then drop_snapshots t a else a) = pa_id a \<and> pa_proxy (if P a then drop_snapshots t a else a) = pa_proxy a \<and>
  pa_origin (if P a then drop_snapshots t a else a) = pa_origin a \<and> pa_live (if P a then drop_snapshots t a else a) = pa_live a"
  by (simp add: drop_snapshots_def pa_live_def)

lemma update_keeps:
  assumes "px_inv db" and p: "px_mode p = mode_proxy \<Longrightarrow> px_backup p \<noteq> None"
  shows "px_keeps db (snd (px_update hex now p db))"
  unfolding px_update_def
proof (rule px_call_keeps [OF assms(1)])
  fix db x db1
  assume inv: "px_inv db"
  let ?f = "\<lambda>q. if pr_id q = px_id p then set_columns p now q else q"
  let ?tab = "snd (tab_update (\<lambda>q. pr_id q = px_id p) (set_columns p now) (xd_proxies db))"
  let ?db = "db\<lparr>xd_proxies := ?tab\<rparr>"
  assume "px_update_on hex now p db = (Inr x, db1)"
  then obtain r where r: "live_proxy (px_id p) db = Some r" "write_error (t_rows ?tab) (set_columns p now r) = None"
      and db1: "db1 = ?db \<or> (\<exists>ids. db1 = enqueue_probe_changes hex ids (snd (invalidate_probes (px_id p) ?db)))"
    by (auto simp: px_update_on_def Let_def split: option.splits if_splits prod.splits)
  have tab: "xd_proxies db1 = ?tab" using db1 by (auto simp: invalidate_probes_def update_accounts_def)
  have "\<exists>h. xd_accounts db1 = map h (xd_accounts db) \<and>
      (\<forall>a. pa_id (h a) = pa_id a \<and> pa_proxy (h a) = pa_proxy a \<and> pa_origin (h a) = pa_origin a \<and> pa_live (h a) = pa_live a)"
    using db1
  proof
    assume "db1 = ?db"
    then show ?thesis by (intro exI [of _ "\<lambda>a. a"]) simp
  next
    assume "\<exists>ids. db1 = enqueue_probe_changes hex ids (snd (invalidate_probes (px_id p) ?db))"
    then show ?thesis using drop_if_fields
      by (intro exI [of _ "\<lambda>a. if probe_stale (px_id p) a then drop_snapshots (xd_now db) a else a"])
        (auto simp: invalidate_probes_def update_accounts_def)
  qed
  then obtain h where h: "xd_accounts db1 = map h (xd_accounts db)"
      "\<And>a. pa_id (h a) = pa_id a \<and> pa_proxy (h a) = pa_proxy a \<and> pa_origin (h a) = pa_origin a \<and> pa_live (h a) = pa_live a" by blast
  have f: "pr_id (?f q) = pr_id q" "pr_live (?f q) = pr_live q" for q by (auto simp: set_columns_def pr_live_def)
  have live: "live_ids db1 = live_ids db" by (rule live_ids_map [where f = ?f]) (use f in \<open>simp_all add: tab\<close>)
  have bk: "b \<in> row_ids db" if "px_backup p = Some b" for b
  proof -
    have "b \<in> pr_id ` ?f ` set (t_rows (xd_proxies db))"
      using r(2) that by (auto simp: write_error_def backup_exists_def set_columns_def list_ex_iff split: if_splits)
    then show ?thesis unfolding row_ids_def image_image f(1) .
  qed
  have "px_inv db1"
    by (rule px_inv_map [OF inv, where f = ?f and g = h])
      (use h f bk p px_inv_sel [OF inv] in \<open>auto simp: tab set_columns_def pr_live_def split: if_splits\<close>)
  then show "px_keeps db db1" using accounts_same_home [OF h(2,1) live] by (simp add: px_keeps_def)
qed

lemma px_delete_keeps:
  assumes inv: "px_inv db" and none: "accounts_of i db = []"
  shows "px_keeps db (snd (px_delete now i db))"
  unfolding px_delete_def
proof (rule px_call_keeps_at [OF inv])
  fix fs y db1
  let ?f = "\<lambda>r. if pr_id r = i \<and> pr_live r then r\<lparr>pr_deleted_at := Some now\<rparr> else r"
  let ?db = "db\<lparr>xd_faults := fs\<rparr>"
  assume "(Inr (), ?db\<lparr>xd_proxies := snd (tab_update (\<lambda>r. pr_id r = i \<and> pr_live r) (\<lambda>r. r\<lparr>pr_deleted_at := Some now\<rparr>) (xd_proxies ?db))\<rparr>) = (Inr y, db1)"
  then have db1: "xd_accounts db1 = xd_accounts db" "t_seq (xd_proxies db1) = t_seq (xd_proxies db)"
    "t_rows (xd_proxies db1) = map ?f (t_rows (xd_proxies db))" by auto
  have "px_inv db1"
    by (rule px_inv_map [OF inv, where f = ?f and g = "\<lambda>a. a"])
      (use db1 px_inv_sel [OF inv] in \<open>auto simp: pr_live_def split: if_splits\<close>)
  moreover have "j \<in> live_ids db1" if j: "j \<in> live_ids db" "j \<noteq> i" for j
  proof -
    obtain r where "r \<in> set (t_rows (xd_proxies db))" "pr_live r" "pr_id r = j" using j(1) by (auto simp: live_ids_def)
    then show ?thesis using j(2) unfolding live_ids_def db1(3) by (auto simp: image_iff intro!: bexI [of _ r])
  qed
  then have "px_bound db \<longrightarrow> px_bound db1" using none by (auto simp: px_bound_def db1(1) accounts_of_def filter_empty_conv)
  ultimately show "px_keeps db db1" by (simp add: px_keeps_def homes_def db1(1))
qed

lemma delete_keeps:
  assumes "px_inv db"
  shows "px_keeps db (snd (delete_proxy now i db))"
proof (rule px_call_cases [of "\<lambda>db. (Inr (int (length (accounts_of i db))), db)" db])
  fix x fs db1
  assume c: "px_call (\<lambda>db. (Inr (int (length (accounts_of i db))), db)) db = (Inr x, db1)"
    "(Inr (int (length (accounts_of i (db\<lparr>xd_faults := fs\<rparr>)))), db\<lparr>xd_faults := fs\<rparr>) = (Inr x, db1)"
  then have db1: "db1 = db\<lparr>xd_faults := fs\<rparr>" "x = int (length (accounts_of i db1))" by auto
  have inv: "px_inv db1" using assms db1(1) by simp
  have "px_keeps db1 (snd (delete_proxy now i db))"
  proof (cases "x > 0")
    case True
    then show ?thesis using c(1) inv by (simp add: delete_proxy_def px_count_accounts_def px_read_def px_keeps_refl)
  next
    case False
    then have "accounts_of i db1 = []" using db1(2) by simp
    from px_delete_keeps [OF inv this] show ?thesis using False c(1) by (simp add: delete_proxy_def px_count_accounts_def px_read_def)
  qed
  then show ?thesis using db1(1) by simp
qed (simp_all add: delete_proxy_def px_count_accounts_def px_read_def px_keeps_refl assms)

lemma batch_delete_keeps: "px_inv db \<Longrightarrow> px_keeps db (snd (batch_delete now ids db))"
proof (induction ids arbitrary: db)
  case (Cons i ids)
  obtain x db1 where d: "delete_proxy now i db = (x, db1)" by (cases "delete_proxy now i db")
  have k: "px_keeps db db1" using delete_keeps [OF Cons.prems, of now i] d by simp
  have "px_keeps db1 (snd (batch_delete now ids db1))" by (rule Cons.IH [OF px_keeps_inv [OF k]])
  then have "px_keeps db (snd (batch_delete now ids db1))" by (rule px_keeps_trans [OF k])
  then show ?case by (cases x; cases "batch_delete now ids db1") (auto simp: d split: prod.splits)
qed (simp add: px_keeps_refl)

lemma create_proxy_keeps: "px_inv db \<Longrightarrow> px_keeps db (snd (create_proxy now inp db))"
  by (auto simp: create_proxy_def Let_def px_keeps_refl intro!: create_keeps)

lemma update_proxy_keeps:
  assumes "px_inv db"
  shows "px_keeps db (snd (update_proxy hex now i inp db))"
proof -
  obtain x db1 where g: "px_get i db = (x, db1)" by (cases "px_get i db")
  have k: "px_keeps db db1"
    using px_call_keeps [OF assms, of "\<lambda>db. (case live_proxy i db of None \<Rightarrow> Inl err_proxy_not_found | Some r \<Rightarrow> Inr (entity_to_service r), db)"] g
    by (auto simp: px_get_def intro: px_keeps_refl)
  show ?thesis
  proof (cases x)
    case (Inl e)
    then show ?thesis using g k assms by (auto simp: update_proxy_def px_keeps_refl)
  next
    case (Inr p)
    have "px_keeps db1 (snd (px_update hex now (merge_update inp mode backup p) db1))" if "mode = mode_proxy \<longrightarrow> backup \<noteq> None" for mode backup
      by (rule update_keeps [OF px_keeps_inv [OF k]]) (use that in \<open>simp add: merge_update_def\<close>)
    then show ?thesis using g k assms Inr px_keeps_trans [OF k] by (auto simp: update_proxy_def px_keeps_refl Let_def)
  qed
qed

section \<open>The sweep and its reversal\<close>

lemma moved_target:
  assumes snap: "snapshot_of ps byID" and sub: "set qs \<subseteq> set ps" and move: "move_of qs byID now a = Some target"
  shows "pa_live a \<and> (\<exists>i p. pa_proxy a = Some i \<and> p \<in> set qs \<and> px_id p = i \<and> is_active p \<and> is_expired p now) \<and>
    (\<forall>j. target = Some j \<longrightarrow> (\<exists>q\<in>set ps. px_id q = j \<and> usable now q))"
proof -
  obtain p where p: "swept_by qs now a = Some p" "resolve_fallback p byID now = Some (target, True)"
  proof (cases "swept_by qs now a")
    case (Some p)
    then obtain t c where "resolve_fallback p byID now = Some (t, c)"
      using move by (cases "resolve_fallback p byID now") (auto simp: move_of_def)
    with that Some move show thesis by (cases c) (auto simp: move_of_def)
  qed (use move in \<open>simp add: move_of_def\<close>)
  then obtain i where i: "pa_live a" "pa_proxy a = Some i" "swept qs now i = Some p"
    by (auto simp: swept_by_def bind_eq_Some_conv split: if_splits)
  then have sw: "p \<in> set qs" "px_id p = i" "is_active p" "is_expired p now" using swept_Some by blast+
  then have "leads byID now p target" using snapshot_start [OF snap, of p now] sub p(2) by force
  then have "\<exists>q\<in>set ps. px_id q = j \<and> usable now q" if "target = Some j" for j
    using leads_usable [of byID now p j] snap that unfolding snapshot_of_def by blast
  with i sw show ?thesis by blast
qed

lemma sweep_account_home: "home (sweep_account qs byID now t a) = home a"
  by (cases "move_of qs byID now a"; cases "swept_by qs now a")
    (auto simp: sweep_account_def reroute_def drop_snapshots_def home_def move_of_def swept_by_def bind_eq_Some_conv split: option.splits if_splits)

lemma sweep_keeps:
  assumes inv: "px_inv db" and ord: "mset (ord (live_rows db)) = mset (live_rows db)"
  obtains n e db' where "sweep_expired hex ord now db = Some ((n, e), db')" "px_keeps db db'"
proof -
  define ps where "ps = select_proxies ord (\<lambda>r. True) db"
  define byID where "byID = foldl (\<lambda>m p. gm_put (px_id p) p m) [] ps"
  note d = px_inv_sel(1) [OF inv]
  have snap: "snapshot_of ps byID" "set ps = entity_to_service ` set (live_rows db)"
    using snapshot_ok [of db ord, OF d ord] by (simp_all add: ps_def byID_def)
  obtain n e db' qs where s: "sweep_expired hex ord now db = Some ((n, e), db')" "prefix qs ps" "swept_to qs byID now db db'"
    using sweep_expired_effect [of db ord hex now, OF d ord] by (auto simp: ps_def byID_def)
  let ?f = "sweep_row qs now (xd_now db)" and ?g = "sweep_account qs byID now (xd_now db)"
  have eff: "t_seq (xd_proxies db') = t_seq (xd_proxies db)" "t_rows (xd_proxies db') = map ?f (t_rows (xd_proxies db))"
    "xd_accounts db' = map ?g (xd_accounts db)"
    using s(3) by (simp_all add: swept_to_def same_clock_def)
  have target: "j \<in> live_ids db" if move: "move_of qs byID now a = Some (Some j)" for a j
  proof -
    obtain q where "q \<in> set ps" "px_id q = j" using moved_target [OF snap(1) set_mono_prefix [OF s(2)] move] by blast
    then show ?thesis unfolding snap(2) by (auto simp: live_rows_def live_ids_def)
  qed
  have sub: "live_ids db \<subseteq> row_ids db" by (auto simp: live_ids_def row_ids_def)
  have g: "pa_proxy (?g a) = Some i \<Longrightarrow> pa_proxy a = Some i \<or> i \<in> live_ids db"
    "pa_origin (?g a) = Some i \<Longrightarrow> pa_origin a = Some i \<or> pa_proxy a = Some i" for a i
  proof -
    have "?g a = a \<or> ?g a = drop_snapshots (xd_now db) a \<or> (\<exists>t j. move_of qs byID now a = Some t \<and> pa_proxy a = Some j \<and> ?g a = reroute j t (xd_now db) a)"
      using moved_target [OF snap(1) set_mono_prefix [OF s(2)], of now a] by (auto simp: sweep_account_def split: option.splits)
    then show "pa_proxy (?g a) = Some i \<Longrightarrow> pa_proxy a = Some i \<or> i \<in> live_ids db"
      and "pa_origin (?g a) = Some i \<Longrightarrow> pa_origin a = Some i \<or> pa_proxy a = Some i"
      using target by (auto simp: drop_snapshots_def reroute_def split: option.splits)
  qed
  have accs: "i \<in> row_ids db" if "a \<in> set (xd_accounts db)" "pa_proxy (?g a) = Some i \<or> pa_origin (?g a) = Some i" for a i
    using that(2) g [of a i] px_inv_sel(4) [OF inv that(1), of i] sub by blast
  have "px_inv db'" by (rule px_inv_map [OF inv eff]) (use px_inv_sel(2,3) [OF inv] accs in auto)
  moreover have live: "live_ids db' = live_ids db" by (rule live_ids_map [OF eff(2)]) simp_all
  moreover have "homes db' = homes db" by (simp add: homes_def eff(3) sweep_account_home)
  moreover have "px_bound db \<longrightarrow> px_bound db'" using g(1) unfolding px_bound_def live eff(3) by auto
  ultimately have "px_keeps db db'" by (simp add: px_keeps_def)
  with s(1) show thesis by (rule that)
qed

lemma revert_effect:
  obtains (fault) fs where "revert_fallback hex i db = (Inl err_db, db\<lparr>xd_faults := fs\<rparr>)"
  | (none) fs where "revert_fallback hex i db = (Inl err_not_in_fallback, db\<lparr>xd_faults := fs\<rparr>)" "\<forall>a\<in>set (xd_accounts db). \<not> in_fallback i a"
  | (ran) db' where "revert_fallback hex i db = (Inr (), db')" "\<exists>a\<in>set (xd_accounts db). in_fallback i a" "xd_proxies db' = xd_proxies db"
    "xd_accounts db' = map (\<lambda>a. if in_fallback i a then go_home (xd_now db) a else a) (xd_accounts db)"
proof -
  let ?f = "revert_rows i"
  let ?g = "\<lambda>db. (Inr (), enqueue_event hex event_account_changed (Some i) None None db)"
  show thesis
  proof (rule px_call_cases [of ?f db])
    fix fs assume "px_call ?f db = (Inl err_db, db\<lparr>xd_faults := fs\<rparr>)"
    then show thesis by (intro fault) (simp add: revert_fallback_def)
  next
    fix n fs db1
    assume c: "px_call ?f db = (Inr n, db1)" "?f (db\<lparr>xd_faults := fs\<rparr>) = (Inr n, db1)"
    then have n: "n = length (filter (in_fallback i) (xd_accounts db))"
      and db1: "xd_proxies db1 = xd_proxies db" "xd_accounts db1 = map (\<lambda>a. if in_fallback i a then go_home (xd_now db) a else a) (xd_accounts db)"
      by (auto simp: revert_rows_def update_accounts_def)
    show thesis
    proof (cases "n = 0")
      case True
      then have no: "\<forall>a\<in>set (xd_accounts db). \<not> in_fallback i a" using n by (simp add: filter_empty_conv)
      then have "map (\<lambda>a. if in_fallback i a then go_home t a else a) (xd_accounts db) = xd_accounts db" for t by (simp add: map_idI)
      then have "db1 = db\<lparr>xd_faults := fs\<rparr>" using c(2) by (auto simp: revert_rows_def update_accounts_def)
      with True c(1) no show thesis by (intro none) (simp_all add: revert_fallback_def)
    next
      case False
      have "xd_proxies (snd (px_call ?g db1)) = xd_proxies db1 \<and> xd_accounts (snd (px_call ?g db1)) = xd_accounts db1"
        by (rule px_call_cases [of ?g db1]) auto
      moreover have "\<exists>a\<in>set (xd_accounts db). in_fallback i a" using False n by (auto simp: filter_empty_conv)
      ultimately show thesis using c(1) False db1 by (intro ran [of "snd (px_call ?g db1)"]) (auto simp: revert_fallback_def)
    qed
  qed (auto simp: revert_rows_def update_accounts_def)
qed

lemma home_go_home: "in_fallback i a \<Longrightarrow> home (go_home t a) = home a"
  by (auto simp: in_fallback_def go_home_def home_def)

lemma revert_keeps:
  assumes inv: "px_inv db"
  shows "px_inv (snd (revert_fallback hex i db)) \<and> homes (snd (revert_fallback hex i db)) = homes db"
proof (cases rule: revert_effect [of hex i db])
  case (ran db')
  let ?g = "\<lambda>a. if in_fallback i a then go_home (xd_now db) a else a"
  have "px_inv db'"
  proof (rule px_inv_map [OF inv, where f = "\<lambda>r. r" and g = ?g])
    show "j \<in> row_ids db" if "a \<in> set (xd_accounts db)" "pa_proxy (?g a) = Some j \<or> pa_origin (?g a) = Some j" for a j
      using that(2) px_inv_sel(4) [OF inv that(1), of j] by (auto simp: go_home_def split: if_splits)
  qed (use ran px_inv_sel [OF inv] in \<open>auto simp: go_home_def\<close>)
  moreover have "homes db' = homes db" unfolding homes_def ran(4) by (auto simp: home_go_home) (simp add: go_home_def)
  ultimately show ?thesis using ran(1) by simp
qed (use inv in simp_all)

definition is_revert :: "px_action \<Rightarrow> bool" where "is_revert act \<longleftrightarrow> (case act of Revert _ \<Rightarrow> True | _ \<Rightarrow> False)"

lemma step_keeps:
  assumes inv: "px_inv db" and ord: "\<And>rs. mset (ord rs) = mset rs"
  shows "px_inv (px_step hex ord act db) \<and> homes (px_step hex ord act db) = homes db \<and>
    (px_bound db \<and> \<not> is_revert act \<longrightarrow> px_bound (px_step hex ord act db))"
proof (cases act)
  case (Sweep now)
  obtain n e db' where "sweep_expired hex ord now db = Some ((n, e), db')" "px_keeps db db'" by (rule sweep_keeps [of db ord hex now, OF inv ord])
  then show ?thesis using Sweep by (simp add: px_step_def px_keeps_def)
next
  case (Revert i)
  then show ?thesis using revert_keeps [OF inv, of hex i] by (simp add: px_step_def is_revert_def)
next
  case (CreateProxy now inp)
  then show ?thesis using create_proxy_keeps [OF inv, of now inp] by (simp add: px_step_def px_keeps_def)
next
  case (UpdateProxy now i inp)
  then show ?thesis using update_proxy_keeps [OF inv, of hex now i inp] by (simp add: px_step_def px_keeps_def)
next
  case (DeleteProxy now i)
  then show ?thesis using delete_keeps [OF inv, of now i] by (simp add: px_step_def px_keeps_def)
next
  case (BatchDelete now ids)
  then show ?thesis using batch_delete_keeps [OF inv, of now ids] by (simp add: px_step_def px_keeps_def)
qed

lemma run_keeps:
  assumes "px_inv db" and ord: "\<And>rs. mset (ord rs) = mset rs"
  shows "px_inv (px_run hex ord acts db) \<and> homes (px_run hex ord acts db) = homes db \<and>
    (px_bound db \<and> (\<forall>act\<in>set acts. \<not> is_revert act) \<longrightarrow> px_bound (px_run hex ord acts db))"
  using assms(1)
proof (induction acts arbitrary: db)
  case (Cons act acts)
  from step_keeps [OF Cons.prems ord, of hex act]
  have s: "px_inv (px_step hex ord act db)" "homes (px_step hex ord act db) = homes db"
    "px_bound db \<and> \<not> is_revert act \<longrightarrow> px_bound (px_step hex ord act db)" by blast+
  show ?case using Cons.IH [OF s(1)] s(2,3) by (simp add: px_run_def)
qed (simp add: px_run_def)

end
