(* ===== verification/Proxy_Props.thy ===== *)
theory Proxy_Props
  imports Proxy_Invariant
begin

text \<open>
  The properties of the proxies: the choice of a fallback, the sweep of expired proxies, the way back, and
  what every action keeps.
\<close>

section \<open>A small world\<close>

definition demo_row :: "int64 \<Rightarrow> gtime option \<Rightarrow> string \<Rightarrow> int64 option \<Rightarrow> px_row" where
  "demo_row i expires mode backup = \<lparr>pr_id = i, pr_name = ''p'', pr_protocol = ''http'', pr_host = ''h'', pr_port = 80, pr_username = None,
     pr_password = None, pr_status = status_active, pr_created_at = 0, pr_updated_at = 0, pr_expires_at = expires, pr_mode = mode,
     pr_backup = backup, pr_warn_days = 7, pr_deleted_at = None\<rparr>"

definition demo_account :: "int64 \<Rightarrow> int64 option \<Rightarrow> px_account" where
  "demo_account i proxy = \<lparr>pa_id = i, pa_platform = ''openai'', pa_type = ''apikey'', pa_proxy = proxy, pa_origin = None,
     pa_extra = [(key_billing_probe, ''1'')], pa_updated_at = 0, pa_deleted_at = None\<rparr>"

text \<open>Proxy 1 falls back to 2 and 2 to 3 and 1 is expired, as is 4, which has itself as backup.\<close>

definition demo_proxies :: px_db where
  "demo_proxies = \<lparr>xd_proxies = \<lparr>t_seq = 4, t_rows = [demo_row 1 (Some 50) mode_proxy (Some 2), demo_row 2 (Some 60) mode_proxy (Some 3),
       demo_row 3 (Some 500) mode_none None, demo_row 4 (Some 70) mode_proxy (Some 4)]\<rparr>,
     xd_accounts = [demo_account 7 (Some 1), demo_account 8 (Some 3), demo_account 9 (Some 4)], xd_outbox = [], xd_now = 101, xd_faults = []\<rparr>"

definition demo_byID :: "(int64, proxy) gomap" where
  "demo_byID = map (\<lambda>r. (pr_id r, entity_to_service r)) (t_rows (xd_proxies demo_proxies))"

lemma demo_inv: "px_inv demo_proxies"
  by (simp add: px_inv_def px_keys_def px_backups_def tab_ok_def row_ids_def demo_proxies_def demo_row_def demo_account_def proxy_modes pr_live_def)


section \<open>The choice of a target\<close>

text \<open>
Claim C17: the search for a fallback always returns, whatever cycles the backups form: for an expired proxy of the
snapshot it reports a change exactly when its chain of backups leads somewhere, past unusable proxies, to
the first usable one or to a direct connection, and this is the target.
\<close>

theorem fallback_terminates:
  assumes "gm_get byID (px_id start) = Some start" and "is_expired start now"
  shows "\<exists>target change. resolve_fallback start byID now = Some (target, change) \<and>
    (if change then leads byID now start target else target = None \<and> (\<forall>t. \<not> leads byID now start t))"
  by (rule resolve_ok [OF assms(1), of now]) (use assms(2) in \<open>auto simp: usable_def\<close>)

theorem fallback_terminates_witness:
  "leads demo_byID 100 (entity_to_service (demo_row 1 (Some 50) mode_proxy (Some 2))) (Some 3) \<and>
   (\<forall>t. \<not> leads demo_byID 100 (entity_to_service (demo_row 4 (Some 70) mode_proxy (Some 4))) t)"
proof
  let ?p = "entity_to_service (demo_row 1 (Some 50) mode_proxy (Some 2))" and ?q = "entity_to_service (demo_row 4 (Some 70) mode_proxy (Some 4))"
  have start: "gm_get demo_byID (px_id ?p) = Some ?p" "is_expired ?p 100" "gm_get demo_byID (px_id ?q) = Some ?q" "is_expired ?q 100" by code_simp+
  have "resolve_fallback ?p demo_byID 100 = Some (Some 3, True)" by code_simp
  with fallback_terminates [OF start(1,2)] show "leads demo_byID 100 ?p (Some 3)" by auto
  have "resolve_fallback ?q demo_byID 100 = Some (None, False)" by code_simp
  with fallback_terminates [OF start(3,4)] show "\<forall>t. \<not> leads demo_byID 100 ?q t" by auto
qed

section \<open>The sweep\<close>










section \<open>What all actions keep\<close>


definition demo_acts :: "px_action list" where "demo_acts = [Sweep 100, DeleteProxy 101 1, DeleteProxy 102 3]"


text \<open>
Claim C28: sending an account back undoes any number of sweeps: whatever happened to the proxies in between, a
successful reversal returns the account to the proxy it had, or was to go back to, at the beginning.
\<close>

theorem revert_restores_home:
  assumes "px_inv db" and "\<And>rs. mset (ord rs) = mset rs" and a: "a \<in> set (xd_accounts db)"
    and run: "revert_fallback hex (pa_id a) (px_run hex ord acts db) = (Inr (), db')"
  shows "\<exists>a'\<in>set (xd_accounts db'). pa_id a' = pa_id a \<and> pa_proxy a' = home a \<and> pa_origin a' = None"
proof -
  let ?db = "px_run hex ord acts db"
  have keep: "px_inv ?db" "homes ?db = homes db" using run_keeps [of db ord hex acts, OF assms(1,2)] by blast+
  obtain b where b: "b \<in> set (xd_accounts ?db)" "in_fallback (pa_id a) b"
      "xd_accounts db' = map (\<lambda>c. if in_fallback (pa_id a) c then go_home (xd_now ?db) c else c) (xd_accounts ?db)"
    using run by (cases rule: revert_effect [of hex "pa_id a" ?db]) auto
  then have id: "pa_id b = pa_id a" by (simp add: in_fallback_def)
  have "(pa_id b, home b) \<in> set (homes db)" using b(1) keep(2) unfolding homes_def by (metis (no_types, lifting) image_eqI list.set_map)
  then obtain c where "c \<in> set (xd_accounts db)" "pa_id c = pa_id a" "home c = home b" by (auto simp: homes_def id)
  then have "home b = home a" using px_inv_sel(5) [OF assms(1)] a by (metis distinct_map inj_onD)
  moreover have "home b = pa_origin b" using b(2) by (auto simp: in_fallback_def home_def)
  moreover have "go_home (xd_now ?db) b \<in> set (xd_accounts db')" using b by auto
  ultimately show ?thesis using id by (intro bexI [of _ "go_home (xd_now ?db) b"]) (simp_all add: go_home_def)
qed

theorem revert_restores_home_witness:
  "\<exists>a'\<in>set (xd_accounts (px_run id rev (demo_acts @ [Revert 7]) demo_proxies)). pa_id a' = 7 \<and> pa_proxy a' = Some 1 \<and> pa_origin a' = None"
proof -
  let ?db = "px_run id rev demo_acts demo_proxies" and ?a = "demo_account 7 (Some 1)"
  have a: "?a \<in> set (xd_accounts demo_proxies)" "pa_id ?a = 7" "home ?a = Some 1" by (simp_all add: demo_proxies_def demo_account_def home_def)
  have "(case revert_fallback id 7 ?db of (Inr _, _) \<Rightarrow> True | _ \<Rightarrow> False)" by code_simp
  then obtain db' where run: "revert_fallback id (pa_id ?a) ?db = (Inr (), db')" using a(2) by (auto split: prod.splits sum.splits)
  from revert_restores_home [OF demo_inv _ a(1) run] a have "\<exists>a'\<in>set (xd_accounts db'). pa_id a' = 7 \<and> pa_proxy a' = Some 1 \<and> pa_origin a' = None" by auto
  moreover have "px_run id rev (demo_acts @ [Revert 7]) demo_proxies = db'" using run a(2) by (simp add: px_run_def px_step_def)
  ultimately show ?thesis by simp
qed

text \<open>The account of the example is back on a proxy that was deleted in between.\<close>

lemma reverted_to_deleted:
  "(case px_run id rev (demo_acts @ [Revert 7]) demo_proxies of db \<Rightarrow>
     pa_proxy (xd_accounts db ! 0) = Some 1 \<and> pa_live (xd_accounts db ! 0) \<and> live_proxy 1 db = None)"
  by code_simp

section \<open>Announcing the accounts\<close>

lemma concat_chunks: "concat (id_chunks ids) = ids"
  by (induction ids rule: id_chunks.induct) (subst id_chunks.simps, simp)

lemma chunk_size: "c \<in> set (id_chunks ids) \<Longrightarrow> 0 < length c \<and> length c \<le> 500"
proof (induction ids rule: id_chunks.induct)
  case (1 ids)
  then show ?case using id_chunks.simps [of ids] by (cases "ids = []") (auto simp: outbox_chunk_def)
qed

lemma sorted_remdups_adj: "sorted xs \<Longrightarrow> sorted (remdups_adj xs) \<and> distinct (remdups_adj xs)"
  by (induction xs rule: remdups_adj.induct) auto

lemma sorted_unique: "sorted_unique_ids ids = sorted_list_of_set (set ids)"
proof (cases "length ids < 2")
  case True
  then show ?thesis by (cases ids) (auto simp: sorted_unique_ids_def)
next
  case False
  have "sorted (remdups_adj (sort ids))" "distinct (remdups_adj (sort ids))" using sorted_remdups_adj [of "sort ids"] by simp_all
  then have "sorted_list_of_set (set (remdups_adj (sort ids))) = remdups_adj (sort ids)" by (rule sorted_list_of_set.idem_if_sorted_distinct)
  then show ?thesis using False by (simp add: sorted_unique_ids_def)
qed

definition bulk_event :: "int64 list \<Rightarrow> outbox_event" where
  "bulk_event ids = \<lparr>ob_type = event_bulk_changed, ob_account = None, ob_group = None, ob_accounts = Some ids, ob_dedup = None\<rparr>"

lemma probe_changes_outbox: "xd_outbox (enqueue_probe_changes hex ids db) = xd_outbox db @ map bulk_event (id_chunks (sorted_list_of_set (set ids)))"
proof -
  have one: "enqueue_event hex event_bulk_changed None None (Some c) db = db\<lparr>xd_outbox := xd_outbox db @ [bulk_event c]\<rparr>" for c db
    by (simp add: enqueue_event_def supports_dedup_def bulk_event_def event_bulk_changed_def event_account_changed_def event_group_changed_def event_full_rebuild_def)
  have "xd_outbox (fold (\<lambda>c. enqueue_event hex event_bulk_changed None None (Some c)) cs db) = xd_outbox db @ map bulk_event cs" for cs
    by (induction cs arbitrary: db) (simp_all add: one)
  then show ?thesis by (simp add: enqueue_probe_changes_def sorted_unique)
qed

lemma drop_not_stale: "\<not> probe_stale i (drop_snapshots t a)"
  by (auto simp: probe_stale_def drop_snapshots_def has_snapshot_def delete_conv' key_billing_probe_def key_ollama_def key_opencode_def split: option.splits)

text \<open>
Claim C30: an update that changes how a proxy is reached, or its status, leaves no account of the proxy with a snapshot
taken through the old connection, and announces exactly the accounts that had one, once each and in
increasing order, in events of at most 500 accounts.
\<close>

theorem update_announces:
  assumes run: "px_update hex now p db = (Inr q, db')" and old: "live_proxy (px_id p) db = Some r"
    and changed: "probe_identity r \<noteq> service_identity p"
  shows "\<exists>chunks. xd_outbox db' = xd_outbox db @ map bulk_event chunks \<and>
    concat chunks = sorted_list_of_set (pa_id ` {a \<in> set (xd_accounts db). probe_stale (px_id p) a}) \<and>
    (\<forall>c\<in>set chunks. 0 < length c \<and> length c \<le> 500) \<and> (\<forall>a\<in>set (xd_accounts db'). \<not> probe_stale (px_id p) a)"
proof -
  let ?tab = "snd (tab_update (\<lambda>q. pr_id q = px_id p) (set_columns p now) (xd_proxies db))"
  let ?ids = "map pa_id (filter (probe_stale (px_id p)) (xd_accounts db))"
  let ?chunks = "id_chunks (sorted_list_of_set (set ?ids))"
  have "\<exists>fs. db' = enqueue_probe_changes hex ?ids (snd (invalidate_probes (px_id p) (db\<lparr>xd_faults := fs, xd_proxies := ?tab\<rparr>)))"
  proof (cases rule: px_call_cases [of "px_update_on hex now p" db])
    case (3 x fs db1)
    have "live_proxy (px_id p) (db\<lparr>xd_faults := fs\<rparr>) = Some r" using old by (simp add: live_proxy_def)
    with 3(2) changed have "db1 = enqueue_probe_changes hex ?ids (snd (invalidate_probes (px_id p) (db\<lparr>xd_faults := fs, xd_proxies := ?tab\<rparr>)))"
      by (auto simp: px_update_on_def Let_def invalidate_probes_def update_accounts_def split: option.splits)
    with 3(1) run show ?thesis by (auto simp: px_update_def)
  qed (use run in \<open>simp_all add: px_update_def\<close>)
  then obtain fs where db': "db' = enqueue_probe_changes hex ?ids (snd (invalidate_probes (px_id p) (db\<lparr>xd_faults := fs, xd_proxies := ?tab\<rparr>)))" ..
  have "xd_outbox db' = xd_outbox db @ map bulk_event ?chunks"
    by (simp add: db' probe_changes_outbox invalidate_probes_def update_accounts_def)
  moreover have "\<forall>a\<in>set (xd_accounts db'). \<not> probe_stale (px_id p) a"
    using drop_not_stale by (auto simp: db' invalidate_probes_def update_accounts_def)
  moreover have "concat ?chunks = sorted_list_of_set (pa_id ` {a \<in> set (xd_accounts db). probe_stale (px_id p) a})" by (simp add: concat_chunks)
  ultimately show ?thesis using chunk_size by blast
qed

theorem update_announces_witness:
  "map ob_accounts (xd_outbox (snd (px_update id 102 (entity_to_service (demo_row 1 (Some 50) mode_proxy (Some 2))\<lparr>px_host := ''x''\<rparr>) demo_proxies))) = [Some [7]]"
proof -
  let ?p = "entity_to_service (demo_row 1 (Some 50) mode_proxy (Some 2))\<lparr>px_host := ''x''\<rparr>"
  have "(case px_update id 102 ?p demo_proxies of (Inr _, _) \<Rightarrow> True | _ \<Rightarrow> False)" by code_simp
  then obtain q db' where run: "px_update id 102 ?p demo_proxies = (Inr q, db')" by (auto split: prod.splits sum.splits)
  have old: "live_proxy (px_id ?p) demo_proxies = Some (demo_row 1 (Some 50) mode_proxy (Some 2))"
    and new: "probe_identity (demo_row 1 (Some 50) mode_proxy (Some 2)) \<noteq> service_identity ?p" by code_simp+
  have "{a \<in> set (xd_accounts demo_proxies). probe_stale (px_id ?p) a} = {demo_account 7 (Some 1)}"
    by (auto simp: demo_proxies_def demo_account_def demo_row_def probe_stale_def pa_live_def has_snapshot_def)
  moreover have "pa_id (demo_account 7 (Some 1)) = 7" "xd_outbox demo_proxies = []" by (simp_all add: demo_account_def demo_proxies_def)
  ultimately obtain chunks where c: "xd_outbox db' = map bulk_event chunks" "concat chunks = [7]" "\<forall>c\<in>set chunks. 0 < length c"
    using update_announces [OF run old new] by auto
  then have "chunks = [[7]]" by (cases chunks rule: remdups_adj.cases) (auto simp: Cons_eq_append_conv append_eq_Cons_conv)
  with c(1) run show ?thesis by (simp add: bulk_event_def)
qed

text \<open>The service rejects a proxy as its own backup on updates only: the next identifier is no obstacle on creation.\<close>

lemma self_backup_created:
  "(case create_proxy 100 \<lparr>cp_name = ''n'', cp_protocol = ''http'', cp_host = ''h'', cp_port = 1, cp_username = [], cp_password = [],
      cp_expires_at = None, cp_mode = mode_proxy, cp_backup = Some 5, cp_warn_days = 0\<rparr> demo_proxies of
     (Inr p, _) \<Rightarrow> px_id p = 5 \<and> px_backup p = Some 5 | _ \<Rightarrow> False)"
  by code_simp

end
