(* ===== verification/Sched_Keys.thy ===== *)
theory Sched_Keys
  imports Go_Errors
begin

text \<open>
  The names of the scheduler cache: buckets, write tokens and leases of
  \<open>backend/internal/service/scheduler_cache.go\<close> and the Redis keys of \<open>backend/internal/repository/scheduler_cache.go\<close>.
  A key is a term of \<open>rkey\<close>; \<open>key_name\<close> is the text the code sends, and \<open>key_name_inj\<close> shows that keys of
  buckets without a colon never share a text, so that the store may be indexed by terms.
\<close>

section \<open>Buckets and tokens\<close>

record bucket =
  sb_group :: int64
  sb_platform :: string
  sb_mode :: string

record write_token =
  wt_bucket :: bucket
  wt_epoch :: int64

record group_lease =
  gl_group :: int64
  gl_owner :: string

definition mode_single :: string where "mode_single = ''single''"
definition mode_mixed :: string where "mode_mixed = ''mixed''"
definition mode_forced :: string where "mode_forced = ''forced''"

definition token_valid_for :: "write_token \<Rightarrow> bucket \<Rightarrow> bool" where
  "token_valid_for t b \<longleftrightarrow> 0 < wt_epoch t \<and> wt_bucket t = b"

definition lease_valid_for :: "group_lease \<Rightarrow> int64 \<Rightarrow> bool" where
  "lease_valid_for l g \<longleftrightarrow> 0 < g \<and> gl_group l = g \<and> gl_owner l \<noteq> []"

definition bucket_string :: "bucket \<Rightarrow> string" where
  "bucket_string b = itoa (sb_group b) @ '':'' @ sb_platform b @ '':'' @ sb_mode b"

text \<open>\<open>strings.Split\<close> at a character.\<close>

fun split_at_char :: "char \<Rightarrow> string \<Rightarrow> string list" where
  "split_at_char c [] = [[]]"
| "split_at_char c (x # xs) = (if x = c then [] # split_at_char c xs
     else case split_at_char c xs of p # ps \<Rightarrow> (x # p) # ps | [] \<Rightarrow> [[x]])"

definition parse_bucket :: "string \<Rightarrow> bucket option" where
  "parse_bucket raw = (case split_at_char (CHR '':'') raw of
     [g, p, m] \<Rightarrow> (case atoi g of None \<Rightarrow> None
        | Some i \<Rightarrow> if p = [] \<or> m = [] then None else Some \<lparr>sb_group = i, sb_platform = p, sb_mode = m\<rparr>)
   | _ \<Rightarrow> None)"

definition plain_bucket :: "bucket \<Rightarrow> bool" where
  "plain_bucket b \<longleftrightarrow> CHR '':'' \<notin> set (sb_platform b) \<and> CHR '':'' \<notin> set (sb_mode b)"

section \<open>Keys\<close>

datatype rkey = KBuckets | KWatermark | KAcc string | KMeta string | KLastUsed string | KActive bucket | KReady bucket
  | KVersion bucket | KEpoch bucket | KRetired bucket | KLock bucket | KSnap bucket string | KLease int64

fun key_name :: "rkey \<Rightarrow> string" where
  "key_name KBuckets = ''sched:buckets''"
| "key_name KWatermark = ''sched:outbox:watermark''"
| "key_name (KAcc i) = ''sched:acc:'' @ i"
| "key_name (KMeta i) = ''sched:meta:'' @ i"
| "key_name (KLastUsed i) = ''sched:acc:last_used:'' @ i"
| "key_name (KActive b) = ''sched:active:'' @ bucket_string b"
| "key_name (KReady b) = ''sched:ready:'' @ bucket_string b"
| "key_name (KVersion b) = ''sched:ver:'' @ bucket_string b"
| "key_name (KEpoch b) = ''sched:epoch:'' @ bucket_string b"
| "key_name (KRetired b) = ''sched:retired:'' @ bucket_string b"
| "key_name (KLock b) = ''sched:lock:'' @ bucket_string b"
| "key_name (KSnap b v) = ''sched:'' @ bucket_string b @ '':v'' @ v"
| "key_name (KLease g) = ''sched:group:lifecycle-lock:'' @ itoa g"

definition id_text :: "string \<Rightarrow> bool" where "id_text s \<longleftrightarrow> (\<forall>c\<in>set s. is_digit c \<or> c = CHR ''-'')"

fun plain_key :: "rkey \<Rightarrow> bool" where
  "plain_key (KAcc i) = id_text i"
| "plain_key (KMeta i) = id_text i"
| "plain_key (KLastUsed i) = id_text i"
| "plain_key (KActive b) = plain_bucket b"
| "plain_key (KReady b) = plain_bucket b"
| "plain_key (KVersion b) = plain_bucket b"
| "plain_key (KEpoch b) = plain_bucket b"
| "plain_key (KRetired b) = plain_bucket b"
| "plain_key (KLock b) = plain_bucket b"
| "plain_key (KSnap b v) = plain_bucket b"
| "plain_key k = True"

section \<open>Texts of numbers and buckets\<close>

lemma itoa_text: "c \<in> set (itoa i) \<Longrightarrow> is_digit c \<or> c = CHR ''-''"
  using show_nat_digits by (auto simp: itoa_def split: if_splits)

lemma id_text_itoa [simp]: "id_text (itoa i)"
  using itoa_text by (simp add: id_text_def)

lemma itoa_not_Nil [simp]: "itoa i \<noteq> []"
  by (simp add: itoa_def)

lemma itoa_inj [simp]: "itoa i = itoa j \<longleftrightarrow> i = j"
proof
  assume eq: "itoa i = itoa j"
  have minus: "CHR ''-'' \<notin> set (show_nat n)" for n
    using show_nat_digits by (fastforce simp: is_digit_def byte_between_def byte_of_def)
  have "(i < 0) = (j < 0)"
    using eq minus by (auto simp: itoa_def split: if_splits) (metis list.set_intros(1))+
  with eq show "i = j" by (auto simp: itoa_def split: if_splits)
qed simp

lemma letter_not_text [simp]: "\<not> is_digit c \<Longrightarrow> c \<noteq> CHR ''-'' \<Longrightarrow> itoa i @ s \<noteq> c # t" "\<not> is_digit c \<Longrightarrow> c \<noteq> CHR ''-'' \<Longrightarrow> c # t \<noteq> itoa i @ s"
proof -
  assume c: "\<not> is_digit c" "c \<noteq> CHR ''-''"
  obtain d ds where "itoa i = d # ds" by (metis itoa_not_Nil neq_Nil_conv)
  moreover from this have "is_digit d \<or> d = CHR ''-''" by (metis itoa_text list.set_intros(1))
  ultimately show "itoa i @ s \<noteq> c # t" "c # t \<noteq> itoa i @ s" using c by auto
qed

lemma letter_not_id [simp]: "id_text i \<Longrightarrow> \<not> is_digit c \<Longrightarrow> c \<noteq> CHR ''-'' \<Longrightarrow> i \<noteq> c # t"
  "id_text i \<Longrightarrow> \<not> is_digit c \<Longrightarrow> c \<noteq> CHR ''-'' \<Longrightarrow> c # t \<noteq> i"
  by (auto simp: id_text_def)

lemma colon_not_digit [simp]: "\<not> is_digit (CHR '':'')"
  by (simp add: is_digit_def byte_between_def byte_of_def)

lemma colon_not_itoa [simp]: "CHR '':'' \<notin> set (itoa i)"
  using itoa_text by fastforce

lemma split_eq: "x \<notin> set xs \<Longrightarrow> x \<notin> set ys \<Longrightarrow> xs @ x # us = ys @ x # vs \<longleftrightarrow> xs = ys \<and> us = vs"
proof (induction xs arbitrary: ys)
  case Nil
  then show ?case by (cases ys) auto
next
  case (Cons a xs)
  then show ?case by (cases ys) auto
qed

lemma bucket_string_inj:
  assumes "plain_bucket b" "plain_bucket b'"
  shows "bucket_string b = bucket_string b' \<longleftrightarrow> b = b'"
  using assms by (auto simp: bucket_string_def plain_bucket_def split_eq)

lemma snap_name_inj:
  assumes "plain_bucket b" "plain_bucket b'"
  shows "bucket_string b @ '':v'' @ v = bucket_string b' @ '':v'' @ v' \<longleftrightarrow> b = b' \<and> v = v'"
  using assms by (auto simp: bucket_string_def plain_bucket_def split_eq)

lemma digit_or_letter: "\<not> is_digit (CHR ''a'')" "\<not> is_digit (CHR ''b'')" "\<not> is_digit (CHR ''o'')" "\<not> is_digit (CHR ''m'')" "\<not> is_digit (CHR ''r'')"
   "\<not> is_digit (CHR ''v'')" "\<not> is_digit (CHR ''e'')" "\<not> is_digit (CHR ''l'')" "\<not> is_digit (CHR ''g'')"
  by (simp_all add: is_digit_def byte_between_def byte_of_def)

lemma bucket_starts: "\<exists>s. bucket_string b = itoa (sb_group b) @ s"
  by (simp add: bucket_string_def)

lemma name_of_snap: "key_name (KSnap b v) = ''sched:'' @ itoa (sb_group b) @ '':'' @ sb_platform b @ '':'' @ sb_mode b @ '':v'' @ v"
  by (simp add: bucket_string_def)

lemma snap_not_other: "(\<forall>b v. k \<noteq> KSnap b v) \<Longrightarrow> key_name (KSnap b v) \<noteq> key_name k"
  by (cases k) (simp_all add: bucket_string_def digit_or_letter)

text \<open>Two keys of plain buckets and numeric identifiers with the same text are the same.\<close>

lemma key_name_inj:
  assumes "plain_key k" "plain_key k'"
  shows "key_name k = key_name k' \<longleftrightarrow> k = k'"
proof (cases "(\<exists>b v. k = KSnap b v) \<or> (\<exists>b v. k' = KSnap b v)")
  case True
  then show ?thesis
  proof (elim disjE exE)
    fix b v assume k: "k = KSnap b v"
    show ?thesis
    proof (cases "\<exists>c w. k' = KSnap c w")
      case True
      then show ?thesis using assms k snap_name_inj by auto
    qed (use k snap_not_other [of k' b v] in auto)
  next
    fix b v assume k: "k' = KSnap b v"
    show ?thesis
    proof (cases "\<exists>c w. k = KSnap c w")
      case True
      then show ?thesis using assms k snap_name_inj by auto
    qed (use k snap_not_other [of k b v] in auto)
  qed
next
  case False
  then show ?thesis using assms by (cases k; cases k') (simp_all add: bucket_string_inj digit_or_letter)
qed

section \<open>Reading a bucket back\<close>

lemma split_no_char: "c \<notin> set xs \<Longrightarrow> split_at_char c xs = [xs]"
  by (induction xs) auto

lemma split_first: "c \<notin> set xs \<Longrightarrow> split_at_char c (xs @ c # ys) = xs # split_at_char c ys"
  by (induction xs) auto

lemma parse_bucket_string:
  assumes "plain_bucket b" and "in_int64 (sb_group b)" and "sb_platform b \<noteq> []" and "sb_mode b \<noteq> []"
  shows "parse_bucket (bucket_string b) = Some b"
  using assms by (simp add: parse_bucket_def bucket_string_def plain_bucket_def split_first split_no_char atoi_itoa)

end
