(* ===== verification/Sched_Account.thy ===== *)
theory Sched_Account
  imports Go_Prelude
begin

text \<open>
  The account snapshot of the scheduler cache and its metadata projection, \<open>buildSchedulerMetadataAccount\<close> and the
  \<open>filterScheduler\<close> functions of \<open>backend/internal/repository/scheduler_cache.go\<close>. A Go \<open>map[string]any\<close> is an
  association list of decoded JSON values; nil maps and slices are empty lists. \<open>sa_private\<close> stands for the
  fields of \<open>service.Account\<close> that the projection leaves out, \<open>ag_refs\<close> for the two pointers of an account group,
  and the JSON text of a float stands for its value.
\<close>

section \<open>Data\<close>

datatype json = JNull | JBool bool | JNum string | JText string | JArr "json list" | JObj "(string \<times> json) list"

type_synonym json_map = "(string, json) gomap"

record account_group =
  ag_account :: int64
  ag_group :: int64
  ag_priority :: int
  ag_created_at :: gtime
  ag_refs :: "string option"

record sched_account =
  sa_id :: int64
  sa_name :: string
  sa_platform :: string
  sa_type :: string
  sa_concurrency :: int
  sa_load_factor :: "int option"
  sa_priority :: int
  sa_rate :: "string option"
  sa_status :: string
  sa_last_used :: "gtime option"
  sa_expires_at :: "gtime option"
  sa_auto_pause :: bool
  sa_schedulable :: bool
  sa_limited_at :: "gtime option"
  sa_limit_reset :: "gtime option"
  sa_overload_until :: "gtime option"
  sa_unsched_until :: "gtime option"
  sa_unsched_reason :: string
  sa_window_start :: "gtime option"
  sa_window_end :: "gtime option"
  sa_window_status :: string
  sa_parent :: "int64 option"
  sa_quota_dim :: string
  sa_groups :: "account_group list"
  sa_group_ids :: "int64 list"
  sa_credentials :: json_map
  sa_extra :: json_map
  sa_private :: string

section \<open>The projection\<close>

definition filter_groups :: "account_group list \<Rightarrow> account_group list" where
  "filter_groups gs = map (\<lambda>g. g\<lparr>ag_refs := None\<rparr>) (filter (\<lambda>g. 0 < ag_group g) gs)"

fun add_ids :: "int64 list \<Rightarrow> int64 list \<Rightarrow> int64 list" where
  "add_ids out [] = out"
| "add_ids out (i # is) = (if i \<le> 0 \<or> i \<in> set out then add_ids out is else add_ids (out @ [i]) is)"

definition filter_group_ids :: "int64 list \<Rightarrow> account_group list \<Rightarrow> int64 list" where
  "filter_group_ids ids gs = add_ids (add_ids [] ids) (map ag_group gs)"

definition keep_keys :: "(string \<Rightarrow> json \<Rightarrow> json option) \<Rightarrow> string list \<Rightarrow> json_map \<Rightarrow> json_map" where
  "keep_keys f keys m = List.map_filter (\<lambda>k. case gm_get m k of None \<Rightarrow> None
     | Some v \<Rightarrow> if v = JNull then None else map_option (Pair k) (f k v)) keys"

definition credential_keys :: "string list" where
  "credential_keys = [''model_mapping'', ''compact_model_mapping'', ''api_key'', ''project_id'', ''oauth_type'', ''plan_type'',
     ''account_scheduling_threshold'']"

definition filter_credentials :: "json_map \<Rightarrow> json_map" where
  "filter_credentials m = keep_keys (\<lambda>k. Some) credential_keys m"

definition key_probe :: string where "key_probe = ''upstream_billing_probe''"
definition probe_time_keys :: "string list" where "probe_time_keys = [''received_at'', ''fresh_until'', ''next_probe_at'']"
definition probe_data_keys :: "string list" where
  "probe_data_keys = [''billing_scope'', ''resolved_rate_multiplier'', ''peak_rate_enabled'', ''peak_start'', ''peak_end'',
     ''peak_rate_multiplier'', ''timezone'']"

definition filter_probe :: "json \<Rightarrow> json option" where
  "filter_probe v = (case v of
     JObj source \<Rightarrow> (case gm_get source ''status'' of
         Some (JText status) \<Rightarrow> (if status = [] then None
           else let base = (''status'', JText status) # keep_keys (\<lambda>k. Some) probe_time_keys source
             in case gm_get source ''data'' of
                  Some (JObj data) \<Rightarrow> (let d = keep_keys (\<lambda>k. Some) probe_data_keys data
                    in Some (JObj (if d = [] then base else base @ [(''data'', JObj d)])))
                | _ \<Rightarrow> Some (JObj base))
       | _ \<Rightarrow> None)
   | _ \<Rightarrow> None)"

definition extra_keys :: "string list" where
  "extra_keys = [''session_window_utilization'', ''passive_usage_7d_utilization'', ''passive_usage_7d_reset'',
     ''passive_usage_7d_oi_utilization'', ''passive_usage_7d_oi_reset'', ''quota_limit'', ''quota_used'', ''quota_daily_limit'',
     ''quota_daily_used'', ''quota_daily_start'', ''quota_daily_reset_mode'', ''quota_daily_reset_hour'', ''quota_weekly_limit'',
     ''quota_weekly_used'', ''quota_weekly_start'', ''quota_weekly_reset_mode'', ''quota_weekly_reset_day'',
     ''quota_weekly_reset_hour'', ''quota_reset_timezone'', ''mixed_scheduling'', ''window_cost_limit'', ''window_cost_sticky_reserve'',
     ''base_rpm'', ''rpm_strategy'', ''rpm_sticky_buffer'', ''max_sessions'', ''session_idle_timeout_minutes'',
     ''openai_oauth_responses_websockets_v2_enabled'', ''openai_oauth_responses_websockets_v2_mode'',
     ''openai_apikey_responses_websockets_v2_enabled'', ''openai_apikey_responses_websockets_v2_mode'',
     ''responses_websockets_v2_enabled'', ''openai_ws_enabled'', ''openai_ws_force_http'', ''openai_responses_mode'',
     ''openai_responses_supported'', ''openai_passthrough'', ''openai_oauth_passthrough'', ''codex_fingerprint_mode'',
     ''codex_fingerprint_seed'', ''codex_5h_used_percent'', ''codex_7d_used_percent'', ''codex_5h_reset_at'', ''codex_7d_reset_at'',
     ''codex_5h_reset_after_seconds'', ''codex_7d_reset_after_seconds'', ''codex_usage_updated_at'', ''auto_pause_5h_threshold'',
     ''auto_pause_7d_threshold'', ''auto_pause_5h_disabled'', ''auto_pause_7d_disabled'', ''auto_reset_credit_enabled'',
     ''auto_reset_credit_5h_threshold'', ''auto_reset_credit_7d_threshold'', ''codex_auto_reset_credit_state'', ''model_rate_limits'',
     key_probe, ''grok_media_eligible'', ''grok_billing_snapshot'']"

definition filter_extra :: "json_map \<Rightarrow> json_map" where
  "filter_extra m = keep_keys (\<lambda>k v. if k = key_probe then filter_probe v else Some v) extra_keys m"

definition build_metadata :: "sched_account \<Rightarrow> sched_account" where
  "build_metadata a = a\<lparr>sa_groups := filter_groups (sa_groups a), sa_group_ids := filter_group_ids (sa_group_ids a) (sa_groups a),
     sa_credentials := filter_credentials (sa_credentials a), sa_extra := filter_extra (sa_extra a), sa_private := []\<rparr>"

section \<open>The lookups that the projection keeps\<close>

lemma keep_keys_fst: "map fst (keep_keys f ks m) = filter (\<lambda>k. \<exists>v. gm_get m k = Some v \<and> v \<noteq> JNull \<and> f k v \<noteq> None) ks"
  by (induction ks) (auto simp: keep_keys_def List.map_filter_simps split: option.splits)

lemma keep_keys_get:
  "distinct ks \<Longrightarrow> gm_get (keep_keys f ks m) k = (if k \<in> set ks then
     (case gm_get m k of None \<Rightarrow> None | Some v \<Rightarrow> if v = JNull then None else f k v) else None)"
  by (induction ks) (auto simp: keep_keys_def List.map_filter_simps split: option.splits)

lemma keep_entries_cong:
  "(\<And>k. k \<in> set ks \<Longrightarrow> F k = G k) \<Longrightarrow> List.map_filter F ks = List.map_filter G ks"
  by (induction ks) (auto split: option.splits)

lemma keep_keys_cong: "(\<And>k. k \<in> set ks \<Longrightarrow> gm_get m k = gm_get m' k) \<Longrightarrow> keep_keys f ks m = keep_keys f ks m'"
  unfolding keep_keys_def by (rule keep_entries_cong) simp

lemma keep_keys_again:
  assumes "distinct ks" and f: "\<And>k v w. v \<noteq> JNull \<Longrightarrow> f k v = Some w \<Longrightarrow> w \<noteq> JNull \<and> f k w = Some w"
  shows "keep_keys f ks (keep_keys f ks m) = keep_keys f ks m"
proof -
  have "keep_keys f ks m' = keep_keys f ks m" if m': "m' = keep_keys f ks m" for m'
  proof -
    have "gm_get m' k = (case gm_get m k of None \<Rightarrow> None | Some v \<Rightarrow> if v = JNull then None else f k v)" if "k \<in> set ks" for k
      using that by (simp add: m' keep_keys_get [OF assms(1)])
    note get = this
    have "(case gm_get m' k of None \<Rightarrow> None | Some v \<Rightarrow> if v = JNull then None else map_option (Pair k) (f k v)) =
        (case gm_get m k of None \<Rightarrow> None | Some v \<Rightarrow> if v = JNull then None else map_option (Pair k) (f k v))" if "k \<in> set ks" for k
    proof (cases "gm_get m k")
      case (Some v)
      show ?thesis
      proof (cases "v = JNull \<or> f k v = None")
        case False
        then obtain w where w: "v \<noteq> JNull" "f k v = Some w" by blast
        then show ?thesis using Some get [OF that] f [OF w] by simp
      qed (use Some get [OF that] in auto)
    qed (use get [OF that] in simp)
    then show ?thesis unfolding keep_keys_def by (rule keep_entries_cong)
  qed
  then show ?thesis by simp
qed

lemma add_ids_set: "set (add_ids out is) = set out \<union> {i \<in> set is. 0 < i}"
proof (induction out "is" rule: add_ids.induct)
  case (2 out i "is")
  then show ?case by (cases "i \<le> 0 \<or> i \<in> set out") (simp_all, fastforce+)
qed simp

lemma add_ids_distinct: "distinct out \<Longrightarrow> distinct (add_ids out is)"
  by (induction out "is" rule: add_ids.induct) auto

lemma add_ids_known: "(\<forall>i\<in>set is. 0 < i \<longrightarrow> i \<in> set out) \<Longrightarrow> add_ids out is = out"
  by (induction out "is" rule: add_ids.induct) auto

lemma add_ids_new: "(\<forall>i\<in>set is. 0 < i) \<Longrightarrow> distinct (out @ is) \<Longrightarrow> add_ids out is = out @ is"
  by (induction out "is" rule: add_ids.induct) auto

lemma probe_keys_distinct [simp]: "distinct probe_time_keys" "distinct probe_data_keys" "distinct credential_keys" "distinct extra_keys"
  "''status'' \<notin> set probe_time_keys" "''data'' \<notin> set probe_time_keys"
  by (simp_all add: probe_time_keys_def probe_data_keys_def credential_keys_def extra_keys_def key_probe_def)

lemma keep_some_again [simp]: "distinct ks \<Longrightarrow> keep_keys (\<lambda>k. Some) ks (keep_keys (\<lambda>k. Some) ks m) = keep_keys (\<lambda>k. Some) ks m"
  by (rule keep_keys_again) simp_all

lemma probe_lookup:
  assumes "k \<in> set probe_time_keys"
  shows "gm_get ((''status'', s) # xs) k = gm_get xs k" "gm_get (xs @ [(''data'', d)]) k = gm_get xs k"
proof -
  from assms have "k \<noteq> ''status''" "k \<noteq> ''data''" using probe_keys_distinct(5,6) by metis+
  then show "gm_get ((''status'', s) # xs) k = gm_get xs k" "gm_get (xs @ [(''data'', d)]) k = gm_get xs k"
    by (simp_all add: map_add_def split: option.splits)
qed

lemma probe_times_again:
  "keep_keys (\<lambda>k. Some) probe_time_keys ((''status'', s) # xs) = keep_keys (\<lambda>k. Some) probe_time_keys xs"
  "keep_keys (\<lambda>k. Some) probe_time_keys (xs @ [(''data'', d)]) = keep_keys (\<lambda>k. Some) probe_time_keys xs"
  by (rule keep_keys_cong, simp only: probe_lookup)+

lemma probe_data_get:
  "gm_get (keep_keys (\<lambda>k. Some) probe_time_keys m) ''data'' = None"
  "gm_get ((''status'', s) # keep_keys (\<lambda>k. Some) probe_time_keys m) ''data'' = None"
  "gm_get ((''status'', s) # keep_keys (\<lambda>k. Some) probe_time_keys m @ [(''data'', d)]) ''data'' = Some d"
  by (simp_all add: keep_keys_get map_add_def)

lemma probe_status: "gm_get ((''status'', s) # xs) ''status'' = Some s"
  by simp

lemma probe_again2: "keep_keys (\<lambda>k. Some) probe_time_keys ((''status'', s) # xs @ [(''data'', d)]) = keep_keys (\<lambda>k. Some) probe_time_keys xs"
  by (simp only: probe_times_again)

lemma filter_probe_with:
  assumes "gm_get s ''status'' = Some (JText t)" and "t \<noteq> []" and "gm_get s ''data'' = Some (JObj data)"
    and "keep_keys (\<lambda>k. Some) probe_data_keys data = d" and "d \<noteq> []"
  shows "filter_probe (JObj s) = Some (JObj (((''status'', JText t) # keep_keys (\<lambda>k. Some) probe_time_keys s) @ [(''data'', JObj d)]))"
  unfolding filter_probe_def using assms by (simp add: Let_def)

lemma filter_probe_again:
  assumes "filter_probe v = Some w"
  shows "w \<noteq> JNull \<and> filter_probe w = Some w"
proof -
  obtain source t where v: "v = JObj source" "gm_get source ''status'' = Some (JText t)" "t \<noteq> []"
    using assms by (auto simp: filter_probe_def split: json.splits option.splits if_splits)
  let ?base = "(''status'', JText t) # keep_keys (\<lambda>k. Some) probe_time_keys source"
  have base: "filter_probe (JObj ?base) = Some (JObj ?base)"
    using v(3) by (simp add: filter_probe_def Let_def probe_times_again probe_data_get)
  show ?thesis
  proof (cases "\<exists>data. gm_get source ''data'' = Some (JObj data) \<and> keep_keys (\<lambda>k. Some) probe_data_keys data \<noteq> []")
    case True
    then obtain data where d: "gm_get source ''data'' = Some (JObj data)" "keep_keys (\<lambda>k. Some) probe_data_keys data \<noteq> []" by blast
    then have "w = JObj (?base @ [(''data'', JObj (keep_keys (\<lambda>k. Some) probe_data_keys data))])"
      using assms v filter_probe_with [OF v(2,3) d(1) refl d(2)] by simp
    moreover let ?d = "keep_keys (\<lambda>k. Some) probe_data_keys data"
    have "filter_probe (JObj (?base @ [(''data'', JObj ?d)])) = Some (JObj (?base @ [(''data'', JObj ?d)]))"
      by (rule trans [OF filter_probe_with [where t = t and data = ?d and d = ?d]])
        (simp_all only: append_Cons probe_times_again probe_data_get keep_some_again probe_keys_distinct v(3) d(2) probe_status, simp_all add: probe_again2)
    ultimately show ?thesis by simp
  next
    case False
    then have "w = JObj ?base" using assms v by (auto simp: filter_probe_def Let_def split: option.splits json.splits if_splits)
    with base show ?thesis by simp
  qed
qed

lemma build_metadata_again: "build_metadata (build_metadata a) = build_metadata a"
proof -
  have "filter_groups (filter_groups gs) = filter_groups gs" for gs
    by (simp add: filter_groups_def filter_map comp_def)
  moreover have "filter_group_ids (filter_group_ids ids gs) (filter_groups gs) = filter_group_ids ids gs" for ids gs
  proof -
    let ?r = "filter_group_ids ids gs"
    have r: "distinct ?r" "set ?r = {i \<in> set ids \<union> ag_group ` set gs. 0 < i}"
      by (auto simp: filter_group_ids_def add_ids_set add_ids_distinct)
    then have "add_ids [] ?r = ?r" using add_ids_new [of ?r "[]"] by simp
    moreover have "add_ids ?r (map ag_group (filter_groups gs)) = ?r"
      using r(2) by (intro add_ids_known) (auto simp: filter_groups_def)
    ultimately show ?thesis by (simp add: filter_group_ids_def)
  qed
  moreover have "filter_extra (filter_extra m) = filter_extra m" for m
    unfolding filter_extra_def
    by (rule keep_keys_again) (auto dest: filter_probe_again split: if_splits)
  ultimately show ?thesis by (simp add: build_metadata_def filter_credentials_def)
qed

end
