(* ===== verification/Client_Program.thy ===== *)
theory Client_Program
  imports Main
begin

text \<open>
  Programs that call a shared server, one atomic command at a time. A program either returns or issues a
  command and goes on with the reply; \<open>pbind\<close> is the sequence of two programs. A server executes a
  command on its state, or blocks; \<open>sv_fault\<close> is the reply of a command that the client sees fail.
  Several programs run in any order of their commands: a command may be executed, may be
  executed with its reply lost, so that the client sends it again, or may fail without being executed.
  The locale \<open>discipline\<close> is the contract under which every program keeps to a protocol: a ghost state
  per program says which commands it may issue, and the invariant links the ghost states to the server.
\<close>

datatype ('c, 'x, 'r) prog = Ret 'r | Call 'c "'x \<Rightarrow> ('c, 'x, 'r) prog"

primrec pbind :: "('c, 'x, 'a) prog \<Rightarrow> ('a \<Rightarrow> ('c, 'x, 'b) prog) \<Rightarrow> ('c, 'x, 'b) prog" where
  "pbind (Ret a) f = f a"
| "pbind (Call c k) f = Call c (\<lambda>x. pbind (k x) f)"

definition issue :: "'c \<Rightarrow> ('c, 'x, 'x) prog" where "issue c = Call c Ret"

record ('c, 's, 'x) server =
  sv_exec :: "'c \<Rightarrow> 's \<Rightarrow> ('x \<times> 's) option"
  sv_fault :: "'c \<Rightarrow> 'x option"
  sv_pass :: "int \<Rightarrow> 's \<Rightarrow> 's"

section \<open>One program alone\<close>

primrec run_alone :: "('c, 's, 'x) server \<Rightarrow> ('c, 'x, 'r) prog \<Rightarrow> 's \<Rightarrow> ('r \<times> 's) option" where
  "run_alone sv (Ret r) s = Some (r, s)"
| "run_alone sv (Call c k) s = (case sv_exec sv c s of None \<Rightarrow> None | Some (x, s') \<Rightarrow> run_alone sv (k x) s')"

lemma pbind_assoc: "pbind (pbind p f) g = pbind p (\<lambda>a. pbind (f a) g)"
  by (induction p) auto

lemma pbind_issue [simp]: "pbind (issue c) f = Call c f"
  by (simp add: issue_def)

lemma run_bind: "run_alone sv (pbind p f) s = (case run_alone sv p s of None \<Rightarrow> None | Some (a, s') \<Rightarrow> run_alone sv (f a) s')"
  by (induction p arbitrary: s) (auto split: option.splits)

section \<open>Programs side by side\<close>

datatype event = Exec nat | Lost nat | Fail nat | Pass int

fun conc_event :: "('c, 's, 'x) server \<Rightarrow> event \<Rightarrow> 's \<times> ('c, 'x, 'r) prog list \<Rightarrow> 's \<times> ('c, 'x, 'r) prog list" where
  "conc_event sv (Exec i) (s, ts) = (if i < length ts then case ts ! i of Ret _ \<Rightarrow> (s, ts)
     | Call c k \<Rightarrow> (case sv_exec sv c s of None \<Rightarrow> (s, ts) | Some (x, s') \<Rightarrow> (s', ts[i := k x])) else (s, ts))"
| "conc_event sv (Lost i) (s, ts) = (if i < length ts then case ts ! i of Ret _ \<Rightarrow> (s, ts)
     | Call c k \<Rightarrow> (case (sv_fault sv c, sv_exec sv c s) of (Some _, Some (x, s')) \<Rightarrow> (s', ts) | _ \<Rightarrow> (s, ts)) else (s, ts))"
| "conc_event sv (Fail i) (s, ts) = (if i < length ts then case ts ! i of Ret _ \<Rightarrow> (s, ts)
     | Call c k \<Rightarrow> (case sv_fault sv c of None \<Rightarrow> (s, ts) | Some x \<Rightarrow> (s, ts[i := k x])) else (s, ts))"
| "conc_event sv (Pass d) (s, ts) = (sv_pass sv d s, ts)"

definition conc_run :: "('c, 's, 'x) server \<Rightarrow> event list \<Rightarrow> 's \<times> ('c, 'x, 'r) prog list \<Rightarrow> 's \<times> ('c, 'x, 'r) prog list" where
  "conc_run sv es cfg = fold (conc_event sv) es cfg"

lemma conc_run_simps [simp]:
  "conc_run sv [] cfg = cfg"
  "conc_run sv (es @ [e]) cfg = conc_event sv e (conc_run sv es cfg)"
  by (simp_all add: conc_run_def)

lemma conc_run_append: "conc_run sv (es @ es') cfg = conc_run sv es' (conc_run sv es cfg)"
  by (simp add: conc_run_def)

text \<open>The possible effects of an event: nothing, a pass of time, or one command of one program.\<close>

lemma conc_event_cases [consumes 1, case_names same pass exec lost failed]:
  assumes "conc_event sv e (s, ts) = (s', ts')"
  obtains "s' = s" "ts' = ts"
  | d where "s' = sv_pass sv d s" "ts' = ts"
  | i c k x where "i < length ts" "ts ! i = Call c k" "sv_exec sv c s = Some (x, s')" "ts' = ts[i := k x]"
  | i c k x where "i < length ts" "ts ! i = Call c k" "sv_exec sv c s = Some (x, s')" "ts' = ts" "sv_fault sv c \<noteq> None"
  | i c k x where "i < length ts" "ts ! i = Call c k" "sv_fault sv c = Some x" "s' = s" "ts' = ts[i := k x]"
proof (cases e)
  case (Exec i)
  then show thesis
  proof (cases "i < length ts")
    case True
    note here = True
    show thesis
    proof (cases "ts ! i")
      case (Call c k)
      with Exec assms here show thesis by (cases "sv_exec sv c s"; cases "sv_fault sv c") (auto intro: that)
    qed (use Exec assms here in \<open>auto intro: that\<close>)
  qed (use assms that(1) in auto)
next
  case (Lost i)
  then show thesis
  proof (cases "i < length ts")
    case True
    note here = True
    show thesis
    proof (cases "ts ! i")
      case (Call c k)
      with Lost assms here show thesis by (cases "sv_exec sv c s"; cases "sv_fault sv c") (auto intro: that)
    qed (use Lost assms here in \<open>auto intro: that\<close>)
  qed (use assms that(1) in auto)
next
  case (Fail i)
  then show thesis
  proof (cases "i < length ts")
    case True
    note here = True
    show thesis
    proof (cases "ts ! i")
      case (Call c k)
      with Fail assms here show thesis by (cases "sv_exec sv c s"; cases "sv_fault sv c") (auto intro: that)
    qed (use Fail assms here in \<open>auto intro: that\<close>)
  qed (use assms that(1) in auto)
next
  case (Pass d)
  with assms that(2) show thesis by auto
qed

lemma length_conc [simp]: "length (snd (conc_event sv e cfg)) = length (snd cfg)"
proof -
  obtain s ts s' ts' where eq: "cfg = (s, ts)" "conc_event sv e (s, ts) = (s', ts')" by (metis surj_pair)
  from eq(2) have "length ts' = length ts" by (cases rule: conc_event_cases) simp_all
  with eq show ?thesis by simp
qed

lemma length_run [simp]: "length (snd (conc_run sv es cfg)) = length (snd cfg)"
  by (induction es rule: rev_induct) simp_all

section \<open>Keeping to a protocol\<close>

primrec follows :: "('c \<Rightarrow> 'g \<Rightarrow> bool) \<Rightarrow> ('c \<Rightarrow> 'g \<Rightarrow> 'x \<Rightarrow> bool) \<Rightarrow> ('c \<Rightarrow> 'x \<Rightarrow> 'g \<Rightarrow> 'g) \<Rightarrow> ('r \<Rightarrow> 'g \<Rightarrow> bool) \<Rightarrow>
    ('c, 'x, 'r) prog \<Rightarrow> 'g \<Rightarrow> bool" where
  "follows may reply upd fin (Ret r) g = fin r g"
| "follows may reply upd fin (Call c k) g = (may c g \<and> (\<forall>x. reply c g x \<longrightarrow> follows may reply upd fin (k x) (upd c x g)))"

lemma follows_bind:
  "follows may reply upd (\<lambda>a g. follows may reply upd fin (f a) g) p g \<Longrightarrow> follows may reply upd fin (pbind p f) g"
  by (induction p arbitrary: g) auto

lemma follows_mono:
  "follows may reply upd fin p g \<Longrightarrow> (\<And>r g. fin r g \<Longrightarrow> fin' r g) \<Longrightarrow> follows may reply upd fin' p g"
  by (induction p arbitrary: g) auto

locale discipline =
  fixes sv :: "('c, 's, 'x) server" and may :: "'c \<Rightarrow> 'g \<Rightarrow> bool" and reply :: "'c \<Rightarrow> 'g \<Rightarrow> 'x \<Rightarrow> bool"
    and upd :: "'c \<Rightarrow> 'x \<Rightarrow> 'g \<Rightarrow> 'g" and again :: "'c \<Rightarrow> 'g \<Rightarrow> 'g" and inv :: "'s \<Rightarrow> 'g list \<Rightarrow> bool"
  assumes exec_reply: "\<lbrakk>inv s gs; i < length gs; may c (gs ! i); sv_exec sv c s = Some (x, s')\<rbrakk> \<Longrightarrow> reply c (gs ! i) x"
    and exec_inv: "\<lbrakk>inv s gs; i < length gs; may c (gs ! i); sv_exec sv c s = Some (x, s')\<rbrakk> \<Longrightarrow> inv s' (gs[i := upd c x (gs ! i)])"
    and lost_inv: "\<lbrakk>inv s gs; i < length gs; may c (gs ! i); sv_exec sv c s = Some (x, s'); sv_fault sv c \<noteq> None\<rbrakk> \<Longrightarrow> inv s' (gs[i := again c (gs ! i)])"
    and lost_may: "may c g \<Longrightarrow> may c (again c g)"
    and lost_reply: "may c g \<Longrightarrow> reply c (again c g) y \<Longrightarrow> reply c g y \<and> upd c y (again c g) = upd c y g"
    and fail_inv: "\<lbrakk>inv s gs; i < length gs; may c (gs ! i); sv_fault sv c = Some x\<rbrakk> \<Longrightarrow>
      reply c (gs ! i) x \<and> inv s (gs[i := upd c x (gs ! i)])"
    and pass_inv: "inv s gs \<Longrightarrow> inv (sv_pass sv d s) gs"
begin

definition on_track :: "(nat \<Rightarrow> 'r \<Rightarrow> 'g \<Rightarrow> bool) \<Rightarrow> 's \<times> ('c, 'x, 'r) prog list \<Rightarrow> 'g list \<Rightarrow> bool" where
  "on_track fin cfg gs \<longleftrightarrow> inv (fst cfg) gs \<and> length gs = length (snd cfg) \<and>
     (\<forall>i < length gs. follows may reply upd (fin i) (snd cfg ! i) (gs ! i))"

lemma event_on_track:
  assumes "on_track fin (s, ts) gs"
  shows "\<exists>gs'. on_track fin (conc_event sv e (s, ts)) gs'"
proof -
  have inv: "inv s gs" and len: "length gs = length ts"
    and fol: "\<And>i. i < length ts \<Longrightarrow> follows may reply upd (fin i) (ts ! i) (gs ! i)"
    using assms by (auto simp: on_track_def)
  obtain s' ts' where e: "conc_event sv e (s, ts) = (s', ts')" by fastforce
  then show ?thesis
  proof (cases rule: conc_event_cases)
    case same
    then show ?thesis using assms e by auto
  next
    case (pass d)
    then have "on_track fin (s', ts') gs" using inv len fol by (simp add: on_track_def pass_inv)
    with e show ?thesis by auto
  next
    case (exec i c k x)
    then have may: "may c (gs ! i)" and k: "\<And>x. reply c (gs ! i) x \<Longrightarrow> follows may reply upd (fin i) (k x) (upd c x (gs ! i))"
      using fol [of i] by auto
    have "on_track fin (s', ts') (gs[i := upd c x (gs ! i)])"
      using exec inv len fol may k exec_reply [OF inv, of i c] exec_inv [OF inv, of i c]
      by (auto simp: on_track_def nth_list_update)
    with e show ?thesis by auto
  next
    case (lost i c k x)
    then have may: "may c (gs ! i)" and k: "\<And>x. reply c (gs ! i) x \<Longrightarrow> follows may reply upd (fin i) (k x) (upd c x (gs ! i))"
      using fol [of i] by auto
    have "follows may reply upd (fin i) (Call c k) (again c (gs ! i))"
      using may k lost_may lost_reply by fastforce
    then have "on_track fin (s', ts') (gs[i := again c (gs ! i)])"
      using lost inv len fol may lost_inv [OF inv, of i c] by (auto simp: on_track_def nth_list_update)
    with e show ?thesis by auto
  next
    case (failed i c k x)
    then have may: "may c (gs ! i)" and k: "\<And>x. reply c (gs ! i) x \<Longrightarrow> follows may reply upd (fin i) (k x) (upd c x (gs ! i))"
      using fol [of i] by auto
    have "on_track fin (s', ts') (gs[i := upd c x (gs ! i)])"
      using failed inv len fol may k fail_inv [OF inv, of i c x] by (auto simp: on_track_def nth_list_update)
    with e show ?thesis by auto
  qed
qed

lemma run_on_track:
  assumes "on_track fin cfg gs"
  shows "\<exists>gs'. on_track fin (conc_run sv es cfg) gs'"
proof (induction es rule: rev_induct)
  case Nil
  with assms show ?case by auto
next
  case (snoc e es)
  then show ?case using event_on_track [of fin] by (metis conc_run_simps(2) surj_pair)
qed

lemma run_final:
  assumes "on_track fin cfg gs" and "conc_run sv es cfg = (s', ts')" and "i < length ts'" and "ts' ! i = Ret r"
  shows "\<exists>gs'. inv s' gs' \<and> length gs' = length ts' \<and> fin i r (gs' ! i)"
  using run_on_track [OF assms(1), of es] assms(2-4) unfolding on_track_def by (metis fst_conv snd_conv follows.simps(1))

end

section \<open>What is left of a program\<close>

primrec residuals :: "(('c, 'x, 'r) prog \<Rightarrow> bool) \<Rightarrow> ('c, 'x, 'r) prog \<Rightarrow> bool" where
  "residuals Q (Ret r) = True"
| "residuals Q (Call c k) = (Q (Call c k) \<and> (\<forall>x. residuals Q (k x)))"

definition unfinished :: "('c, 'x, 'r) prog \<Rightarrow> bool" where "unfinished p \<longleftrightarrow> (\<forall>r. p \<noteq> Ret r)"

lemma residuals_unfinished: "residuals Q p \<Longrightarrow> unfinished p \<Longrightarrow> Q p"
  by (cases p) (auto simp: unfinished_def)

lemma residuals_event:
  assumes "i < length ts" and "residuals Q (ts ! i)" and "conc_event sv e (s, ts) = (s', ts')"
  shows "residuals Q (ts' ! i)"
  using assms(3) by (cases rule: conc_event_cases) (use assms(1,2) in \<open>auto simp: nth_list_update\<close>)

lemma residuals_run:
  assumes "i < length (snd cfg)" and "residuals Q (snd cfg ! i)"
  shows "residuals Q (snd (conc_run sv es cfg) ! i)"
proof (induction es rule: rev_induct)
  case Nil
  then show ?case using assms by simp
next
  case (snoc e es)
  obtain s ts s' ts' where eq: "conc_run sv es cfg = (s, ts)" "conc_event sv e (s, ts) = (s', ts')" by (metis surj_pair)
  then have "i < length ts" using assms(1) length_run [of sv es cfg] by simp
  then show ?case using residuals_event [OF _ _ eq(2), of i Q] snoc eq by simp
qed

lemma residuals_bind:
  assumes "\<And>p'. unfinished p' \<Longrightarrow> Q' p' \<Longrightarrow> Q (pbind p' f)" and "residuals Q' p" and "\<And>a. residuals Q (f a)"
  shows "residuals Q (pbind p f)"
  using assms(2)
proof (induction p)
  case (Call c k)
  then have "Q (pbind (Call c k) f)" by (intro assms(1)) (auto simp: unfinished_def)
  then show ?case using Call by auto
qed (simp add: assms(3))

end
