(* ===== verification/Sched_Redis.thy ===== *)
theory Sched_Redis
  imports Sched_Keys Sched_Account Client_Program "HOL-Library.Product_Lexorder" "HOL-Library.List_Lexorder" "HOL-Library.Char_ord"
begin

text \<open>
  The Redis server as the scheduler cache uses it: a store of texts, account documents, sorted sets and sets, each
  with an optional expiry, the commands the client sends, and the Lua scripts of
  \<open>backend/internal/repository/scheduler_cache.go\<close>, which Redis runs atomically. Each kind of key holds one kind of
  value, so the error of a command on the wrong kind of value does not arise. A document is the account
  that its JSON text decodes to. A script's \<open>tonumber\<close> is read on decimal numerals, the only ones that the
  scripts write, without the rounding of numbers beyond \<open>2^53\<close>; a score is the position of a member.
\<close>

datatype rval = RText string | RDoc sched_account | RZset "(string \<times> nat) list" | RSet "string list"

record redis =
  r_data :: "rkey \<Rightarrow> (rval \<times> gtime option) option"
  r_now :: gtime

definition redis_empty :: "gtime \<Rightarrow> redis" where "redis_empty now = \<lparr>r_data = (\<lambda>_. None), r_now = now\<rparr>"

section \<open>Primitives\<close>

definition r_entry :: "redis \<Rightarrow> rkey \<Rightarrow> (rval \<times> gtime option) option" where
  "r_entry r k = (case r_data r k of None \<Rightarrow> None
     | Some (v, None) \<Rightarrow> Some (v, None)
     | Some (v, Some t) \<Rightarrow> if r_now r < t then Some (v, Some t) else None)"

definition r_look :: "redis \<Rightarrow> rkey \<Rightarrow> rval option" where "r_look r k = map_option fst (r_entry r k)"
definition r_exists :: "redis \<Rightarrow> rkey \<Rightarrow> bool" where "r_exists r k \<longleftrightarrow> r_entry r k \<noteq> None"

definition r_get :: "redis \<Rightarrow> rkey \<Rightarrow> string option" where
  "r_get r k = (case r_look r k of Some (RText s) \<Rightarrow> Some s | _ \<Rightarrow> None)"

definition r_put :: "rkey \<Rightarrow> (rval \<times> gtime option) option \<Rightarrow> redis \<Rightarrow> redis" where
  "r_put k e r = r\<lparr>r_data := (r_data r)(k := e)\<rparr>"

definition r_set :: "rkey \<Rightarrow> string \<Rightarrow> redis \<Rightarrow> redis" where "r_set k s = r_put k (Some (RText s, None))"
definition r_del :: "rkey \<Rightarrow> redis \<Rightarrow> redis" where "r_del k = r_put k None"

definition r_expire :: "rkey \<Rightarrow> int \<Rightarrow> redis \<Rightarrow> redis" where
  "r_expire k secs r = (case r_entry r k of None \<Rightarrow> r | Some (v, _) \<Rightarrow> r_put k (Some (v, Some (r_now r + secs * second))) r)"

definition lua_number :: "string \<Rightarrow> int option" where
  "lua_number s = (case s of [] \<Rightarrow> None
     | c # cs \<Rightarrow> if c = CHR ''-'' then (if cs \<noteq> [] \<and> list_all is_digit cs then Some (- int (digits_val cs)) else None)
         else if list_all is_digit s then Some (int (digits_val s)) else None)"

definition r_number :: "redis \<Rightarrow> rkey \<Rightarrow> int option" where "r_number r k = Option.bind (r_get r k) lua_number"

definition r_incr :: "rkey \<Rightarrow> redis \<Rightarrow> (int \<times> redis) option" where
  "r_incr k r = (case r_get r k of None \<Rightarrow> Some (1, r_set k (itoa 1) r)
     | Some s \<Rightarrow> (case atoi s of None \<Rightarrow> None
         | Some n \<Rightarrow> if n = max_int64 then None else Some (n + 1, r_set k (itoa (n + 1)) r)))"

definition r_members :: "redis \<Rightarrow> rkey \<Rightarrow> string list" where
  "r_members r k = (case r_look r k of Some (RSet xs) \<Rightarrow> xs | _ \<Rightarrow> [])"

definition r_sadd :: "rkey \<Rightarrow> string \<Rightarrow> redis \<Rightarrow> redis" where
  "r_sadd k s r = r_put k (Some (RSet (List.insert s (r_members r k)), None)) r"

definition r_srem :: "rkey \<Rightarrow> string \<Rightarrow> redis \<Rightarrow> redis" where
  "r_srem k s r = (let xs = remove1 s (r_members r k) in r_put k (if xs = [] then None else Some (RSet xs, None)) r)"

definition z_add :: "(string \<times> nat) list \<Rightarrow> (string \<times> nat) list \<Rightarrow> (string \<times> nat) list" where
  "z_add ms z = foldl (\<lambda>z (m, sc). gm_put m sc z) z ms"

definition r_zset :: "redis \<Rightarrow> rkey \<Rightarrow> (string \<times> nat) list" where
  "r_zset r k = (case r_look r k of Some (RZset z) \<Rightarrow> z | _ \<Rightarrow> [])"

definition r_zadd :: "rkey \<Rightarrow> (string \<times> nat) list \<Rightarrow> redis \<Rightarrow> redis" where
  "r_zadd k ms r = r_put k (Some (RZset (z_add ms (r_zset r k)), case r_entry r k of None \<Rightarrow> None | Some (_, t) \<Rightarrow> t)) r"

definition z_range :: "(string \<times> nat) list \<Rightarrow> string list" where
  "z_range z = map snd (sort (map (\<lambda>(m, sc). (sc, m)) z))"

section \<open>Scripts\<close>

definition grace_seconds :: int where "grace_seconds = 60"

definition capture_script :: "bucket \<Rightarrow> redis \<Rightarrow> int \<times> redis" where
  "capture_script b r = (if r_exists r (KRetired b) then (-1, r)
     else case r_get r (KEpoch b) of None \<Rightarrow> (1, r_set (KEpoch b) ''1'' r)
       | Some s \<Rightarrow> (case lua_number s of None \<Rightarrow> (-2, r) | Some e \<Rightarrow> if e < 1 then (-2, r) else (e, r)))"

definition allocate_script :: "bucket \<Rightarrow> int \<Rightarrow> redis \<Rightarrow> int option \<times> redis" where
  "allocate_script b e r = (if r_exists r (KRetired b) then (Some (-1), r)
     else if r_number r (KEpoch b) \<noteq> Some e then (Some (-2), r)
     else case r_incr (KVersion b) r of None \<Rightarrow> (None, r) | Some (n, r') \<Rightarrow> (Some n, r'))"

definition grace_active :: "bucket \<Rightarrow> redis \<Rightarrow> redis" where
  "grace_active b r = (case r_get r (KActive b) of None \<Rightarrow> r | Some v \<Rightarrow> r_expire (KSnap b v) grace_seconds r)"

definition hide_bucket :: "bucket \<Rightarrow> redis \<Rightarrow> redis" where
  "hide_bucket b r = r_del (KActive b) (r_del (KReady b) (grace_active b (r_srem KBuckets (bucket_string b) r)))"

definition retire_script :: "bucket \<Rightarrow> redis \<Rightarrow> int \<times> redis" where
  "retire_script b r = (let retired = r_get r (KRetired b); cur = (case r_number r (KEpoch b) of None \<Rightarrow> 0 | Some n \<Rightarrow> n);
     (e, r1) = (if retired = None then (let e = max 1 (cur + 1) in (e, r_set (KRetired b) (itoa e) (r_set (KEpoch b) (itoa e) r)))
        else if cur < 1 then (let e = (case Option.bind retired lua_number of None \<Rightarrow> 1 | Some n \<Rightarrow> n) in (e, r_set (KEpoch b) (itoa e) r))
        else (cur, r))
   in (e, hide_bucket b r1))"

definition reopen_script :: "bucket \<Rightarrow> redis \<Rightarrow> int \<times> redis" where
  "reopen_script b r = (let cur = r_number r (KEpoch b) in
     case r_get r (KRetired b) of
       None \<Rightarrow> (case r_get r (KEpoch b) of None \<Rightarrow> (1, r_set (KEpoch b) ''1'' r)
          | Some _ \<Rightarrow> (case cur of None \<Rightarrow> (-2, r) | Some e \<Rightarrow> if e < 1 then (-2, r) else (e, r)))
     | Some s \<Rightarrow> (case lua_number s of None \<Rightarrow> (-2, r)
          | Some t \<Rightarrow> if t < 1 then (-2, r)
              else let e = (case cur of None \<Rightarrow> t | Some e \<Rightarrow> if e < t then t else e)
                in (e, hide_bucket b (r_del (KRetired b) (r_set (KEpoch b) (itoa e) r)))))"

definition activate_script :: "bucket \<Rightarrow> string \<Rightarrow> int \<Rightarrow> redis \<Rightarrow> int \<times> redis" where
  "activate_script b v e r = (if r_exists r (KRetired b) then (-1, r_del (KSnap b v) r)
     else if r_number r (KEpoch b) \<noteq> Some e then (-2, r_del (KSnap b v) r)
     else let cur = r_get r (KActive b) in
       if (case (Option.bind cur lua_number, lua_number v) of (Some c, Some n) \<Rightarrow> n < c | _ \<Rightarrow> False) then (0, r_del (KSnap b v) r)
       else let r1 = r_sadd KBuckets (bucket_string b) (r_set (KReady b) ''1'' (r_set (KActive b) v r))
         in (1, case cur of None \<Rightarrow> r1 | Some c \<Rightarrow> if c = v then r1 else r_expire (KSnap b c) grace_seconds r1))"

definition release_script :: "int64 \<Rightarrow> string \<Rightarrow> redis \<Rightarrow> int \<times> redis" where
  "release_script g owner r = (if r_get r (KLease g) = Some owner then (1, r_del (KLease g) r) else (0, r))"

fun last_used_script :: "(string \<times> int) list \<Rightarrow> redis \<Rightarrow> int \<times> redis" where
  "last_used_script [] r = (0, r)"
| "last_used_script ((i, ms) # us) r = (if r_exists r (KAcc i) \<and> (case r_number r (KLastUsed i) of None \<Rightarrow> True | Some c \<Rightarrow> c < ms)
     then (case last_used_script us (r_set (KLastUsed i) (itoa ms) r) of (n, r') \<Rightarrow> (n + 1, r'))
     else last_used_script us r)"

section \<open>Commands\<close>

datatype rcmd = Get rkey | MGet "rkey list" | SetText rkey string | SetDoc rkey sched_account | SetNX rkey string gduration
  | Del "rkey list" | ZAdd rkey "(string \<times> nat) list" | ZRange rkey | SMembers rkey
  | Capture bucket | Allocate bucket int | Retire bucket | Reopen bucket | Activate bucket string int
  | Release int64 string | LastUsed "(string \<times> int) list"

datatype rreply = XVal "rval option" | XVals "rval option list" | XInt int | XNames "string list" | XBool bool | XOk | XErr

text \<open>\<open>SET\<close> of an expiry in Go's client: a duration below a millisecond is rounded up to one; \<open>GET\<close> and \<open>MGET\<close> read texts and documents.\<close>

definition ttl_of :: "gduration \<Rightarrow> gduration" where "ttl_of d = (if 0 < d \<and> d < millisecond then millisecond else d)"

definition plain_value :: "rval option \<Rightarrow> rval option" where
  "plain_value v = (case v of Some (RText s) \<Rightarrow> Some (RText s) | Some (RDoc a) \<Rightarrow> Some (RDoc a) | _ \<Rightarrow> None)"

definition with_int :: "int \<times> redis \<Rightarrow> rreply \<times> redis" where "with_int p = (XInt (fst p), snd p)"

fun r_exec :: "rcmd \<Rightarrow> redis \<Rightarrow> rreply \<times> redis" where
  "r_exec (Get k) r = (XVal (plain_value (r_look r k)), r)"
| "r_exec (MGet ks) r = (XVals (map (\<lambda>k. plain_value (r_look r k)) ks), r)"
| "r_exec (SetText k s) r = (XOk, r_set k s r)"
| "r_exec (SetDoc k a) r = (XOk, r_put k (Some (RDoc a, None)) r)"
| "r_exec (SetNX k s d) r = (if r_exists r k then (XBool False, r)
     else (XBool True, r_put k (Some (RText s, if d = 0 then None else Some (r_now r + ttl_of d))) r))"
| "r_exec (Del ks) r = (XOk, fold r_del ks r)"
| "r_exec (ZAdd k ms) r = (XOk, r_zadd k ms r)"
| "r_exec (ZRange k) r = (XNames (z_range (r_zset r k)), r)"
| "r_exec (SMembers k) r = (XNames (r_members r k), r)"
| "r_exec (Capture b) r = with_int (capture_script b r)"
| "r_exec (Allocate b e) r = (case allocate_script b e r of (None, r') \<Rightarrow> (XErr, r') | (Some n, r') \<Rightarrow> (XInt n, r'))"
| "r_exec (Retire b) r = with_int (retire_script b r)"
| "r_exec (Reopen b) r = with_int (reopen_script b r)"
| "r_exec (Activate b v e) r = with_int (activate_script b v e r)"
| "r_exec (Release g owner) r = with_int (release_script g owner r)"
| "r_exec (LastUsed us) r = with_int (last_used_script us r)"

definition redis_server :: "(rcmd, redis, rreply) server" where
  "redis_server = \<lparr>sv_exec = (\<lambda>c r. Some (r_exec c r)), sv_fault = (\<lambda>c. Some XErr), sv_pass = (\<lambda>d r. r\<lparr>r_now := r_now r + max 0 d\<rparr>)\<rparr>"

section \<open>Reading after writing\<close>

lemma r_entry_put [simp]:
  "r_entry (r_put k e r) k' = (if k' = k then (case e of None \<Rightarrow> None | Some (v, None) \<Rightarrow> Some (v, None)
     | Some (v, Some t) \<Rightarrow> if r_now r < t then Some (v, Some t) else None) else r_entry r k')"
  by (auto simp: r_entry_def r_put_def split: option.splits)

lemma r_now_prims [simp]: "r_now (r_put k e r) = r_now r" "r_now (r_set k s r) = r_now r" "r_now (r_del k r) = r_now r"
  "r_now (r_expire k n r) = r_now r" "r_now (r_sadd k s r) = r_now r" "r_now (r_srem k s r) = r_now r" "r_now (r_zadd k ms r) = r_now r"
  by (auto simp: r_put_def r_set_def r_del_def r_expire_def r_sadd_def r_srem_def r_zadd_def Let_def split: option.splits)

lemma r_entry_prims [simp]:
  "r_entry (r_set k s r) k' = (if k' = k then Some (RText s, None) else r_entry r k')"
  "r_entry (r_del k r) k' = (if k' = k then None else r_entry r k')"
  "r_entry (r_sadd k s r) k' = (if k' = k then Some (RSet (List.insert s (r_members r k)), None) else r_entry r k')"
  "r_entry (r_srem k s r) k' = (if k' = k then (if remove1 s (r_members r k) = [] then None else Some (RSet (remove1 s (r_members r k)), None))
     else r_entry r k')"
  by (simp_all add: r_set_def r_del_def r_sadd_def r_srem_def Let_def)

lemma r_entry_live: "r_entry r k = Some (v, Some t) \<Longrightarrow> r_now r < t"
  by (auto simp: r_entry_def split: option.splits if_splits)

lemma r_entry_expire [simp]:
  "0 < n \<Longrightarrow> r_entry (r_expire k n r) k' = (if k' = k then map_option (\<lambda>(v, _). (v, Some (r_now r + n * second))) (r_entry r k) else r_entry r k')"
  by (auto simp: r_expire_def second_def split: option.splits)

lemma r_entry_zadd [simp]:
  "r_entry (r_zadd k ms r) k' = (if k' = k then Some (RZset (z_add ms (r_zset r k)), case r_entry r k of None \<Rightarrow> None | Some (_, t) \<Rightarrow> t)
     else r_entry r k')"
  by (auto simp: r_zadd_def split: option.splits dest: r_entry_live)

lemma lua_number_itoa [simp]: "lua_number (itoa n) = Some n"
proof -
  have digits: "list_all is_digit (show_nat m)" for m by (simp add: list_all_iff show_nat_digits)
  obtain c cs where c: "show_nat (nat n) = c # cs" by (metis show_nat_not_Nil neq_Nil_conv)
  then have "c \<noteq> CHR ''-''" using show_nat_no_sign by blast
  moreover have "int (digits_val (c # cs)) = int (nat n)" using digits_val_show_nat [of "nat n"] c by simp
  moreover have "list_all is_digit (c # cs)" using digits [of "nat n"] c by simp
  ultimately show ?thesis using c digits by (simp add: lua_number_def itoa_def)
qed

lemma lua_number_one [simp]: "lua_number ''1'' = Some 1"
  by (simp add: lua_number_def is_digit_def byte_between_def byte_of_def digits_val_def)

end
