(* ===== verification/Sched_Cache.thy ===== *)
theory Sched_Cache
  imports Sched_Redis
begin

text \<open>
  The methods of \<open>schedulerCache\<close> in \<open>backend/internal/repository/scheduler_cache.go\<close> as programs over the commands of the server.
  A pipeline sends its commands one after another, other clients may come between them, and it fails when one
  of them fails. \<open>enc\<close> says of which accounts \<open>json.Marshal\<close> succeeds; the owner token of a lease comes from a random
  source and the lock's value from the clock, so both are arguments, and so is the order in which the map of
  \<open>UpdateLastUsed\<close> is visited.
\<close>

record cache_cfg =
  cc_mget :: nat
  cc_write :: nat

definition new_cache_cfg :: "int \<Rightarrow> int \<Rightarrow> cache_cfg" where
  "new_cache_cfg m w = \<lparr>cc_mget = (if m \<le> 0 then 128 else nat m), cc_write = (if w \<le> 0 then 256 else nat w)\<rparr>"

definition err_redis :: go_error where "err_redis = PlainErr ''redis''"
definition err_retired :: go_error where "err_retired = PlainErr ''scheduler bucket retired''"
definition err_fenced :: go_error where "err_fenced = PlainErr ''scheduler bucket write fenced''"
definition err_lease_invalid :: go_error where "err_lease_invalid = PlainErr ''scheduler group lifecycle lease invalid''"
definition err_lease_lost :: go_error where "err_lease_lost = PlainErr ''scheduler group lifecycle lease lost''"
definition err_bad_value :: go_error where "err_bad_value = PlainErr ''invalid cache value''"

type_synonym 'a cache_prog = "(rcmd, rreply, go_error + 'a) prog"

definition attempt :: "rcmd \<Rightarrow> (rreply \<Rightarrow> 'a cache_prog) \<Rightarrow> 'a cache_prog" where
  "attempt c k = Call c (\<lambda>x. if x = XErr then Ret (Inl err_redis) else k x)"

definition ebind :: "('c, 'x, go_error + 'a) prog \<Rightarrow> ('a \<Rightarrow> ('c, 'x, go_error + 'b) prog) \<Rightarrow> ('c, 'x, go_error + 'b) prog" where
  "ebind p f = pbind p (\<lambda>r. case r of Inl e \<Rightarrow> Ret (Inl e) | Inr a \<Rightarrow> f a)"

fun pipeline :: "rcmd list \<Rightarrow> bool \<Rightarrow> unit cache_prog" where
  "pipeline [] ok = Ret (if ok then Inr () else Inl err_redis)"
| "pipeline (c # cs) ok = Call c (\<lambda>x. pipeline cs (ok \<and> x \<noteq> XErr))"

function chunks_of :: "nat \<Rightarrow> 'a list \<Rightarrow> 'a list list" where
  "chunks_of n xs = (if xs = [] \<or> n = 0 then [] else take n xs # chunks_of n (drop n xs))"
  by pat_completeness auto
termination by (relation "measure (\<lambda>(n, xs). length xs)") auto

declare chunks_of.simps [simp del]

section \<open>Reading a snapshot\<close>

fun mget_chunked :: "rkey list list \<Rightarrow> rval option list \<Rightarrow> rval option list cache_prog" where
  "mget_chunked [] out = Ret (Inr out)"
| "mget_chunked (ks # kss) out = attempt (MGet ks) (\<lambda>x. case x of XVals vs \<Rightarrow> mget_chunked kss (out @ vs) | _ \<Rightarrow> Ret (Inl err_redis))"

definition unix_milli_time :: "int \<Rightarrow> gtime" where "unix_milli_time ms = unix_epoch + ms * millisecond"

definition apply_last_used :: "sched_account \<Rightarrow> rval option \<Rightarrow> go_error + sched_account" where
  "apply_last_used a v = (case v of None \<Rightarrow> Inr a
     | Some (RText raw) \<Rightarrow> (case atoi raw of None \<Rightarrow> Inl err_bad_value
         | Some ms \<Rightarrow> (let t = unix_milli_time ms
             in Inr (if (case sa_last_used a of None \<Rightarrow> True | Some u \<Rightarrow> t_after t u) then a\<lparr>sa_last_used := Some t\<rparr> else a)))
     | Some _ \<Rightarrow> Inl err_bad_value)"

definition decode_cached :: "rval \<Rightarrow> go_error + sched_account" where
  "decode_cached v = (case v of RDoc a \<Rightarrow> Inr a | _ \<Rightarrow> Inl err_bad_value)"

fun decode_hits :: "(rval option \<times> rval option) list \<Rightarrow> sched_account list \<Rightarrow> go_error + sched_account list option" where
  "decode_hits [] out = Inr (Some out)"
| "decode_hits ((None, _) # vs) out = Inr None"
| "decode_hits ((Some v, lu) # vs) out = (case decode_cached v of Inl e \<Rightarrow> Inl e
     | Inr a \<Rightarrow> (case apply_last_used a lu of Inl e \<Rightarrow> Inl e | Inr a' \<Rightarrow> decode_hits vs (out @ [a'])))"

definition get_snapshot :: "cache_cfg \<Rightarrow> bucket \<Rightarrow> sched_account list option cache_prog" where
  "get_snapshot cc b = attempt (Get (KReady b)) (\<lambda>ready.
     if ready \<noteq> XVal (Some (RText ''1'')) then Ret (Inr None)
     else attempt (Get (KActive b)) (\<lambda>act. case act of
         XVal (Some (RText v)) \<Rightarrow> attempt (ZRange (KSnap b v)) (\<lambda>x. case x of
             XNames ids \<Rightarrow> if ids = [] then Ret (Inr None)
               else ebind (mget_chunked (chunks_of (cc_mget cc) (map KMeta ids)) []) (\<lambda>vals.
                 ebind (mget_chunked (chunks_of (cc_mget cc) (map KLastUsed ids)) []) (\<lambda>lus.
                   Ret (decode_hits (zip vals lus) [])))
           | _ \<Rightarrow> Ret (Inl err_redis))
       | _ \<Rightarrow> Ret (Inr None)))"

section \<open>Tokens and fences\<close>

definition write_result_error :: "int \<Rightarrow> go_error option" where
  "write_result_error n = (if n = -1 then Some (WrapErr ''bucket'' err_retired) else if n = -2 then Some (WrapErr ''bucket'' err_fenced) else None)"

definition fence_call :: "rcmd \<Rightarrow> int cache_prog" where
  "fence_call c = attempt c (\<lambda>x. case x of
     XInt n \<Rightarrow> Ret (case write_result_error n of Some e \<Rightarrow> Inl e | None \<Rightarrow> Inr n) | _ \<Rightarrow> Ret (Inl err_redis))"

definition capture_token :: "bucket \<Rightarrow> write_token cache_prog" where
  "capture_token b = ebind (fence_call (Capture b)) (\<lambda>n. Ret (Inr \<lparr>wt_bucket = b, wt_epoch = n\<rparr>))"

definition reopen_bucket :: "bucket \<Rightarrow> write_token cache_prog" where
  "reopen_bucket b = ebind (fence_call (Reopen b)) (\<lambda>n. Ret (Inr \<lparr>wt_bucket = b, wt_epoch = n\<rparr>))"

definition retire_bucket :: "bucket \<Rightarrow> unit cache_prog" where
  "retire_bucket b = attempt (Retire b) (\<lambda>x. case x of
     XInt n \<Rightarrow> Ret (if n < 1 then Inl (PlainErr ''invalid epoch'') else Inr ()) | _ \<Rightarrow> Ret (Inl err_redis))"

section \<open>Writing a snapshot\<close>

definition allocate_version :: "bucket \<Rightarrow> write_token \<Rightarrow> string cache_prog" where
  "allocate_version b tok = ebind (fence_call (Allocate b (wt_epoch tok))) (\<lambda>n. Ret (Inr (itoa n)))"

definition activate_version :: "bucket \<Rightarrow> write_token \<Rightarrow> string \<Rightarrow> unit cache_prog" where
  "activate_version b tok v = ebind (fence_call (Activate b v (wt_epoch tok))) (\<lambda>n. Ret (Inr ()))"

definition snapshot_members :: "int64 list \<Rightarrow> (string \<times> nat) list" where
  "snapshot_members ids = zip (map itoa ids) [0 ..< length ids]"

definition write_account_ids_of :: "cache_cfg \<Rightarrow> bucket \<Rightarrow> string \<Rightarrow> int64 list \<Rightarrow> unit cache_prog" where
  "write_account_ids_of cc b v ids = (if ids = [] then Ret (Inr ())
     else pipeline (map (ZAdd (KSnap b v)) (chunks_of (cc_write cc) (snapshot_members ids))) True)"

definition set_account_cmds :: "sched_account \<Rightarrow> rcmd list" where
  "set_account_cmds a = [SetDoc (KAcc (itoa (sa_id a))) a, SetDoc (KMeta (itoa (sa_id a))) (build_metadata a)]"

fun flush_accounts :: "sched_account list list \<Rightarrow> unit cache_prog" where
  "flush_accounts [] = Ret (Inr ())"
| "flush_accounts (as # ass) = ebind (pipeline (concat (map set_account_cmds as)) True) (\<lambda>_. flush_accounts ass)"

definition write_accounts :: "(sched_account \<Rightarrow> bool) \<Rightarrow> cache_cfg \<Rightarrow> sched_account list \<Rightarrow> int64 list cache_prog" where
  "write_accounts enc cc accs = ebind (flush_accounts (chunks_of (cc_write cc) (filter enc accs))) (\<lambda>_. Ret (Inr (map sa_id (filter enc accs))))"

definition set_snapshot_ids :: "(sched_account \<Rightarrow> bool) \<Rightarrow> cache_cfg \<Rightarrow> bucket \<Rightarrow> write_token \<Rightarrow> sched_account list \<Rightarrow> int64 list cache_prog" where
  "set_snapshot_ids enc cc b tok accs = (if \<not> token_valid_for tok b then Ret (Inl (WrapErr ''bucket'' err_fenced))
     else ebind (allocate_version b tok) (\<lambda>v. ebind (write_accounts enc cc accs) (\<lambda>ids.
       ebind (write_account_ids_of cc b v ids) (\<lambda>_. ebind (activate_version b tok v) (\<lambda>_. Ret (Inr ids))))))"

definition set_snapshot :: "(sched_account \<Rightarrow> bool) \<Rightarrow> cache_cfg \<Rightarrow> bucket \<Rightarrow> write_token \<Rightarrow> sched_account list \<Rightarrow> unit cache_prog" where
  "set_snapshot enc cc b tok accs = (if \<not> token_valid_for tok b then Ret (Inl (WrapErr ''bucket'' err_fenced))
     else ebind (allocate_version b tok) (\<lambda>v. ebind (write_accounts enc cc accs) (\<lambda>ids.
       ebind (write_account_ids_of cc b v ids) (\<lambda>_. activate_version b tok v))))"

definition set_snapshot_by_ids :: "cache_cfg \<Rightarrow> bucket \<Rightarrow> write_token \<Rightarrow> int64 list \<Rightarrow> unit cache_prog" where
  "set_snapshot_by_ids cc b tok ids = (if \<not> token_valid_for tok b then Ret (Inl (WrapErr ''bucket'' err_fenced))
     else ebind (allocate_version b tok) (\<lambda>v. ebind (write_account_ids_of cc b v ids) (\<lambda>_. activate_version b tok v)))"

section \<open>Accounts\<close>

definition get_account :: "int64 \<Rightarrow> sched_account option cache_prog" where
  "get_account i = attempt (MGet [KAcc (itoa i), KLastUsed (itoa i)]) (\<lambda>x. case x of
     XVals [Some v, lu] \<Rightarrow> Ret (case decode_cached v of Inl e \<Rightarrow> Inl e | Inr a \<Rightarrow> map_sum (\<lambda>e. e) Some (apply_last_used a lu))
   | _ \<Rightarrow> Ret (Inr None))"

definition delete_account :: "int64 \<Rightarrow> unit cache_prog" where
  "delete_account i = (if i \<le> 0 then Ret (Inr ())
     else attempt (Del [KAcc (itoa i), KMeta (itoa i), KLastUsed (itoa i)]) (\<lambda>_. Ret (Inr ())))"

definition set_account :: "(sched_account \<Rightarrow> bool) \<Rightarrow> cache_cfg \<Rightarrow> sched_account option \<Rightarrow> unit cache_prog" where
  "set_account enc cc acc = (case acc of None \<Rightarrow> Ret (Inr ())
     | Some a \<Rightarrow> if sa_id a \<le> 0 then Ret (Inr ())
         else ebind (write_accounts enc cc [a]) (\<lambda>ids. if ids = [] then delete_account (sa_id a) else Ret (Inr ())))"

text \<open>\<open>Time.MarshalJSON\<close> refuses years outside 0 to 9999.\<close>

definition json_time :: "gtime \<Rightarrow> bool" where
  "json_time t \<longleftrightarrow> - 31622400000000000 \<le> t \<and> t < 315537897600000000000"

definition last_used_millis :: "gtime \<Rightarrow> int option" where
  "last_used_millis t = (if json_time t then Some ((t - unix_epoch) div millisecond) else None)"

definition last_used_chunk :: nat where "last_used_chunk = 256"

fun last_used_cmds :: "(int64 \<times> gtime) list \<Rightarrow> (string \<times> int) list \<Rightarrow> rcmd list" where
  "last_used_cmds [] args = (if args = [] then [] else [LastUsed args])"
| "last_used_cmds ((i, t) # us) args = (if i \<le> 0 then last_used_cmds us args
     else case last_used_millis t of
         None \<Rightarrow> Del [KAcc (itoa i), KMeta (itoa i), KLastUsed (itoa i)] # last_used_cmds us args
       | Some ms \<Rightarrow> (let args' = args @ [(itoa i, ms)]
           in if last_used_chunk \<le> length args' then LastUsed args' # last_used_cmds us [] else last_used_cmds us args'))"

definition update_last_used :: "(int64 \<times> gtime) list \<Rightarrow> unit cache_prog" where
  "update_last_used updates = pipeline (last_used_cmds updates []) True"

section \<open>Locks, leases, the registry and the watermark\<close>

definition expect_bool :: "rreply \<Rightarrow> bool cache_prog" where
  "expect_bool x = Ret (case x of XBool b \<Rightarrow> Inr b | _ \<Rightarrow> Inl err_redis)"

definition try_lock_bucket :: "bucket \<Rightarrow> gduration \<Rightarrow> string \<Rightarrow> bool cache_prog" where
  "try_lock_bucket b ttl stamp = attempt (SetNX (KLock b) stamp ttl) expect_bool"

definition unlock_bucket :: "bucket \<Rightarrow> unit cache_prog" where
  "unlock_bucket b = attempt (Del [KLock b]) (\<lambda>_. Ret (Inr ()))"

definition acquire_lease :: "int64 \<Rightarrow> gduration \<Rightarrow> string \<Rightarrow> group_lease option cache_prog" where
  "acquire_lease g ttl owner = (if g \<le> 0 then Ret (Inl (WrapErr ''group id must be positive'' err_lease_invalid))
     else if ttl \<le> 0 then Ret (Inl (WrapErr ''ttl must be positive'' err_lease_invalid))
     else ebind (attempt (SetNX (KLease g) owner ttl) expect_bool) (\<lambda>ok.
       Ret (Inr (if ok then Some \<lparr>gl_group = g, gl_owner = owner\<rparr> else None))))"

definition release_lease :: "group_lease \<Rightarrow> unit cache_prog" where
  "release_lease l = (if \<not> lease_valid_for l (gl_group l) then Ret (Inl err_lease_invalid)
     else attempt (Release (gl_group l) (gl_owner l)) (\<lambda>x. Ret (case x of
         XInt n \<Rightarrow> if n = 0 then Inl (WrapErr ''group'' err_lease_lost) else if n \<noteq> 1 then Inl (PlainErr ''release'') else Inr ()
       | _ \<Rightarrow> Inl err_redis)))"

definition list_buckets :: "bucket list cache_prog" where
  "list_buckets = attempt (SMembers KBuckets) (\<lambda>x. Ret (case x of XNames raw \<Rightarrow> Inr (List.map_filter parse_bucket raw) | _ \<Rightarrow> Inl err_redis))"

definition get_watermark :: "int64 cache_prog" where
  "get_watermark = attempt (Get KWatermark) (\<lambda>x. Ret (case x of
     XVal None \<Rightarrow> Inr 0
   | XVal (Some (RText s)) \<Rightarrow> (case atoi s of None \<Rightarrow> Inl err_bad_value | Some i \<Rightarrow> Inr i)
   | _ \<Rightarrow> Inl err_redis))"

definition set_watermark :: "int64 \<Rightarrow> unit cache_prog" where
  "set_watermark i = attempt (SetText KWatermark (itoa i)) (\<lambda>_. Ret (Inr ()))"

end
