(* ===== verification/Sched_View.thy ===== *)
theory Sched_View
  imports Sched_Cache
begin

text \<open>
  What the scripts of the scheduler cache do to one bucket. \<open>bucket_view\<close> reads the keys of a bucket as an epoch, a
  mark of retirement, a version counter, an active version and the stored versions; \<open>typed\<close> says that the keys have
  the form the scripts give them. Each script changes the view of its own bucket as the equations here
  say and no other view; that is all the proofs about the protocol use of the scripts.
\<close>

record bview =
  bv_epoch :: int
  bv_retired :: "int option"
  bv_version :: int
  bv_active :: "int option"
  bv_snap :: "int \<Rightarrow> ((string \<times> nat) list \<times> gtime option) option"

definition number_or_zero :: "redis \<Rightarrow> rkey \<Rightarrow> int" where
  "number_or_zero r k = (case r_number r k of None \<Rightarrow> 0 | Some n \<Rightarrow> n)"

definition snap_entry :: "redis \<Rightarrow> bucket \<Rightarrow> int \<Rightarrow> ((string \<times> nat) list \<times> gtime option) option" where
  "snap_entry r b n = (case r_entry r (KSnap b (itoa n)) of Some (RZset z, t) \<Rightarrow> Some (z, t) | _ \<Rightarrow> None)"

definition bucket_view :: "redis \<Rightarrow> bucket \<Rightarrow> bview" where
  "bucket_view r b = \<lparr>bv_epoch = number_or_zero r (KEpoch b), bv_retired = r_number r (KRetired b),
     bv_version = number_or_zero r (KVersion b), bv_active = r_number r (KActive b), bv_snap = snap_entry r b\<rparr>"

definition counter_entry :: "redis \<Rightarrow> rkey \<Rightarrow> bool" where
  "counter_entry r k \<longleftrightarrow> (\<forall>e. r_entry r k = Some e \<longrightarrow> (\<exists>n. 1 \<le> n \<and> e = (RText (itoa n), None)))"

definition typed :: "redis \<Rightarrow> bucket \<Rightarrow> bool" where
  "typed r b \<longleftrightarrow> counter_entry r (KEpoch b) \<and> counter_entry r (KRetired b) \<and> counter_entry r (KVersion b) \<and>
     counter_entry r (KActive b) \<and> number_or_zero r (KVersion b) \<le> max_int64 \<and> (\<forall>v e. r_entry r (KSnap b v) = Some e \<longrightarrow> (\<exists>z t. e = (RZset z, t)))"

definition lease_out :: "bview \<Rightarrow> gtime \<Rightarrow> bview" where
  "lease_out v now = (case bv_active v of None \<Rightarrow> v
     | Some n \<Rightarrow> v\<lparr>bv_snap := (bv_snap v)(n := map_option (\<lambda>(z, _). (z, Some (now + grace_seconds * second))) (bv_snap v n))\<rparr>)"

definition hidden :: "bview \<Rightarrow> gtime \<Rightarrow> bview" where "hidden v now = (lease_out v now)\<lparr>bv_active := None\<rparr>"

section \<open>Counters\<close>

lemma counter_cases:
  assumes "counter_entry r k"
  obtains (none) "r_entry r k = None" "r_get r k = None" "r_number r k = None" "\<not> r_exists r k" "number_or_zero r k = 0"
  | (some) n where "1 \<le> n" "r_entry r k = Some (RText (itoa n), None)" "r_get r k = Some (itoa n)" "r_number r k = Some n" "r_exists r k"
      "number_or_zero r k = n"
proof (cases "r_entry r k")
  case None
  then show ?thesis using that(1) by (simp add: r_get_def r_look_def r_number_def r_exists_def number_or_zero_def)
next
  case (Some e)
  then obtain n where "1 \<le> n" "e = (RText (itoa n), None)" using assms by (auto simp: counter_entry_def)
  then show ?thesis using that(2) Some by (simp add: r_get_def r_look_def r_number_def r_exists_def number_or_zero_def)
qed

lemma r_number_cong: "r_entry r k = r_entry r' k \<Longrightarrow> r_number r k = r_number r' k"
  by (simp add: r_number_def r_get_def r_look_def)

definition same_bucket :: "redis \<Rightarrow> redis \<Rightarrow> bucket \<Rightarrow> bool" where
  "same_bucket r r' b \<longleftrightarrow> (\<forall>k \<in> {KEpoch b, KRetired b, KVersion b, KActive b} \<union> range (KSnap b). r_entry r k = r_entry r' k)"

lemma same_bucket_view:
  assumes "same_bucket r r' b"
  shows "bucket_view r' b = bucket_view r b" and "typed r' b = typed r b"
proof -
  have e: "r_entry r' (KEpoch b) = r_entry r (KEpoch b)" "r_entry r' (KRetired b) = r_entry r (KRetired b)"
    "r_entry r' (KVersion b) = r_entry r (KVersion b)" "r_entry r' (KActive b) = r_entry r (KActive b)"
    "r_entry r' (KSnap b v) = r_entry r (KSnap b v)" for v
    using assms by (auto simp: same_bucket_def)
  then show "typed r' b = typed r b" by (simp add: typed_def counter_entry_def number_or_zero_def r_number_cong [OF e(3)])
  have "snap_entry r' b = snap_entry r b" using e by (simp add: snap_entry_def fun_eq_iff)
  then show "bucket_view r' b = bucket_view r b"
    using e by (simp add: bucket_view_def number_or_zero_def r_number_cong [OF e(1)] r_number_cong [OF e(2)] r_number_cong [OF e(3)] r_number_cong [OF e(4)])
qed

lemma typed_counters: "typed r b \<Longrightarrow> counter_entry r (KEpoch b)" "typed r b \<Longrightarrow> counter_entry r (KRetired b)"
  "typed r b \<Longrightarrow> counter_entry r (KVersion b)" "typed r b \<Longrightarrow> counter_entry r (KActive b)"
  by (simp_all add: typed_def)

lemma number_or_zero_set [simp]: "r_number (r_set k s r) k' = (if k' = k then lua_number s else r_number r k')"
  by (simp add: r_number_def r_get_def r_look_def)

lemma r_number_prims [simp]:
  "r_number (r_del k r) k' = (if k' = k then None else r_number r k')"
  "k' \<noteq> k \<Longrightarrow> r_number (r_put k e r) k' = r_number r k'"
  "k' \<noteq> k \<Longrightarrow> r_number (r_sadd k s r) k' = r_number r k'"
  "k' \<noteq> k \<Longrightarrow> r_number (r_srem k s r) k' = r_number r k'"
  "0 < n \<Longrightarrow> r_number (r_expire k n r) k' = r_number r k'"
  by (auto simp: r_number_def r_get_def r_look_def split: option.splits)

lemma r_get_prims [simp]:
  "r_get (r_set k s r) k' = (if k' = k then Some s else r_get r k')"
  "r_get (r_del k r) k' = (if k' = k then None else r_get r k')"
  "k' \<noteq> k \<Longrightarrow> r_get (r_sadd k s r) k' = r_get r k'"
  "k' \<noteq> k \<Longrightarrow> r_get (r_srem k s r) k' = r_get r k'"
  by (simp_all add: r_get_def r_look_def)

end
