(* ===== verification/Sched_Effects.thy ===== *)
theory Sched_Effects
  imports Sched_View
begin

text \<open>
  The effect of each script of the scheduler cache on the view of its own bucket, and the keys it leaves alone.
\<close>

definition bucket_keys :: "bucket \<Rightarrow> rkey set" where
  "bucket_keys b = {KEpoch b, KRetired b, KVersion b, KActive b, KReady b, KBuckets} \<union> range (KSnap b)"

lemma expire_grace [simp]: "0 < grace_seconds" by (simp add: grace_seconds_def)

lemma grace_entry:
  "r_entry (grace_active b r) k = (if \<exists>v. r_get r (KActive b) = Some v \<and> k = KSnap b v
     then map_option (\<lambda>(x, _). (x, Some (r_now r + grace_seconds * second))) (r_entry r k) else r_entry r k)"
  by (auto simp: grace_active_def split: option.splits)

lemma hide_entry:
  "r_entry (hide_bucket b r) k = (if k = KActive b \<or> k = KReady b then None
     else if k = KBuckets then r_entry (r_srem KBuckets (bucket_string b) r) KBuckets
     else if \<exists>v. r_get r (KActive b) = Some v \<and> k = KSnap b v
     then map_option (\<lambda>(x, _). (x, Some (r_now r + grace_seconds * second))) (r_entry r k) else r_entry r k)"
  by (auto simp: hide_bucket_def grace_entry)

lemma hide_other: "k \<notin> bucket_keys b \<Longrightarrow> r_entry (hide_bucket b r) k = r_entry r k"
  by (auto simp: hide_entry bucket_keys_def)

lemma script_footprint:
  assumes "k \<notin> bucket_keys b"
  shows "r_entry (snd (capture_script b r)) k = r_entry r k"
    and "r_entry (snd (allocate_script b e r)) k = r_entry r k"
    and "r_entry (snd (retire_script b r)) k = r_entry r k"
    and "r_entry (snd (reopen_script b r)) k = r_entry r k"
    and "r_entry (snd (activate_script b v e r)) k = r_entry r k"
proof -
  have k: "k \<noteq> KEpoch b" "k \<noteq> KRetired b" "k \<noteq> KVersion b" "k \<noteq> KActive b" "k \<noteq> KReady b" "k \<noteq> KBuckets" "k \<noteq> KSnap b v" for v
    using assms by (auto simp: bucket_keys_def)
  show "r_entry (snd (capture_script b r)) k = r_entry r k"
    using k by (simp add: capture_script_def split: option.splits)
  show "r_entry (snd (allocate_script b e r)) k = r_entry r k"
    using k by (auto simp: allocate_script_def r_incr_def split: option.splits)
  show "r_entry (snd (retire_script b r)) k = r_entry r k"
    using k assms by (simp add: retire_script_def Let_def hide_other)
  show "r_entry (snd (reopen_script b r)) k = r_entry r k"
    using k assms by (simp add: reopen_script_def Let_def hide_other split: option.splits)
  show "r_entry (snd (activate_script b v e r)) k = r_entry r k"
    using k by (auto simp: activate_script_def Let_def split: option.splits)
qed

lemma keys_of_other: "b' \<noteq> b \<Longrightarrow> k \<in> {KEpoch b', KRetired b', KVersion b', KActive b'} \<union> range (KSnap b') \<Longrightarrow> k \<notin> bucket_keys b"
  by (auto simp: bucket_keys_def)

lemma script_local:
  assumes "b' \<noteq> b"
  shows "same_bucket r (snd (capture_script b r)) b'" "same_bucket r (snd (allocate_script b e r)) b'"
    "same_bucket r (snd (retire_script b r)) b'" "same_bucket r (snd (reopen_script b r)) b'" "same_bucket r (snd (activate_script b v e r)) b'"
  unfolding same_bucket_def using script_footprint [OF keys_of_other [OF assms]] by metis+

section \<open>The bucket of the script\<close>

lemma view_eqI:
  assumes "number_or_zero r (KEpoch b) = bv_epoch v" and "r_number r (KRetired b) = bv_retired v"
    and "number_or_zero r (KVersion b) = bv_version v" and "r_number r (KActive b) = bv_active v" and "\<And>n. snap_entry r b n = bv_snap v n"
  shows "bucket_view r b = v"
  using assms by (simp add: bucket_view_def fun_eq_iff)

lemma view_sel [simp]:
  "bv_epoch (bucket_view r b) = number_or_zero r (KEpoch b)" "bv_retired (bucket_view r b) = r_number r (KRetired b)"
  "bv_version (bucket_view r b) = number_or_zero r (KVersion b)" "bv_active (bucket_view r b) = r_number r (KActive b)"
  "bv_snap (bucket_view r b) = snap_entry r b"
  by (simp_all add: bucket_view_def)

lemma typedI:
  assumes "typed r b" and "\<And>k. k \<in> {KEpoch b, KRetired b, KVersion b, KActive b} \<Longrightarrow> r_entry r' k = r_entry r k \<or> counter_entry r' k"
    and "number_or_zero r' (KVersion b) \<le> max_int64"
    and "\<And>v x t. r_entry r' (KSnap b v) = Some (x, t) \<Longrightarrow> (\<exists>z. x = RZset z) \<or> (\<exists>t'. r_entry r (KSnap b v) = Some (x, t'))"
  shows "typed r' b"
proof -
  have "counter_entry r' k" if "k \<in> {KEpoch b, KRetired b, KVersion b, KActive b}" for k
    using assms(1) assms(2) [OF that] that unfolding typed_def counter_entry_def by (elim disjE) auto
  moreover have "\<exists>z t. e = (RZset z, t)" if "r_entry r' (KSnap b v) = Some e" for v e
  proof (cases e)
    case (Pair x t)
    then show ?thesis using assms(1) assms(4) [of v x t] that by (auto simp: typed_def)
  qed
  ultimately show ?thesis using assms(3) by (simp add: typed_def)
qed

lemma counter_set [simp]: "counter_entry (r_set k s r) k' = (if k' = k then (\<exists>n \<ge> 1. s = itoa n) else counter_entry r k')"
  by (auto simp: counter_entry_def)

lemma one_text: "''1'' = itoa 1"
  by code_simp

lemma capture_effect:
  assumes "typed r b"
  defines "v \<equiv> bucket_view r b"
  shows "fst (capture_script b r) = (if bv_retired v = None then max 1 (bv_epoch v) else -1)"
    and "bucket_view (snd (capture_script b r)) b = (if bv_retired v = None then v\<lparr>bv_epoch := max 1 (bv_epoch v)\<rparr> else v)"
    and "typed (snd (capture_script b r)) b"
proof -
  note c = typed_counters [OF assms(1)]
  have "(fst (capture_script b r) = (if bv_retired v = None then max 1 (bv_epoch v) else -1)) \<and>
     (bucket_view (snd (capture_script b r)) b = (if bv_retired v = None then v\<lparr>bv_epoch := max 1 (bv_epoch v)\<rparr> else v)) \<and>
     typed (snd (capture_script b r)) b"
    using c(2)
  proof (cases rule: counter_cases)
    case none
    note ret = none
    from c(1) show ?thesis
    proof (cases rule: counter_cases)
      case none
      then have eq: "capture_script b r = (1, r_set (KEpoch b) ''1'' r)" using ret by (simp add: capture_script_def)
      have "typed (r_set (KEpoch b) ''1'' r) b" using assms(1) by (auto simp: typed_def one_text number_or_zero_def)
      then show ?thesis using none ret unfolding eq v_def
        by (auto intro!: view_eqI simp: number_or_zero_def snap_entry_def)
    next
      case (some n)
      then have "capture_script b r = (n, r)" using ret by (simp add: capture_script_def)
      then show ?thesis using some ret assms(1) by (simp add: v_def max_def bucket_view_def)
    qed
  next
    case (some n)
    then show ?thesis using assms(1) by (simp add: capture_script_def v_def)
  qed
  then show "fst (capture_script b r) = (if bv_retired v = None then max 1 (bv_epoch v) else -1)"
    and "bucket_view (snd (capture_script b r)) b = (if bv_retired v = None then v\<lparr>bv_epoch := max 1 (bv_epoch v)\<rparr> else v)"
    and "typed (snd (capture_script b r)) b" by blast+
qed

lemma typed_version: "typed r b \<Longrightarrow> number_or_zero r (KVersion b) \<le> max_int64"
  by (simp add: typed_def)

lemma allocate_effect:
  fixes r :: redis and b :: bucket and e :: int
  assumes "typed r b"
  defines "v \<equiv> bucket_view r b" and "out \<equiv> allocate_script b e r"
  shows "fst out = (if bv_retired v \<noteq> None then Some (-1) else if bv_epoch v \<noteq> e \<or> e = 0 then Some (-2)
      else if bv_version v = max_int64 then None else Some (bv_version v + 1)) \<and>
    bucket_view (snd out) b = (if bv_retired v = None \<and> bv_epoch v = e \<and> e \<noteq> 0 \<and> bv_version v \<noteq> max_int64
      then v\<lparr>bv_version := bv_version v + 1\<rparr> else v) \<and> typed (snd out) b"
  using typed_counters(2) [OF assms(1)]
proof (cases rule: counter_cases)
  case (some n)
  then show ?thesis using assms(1) by (simp add: out_def allocate_script_def v_def)
next
  case none
  note ret = none
  show ?thesis
  proof (cases "r_number r (KEpoch b) = Some e")
    case False
    then have "number_or_zero r (KEpoch b) \<noteq> e \<or> e = 0" by (auto simp: number_or_zero_def split: option.splits)
    then show ?thesis using False ret assms(1) by (simp add: out_def allocate_script_def v_def)
  next
    case True
    from typed_counters(1) [OF assms(1)] have e: "number_or_zero r (KEpoch b) = e" "e \<noteq> 0"
      by (cases rule: counter_cases; use True in simp)+
    have up: "bucket_view (r_set (KVersion b) (itoa n) r) b = v\<lparr>bv_version := n\<rparr>" for n
      by (rule view_eqI) (auto simp: v_def number_or_zero_def snap_entry_def)
    have ty: "typed (r_set (KVersion b) (itoa n) r) b" if "1 \<le> n" "n \<le> max_int64" for n
      using assms(1) that by (auto simp: typed_def number_or_zero_def)
    from typed_counters(3) [OF assms(1)] show ?thesis
    proof (cases rule: counter_cases)
      case none
      then have "out = (Some 1, r_set (KVersion b) (itoa 1) r)" using True ret by (simp add: out_def allocate_script_def r_incr_def)
      then show ?thesis using up [of 1] ty [of 1] e ret none by (simp add: v_def max_int64_def)
    next
      case (some n)
      have n: "n \<le> max_int64" using typed_version [OF assms(1)] some by simp
      then have "atoi (itoa n) = Some n" using some(1) by (intro atoi_itoa) (simp add: in_int64_def min_int64_def)
      then have "out = (if n = max_int64 then (None, r) else (Some (n + 1), r_set (KVersion b) (itoa (n + 1)) r))"
        using True ret some by (simp add: out_def allocate_script_def r_incr_def)
      then show ?thesis using up [of "n + 1"] ty [of "n + 1"] e ret some n assms(1) by (auto simp: v_def)
    qed
  qed
qed

lemma hide_effect:
  assumes "typed r b"
  shows "bucket_view (hide_bucket b r) b = hidden (bucket_view r b) (r_now r)" and "typed (hide_bucket b r) b"
proof -
  have n: "r_number (hide_bucket b r) k = r_number r k" if "k \<in> {KEpoch b, KRetired b, KVersion b}" for k
    using that by (intro r_number_cong) (auto simp: hide_entry)
  have act: "r_number (hide_bucket b r) (KActive b) = None" by (simp add: hide_bucket_def)
  show "typed (hide_bucket b r) b"
  proof (rule typedI [OF assms])
    show "number_or_zero (hide_bucket b r) (KVersion b) \<le> max_int64"
      using typed_version [OF assms] n by (simp add: number_or_zero_def)
  qed (auto simp: hide_entry counter_entry_def split: if_splits)
  show "bucket_view (hide_bucket b r) b = hidden (bucket_view r b) (r_now r)"
    using typed_counters(4) [OF assms]
  proof (cases rule: counter_cases)
    case none
    then have "snap_entry (hide_bucket b r) b n = snap_entry r b n" for n by (simp add: snap_entry_def hide_entry)
    then show ?thesis using n act none by (intro view_eqI) (simp_all add: hidden_def lease_out_def number_or_zero_def)
  next
    case (some a)
    have "snap_entry (hide_bucket b r) b n = (if n = a then map_option (\<lambda>(z, _). (z, Some (r_now r + grace_seconds * second))) (snap_entry r b a)
        else snap_entry r b n)" for n
      using some by (auto simp: snap_entry_def hide_entry itoa_inj split: option.splits rval.splits)
    then show ?thesis using n act some by (intro view_eqI) (simp_all add: hidden_def lease_out_def number_or_zero_def)
  qed
qed

lemma set_effect:
  assumes "typed r b" and "1 \<le> n"
  shows "bucket_view (r_set (KEpoch b) (itoa n) r) b = (bucket_view r b)\<lparr>bv_epoch := n\<rparr>" "typed (r_set (KEpoch b) (itoa n) r) b"
    "bucket_view (r_set (KRetired b) (itoa n) r) b = (bucket_view r b)\<lparr>bv_retired := Some n\<rparr>" "typed (r_set (KRetired b) (itoa n) r) b"
    "bucket_view (r_set (KActive b) (itoa n) r) b = (bucket_view r b)\<lparr>bv_active := Some n\<rparr>" "typed (r_set (KActive b) (itoa n) r) b"
    "bucket_view (r_del (KRetired b) r) b = (bucket_view r b)\<lparr>bv_retired := None\<rparr>" "typed (r_del (KRetired b) r) b"
  using assms by (auto intro!: view_eqI typedI [of r b] simp: number_or_zero_def snap_entry_def counter_entry_def typed_version [unfolded number_or_zero_def])

lemma hidden_upd [simp]:
  "hidden (v\<lparr>bv_epoch := e\<rparr>) t = (hidden v t)\<lparr>bv_epoch := e\<rparr>" "hidden (v\<lparr>bv_retired := x\<rparr>) t = (hidden v t)\<lparr>bv_retired := x\<rparr>"
  "bv_epoch (hidden v t) = bv_epoch v" "bv_retired (hidden v t) = bv_retired v" "bv_version (hidden v t) = bv_version v" "bv_active (hidden v t) = None"
  "bv_snap (hidden v t) n = (if bv_active v = Some n then map_option (\<lambda>(z, _). (z, Some (t + grace_seconds * second))) (bv_snap v n) else bv_snap v n)"
  by (auto simp: hidden_def lease_out_def split: option.splits)

lemma bview_eqI: "bv_epoch v = bv_epoch w \<Longrightarrow> bv_retired v = bv_retired w \<Longrightarrow> bv_version v = bv_version w \<Longrightarrow> bv_active v = bv_active w \<Longrightarrow>
  (\<And>n. bv_snap v n = bv_snap w n) \<Longrightarrow> v = (w :: bview)"
  by (simp add: fun_eq_iff)

lemma retire_effect:
  fixes r :: redis and b :: bucket
  assumes "typed r b"
  defines "v \<equiv> bucket_view r b" and "out \<equiv> retire_script b r"
  shows "fst out = (case bv_retired v of None \<Rightarrow> bv_epoch v + 1 | Some t \<Rightarrow> if bv_epoch v = 0 then t else bv_epoch v) \<and>
    bucket_view (snd out) b = (hidden v (r_now r))\<lparr>bv_epoch := fst out, bv_retired := Some (case bv_retired v of None \<Rightarrow> bv_epoch v + 1 | Some t \<Rightarrow> t)\<rparr> \<and>
    typed (snd out) b"
  using typed_counters(2) [OF assms(1)]
proof (cases rule: counter_cases)
  case none
  note ret = none
  let ?e = "bv_epoch v + 1"
  have "0 \<le> bv_epoch v" using typed_counters(1) [OF assms(1)] by (cases rule: counter_cases) (simp_all add: v_def)
  moreover from this have "out = (?e, hide_bucket b (r_set (KRetired b) (itoa ?e) (r_set (KEpoch b) (itoa ?e) r)))"
    using ret by (simp add: out_def retire_script_def Let_def v_def number_or_zero_def max_def)
  moreover have "typed (r_set (KEpoch b) (itoa ?e) r) b" using calculation(1) assms(1) set_effect(2) [of r b ?e] by simp
  ultimately show ?thesis using ret set_effect(1) [OF assms(1), of ?e] set_effect(3,4) [of "r_set (KEpoch b) (itoa ?e) r" b ?e]
      hide_effect [of "r_set (KRetired b) (itoa ?e) (r_set (KEpoch b) (itoa ?e) r)" b]
    by (simp add: v_def)
next
  case (some t)
  note ret = some
  from typed_counters(1) [OF assms(1)] show ?thesis
  proof (cases rule: counter_cases)
    case none
    then have "out = (t, hide_bucket b (r_set (KEpoch b) (itoa t) r))"
      using ret by (simp add: out_def retire_script_def Let_def)
    then show ?thesis using ret none set_effect(1,2) [OF assms(1), of t] hide_effect [of "r_set (KEpoch b) (itoa t) r" b]
      by (auto simp: v_def intro: bview_eqI)
  next
    case (some n)
    then have "out = (n, hide_bucket b r)" using ret by (simp add: out_def retire_script_def Let_def)
    then show ?thesis using ret some hide_effect [OF assms(1)] by (auto simp: v_def intro: bview_eqI)
  qed
qed

lemma reopen_effect:
  fixes r :: redis and b :: bucket
  assumes "typed r b"
  defines "v \<equiv> bucket_view r b" and "out \<equiv> reopen_script b r"
  shows "fst out = (case bv_retired v of None \<Rightarrow> max 1 (bv_epoch v) | Some t \<Rightarrow> max t (bv_epoch v)) \<and>
    bucket_view (snd out) b = (if bv_retired v = None then v\<lparr>bv_epoch := fst out\<rparr> else (hidden v (r_now r))\<lparr>bv_epoch := fst out, bv_retired := None\<rparr>) \<and>
    typed (snd out) b"
  using typed_counters(2) [OF assms(1)]
proof (cases rule: counter_cases)
  case none
  note ret = none
  from typed_counters(1) [OF assms(1)] show ?thesis
  proof (cases rule: counter_cases)
    case none
    then have "out = (1, r_set (KEpoch b) (itoa 1) r)" using ret by (simp add: out_def reopen_script_def Let_def one_text)
    then show ?thesis using ret none set_effect(1,2) [OF assms(1), of 1] by (simp add: v_def)
  next
    case (some n)
    then have "out = (n, r)" using ret by (simp add: out_def reopen_script_def Let_def)
    then show ?thesis using ret some assms(1) by (auto simp: v_def intro: bview_eqI)
  qed
next
  case (some t)
  let ?e = "max t (bv_epoch v)"
  let ?r = "r_del (KRetired b) (r_set (KEpoch b) (itoa ?e) r)"
  have cur: "(case r_number r (KEpoch b) of None \<Rightarrow> t | Some e \<Rightarrow> if e < t then t else e) = ?e"
    using typed_counters(1) [OF assms(1)] some(1) by (cases rule: counter_cases) (auto simp: v_def max_def)
  then have "out = (?e, hide_bucket b ?r)" using some by (simp add: out_def reopen_script_def Let_def)
  moreover have "bucket_view ?r b = v\<lparr>bv_epoch := ?e, bv_retired := None\<rparr>" "typed ?r b"
    using set_effect(1,2) [OF assms(1), of ?e] set_effect(7,8) [of "r_set (KEpoch b) (itoa ?e) r" b 1] some(1) by (simp_all add: v_def)
  ultimately show ?thesis using hide_effect [of ?r b] some by (simp add: v_def)
qed

lemma drop_snap_effect:
  assumes "typed r b"
  shows "bucket_view (r_del (KSnap b (itoa n)) r) b = (bucket_view r b)\<lparr>bv_snap := (snap_entry r b)(n := None)\<rparr>" "typed (r_del (KSnap b (itoa n)) r) b"
  using assms by (auto intro!: view_eqI typedI [of r b] simp: number_or_zero_def snap_entry_def counter_entry_def itoa_inj typed_version [unfolded number_or_zero_def] split: if_splits)

definition activated :: "bview \<Rightarrow> int \<Rightarrow> gtime \<Rightarrow> bview" where
  "activated v n now = (let w = v\<lparr>bv_active := Some n\<rparr> in case bv_active v of None \<Rightarrow> w | Some c \<Rightarrow> if c = n then w
     else w\<lparr>bv_snap := (bv_snap v)(c := map_option (\<lambda>(z, _). (z, Some (now + grace_seconds * second))) (bv_snap v c))\<rparr>)"

lemma activate_effect:
  fixes r :: redis and b :: bucket and e n :: int
  assumes "typed r b" and "1 \<le> n" and "e \<noteq> 0"
  defines "v \<equiv> bucket_view r b" and "out \<equiv> activate_script b (itoa n) e r"
  shows "fst out = (if bv_retired v \<noteq> None then -1 else if bv_epoch v \<noteq> e then -2
      else if (\<exists>c. bv_active v = Some c \<and> n < c) then 0 else 1) \<and>
    bucket_view (snd out) b = (if fst out = 1 then activated v n (r_now r) else v\<lparr>bv_snap := (bv_snap v)(n := None)\<rparr>) \<and>
    typed (snd out) b"
  using typed_counters(2) [OF assms(1)]
proof (cases rule: counter_cases)
  case (some t)
  then show ?thesis using drop_snap_effect [OF assms(1), of n] by (simp add: out_def activate_script_def v_def)
next
  case none
  note ret = none
  show ?thesis
  proof (cases "r_number r (KEpoch b) = Some e")
    case False
    then have "number_or_zero r (KEpoch b) \<noteq> e" using assms(3) by (auto simp: number_or_zero_def split: option.splits)
    then show ?thesis using False ret drop_snap_effect [OF assms(1), of n] by (simp add: out_def activate_script_def v_def)
  next
    case True
    then have e: "number_or_zero r (KEpoch b) = e" by (simp add: number_or_zero_def)
    let ?r = "r_sadd KBuckets (bucket_string b) (r_set (KReady b) ''1'' (r_set (KActive b) (itoa n) r))"
    have up: "bucket_view ?r b = v\<lparr>bv_active := Some n\<rparr>" "typed ?r b"
      using assms(1,2) by (auto intro!: view_eqI typedI [of r b] simp: v_def number_or_zero_def snap_entry_def counter_entry_def typed_version [unfolded number_or_zero_def])
    from typed_counters(4) [OF assms(1)] show ?thesis
    proof (cases rule: counter_cases)
      case none
      then have "out = (1, ?r)" using True ret by (simp add: out_def activate_script_def Let_def)
      then show ?thesis using up ret e none by (simp add: v_def activated_def Let_def)
    next
      case (some c)
      show ?thesis
      proof (cases "n < c")
        case True
        then have "out = (0, r_del (KSnap b (itoa n)) r)"
          using some ret \<open>r_number r (KEpoch b) = Some e\<close> by (simp add: out_def activate_script_def Let_def)
        then show ?thesis using True ret e some drop_snap_effect [OF assms(1), of n] by (simp add: v_def)
      next
        case False
        then have out: "out = (1, if c = n then ?r else r_expire (KSnap b (itoa c)) grace_seconds ?r)"
          using some ret \<open>r_number r (KEpoch b) = Some e\<close> by (simp add: out_def activate_script_def Let_def itoa_inj)
        have snap: "snap_entry (r_expire (KSnap b (itoa c)) grace_seconds ?r) b m =
            (if m = c then map_option (\<lambda>(z, _). (z, Some (r_now r + grace_seconds * second))) (snap_entry r b c) else snap_entry r b m)" for m
          by (auto simp: snap_entry_def itoa_inj split: option.splits rval.splits)
        have "bucket_view (r_expire (KSnap b (itoa c)) grace_seconds ?r) b = (bucket_view ?r b)
            \<lparr>bv_snap := (bv_snap v)(c := map_option (\<lambda>(z, _). (z, Some (r_now r + grace_seconds * second))) (bv_snap v c))\<rparr>"
          by (rule view_eqI) (simp_all add: number_or_zero_def snap v_def)
        moreover have "typed (r_expire (KSnap b (itoa c)) grace_seconds ?r) b"
          by (rule typedI [OF up(2)]) (use typed_version [OF up(2)] in \<open>auto simp: number_or_zero_def split: if_splits option.splits\<close>)
        ultimately show ?thesis using False ret e some up unfolding out by (simp add: v_def activated_def Let_def)
      qed
    qed
  qed
qed

end
