(* ===== verification/Sched_Protocol.thy ===== *)
theory Sched_Protocol
  imports Sched_Effects
begin

text \<open>
  The protocol of the snapshot writers and readers. \<open>pub b\<close> holds the lists of accounts that some writer is to
  publish in bucket \<open>b\<close>. A program's ghost state says which version it writes and what it has written of
  it, which version it tried to activate, or which version it reads. The invariant of a bucket: the active version is stored whole,
  without an expiry; a version being written belongs to one writer and is not active; a version a reader was pointed to
  is whole or gone.
\<close>

datatype ghost = Idle
  | Writes bucket int int "(string \<times> nat) list option" "(string \<times> nat) list"
  | Tried bucket int int
  | Reads bucket int
  | Holds bucket "string list"

fun owns :: "ghost \<Rightarrow> (bucket \<times> int) option" where
  "owns (Writes b n e w p) = Some (b, n)"
| "owns (Tried b n e) = Some (b, n)"
| "owns _ = None"

section \<open>The content of a version\<close>

definition z_is :: "(string \<times> nat) list \<Rightarrow> (string \<times> nat) list \<Rightarrow> bool" where
  "z_is ms z \<longleftrightarrow> distinct (map fst z) \<and> map_of z = map_of (z_add ms [])"

definition stored :: "((string \<times> nat) list \<times> gtime option) option \<Rightarrow> (string \<times> nat) list \<Rightarrow> bool" where
  "stored en ms \<longleftrightarrow> (if ms = [] then en = None else (\<exists>z. en = Some (z, None) \<and> z_is ms z))"

definition whole_or_gone :: "int64 list set \<Rightarrow> ((string \<times> nat) list \<times> gtime option) option \<Rightarrow> bool" where
  "whole_or_gone ids en \<longleftrightarrow> (\<forall>z t. en = Some (z, t) \<longrightarrow> (\<exists>is\<in>ids. z_is (snapshot_members is) z))"

section \<open>The invariant\<close>

fun ghost_ok :: "int64 list set \<Rightarrow> bucket \<Rightarrow> bview \<Rightarrow> ghost \<Rightarrow> bool" where
  "ghost_ok ids b v Idle = True"
| "ghost_ok ids b v (Writes b' n e w p) = (b' = b \<longrightarrow> 1 \<le> n \<and> n \<le> bv_version v \<and> 1 \<le> e \<and> e \<le> bv_epoch v \<and>
     (bv_epoch v = e \<longrightarrow> bv_retired v = None) \<and> bv_active v \<noteq> Some n \<and>
     (\<forall>ms. w = Some ms \<longrightarrow> stored (bv_snap v n) ms \<or> p \<noteq> [] \<and> stored (bv_snap v n) (ms @ p)))"
| "ghost_ok ids b v (Tried b' n e) = (b' = b \<longrightarrow> 1 \<le> n \<and> n \<le> bv_version v \<and> 1 \<le> e \<and> e \<le> bv_epoch v \<and>
     (bv_epoch v = e \<longrightarrow> bv_retired v = None) \<and> (bv_active v = Some n \<longrightarrow> bv_epoch v = e) \<and>
     (e < bv_epoch v \<or> (\<exists>c\<ge>n. bv_active v = Some c)) \<and> whole_or_gone ids (bv_snap v n))"
| "ghost_ok ids b v (Reads b' n) = (b' = b \<longrightarrow> 1 \<le> n \<and> n \<le> bv_version v \<and> whole_or_gone ids (bv_snap v n))"
| "ghost_ok ids b v (Holds b' l) = (b' = b \<longrightarrow> l = [] \<or> (\<exists>is\<in>ids. l = map itoa (remdups is)))"

definition core_ok :: "int64 list set \<Rightarrow> bview \<Rightarrow> bool" where
  "core_ok ids v \<longleftrightarrow> 0 \<le> bv_epoch v \<and> 0 \<le> bv_version v \<and>
     (\<forall>t. bv_retired v = Some t \<longrightarrow> 1 \<le> t \<and> t \<le> bv_epoch v \<and> bv_active v = None) \<and>
     (\<forall>n. bv_active v = Some n \<longrightarrow> 1 \<le> n \<and> n \<le> bv_version v \<and> 1 \<le> bv_epoch v \<and> (\<exists>is\<in>ids. stored (bv_snap v n) (snapshot_members is))) \<and>
     (\<forall>n > bv_version v. bv_snap v n = None)"

definition ghosts_apart :: "ghost list \<Rightarrow> bool" where
  "ghosts_apart gs \<longleftrightarrow> (\<forall>i j. i < length gs \<longrightarrow> j < length gs \<longrightarrow> i \<noteq> j \<longrightarrow> owns (gs ! i) \<noteq> None \<longrightarrow> owns (gs ! i) \<noteq> owns (gs ! j)) \<and>
     (\<forall>b n e w p. Writes b n e w p \<in> set gs \<longrightarrow> Reads b n \<notin> set gs)"

definition bucket_ok :: "int64 list set \<Rightarrow> bucket \<Rightarrow> bview \<Rightarrow> ghost list \<Rightarrow> bool" where
  "bucket_ok ids b v gs \<longleftrightarrow> core_ok ids v \<and> (\<forall>g\<in>set gs. ghost_ok ids b v g)"

definition docs_ok :: "redis \<Rightarrow> bool" where
  "docs_ok r \<longleftrightarrow> (\<forall>i e. r_entry r (KMeta i) = Some e \<longrightarrow> (\<exists>a t. e = (RDoc a, t) \<and> itoa (sa_id a) = i))"

definition cache_inv :: "(bucket \<Rightarrow> int64 list set) \<Rightarrow> redis \<Rightarrow> ghost list \<Rightarrow> bool" where
  "cache_inv pub r gs \<longleftrightarrow> (\<forall>b. typed r b \<and> bucket_ok (pub b) b (bucket_view r b) gs) \<and> ghosts_apart gs \<and> docs_ok r"

section \<open>The rules of the protocol\<close>

definition free_key :: "rkey \<Rightarrow> bool" where
  "free_key k \<longleftrightarrow> (case k of KWatermark \<Rightarrow> True | KAcc _ \<Rightarrow> True | KLastUsed _ \<Rightarrow> True | KLock _ \<Rightarrow> True | KLease _ \<Rightarrow> True | _ \<Rightarrow> False)"

fun may :: "(bucket \<Rightarrow> int64 list set) \<Rightarrow> rcmd \<Rightarrow> ghost \<Rightarrow> bool" where
  "may pub (SetText k s) g = free_key k"
| "may pub (SetDoc k a) g = (free_key k \<or> k = KMeta (itoa (sa_id a)))"
| "may pub (SetNX k s d) g = free_key k"
| "may pub (Del ks) g = (\<forall>k\<in>set ks. free_key k \<or> (\<exists>i. k = KMeta i))"
| "may pub (ZAdd k ms) g = (ms \<noteq> [] \<and> (\<exists>b n e w p. g = Writes b n e w p \<and> k = KSnap b (itoa n) \<and> (p = [] \<or> p = ms)))"
| "may pub (Allocate b e) g = (g = Idle \<and> 1 \<le> e)"
| "may pub (Activate b v e) g = ((\<exists>n is. g = Writes b n e (Some (snapshot_members is)) [] \<and> v = itoa n \<and> is \<in> pub b) \<or> (\<exists>n. g = Tried b n e \<and> v = itoa n))"
| "may pub c g = True"

definition doc_for :: "rkey \<Rightarrow> rval option \<Rightarrow> bool" where
  "doc_for k v \<longleftrightarrow> (\<forall>i. k = KMeta i \<longrightarrow> v = None \<or> (\<exists>a. v = Some (RDoc a) \<and> itoa (sa_id a) = i))"

fun reply :: "(bucket \<Rightarrow> int64 list set) \<Rightarrow> rcmd \<Rightarrow> ghost \<Rightarrow> rreply \<Rightarrow> bool" where
  "reply pub (Get k) g x = (\<forall>b. k = KActive b \<longrightarrow> x = XErr \<or> x = XVal None \<or> (\<exists>n. x = XVal (Some (RText (itoa n)))))"
| "reply pub (MGet ks) g x = (x = XErr \<or> (\<exists>vs. x = XVals vs \<and> list_all2 doc_for ks vs))"
| "reply pub (Allocate b e) g x = (x = XErr \<or> (\<exists>n. x = XInt n \<and> (n = -1 \<or> n = -2 \<or> 1 \<le> n)))"
| "reply pub c g x = True"

fun upd :: "rcmd \<Rightarrow> rreply \<Rightarrow> ghost \<Rightarrow> ghost" where
  "upd (Get k) x g = (case (k, x, g) of (KActive b, XVal (Some (RText s)), Idle) \<Rightarrow> Reads b (the (lua_number s)) | _ \<Rightarrow> g)"
| "upd (ZRange k) x g = (case (x, g) of (XNames l, Reads b n) \<Rightarrow> if k = KSnap b (itoa n) then Holds b l else g | _ \<Rightarrow> g)"
| "upd (ZAdd k ms) x g = (case g of Writes b n e w p \<Rightarrow> Writes b n e (if x = XErr then None else map_option (\<lambda>ws. ws @ ms) w) [] | _ \<Rightarrow> g)"
| "upd (Allocate b e) x g = (case x of XInt n \<Rightarrow> if 1 \<le> n then Writes b n e (Some []) [] else Idle | _ \<Rightarrow> Idle)"
| "upd (Activate b v e) x g = Idle"
| "upd c x g = g"

fun again :: "rcmd \<Rightarrow> ghost \<Rightarrow> ghost" where
  "again (ZAdd k ms) g = (case g of Writes b n e w p \<Rightarrow> Writes b n e w ms | _ \<Rightarrow> g)"
| "again (Activate b v e) g = (case g of Writes b' n e' w p \<Rightarrow> Tried b' n e' | _ \<Rightarrow> g)"
| "again c g = g"

section \<open>Sorted sets\<close>

lemma z_add_Cons: "z_add ((m, sc) # ms) z = z_add ms (gm_put m sc z)"
  by (simp add: z_add_def)

lemma z_add_append: "z_add (ms @ ms') z = z_add ms' (z_add ms z)"
  by (simp add: z_add_def)

lemma z_add_map: "map_of (z_add ms z) = map_of z ++ map_of (rev ms)"
proof (induction ms arbitrary: z)
  case (Cons a ms)
  then show ?case by (cases a) (auto simp: z_add_Cons update_conv' fun_eq_iff map_add_def split: option.splits)
qed (simp add: z_add_def)

lemma z_add_distinct: "distinct (map fst z) \<Longrightarrow> distinct (map fst (z_add ms z))"
  by (induction ms arbitrary: z) (auto simp: z_add_def distinct_update split: prod.splits)

lemma z_is_add: "z_is ws z \<Longrightarrow> z_is (ws @ ms) (z_add ms z)"
  by (simp add: z_is_def z_add_distinct z_add_append z_add_map)

lemma z_is_again: "z_is (ws @ ms) z \<Longrightarrow> z_is (ws @ ms) (z_add ms z)"
  by (auto simp: z_is_def z_add_distinct z_add_append z_add_map fun_eq_iff map_add_def split: option.splits)

lemma z_is_Nil: "z_is ms (z_add ms [])"
  by (simp add: z_is_def z_add_distinct)

section \<open>The scripts keep the invariant of their bucket\<close>

lemma whole_expire [simp]: "whole_or_gone ids (map_option (\<lambda>(z, _). (z, t)) en) = whole_or_gone ids en"
  by (cases en) (auto simp: whole_or_gone_def)

lemma whole_none [simp]: "whole_or_gone ids None"
  by (simp add: whole_or_gone_def)

lemma stored_whole: "is \<in> ids \<Longrightarrow> stored en (snapshot_members is) \<Longrightarrow> whole_or_gone ids en"
  by (auto simp: stored_def whole_or_gone_def split: if_splits)

lemma active_whole: "core_ok ids v \<Longrightarrow> bv_active v = Some n \<Longrightarrow> whole_or_gone ids (bv_snap v n)"
  by (auto simp: core_ok_def intro: stored_whole)

lemma capture_keeps:
  assumes "core_ok ids v" and "v' = (if bv_retired v = None then v\<lparr>bv_epoch := max 1 (bv_epoch v)\<rparr> else v)"
  shows "core_ok ids v'" and "ghost_ok ids b v g \<Longrightarrow> ghost_ok ids b v' g"
proof -
  have v: "v' = v \<or> bv_epoch v = 0 \<and> v' = v\<lparr>bv_epoch := 1\<rparr> \<and> bv_retired v = None" using assms by (auto simp: core_ok_def max_def)
  show "core_ok ids v'"
  proof (cases "v' = v")
    case False
    then have 0: "bv_epoch v = 0" "v' = v\<lparr>bv_epoch := 1\<rparr>" "bv_retired v = None" using v by auto
    then have "bv_active v = None" using assms(1) by (cases "bv_active v") (auto simp: core_ok_def)
    then show ?thesis using 0 assms(1) by (simp add: core_ok_def)
  qed (use assms(1) in simp)
  show "ghost_ok ids b v g \<Longrightarrow> ghost_ok ids b v' g" using v by (cases g) auto
qed

lemma epoch_raise_keeps:
  assumes "core_ok ids v" and "bv_epoch v < bv_epoch v'" and "bv_version v' = bv_version v" and "bv_active v' = None"
    and "\<And>n. bv_snap v' n = bv_snap (hidden v now) n"
  shows "ghost_ok ids b v g \<Longrightarrow> ghost_ok ids b v' g"
  using assms by (cases g) auto

lemma retire_keeps:
  assumes "core_ok ids v" and "v' = (hidden v now)\<lparr>bv_epoch := (case bv_retired v of None \<Rightarrow> bv_epoch v + 1 | Some t \<Rightarrow> if bv_epoch v = 0 then t else bv_epoch v),
    bv_retired := Some (case bv_retired v of None \<Rightarrow> bv_epoch v + 1 | Some t \<Rightarrow> t)\<rparr>"
  shows "core_ok ids v'" and "ghost_ok ids b v g \<Longrightarrow> ghost_ok ids b v' g"
proof -
  show "core_ok ids v'" using assms by (auto simp: core_ok_def split: option.splits)
  assume g: "ghost_ok ids b v g"
  show "ghost_ok ids b v' g"
  proof (cases "bv_retired v")
    case None
    then show ?thesis using assms(2) by (intro epoch_raise_keeps [where now = now, OF assms(1) _ _ _ _ g]) simp_all
  next
    case (Some t)
    then have "bv_active v = None" "1 \<le> bv_epoch v" using assms(1) by (auto simp: core_ok_def)
    then have "v' = v" using Some assms(2) by (auto intro: bview_eqI)
    with g show ?thesis by simp
  qed
qed

lemma reopen_keeps:
  assumes "core_ok ids v" and "e = (case bv_retired v of None \<Rightarrow> max 1 (bv_epoch v) | Some t \<Rightarrow> max t (bv_epoch v))"
    and "v' = (if bv_retired v = None then v\<lparr>bv_epoch := e\<rparr> else (hidden v now)\<lparr>bv_epoch := e, bv_retired := None\<rparr>)"
  shows "core_ok ids v'" and "ghost_ok ids b v g \<Longrightarrow> ghost_ok ids b v' g"
proof -
  have "core_ok ids v' \<and> (ghost_ok ids b v g \<longrightarrow> ghost_ok ids b v' g)"
  proof (cases "bv_retired v")
    case None
    then have "v' = (if bv_retired v = None then v\<lparr>bv_epoch := max 1 (bv_epoch v)\<rparr> else v)" using assms by simp
    then show ?thesis using capture_keeps [OF assms(1)] by blast
  next
    case (Some t)
    then have "bv_active v = None" "t \<le> bv_epoch v" "1 \<le> bv_epoch v" using assms(1) by (auto simp: core_ok_def)
    then have "v' = v\<lparr>bv_retired := None\<rparr>" using Some assms(2,3) by (auto intro: bview_eqI)
    then show ?thesis using assms(1) Some by (cases g) (auto simp: core_ok_def)
  qed
  then show "core_ok ids v'" and "ghost_ok ids b v g \<Longrightarrow> ghost_ok ids b v' g" by blast+
qed

lemma allocate_keeps:
  assumes "core_ok ids v" and "v' = v\<lparr>bv_version := bv_version v + 1\<rparr>"
  shows "core_ok ids v'" and "ghost_ok ids b v g \<Longrightarrow> ghost_ok ids b v' g"
    and "bv_retired v = None \<Longrightarrow> 1 \<le> bv_epoch v \<Longrightarrow> ghost_ok ids b v' (Writes b (bv_version v + 1) (bv_epoch v) (Some []) [])"
proof -
  show "core_ok ids v'" using assms by (auto simp: core_ok_def)
  show "ghost_ok ids b v g \<Longrightarrow> ghost_ok ids b v' g" using assms(2) by (cases g) auto
  show "bv_retired v = None \<Longrightarrow> 1 \<le> bv_epoch v \<Longrightarrow> ghost_ok ids b v' (Writes b (bv_version v + 1) (bv_epoch v) (Some []) [])"
    using assms by (auto simp: core_ok_def stored_def)
qed

definition ready_to_try :: "int64 list set \<Rightarrow> bucket \<Rightarrow> int \<Rightarrow> int \<Rightarrow> ghost \<Rightarrow> bool" where
  "ready_to_try ids b n e g \<longleftrightarrow> (\<exists>is\<in>ids. g = Writes b n e (Some (snapshot_members is)) []) \<or> g = Tried b n e"

lemma activate_keeps:
  assumes core: "core_ok ids v" and g: "ready_to_try ids b n e g" "ghost_ok ids b v g"
    and x: "x = (if bv_retired v \<noteq> None then -1 else if bv_epoch v \<noteq> e then -2 else if (\<exists>c. bv_active v = Some c \<and> n < c) then 0 else (1 :: int))"
    and v': "v' = (if x = 1 then activated v n now else v\<lparr>bv_snap := (bv_snap v)(n := None)\<rparr>)"
  shows "core_ok ids v'" and "ghost_ok ids b v' (Tried b n e)"
    and "ghost_ok ids b v h \<Longrightarrow> owns h \<noteq> Some (b, n) \<Longrightarrow> ghost_ok ids b v' h"
proof -
  have n: "1 \<le> n" "n \<le> bv_version v" "1 \<le> e" "e \<le> bv_epoch v" "bv_epoch v = e \<Longrightarrow> bv_retired v = None"
    using g by (auto simp: ready_to_try_def)
  have all: "core_ok ids v' \<and> ghost_ok ids b v' (Tried b n e) \<and> (ghost_ok ids b v h \<and> owns h \<noteq> Some (b, n) \<longrightarrow> ghost_ok ids b v' h)"
  proof (cases "x = 1")
    case False
    then have v: "v' = v\<lparr>bv_snap := (bv_snap v)(n := None)\<rparr>" using v' by simp
    have act: "bv_active v \<noteq> Some n"
    proof
      assume a: "bv_active v = Some n"
      then have "g = Tried b n e" using g by (auto simp: ready_to_try_def)
      then have "bv_epoch v = e" using g(2) a by simp
      then show False using False n(5) a unfolding x by (simp split: if_splits)
    qed
    moreover have "e < bv_epoch v \<or> (\<exists>c\<ge>n. bv_active v = Some c)" using False n(4,5) unfolding x by (auto split: if_splits)
    moreover have "core_ok ids v'" using core act unfolding v by (simp add: core_ok_def)
    moreover have "ghost_ok ids b v' h" if "ghost_ok ids b v h" "owns h \<noteq> Some (b, n)"
      using that act unfolding v by (cases h) auto
    ultimately show ?thesis using n unfolding v by simp
  next
    case True
    then have ep: "bv_epoch v = e" "bv_retired v = None" "\<And>c. bv_active v = Some c \<Longrightarrow> c \<le> n" unfolding x by (auto split: if_splits)
    have whole: "\<exists>is\<in>ids. stored (bv_snap v n) (snapshot_members is)"
      using g(1)
      unfolding ready_to_try_def
    proof
      assume "\<exists>is\<in>ids. g = Writes b n e (Some (snapshot_members is)) []"
      then show ?thesis using g(2) by auto
    next
      assume "g = Tried b n e"
      then obtain c where "bv_active v = Some c" "n \<le> c" using g(2) ep(1) by auto
      moreover from this have "c = n" using ep(3) by auto
      ultimately show ?thesis using core by (auto simp: core_ok_def)
    qed
    have v: "v' = activated v n now" using True v' by simp
    have sel: "bv_epoch v' = e" "bv_retired v' = None" "bv_version v' = bv_version v" "bv_active v' = Some n"
      and snap: "bv_snap v' m = bv_snap v m \<or> m \<noteq> n \<and> bv_active v = Some m \<and> bv_snap v' m = map_option (\<lambda>(z, _). (z, Some (now + grace_seconds * second))) (bv_snap v m)" for m
      using ep unfolding v by (auto simp: activated_def Let_def split: option.splits)
    have snap_n: "bv_snap v' n = bv_snap v n" using snap [of n] by auto
    have gone: "bv_snap v' m = None" if "bv_version v < m" for m using core snap [of m] that by (auto simp: core_ok_def)
    have "core_ok ids v'"
      using core n(1-4) whole ep(1) gone by (simp add: core_ok_def sel snap_n)
    moreover have "ghost_ok ids b v' (Tried b n e)"
      using n sel whole snap [of n] stored_whole by auto
    moreover have "ghost_ok ids b v' h" if h: "ghost_ok ids b v h" "owns h \<noteq> Some (b, n)"
    proof -
      have wg: "whole_or_gone ids (bv_snap v' m)" if "whole_or_gone ids (bv_snap v m)" for m using snap [of m] that by auto
      show ?thesis
      proof (cases h)
        case (Writes b' m e' w p)
        then show ?thesis using h ep sel snap [of m] by auto
      next
        case (Tried b' m e')
        then show ?thesis using h ep sel wg by fastforce
      qed (use h sel wg in auto)
    qed
    ultimately show ?thesis by blast
  qed
  then show "core_ok ids v'" and "ghost_ok ids b v' (Tried b n e)" and "ghost_ok ids b v h \<Longrightarrow> owns h \<noteq> Some (b, n) \<Longrightarrow> ghost_ok ids b v' h"
    by blast+
qed

end
