(* ===== verification/Sched_Safe.thy ===== *)
theory Sched_Safe
  imports Sched_Protocol
begin

text \<open>
  Every command that the protocol allows keeps the invariant, whether its reply arrives, is lost, or the command
  fails: the interpretation of \<open>discipline\<close> on the server, its scripts and the ghost states.
\<close>

section \<open>Framing\<close>

lemma view_same: "same_bucket r r' b \<Longrightarrow> bucket_view r' b = bucket_view r b" "same_bucket r r' b \<Longrightarrow> typed r' b = typed r b"
  by (simp_all add: same_bucket_view)

lemma cache_inv_frame:
  assumes "cache_inv pub r gs" and "\<And>b. same_bucket r r' b" and "docs_ok r'"
  shows "cache_inv pub r' gs"
  using assms by (simp add: cache_inv_def view_same [OF assms(2)])

lemma cache_inv_script:
  assumes "cache_inv pub r gs" and "\<And>b'. b' \<noteq> b \<Longrightarrow> same_bucket r r' b'" and "\<And>i. r_entry r' (KMeta i) = r_entry r (KMeta i)"
    and "typed r' b" and "core_ok (pub b) (bucket_view r' b)" and "\<And>g. g \<in> set gs' \<Longrightarrow> ghost_ok (pub b) b (bucket_view r' b) g"
    and "\<And>g b'. g \<in> set gs' \<Longrightarrow> b' \<noteq> b \<Longrightarrow> ghost_ok (pub b') b' (bucket_view r b') g" and "ghosts_apart gs'"
  shows "cache_inv pub r' gs'"
proof -
  have "typed r' b' \<and> bucket_ok (pub b') b' (bucket_view r' b') gs'" for b'
  proof (cases "b' = b")
    case True
    then show ?thesis using assms(4-6) by (simp add: bucket_ok_def)
  next
    case False
    then have "bucket_view r' b' = bucket_view r b'" "typed r' b' = typed r b'" using view_same [OF assms(2)] by auto
    then show ?thesis using assms(1,7) False by (auto simp: cache_inv_def bucket_ok_def)
  qed
  moreover have "docs_ok r'" using assms(1,3) by (simp add: cache_inv_def docs_ok_def)
  ultimately show ?thesis using assms(8) by (simp add: cache_inv_def)
qed

lemma cache_invD:
  assumes "cache_inv pub r gs"
  shows "typed r b" "core_ok (pub b) (bucket_view r b)" "g \<in> set gs \<Longrightarrow> ghost_ok (pub b) b (bucket_view r b) g"
    "ghosts_apart gs" "docs_ok r"
  using assms by (simp_all add: cache_inv_def bucket_ok_def)

section \<open>One ghost changes\<close>

definition lesser :: "ghost list \<Rightarrow> nat \<Rightarrow> ghost \<Rightarrow> bool" where
  "lesser gs i g' \<longleftrightarrow> (owns g' = None \<or> owns g' = owns (gs ! i) \<or> (\<forall>g\<in>set gs. owns g \<noteq> owns g')) \<and>
     (\<forall>b n e w p. g' = Writes b n e w p \<longrightarrow> (\<exists>e w p. gs ! i = Writes b n e w p) \<or> Reads b n \<notin> set gs) \<and>
     (\<forall>b n. g' = Reads b n \<longrightarrow> (\<forall>e w p. Writes b n e w p \<notin> set gs))"

lemma apart_update:
  assumes "ghosts_apart gs" and "i < length gs" and "lesser gs i g'"
  shows "ghosts_apart (gs[i := g'])"
proof -
  have sub: "set (gs[i := g']) \<subseteq> insert g' (set gs)" by (rule set_update_subset_insert)
  have own: "owns (gs[i := g'] ! j) \<noteq> owns (gs[i := g'] ! k)"
    if "j < length gs" "k < length gs" "j \<noteq> k" "owns (gs[i := g'] ! j) \<noteq> None" for j k
  proof -
    have at: "\<And>j k. j < length gs \<Longrightarrow> k < length gs \<Longrightarrow> j \<noteq> k \<Longrightarrow> owns (gs ! j) \<noteq> None \<Longrightarrow> owns (gs ! j) \<noteq> owns (gs ! k)"
      using assms(1) by (auto simp: ghosts_apart_def)
    have new: "owns g' = None \<or> owns g' = owns (gs ! i) \<or> (\<forall>g\<in>set gs. owns g \<noteq> owns g')" using assms(3) by (simp add: lesser_def)
    consider "j = i" | "k = i" | "j \<noteq> i" "k \<noteq> i" by blast
    then show ?thesis
    proof cases
      case 1
      then have "k \<noteq> i" using that by simp
      then show ?thesis using new that 1 at [of i k] by (auto simp: assms(2))
    next
      case 2
      then have "j \<noteq> i" using that by simp
      then show ?thesis using new that 2 at [of j i] by (auto simp: assms(2))
    next
      case 3
      then show ?thesis using that at by simp
    qed
  qed
  moreover have "Reads b n \<notin> set (gs[i := g'])" if w: "Writes b n e w p \<in> set (gs[i := g'])" for b n e w p
  proof
    assume r: "Reads b n \<in> set (gs[i := g'])"
    have old: "\<not> (Writes b n e w p \<in> set gs \<and> Reads b n \<in> set gs)" for e w p using assms(1) unfolding ghosts_apart_def by blast
    show False
    proof (cases "g' = Reads b n")
      case True
      then have "Writes b n e w p \<in> set gs" using w sub by auto
      then show False using assms(3) True by (auto simp: lesser_def)
    next
      case False
      then have rd: "Reads b n \<in> set gs" using r sub by auto
      then have "g' = Writes b n e w p" using w sub old by blast
      then obtain e w p where "gs ! i = Writes b n e w p" using assms(3) rd by (auto simp: lesser_def)
      then show False using old rd assms(2) nth_mem by metis
    qed
  qed
  ultimately show ?thesis by (auto simp: ghosts_apart_def)
qed

lemma cache_inv_ghost:
  assumes "cache_inv pub r gs" and "i < length gs" and "\<And>b. ghost_ok (pub b) b (bucket_view r b) g'" and "lesser gs i g'"
  shows "cache_inv pub r (gs[i := g'])"
  using assms apart_update [OF _ assms(2,4)] set_update_subset_insert [of gs i g']
  unfolding cache_inv_def bucket_ok_def by blast

section \<open>Reading\<close>

lemma read_active:
  assumes inv: "cache_inv pub r gs" and i: "i < length gs"
  shows "reply pub (Get k) (gs ! i) (XVal (plain_value (r_look r k)))"
    and "cache_inv pub r (gs[i := upd (Get k) (XVal (plain_value (r_look r k))) (gs ! i)])"
proof -
  have act: "XVal (plain_value (r_look r (KActive b))) = (case bv_active (bucket_view r b) of None \<Rightarrow> XVal None | Some n \<Rightarrow> XVal (Some (RText (itoa n))))" for b
    using typed_counters(4) [OF cache_invD(1) [OF inv, of b]]
    by (cases rule: counter_cases) (auto simp: r_look_def plain_value_def)
  then show "reply pub (Get k) (gs ! i) (XVal (plain_value (r_look r k)))" by (auto split: option.splits)
  show "cache_inv pub r (gs[i := upd (Get k) (XVal (plain_value (r_look r k))) (gs ! i)])"
  proof (cases "\<exists>b n. k = KActive b \<and> bv_active (bucket_view r b) = Some n \<and> gs ! i = Idle")
    case True
    then obtain b n where k: "k = KActive b" "bv_active (bucket_view r b) = Some n" "gs ! i = Idle" by blast
    have core: "core_ok (pub b) (bucket_view r b)" using inv by (rule cache_invD)
    then have n: "1 \<le> n" "n \<le> bv_version (bucket_view r b)" "whole_or_gone (pub b) (bv_snap (bucket_view r b) n)"
      using active_whole [OF core k(2)] k(2) by (auto simp: core_ok_def)
    have "lesser gs i (Reads b n)"
      using cache_invD(3) [OF inv, of _ b] k(2) by (fastforce simp: lesser_def)
    then have "cache_inv pub r (gs[i := Reads b n])" using n by (intro cache_inv_ghost [OF inv i]) auto
    then show ?thesis using k by (simp add: act)
  next
    case False
    then have "upd (Get k) (XVal (plain_value (r_look r k))) (gs ! i) = gs ! i"
      by (cases k; cases "gs ! i") (auto simp: act split: option.splits rval.splits)
    then show ?thesis using inv by simp
  qed
qed

fun last_places :: "nat \<Rightarrow> int64 list \<Rightarrow> (nat \<times> string) list" where
  "last_places k [] = []"
| "last_places k (x # xs) = (if x \<in> set xs then last_places (Suc k) xs else (k, itoa x) # last_places (Suc k) xs)"

lemma last_places_names: "map snd (last_places k is) = map itoa (remdups is)"
  by (induction "is" arbitrary: k) auto

lemma last_places_from: "(p, m) \<in> set (last_places k is) \<Longrightarrow> k \<le> p"
  by (induction "is" arbitrary: k) (fastforce split: if_splits)+

lemma last_places_sorted: "sorted (last_places k is) \<and> distinct (last_places k is)"
proof (induction "is" arbitrary: k)
  case (Cons x xs)
  have "(k, itoa x) < y" if "y \<in> set (last_places (Suc k) xs)" for y
    using that last_places_from [of "fst y" "snd y" "Suc k" xs] by (cases y) (auto simp: less_prod_def)
  then show ?case using Cons.IH [of "Suc k"] by (fastforce simp: less_le_not_le)
qed simp

lemma last_places_map:
  "(p, m) \<in> set (last_places k is) \<longleftrightarrow> map_of (rev (zip (map itoa is) [k ..< k + length is])) m = Some p"
proof (induction "is" arbitrary: k p m)
  case (Cons x xs)
  define M where "M = map_of (rev (zip (map itoa xs) [Suc k ..< Suc k + length xs]))"
  have dom: "M (itoa x) = None \<longleftrightarrow> x \<notin> set xs"
    unfolding M_def by (force simp: map_of_eq_None_iff set_zip in_set_conv_nth itoa_inj)
  have ih: "(p, m) \<in> set (last_places (Suc k) xs) \<longleftrightarrow> M m = Some p" for p m
    using Cons.IH [of p m "Suc k"] by (simp only: M_def)
  have "[k ..< k + length (x # xs)] = k # [Suc k ..< Suc k + length xs]"
    using upt_conv_Cons [of k "k + length (x # xs)"] by simp
  then have "map_of (rev (zip (map itoa (x # xs)) [k ..< k + length (x # xs)])) m = (case M m of Some p \<Rightarrow> Some p | None \<Rightarrow> if m = itoa x then Some k else None)"
    unfolding M_def by (simp only: list.map zip_Cons_Cons rev.simps map_of_append map_add_def) (auto split: option.splits)
  then show ?case unfolding last_places.simps using dom by (auto simp: ih split: option.splits)
qed simp

text \<open>\<open>ZRANGE\<close> of a whole version lists the accounts once each, in the order of their last places.\<close>

lemma z_range_is:
  assumes "z_is (snapshot_members is) z"
  shows "z_range z = map itoa (remdups is)"
proof -
  let ?l = "last_places 0 is"
  have z: "distinct (map fst z)" "map_of z = map_of (rev (zip (map itoa is) [0 ..< length is]))"
    using assms by (simp_all add: z_is_def z_add_map snapshot_members_def)
  have "set (map (\<lambda>(m, sc). (sc, m)) z) = set ?l"
  proof -
    have "(p, m) \<in> set (map (\<lambda>(m, sc). (sc, m)) z) \<longleftrightarrow> (p, m) \<in> set ?l" for p m
    proof -
      have "(p, m) \<in> set (map (\<lambda>(m, sc). (sc, m)) z) \<longleftrightarrow> (m, p) \<in> set z" by auto
      also have "\<dots> \<longleftrightarrow> map_of z m = Some p" using z(1) by simp
      finally show ?thesis using z(2) last_places_map [of p m 0 "is"] by simp
    qed
    then show ?thesis by (intro set_eqI) (metis surj_pair)
  qed
  moreover have "distinct (map (\<lambda>(m, sc). (sc, m)) z)"
    using z(1) by (auto simp: distinct_map inj_on_def)
  ultimately have "sort (map (\<lambda>(m, sc). (sc, m)) z) = ?l"
    using last_places_sorted [of 0 "is"] by (intro sorted_distinct_set_unique) auto
  then show ?thesis by (simp add: z_range_def last_places_names)
qed

lemma read_version:
  assumes inv: "cache_inv pub r gs" and i: "i < length gs"
  shows "cache_inv pub r (gs[i := upd (ZRange k) (XNames (z_range (r_zset r k))) (gs ! i)])"
proof (cases "\<exists>b n. gs ! i = Reads b n \<and> k = KSnap b (itoa n)")
  case True
  then obtain b n where k: "gs ! i = Reads b n" "k = KSnap b (itoa n)" by blast
  have "ghost_ok (pub b) b (bucket_view r b) (Reads b n)" using cache_invD(3) [OF inv] k(1) i by (metis nth_mem)
  then have "whole_or_gone (pub b) (snap_entry r b n)" by simp
  moreover have "z_range (r_zset r k) = (case snap_entry r b n of None \<Rightarrow> [] | Some (z, t) \<Rightarrow> z_range z)"
    by (auto simp: snap_entry_def r_zset_def r_look_def k(2) z_range_def split: option.splits rval.splits)
  ultimately have "z_range (r_zset r k) = [] \<or> (\<exists>is\<in>pub b. z_range (r_zset r k) = map itoa (remdups is))"
    using z_range_is by (fastforce simp: whole_or_gone_def split: option.splits)
  then show ?thesis using k by (auto intro!: cache_inv_ghost [OF inv i] simp: lesser_def)
next
  case False
  then have "upd (ZRange k) (XNames (z_range (r_zset r k))) (gs ! i) = gs ! i" by (cases "gs ! i") auto
  with inv show ?thesis by simp
qed

lemma read_docs:
  assumes "cache_inv pub r gs"
  shows "reply pub (MGet ks) g (XVals (map (\<lambda>k. plain_value (r_look r k)) ks))"
proof -
  have "doc_for k (plain_value (r_look r k))" for k
    using cache_invD(5) [OF assms] by (cases "r_entry r k") (force simp: docs_ok_def doc_for_def plain_value_def r_look_def)+
  then show ?thesis by (simp add: list_all2_conv_all_nth)
qed

section \<open>Writing outside the buckets\<close>

definition loose :: "rkey \<Rightarrow> bool" where "loose k \<longleftrightarrow> free_key k \<or> (\<exists>i. k = KMeta i)"

lemma loose_simps [simp]: "loose (KMeta i)" "loose (KLastUsed i)" "loose (KLease g)" "free_key k \<Longrightarrow> loose k"
  by (auto simp: loose_def free_key_def)

lemma free_frame:
  assumes "\<And>k. \<not> loose k \<Longrightarrow> r_entry r' k = r_entry r k"
  shows "same_bucket r r' b"
  unfolding same_bucket_def by (auto intro!: assms [symmetric] simp: loose_def free_key_def)

lemma last_used_only:
  assumes "\<And>i. k \<noteq> KLastUsed i"
  shows "r_entry (snd (last_used_script us r)) k = r_entry r k"
  using assms by (induction us r rule: last_used_script.induct) (auto split: prod.splits if_splits)

lemma del_entries: "r_entry (fold r_del ks r) k = (if k \<in> set ks then None else r_entry r k)"
  by (induction ks arbitrary: r) auto

fun free_cmd :: "rcmd \<Rightarrow> bool" where
  "free_cmd (SetText k s) = True"
| "free_cmd (SetDoc k a) = True"
| "free_cmd (SetNX k s d) = True"
| "free_cmd (Del ks) = True"
| "free_cmd (Release g s) = True"
| "free_cmd (LastUsed us) = True"
| "free_cmd c = False"

lemma free_entries:
  assumes "free_cmd c" and may: "may pub c g" and k: "\<not> loose k"
  shows "r_entry (snd (r_exec c r)) k = r_entry r k"
proof -
  have lu: "k \<noteq> KLastUsed i" "k \<noteq> KLease g" for i g using k by auto
  have "\<forall>l\<in>set ks. loose l \<Longrightarrow> k \<notin> set ks" for ks using k by blast
  then show ?thesis using assms(1) may lu last_used_only [OF lu(1)] k
    by (cases c) (auto simp: with_int_def release_script_def del_entries loose_def [symmetric] split: if_splits)
qed

lemma free_command:
  assumes inv: "cache_inv pub r gs" and c: "free_cmd c" and may: "may pub c g"
  shows "cache_inv pub (snd (r_exec c r)) gs"
proof -
  have "docs_ok (snd (r_exec c r))"
    using c may cache_invD(5) [OF inv]
    by (cases c) (auto simp: with_int_def release_script_def del_entries docs_ok_def free_key_def last_used_only split: if_splits)
  then show ?thesis by (intro cache_inv_frame [OF inv] free_frame free_entries [OF c may])
qed

lemma free_same: "free_cmd c \<Longrightarrow> reply pub c g x \<and> upd c x g = g \<and> again c g = g"
  by (cases c) auto

section \<open>Writing to a bucket\<close>

lemma update_member:
  assumes "g \<in> set (gs[i := g'])" and "i < length gs"
  obtains "g = g'" | j where "j < length gs" "j \<noteq> i" "g = gs ! j"
  using assms by (auto simp: in_set_conv_nth nth_list_update split: if_splits)

lemma apartD: "ghosts_apart gs \<Longrightarrow> i < length gs \<Longrightarrow> j < length gs \<Longrightarrow> i \<noteq> j \<Longrightarrow> owns (gs ! i) = Some k \<Longrightarrow> owns (gs ! j) \<noteq> Some k"
  by (force simp: ghosts_apart_def)

lemma meta_not_bucket: "KMeta i \<notin> bucket_keys b"
  by (auto simp: bucket_keys_def)

fun ghost_bucket :: "ghost \<Rightarrow> bucket option" where
  "ghost_bucket Idle = None"
| "ghost_bucket (Writes b n e w p) = Some b"
| "ghost_bucket (Tried b n e) = Some b"
| "ghost_bucket (Reads b n) = Some b"
| "ghost_bucket (Holds b l) = Some b"

lemma ghost_elsewhere: "ghost_bucket g \<in> {None, Some b} \<Longrightarrow> b' \<noteq> b \<Longrightarrow> ghost_ok ids b' v g"
  by (cases g) auto

text \<open>A script on bucket \<open>b\<close> by program \<open>i\<close>, whose ghost then concerns only \<open>b\<close>.\<close>

lemma bucket_command:
  assumes inv: "cache_inv pub r gs" and i: "i < length gs"
    and other: "\<And>b'. b' \<noteq> b \<Longrightarrow> same_bucket r r' b'" and meta: "\<And>i. r_entry r' (KMeta i) = r_entry r (KMeta i)"
    and ty: "typed r' b" and core: "core_ok (pub b) (bucket_view r' b)"
    and g': "ghost_bucket g' \<in> {None, Some b}" "ghost_ok (pub b) b (bucket_view r' b) g'"
    and rest: "\<And>j. j < length gs \<Longrightarrow> j \<noteq> i \<Longrightarrow> ghost_ok (pub b) b (bucket_view r b) (gs ! j) \<Longrightarrow> ghost_ok (pub b) b (bucket_view r' b) (gs ! j)"
    and less: "lesser gs i g'"
  shows "cache_inv pub r' (gs[i := g'])"
proof (rule cache_inv_script [OF inv other meta ty core])
  show "ghosts_apart (gs[i := g'])" using apart_update [OF _ i less] cache_invD(4) [OF inv] by blast
  show "ghost_ok (pub b) b (bucket_view r' b) g" if "g \<in> set (gs[i := g'])" for g
    using that i
  proof (cases rule: update_member)
    case (2 j)
    then show ?thesis using rest [of j] cache_invD(3) [OF inv, of "gs ! j" b] by simp
  qed (use g' in simp)
  show "ghost_ok (pub b') b' (bucket_view r b') g" if "g \<in> set (gs[i := g'])" "b' \<noteq> b" for g b'
    using that(1) i
  proof (cases rule: update_member)
    case (2 j)
    then show ?thesis using cache_invD(3) [OF inv, of "gs ! j" b'] by simp
  qed (use g' that(2) ghost_elsewhere in blast)
qed auto

lemma lesser_same [simp]: "lesser gs i (gs ! i)"
  if "ghosts_apart gs" "i < length gs"
  using that by (auto simp: lesser_def ghosts_apart_def) (metis nth_mem)+

lemma zadd_content:
  assumes "stored en ws \<or> p \<noteq> [] \<and> stored en (ws @ p)" and "p = [] \<or> p = ms" and "ms \<noteq> []"
  shows "stored (Some (z_add ms (case en of None \<Rightarrow> [] | Some (z, _) \<Rightarrow> z), case en of None \<Rightarrow> None | Some (_, t) \<Rightarrow> t)) (ws @ ms)"
  using assms z_is_add z_is_again z_is_Nil [of ms] by (fastforce simp: stored_def split: if_splits)

lemma bucket_command_same:
  assumes inv: "cache_inv pub r gs" and other: "\<And>b'. b' \<noteq> b \<Longrightarrow> same_bucket r r' b'"
    and meta: "\<And>i. r_entry r' (KMeta i) = r_entry r (KMeta i)" and ty: "typed r' b" and core: "core_ok (pub b) (bucket_view r' b)"
    and keep: "\<And>g. ghost_ok (pub b) b (bucket_view r b) g \<Longrightarrow> ghost_ok (pub b) b (bucket_view r' b) g"
  shows "cache_inv pub r' gs"
  by (rule cache_inv_script [OF inv other meta ty core]) (use keep cache_invD(3,4) [OF inv] in auto)

lemma exec_capture:
  assumes inv: "cache_inv pub r gs"
  shows "cache_inv pub (snd (capture_script b r)) gs"
proof -
  note eff = capture_effect [OF cache_invD(1) [OF inv, of b]]
  note keep = capture_keeps [OF cache_invD(2) [OF inv, of b] eff(2)]
  show ?thesis
    by (rule bucket_command_same [OF inv _ _ eff(3) keep(1) keep(2)]) (auto intro: script_local script_footprint(1) [OF meta_not_bucket])
qed

lemma exec_retire: "cache_inv pub r gs \<Longrightarrow> cache_inv pub (snd (retire_script b r)) gs"
proof -
  assume inv: "cache_inv pub r gs"
  have eff: "bucket_view (snd (retire_script b r)) b = (hidden (bucket_view r b) (r_now r))\<lparr>bv_epoch := (case bv_retired (bucket_view r b) of
      None \<Rightarrow> bv_epoch (bucket_view r b) + 1 | Some t \<Rightarrow> if bv_epoch (bucket_view r b) = 0 then t else bv_epoch (bucket_view r b)),
      bv_retired := Some (case bv_retired (bucket_view r b) of None \<Rightarrow> bv_epoch (bucket_view r b) + 1 | Some t \<Rightarrow> t)\<rparr>"
    and ty: "typed (snd (retire_script b r)) b"
    using retire_effect [OF cache_invD(1) [OF inv], of b] by (simp_all del: view_sel)
  show ?thesis
    using retire_keeps [OF cache_invD(2) [OF inv] eff]
    by (intro bucket_command_same [OF inv _ _ ty]) (auto intro: script_local script_footprint(3) [OF meta_not_bucket])
qed

lemma exec_reopen: "cache_inv pub r gs \<Longrightarrow> cache_inv pub (snd (reopen_script b r)) gs"
proof -
  assume inv: "cache_inv pub r gs"
  note eff = reopen_effect [OF cache_invD(1) [OF inv], of b]
  show ?thesis
    using reopen_keeps [OF cache_invD(2) [OF inv, of b] conjunct1 [OF eff] conjunct1 [OF conjunct2 [OF eff]]] eff
    by (intro bucket_command_same [OF inv, of b]) (auto intro: script_local script_footprint(4) [OF meta_not_bucket])
qed

lemma owner_bound:
  assumes "cache_inv pub r gs" and "g \<in> set gs"
  shows "owns g = Some (b, n) \<or> g = Reads b n \<Longrightarrow> n \<le> bv_version (bucket_view r b)"
  using cache_invD(3) [OF assms, of b] by (cases g) auto

lemma exec_allocate:
  assumes inv: "cache_inv pub r gs" and i: "i < length gs" and g: "gs ! i = Idle" and e: "1 \<le> e"
    and out: "r_exec (Allocate b e) r = (x, r')"
  shows "reply pub (Allocate b e) (gs ! i) x" and "cache_inv pub r' (gs[i := upd (Allocate b e) x (gs ! i)])"
    and "cache_inv pub r' gs"
proof -
  let ?v = "bucket_view r b" and ?a = "allocate_script b e r"
  let ?ok = "bv_retired ?v = None \<and> bv_epoch ?v = e \<and> bv_version ?v \<noteq> max_int64"
  note eff = allocate_effect [OF cache_invD(1) [OF inv, of b], of e]
  have core: "core_ok (pub b) ?v" by (rule cache_invD(2) [OF inv])
  have x: "x = (case fst ?a of None \<Rightarrow> XErr | Some n \<Rightarrow> XInt n)" "r' = snd ?a" using out by (auto split: prod.splits option.splits)
  have ver: "0 \<le> bv_version ?v" using core by (simp add: core_ok_def)
  have view: "bucket_view r' b = (if ?ok then ?v\<lparr>bv_version := bv_version ?v + 1\<rparr> else ?v)" and ty: "typed r' b"
    using eff e by (auto simp: x(2))
  have fst: "fst ?a = (if bv_retired ?v \<noteq> None then Some (-1) else if bv_epoch ?v \<noteq> e then Some (-2) else if bv_version ?v = max_int64 then None else Some (bv_version ?v + 1))"
    using eff e by simp
  show "reply pub (Allocate b e) (gs ! i) x" using fst ver by (auto simp: x(1))
  have frame: "\<And>b'. b' \<noteq> b \<Longrightarrow> same_bucket r r' b'" "\<And>i. r_entry r' (KMeta i) = r_entry r (KMeta i)"
    by (auto simp: x(2) intro: script_local script_footprint(2) [OF meta_not_bucket])
  have keep: "core_ok (pub b) (bucket_view r' b)" "\<And>g. ghost_ok (pub b) b ?v g \<Longrightarrow> ghost_ok (pub b) b (bucket_view r' b) g"
    using allocate_keeps(1,2) [OF core refl] core unfolding view by auto
  show same: "cache_inv pub r' gs" by (rule bucket_command_same [OF inv frame ty keep])
  show "cache_inv pub r' (gs[i := upd (Allocate b e) x (gs ! i)])"
  proof (cases ?ok)
    case True
    then have u: "upd (Allocate b e) x (gs ! i) = Writes b (bv_version ?v + 1) e (Some []) []" using fst ver by (auto simp: x(1))
    have fresh: "\<forall>g\<in>set gs. owns g \<noteq> Some (b, bv_version ?v + 1) \<and> g \<noteq> Reads b (bv_version ?v + 1)"
      using owner_bound [OF inv, of _ b "bv_version ?v + 1"] by fastforce
    then have "lesser gs i (upd (Allocate b e) x (gs ! i))" unfolding u by (auto simp: lesser_def)
    moreover have "ghost_ok (pub b) b (bucket_view r' b) (upd (Allocate b e) x (gs ! i))"
      using allocate_keeps(3) [OF core refl, of b] True e unfolding view u by simp
    ultimately show ?thesis unfolding u by (intro bucket_command [OF inv i frame ty keep(1) _ _ keep(2)]) auto
  next
    case False
    then have "upd (Allocate b e) x (gs ! i) = gs ! i" using fst g by (auto simp: x(1))
    with same show ?thesis by simp
  qed
qed

lemma exec_activate:
  assumes inv: "cache_inv pub r gs" and i: "i < length gs" and may: "may pub (Activate b v e) (gs ! i)"
  defines "r' \<equiv> snd (activate_script b v e r)"
  shows "cache_inv pub r' (gs[i := Idle])" and "cache_inv pub r' (gs[i := again (Activate b v e) (gs ! i)])"
proof -
  let ?v = "bucket_view r b"
  from may obtain n where v: "v = itoa n" and tr: "ready_to_try (pub b) b n e (gs ! i)" by (auto simp: ready_to_try_def)
  have own: "owns (gs ! i) = Some (b, n)" using tr by (auto simp: ready_to_try_def)
  have g: "ghost_ok (pub b) b ?v (gs ! i)" using cache_invD(3) [OF inv] i by simp
  then have ne: "1 \<le> n" "e \<noteq> 0" using tr by (auto simp: ready_to_try_def)
  note eff = activate_effect [OF cache_invD(1) [OF inv, of b] ne]
  note keep = activate_keeps [OF cache_invD(2) [OF inv, of b] tr g conjunct1 [OF eff] conjunct1 [OF conjunct2 [OF eff]]]
  have frame: "\<And>b'. b' \<noteq> b \<Longrightarrow> same_bucket r r' b'" "\<And>i. r_entry r' (KMeta i) = r_entry r (KMeta i)"
    by (auto simp: r'_def intro: script_local script_footprint(5) [OF meta_not_bucket])
  have ty: "typed r' b" using eff by (simp add: r'_def v)
  have rest: "\<And>j. j < length gs \<Longrightarrow> j \<noteq> i \<Longrightarrow> ghost_ok (pub b) b ?v (gs ! j) \<Longrightarrow> ghost_ok (pub b) b (bucket_view r' b) (gs ! j)"
    using keep(3) apartD [OF cache_invD(4) [OF inv] i _ _ own] unfolding r'_def v by metis
  have core: "core_ok (pub b) (bucket_view r' b)" using keep(1) by (simp add: r'_def v)
  have cmd: "ghost_bucket g' \<in> {None, Some b} \<Longrightarrow> ghost_ok (pub b) b (bucket_view r' b) g' \<Longrightarrow> lesser gs i g' \<Longrightarrow> cache_inv pub r' (gs[i := g'])" for g'
    by (rule bucket_command [OF inv i frame ty core _ _ rest])
  show "cache_inv pub r' (gs[i := Idle])" by (rule cmd) (auto simp: lesser_def)
  have "again (Activate b v e) (gs ! i) = Tried b n e" using tr by (auto simp: ready_to_try_def)
  moreover have "ghost_ok (pub b) b (bucket_view r' b) (Tried b n e)" using keep(2) unfolding r'_def v .
  moreover have "lesser gs i (Tried b n e)" using own by (simp add: lesser_def)
  ultimately show "cache_inv pub r' (gs[i := again (Activate b v e) (gs ! i)])" by (simp add: cmd)
qed

lemma exec_zadd:
  assumes inv: "cache_inv pub r gs" and i: "i < length gs" and may: "may pub (ZAdd k ms) (gs ! i)"
  shows "cache_inv pub (r_zadd k ms r) (gs[i := upd (ZAdd k ms) XOk (gs ! i)])"
    and "cache_inv pub (r_zadd k ms r) (gs[i := again (ZAdd k ms) (gs ! i)])"
proof -
  let ?r = "r_zadd k ms r"
  from may obtain b n e w p where g: "gs ! i = Writes b n e w p" and k: "k = KSnap b (itoa n)" and p: "p = [] \<or> p = ms" and ms: "ms \<noteq> []"
    by auto
  let ?v = "bucket_view r b"
  have ok: "ghost_ok (pub b) b ?v (Writes b n e w p)" using cache_invD(3) [OF inv, of "gs ! i" b] g i by (metis nth_mem)
  have ty: "typed r b" by (rule cache_invD(1) [OF inv])
  let ?new = "Some (z_add ms (case snap_entry r b n of None \<Rightarrow> [] | Some (z, _) \<Rightarrow> z), case snap_entry r b n of None \<Rightarrow> None | Some (_, t) \<Rightarrow> t)"
  have entry: "(case r_entry r k of None \<Rightarrow> snap_entry r b n = None \<and> r_zset r k = [] | Some (x, t) \<Rightarrow> \<exists>z. x = RZset z \<and> snap_entry r b n = Some (z, t) \<and> r_zset r k = z)"
    using ty unfolding k typed_def by (cases "r_entry r (KSnap b (itoa n))") (fastforce simp: snap_entry_def r_zset_def r_look_def)+
  have new: "snap_entry ?r b m = (if m = n then ?new else snap_entry r b m)" for m
    using entry unfolding k by (auto simp: snap_entry_def itoa_inj split: option.splits)
  have frame: "\<And>b'. b' \<noteq> b \<Longrightarrow> same_bucket r ?r b'" "\<And>i. r_entry ?r (KMeta i) = r_entry r (KMeta i)"
    by (auto simp: k same_bucket_def)
  have view: "bucket_view ?r b = ?v\<lparr>bv_snap := (snap_entry r b)(n := ?new)\<rparr>"
    using new by (intro view_eqI) (auto simp: k number_or_zero_def r_number_def r_get_def r_look_def)
  have ty': "typed ?r b"
    by (rule typedI [OF ty]) (use typed_version [OF ty] in \<open>auto simp: k number_or_zero_def r_number_def r_get_def r_look_def split: if_splits\<close>)
  have act: "bv_active ?v \<noteq> Some n" "n \<le> bv_version ?v" using ok by auto
  have core: "core_ok (pub b) (bucket_view ?r b)" using cache_invD(2) [OF inv, of b] act unfolding view by (simp add: core_ok_def)
  have rest: "ghost_ok (pub b) b (bucket_view ?r b) (gs ! j)" if j: "j < length gs" "j \<noteq> i" "ghost_ok (pub b) b ?v (gs ! j)" for j
  proof -
    have "owns (gs ! j) \<noteq> Some (b, n)" using apartD [OF cache_invD(4) [OF inv] i j(1)] j(2) g by auto
    moreover have "gs ! j \<noteq> Reads b n"
      using cache_invD(4) [OF inv] g i j(1) unfolding ghosts_apart_def by (metis nth_mem)
    ultimately show ?thesis using j(3) act unfolding view by (cases "gs ! j") auto
  qed
  have content: "stored ?new (ws @ ms)" if "w = Some ws" for ws
    using zadd_content [OF _ p ms, of "snap_entry r b n" ws] ok that by simp
  have ns: "ghost_ok (pub b) b (bucket_view ?r b) (Writes b n e (map_option (\<lambda>ws. ws @ ms) w) [])" "ghost_ok (pub b) b (bucket_view ?r b) (Writes b n e w ms)"
    using ok content ms unfolding view by auto
  have cmd: "ghost_ok (pub b) b (bucket_view ?r b) (Writes b n e w' p') \<Longrightarrow> cache_inv pub ?r (gs[i := Writes b n e w' p'])" for w' p'
    by (rule bucket_command [OF inv i frame ty' core _ _ rest]) (auto simp: lesser_def g)
  show "cache_inv pub ?r (gs[i := upd (ZAdd k ms) XOk (gs ! i)])" using cmd [OF ns(1)] g by simp
  show "cache_inv pub ?r (gs[i := again (ZAdd k ms) (gs ! i)])" using cmd [OF ns(2)] g by simp
qed

section \<open>Time\<close>

definition waited :: "int \<Rightarrow> redis \<Rightarrow> redis" where "waited d r = r\<lparr>r_now := r_now r + max 0 d\<rparr>"

lemma wait_entry: "r_entry (waited d r) k = (case r_entry r k of Some (v, Some t) \<Rightarrow> if r_now r + max 0 d < t then Some (v, Some t) else None | x \<Rightarrow> x)"
  by (auto simp: r_entry_def waited_def split: option.splits)

lemma pass_keeps:
  assumes inv: "cache_inv pub r gs"
  shows "cache_inv pub (waited d r) gs"
proof -
  let ?r = "waited d r"
  have count: "r_entry ?r k = r_entry r k" if "counter_entry r k" for k
    using that by (cases rule: counter_cases) (simp_all add: wait_entry)
  have "typed ?r b \<and> bucket_ok (pub b) b (bucket_view ?r b) gs" for b
  proof -
    have ty: "typed r b" by (rule cache_invD(1) [OF inv])
    note c = count [OF typed_counters(1) [OF ty]] count [OF typed_counters(2) [OF ty]] count [OF typed_counters(3) [OF ty]] count [OF typed_counters(4) [OF ty]]
    have snap: "snap_entry ?r b n = (case snap_entry r b n of Some (z, Some t) \<Rightarrow> if r_now r + max 0 d < t then Some (z, Some t) else None | x \<Rightarrow> x)" for n
      by (auto simp: snap_entry_def wait_entry split: option.splits rval.splits)
    let ?w = "(bucket_view r b)\<lparr>bv_snap := snap_entry ?r b\<rparr>"
    have view: "bucket_view ?r b = ?w"
      by (rule view_eqI) (simp_all add: number_or_zero_def r_number_cong [OF c(1)] r_number_cong [OF c(2)] r_number_cong [OF c(3)] r_number_cong [OF c(4)])
    have ty': "typed ?r b"
    proof (rule typedI [OF ty])
      show "number_or_zero ?r (KVersion b) \<le> max_int64" using typed_version [OF ty] by (simp add: number_or_zero_def r_number_cong [OF c(3)])
      show "r_entry ?r k = r_entry r k \<or> counter_entry ?r k" if "k \<in> {KEpoch b, KRetired b, KVersion b, KActive b}" for k using that c by blast
      show "(\<exists>z. x = RZset z) \<or> (\<exists>t'. r_entry r (KSnap b v) = Some (x, t'))" if "r_entry ?r (KSnap b v) = Some (x, t)" for v x t
        using that unfolding wait_entry by (cases "r_entry r (KSnap b v)") (auto split: option.splits if_splits)
    qed
    have st: "stored (snap_entry r b n) ms \<Longrightarrow> stored (snap_entry ?r b n) ms" for n ms by (auto simp: stored_def snap split: if_splits)
    have wh: "whole_or_gone ids (snap_entry r b n) \<Longrightarrow> whole_or_gone ids (snap_entry ?r b n)" for n ids
      by (auto simp: whole_or_gone_def snap split: option.splits if_splits)
    have "core_ok (pub b) ?w" using cache_invD(2) [OF inv, of b] st snap by (fastforce simp: core_ok_def)
    moreover have "ghost_ok (pub b) b ?w g" if "ghost_ok (pub b) b (bucket_view r b) g" for g
      using that st wh by (cases g) auto
    ultimately show ?thesis using inv ty' unfolding view cache_inv_def bucket_ok_def by blast
  qed
  moreover have "docs_ok ?r" using cache_invD(5) [OF inv] by (fastforce simp: docs_ok_def wait_entry split: option.splits if_splits)
  ultimately show ?thesis using cache_invD(4) [OF inv] by (simp add: cache_inv_def)
qed

section \<open>The interpretation\<close>

lemma same_ghost: "i < length gs \<Longrightarrow> cache_inv pub r gs \<Longrightarrow> cache_inv pub r (gs[i := gs ! i])"
  by simp

lemma exec_keeps:
  assumes inv: "cache_inv pub r gs" and i: "i < length gs" and may: "may pub c (gs ! i)" and out: "r_exec c r = (x, r')"
  shows "reply pub c (gs ! i) x \<and> cache_inv pub r' (gs[i := upd c x (gs ! i)]) \<and> cache_inv pub r' (gs[i := again c (gs ! i)])"
proof (cases "free_cmd c")
  case True
  then have "cache_inv pub r' gs" using free_command [OF inv True may] out by simp
  then show ?thesis using free_same [OF True] by simp
next
  case False
  then show ?thesis
  proof (cases c)
    case (Get k)
    then show ?thesis using read_active [OF inv i, of k] out inv by auto
  next
    case (MGet ks)
    then show ?thesis using read_docs [OF inv] out inv by auto
  next
    case (ZRange k)
    then show ?thesis using read_version [OF inv i, of k] out inv by auto
  next
    case (ZAdd k ms)
    then show ?thesis using exec_zadd [OF inv i] may out by auto
  next
    case (Capture b)
    then show ?thesis using exec_capture [OF inv, of b] out by (auto simp: with_int_def)
  next
    case (Allocate b e)
    then have g: "gs ! i = Idle" "1 \<le> e" using may by auto
    then have "gs[i := Idle] = gs" by (metis list_update_id)
    then show ?thesis using exec_allocate [OF inv i g, of b x r'] out Allocate g by (simp del: r_exec.simps upd.simps reply.simps)
  next
    case (Retire b)
    then show ?thesis using exec_retire [OF inv, of b] out by (auto simp: with_int_def)
  next
    case (Reopen b)
    then show ?thesis using exec_reopen [OF inv, of b] out by (auto simp: with_int_def)
  next
    case (Activate b v e)
    then show ?thesis using exec_activate [OF inv i, of b v e] may out by (simp add: with_int_def del: may.simps again.simps)
  next
    case (SMembers k)
    then show ?thesis using out inv by auto
  qed simp_all
qed

lemma may_again: "may pub c g \<Longrightarrow> may pub c (again c g)"
  by (cases c) auto

lemma upd_again: "may pub c g \<Longrightarrow> reply pub c (again c g) x \<Longrightarrow> reply pub c g x \<and> upd c x (again c g) = upd c x g"
  by (cases c) auto

lemma fail_keeps:
  assumes inv: "cache_inv pub r gs" and i: "i < length gs" and may: "may pub c (gs ! i)"
  shows "reply pub c (gs ! i) XErr \<and> cache_inv pub r (gs[i := upd c XErr (gs ! i)])"
proof -
  have idle: "cache_inv pub r (gs[i := Idle])" by (rule cache_inv_ghost [OF inv i]) (auto simp: lesser_def)
  show ?thesis
  proof (cases c)
    case (ZAdd k ms)
    then obtain b n e w p where g: "gs ! i = Writes b n e w p" using may by auto
    have "ghost_ok (pub b') b' (bucket_view r b') (Writes b n e None [])" for b'
    proof -
      have "gs ! i \<in> set gs" using i by simp
      then show ?thesis using cache_invD(3) [OF inv, of "gs ! i" b'] g by auto
    qed
    then have "cache_inv pub r (gs[i := Writes b n e None []])"
      by (intro cache_inv_ghost [OF inv i]) (auto simp: lesser_def g)
    then show ?thesis using ZAdd g by simp
  next
    case (Get k)
    moreover have "upd (Get k) XErr (gs ! i) = gs ! i" by (cases k) auto
    ultimately show ?thesis using inv by simp
  next
    case (Activate b v e)
    then show ?thesis using idle by simp
  next
    case (Allocate b e)
    then show ?thesis using idle by simp
  qed (use inv in auto)
qed

interpretation cache: discipline redis_server "may pub" "reply pub" upd again "cache_inv pub" for pub
proof unfold_locales
  fix r gs i c x r'
  assume "cache_inv pub r gs" "i < length gs" "may pub c (gs ! i)" "sv_exec redis_server c r = Some (x, r')"
  then show "reply pub c (gs ! i) x" "cache_inv pub r' (gs[i := upd c x (gs ! i)])" "cache_inv pub r' (gs[i := again c (gs ! i)])"
    using exec_keeps [of pub r gs i c x r'] by (auto simp: redis_server_def)
next
  fix r gs i c x
  assume "cache_inv pub r gs" "i < length gs" "may pub c (gs ! i)" "sv_fault redis_server c = Some x"
  then show "reply pub c (gs ! i) x \<and> cache_inv pub r (gs[i := upd c x (gs ! i)])"
    using fail_keeps by (simp add: redis_server_def)
next
  fix r gs d
  assume "cache_inv pub r gs"
  then show "cache_inv pub (sv_pass redis_server d r) gs" using pass_keeps [of pub r gs d] by (simp add: redis_server_def waited_def)
qed (use may_again upd_again in blast)+

end
