(* ===== verification/Sched_Ops.thy ===== *)
theory Sched_Ops
  imports Sched_Safe
begin

text \<open>
  The methods of the scheduler cache as the programs that run side by side, and the proof that each keeps to the
  protocol of \<open>Sched_Protocol\<close>.
\<close>

datatype cache_op = OpGetSnapshot bucket | OpCapture bucket | OpRetire bucket | OpReopen bucket
  | OpSet bucket write_token "sched_account list" | OpSetIds bucket write_token "sched_account list" | OpSetById bucket write_token "int64 list"
  | OpGetAccount int64 | OpSetAccount "sched_account option" | OpDeleteAccount int64 | OpLastUsed "(int64 \<times> gtime) list"
  | OpLock bucket gduration string | OpUnlock bucket | OpAcquire int64 gduration string | OpRelease group_lease
  | OpList | OpGetMark | OpSetMark int64

datatype cache_res = RUnit | RHit "sched_account list option" | RToken write_token | RIds "int64 list" | RAccount "sched_account option"
  | RBool bool | RLease "group_lease option" | RBuckets "bucket list" | RInt int64

definition with_res :: "('a \<Rightarrow> cache_res) \<Rightarrow> 'a cache_prog \<Rightarrow> cache_res cache_prog" where
  "with_res f p = pbind p (\<lambda>r. Ret (map_sum id f r))"

fun op_prog :: "(sched_account \<Rightarrow> bool) \<Rightarrow> cache_cfg \<Rightarrow> cache_op \<Rightarrow> cache_res cache_prog" where
  "op_prog enc cc (OpGetSnapshot b) = with_res RHit (get_snapshot cc b)"
| "op_prog enc cc (OpCapture b) = with_res RToken (capture_token b)"
| "op_prog enc cc (OpRetire b) = with_res (\<lambda>_. RUnit) (retire_bucket b)"
| "op_prog enc cc (OpReopen b) = with_res RToken (reopen_bucket b)"
| "op_prog enc cc (OpSet b tok accs) = with_res (\<lambda>_. RUnit) (set_snapshot enc cc b tok accs)"
| "op_prog enc cc (OpSetIds b tok accs) = with_res RIds (set_snapshot_ids enc cc b tok accs)"
| "op_prog enc cc (OpSetById b tok ids) = with_res (\<lambda>_. RUnit) (set_snapshot_by_ids cc b tok ids)"
| "op_prog enc cc (OpGetAccount i) = with_res RAccount (get_account i)"
| "op_prog enc cc (OpSetAccount a) = with_res (\<lambda>_. RUnit) (set_account enc cc a)"
| "op_prog enc cc (OpDeleteAccount i) = with_res (\<lambda>_. RUnit) (delete_account i)"
| "op_prog enc cc (OpLastUsed us) = with_res (\<lambda>_. RUnit) (update_last_used us)"
| "op_prog enc cc (OpLock b ttl stamp) = with_res RBool (try_lock_bucket b ttl stamp)"
| "op_prog enc cc (OpUnlock b) = with_res (\<lambda>_. RUnit) (unlock_bucket b)"
| "op_prog enc cc (OpAcquire g ttl owner) = with_res RLease (acquire_lease g ttl owner)"
| "op_prog enc cc (OpRelease l) = with_res (\<lambda>_. RUnit) (release_lease l)"
| "op_prog enc cc OpList = with_res RBuckets list_buckets"
| "op_prog enc cc OpGetMark = with_res RInt get_watermark"
| "op_prog enc cc (OpSetMark i) = with_res (\<lambda>_. RUnit) (set_watermark i)"

text \<open>The list of accounts that an operation is to publish, and where.\<close>

fun published :: "(sched_account \<Rightarrow> bool) \<Rightarrow> cache_op \<Rightarrow> (bucket \<times> int64 list) option" where
  "published enc (OpSet b tok accs) = Some (b, map sa_id (filter enc accs))"
| "published enc (OpSetIds b tok accs) = Some (b, map sa_id (filter enc accs))"
| "published enc (OpSetById b tok ids) = Some (b, ids)"
| "published enc op = None"

definition publications :: "(sched_account \<Rightarrow> bool) \<Rightarrow> cache_op list \<Rightarrow> bucket \<Rightarrow> int64 list set" where
  "publications enc ops b = {ids. \<exists>op\<in>set ops. published enc op = Some (b, ids)}"

definition cache_run :: "(sched_account \<Rightarrow> bool) \<Rightarrow> cache_cfg \<Rightarrow> cache_op list \<Rightarrow> gtime \<Rightarrow> event list \<Rightarrow> redis \<times> cache_res cache_prog list" where
  "cache_run enc cc ops now es = conc_run redis_server es (redis_empty now, map (op_prog enc cc) ops)"

definition cfg_ok :: "cache_cfg \<Rightarrow> bool" where "cfg_ok cc \<longleftrightarrow> 0 < cc_mget cc \<and> 0 < cc_write cc"

lemma new_cfg_ok [simp]: "cfg_ok (new_cache_cfg m w)"
  by (simp add: cfg_ok_def new_cache_cfg_def)

section \<open>Keeping to the protocol\<close>

abbreviation keeps_to :: "(bucket \<Rightarrow> int64 list set) \<Rightarrow> ('r \<Rightarrow> ghost \<Rightarrow> bool) \<Rightarrow> (rcmd, rreply, 'r) prog \<Rightarrow> ghost \<Rightarrow> bool" where
  "keeps_to pub fin p g \<equiv> follows (may pub) (reply pub) upd fin p g"

lemma keeps_ebind:
  assumes "keeps_to pub (\<lambda>r g. case r of Inl e \<Rightarrow> fin (Inl e) g | Inr a \<Rightarrow> keeps_to pub fin (f a) g) p g"
  shows "keeps_to pub fin (ebind p f) g"
  unfolding ebind_def by (rule follows_bind, rule follows_mono [OF assms]) (auto split: sum.splits)

lemma keeps_res:
  assumes "keeps_to pub (\<lambda>r g. fin (map_sum id f r) g) p g"
  shows "keeps_to pub fin (with_res f p) g"
  unfolding with_res_def by (rule follows_bind) (simp add: assms)

lemma keeps_attempt: "keeps_to pub fin (attempt c k) g \<longleftrightarrow> may pub c g \<and>
    (\<forall>x. reply pub c g x \<longrightarrow> (if x = XErr then fin (Inl err_redis) (upd c x g) else keeps_to pub fin (k x) (upd c x g)))"
  by (auto simp: attempt_def)

lemma keeps_fence: "keeps_to pub fin (fence_call c) g \<longleftrightarrow> may pub c g \<and>
    (\<forall>x. reply pub c g x \<longrightarrow> fin (case x of XInt n \<Rightarrow> (case write_result_error n of Some e \<Rightarrow> Inl e | None \<Rightarrow> Inr n) | _ \<Rightarrow> Inl err_redis) (upd c x g))"
  by (auto simp: fence_call_def keeps_attempt split: rreply.splits option.splits)

lemma concat_chunks_of: "0 < n \<Longrightarrow> concat (chunks_of n xs) = xs"
  by (induction n xs rule: chunks_of.induct) (subst chunks_of.simps, simp)

lemma chunk_not_Nil: "ys \<in> set (chunks_of n xs) \<Longrightarrow> ys \<noteq> []"
proof (induction n xs rule: chunks_of.induct)
  case (1 n xs)
  show ?case
  proof (cases "xs = [] \<or> n = 0")
    case True
    then show ?thesis using "1.prems" by (simp add: chunks_of.simps [of n xs])
  next
    case False
    then show ?thesis using 1 by (auto simp: chunks_of.simps [of n xs])
  qed
qed

section \<open>Writing\<close>

lemma keeps_zadds:
  assumes "\<forall>ms\<in>set chs. ms \<noteq> []" and "ok \<longrightarrow> w \<noteq> None"
  shows "keeps_to pub (\<lambda>r g. r = Inl err_redis \<or> ok \<and> r = Inr () \<and> (\<exists>ws. w = Some ws \<and> g = Writes b n e (Some (ws @ concat chs)) []))
     (pipeline (map (ZAdd (KSnap b (itoa n))) chs) ok) (Writes b n e w [])"
  using assms
proof (induction chs arbitrary: ok w)
  case (Cons ms chs)
  have "keeps_to pub (\<lambda>r g. r = Inl err_redis \<or> ok \<and> r = Inr () \<and> (\<exists>ws. w = Some ws \<and> g = Writes b n e (Some (ws @ ms @ concat chs)) []))
      (pipeline (map (ZAdd (KSnap b (itoa n))) chs) (ok \<and> x \<noteq> XErr)) (upd (ZAdd (KSnap b (itoa n)) ms) x (Writes b n e w []))" for x
    using Cons.prems Cons.IH [of "ok \<and> x \<noteq> XErr" "if x = XErr then None else map_option (\<lambda>ws. ws @ ms) w"]
    by (auto elim!: follows_mono)
  then show ?case using Cons.prems by auto
qed auto

lemma keeps_members:
  assumes "0 < cc_write cc"
  shows "keeps_to pub (\<lambda>r g. r = Inl err_redis \<or> r = Inr () \<and> g = Writes b n e (Some (snapshot_members ids)) [])
    (write_account_ids_of cc b (itoa n) ids) (Writes b n e (Some []) [])"
proof (cases "ids = []")
  case True
  then show ?thesis by (simp add: write_account_ids_of_def snapshot_members_def)
next
  case False
  have "\<forall>ms\<in>set (chunks_of (cc_write cc) (snapshot_members ids)). ms \<noteq> []" using chunk_not_Nil by blast
  from keeps_zadds [OF this, of True "Some []"] show ?thesis using False
    by (auto simp: write_account_ids_of_def concat_chunks_of [OF assms] elim!: follows_mono)
qed

lemma keeps_docs: "keeps_to pub (\<lambda>r g'. g' = g) (pipeline (concat (map set_account_cmds as)) ok) g"
  by (induction as arbitrary: ok) (auto simp: set_account_cmds_def free_key_def build_metadata_def)

lemma keeps_flush: "keeps_to pub (\<lambda>r g'. g' = g) (flush_accounts ass) g"
proof (induction ass)
  case (Cons as ass)
  have "keeps_to pub (\<lambda>r g'. case r of Inl e \<Rightarrow> g' = g | Inr a \<Rightarrow> keeps_to pub (\<lambda>r g'. g' = g) (flush_accounts ass) g')
      (pipeline (concat (map set_account_cmds as)) True) g"
    by (rule follows_mono [OF keeps_docs]) (auto simp: Cons.IH split: sum.splits)
  then show ?case by (simp add: keeps_ebind)
qed simp

lemma keeps_accounts: "keeps_to pub (\<lambda>r g'. g' = g \<and> (r = Inr (map sa_id (filter enc accs)) \<or> (\<exists>e. r = Inl e))) (write_accounts enc cc accs) g"
  unfolding write_accounts_def
  by (rule keeps_ebind, rule follows_mono [OF keeps_flush]) (auto split: sum.splits)

lemma keeps_activate:
  assumes "ids \<in> pub b"
  shows "keeps_to pub (\<lambda>r g. True) (activate_version b tok (itoa n)) (Writes b n (wt_epoch tok) (Some (snapshot_members ids)) [])"
  unfolding activate_version_def
  by (rule keeps_ebind) (use assms in \<open>auto simp: keeps_fence split: sum.splits\<close>)

lemma keeps_allocate:
  assumes "1 \<le> wt_epoch tok" and "\<And>n. keeps_to pub fin (f (itoa n)) (Writes b n (wt_epoch tok) (Some []) [])" and "\<And>e g. fin (Inl e) g"
  shows "keeps_to pub fin (ebind (allocate_version b tok) f) Idle"
  unfolding allocate_version_def
  by (intro keeps_ebind) (use assms in \<open>auto simp: keeps_fence write_result_error_def split: rreply.splits\<close>)

lemma keeps_set_by_ids:
  assumes "cfg_ok cc" and "ids \<in> pub b"
  shows "keeps_to pub (\<lambda>r g. True) (set_snapshot_by_ids cc b tok ids) Idle"
proof (cases "token_valid_for tok b")
  case True
  have "keeps_to pub (\<lambda>r g. True) (ebind (write_account_ids_of cc b (itoa n) ids) (\<lambda>_. activate_version b tok (itoa n))) (Writes b n (wt_epoch tok) (Some []) [])" for n
    by (rule keeps_ebind, rule follows_mono [OF keeps_members]) (use assms keeps_activate [of ids pub b] in \<open>auto simp: cfg_ok_def split: sum.splits\<close>)
  then show ?thesis using True by (auto simp: set_snapshot_by_ids_def token_valid_for_def intro!: keeps_allocate)
qed (simp add: set_snapshot_by_ids_def)

lemma keeps_set:
  assumes "cfg_ok cc" and "map sa_id (filter enc accs) \<in> pub b"
  shows "keeps_to pub (\<lambda>r g. True) (set_snapshot enc cc b tok accs) Idle" "keeps_to pub (\<lambda>r g. True) (set_snapshot_ids enc cc b tok accs) Idle"
proof -
  let ?ids = "map sa_id (filter enc accs)"
  have step: "keeps_to pub (\<lambda>r g. True) (ebind (write_accounts enc cc accs) (\<lambda>ids. ebind (write_account_ids_of cc b (itoa n) ids) (\<lambda>_. f ids)))
      (Writes b n (wt_epoch tok) (Some []) [])"
    if "keeps_to pub (\<lambda>r g. True) (f ?ids) (Writes b n (wt_epoch tok) (Some (snapshot_members ?ids)) [])" for n and f :: "int64 list \<Rightarrow> 'x cache_prog"
  proof -
    have "keeps_to pub (\<lambda>r g. True) (ebind (write_account_ids_of cc b (itoa n) ?ids) (\<lambda>_. f ?ids)) (Writes b n (wt_epoch tok) (Some []) [])"
      by (rule keeps_ebind, rule follows_mono [OF keeps_members]) (use assms that in \<open>auto simp: cfg_ok_def split: sum.splits\<close>)
    then show ?thesis
      by (intro keeps_ebind, intro follows_mono [OF keeps_accounts [of pub "Writes b n (wt_epoch tok) (Some []) []" enc accs]]) (auto split: sum.splits)
  qed
  note act = keeps_activate [of ?ids pub b, OF assms(2)]
  show "keeps_to pub (\<lambda>r g. True) (set_snapshot enc cc b tok accs) Idle"
  proof (cases "token_valid_for tok b")
    case True
    have "keeps_to pub (\<lambda>r g. True) (ebind (write_accounts enc cc accs) (\<lambda>ids. ebind (write_account_ids_of cc b (itoa n) ids) (\<lambda>_. activate_version b tok (itoa n))))
        (Writes b n (wt_epoch tok) (Some []) [])" for n by (rule step) (rule act)
    then show ?thesis using True by (auto simp: set_snapshot_def token_valid_for_def intro!: keeps_allocate)
  qed (simp add: set_snapshot_def)
  have fin: "keeps_to pub (\<lambda>r g. True) (ebind (activate_version b tok (itoa n)) (\<lambda>_. Ret (Inr ?ids))) (Writes b n (wt_epoch tok) (Some (snapshot_members ?ids)) [])" for n
    by (rule keeps_ebind, rule follows_mono [OF act]) (auto split: sum.splits)
  show "keeps_to pub (\<lambda>r g. True) (set_snapshot_ids enc cc b tok accs) Idle"
  proof (cases "token_valid_for tok b")
    case True
    have "keeps_to pub (\<lambda>r g. True) (ebind (write_accounts enc cc accs) (\<lambda>ids. ebind (write_account_ids_of cc b (itoa n) ids)
        (\<lambda>_. ebind (activate_version b tok (itoa n)) (\<lambda>_. Ret (Inr ids))))) (Writes b n (wt_epoch tok) (Some []) [])" for n by (rule step) (rule fin)
    then show ?thesis using True by (auto simp: set_snapshot_ids_def token_valid_for_def intro!: keeps_allocate)
  qed (simp add: set_snapshot_ids_def)
qed


section \<open>Reading\<close>

lemma keeps_mget:
  "keeps_to pub (\<lambda>r g'. g' = g \<and> (\<forall>vs. r = Inr vs \<longrightarrow> (\<exists>ws. vs = out @ ws \<and> list_all2 doc_for (concat kss) ws))) (mget_chunked kss out) g"
proof (induction kss arbitrary: out)
  case (Cons ks kss)
  show ?case
    by (auto simp: keeps_attempt split: rreply.splits intro!: follows_mono [OF Cons.IH] list_all2_appendI)
qed simp

lemma apply_last_used_id: "apply_last_used a v = Inr a' \<Longrightarrow> sa_id a' = sa_id a"
  by (auto simp: apply_last_used_def Let_def split: option.splits rval.splits if_splits)

lemma decode_hits_ids:
  assumes "list_all2 doc_for (map KMeta ids) vals" and "length lus = length ids" and "decode_hits (zip vals lus) out = Inr (Some accs)"
  shows "\<exists>as. accs = out @ as \<and> map (\<lambda>a. itoa (sa_id a)) as = ids"
  using assms
proof (induction ids arbitrary: vals lus out)
  case (Cons i ids)
  then obtain v vals' lu lus' where v: "vals = v # vals'" "lus = lu # lus'" "doc_for (KMeta i) v" "list_all2 doc_for (map KMeta ids) vals'" "length lus' = length ids"
    by (auto simp: list_all2_Cons1 length_Suc_conv)
  then obtain a where a: "v = Some (RDoc a)" "itoa (sa_id a) = i" using Cons.prems(3) by (cases v) (auto simp: doc_for_def)
  then obtain a' where a': "apply_last_used a lu = Inr a'" "decode_hits (zip vals' lus') (out @ [a']) = Inr (Some accs)"
    using Cons.prems(3) v by (auto simp: decode_cached_def split: sum.splits)
  from Cons.IH [OF v(4,5) a'(2)] show ?case using a apply_last_used_id [OF a'(1)] by auto
qed simp

definition hit_of :: "bucket \<Rightarrow> go_error + cache_res \<Rightarrow> ghost \<Rightarrow> bool" where
  "hit_of b r g \<longleftrightarrow> (\<forall>accs. r = Inr (RHit (Some accs)) \<longrightarrow> accs \<noteq> [] \<and> g = Holds b (map (\<lambda>a. itoa (sa_id a)) accs))"

lemma hit_of_miss [simp]: "hit_of b (Inl e) g" "hit_of b (Inr (RHit None)) g"
  by (simp_all add: hit_of_def)

lemma keeps_get:
  assumes "cfg_ok cc"
  shows "keeps_to pub (hit_of b) (with_res RHit (get_snapshot cc b)) Idle"
proof -
  let ?fin = "\<lambda>r g. hit_of b (map_sum id RHit r) g"
  let ?keys = "\<lambda>f ids. chunks_of (cc_mget cc) (map f ids) :: rkey list list"
  have con: "concat (?keys f ids) = map f ids" for f ids using assms by (simp add: cfg_ok_def concat_chunks_of)
  have fetch: "keeps_to pub ?fin (ebind (mget_chunked (?keys KMeta ids) []) (\<lambda>vals. ebind (mget_chunked (?keys KLastUsed ids) []) (\<lambda>lus. Ret (decode_hits (zip vals lus) []))))
      (Holds b ids)" if ids: "ids \<noteq> []" for ids
  proof -
    have fin: "?fin (decode_hits (zip vals lus) []) (Holds b ids)"
      if "list_all2 doc_for (map KMeta ids) vals" "list_all2 doc_for (map KLastUsed ids) lus" for vals lus
      using decode_hits_ids [OF that(1), of lus "[]"] list_all2_lengthD [OF that(2)] ids
      by (cases "decode_hits (zip vals lus) []") (auto simp: hit_of_def)
    have second: "keeps_to pub ?fin (ebind (mget_chunked (?keys KLastUsed ids) []) (\<lambda>lus. Ret (decode_hits (zip vals lus) []))) (Holds b ids)"
      if "list_all2 doc_for (map KMeta ids) vals" for vals
      by (rule keeps_ebind, rule follows_mono [OF keeps_mget]) (use fin that in \<open>auto simp: con split: sum.splits\<close>)
    show ?thesis
      by (rule keeps_ebind, rule follows_mono [OF keeps_mget]) (use second in \<open>auto simp: con split: sum.splits\<close>)
  qed
  show ?thesis
    unfolding get_snapshot_def
    by (rule keeps_res) (auto simp: keeps_attempt fetch split: rreply.splits option.splits rval.splits)
qed

end
