(* ===== verification/Sched_Fence.thy ===== *)
theory Sched_Fence
  imports Sched_Ops
begin

text \<open>
  How a bucket changes from one command to the next, and what a writer with an old token can still do: the facts
  behind the fencing of writers and the order of versions.
\<close>

section \<open>One command, one bucket\<close>

definition same_core :: "bview \<Rightarrow> bview \<Rightarrow> bool" where
  "same_core v v' \<longleftrightarrow> bv_epoch v' = bv_epoch v \<and> bv_retired v' = bv_retired v \<and> bv_version v' = bv_version v \<and> bv_active v' = bv_active v"

inductive bucket_step :: "bucket \<Rightarrow> rcmd \<Rightarrow> rreply \<Rightarrow> bview \<Rightarrow> bview \<Rightarrow> bool" for b where
  Same: "same_core v v' \<Longrightarrow> (\<And>e n. c = Allocate b e \<Longrightarrow> x = XInt n \<Longrightarrow> n < 1) \<Longrightarrow> (\<And>n e. c = Activate b n e \<Longrightarrow> x \<noteq> XInt 1) \<Longrightarrow> bucket_step b c x v v'"
| First: "bv_epoch v = 0 \<Longrightarrow> bv_retired v = None \<Longrightarrow> bv_retired v' = None \<Longrightarrow> bv_epoch v' = 1 \<Longrightarrow> bv_version v' = bv_version v \<Longrightarrow> bv_active v' = bv_active v \<Longrightarrow>
    c = Capture b \<or> c = Reopen b \<Longrightarrow> bucket_step b c x v v'"
| Open: "bv_retired v \<noteq> None \<Longrightarrow> bv_retired v' = None \<Longrightarrow> bv_epoch v' = bv_epoch v \<Longrightarrow> bv_version v' = bv_version v \<Longrightarrow> bv_active v' = None \<Longrightarrow>
    bucket_step b (Reopen b) x v v'"
| Shut: "bv_retired v = None \<Longrightarrow> bv_retired v' = Some (bv_epoch v + 1) \<Longrightarrow> bv_epoch v' = bv_epoch v + 1 \<Longrightarrow> bv_version v' = bv_version v \<Longrightarrow> bv_active v' = None \<Longrightarrow>
    bucket_step b (Retire b) x v v'"
| New: "bv_retired v = None \<Longrightarrow> bv_epoch v = e \<Longrightarrow> 1 \<le> e \<Longrightarrow> n = bv_version v + 1 \<Longrightarrow> bv_retired v' = None \<Longrightarrow> bv_epoch v' = e \<Longrightarrow> bv_version v' = n \<Longrightarrow>
    bv_active v' = bv_active v \<Longrightarrow> bucket_step b (Allocate b e) (XInt n) v v'"
| Switch: "bv_retired v = None \<Longrightarrow> bv_epoch v = e \<Longrightarrow> (\<And>c. bv_active v = Some c \<Longrightarrow> c \<le> n) \<Longrightarrow> bv_retired v' = None \<Longrightarrow> bv_epoch v' = e \<Longrightarrow>
    bv_version v' = bv_version v \<Longrightarrow> bv_active v' = Some n \<Longrightarrow> bucket_step b (Activate b (itoa n) e) (XInt 1) v v'"

inductive_cases bucket_stepE: "bucket_step b c x v v'"

lemma same_core_refl [simp]: "same_core v v"
  by (simp add: same_core_def)

lemma same_core_snap [simp]: "same_core v (v\<lparr>bv_snap := s\<rparr>)"
  by (simp add: same_core_def)

lemma activated_core [simp]: "bv_epoch (activated v n t) = bv_epoch v" "bv_retired (activated v n t) = bv_retired v"
  "bv_version (activated v n t) = bv_version v" "bv_active (activated v n t) = Some n"
  by (auto simp: activated_def Let_def split: option.splits)

lemma exec_bucket:
  assumes inv: "cache_inv pub r gs" and i: "i < length gs" and may: "may pub c (gs ! i)" and out: "r_exec c r = (x, r')"
  shows "bucket_step b c x (bucket_view r b) (bucket_view r' b)"
proof -
  have ty: "typed r b'" and core: "core_ok (pub b') (bucket_view r b')" for b' by (rule cache_invD [OF inv])+
  have other: "bucket_step b c x (bucket_view r b) (bucket_view r' b)" if "same_bucket r r' b" "\<And>e. c \<noteq> Allocate b e" "\<And>n e. c \<noteq> Activate b n e"
    unfolding view_same(1) [OF that(1)] by (rule Same) (use that(2,3) in \<open>simp, blast+\<close>)
  show ?thesis
  proof (cases "free_cmd c")
    case True
    have "r_entry r' k = r_entry r k" if "\<not> loose k" for k
      using free_entries [OF True may that, of r] out by simp
    then show ?thesis using True by (intro other free_frame) auto
  next
    case False
    note not_free = False
    show ?thesis
    proof (cases c)
      case (Capture b')
      show ?thesis
      proof (cases "b' = b")
        case True
        have "bucket_view r' b = (if bv_retired (bucket_view r b) = None then (bucket_view r b)\<lparr>bv_epoch := max 1 (bv_epoch (bucket_view r b))\<rparr> else bucket_view r b)"
          using capture_effect(2) [OF ty, of b] out Capture True by (auto simp: with_int_def)
        note new = this
        show ?thesis
        proof (cases "bv_epoch (bucket_view r b) = 0 \<and> bv_retired (bucket_view r b) = None")
          case True
          then show ?thesis using new Capture \<open>b' = b\<close> by (intro First) simp_all
        next
          case False
          then have "bucket_view r' b = bucket_view r b" using new core [of b] by (auto simp: core_ok_def max_def)
          then show ?thesis using Capture by (auto intro: Same)
        qed
      qed (rule other; use Capture out script_local(1) [of b b' r] in \<open>auto simp: with_int_def\<close>)
    next
      case (Retire b')
      show ?thesis
      proof (cases "b' = b")
        case True
        show ?thesis
        proof (cases "bv_retired (bucket_view r b)")
          case None
          then show ?thesis using retire_effect [OF ty, of b] out Retire True by (auto simp: with_int_def intro!: Shut)
        next
          case (Some t)
          then have "bv_active (bucket_view r b) = None" "1 \<le> bv_epoch (bucket_view r b)" using core [of b] by (auto simp: core_ok_def)
          then show ?thesis using Some retire_effect [OF ty, of b] out Retire True by (auto simp: with_int_def same_core_def intro!: Same)
        qed
      qed (rule other; use Retire out script_local(3) [of b b' r] in \<open>auto simp: with_int_def\<close>)
    next
      case (Reopen b')
      show ?thesis
      proof (cases "b' = b")
        case True
        note eff = reopen_effect [OF ty, of b]
        show ?thesis
        proof (cases "bv_retired (bucket_view r b)")
          case None
          have r': "r' = snd (reopen_script b r)" using out Reopen True by (simp add: with_int_def)
          show ?thesis
          proof (cases "bv_epoch (bucket_view r b) = 0")
            case True
            then show ?thesis using None eff Reopen \<open>b' = b\<close> by (intro First) (simp_all add: r')
          next
            case False
            then have "same_core (bucket_view r b) (bucket_view r' b)" using None eff core [of b] by (simp add: same_core_def r' core_ok_def)
            then show ?thesis using Reopen by (auto intro: Same)
          qed
        next
          case (Some t)
          then have "t \<le> bv_epoch (bucket_view r b)" using core [of b] by (auto simp: core_ok_def)
          then show ?thesis using Some eff out Reopen True by (auto simp: with_int_def max_def intro!: Open)
        qed
      qed (rule other; use Reopen out script_local(4) [of b b' r] in \<open>auto simp: with_int_def\<close>)
    next
      case (Allocate b' e)
      then have e: "1 \<le> e" and r': "r' = snd (allocate_script b' e r)" and x: "x = (case fst (allocate_script b' e r) of None \<Rightarrow> XErr | Some n \<Rightarrow> XInt n)"
        using may out by (auto split: prod.splits option.splits)
      show ?thesis
      proof (cases "b' = b")
        case True
        note eff = allocate_effect [OF ty, of b e]
        have ver: "0 \<le> bv_version (bucket_view r b)" using core [of b] by (simp add: core_ok_def)
        show ?thesis
        proof (cases "bv_retired (bucket_view r b) = None \<and> bv_epoch (bucket_view r b) = e \<and> bv_version (bucket_view r b) \<noteq> max_int64")
          case True
          then have "x = XInt (bv_version (bucket_view r b) + 1)" "bucket_view r' b = (bucket_view r b)\<lparr>bv_version := bv_version (bucket_view r b) + 1\<rparr>"
            using eff e \<open>b' = b\<close> by (simp_all add: x r')
          then show ?thesis using True e \<open>b' = b\<close> Allocate by (auto intro!: New)
        next
          case False
          then have "bucket_view r' b = bucket_view r b" "\<And>n. x = XInt n \<Longrightarrow> n < 1"
            using eff e \<open>b' = b\<close> by (auto simp: x r' split: if_splits)
          then show ?thesis using \<open>b' = b\<close> Allocate by (auto intro!: Same)
        qed
      qed (rule other; use Allocate r' script_local(2) [of b b' r] in auto)
    next
      case (Activate b' v e)
      have r': "r' = snd (activate_script b' v e r)" and x: "x = XInt (fst (activate_script b' v e r))" using Activate out by (auto simp: with_int_def)
      show ?thesis
      proof (cases "b' = b")
        case True
        obtain n where v: "v = itoa n" "ready_to_try (pub b) b n e (gs ! i)" using may Activate True by (auto simp: ready_to_try_def)
        have "ghost_ok (pub b) b (bucket_view r b) (gs ! i)" using cache_invD(3) [OF inv] i by simp
        then have n: "1 \<le> n" "e \<noteq> 0" using v(2) by (auto simp: ready_to_try_def)
        note eff = activate_effect [OF ty n, of b]
        show ?thesis
        proof (cases "fst (activate_script b v e r) = 1")
          case True
          then have "bucket_view r' b = activated (bucket_view r b) n (r_now r)" "bv_retired (bucket_view r b) = None" "bv_epoch (bucket_view r b) = e"
            "\<And>c. bv_active (bucket_view r b) = Some c \<Longrightarrow> c \<le> n"
            using eff by (auto simp: v(1) r' \<open>b' = b\<close> split: if_splits)
          then show ?thesis using True unfolding Activate x \<open>b' = b\<close> v(1) by (auto intro!: Switch)
        next
          case False
          then have "bucket_view r' b = (bucket_view r b)\<lparr>bv_snap := (bv_snap (bucket_view r b))(n := None)\<rparr>" using eff by (simp add: v(1) r' \<open>b' = b\<close>)
          then show ?thesis using False unfolding Activate x \<open>b' = b\<close> by (auto intro!: Same)
        qed
      qed (rule other; use Activate r' script_local(5) [of b b' r] in auto)
    next
      case (ZAdd k ms)
      then obtain b' n e w p where "k = KSnap b' (itoa n)" using may by auto
      then have "r_entry r' l = r_entry r l" if "l \<in> {KEpoch b, KRetired b, KVersion b, KActive b}" for l
        using that out ZAdd by auto
      then have "same_core (bucket_view r b) (bucket_view r' b)"
        by (simp add: same_core_def number_or_zero_def r_number_cong [of r' _ r])
      then show ?thesis using ZAdd by (auto intro!: Same)
    qed (use not_free out in \<open>auto intro!: Same\<close>)
  qed
qed

section \<open>What a run keeps\<close>

text \<open>The versions of a bucket whose snapshot had version \<open>v0\<close> in epoch \<open>e0\<close>.\<close>

fun newer_ghost :: "bucket \<Rightarrow> int \<Rightarrow> int \<Rightarrow> ghost \<Rightarrow> bool" where
  "newer_ghost b e0 v0 (Writes b' n e w p) = (b' = b \<longrightarrow> e0 < e \<longrightarrow> v0 < n)"
| "newer_ghost b e0 v0 (Tried b' n e) = (b' = b \<longrightarrow> e0 < e \<longrightarrow> v0 < n)"
| "newer_ghost b e0 v0 g = True"

definition no_older :: "bucket \<Rightarrow> int \<Rightarrow> int \<Rightarrow> redis \<Rightarrow> ghost list \<Rightarrow> bool" where
  "no_older b e0 v0 r gs \<longleftrightarrow> (let v = bucket_view r b in v0 \<le> bv_version v \<and> (\<forall>g\<in>set gs. newer_ghost b e0 v0 g) \<and>
     (bv_epoch v = e0 \<and> bv_retired v = None \<and> (\<exists>n\<ge>v0. bv_active v = Some n) \<or> e0 < bv_epoch v \<and> (\<forall>n. bv_active v = Some n \<longrightarrow> v0 \<le> n)))"

definition since_capture :: "bucket \<Rightarrow> int \<Rightarrow> redis \<Rightarrow> ghost list \<Rightarrow> bool" where
  "since_capture b e0 r gs \<longleftrightarrow> (let v = bucket_view r b in bv_epoch v = e0 \<and> bv_retired v = None \<and> 1 \<le> e0 \<or> e0 < bv_epoch v)"

definition beyond :: "bucket \<Rightarrow> int \<Rightarrow> redis \<Rightarrow> ghost list \<Rightarrow> bool" where
  "beyond b e0 r gs \<longleftrightarrow> e0 < bv_epoch (bucket_view r b)"

definition stale_reply :: "bucket \<Rightarrow> int \<Rightarrow> rcmd \<Rightarrow> rreply \<Rightarrow> bool" where
  "stale_reply b e0 c x \<longleftrightarrow> ((\<exists>e \<le> e0. c = Allocate b e) \<or> (\<exists>v. \<exists>e \<le> e0. c = Activate b v e) \<longrightarrow> x = XErr \<or> x = XInt (-1) \<or> x = XInt (-2))"

text \<open>A further invariant of every command gives a further use of the contract.\<close>

lemma with_side:
  assumes step: "\<And>r gs i c x r'. cache_inv pub r gs \<Longrightarrow> side r gs \<Longrightarrow> i < length gs \<Longrightarrow> may pub c (gs ! i) \<Longrightarrow> r_exec c r = (x, r') \<Longrightarrow>
      extra c x \<and> side r' (gs[i := upd c x (gs ! i)]) \<and> side r' (gs[i := again c (gs ! i)])"
    and fail: "\<And>r gs i c. cache_inv pub r gs \<Longrightarrow> side r gs \<Longrightarrow> i < length gs \<Longrightarrow> may pub c (gs ! i) \<Longrightarrow> extra c XErr \<and> side r (gs[i := upd c XErr (gs ! i)])"
    and pass: "\<And>r gs d. cache_inv pub r gs \<Longrightarrow> side r gs \<Longrightarrow> side (waited d r) gs"
  shows "discipline redis_server (may pub) (\<lambda>c g x. reply pub c g x \<and> extra c x) upd again (\<lambda>r gs. cache_inv pub r gs \<and> side r gs)"
proof unfold_locales
  fix r gs i c x r'
  assume "cache_inv pub r gs \<and> side r gs" "i < length gs" "may pub c (gs ! i)" "sv_exec redis_server c r = Some (x, r')"
  then show "reply pub c (gs ! i) x \<and> extra c x" "cache_inv pub r' (gs[i := upd c x (gs ! i)]) \<and> side r' (gs[i := upd c x (gs ! i)])"
    "cache_inv pub r' (gs[i := again c (gs ! i)]) \<and> side r' (gs[i := again c (gs ! i)])"
    using exec_keeps [of pub r gs i c x r'] step [of r gs i c x r'] by (auto simp: redis_server_def)
next
  fix r gs i c x
  assume "cache_inv pub r gs \<and> side r gs" "i < length gs" "may pub c (gs ! i)" "sv_fault redis_server c = Some x"
  then show "(reply pub c (gs ! i) x \<and> extra c x) \<and> cache_inv pub r (gs[i := upd c x (gs ! i)]) \<and> side r (gs[i := upd c x (gs ! i)])"
    using fail_keeps [of pub r gs i c] fail [of r gs i c] by (auto simp: redis_server_def)
next
  fix r gs d
  assume "cache_inv pub r gs \<and> side r gs"
  then show "cache_inv pub (sv_pass redis_server d r) gs \<and> side (sv_pass redis_server d r) gs"
    using pass_keeps [of pub r gs d] pass [of r gs d] by (simp add: redis_server_def waited_def)
qed (use may_again upd_again in blast)+

lemma waited_core:
  assumes "cache_inv pub r gs"
  shows "same_core (bucket_view r b) (bucket_view (waited d r) b)"
proof -
  have "r_entry (waited d r) k = r_entry r k" if "counter_entry r k" for k using that by (cases rule: counter_cases) (simp_all add: wait_entry)
  then show ?thesis using typed_counters [OF cache_invD(1) [OF assms, of b]]
    by (simp add: same_core_def number_or_zero_def r_number_cong [of "waited d r" _ r])
qed

lemma since_step: "since_capture b e0 r gs \<Longrightarrow> bucket_step b c x (bucket_view r b) (bucket_view r' b) \<Longrightarrow> since_capture b e0 r' gs'"
  unfolding since_capture_def Let_def by (erule bucket_stepE) (auto simp: same_core_def)

lemma beyond_step: "beyond b e0 r gs \<Longrightarrow> bucket_step b c x (bucket_view r b) (bucket_view r' b) \<Longrightarrow> 0 \<le> e0 \<Longrightarrow> beyond b e0 r' gs'"
  unfolding beyond_def by (erule bucket_stepE) (auto simp: same_core_def)

lemma stale_exec:
  assumes inv: "cache_inv pub r gs" and i: "i < length gs" and may: "may pub c (gs ! i)" and out: "r_exec c r = (x, r')" and "beyond b e0 r gs"
  shows "stale_reply b e0 c x"
proof -
  have late: "e0 < bv_epoch (bucket_view r b)" using assms(5) by (simp add: beyond_def)
  have ty: "typed r b" by (rule cache_invD(1) [OF inv])
  have "x = XInt (-1) \<or> x = XInt (-2)" if "c = Allocate b e" "e \<le> e0" for e
    using allocate_effect [OF ty, of e] late that out by (auto split: prod.splits option.splits if_splits)
  moreover have "x = XInt (-1) \<or> x = XInt (-2)" if c: "c = Activate b v e" "e \<le> e0" for v e
  proof -
    obtain n where v: "v = itoa n" "ready_to_try (pub b) b n e (gs ! i)" using may c by (auto simp: ready_to_try_def)
    have "ghost_ok (pub b) b (bucket_view r b) (gs ! i)" using cache_invD(3) [OF inv] i by simp
    then have "1 \<le> n" "e \<noteq> 0" using v(2) by (auto simp: ready_to_try_def)
    then show ?thesis using activate_effect [OF ty, of n e] late c v(1) out by (auto simp: with_int_def split: if_splits)
  qed
  ultimately show ?thesis by (auto simp: stale_reply_def)
qed

lemma upd_newer:
  assumes "g \<in> set (gs[i := upd c x (gs ! i)]) \<or> g \<in> set (gs[i := again c (gs ! i)])" and "\<forall>g\<in>set gs. newer_ghost b e0 v0 g" and "i < length gs"
    and "may pub c (gs ! i)" and "\<And>e n. c = Allocate b e \<Longrightarrow> x = XInt n \<Longrightarrow> 1 \<le> n \<Longrightarrow> e0 < e \<Longrightarrow> v0 < n"
  shows "newer_ghost b e0 v0 g"
proof -
  have old: "newer_ghost b e0 v0 (gs ! i)" using assms(2,3) by simp
  have "newer_ghost b e0 v0 (upd c x (gs ! i))"
  proof (cases c)
    case (Allocate b' e)
    then show ?thesis using assms(5) by (cases x) auto
  next
    case (Get k)
    then show ?thesis using old by (cases k; cases x; cases "gs ! i") (auto split: option.splits rval.splits)
  next
    case (ZRange k)
    then show ?thesis using old by (cases x; cases "gs ! i") auto
  next
    case (ZAdd k ms)
    then show ?thesis using old by (cases "gs ! i") auto
  qed (use old in auto)
  moreover have "newer_ghost b e0 v0 (again c (gs ! i))"
    using old by (cases c; cases "gs ! i") auto
  ultimately show ?thesis using assms(1,2) set_update_subset_insert by fastforce
qed

lemma no_older_step:
  assumes inv: "cache_inv pub r gs" and old: "no_older b e0 v0 r gs" and i: "i < length gs" and may: "may pub c (gs ! i)" and out: "r_exec c r = (x, r')"
  shows "no_older b e0 v0 r' (gs[i := upd c x (gs ! i)]) \<and> no_older b e0 v0 r' (gs[i := again c (gs ! i)])"
proof -
  let ?v = "bucket_view r b" and ?v' = "bucket_view r' b"
  have step: "bucket_step b c x ?v ?v'" by (rule exec_bucket [OF inv i may out])
  have v: "v0 \<le> bv_version ?v" "\<forall>g\<in>set gs. newer_ghost b e0 v0 g"
    "bv_epoch ?v = e0 \<and> bv_retired ?v = None \<and> (\<exists>n\<ge>v0. bv_active ?v = Some n) \<or> e0 < bv_epoch ?v \<and> (\<forall>n. bv_active ?v = Some n \<longrightarrow> v0 \<le> n)"
    using old by (auto simp: no_older_def Let_def)
  have fresh: "v0 < n" if "c = Allocate b e" "x = XInt n" "1 \<le> n" "e0 < e" for e n
    using step that v(1) by (cases rule: bucket_step.cases) auto
  have ghosts: "\<forall>g \<in> set (gs[i := upd c x (gs ! i)]) \<union> set (gs[i := again c (gs ! i)]). newer_ghost b e0 v0 g"
    using upd_newer [OF _ v(2) i may, of _ x] fresh by blast
  have ver: "v0 \<le> bv_version ?v'" using step v(1) by (cases rule: bucket_step.cases) (auto simp: same_core_def)
  have "bv_epoch ?v' = e0 \<and> bv_retired ?v' = None \<and> (\<exists>n\<ge>v0. bv_active ?v' = Some n) \<or> e0 < bv_epoch ?v' \<and> (\<forall>n. bv_active ?v' = Some n \<longrightarrow> v0 \<le> n)"
    using step
  proof (cases rule: bucket_step.cases)
    case (Switch e n)
    have "v0 \<le> n"
    proof (cases "bv_epoch ?v = e0")
      case True
      then show ?thesis using v(3) Switch by fastforce
    next
      case False
      then have "e0 < e" using v(3) Switch by auto
      moreover obtain g where g: "g \<in> set gs" "g = gs ! i" using i by simp
      moreover have "(\<exists>w. g = Writes b n e w []) \<or> g = Tried b n e" using may Switch g by (auto simp: itoa_inj)
      ultimately show ?thesis using v(2) by fastforce
    qed
    then show ?thesis using Switch v(3) by auto
  qed (use v(3) cache_invD(2) [OF inv, of b] in \<open>auto simp: same_core_def core_ok_def\<close>)
  then show ?thesis using ghosts ver by (simp add: no_older_def Let_def)
qed

end
