(* ===== verification/Sched_Stale.thy ===== *)
theory Sched_Stale
  imports Sched_Fence
begin

text \<open>
  Writers with a token of an epoch that is over. \<open>doomed\<close> programs are those that every refused reply leads to an error,
  whatever is left of them; the methods that publish are doomed when the epoch of their token is not above the
  epoch that the bucket has left behind.
\<close>

section \<open>Programs that must fail\<close>

definition must_fail :: "bucket \<Rightarrow> int \<Rightarrow> (rcmd, rreply, go_error + 'a) prog \<Rightarrow> bool" where
  "must_fail b e0 p \<longleftrightarrow> follows (\<lambda>_ _. True) (\<lambda>c _ x. stale_reply b e0 c x) (\<lambda>_ _ g. g) (\<lambda>r g. \<exists>e. r = Inl e) p ()"

definition doomed :: "bucket \<Rightarrow> int \<Rightarrow> (rcmd, rreply, go_error + 'a) prog \<Rightarrow> bool" where
  "doomed b e0 p \<longleftrightarrow> must_fail b e0 p \<and> residuals (must_fail b e0) p"

lemma must_fail_simps [simp]:
  "must_fail b e0 (Ret r) \<longleftrightarrow> (\<exists>e. r = Inl e)"
  "must_fail b e0 (Call c k) \<longleftrightarrow> (\<forall>x. stale_reply b e0 c x \<longrightarrow> must_fail b e0 (k x))"
  by (simp_all add: must_fail_def)

lemma doomed_Ret [simp]: "doomed b e0 (Ret (Inl e))"
  by (simp add: doomed_def)

lemma must_fail_bind: "(\<And>r. must_fail b e0 (f r)) \<Longrightarrow> must_fail b e0 (pbind p f)"
  by (induction p) auto

lemma must_fail_ebind: "must_fail b e0 p \<Longrightarrow> must_fail b e0 (ebind p f)"
  unfolding ebind_def by (induction p) auto

lemma must_fail_res: "must_fail b e0 p \<Longrightarrow> must_fail b e0 (with_res f p)"
  unfolding with_res_def by (induction p) auto

lemma doomed_after:
  assumes "\<And>a. doomed b e0 (f a)"
  shows "doomed b e0 (ebind p f)"
proof -
  have f: "must_fail b e0 (case r of Inl e \<Rightarrow> Ret (Inl e) | Inr a \<Rightarrow> f a)" "residuals (must_fail b e0) (case r of Inl e \<Rightarrow> Ret (Inl e) | Inr a \<Rightarrow> f a)" for r
    using assms by (auto simp: doomed_def split: sum.splits)
  have "residuals (must_fail b e0) (ebind p f)"
    unfolding ebind_def by (induction p) (auto simp: f must_fail_bind)
  then show ?thesis using must_fail_bind [OF f(1)] by (simp add: doomed_def ebind_def)
qed

lemma doomed_before:
  assumes "doomed b e0 p" and "\<And>a. residuals (must_fail b e0) (f a)"
  shows "doomed b e0 (ebind p f)"
proof -
  have "residuals (must_fail b e0) (ebind p f)"
    unfolding ebind_def
  proof (rule residuals_bind)
    show "residuals (must_fail b e0) p" using assms(1) by (simp add: doomed_def)
  qed (use assms(2) must_fail_ebind [unfolded ebind_def] in \<open>auto split: sum.splits\<close>)
  then show ?thesis using must_fail_ebind [of b e0 p f] assms(1) by (simp add: doomed_def)
qed

lemma doomed_res: "doomed b e0 p \<Longrightarrow> doomed b e0 (with_res f p)"
  unfolding doomed_def with_res_def
  by (intro conjI residuals_bind [where Q' = "must_fail b e0" and p = p]) (auto intro: must_fail_res [unfolded with_res_def])

lemma doomed_activate: "wt_epoch tok \<le> e0 \<Longrightarrow> doomed b e0 (activate_version b tok v)"
  unfolding activate_version_def
  by (rule doomed_before) (auto simp: doomed_def fence_call_def attempt_def stale_reply_def write_result_error_def split: rreply.splits)

text \<open>Only the last step of a method that publishes, the activation, needs a reply that the old epoch does not get.\<close>

lemma doomed_set: "wt_epoch tok \<le> e0 \<Longrightarrow> doomed b e0 (set_snapshot enc cc b tok accs)"
  and doomed_set_by_ids: "wt_epoch tok \<le> e0 \<Longrightarrow> doomed b e0 (set_snapshot_by_ids cc b tok ids)"
  by (auto simp: set_snapshot_def set_snapshot_by_ids_def intro!: doomed_after doomed_activate)

lemma doomed_set_ids: "wt_epoch tok \<le> e0 \<Longrightarrow> doomed b e0 (set_snapshot_ids enc cc b tok accs)"
proof -
  assume "wt_epoch tok \<le> e0"
  then have last_step: "doomed b e0 (ebind (activate_version b tok v) (\<lambda>_. Ret (Inr ids)))" for v and ids :: "int64 list"
    by (auto intro: doomed_before doomed_activate)
  show ?thesis by (auto simp: set_snapshot_ids_def intro!: doomed_after last_step)
qed

fun publishes_with :: "cache_op \<Rightarrow> (bucket \<times> write_token) option" where
  "publishes_with (OpSet b tok accs) = Some (b, tok)"
| "publishes_with (OpSetIds b tok accs) = Some (b, tok)"
| "publishes_with (OpSetById b tok ids) = Some (b, tok)"
| "publishes_with op = None"

lemma doomed_op: "publishes_with op = Some (b, tok) \<Longrightarrow> wt_epoch tok \<le> e0 \<Longrightarrow> doomed b e0 (op_prog enc cc op)"
  by (cases op) (auto intro: doomed_res doomed_set doomed_set_ids doomed_set_by_ids)

section \<open>Replies after the epoch is over\<close>

lemma since_discipline: "discipline redis_server (may pub) (\<lambda>c g x. reply pub c g x \<and> True) upd again (\<lambda>r gs. cache_inv pub r gs \<and> since_capture b e0 r gs)"
proof (rule with_side)
  fix r gs d
  assume "cache_inv pub r gs" "since_capture b e0 r gs"
  then show "since_capture b e0 (waited d r) gs" using waited_core [of pub r gs b d] by (simp add: since_capture_def same_core_def Let_def)
next
  fix r gs i c x r'
  assume "cache_inv pub r gs" "since_capture b e0 r gs" "i < length gs" "may pub c (gs ! i)" "r_exec c r = (x, r')"
  then show "True \<and> since_capture b e0 r' (gs[i := upd c x (gs ! i)]) \<and> since_capture b e0 r' (gs[i := again c (gs ! i)])"
    using exec_bucket since_step by blast
qed (simp add: since_capture_def)

lemma beyond_discipline:
  assumes "0 \<le> e0"
  shows "discipline redis_server (may pub) (\<lambda>c g x. reply pub c g x \<and> stale_reply b e0 c x) upd again (\<lambda>r gs. cache_inv pub r gs \<and> beyond b e0 r gs)"
proof (rule with_side)
  fix r gs d
  assume "cache_inv pub r gs" "beyond b e0 r gs"
  then show "beyond b e0 (waited d r) gs" using waited_core [of pub r gs b d] by (simp add: beyond_def same_core_def)
next
  fix r gs i c x r'
  assume "cache_inv pub r gs" "beyond b e0 r gs" "i < length gs" "may pub c (gs ! i)" "r_exec c r = (x, r')"
  then show "stale_reply b e0 c x \<and> beyond b e0 r' (gs[i := upd c x (gs ! i)]) \<and> beyond b e0 r' (gs[i := again c (gs ! i)])"
    using beyond_step [OF _ exec_bucket assms] stale_exec by metis
qed (simp_all add: beyond_def stale_reply_def)

lemma follows_fewer: "follows m a u fin p g \<Longrightarrow> (\<And>c g x. a' c g x \<Longrightarrow> a c g x) \<Longrightarrow> follows m a' u fin p g"
  by (induction p arbitrary: g) auto

lemma follows_must_fail:
  "follows m (\<lambda>c g x. a c g x \<and> stale_reply b e0 c x) u fin p g \<Longrightarrow> must_fail b e0 p \<Longrightarrow>
   follows m (\<lambda>c g x. a c g x \<and> stale_reply b e0 c x) u (\<lambda>r g. \<exists>e. r = Inl e) p g"
  by (induction p arbitrary: g) auto

lemma on_track_mono:
  assumes "cache.on_track pub fin (r, ts) gs" and "side r gs"
    and "discipline redis_server (may pub) (\<lambda>c g x. reply pub c g x \<and> extra c x) upd again (\<lambda>r gs. cache_inv pub r gs \<and> side r gs)"
  shows "discipline.on_track (may pub) (\<lambda>c g x. reply pub c g x \<and> extra c x) upd (\<lambda>r gs. cache_inv pub r gs \<and> side r gs) fin (r, ts) gs"
  using assms(1,2) unfolding discipline.on_track_def [OF assms(3)] cache.on_track_def by (auto elim: follows_fewer)

lemma capture_since:
  assumes "cache_inv pub r gs" and "run_alone redis_server (capture_token b) r = Some (Inr tok, r')"
  shows "cache_inv pub r' gs \<and> since_capture b (wt_epoch tok) r' gs \<and> 1 \<le> wt_epoch tok"
proof -
  note eff = capture_effect [OF cache_invD(1) [OF assms(1)], of b]
  have "r' = snd (capture_script b r)" "wt_epoch tok = fst (capture_script b r)" "fst (capture_script b r) \<noteq> -1"
    using assms(2) by (auto simp: capture_token_def fence_call_def attempt_def ebind_def redis_server_def with_int_def write_result_error_def split: if_splits)
  then show ?thesis using eff exec_capture [OF assms(1), of b] by (auto simp: since_capture_def Let_def with_int_def split: if_splits)
qed

lemma retire_beyond:
  assumes "cache_inv pub r gs" and "since_capture b e0 r gs" and "0 \<le> e0" and "run_alone redis_server (retire_bucket b) r = Some (res, r')"
  shows "cache_inv pub r' gs \<and> beyond b e0 r' gs \<and> bv_active (bucket_view r' b) = None \<and> r_look r' (KReady b) = None"
proof -
  note eff = retire_effect [OF cache_invD(1) [OF assms(1)], of b]
  have r': "r' = snd (retire_script b r)"
    using assms(4) by (auto simp: retire_bucket_def attempt_def redis_server_def with_int_def split: if_splits)
  have "r_look r' (KReady b) = None" unfolding r' retire_script_def hide_bucket_def by (auto simp: Let_def r_look_def split: prod.splits)
  then show ?thesis using eff exec_retire [OF assms(1), of b] assms(2,3) cache_invD(2) [OF assms(1), of b]
    by (auto simp: r' beyond_def since_capture_def Let_def with_int_def hidden_def split: option.splits)
qed

end
