(* ===== verification/Sched_Cache_Props.thy ===== *)
theory Sched_Cache_Props
  imports Sched_Stale
begin

text \<open>
  The properties of the scheduler cache, for any number of its operations side by side, in any order of their
  commands, with commands lost, repeated or failing at any point, and with any passage of time.
\<close>

section \<open>Every operation keeps to the protocol\<close>

definition outcome :: "cache_op \<Rightarrow> go_error + cache_res \<Rightarrow> ghost \<Rightarrow> bool" where
  "outcome op = (case op of OpGetSnapshot b \<Rightarrow> hit_of b | _ \<Rightarrow> (\<lambda>r g. True))"

lemma keeps_pipeline:
  assumes "\<And>c x. c \<in> set cs \<Longrightarrow> may pub c g \<and> upd c x g = g"
  shows "keeps_to pub (\<lambda>r g. True) (pipeline cs ok) g"
  using assms by (induction cs arbitrary: ok) auto

lemma last_used_cmds_free: "c \<in> set (last_used_cmds us args) \<Longrightarrow> free_cmd c \<and> may pub c g"
  by (induction us args rule: last_used_cmds.induct) (auto simp: free_key_def Let_def split: if_splits option.splits)

lemma keeps_any: "keeps_to pub fin p g \<Longrightarrow> keeps_to pub (\<lambda>r g. True) p g"
  by (rule follows_mono) simp_all

lemma keeps_free:
  "keeps_to pub (\<lambda>r g. True) (capture_token b) Idle" "keeps_to pub (\<lambda>r g. True) (reopen_bucket b) Idle"
  "keeps_to pub (\<lambda>r g. True) (retire_bucket b) Idle" "keeps_to pub (\<lambda>r g. True) (get_account i) Idle"
  "keeps_to pub (\<lambda>r g. True) (delete_account i) Idle" "keeps_to pub (\<lambda>r g. True) (try_lock_bucket b ttl stamp) Idle"
  "keeps_to pub (\<lambda>r g. True) (unlock_bucket b) Idle" "keeps_to pub (\<lambda>r g. True) (acquire_lease n ttl stamp) Idle"
  "keeps_to pub (\<lambda>r g. True) (release_lease l) Idle" "keeps_to pub (\<lambda>r g. True) list_buckets Idle"
  "keeps_to pub (\<lambda>r g. True) get_watermark Idle" "keeps_to pub (\<lambda>r g. True) (set_watermark i) Idle"
  by (auto intro!: keeps_ebind simp: capture_token_def reopen_bucket_def retire_bucket_def get_account_def delete_account_def try_lock_bucket_def
    unlock_bucket_def acquire_lease_def release_lease_def list_buckets_def get_watermark_def set_watermark_def expect_bool_def keeps_fence keeps_attempt
    free_key_def split: sum.splits rreply.splits option.splits list.splits)

lemma keeps_set_account: "keeps_to pub (\<lambda>r g. True) (set_account enc cc a) Idle"
  unfolding set_account_def
  by (auto simp: keeps_free intro!: keeps_ebind follows_mono [OF keeps_accounts] split: option.splits sum.splits)

lemma op_keeps:
  assumes "cfg_ok cc" and "op \<in> set ops"
  shows "keeps_to (publications enc ops) (outcome op) (op_prog enc cc op) Idle"
proof -
  have pub: "published enc op = Some (b, ids) \<Longrightarrow> ids \<in> publications enc ops b" for b ids
    using assms(2) by (auto simp: publications_def)
  have easy: "keeps_to (publications enc ops) (\<lambda>r g. True) p Idle \<Longrightarrow> keeps_to (publications enc ops) (\<lambda>r g. True) (with_res f p) Idle" for f :: "'a \<Rightarrow> cache_res" and p
    by (rule keeps_res)
  show ?thesis
  proof (cases op)
    case (OpGetSnapshot b)
    then show ?thesis using keeps_get [OF assms(1)] by (simp add: outcome_def)
  next
    case (OpLastUsed us)
    have "keeps_to (publications enc ops) (\<lambda>r g. True) (update_last_used us) Idle"
      unfolding update_last_used_def by (rule keeps_pipeline) (use last_used_cmds_free free_same in blast)
    then show ?thesis using OpLastUsed by (auto simp: outcome_def intro!: easy)
  qed (auto simp: outcome_def intro!: easy keeps_free keeps_set_account keeps_set [OF assms(1) pub] keeps_set_by_ids [OF assms(1) pub])
qed

lemma empty_entry [simp]: "r_entry (redis_empty t) k = None"
  by (simp add: r_entry_def redis_empty_def)

lemma empty_inv: "cache_inv pub (redis_empty t) (replicate n Idle)"
  by (auto simp: cache_inv_def typed_def counter_entry_def bucket_ok_def core_ok_def ghosts_apart_def docs_ok_def number_or_zero_def
    r_number_def r_get_def r_look_def snap_entry_def max_int64_def)

lemma start_on_track:
  assumes "cfg_ok cc"
  shows "cache.on_track (publications enc ops) (\<lambda>i. outcome (ops ! i)) (redis_empty now, map (op_prog enc cc) ops) (replicate (length ops) Idle)"
  using op_keeps [OF assms] by (simp add: cache.on_track_def empty_inv)

lemma cache_run_on_track:
  assumes "cfg_ok cc" and "cache_run enc cc ops now es = (r, ts)"
  shows "\<exists>gs. cache.on_track (publications enc ops) (\<lambda>i. outcome (ops ! i)) (r, ts) gs" and "length ts = length ops"
proof -
  have "\<exists>gs. cache.on_track (publications enc ops) (\<lambda>i. outcome (ops ! i)) (conc_run redis_server es (redis_empty now, map (op_prog enc cc) ops)) gs"
    by (rule cache.run_on_track [OF start_on_track [OF assms(1)]])
  then show "\<exists>gs. cache.on_track (publications enc ops) (\<lambda>i. outcome (ops ! i)) (r, ts) gs" using assms(2) by (simp add: cache_run_def)
  show "length ts = length ops"
    using length_run [of redis_server es "(redis_empty now, map (op_prog enc cc) ops)"] unfolding assms(2) [unfolded cache_run_def] by simp
qed

section \<open>Readers see whole snapshots\<close>

text \<open>
Claim C5: whatever operations of the cache run side by side, and whatever commands are lost, repeated or fail, a
snapshot that GetSnapshot returns lists exactly the accounts of one list that one writer was to publish in
this bucket, each once, never a part of it or a mixture.
\<close>

theorem snapshots_whole:
  assumes "cache_run enc (new_cache_cfg m w) ops now es = (r, ts)" and "i < length ops" and "ops ! i = OpGetSnapshot b"
    and "ts ! i = Ret (Inr (RHit (Some accs)))"
  shows "accs \<noteq> [] \<and> (\<exists>op\<in>set ops. \<exists>ids. published enc op = Some (b, ids) \<and> map sa_id accs = remdups ids)"
proof -
  obtain gs where gs: "cache.on_track (publications enc ops) (\<lambda>i. outcome (ops ! i)) (r, ts) gs" and len: "length ts = length ops"
    using cache_run_on_track [OF new_cfg_ok assms(1)] by auto
  then have inv: "cache_inv (publications enc ops) r gs" and g: "gs ! i \<in> set gs" "hit_of b (Inr (RHit (Some accs))) (gs ! i)"
    using assms(2-4) by (auto simp: cache.on_track_def outcome_def)
  then have hold: "accs \<noteq> []" "gs ! i = Holds b (map (\<lambda>a. itoa (sa_id a)) accs)" by (simp_all add: hit_of_def)
  then obtain ids where "ids \<in> publications enc ops b" "map (\<lambda>a. itoa (sa_id a)) accs = map itoa (remdups ids)"
    using cache_invD(3) [OF inv g(1), of b] by auto
  moreover from this have "map itoa (map sa_id accs) = map itoa (remdups ids)" by (simp add: comp_def)
  then have "map sa_id accs = remdups ids" by (rule injD [OF list.inj_map, rotated]) (simp add: inj_def itoa_inj)
  ultimately show ?thesis using hold(1) by (auto simp: publications_def)
qed

section \<open>Snapshots never go back\<close>

lemma no_older_start:
  assumes "cache_inv pub r gs" and "bv_active (bucket_view r b) = Some n"
  shows "no_older b (bv_epoch (bucket_view r b)) n r gs"
proof -
  have "newer_ghost b (bv_epoch (bucket_view r b)) n g" if "g \<in> set gs" for g
    using cache_invD(3) [OF assms(1) that, of b] by (cases g) auto
  then show ?thesis using cache_invD(2) [OF assms(1), of b] assms(2) unfolding no_older_def Let_def core_ok_def by fastforce
qed

lemma fail_side:
  assumes "no_older b e0 v0 r gs" and "i < length gs" and "may pub c (gs ! i)"
  shows "no_older b e0 v0 r (gs[i := upd c XErr (gs ! i)])"
  using assms upd_newer [of _ gs i c XErr b e0 v0, OF _ _ assms(2,3)] by (auto simp: no_older_def Let_def)

lemma no_older_discipline: "discipline redis_server (may pub) (\<lambda>c g x. reply pub c g x \<and> True) upd again (\<lambda>r gs. cache_inv pub r gs \<and> no_older b e0 v0 r gs)"
proof (rule with_side)
  fix r gs d
  assume "cache_inv pub r gs" "no_older b e0 v0 r gs"
  then show "no_older b e0 v0 (waited d r) gs" using waited_core [of pub r gs b d] by (simp add: no_older_def same_core_def Let_def)
qed (use no_older_step fail_side in blast)+

text \<open>
Claim C19: the version that readers of a bucket are pointed to never decreases: neither a slow writer, nor a
retirement and reopening of the bucket, nor a repeated command brings an older snapshot back.
\<close>

theorem versions_forward:
  assumes "cache_run enc (new_cache_cfg m w) ops now es = (r, ts)" and "bv_active (bucket_view r b) = Some n"
    and "conc_run redis_server es' (r, ts) = (r', ts')" and "bv_active (bucket_view r' b) = Some n'"
  shows "n \<le> n'"
proof -
  let ?e = "bv_epoch (bucket_view r b)"
  obtain gs where gs: "cache.on_track (publications enc ops) (\<lambda>i. outcome (ops ! i)) (r, ts) gs"
    using cache_run_on_track [OF new_cfg_ok assms(1)] by auto
  then have inv: "cache_inv (publications enc ops) r gs" by (simp add: cache.on_track_def)
  note D = no_older_discipline [of "publications enc ops" b ?e n]
  have "discipline.on_track (may (publications enc ops)) (\<lambda>c g x. reply (publications enc ops) c g x \<and> True) upd
      (\<lambda>r gs. cache_inv (publications enc ops) r gs \<and> no_older b ?e n r gs) (\<lambda>i. outcome (ops ! i)) (r, ts) gs"
    using gs no_older_start [OF inv assms(2)] unfolding discipline.on_track_def [OF D] cache.on_track_def by auto
  from discipline.run_on_track [OF D this, of es'] obtain gs' where "no_older b ?e n r' gs'"
    unfolding assms(3) discipline.on_track_def [OF D] by auto
  then show ?thesis using assms(4) by (auto simp: no_older_def Let_def)
qed

section \<open>Writers of an old epoch fail\<close>

text \<open>
Claim C18: once a bucket is retired, a writer that holds a token captured before and has not finished can only fail:
whatever runs meanwhile, reopening included, and whatever is lost or repeated, it never reports success; and
right after the retirement readers find no snapshot of the bucket.
\<close>

theorem fenced_writers:
  assumes "cache_run enc (new_cache_cfg m n) ops now es0 = (r0, ts0)" and "run_alone redis_server (capture_token b) r0 = Some (Inr tok, r1)"
    and "conc_run redis_server es1 (r1, ts0) = (r2, ts2)" and "run_alone redis_server (retire_bucket b) r2 = Some (Inr (), r3)"
    and "conc_run redis_server es2 (r3, ts2) = (r4, ts4)" and "w < length ops" and "publishes_with (ops ! w) = Some (b, tok)"
    and "unfinished (ts2 ! w)" and "ts4 ! w = Ret res"
  shows "(\<exists>e. res = Inl e) \<and> run_alone redis_server (get_snapshot (new_cache_cfg m n) b) r3 = Some (Inr None, r3)"
proof -
  let ?pub = "publications enc ops" and ?e = "wt_epoch tok" and ?fin = "\<lambda>i. outcome (ops ! i)"
  have len: "length ts0 = length ops" by (rule cache_run_on_track [OF new_cfg_ok assms(1)])
  obtain gs where gs: "cache.on_track ?pub ?fin (r0, ts0) gs" using cache_run_on_track [OF new_cfg_ok assms(1)] by auto
  then have "cache_inv ?pub r0 gs" by (simp add: cache.on_track_def)
  from capture_since [OF this assms(2)] have cap: "cache_inv ?pub r1 gs" "since_capture b ?e r1 gs" "1 \<le> ?e" by simp_all
  then have on1: "cache.on_track ?pub ?fin (r1, ts0) gs" using gs by (simp add: cache.on_track_def)
  note S = since_discipline [of ?pub b ?e]
  note run1 = discipline.run_on_track [OF S on_track_mono [where side = "since_capture b ?e" and extra = "\<lambda>_ _. True", OF on1 cap(2) S], of es1, unfolded assms(3) discipline.on_track_def [OF S]]
  then obtain gs1 where one: "cache_inv ?pub r2 gs1" "since_capture b ?e r2 gs1" "length gs1 = length ts2"
    "\<And>i. i < length gs1 \<Longrightarrow> keeps_to ?pub (?fin i) (ts2 ! i) (gs1 ! i)" by auto
  have ret: "cache_inv ?pub r3 gs1" "beyond b ?e r3 gs1" "r_look r3 (KReady b) = None"
    using retire_beyond [OF one(1,2) _ assms(4)] cap(3) by simp_all
  have B: "discipline redis_server (may ?pub) (\<lambda>c g x. reply ?pub c g x \<and> stale_reply b ?e c x) upd again (\<lambda>r gs. cache_inv ?pub r gs \<and> beyond b ?e r gs)"
    using beyond_discipline cap(3) by simp
  have len2: "length ts2 = length ops" using length_run [of redis_server es1 "(r1, ts0)"] len unfolding assms(3) by simp
  let ?fin' = "\<lambda>i. if i = w then \<lambda>r g. \<exists>e. r = Inl e else ?fin i"
  have "residuals (must_fail b ?e) (ts2 ! w)"
  proof -
    have start: "residuals (must_fail b ?e) (map (op_prog enc (new_cache_cfg m n)) ops ! w)"
      using doomed_op [OF assms(7), of ?e] assms(6) by (simp add: doomed_def)
    have "residuals (must_fail b ?e) (ts0 ! w)"
      using residuals_run [of w "(redis_empty now, map (op_prog enc (new_cache_cfg m n)) ops)" _ redis_server es0] start assms(6)
      unfolding assms(1) [unfolded cache_run_def] by simp
    then show ?thesis using residuals_run [of w "(r1, ts0)" _ redis_server es1] assms(6) len unfolding assms(3) by simp
  qed
  then have doom: "must_fail b ?e (ts2 ! w)" using residuals_unfinished assms(8) by blast
  have "cache.on_track ?pub ?fin (r3, ts2) gs1" using one ret(1) by (simp add: cache.on_track_def)
  from on_track_mono [where side = "beyond b ?e" and extra = "stale_reply b ?e", OF this ret(2) B]
  have "discipline.on_track (may ?pub) (\<lambda>c g x. reply ?pub c g x \<and> stale_reply b ?e c x) upd (\<lambda>r gs. cache_inv ?pub r gs \<and> beyond b ?e r gs) ?fin' (r3, ts2) gs1"
    unfolding discipline.on_track_def [OF B] using follows_must_fail [where fin = "?fin w" and m = "may ?pub" and a = "reply ?pub" and u = upd and g = "gs1 ! w", OF _ doom] by auto
  from discipline.run_final [OF B this assms(5)] have "\<exists>e. res = Inl e"
    using assms(6,9) len2 length_run [of redis_server es2 "(r3, ts2)"] unfolding assms(5) by fastforce
  moreover have "run_alone redis_server (get_snapshot (new_cache_cfg m n) b) r3 = Some (Inr None, r3)"
    using ret(3) by (simp add: get_snapshot_def attempt_def redis_server_def plain_value_def)
  ultimately show ?thesis by simp
qed

section \<open>Concrete runs\<close>

definition cache_demo_bucket :: bucket where "cache_demo_bucket = \<lparr>sb_group = 3, sb_platform = ''openai'', sb_mode = ''single''\<rparr>"
definition cache_demo_token :: write_token where "cache_demo_token = \<lparr>wt_bucket = cache_demo_bucket, wt_epoch = 1\<rparr>"

definition cache_demo_account :: "int64 \<Rightarrow> sched_account" where
  "cache_demo_account i = \<lparr>sa_id = i, sa_name = ''n'', sa_platform = ''openai'', sa_type = ''oauth'', sa_concurrency = 1, sa_load_factor = None,
     sa_priority = 0, sa_rate = None, sa_status = ''active'', sa_last_used = None, sa_expires_at = None, sa_auto_pause = False,
     sa_schedulable = True, sa_limited_at = None, sa_limit_reset = None, sa_overload_until = None, sa_unsched_until = None,
     sa_unsched_reason = [], sa_window_start = None, sa_window_end = None, sa_window_status = [], sa_parent = None, sa_quota_dim = [],
     sa_groups = [], sa_group_ids = [], sa_credentials = [], sa_extra = [], sa_private = []\<rparr>"

definition cache_demo_read :: "cache_op list" where
  "cache_demo_read = [OpSet cache_demo_bucket cache_demo_token [cache_demo_account 7, cache_demo_account 5], OpGetSnapshot cache_demo_bucket, OpCapture cache_demo_bucket]"

definition cache_demo_schedule :: "event list" where
  "cache_demo_schedule = [Exec 2, Exec 0, Lost 0, Exec 0, Exec 0, Exec 0, Exec 0, Exec 0, Lost 0, Exec 0, Exec 1, Exec 1, Exec 1, Exec 1, Exec 1]"

lemma cache_demo_hit: "map_option (map sa_id) (case snd (cache_run (\<lambda>_. True) (new_cache_cfg 0 0) cache_demo_read 0 cache_demo_schedule) ! 1 of Ret (Inr (RHit x)) \<Rightarrow> x | _ \<Rightarrow> None) = Some [7, 5]"
  by code_simp

lemma snapshots_whole_witness:
  "\<exists>accs. snd (cache_run (\<lambda>_. True) (new_cache_cfg 0 0) cache_demo_read 0 cache_demo_schedule) ! 1 = Ret (Inr (RHit (Some accs))) \<and> accs \<noteq> [] \<and>
     (\<exists>op\<in>set cache_demo_read. \<exists>ids. published (\<lambda>_. True) op = Some (cache_demo_bucket, ids) \<and> map sa_id accs = remdups ids)"
proof -
  obtain accs where hit: "snd (cache_run (\<lambda>_. True) (new_cache_cfg 0 0) cache_demo_read 0 cache_demo_schedule) ! 1 = Ret (Inr (RHit (Some accs)))"
    using cache_demo_hit by (auto split: prog.splits sum.splits cache_res.splits option.splits)
  then show ?thesis
    using snapshots_whole [OF surjective_pairing _ _ hit, of cache_demo_bucket] by (auto simp: cache_demo_read_def)
qed

definition cache_demo_race :: "cache_op list" where
  "cache_demo_race = [OpSetById cache_demo_bucket cache_demo_token [7], OpSetById cache_demo_bucket cache_demo_token [9], OpCapture cache_demo_bucket, OpReopen cache_demo_bucket]"

definition cache_demo_before :: "redis \<times> cache_res cache_prog list" where
  "cache_demo_before = cache_run (\<lambda>_. True) (new_cache_cfg 0 0) cache_demo_race 0 [Exec 2, Exec 0, Exec 1, Exec 1, Exec 1]"

definition cache_demo_after :: "redis \<times> cache_res cache_prog list" where
  "cache_demo_after = conc_run redis_server [Exec 0, Exec 0] cache_demo_before"

lemma cache_demo_versions: "bv_active (bucket_view (fst cache_demo_before) cache_demo_bucket) = Some 2 \<and> bv_active (bucket_view (fst cache_demo_after) cache_demo_bucket) = Some 2"
  by code_simp

lemma versions_forward_witness:
  "bv_active (bucket_view (fst cache_demo_before) cache_demo_bucket) = Some 2 \<and> bv_active (bucket_view (fst cache_demo_after) cache_demo_bucket) = Some 2 \<and> (2 :: int) \<le> 2"
  using cache_demo_versions
    versions_forward [of "\<lambda>_. True" 0 0 cache_demo_race 0 "[Exec 2, Exec 0, Exec 1, Exec 1, Exec 1]" "fst cache_demo_before" "snd cache_demo_before" cache_demo_bucket 2
      "[Exec 0, Exec 0]" "fst cache_demo_after" "snd cache_demo_after" 2]
  by (simp add: cache_demo_before_def cache_demo_after_def)

text \<open>A writer captures a token, the bucket is retired and reopened, and the writer goes on.\<close>

definition cache_demo_fence :: "cache_op list" where "cache_demo_fence = [OpSetById cache_demo_bucket cache_demo_token [7], OpReopen cache_demo_bucket]"

definition fence_run :: "((redis \<times> cache_res cache_prog list) \<times> write_token \<times> (redis \<times> cache_res cache_prog list) \<times> redis \<times> (redis \<times> cache_res cache_prog list)) option" where
  "fence_run = (case cache_run (\<lambda>_. True) (new_cache_cfg 0 0) cache_demo_fence 0 [] of (r0, ts0) \<Rightarrow>
     (case run_alone redis_server (capture_token cache_demo_bucket) r0 of
        Some (Inr tok, r1) \<Rightarrow> (case conc_run redis_server [Exec 0, Exec 0] (r1, ts0) of (r2, ts2) \<Rightarrow>
          (case run_alone redis_server (retire_bucket cache_demo_bucket) r2 of
             Some (Inr u, r3) \<Rightarrow> Some ((r0, ts0), tok, (r2, ts2), r3, conc_run redis_server [Exec 1, Lost 0, Exec 0] (r3, ts2))
           | _ \<Rightarrow> None))
      | _ \<Rightarrow> None))"

definition fence_demo_ok :: bool where
  "fence_demo_ok = (case fence_run of Some (c0, tok, (r2, ts2), r3, (r4, ts4)) \<Rightarrow> tok = cache_demo_token \<and>
     (case ts2 ! 0 of Ret _ \<Rightarrow> False | _ \<Rightarrow> True) \<and> (case ts4 ! 0 of Ret (Inl _) \<Rightarrow> True | _ \<Rightarrow> False) | None \<Rightarrow> False)"

lemma fence_demo_runs: "fence_demo_ok"
  by code_simp


lemma fence_demo_parts:
  obtains r0 ts0 r1 r2 ts2 r3 r4 ts4 e where
    "cache_run (\<lambda>_. True) (new_cache_cfg 0 0) cache_demo_fence 0 [] = (r0, ts0)"
    "run_alone redis_server (capture_token cache_demo_bucket) r0 = Some (Inr cache_demo_token, r1)"
    "conc_run redis_server [Exec 0, Exec 0] (r1, ts0) = (r2, ts2)"
    "run_alone redis_server (retire_bucket cache_demo_bucket) r2 = Some (Inr (), r3)"
    "conc_run redis_server [Exec 1, Lost 0, Exec 0] (r3, ts2) = (r4, ts4)"
    "unfinished (ts2 ! 0)" "ts4 ! 0 = Ret (Inl e)" "fence_run = Some ((r0, ts0), cache_demo_token, (r2, ts2), r3, (r4, ts4))"
  using fence_demo_runs unfolding fence_demo_ok_def
  by (auto simp: fence_run_def unfinished_def split: option.splits prod.splits sum.splits prog.splits)

lemma fenced_writers_witness:
  "\<exists>c0 c2 r3 c4 e. fence_run = Some (c0, cache_demo_token, c2, r3, c4) \<and> snd c4 ! 0 = Ret (Inl e) \<and>
     run_alone redis_server (get_snapshot (new_cache_cfg 0 0) cache_demo_bucket) r3 = Some (Inr None, r3)"
proof -
  obtain r0 ts0 r1 r2 ts2 r3 r4 ts4 e where run: "cache_run (\<lambda>_. True) (new_cache_cfg 0 0) cache_demo_fence 0 [] = (r0, ts0)"
    "run_alone redis_server (capture_token cache_demo_bucket) r0 = Some (Inr cache_demo_token, r1)" "conc_run redis_server [Exec 0, Exec 0] (r1, ts0) = (r2, ts2)"
    "run_alone redis_server (retire_bucket cache_demo_bucket) r2 = Some (Inr (), r3)" "conc_run redis_server [Exec 1, Lost 0, Exec 0] (r3, ts2) = (r4, ts4)"
    "unfinished (ts2 ! 0)" "ts4 ! 0 = Ret (Inl e)" "fence_run = Some ((r0, ts0), cache_demo_token, (r2, ts2), r3, (r4, ts4))"
    by (rule fence_demo_parts)
  then have "run_alone redis_server (get_snapshot (new_cache_cfg 0 0) cache_demo_bucket) r3 = Some (Inr None, r3)"
    using fenced_writers [OF run(1-5), of 0 "Inl e"] by (simp add: cache_demo_fence_def)
  with run(7,8) show ?thesis by (metis snd_conv)
qed

end
