(* ===== verification/Sched_Coalesce.thy ===== *)
theory Sched_Coalesce
  imports Client_Program Go_Errors
begin

text \<open>
  \<open>coalesceFullRebuild\<close> of \<open>backend/internal/service/scheduler_snapshot_service.go\<close>: callers that ask for a full
  rebuild share runs. The critical sections under \<open>fullRebuildStateMu\<close> and the operations on \<open>fullRebuildRunMu\<close> are
  the commands of a server, a caller is a program over them, and taking the held lock blocks. The results of the
  runs come from a list. \<open>co_log\<close> is a history variable: who asked with which number, which run
  started with which coverage, and how it ended. The counters are 64-bit in the code; \<open>2^64\<close> requests are not reached.
\<close>

datatype co_entry = LAsk nat nat | LStart nat nat | LEnd nat nat "go_error option"

record coalescer =
  co_requested :: nat
  co_completed :: nat
  co_last :: "go_error option"
  co_locked :: bool
  co_results :: "go_error option list"
  co_log :: "co_entry list"

datatype co_cmd = Register nat | LockRun | Check nat nat | Run nat nat | Finish nat "go_error option" | UnlockRun

datatype co_reply = CoId nat | CoUnit | CoShared "go_error option" | CoCover nat | CoResult "go_error option"

fun co_exec :: "co_cmd \<Rightarrow> coalescer \<Rightarrow> (co_reply \<times> coalescer) option" where
  "co_exec (Register i) s = Some (CoId (co_requested s + 1), s\<lparr>co_requested := co_requested s + 1, co_log := co_log s @ [LAsk i (co_requested s + 1)]\<rparr>)"
| "co_exec LockRun s = (if co_locked s then None else Some (CoUnit, s\<lparr>co_locked := True\<rparr>))"
| "co_exec (Check i n) s = (if n \<le> co_completed s then Some (CoShared (co_last s), s)
     else Some (CoCover (co_requested s), s\<lparr>co_log := co_log s @ [LStart i (co_requested s)]\<rparr>))"
| "co_exec (Run i c) s = (let r = (case co_results s of [] \<Rightarrow> None | r # rs \<Rightarrow> r)
     in Some (CoResult r, s\<lparr>co_results := tl (co_results s), co_log := co_log s @ [LEnd i c r]\<rparr>))"
| "co_exec (Finish c r) s = Some (CoUnit, s\<lparr>co_completed := c, co_last := r\<rparr>)"
| "co_exec UnlockRun s = Some (CoUnit, s\<lparr>co_locked := False\<rparr>)"

definition co_server :: "(co_cmd, coalescer, co_reply) server" where
  "co_server = \<lparr>sv_exec = co_exec, sv_fault = (\<lambda>c. None), sv_pass = (\<lambda>d s. s)\<rparr>"

definition co_start :: "go_error option list \<Rightarrow> coalescer" where
  "co_start rs = \<lparr>co_requested = 0, co_completed = 0, co_last = None, co_locked = False, co_results = rs, co_log = []\<rparr>"

definition coalesce :: "nat \<Rightarrow> (co_cmd, co_reply, go_error option) prog" where
  "coalesce i = Call (Register i) (\<lambda>x. case x of CoId n \<Rightarrow> Call LockRun (\<lambda>_. Call (Check i n) (\<lambda>x. case x of
       CoShared e \<Rightarrow> Call UnlockRun (\<lambda>_. Ret e)
     | CoCover c \<Rightarrow> Call (Run i c) (\<lambda>x. case x of
           CoResult r \<Rightarrow> Call (Finish c r) (\<lambda>_. Call UnlockRun (\<lambda>_. Ret r)) | _ \<Rightarrow> Ret None)
     | _ \<Rightarrow> Ret None)) | _ \<Rightarrow> Ret None)"

section \<open>Reading the history\<close>

text \<open>The answer of a call is the result of a run that started after the call was registered.\<close>

definition served :: "co_entry list \<Rightarrow> nat \<Rightarrow> go_error option \<Rightarrow> bool" where
  "served log i r \<longleftrightarrow> (\<exists>p q u n j c. p < q \<and> q < u \<and> u < length log \<and> log ! p = LAsk i n \<and> log ! q = LStart j c \<and> log ! u = LEnd j c r)"

text \<open>Runs do not overlap.\<close>

fun alone :: "(nat \<times> nat) option \<Rightarrow> co_entry list \<Rightarrow> bool" where
  "alone w [] = True"
| "alone w (LAsk i n # l) = alone w l"
| "alone w (LStart j c # l) = (w = None \<and> alone (Some (j, c)) l)"
| "alone w (LEnd j c r # l) = (w = Some (j, c) \<and> alone None l)"

text \<open>Nobody starts a run when one that started after his request has ended.\<close>

definition needed :: "co_entry list \<Rightarrow> bool" where
  "needed log \<longleftrightarrow> (\<forall>p q u q' i n c j c' r. p < q \<and> q < u \<and> u < q' \<and> q' < length log \<and> log ! p = LAsk i n \<and> log ! q = LStart j c' \<and> log ! u = LEnd j c' r \<longrightarrow>
     log ! q' \<noteq> LStart i c)"


section \<open>The invariant\<close>

datatype co_phase = New | Asked nat | Held nat | Running nat nat | Ran nat nat "go_error option" | Leaving "go_error option" | Left "go_error option"

type_synonym co_ghost = "nat \<times> co_phase"

fun holds :: "co_phase \<Rightarrow> bool" where
  "holds (Held n) = True" | "holds (Running n c) = True" | "holds (Ran n c r) = True" | "holds (Leaving r) = True" | "holds g = False"

fun open_run :: "(nat \<times> nat) option \<Rightarrow> co_entry list \<Rightarrow> (nat \<times> nat) option" where
  "open_run w [] = w"
| "open_run w (LAsk i n # l) = open_run w l"
| "open_run w (LStart j c # l) = open_run (Some (j, c)) l"
| "open_run w (LEnd j c r # l) = open_run None l"

definition ran :: "co_entry list \<Rightarrow> nat \<Rightarrow> go_error option \<Rightarrow> bool" where
  "ran log c r \<longleftrightarrow> (\<exists>q u j. q < u \<and> u < length log \<and> log ! q = LStart j c \<and> log ! u = LEnd j c r)"

definition asked :: "co_entry list \<Rightarrow> nat \<Rightarrow> nat \<Rightarrow> bool" where
  "asked log i n \<longleftrightarrow> (\<exists>p < length log. log ! p = LAsk i n) \<and> (\<forall>p m. p < length log \<longrightarrow> log ! p = LAsk i m \<longrightarrow> m = n)"

text \<open>The coverage of a run is the number of the last request before it.\<close>

definition covers :: "coalescer \<Rightarrow> bool" where
  "covers s \<longleftrightarrow> (let log = co_log s in
     (\<forall>p i n. p < length log \<longrightarrow> log ! p = LAsk i n \<longrightarrow> 1 \<le> n \<and> n \<le> co_requested s) \<and>
     (\<forall>p q i n j c. p < length log \<longrightarrow> q < length log \<longrightarrow> log ! p = LAsk i n \<longrightarrow> log ! q = LStart j c \<longrightarrow> (p < q \<longleftrightarrow> n \<le> c)) \<and>
     (\<forall>q j c. q < length log \<longrightarrow> log ! q = LStart j c \<longrightarrow> c \<le> co_requested s))"

fun phase_fits :: "coalescer \<Rightarrow> nat \<Rightarrow> co_phase \<Rightarrow> bool" where
  "phase_fits s i New = (\<forall>p n. p < length (co_log s) \<longrightarrow> co_log s ! p \<noteq> LAsk i n)"
| "phase_fits s i (Asked n) = asked (co_log s) i n"
| "phase_fits s i (Held n) = (asked (co_log s) i n \<and> open_run None (co_log s) = None)"
| "phase_fits s i (Running n c) = (asked (co_log s) i n \<and> open_run None (co_log s) = Some (i, c) \<and> n \<le> c \<and> co_completed s \<le> c \<and>
     (\<exists>q < length (co_log s). co_log s ! q = LStart i c))"
| "phase_fits s i (Ran n c r) = (asked (co_log s) i n \<and> open_run None (co_log s) = None \<and> ran (co_log s) c r \<and> n \<le> c \<and> co_completed s \<le> c)"
| "phase_fits s i (Leaving r) = (served (co_log s) i r \<and> open_run None (co_log s) = None)"
| "phase_fits s i (Left r) = served (co_log s) i r"

fun ends_with :: "co_phase \<Rightarrow> nat" where
  "ends_with (Ran n c r) = c" | "ends_with g = 0"

definition co_inv :: "coalescer \<Rightarrow> co_ghost list \<Rightarrow> bool" where
  "co_inv s gs \<longleftrightarrow> (\<forall>i < length gs. fst (gs ! i) = i \<and> phase_fits s i (snd (gs ! i))) \<and> covers s \<and> alone None (co_log s) \<and> needed (co_log s) \<and>
     (\<forall>i j. i < length gs \<longrightarrow> j < length gs \<longrightarrow> holds (snd (gs ! i)) \<longrightarrow> holds (snd (gs ! j)) \<longrightarrow> i = j) \<and>
     (co_locked s \<longleftrightarrow> (\<exists>i < length gs. holds (snd (gs ! i)))) \<and>
     (\<not> co_locked s \<longrightarrow> open_run None (co_log s) = None) \<and>
     (co_completed s = 0 \<or> ran (co_log s) (co_completed s) (co_last s)) \<and>
     (\<forall>u j c r. u < length (co_log s) \<longrightarrow> co_log s ! u = LEnd j c r \<longrightarrow> c \<le> co_completed s \<or> (\<exists>i < length gs. c \<le> ends_with (snd (gs ! i))))"

fun co_may :: "co_cmd \<Rightarrow> co_ghost \<Rightarrow> bool" where
  "co_may (Register i) g = (g = (i, New))"
| "co_may LockRun g = (\<exists>n. snd g = Asked n)"
| "co_may (Check i n) g = (g = (i, Held n))"
| "co_may (Run i c) g = (fst g = i \<and> (\<exists>n. snd g = Running n c))"
| "co_may (Finish c r) g = (\<exists>n. snd g = Ran n c r)"
| "co_may UnlockRun g = (\<exists>r. snd g = Leaving r)"

fun co_fits :: "co_cmd \<Rightarrow> co_ghost \<Rightarrow> co_reply \<Rightarrow> bool" where
  "co_fits (Register i) g x = (\<exists>n. x = CoId n)"
| "co_fits (Check i n) g x = ((\<exists>e. x = CoShared e) \<or> (\<exists>c. x = CoCover c))"
| "co_fits (Run i c) g x = (\<exists>r. x = CoResult r)"
| "co_fits c g x = True"

fun co_upd :: "co_cmd \<Rightarrow> co_reply \<Rightarrow> co_ghost \<Rightarrow> co_ghost" where
  "co_upd (Register i) x g = (fst g, case x of CoId n \<Rightarrow> Asked n | _ \<Rightarrow> snd g)"
| "co_upd LockRun x g = (fst g, case snd g of Asked n \<Rightarrow> Held n | p \<Rightarrow> p)"
| "co_upd (Check i n) x g = (fst g, case x of CoShared e \<Rightarrow> Leaving e | CoCover c \<Rightarrow> Running n c | _ \<Rightarrow> snd g)"
| "co_upd (Run i c) x g = (fst g, case (x, snd g) of (CoResult r, Running n c) \<Rightarrow> Ran n c r | (_, p) \<Rightarrow> p)"
| "co_upd (Finish c r) x g = (fst g, Leaving r)"
| "co_upd UnlockRun x g = (fst g, case snd g of Leaving r \<Rightarrow> Left r | p \<Rightarrow> p)"

section \<open>A longer history\<close>

lemma served_append: "served log i r \<Longrightarrow> served (log @ l) i r"
proof -
  assume "served log i r"
  then obtain p q u n j c where "p < q" "q < u" "u < length log" "log ! p = LAsk i n" "log ! q = LStart j c" "log ! u = LEnd j c r"
    unfolding served_def by blast
  then have "p < q \<and> q < u \<and> u < length (log @ l) \<and> (log @ l) ! p = LAsk i n \<and> (log @ l) ! q = LStart j c \<and> (log @ l) ! u = LEnd j c r"
    by (simp add: nth_append)
  then show ?thesis unfolding served_def by blast
qed

lemma ran_append: "ran log c r \<Longrightarrow> ran (log @ l) c r"
proof -
  assume "ran log c r"
  then obtain q u j where "q < u" "u < length log" "log ! q = LStart j c" "log ! u = LEnd j c r" unfolding ran_def by blast
  then have "q < u \<and> u < length (log @ l) \<and> (log @ l) ! q = LStart j c \<and> (log @ l) ! u = LEnd j c r" by (simp add: nth_append)
  then show ?thesis unfolding ran_def by blast
qed

lemma asked_snoc: "asked log i n \<Longrightarrow> (\<forall>m. x \<noteq> LAsk i m) \<Longrightarrow> asked (log @ [x]) i n"
  unfolding asked_def by (auto simp: nth_append less_Suc_eq)

lemma alone_append: "alone w (l @ l') \<longleftrightarrow> alone w l \<and> alone (open_run w l) l'"
  by (induction w l rule: open_run.induct) auto

lemma open_run_append: "open_run w (l @ l') = open_run (open_run w l) l'"
  by (induction w l rule: open_run.induct) auto

lemma needed_snoc:
  assumes "needed log" and "\<And>i c p q u n j c' r. x = LStart i c \<Longrightarrow> p < q \<Longrightarrow> q < u \<Longrightarrow> u < length log \<Longrightarrow> log ! p = LAsk i n \<Longrightarrow>
    log ! q = LStart j c' \<Longrightarrow> log ! u = LEnd j c' r \<Longrightarrow> False"
  shows "needed (log @ [x])"
  unfolding needed_def
proof (intro allI impI notI, elim conjE)
  fix p q u q' i n c j c' r
  assume a: "p < q" "q < u" "u < q'" "q' < length (log @ [x])" "(log @ [x]) ! p = LAsk i n" "(log @ [x]) ! q = LStart j c'"
    "(log @ [x]) ! u = LEnd j c' r" "(log @ [x]) ! q' = LStart i c"
  show False
  proof (cases "q' = length log")
    case True
    then show False using a assms(2) [of i c p q u n j c' r] by (auto simp: nth_append)
  next
    case False
    then have "q' < length log" using a(4) by simp
    moreover from this have "log ! p = LAsk i n" "log ! q = LStart j c'" "log ! u = LEnd j c' r" "log ! q' = LStart i c"
      using a by (simp_all add: nth_append)
    ultimately show False using a(1-3) assms(1) unfolding needed_def by blast
  qed
qed


section \<open>Every command keeps the invariant\<close>

lemma co_invD:
  assumes "co_inv s gs"
  shows "\<And>i. i < length gs \<Longrightarrow> fst (gs ! i) = i" "\<And>i. i < length gs \<Longrightarrow> phase_fits s i (snd (gs ! i))" "covers s" "alone None (co_log s)" "needed (co_log s)"
    "\<And>i j. i < length gs \<Longrightarrow> j < length gs \<Longrightarrow> holds (snd (gs ! i)) \<Longrightarrow> holds (snd (gs ! j)) \<Longrightarrow> i = j"
    "co_locked s \<longleftrightarrow> (\<exists>i < length gs. holds (snd (gs ! i)))" "\<not> co_locked s \<Longrightarrow> open_run None (co_log s) = None"
    "co_completed s = 0 \<or> ran (co_log s) (co_completed s) (co_last s)"
    "\<And>u j c r. u < length (co_log s) \<Longrightarrow> co_log s ! u = LEnd j c r \<Longrightarrow> c \<le> co_completed s \<or> (\<exists>i < length gs. c \<le> ends_with (snd (gs ! i)))"
  using assms unfolding co_inv_def by simp_all

lemma coversD:
  assumes "covers s"
  shows "\<And>p i n. p < length (co_log s) \<Longrightarrow> co_log s ! p = LAsk i n \<Longrightarrow> 1 \<le> n \<and> n \<le> co_requested s"
    "\<And>p q i n j c. p < length (co_log s) \<Longrightarrow> q < length (co_log s) \<Longrightarrow> co_log s ! p = LAsk i n \<Longrightarrow> co_log s ! q = LStart j c \<Longrightarrow> p < q \<longleftrightarrow> n \<le> c"
    "\<And>q j c. q < length (co_log s) \<Longrightarrow> co_log s ! q = LStart j c \<Longrightarrow> c \<le> co_requested s"
  using assms unfolding covers_def Let_def by blast+

lemma covers_end: "covers s \<Longrightarrow> co_requested s' = co_requested s \<Longrightarrow> co_log s' = co_log s @ [LEnd j c r] \<Longrightarrow> covers s'"
  unfolding covers_def Let_def by (auto simp: nth_append less_Suc_eq)

lemma covers_same: "covers s \<Longrightarrow> co_requested s' = co_requested s \<Longrightarrow> co_log s' = co_log s \<Longrightarrow> covers s'"
  unfolding covers_def by simp

lemma covers_ask: "covers s \<Longrightarrow> co_requested s' = co_requested s + 1 \<Longrightarrow> co_log s' = co_log s @ [LAsk i (co_requested s + 1)] \<Longrightarrow> covers s'"
  unfolding covers_def Let_def by (simp add: nth_append less_Suc_eq) (metis le_SucI not_less_eq_eq less_asym)

lemma covers_start: "covers s \<Longrightarrow> co_requested s' = co_requested s \<Longrightarrow> co_log s' = co_log s @ [LStart i (co_requested s)] \<Longrightarrow> covers s'"
  unfolding covers_def Let_def by (auto simp: nth_append less_Suc_eq)

lemma co_update:
  assumes inv: "co_inv s gs" and i: "i < length gs"
    and others: "\<And>k p. k \<noteq> i \<Longrightarrow> phase_fits s k p \<Longrightarrow> (holds p \<Longrightarrow> \<not> holds (snd (gs ! i)) \<and> co_locked s) \<Longrightarrow> phase_fits s' k p"
    and fits: "phase_fits s' i ph'" "covers s'" "alone None (co_log s')" "needed (co_log s')"
    and last_run: "co_completed s' = 0 \<or> ran (co_log s') (co_completed s') (co_last s')"
    and lock: "co_locked s' \<longleftrightarrow> holds ph' \<or> co_locked s \<and> \<not> holds (snd (gs ! i))" "holds ph' \<Longrightarrow> holds (snd (gs ! i)) \<or> \<not> co_locked s"
    and free: "\<not> co_locked s' \<Longrightarrow> open_run None (co_log s') = None"
    and ends: "\<And>u j c r. u < length (co_log s') \<Longrightarrow> co_log s' ! u = LEnd j c r \<Longrightarrow>
      c \<le> co_completed s' \<or> c \<le> ends_with ph' \<or> (\<exists>k < length gs. k \<noteq> i \<and> c \<le> ends_with (snd (gs ! k)))"
  shows "co_inv s' (gs[i := (i, ph')])"
proof -
  let ?gs = "gs[i := (i, ph')]"
  note D = co_invD [OF inv]
  have one: "fst (?gs ! k) = k \<and> phase_fits s' k (snd (?gs ! k))" if "k < length gs" for k
    using that i D(1,2,6,7) others [of k "snd (gs ! k)"] fits(1) by (cases "k = i") (auto simp: nth_list_update)
  have uniq: "k = k'" if "k < length gs" "k' < length gs" "holds (snd (?gs ! k))" "holds (snd (?gs ! k'))" for k k'
    using that i D(6,7) lock(2) by (auto simp: nth_list_update split: if_splits)
  have locked: "co_locked s' \<longleftrightarrow> (\<exists>k < length ?gs. holds (snd (?gs ! k)))"
    unfolding lock(1) using i D(6,7) by (auto simp: nth_list_update) metis+
  have ends': "c \<le> co_completed s' \<or> (\<exists>k < length ?gs. c \<le> ends_with (snd (?gs ! k)))" if "u < length (co_log s')" "co_log s' ! u = LEnd j c r" for u j c r
    using ends [OF that] i by (auto simp: nth_list_update)
  show ?thesis
    unfolding co_inv_def using one fits(2-4) uniq locked free last_run ends' by (simp add: del: fst_conv)
qed


lemma phase_same: "co_log s' = co_log s \<Longrightarrow> co_completed s' = co_completed s \<Longrightarrow> phase_fits s' k p = phase_fits s k p"
  by (cases p) simp_all

lemma phase_other:
  assumes "phase_fits s k p" and "\<not> holds p" and "co_log s' = co_log s @ [x]" and "\<And>n. x \<noteq> LAsk k n"
  shows "phase_fits s' k p"
proof (cases p)
  case New
  then show ?thesis using assms(1,3,4) by (auto simp: nth_append less_Suc_eq)
next
  case (Asked n)
  then show ?thesis using assms(1,3,4) asked_snoc by simp
qed (use assms served_append in auto)

lemma ends_kept:
  assumes "co_inv s gs" and "u < length (co_log s)" "co_log s ! u = LEnd j c r" and "co_completed s \<le> m" "ends_with (snd (gs ! i)) \<le> max m (ends_with ph)"
  shows "c \<le> m \<or> c \<le> ends_with ph \<or> (\<exists>k < length gs. k \<noteq> i \<and> c \<le> ends_with (snd (gs ! k)))"
proof -
  from co_invD(10) [OF assms(1-3)] show ?thesis
  proof
    assume "\<exists>k < length gs. c \<le> ends_with (snd (gs ! k))"
    then obtain k where "k < length gs" "c \<le> ends_with (snd (gs ! k))" by blast
    then show ?thesis using assms(5) by (cases "k = i") (auto simp: max_def split: if_splits)
  qed (use assms(4) in auto)
qed

text \<open>A command that adds an entry other than a request of another caller.\<close>

lemma co_snoc:
  assumes inv: "co_inv s gs" and i: "i < length gs"
    and log: "co_log s' = co_log s @ [x]" "\<And>k n. x = LAsk k n \<Longrightarrow> k = i" "co_completed s' = co_completed s" "co_last s' = co_last s" "co_locked s' = co_locked s"
    and new: "phase_fits s' i ph'" "covers s'" "alone (open_run None (co_log s)) [x]" "needed (co_log s')" "holds ph' = holds (snd (gs ! i))"
      "ends_with (snd (gs ! i)) \<le> ends_with ph'" "\<And>j c r. x = LEnd j c r \<Longrightarrow> c \<le> ends_with ph'"
    and run: "holds (snd (gs ! i)) \<or> (\<exists>n. x = LAsk i n)"
  shows "co_inv s' (gs[i := (i, ph')])"
proof (rule co_update [OF inv i _ new(1,2) _ new(4)])
  note D = co_invD [OF inv]
  show "phase_fits s' k p" if "k \<noteq> i" "phase_fits s k p" "holds p \<Longrightarrow> \<not> holds (snd (gs ! i)) \<and> co_locked s" for k p
  proof (cases "holds p")
    case False
    then show ?thesis using that log(1,2) by (elim phase_other) auto
  next
    case True
    then have "\<not> holds (snd (gs ! i))" using \<open>holds p \<Longrightarrow> \<not> holds (snd (gs ! i)) \<and> co_locked s\<close> by blast
    with run obtain n where "x = LAsk i n" by blast
    then show ?thesis using True \<open>k \<noteq> i\<close> \<open>phase_fits s k p\<close> log(1,3) by (cases p) (auto simp: open_run_append asked_snoc nth_append less_Suc_eq intro: served_append ran_append)
  qed
  show "alone None (co_log s')" using D(4) new(3) by (simp add: log(1) alone_append)
  show "co_completed s' = 0 \<or> ran (co_log s') (co_completed s') (co_last s')" using D(9) ran_append by (auto simp: log(1,3,4))
  show "co_locked s' \<longleftrightarrow> holds ph' \<or> co_locked s \<and> \<not> holds (snd (gs ! i))" "holds ph' \<Longrightarrow> holds (snd (gs ! i)) \<or> \<not> co_locked s"
    using i D(7) by (auto simp: log(5) new(5))
  show "open_run None (co_log s') = None" if "\<not> co_locked s'"
    using that D(7,8) i run by (auto simp: log(1,5) open_run_append)
  fix u j c r
  assume u: "u < length (co_log s')" "co_log s' ! u = LEnd j c r"
  show "c \<le> co_completed s' \<or> c \<le> ends_with ph' \<or> (\<exists>k < length gs. k \<noteq> i \<and> c \<le> ends_with (snd (gs ! k)))"
  proof (cases "u = length (co_log s)")
    case True
    then show ?thesis using u(2) new(7) by (simp add: log(1))
  next
    case False
    then show ?thesis using u ends_kept [OF inv, of u j c r "co_completed s'" i ph'] new(6) by (simp add: log(1,3) nth_append split: if_splits)
  qed
qed

text \<open>A command that leaves the history as it is.\<close>

lemma co_silent:
  assumes inv: "co_inv s gs" and i: "i < length gs"
    and log: "co_log s' = co_log s" "co_requested s' = co_requested s" "co_completed s \<le> co_completed s'"
      "co_completed s' = co_completed s \<or> holds (snd (gs ! i))"
    and new: "phase_fits s' i ph'" "co_completed s' = 0 \<or> ran (co_log s') (co_completed s') (co_last s')" "ends_with (snd (gs ! i)) \<le> max (co_completed s') (ends_with ph')"
      "co_locked s' \<longleftrightarrow> holds ph' \<or> co_locked s \<and> \<not> holds (snd (gs ! i))" "holds ph' \<Longrightarrow> holds (snd (gs ! i)) \<or> \<not> co_locked s"
      "\<not> co_locked s' \<Longrightarrow> open_run None (co_log s) = None"
  shows "co_inv s' (gs[i := (i, ph')])"
proof (rule co_update [OF inv i _ new(1) _ _ _ new(2,4,5)])
  note D = co_invD [OF inv]
  show "phase_fits s' k p" if "k \<noteq> i" "phase_fits s k p" "holds p \<Longrightarrow> \<not> holds (snd (gs ! i)) \<and> co_locked s" for k p
  proof (cases "co_completed s' = co_completed s")
    case True
    then show ?thesis using that(2) phase_same [OF log(1)] by simp
  next
    case False
    then have "\<not> holds p" using that(3) log(4) by blast
    then show ?thesis using that(2) log(1) by (cases p) simp_all
  qed
  show "covers s'" "alone None (co_log s')" "needed (co_log s')" using D(3-5) covers_same log by simp_all
  show "open_run None (co_log s') = None" if "\<not> co_locked s'" using new(6) that log(1) by simp
  show "c \<le> co_completed s' \<or> c \<le> ends_with ph' \<or> (\<exists>k < length gs. k \<noteq> i \<and> c \<le> ends_with (snd (gs ! k)))"
    if "u < length (co_log s')" "co_log s' ! u = LEnd j c r" for u j c r
    using that ends_kept [OF inv _ _ log(3) new(3)] by (simp add: log(1))
qed


lemma co_register:
  assumes inv: "co_inv s gs" and i: "i < length gs" "gs ! i = (i, New)" and out: "co_exec (Register i) s = Some (x, s')"
  shows "co_inv s' (gs[i := co_upd (Register i) x (gs ! i)])"
proof -
  note D = co_invD [OF inv]
  have s': "s' = s\<lparr>co_requested := co_requested s + 1, co_log := co_log s @ [LAsk i (co_requested s + 1)]\<rparr>" "x = CoId (co_requested s + 1)"
    using out by auto
  have "asked (co_log s') i (co_requested s + 1)"
    using D(2) [OF i(1)] i by (auto simp: asked_def s' nth_append less_Suc_eq)
  moreover have "needed (co_log s')" unfolding s' by (simp, rule needed_snoc [OF D(5)]) simp
  moreover have "covers s'" using covers_ask [OF D(3)] by (simp add: s')
  ultimately have "co_inv s' (gs[i := (i, Asked (co_requested s + 1))])"
    using i by (intro co_snoc [OF inv i(1), where x = "LAsk i (co_requested s + 1)"]) (auto simp: s')
  then show ?thesis using i by (simp add: s')
qed

lemma co_lock:
  assumes inv: "co_inv s gs" and i: "i < length gs" "gs ! i = (i, Asked n)" and out: "co_exec LockRun s = Some (x, s')"
  shows "co_inv s' (gs[i := (i, Held n)])"
proof (rule co_silent [OF inv i(1)])
  note D = co_invD [OF inv]
  have s': "s' = s\<lparr>co_locked := True\<rparr>" "\<not> co_locked s" using out by (auto split: if_splits)
  then show "phase_fits s' i (Held n)" using D(2) [OF i(1)] D(8) i(2) by simp
  show "co_completed s' = 0 \<or> ran (co_log s') (co_completed s') (co_last s')" using D(9) by (simp add: s')
  show "\<not> co_locked s' \<Longrightarrow> open_run None (co_log s) = None" "co_locked s' \<longleftrightarrow> holds (Held n) \<or> co_locked s \<and> \<not> holds (snd (gs ! i))" by (simp_all add: s')
qed (use i out in \<open>auto split: if_splits\<close>)

lemma co_check:
  assumes inv: "co_inv s gs" and i: "i < length gs" "gs ! i = (i, Held n)" and out: "co_exec (Check i n) s = Some (x, s')"
  shows "co_inv s' (gs[i := co_upd (Check i n) x (gs ! i)])"
proof -
  note D = co_invD [OF inv]
  have held: "asked (co_log s) i n" "open_run None (co_log s) = None" using D(2) [OF i(1)] i(2) by simp_all
  then obtain p where p: "p < length (co_log s)" "co_log s ! p = LAsk i n" by (auto simp: asked_def)
  have n: "1 \<le> n" "n \<le> co_requested s" using coversD(1) [OF D(3) p] by simp_all
  show ?thesis
  proof (cases "n \<le> co_completed s")
    case True
    then have s': "s' = s" "x = CoShared (co_last s)" using out by auto
    obtain q u j where run: "q < u" "u < length (co_log s)" "co_log s ! q = LStart j (co_completed s)" "co_log s ! u = LEnd j (co_completed s) (co_last s)"
      using D(9) n True by (auto simp: ran_def)
    then have "p < q" using coversD(2) [OF D(3) p(1) _ p(2) run(3)] True by simp
    then have "served (co_log s) i (co_last s)" unfolding served_def using run p(2) by blast
    then have "co_inv s (gs[i := (i, Leaving (co_last s))])"
      using i D(9,7) held by (intro co_silent [OF inv i(1)]) auto
    then show ?thesis using i by (simp add: s')
  next
    case False
    then have s': "s' = s\<lparr>co_log := co_log s @ [LStart i (co_requested s)]\<rparr>" "x = CoCover (co_requested s)" using out by auto
    have alone: "k = i" if "k < length gs" "holds (snd (gs ! k))" for k using D(6) [OF that(1) i(1) that(2)] i(2) by simp
    have ended: "c \<le> co_completed s" if "u < length (co_log s)" "co_log s ! u = LEnd j c r" for u j c r
    proof -
      have "ends_with (snd (gs ! k)) = 0" if "k < length gs" for k
      proof (cases "snd (gs ! k)")
        case (Ran m c r)
        then show ?thesis using alone [OF that] i(2) by simp
      qed simp_all
      then show ?thesis using D(10) [OF that] by fastforce
    qed
    have log': "co_log s' = co_log s @ [LStart i (co_requested s)]" by (simp add: s')
    have needed: "needed (co_log s')"
      unfolding log'
    proof (rule needed_snoc [OF D(5)])
      fix i' c p' q u n' j c' r
      assume a: "LStart i (co_requested s) = LStart i' c" "p' < q" "q < u" "u < length (co_log s)" "co_log s ! p' = LAsk i' n'" "co_log s ! q = LStart j c'" "co_log s ! u = LEnd j c' r"
      then have "p' < length (co_log s)" "co_log s ! p' = LAsk i n'" by simp_all
      then have "n' = n" using held(1) unfolding asked_def by blast
      moreover have "n' \<le> c'" using coversD(2) [OF D(3), of p' q i' n' j c'] a by simp
      ultimately show False using ended [OF a(4,7)] False by simp
    qed
    have top: "co_completed s \<le> co_requested s"
      using D(9)
    proof
      assume "ran (co_log s) (co_completed s) (co_last s)"
      then obtain q u j where "q < u" "u < length (co_log s)" "co_log s ! q = LStart j (co_completed s)" by (auto simp: ran_def)
      then show ?thesis using coversD(3) [OF D(3), of q] by simp
    qed simp
    have "covers s'" using covers_start [OF D(3)] by (simp add: s')
    moreover have "phase_fits s' i (Running n (co_requested s))"
    proof -
      have "\<exists>q < length (co_log s'). co_log s' ! q = LStart i (co_requested s)"
        by (rule exI [of _ "length (co_log s)"]) (simp add: log')
      moreover have "asked (co_log s') i n" "open_run None (co_log s') = Some (i, co_requested s)"
        using held by (simp_all add: log' asked_snoc open_run_append)
      moreover have "co_completed s' = co_completed s" by (simp add: s')
      ultimately show ?thesis using n(2) top by simp
    qed
    ultimately have "co_inv s' (gs[i := (i, Running n (co_requested s))])"
      using i held(2) needed by (intro co_snoc [OF inv i(1), where x = "LStart i (co_requested s)"]) (auto simp: s')
    then show ?thesis using i by (simp add: s')
  qed
qed


lemma co_ran:
  assumes inv: "co_inv s gs" and i: "i < length gs" "gs ! i = (i, Running n c)" and out: "co_exec (Run i c) s = Some (x, s')"
  shows "co_inv s' (gs[i := co_upd (Run i c) x (gs ! i)])"
proof -
  note D = co_invD [OF inv]
  obtain r where s': "s' = s\<lparr>co_results := tl (co_results s), co_log := co_log s @ [LEnd i c r]\<rparr>" "x = CoResult r" using out by (auto simp: Let_def)
  have run: "asked (co_log s) i n" "open_run None (co_log s) = Some (i, c)" "n \<le> c" "co_completed s \<le> c" and "\<exists>q < length (co_log s). co_log s ! q = LStart i c"
    using D(2) [OF i(1)] i(2) by simp_all
  then obtain q where "q < length (co_log s)" "co_log s ! q = LStart i c" by blast
  then have "ran (co_log s @ [LEnd i c r]) c r" unfolding ran_def by (intro exI [of _ q] exI [of _ "length (co_log s)"] exI [of _ i]) (simp add: nth_append)
  then have "phase_fits s' i (Ran n c r)" using run by (simp add: s' asked_snoc open_run_append)
  moreover have "covers s'" using covers_end [OF D(3)] by (simp add: s')
  moreover have "needed (co_log s')" using needed_snoc [OF D(5), of "LEnd i c r"] by (simp add: s')
  ultimately have "co_inv s' (gs[i := (i, Ran n c r)])"
    using i run(2) by (intro co_snoc [OF inv i(1), where x = "LEnd i c r"]) (auto simp: s')
  then show ?thesis using i by (simp add: s')
qed

lemma co_finish:
  assumes inv: "co_inv s gs" and i: "i < length gs" "gs ! i = (i, Ran n c r)" and out: "co_exec (Finish c r) s = Some (x, s')"
  shows "co_inv s' (gs[i := (i, Leaving r)])"
proof -
  note D = co_invD [OF inv]
  have s': "s' = s\<lparr>co_completed := c, co_last := r\<rparr>" using out by simp
  have run: "asked (co_log s) i n" "open_run None (co_log s) = None" "ran (co_log s) c r" "n \<le> c" "co_completed s \<le> c" using D(2) [OF i(1)] i(2) by simp_all
  then obtain p q u j where p: "p < length (co_log s)" "co_log s ! p = LAsk i n" and q: "q < u" "u < length (co_log s)" "co_log s ! q = LStart j c" "co_log s ! u = LEnd j c r"
    unfolding asked_def ran_def by blast
  then have "p < q" using coversD(2) [OF D(3) p(1) _ p(2) q(3)] run(4) by simp
  then have "served (co_log s) i r" unfolding served_def using p q by blast
  then show ?thesis
    using i D(7) run by (intro co_silent [OF inv i(1)]) (auto simp: s')
qed

lemma co_unlock:
  assumes inv: "co_inv s gs" and i: "i < length gs" "gs ! i = (i, Leaving r)" and out: "co_exec UnlockRun s = Some (x, s')"
  shows "co_inv s' (gs[i := (i, Left r)])"
proof -
  note D = co_invD [OF inv]
  have s': "s' = s\<lparr>co_locked := False\<rparr>" using out by simp
  show ?thesis using i D(2) [OF i(1)] D(7,9) by (intro co_silent [OF inv i(1)]) (auto simp: s')
qed

interpretation coalesced: discipline co_server co_may co_fits co_upd "\<lambda>c g. g" co_inv
proof unfold_locales
  fix s gs i c x s'
  assume a: "co_inv s gs" "i < length gs" "co_may c (gs ! i)" "sv_exec co_server c s = Some (x, s')"
  then have out: "co_exec c s = Some (x, s')" by (simp add: co_server_def)
  have me: "fst (gs ! i) = i" by (rule co_invD(1) [OF a(1,2)])
  then have g: "gs ! i = (i, snd (gs ! i))" by (metis prod.collapse)
  show "co_fits c (gs ! i) x" using out by (cases c) (auto simp: Let_def split: if_splits)
  show "co_inv s' (gs[i := co_upd c x (gs ! i)])"
  proof (cases c)
    case (Register j)
    then show ?thesis using a out me co_register [OF a(1,2), of x s'] by (simp del: co_exec.simps co_upd.simps)
  next
    case LockRun
    then obtain n where "gs ! i = (i, Asked n)" using a(3) g by auto
    then show ?thesis using LockRun out co_lock [OF a(1,2), of n x s'] by simp
  next
    case (Check j n)
    then show ?thesis using a out me co_check [OF a(1,2), of n x s'] by (simp del: co_exec.simps co_upd.simps)
  next
    case (Run j m)
    then obtain n where "j = i" "gs ! i = (i, Running n m)" using a(3) g by auto
    then show ?thesis using Run out co_ran [OF a(1,2), of n m x s'] by simp
  next
    case (Finish m r)
    then obtain n where "gs ! i = (i, Ran n m r)" using a(3) g by auto
    then show ?thesis using Finish out co_finish [OF a(1,2), of n m r x s'] by simp
  next
    case UnlockRun
    then obtain r where "gs ! i = (i, Leaving r)" using a(3) g by auto
    then show ?thesis using UnlockRun out co_unlock [OF a(1,2), of r x s'] by simp
  qed
qed (simp_all add: co_server_def)


section \<open>Callers share runs\<close>

lemma co_start_inv: "co_inv (co_start rs) (map (\<lambda>i. (i, New)) [0 ..< n])"
  by (auto simp: co_inv_def co_start_def covers_def needed_def)

lemma coalesce_follows: "follows co_may co_fits co_upd (\<lambda>r g. snd g = Left r) (coalesce i) (i, New)"
  by (auto simp: coalesce_def split: co_reply.splits)

text \<open>
Claim C10: callers of coalesceFullRebuild, however they interleave, never overlap their runs; each returns the
result of a run that started after it asked, and none starts a run when one that started after it asked has
ended.
\<close>

theorem full_rebuild_shared:
  assumes "conc_run co_server es (co_start rs, map coalesce [0 ..< n]) = (s, ts)"
  shows "alone None (co_log s) \<and> needed (co_log s) \<and> (\<forall>i < n. \<forall>r. ts ! i = Ret r \<longrightarrow> served (co_log s) i r)"
proof -
  have len: "length ts = n" using length_run [of co_server es "(co_start rs, map coalesce [0 ..< n])"] unfolding assms by simp
  have "coalesced.on_track (\<lambda>i r g. snd g = Left r) (co_start rs, map coalesce [0 ..< n]) (map (\<lambda>i. (i, New)) [0 ..< n])"
    using coalesce_follows co_start_inv by (simp add: coalesced.on_track_def)
  from coalesced.run_on_track [OF this, of es] obtain gs where gs: "co_inv s gs" "length gs = n"
    "\<And>i. i < n \<Longrightarrow> follows co_may co_fits co_upd (\<lambda>r g. snd g = Left r) (ts ! i) (gs ! i)"
    unfolding assms coalesced.on_track_def using len by auto
  have "served (co_log s) i r" if "i < n" "ts ! i = Ret r" for i r
    using gs(3) [OF that(1)] that co_invD(2) [OF gs(1), of i] gs(2) by simp
  then show ?thesis using co_invD(4,5) [OF gs(1)] by blast
qed

text \<open>Three callers: the second and third ask while the first run is going on, and share the second.\<close>

definition co_demo :: "coalescer \<times> (co_cmd, co_reply, go_error option) prog list" where
  "co_demo = conc_run co_server [Exec 0, Exec 0, Exec 0, Exec 1, Exec 2, Exec 1, Exec 0, Exec 0, Exec 0, Exec 1, Exec 1, Exec 1, Exec 1, Exec 1, Exec 2, Exec 2, Exec 2]
     (co_start [Some (PlainErr ''db'')], map coalesce [0 ..< 3])"

lemma co_demo_runs: "co_log (fst co_demo) = [LAsk 0 1, LStart 0 1, LAsk 1 2, LAsk 2 3, LEnd 0 1 (Some (PlainErr ''db'')), LStart 1 3, LEnd 1 3 None] \<and>
    (case snd co_demo ! 2 of Ret r \<Rightarrow> r = None | _ \<Rightarrow> False)"
  by code_simp

lemma full_rebuild_shared_witness:
  "served (co_log (fst co_demo)) 2 None \<and> needed (co_log (fst co_demo))"
proof -
  have "snd co_demo ! 2 = Ret None" using co_demo_runs by (auto split: prog.splits)
  moreover have run: "conc_run co_server [Exec 0, Exec 0, Exec 0, Exec 1, Exec 2, Exec 1, Exec 0, Exec 0, Exec 0, Exec 1, Exec 1, Exec 1, Exec 1, Exec 1, Exec 2, Exec 2, Exec 2]
     (co_start [Some (PlainErr ''db'')], map coalesce [0 ..< 3]) = (fst co_demo, snd co_demo)"
    by (simp only: co_demo_def [symmetric] prod.collapse)
  ultimately show ?thesis using full_rebuild_shared [OF run] by simp
qed

end
