(* ===== verification/Sched_Lag.thy ===== *)
theory Sched_Lag
  imports Go_Errors
begin

text \<open>
  \<open>checkOutboxLag\<close> of \<open>backend/internal/service/scheduler_snapshot_service.go\<close>: when the consumer of the outbox lags, it
  triggers full rebuilds, but paced. \<open>lag_decide\<close> is the first critical section, \<open>lag_settle\<close> the second; the read
  of the oldest pending event, the largest identifier, the result of the rebuild and the two readings of the
  clock are inputs. Only the outbox worker calls it, so the steps follow one another. The seconds of a lag are
  whole seconds, without the rounding of Go's float64 near a whole second. A zero time is \<open>zero_time\<close>.
\<close>

section \<open>The state and one check\<close>


record lag_state =
  lg_failures :: int
  lg_latched :: bool
  lg_running :: bool
  lg_rebuild_failures :: int
  lg_retry_at :: gtime
  lg_retry_reason :: string
  lg_warned :: bool
  lg_id_error_at :: gtime


definition reason_lag :: string where "reason_lag = ''outbox_lag''"





text \<open>\<open>shouldLogOutboxMaxIDError\<close> and \<open>shouldLogOutboxLagWarning\<close>.\<close>

definition log_id_error :: "gtime \<Rightarrow> lag_state \<Rightarrow> bool \<times> lag_state" where
  "log_id_error now st = (if \<not> is_zero_time (lg_id_error_at st) \<and> t_sub now (lg_id_error_at st) < minute then (False, st)
     else (True, st\<lparr>lg_id_error_at := now\<rparr>))"

definition log_lag_warning :: "bool \<Rightarrow> lag_state \<Rightarrow> bool \<times> lag_state" where
  "log_lag_warning active st = (active \<and> \<not> lg_warned st, st\<lparr>lg_warned := active\<rparr>)"

record lag_seen =
  ls_now :: gtime
  ls_lagging :: bool
  ls_known :: bool
  ls_backlogged :: bool




definition clear_retry :: "lag_state \<Rightarrow> lag_state" where
  "clear_retry st = st\<lparr>lg_rebuild_failures := 0, lg_retry_at := zero_time, lg_retry_reason := []\<rparr>"




definition lag_count :: "lag_seen \<Rightarrow> lag_state \<Rightarrow> lag_state" where
  "lag_count ob st = (let pending = (lg_retry_reason st = reason_lag \<and> \<not> is_zero_time (lg_retry_at st))
     in if ls_lagging ob then (if \<not> lg_latched st \<and> \<not> lg_running st \<and> \<not> pending then st\<lparr>lg_failures := lg_failures st + 1\<rparr> else st)
        else st\<lparr>lg_failures := 0\<rparr>)"






section \<open>The delay\<close>




section \<open>Histories\<close>








lemma clear_retry_sel [simp]: "lg_failures (clear_retry st) = lg_failures st" "lg_latched (clear_retry st) = lg_latched st"
  "lg_running (clear_retry st) = lg_running st" "lg_rebuild_failures (clear_retry st) = 0" "lg_retry_at (clear_retry st) = zero_time"
  "lg_retry_reason (clear_retry st) = []"
  by (simp_all add: clear_retry_def)

definition waits :: "string \<Rightarrow> gtime \<Rightarrow> lag_state \<Rightarrow> bool" where
  "waits reason t st \<longleftrightarrow> lg_retry_reason st = reason \<and> lg_retry_at st = t"




lemma count_sel [simp]: "waits reason t (lag_count ob st) = waits reason t st" "lg_latched (lag_count ob st) = lg_latched st"
  "lg_rebuild_failures (lag_count ob st) = lg_rebuild_failures st"
  by (auto simp: lag_count_def waits_def Let_def)






lemma log_sel [simp]:
  "lg_latched (snd (log_lag_warning a st)) = lg_latched st" "lg_retry_at (snd (log_lag_warning a st)) = lg_retry_at st"
  "lg_retry_reason (snd (log_lag_warning a st)) = lg_retry_reason st" "lg_latched (snd (log_id_error now st)) = lg_latched st"
  "lg_retry_at (snd (log_id_error now st)) = lg_retry_at st" "lg_retry_reason (snd (log_id_error now st)) = lg_retry_reason st"
  "lg_rebuild_failures (snd (log_lag_warning a st)) = lg_rebuild_failures st" "lg_rebuild_failures (snd (log_id_error now st)) = lg_rebuild_failures st"
  by (simp_all add: log_lag_warning_def log_id_error_def)















end
