(* ===== verification/Sched_Outbox.thy ===== *)
theory Sched_Outbox
  imports Client_Program Proxy_Repo
begin

text \<open>
  The consumption of the scheduler outbox: \<open>repository/scheduler_outbox_repo.go\<close> over the table of migrations 036, 152 and 153, and
  \<open>pollOutbox\<close> with \<open>cleanupConsumedOutbox\<close> of \<open>service/scheduler_snapshot_service.go\<close>. Workers of several instances and
  transactions that enqueue events run side by side as programs over the table, the watermark in Redis and the
  advisory lock. An identifier is drawn when a row is inserted and the row appears when its transaction commits,
  so rows may appear in another order than their identifiers. \<open>bx_handled\<close>, \<open>bx_committed\<close>, \<open>bx_listed\<close>, \<open>bx_late\<close> and
  \<open>bx_dropped\<close> are history variables. The rounds of a cleanup are bounded by its timeout.
\<close>

section \<open>The table and its statements\<close>

record ob_row =
  or_id :: int64
  or_event :: outbox_event
  or_created :: gtime

record ob_world =
  bx_rows :: "ob_row list"
  bx_seq :: int64
  bx_now :: gtime
  bx_mark :: int64
  bx_locked :: bool
  bx_committed :: "int64 list"
  bx_handled :: "int64 list"
  bx_listed :: int64
  bx_late :: "int64 list"
  bx_dropped :: "(int64 \<times> int64 list) list"

definition outbox_batch :: int where "outbox_batch = 200"
definition cleanup_batch_rows :: int where "cleanup_batch_rows = 5000"
definition default_clean_size :: int where "default_clean_size = 5000"
definition cleanup_grace :: gduration where "cleanup_grace = 10 * second"

definition after_id :: "int64 \<Rightarrow> ob_row list \<Rightarrow> ob_row list" where
  "after_id w rows = sort_key or_id (filter (\<lambda>r. w < or_id r) rows)"

text \<open>\<open>LIMIT\<close>.\<close>

fun limited :: "int \<Rightarrow> 'a list \<Rightarrow> 'a list" where
  "limited n [] = []"
| "limited n (x # xs) = (if n \<le> 0 then [] else x # limited (n - 1) xs)"

lemma limited_take: "limited n xs = take (nat n) xs"
proof (induction xs arbitrary: n)
  case (Cons x xs)
  show ?case
  proof (cases "n \<le> 0")
    case False
    then have "nat n = Suc (nat (n - 1))" by simp
    then show ?thesis using False Cons by simp
  qed simp
qed simp

definition list_after :: "int64 \<Rightarrow> int \<Rightarrow> ob_row list \<Rightarrow> ob_row list" where
  "list_after w limit rows = limited (if limit \<le> 0 then 100 else limit) (after_id w rows)"

definition release_dedup :: "ob_row list \<Rightarrow> ob_row list \<Rightarrow> ob_row list" where
  "release_dedup sel rows = map (\<lambda>r. if or_id r \<in> or_id ` set sel then r\<lparr>or_event := (or_event r)\<lparr>ob_dedup := None\<rparr>\<rparr> else r) rows"

definition first_created_after :: "int64 \<Rightarrow> ob_row list \<Rightarrow> gtime option" where
  "first_created_after w rows = (case after_id w rows of [] \<Rightarrow> None | r # _ \<Rightarrow> Some (or_created r))"

definition max_outbox_id :: "ob_row list \<Rightarrow> int64" where
  "max_outbox_id rows = (if rows = [] then 0 else Max (or_id ` set rows))"

definition doomed_rows :: "int64 \<Rightarrow> int \<Rightarrow> gtime \<Rightarrow> ob_row list \<Rightarrow> ob_row list" where
  "doomed_rows w limit now rows = limited (if limit \<le> 0 then default_clean_size else limit)
     (sort_key or_id (filter (\<lambda>r. or_id r \<le> w \<and> or_created r < now - cleanup_grace) rows))"

definition delete_consumed :: "int64 \<Rightarrow> int \<Rightarrow> ob_world \<Rightarrow> int \<times> ob_world" where
  "delete_consumed w limit s = (if w \<le> 0 then (0, s)
     else (let doomed = or_id ` set (doomed_rows w limit (bx_now s) (bx_rows s))
       in (int (length (filter (\<lambda>r. or_id r \<in> doomed) (bx_rows s))), s\<lparr>bx_rows := filter (\<lambda>r. or_id r \<notin> doomed) (bx_rows s)\<rparr>)))"

definition holder_of :: "string option \<Rightarrow> ob_row list \<Rightarrow> ob_row option" where
  "holder_of key rows = (if key = None then None else find (\<lambda>r. ob_dedup (or_event r) = key) rows)"

definition insert_row :: "int64 \<Rightarrow> gtime \<Rightarrow> outbox_event \<Rightarrow> ob_world \<Rightarrow> ob_world" where
  "insert_row i created ev s = (case holder_of (ob_dedup ev) (bx_rows s) of
     Some r \<Rightarrow> s\<lparr>bx_dropped := bx_dropped s @ [(or_id r, bx_handled s)]\<rparr>
   | None \<Rightarrow> s\<lparr>bx_rows := bx_rows s @ [\<lparr>or_id = i, or_event = ev, or_created = created\<rparr>], bx_committed := bx_committed s @ [i],
        bx_late := (if i \<le> bx_listed s then bx_late s @ [i] else bx_late s)\<rparr>)"

section \<open>Commands\<close>

datatype ob_cmd = BMark | BList int64 int | BHandle ob_row | BSetMark int64 | BLock | BDelete int64 int | BRelease
  | BDraw | BInsert int64 gtime outbox_event

datatype ob_reply = BErr | BOk | BInt int | BRows "ob_row list" | BBool bool | BDrawn int64 gtime

fun ob_exec :: "ob_cmd \<Rightarrow> ob_world \<Rightarrow> ob_reply \<times> ob_world" where
  "ob_exec BMark s = (BInt (bx_mark s), s)"
| "ob_exec (BList w limit) s = (let es = list_after w limit (bx_rows s)
     in (BRows es, s\<lparr>bx_rows := release_dedup es (bx_rows s), bx_listed := fold (\<lambda>e. max (or_id e)) es (bx_listed s)\<rparr>))"
| "ob_exec (BHandle e) s = (BOk, s\<lparr>bx_handled := bx_handled s @ [or_id e]\<rparr>)"
| "ob_exec (BSetMark i) s = (BOk, s\<lparr>bx_mark := i\<rparr>)"
| "ob_exec BLock s = (BBool (\<not> bx_locked s), s\<lparr>bx_locked := True\<rparr>)"
| "ob_exec (BDelete w limit) s = (BInt (fst (delete_consumed w limit s)), snd (delete_consumed w limit s))"
| "ob_exec BRelease s = (BOk, s\<lparr>bx_locked := False\<rparr>)"
| "ob_exec BDraw s = (BDrawn (bx_seq s + 1) (bx_now s), s\<lparr>bx_seq := bx_seq s + 1\<rparr>)"
| "ob_exec (BInsert i created ev) s = (BOk, insert_row i created ev s)"

fun ob_fault :: "ob_cmd \<Rightarrow> ob_reply option" where
  "ob_fault BDraw = None" | "ob_fault (BInsert i t ev) = None" | "ob_fault BRelease = None" | "ob_fault c = Some BErr"

definition ob_server :: "(ob_cmd, ob_world, ob_reply) server" where
  "ob_server = \<lparr>sv_exec = (\<lambda>c s. Some (ob_exec c s)), sv_fault = ob_fault, sv_pass = (\<lambda>d s. s\<lparr>bx_now := bx_now s + max 0 d\<rparr>)\<rparr>"

definition ob_start :: "gtime \<Rightarrow> ob_world" where
  "ob_start now = \<lparr>bx_rows = [], bx_seq = 0, bx_now = now, bx_mark = 0, bx_locked = False, bx_committed = [], bx_handled = [], bx_listed = 0,
     bx_late = [], bx_dropped = []\<rparr>"

section \<open>Polling\<close>

datatype poll_result = PollFailed | PollEmpty | PollAdvanced int64

type_synonym poll_prog = "(ob_cmd, ob_reply, poll_result) prog"

fun delete_rounds :: "nat \<Rightarrow> int64 \<Rightarrow> poll_prog" where
  "delete_rounds 0 w = Call BRelease (\<lambda>_. Ret (PollAdvanced w))"
| "delete_rounds (Suc n) w = Call (BDelete w cleanup_batch_rows) (\<lambda>x. case x of
     BInt d \<Rightarrow> if d = 0 \<or> d < cleanup_batch_rows then Call BRelease (\<lambda>_. Ret (PollAdvanced w)) else delete_rounds n w
   | _ \<Rightarrow> Call BRelease (\<lambda>_. Ret (PollAdvanced w)))"

definition cleanup_consumed :: "nat \<Rightarrow> int64 \<Rightarrow> poll_prog" where
  "cleanup_consumed rounds w = (if w \<le> 0 then Ret (PollAdvanced w)
     else Call BLock (\<lambda>x. if x = BBool True then delete_rounds rounds w else Ret (PollAdvanced w)))"

fun advance_mark :: "nat \<Rightarrow> nat \<Rightarrow> int64 \<Rightarrow> poll_prog" where
  "advance_mark rounds 0 w = Ret PollFailed"
| "advance_mark rounds (Suc n) w = Call (BSetMark w) (\<lambda>x. if x = BErr then advance_mark rounds n w else cleanup_consumed rounds w)"

fun handle_events :: "nat \<Rightarrow> ob_row list \<Rightarrow> int64 \<Rightarrow> poll_prog" where
  "handle_events rounds [] w = advance_mark rounds 3 w"
| "handle_events rounds (e # es) w = Call (BHandle e) (\<lambda>x. if x = BErr then Ret PollFailed else handle_events rounds es w)"

definition poll_outbox :: "nat \<Rightarrow> poll_prog" where
  "poll_outbox rounds = Call BMark (\<lambda>x. case x of
     BInt w \<Rightarrow> Call (BList w outbox_batch) (\<lambda>x. case x of
         BRows es \<Rightarrow> if es = [] then Ret PollEmpty else handle_events rounds es (or_id (List.last es))
       | _ \<Rightarrow> Ret PollFailed)
   | _ \<Rightarrow> Ret PollFailed)"

definition enqueue_prog :: "outbox_event \<Rightarrow> poll_prog" where
  "enqueue_prog ev = Call BDraw (\<lambda>x. case x of BDrawn i t \<Rightarrow> Call (BInsert i t ev) (\<lambda>_. Ret PollEmpty) | _ \<Rightarrow> Ret PollFailed)"

datatype ob_client = Poller nat | Enqueuer outbox_event

fun client_prog :: "ob_client \<Rightarrow> poll_prog" where
  "client_prog (Poller rounds) = poll_outbox rounds"
| "client_prog (Enqueuer ev) = enqueue_prog ev"

end
