(* ===== verification/Sched_Outbox_Safe.thy ===== *)
theory Sched_Outbox_Safe
  imports Sched_Outbox
begin

text \<open>
  Why no event is lost: the invariant of the outbox, the protocol of its workers, and the interpretation of
  \<open>discipline\<close>. \<open>passed s m\<close> says that every row up to \<open>m\<close> has been handled, late ones apart.
\<close>

definition passed :: "ob_world \<Rightarrow> int64 \<Rightarrow> bool" where
  "passed s m \<longleftrightarrow> m \<le> bx_listed s \<and> (\<forall>i\<in>set (bx_committed s). i \<le> m \<longrightarrow> i \<notin> set (bx_late s) \<longrightarrow> i \<in> set (bx_handled s))"

datatype ob_ghost = GIdle | GMarked int64 | GWorks "ob_row list" int64 | GClean int64 | GDrew int64 | GDone

fun ob_fits :: "ob_world \<Rightarrow> ob_ghost \<Rightarrow> bool" where
  "ob_fits s (GMarked w) = passed s w"
| "ob_fits s (GClean w) = passed s w"
| "ob_fits s (GWorks es l) = (l \<le> bx_listed s \<and> or_id ` set es \<subseteq> set (bx_committed s) \<and>
     (\<forall>i\<in>set (bx_committed s). i \<le> l \<longrightarrow> i \<notin> set (bx_late s) \<longrightarrow> i \<in> set (bx_handled s) \<or> i \<in> or_id ` set es) \<and>
     (\<forall>r\<in>set (bx_rows s). or_id r \<in> or_id ` set es \<longrightarrow> ob_dedup (or_event r) = None))"
| "ob_fits s (GDrew i) = (i \<le> bx_seq s \<and> i \<notin> set (bx_committed s))"
| "ob_fits s g = True"

definition ob_sound :: "ob_world \<Rightarrow> bool" where
  "ob_sound s \<longleftrightarrow> passed s (bx_mark s) \<and> distinct (map or_id (bx_rows s)) \<and> or_id ` set (bx_rows s) \<subseteq> set (bx_committed s) \<and>
     set (bx_committed s) \<subseteq> or_id ` set (bx_rows s) \<union> set (bx_handled s) \<union> set (bx_late s) \<and> (\<forall>i\<in>set (bx_committed s). i \<le> bx_seq s) \<and>
     set (bx_handled s) \<subseteq> set (bx_committed s) \<and> (\<forall>r\<in>set (bx_rows s). or_id r \<in> set (bx_handled s) \<longrightarrow> ob_dedup (or_event r) = None) \<and>
     (\<forall>(i, hs)\<in>set (bx_dropped s). i \<in> set (bx_committed s) \<and> i \<notin> set hs)"

definition drew_apart :: "ob_ghost list \<Rightarrow> bool" where
  "drew_apart gs \<longleftrightarrow> (\<forall>i j n. i < length gs \<longrightarrow> j < length gs \<longrightarrow> gs ! i = GDrew n \<longrightarrow> gs ! j = GDrew n \<longrightarrow> i = j)"

definition ob_inv :: "ob_world \<Rightarrow> ob_ghost list \<Rightarrow> bool" where
  "ob_inv s gs \<longleftrightarrow> ob_sound s \<and> (\<forall>g\<in>set gs. ob_fits s g) \<and> drew_apart gs"

fun ob_may :: "ob_cmd \<Rightarrow> ob_ghost \<Rightarrow> bool" where
  "ob_may BMark g = (g = GIdle)"
| "ob_may (BList w limit) g = (g = GMarked w)"
| "ob_may (BHandle e) g = (\<exists>es l. g = GWorks (e # es) l)"
| "ob_may (BSetMark i) g = (g = GWorks [] i)"
| "ob_may (BDelete w limit) g = (g = GClean w)"
| "ob_may BDraw g = (g = GIdle)"
| "ob_may (BInsert i t ev) g = (g = GDrew i)"
| "ob_may c g = True"

fun ob_answer :: "ob_cmd \<Rightarrow> ob_ghost \<Rightarrow> ob_reply \<Rightarrow> bool" where
  "ob_answer BMark g x = (x = BErr \<or> (\<exists>w. x = BInt w))"
| "ob_answer (BList w limit) g x = (x = BErr \<or> (\<exists>es. x = BRows es))"
| "ob_answer (BHandle e) g x = (x = BErr \<or> x = BOk)"
| "ob_answer (BSetMark i) g x = (x = BErr \<or> x = BOk)"
| "ob_answer BDraw g x = (\<exists>i t. x = BDrawn i t)"
| "ob_answer c g x = True"

fun ob_upd :: "ob_cmd \<Rightarrow> ob_reply \<Rightarrow> ob_ghost \<Rightarrow> ob_ghost" where
  "ob_upd BMark x g = (case x of BInt w \<Rightarrow> GMarked w | _ \<Rightarrow> g)"
| "ob_upd (BList w limit) x g = (case x of BRows es \<Rightarrow> if es = [] then g else GWorks es (or_id (List.last es)) | _ \<Rightarrow> g)"
| "ob_upd (BHandle e) x g = (case (x, g) of (BOk, GWorks es l) \<Rightarrow> GWorks (tl es) l | _ \<Rightarrow> g)"
| "ob_upd (BSetMark i) x g = (if x = BOk then GClean i else g)"
| "ob_upd BDraw x g = (case x of BDrawn i t \<Rightarrow> GDrew i | _ \<Rightarrow> g)"
| "ob_upd (BInsert i t ev) x g = GDone"
| "ob_upd c x g = g"

section \<open>Stability\<close>

text \<open>A command that commits no row.\<close>

definition ob_later :: "ob_world \<Rightarrow> ob_world \<Rightarrow> bool" where
  "ob_later s s' \<longleftrightarrow> bx_committed s' = bx_committed s \<and> bx_late s' = bx_late s \<and> set (bx_handled s) \<subseteq> set (bx_handled s') \<and> bx_listed s \<le> bx_listed s' \<and>
     bx_seq s \<le> bx_seq s' \<and> (\<forall>r\<in>set (bx_rows s'). \<exists>r0\<in>set (bx_rows s). or_id r0 = or_id r \<and> (ob_dedup (or_event r0) = None \<longrightarrow> ob_dedup (or_event r) = None))"

lemma passed_later: "ob_later s s' \<Longrightarrow> passed s m \<Longrightarrow> passed s' m"
  unfolding ob_later_def passed_def by (auto simp: subset_iff)

lemma fits_later: "ob_later s s' \<Longrightarrow> ob_fits s g \<Longrightarrow> ob_fits s' g"
proof (cases g)
  case (GWorks es l)
  assume a: "ob_later s s'" "ob_fits s g"
  have "ob_dedup (or_event r) = None" if "r \<in> set (bx_rows s')" "or_id r \<in> or_id ` set es" for r
  proof -
    have "\<forall>r\<in>set (bx_rows s'). \<exists>r0\<in>set (bx_rows s). or_id r0 = or_id r \<and> (ob_dedup (or_event r0) = None \<longrightarrow> ob_dedup (or_event r) = None)"
      using a(1) by (simp add: ob_later_def)
    from bspec [OF this that(1)]
    obtain r0 where r0: "r0 \<in> set (bx_rows s)" "or_id r0 = or_id r \<and> (ob_dedup (or_event r0) = None \<longrightarrow> ob_dedup (or_event r) = None)" by (rule bexE)
    have "\<forall>r\<in>set (bx_rows s). or_id r \<in> or_id ` set es \<longrightarrow> ob_dedup (or_event r) = None" using a(2) GWorks by simp
    from bspec [OF this r0(1)] show ?thesis using r0(2) that(2) by simp
  qed
  moreover have "l \<le> bx_listed s'" "set (bx_committed s') = set (bx_committed s)" "set (bx_late s') = set (bx_late s)" "set (bx_handled s) \<subseteq> set (bx_handled s')"
    using a GWorks by (auto simp: ob_later_def)
  ultimately show ?thesis using a(2) GWorks by auto
qed (auto simp: ob_later_def intro: passed_later [unfolded ob_later_def])

lemma ob_update:
  assumes inv: "ob_inv s gs" and i: "i < length gs" and later: "ob_later s s'" and sound: "ob_sound s'" and g: "ob_fits s' g" "\<And>n. g \<noteq> GDrew n \<or> g = gs ! i"
  shows "ob_inv s' (gs[i := g])"
proof -
  have "ob_fits s' h" if "h \<in> set (gs[i := g])" for h
    using that g(1) inv fits_later [OF later] set_update_subset_insert [of gs i g] unfolding ob_inv_def by blast
  moreover have "drew_apart (gs[i := g])"
    unfolding drew_apart_def
  proof (intro allI impI)
    fix j k n
    assume a: "j < length (gs[i := g])" "k < length (gs[i := g])" "gs[i := g] ! j = GDrew n" "gs[i := g] ! k = GDrew n"
    then have "gs ! j = GDrew n" "gs ! k = GDrew n" using g(2) [of n] i by (auto simp: nth_list_update split: if_splits)
    then show "j = k" using a(1,2) inv unfolding ob_inv_def drew_apart_def by simp
  qed
  ultimately show ?thesis using sound by (simp add: ob_inv_def)
qed

lemma ob_soundD:
  assumes "ob_sound s"
  shows "passed s (bx_mark s)" "distinct (map or_id (bx_rows s))" "or_id ` set (bx_rows s) \<subseteq> set (bx_committed s)"
    "set (bx_committed s) \<subseteq> or_id ` set (bx_rows s) \<union> set (bx_handled s) \<union> set (bx_late s)" "\<And>i. i \<in> set (bx_committed s) \<Longrightarrow> i \<le> bx_seq s"
    "set (bx_handled s) \<subseteq> set (bx_committed s)" "\<And>r. r \<in> set (bx_rows s) \<Longrightarrow> or_id r \<in> set (bx_handled s) \<Longrightarrow> ob_dedup (or_event r) = None"
    "\<And>i hs. (i, hs) \<in> set (bx_dropped s) \<Longrightarrow> i \<in> set (bx_committed s) \<and> i \<notin> set hs"
  using assms unfolding ob_sound_def by auto

section \<open>Listing\<close>

lemma take_prefix:
  assumes "sorted (map f xs)" and "distinct (map f xs)" and "x \<in> set xs" and "take n xs \<noteq> []" and "f x \<le> (f (List.last (take n xs)) :: int)"
  shows "x \<in> set (take n xs)"
proof (rule ccontr)
  assume no: "x \<notin> set (take n xs)"
  have "xs = take n xs @ drop n xs" by simp
  then have x: "x \<in> set (drop n xs)" using assms(3) no by (metis Un_iff set_append)
  have l: "List.last (take n xs) \<in> set (take n xs)" using assms(4) by simp
  have "f (List.last (take n xs)) \<le> f x" using assms(1) x l sorted_append [of "map f (take n xs)" "map f (drop n xs)"] by (simp flip: map_append)
  moreover have "f ` set (take n xs) \<inter> f ` set (drop n xs) = {}"
    using assms(2) distinct_append [of "map f (take n xs)" "map f (drop n xs)"] by (simp flip: map_append)
  then have "f (List.last (take n xs)) \<noteq> f x" using x l by blast
  ultimately show False using assms(5) by simp
qed

lemma after_id_set: "set (after_id w rows) = {r \<in> set rows. w < or_id r}"
  by (auto simp: after_id_def)

lemma after_id_sorted: "sorted (map or_id (after_id w rows))"
  by (simp add: after_id_def)

lemma after_id_distinct: "distinct (map or_id rows) \<Longrightarrow> distinct (map or_id (after_id w rows))"
  by (simp add: after_id_def distinct_map inj_on_def)

lemma list_after_sub: "set (list_after w n rows) \<subseteq> set rows"
  by (auto simp: list_after_def limited_take after_id_set dest!: in_set_takeD)

lemma fold_max_ge: "m \<le> fold (\<lambda>e. max (or_id e)) es (m :: int)" "e \<in> set es \<Longrightarrow> or_id e \<le> fold (\<lambda>e. max (or_id e)) es (m :: int)"
proof -
  show ge: "m \<le> fold (\<lambda>e. max (or_id e)) es m" for m :: int and es
    by (induction es arbitrary: m) (auto intro: order_trans [OF max.cobounded2])
  show "e \<in> set es \<Longrightarrow> or_id e \<le> fold (\<lambda>e. max (or_id e)) es m"
  proof (induction es arbitrary: m)
    case (Cons a es)
    show ?case
    proof (cases "e = a")
      case True
      have "or_id a \<le> max (or_id a) m" by simp
      also have "\<dots> \<le> fold (\<lambda>e. max (or_id e)) es (max (or_id a) m)" by (rule ge)
      finally show ?thesis using True by simp
    qed (use Cons in simp)
  qed simp
qed

lemma release_ids [simp]: "map or_id (release_dedup es rows) = map or_id rows" "or_id ` set (release_dedup es rows) = or_id ` set rows"
proof -
  show "map or_id (release_dedup es rows) = map or_id rows" by (auto simp: release_dedup_def)
  then show "or_id ` set (release_dedup es rows) = or_id ` set rows" by (metis list.set_map)
qed

lemma release_keys:
  assumes "r \<in> set (release_dedup es rows)"
  shows "\<exists>r0\<in>set rows. or_id r0 = or_id r \<and> (ob_dedup (or_event r0) = None \<longrightarrow> ob_dedup (or_event r) = None)"
    and "or_id r \<in> or_id ` set es \<Longrightarrow> ob_dedup (or_event r) = None"
  using assms by (auto simp: release_dedup_def)


section \<open>Every command keeps the invariant\<close>

lemma ob_idle: "ob_inv s gs \<Longrightarrow> i < length gs \<Longrightarrow> ob_fits s g \<Longrightarrow> (\<And>n. g \<noteq> GDrew n \<or> g = gs ! i) \<Longrightarrow> ob_inv s (gs[i := g])"
  by (rule ob_update [where s = s]) (auto simp: ob_later_def ob_inv_def)

lemma list_effect:
  assumes sound: "ob_sound s" and w: "passed s w" and es: "es = list_after w limit (bx_rows s)"
  defines "s' \<equiv> s\<lparr>bx_rows := release_dedup es (bx_rows s), bx_listed := fold (\<lambda>e. max (or_id e)) es (bx_listed s)\<rparr>"
  shows "ob_later s s'" and "ob_sound s'" and "es \<noteq> [] \<Longrightarrow> ob_fits s' (GWorks es (or_id (List.last es)))"
proof -
  note D = ob_soundD [OF sound]
  show later: "ob_later s s'" using release_keys(1) fold_max_ge(1) by (simp add: ob_later_def s'_def)
  have sub: "set es \<subseteq> set (bx_rows s)" using list_after_sub es by blast
  show "ob_sound s'"
    unfolding ob_sound_def
  proof (intro conjI)
    show "passed s' (bx_mark s')" using passed_later [OF later D(1)] by (simp add: s'_def)
    show "\<forall>r\<in>set (bx_rows s'). or_id r \<in> set (bx_handled s') \<longrightarrow> ob_dedup (or_event r) = None"
      using release_keys(1) D(7) by (fastforce simp: s'_def)
  qed (use D in \<open>auto simp: s'_def\<close>)
  assume ne: "es \<noteq> []"
  let ?l = "or_id (List.last es)"
  have last: "List.last es \<in> set es" using ne by simp
  have "i \<in> set (bx_handled s) \<or> i \<in> or_id ` set es" if i: "i \<in> set (bx_committed s)" "i \<le> ?l" "i \<notin> set (bx_late s)" for i
  proof (cases "i \<le> w")
    case True
    then show ?thesis using w i by (simp add: passed_def)
  next
    case False
    have "i \<in> set (bx_handled s) \<or> (\<exists>r\<in>set (bx_rows s). or_id r = i)" using D(4) i by auto
    then show ?thesis
    proof
      assume "\<exists>r\<in>set (bx_rows s). or_id r = i"
      then obtain r where r: "r \<in> set (after_id w (bx_rows s))" "or_id r = i" using False by (auto simp: after_id_set)
      have "r \<in> set es"
        unfolding es list_after_def limited_take
        by (rule take_prefix [OF after_id_sorted after_id_distinct [OF D(2)] r(1)]) (use ne i(2) r(2) es in \<open>auto simp: list_after_def limited_take\<close>)
      then show ?thesis using r(2) by blast
    qed simp
  qed
  moreover have "?l \<le> bx_listed s'" using fold_max_ge(2) [OF last] by (simp add: s'_def)
  moreover have "or_id ` set es \<subseteq> set (bx_committed s)" using sub D(3) by blast
  moreover have "\<forall>r\<in>set (bx_rows s'). or_id r \<in> or_id ` set es \<longrightarrow> ob_dedup (or_event r) = None" using release_keys(2) by (auto simp: s'_def)
  ultimately show "ob_fits s' (GWorks es ?l)" by (simp add: s'_def)
qed

lemma handle_effect:
  assumes sound: "ob_sound s" and g: "ob_fits s (GWorks (e # es) l)"
  defines "s' \<equiv> s\<lparr>bx_handled := bx_handled s @ [or_id e]\<rparr>"
  shows "ob_later s s'" and "ob_sound s'" and "ob_fits s' (GWorks es l)" and "ob_fits s' (GWorks (e # es) l)"
proof -
  note D = ob_soundD [OF sound]
  show later: "ob_later s s'" by (auto simp: ob_later_def s'_def)
  have "passed s' (bx_mark s')" using passed_later [OF later D(1)] by (simp add: s'_def)
  then show "ob_sound s'" using D g by (auto simp: ob_sound_def s'_def)
  show "ob_fits s' (GWorks es l)" "ob_fits s' (GWorks (e # es) l)" using g by (auto simp: s'_def)
qed

lemma delete_effect:
  fixes s :: ob_world and limit :: int
  assumes sound: "ob_sound s" and w: "passed s w"
  defines "s' \<equiv> snd (delete_consumed w limit s)"
  shows "ob_later s s'" and "ob_sound s'"
proof -
  note D = ob_soundD [OF sound]
  have s': "\<exists>P. s' = s\<lparr>bx_rows := filter (\<lambda>r. \<not> P (or_id r)) (bx_rows s)\<rparr> \<and> (\<forall>i. P i \<longrightarrow> i \<le> w)"
  proof (cases "w \<le> 0")
    case True
    then show ?thesis by (intro exI [of _ "\<lambda>_. False"]) (simp add: s'_def delete_consumed_def)
  next
    case False
    let ?d = "or_id ` set (doomed_rows w limit (bx_now s) (bx_rows s))"
    have "?d \<subseteq> {..w}" by (auto simp: doomed_rows_def limited_take dest: in_set_takeD)
    then show ?thesis using False by (intro exI [of _ "\<lambda>i. i \<in> ?d"]) (auto simp: s'_def delete_consumed_def Let_def)
  qed
  then obtain P where P: "s' = s\<lparr>bx_rows := filter (\<lambda>r. \<not> P (or_id r)) (bx_rows s)\<rparr>" "\<And>i. P i \<Longrightarrow> i \<le> w" by blast
  show later: "ob_later s s'" by (auto simp: ob_later_def P(1))
  have "i \<in> or_id ` set (bx_rows s') \<or> i \<in> set (bx_handled s) \<or> i \<in> set (bx_late s)" if "i \<in> set (bx_committed s)" for i
  proof (cases "P i")
    case True
    then show ?thesis using P(2) w that by (auto simp: passed_def)
  next
    case False
    then show ?thesis using D(4) that by (auto simp: P(1))
  qed
  moreover have "passed s' (bx_mark s')" using passed_later [OF later D(1)] by (simp add: P(1))
  moreover have "distinct (map or_id (bx_rows s'))" using D(2) by (simp add: P(1) distinct_map_filter)
  ultimately show "ob_sound s'" using D(3,5-8) by (auto simp: ob_sound_def P(1))
qed


lemma insert_effect:
  assumes inv: "ob_inv s gs" and i: "i < length gs" and g: "gs ! i = GDrew n"
  shows "ob_inv (insert_row n t ev s) (gs[i := GDone])"
proof -
  have sound: "ob_sound s" using inv by (simp add: ob_inv_def)
  note D = ob_soundD [OF sound]
  have drew: "n \<le> bx_seq s" "n \<notin> set (bx_committed s)" using inv g i nth_mem [OF i] unfolding ob_inv_def by (metis ob_fits.simps(4))+
  show ?thesis
  proof (cases "holder_of (ob_dedup ev) (bx_rows s)")
    case (Some r)
    then have r: "r \<in> set (bx_rows s)" "ob_dedup (or_event r) = ob_dedup ev" "ob_dedup ev \<noteq> None"
      by (auto simp: holder_of_def find_Some_iff split: if_splits)
    let ?s = "s\<lparr>bx_dropped := bx_dropped s @ [(or_id r, bx_handled s)]\<rparr>"
    have "or_id r \<in> set (bx_committed s)" "or_id r \<notin> set (bx_handled s)" using r D(3,7) by auto
    then have "ob_sound ?s" using sound by (auto simp: ob_sound_def passed_def)
    then have "ob_inv ?s (gs[i := GDone])" using i by (intro ob_update [OF inv]) (auto simp: ob_later_def)
    then show ?thesis using Some by (simp add: insert_row_def)
  next
    case None
    let ?row = "\<lparr>or_id = n, or_event = ev, or_created = t\<rparr>"
    let ?s = "s\<lparr>bx_rows := bx_rows s @ [?row], bx_committed := bx_committed s @ [n], bx_late := (if n \<le> bx_listed s then bx_late s @ [n] else bx_late s)\<rparr>"
    have pass: "passed ?s m" if "passed s m" for m using that by (auto simp: passed_def)
    have fresh: "n \<notin> set (bx_handled s)" "n \<notin> or_id ` set (bx_rows s)" using drew(2) D(3,6) by auto
    have "ob_sound ?s"
      using D drew fresh pass [OF D(1)] by (auto simp: ob_sound_def)
    moreover have "ob_fits ?s h" if h: "h \<in> set (gs[i := GDone])" for h
    proof -
      have old: "ob_fits s h" using h inv set_update_subset_insert [of gs i GDone] unfolding ob_inv_def by (metis insert_iff ob_fits.simps(6) subset_iff)
      show ?thesis
      proof (cases h)
        case (GWorks es l)
        then have "n \<notin> or_id ` set es" "l \<le> bx_listed s" using old drew(2) by auto
        then show ?thesis using old GWorks by auto
      next
        case (GDrew m)
        have "m \<noteq> n"
        proof
          assume "m = n"
          then obtain k where k: "k < length (gs[i := GDone])" "gs[i := GDone] ! k = GDrew n" using h GDrew by (metis in_set_conv_nth)
          then have "k \<noteq> i" "gs ! k = GDrew n" using i by (auto simp: nth_list_update split: if_splits)
          then show False using inv g i k(1) unfolding ob_inv_def drew_apart_def by auto
        qed
        then show ?thesis using old GDrew by simp
      qed (use old pass in auto)
    qed
    moreover have "drew_apart (gs[i := GDone])"
    proof -
      have "gs ! k = GDrew m" if "gs[i := GDone] ! k = GDrew m" for k m using that i by (cases "k = i") auto
      then show ?thesis using inv unfolding ob_inv_def drew_apart_def by simp
    qed
    ultimately have "ob_inv ?s (gs[i := GDone])" unfolding ob_inv_def by blast
    then show ?thesis using None by (simp add: insert_row_def)
  qed
qed

lemma draw_effect:
  assumes inv: "ob_inv s gs" and i: "i < length gs"
  shows "ob_inv (s\<lparr>bx_seq := bx_seq s + 1\<rparr>) (gs[i := GDrew (bx_seq s + 1)])"
proof -
  let ?n = "bx_seq s + 1" and ?s = "s\<lparr>bx_seq := bx_seq s + 1\<rparr>"
  have sound: "ob_sound s" and fits: "\<forall>g\<in>set gs. ob_fits s g" using inv by (simp_all add: ob_inv_def)
  note D = ob_soundD [OF sound]
  have later: "ob_later s ?s" by (auto simp: ob_later_def)
  have fresh: "?n \<notin> set (bx_committed s)" using D(5) by force
  have "ob_sound ?s" using sound by (auto simp: ob_sound_def passed_def)
  moreover have "ob_fits ?s h" if "h \<in> set (gs[i := GDrew ?n])" for h
    using that fits fits_later [OF later] fresh set_update_subset_insert [of gs i "GDrew ?n"] by auto
  moreover have "drew_apart (gs[i := GDrew ?n])"
    unfolding drew_apart_def
  proof (intro allI impI)
    fix j k m
    assume a: "j < length (gs[i := GDrew ?n])" "k < length (gs[i := GDrew ?n])" "gs[i := GDrew ?n] ! j = GDrew m" "gs[i := GDrew ?n] ! k = GDrew m"
    have old: "m \<le> bx_seq s" if "q < length gs" "gs ! q = GDrew m" for q m using that fits by (metis nth_mem ob_fits.simps(4))
    show "j = k"
    proof (cases "j = i \<or> k = i")
      case True
      then have "m = ?n" using a i by auto
      then show ?thesis using a i old [of j m] old [of k m] by (auto simp: nth_list_update split: if_splits)
    next
      case False
      then show ?thesis using a inv unfolding ob_inv_def drew_apart_def by simp
    qed
  qed
  ultimately show ?thesis unfolding ob_inv_def by blast
qed

lemma ob_step:
  assumes inv: "ob_inv s gs" and i: "i < length gs" and may: "ob_may c (gs ! i)" and out: "ob_exec c s = (x, s')"
  shows "ob_answer c (gs ! i) x \<and> ob_inv s' (gs[i := ob_upd c x (gs ! i)]) \<and> (ob_fault c \<noteq> None \<longrightarrow> ob_inv s' gs)"
proof -
  have sound: "ob_sound s" and fits: "ob_fits s (gs ! i)" using inv i by (simp_all add: ob_inv_def)
  have keep: "ob_later s t \<Longrightarrow> ob_sound t \<Longrightarrow> ob_inv t gs" for t
    using ob_update [OF inv i, of t "gs ! i"] fits_later [OF _ fits] by simp
  have move: "ob_later s t \<Longrightarrow> ob_sound t \<Longrightarrow> ob_fits t h \<Longrightarrow> (\<And>n. h \<noteq> GDrew n) \<Longrightarrow> ob_inv t (gs[i := h])" for t h
    using ob_update [OF inv i] by blast
  show ?thesis
  proof (cases c)
    case BMark
    then show ?thesis using out inv ob_soundD(1) [OF sound] ob_idle [OF inv i, of "GMarked (bx_mark s)"] by auto
  next
    case (BList w limit)
    then have "passed s w" using may fits by simp
    note eff = list_effect [OF sound this refl, of limit]
    show ?thesis using BList out keep [OF eff(1,2)] move [OF eff(1,2) eff(3)] by (auto simp: Let_def)
  next
    case (BHandle e)
    then obtain es l where g: "gs ! i = GWorks (e # es) l" using may by auto
    note eff = handle_effect [OF sound fits [unfolded g]]
    show ?thesis using BHandle out g keep [OF eff(1,2)] move [OF eff(1,2,3)] by auto
  next
    case (BSetMark m)
    then have p: "passed s m" using may fits by (auto simp: passed_def)
    let ?s = "s\<lparr>bx_mark := m\<rparr>"
    have "ob_later s ?s" "ob_sound ?s" using sound p by (auto simp: ob_later_def ob_sound_def passed_def)
    then show ?thesis using BSetMark out p keep [of ?s] move [of ?s "GClean m"] by (auto simp: passed_def)
  next
    case BLock
    let ?s = "s\<lparr>bx_locked := True\<rparr>"
    have "ob_later s ?s" "ob_sound ?s" using sound by (auto simp: ob_later_def ob_sound_def passed_def)
    then show ?thesis using BLock out keep [of ?s] by auto
  next
    case (BDelete w limit)
    then have "passed s w" using may fits by simp
    note eff = delete_effect [OF sound this, of limit]
    show ?thesis using BDelete out keep [OF eff] by auto
  next
    case BRelease
    let ?s = "s\<lparr>bx_locked := False\<rparr>"
    have "ob_later s ?s" "ob_sound ?s" using sound by (auto simp: ob_later_def ob_sound_def passed_def)
    then show ?thesis using BRelease out keep [of ?s] by auto
  next
    case BDraw
    then show ?thesis using out draw_effect [OF inv i] by auto
  next
    case (BInsert n t ev)
    then show ?thesis using out may insert_effect [OF inv i] by auto
  qed
qed

interpretation outbox: discipline ob_server ob_may ob_answer ob_upd "\<lambda>c g. g" ob_inv
proof unfold_locales
  fix s gs i c x s'
  assume a: "ob_inv s gs" "i < length gs" "ob_may c (gs ! i)" "sv_exec ob_server c s = Some (x, s')"
  then show "ob_answer c (gs ! i) x" "ob_inv s' (gs[i := ob_upd c x (gs ! i)])"
    using ob_step [OF a(1-3), of x s'] by (simp_all add: ob_server_def)
  assume "sv_fault ob_server c \<noteq> None"
  then show "ob_inv s' (gs[i := gs ! i])" using ob_step [OF a(1-3), of x s'] a(4) by (simp add: ob_server_def)
next
  fix s gs i c x
  assume a: "ob_inv s gs" "i < length gs" "ob_may c (gs ! i)" "sv_fault ob_server c = Some x"
  then have "x = BErr" "c \<noteq> BDraw" "\<forall>n t ev. c \<noteq> BInsert n t ev" by (cases c; simp add: ob_server_def)+
  then have "ob_answer c (gs ! i) x" "ob_upd c x (gs ! i) = gs ! i" by (cases c; simp)+
  then show "ob_answer c (gs ! i) x \<and> ob_inv s (gs[i := ob_upd c x (gs ! i)])" using a(1) by simp
next
  fix s gs d
  assume "ob_inv s gs"
  moreover have "passed (s\<lparr>bx_now := t\<rparr>) m = passed s m" for t m by (simp add: passed_def)
  moreover have "ob_fits (s\<lparr>bx_now := t\<rparr>) g = ob_fits s g" for t g by (cases g) (simp_all add: passed_def)
  ultimately show "ob_inv (sv_pass ob_server d s) gs" by (simp add: ob_inv_def ob_sound_def ob_server_def)
qed simp_all

end
