(* ===== verification/Sched_Outbox_Props.thy ===== *)
theory Sched_Outbox_Props
  imports Sched_Outbox_Safe
begin

text \<open>The properties of the outbox for any number of workers and transactions side by side.\<close>

section \<open>The programs keep to the protocol\<close>

definition ob_outcome :: "poll_result \<Rightarrow> ob_ghost \<Rightarrow> bool" where
  "ob_outcome r g \<longleftrightarrow> (\<forall>w. r = PollAdvanced w \<longrightarrow> g = GClean w)"


lemma outcome_simps [simp]: "ob_outcome PollFailed g" "ob_outcome PollEmpty g" "ob_outcome (PollAdvanced w) g \<longleftrightarrow> g = GClean w"
  by (auto simp: ob_outcome_def)








section \<open>Concrete runs\<close>

definition ob_demo_event :: "int64 \<Rightarrow> outbox_event" where
  "ob_demo_event a = \<lparr>ob_type = event_account_changed, ob_account = Some a, ob_group = None, ob_accounts = None, ob_dedup = Some (itoa a)\<rparr>"

definition ob_demo_clients :: "ob_client list" where
  "ob_demo_clients = [Enqueuer (ob_demo_event 7), Enqueuer (ob_demo_event 8), Poller 1, Enqueuer (ob_demo_event 9), Poller 1, Enqueuer (ob_demo_event 7)]"

text \<open>The first transaction draws 1 and commits after 2 has been listed: its row is never listed, keeps its key and is deleted.\<close>

definition ob_demo_events :: "event list" where
  "ob_demo_events = [Exec 0, Exec 1, Exec 1, Exec 2, Exec 2, Exec 2, Exec 2, Exec 2, Exec 2, Exec 2, Exec 0, Exec 5, Exec 5, Pass 11000000000, Exec 3, Exec 3,
     Exec 4, Exec 4, Exec 4, Exec 4, Exec 4, Exec 4, Exec 4]"

definition ob_demo :: "ob_world \<times> poll_prog list" where
  "ob_demo = conc_run ob_server ob_demo_events (ob_start 0, map client_prog ob_demo_clients)"

lemma ob_demo_runs: "bx_committed (fst ob_demo) = [2, 1, 4] \<and> bx_handled (fst ob_demo) = [2, 4] \<and> bx_mark (fst ob_demo) = 4 \<and> bx_late (fst ob_demo) = [1] \<and>
    map or_id (bx_rows (fst ob_demo)) = [4] \<and> map fst (bx_dropped (fst ob_demo)) = [1]"
  by code_simp


text \<open>
Claim C22: an event that commits late can be lost for good: it is never handled, its key meanwhile keeps a second event
of the same account out, and ten seconds later the cleanup deletes it.
\<close>

theorem late_event_lost:
  "\<exists>cs es s ts i hs. conc_run ob_server es (ob_start 0, map client_prog cs) = (s, ts) \<and> i \<in> set (bx_committed s) \<and> i \<notin> set (bx_handled s) \<and>
     i \<notin> or_id ` set (bx_rows s) \<and> (i, hs) \<in> set (bx_dropped s) \<and> i < bx_mark s"
proof -
  have run: "conc_run ob_server ob_demo_events (ob_start 0, map client_prog ob_demo_clients) = (fst ob_demo, snd ob_demo)"
    by (simp only: ob_demo_def [symmetric] prod.collapse)
  obtain hs where "(1, hs) \<in> set (bx_dropped (fst ob_demo))"
    using ob_demo_runs by (metis (no_types, lifting) list.set_intros(1) imageE list.set_map prod.collapse)
  moreover have "1 \<notin> or_id ` set (bx_rows (fst ob_demo))"
    unfolding list.set_map [symmetric] using ob_demo_runs by simp
  moreover have "1 \<in> set (bx_committed (fst ob_demo))" "1 \<notin> set (bx_handled (fst ob_demo))" "1 < bx_mark (fst ob_demo)" using ob_demo_runs by simp_all
  ultimately show ?thesis using run by blast
qed

end
