(* ===== verification/Spec2Isabelle.thy ===== *)
theory Spec2Isabelle
  imports Idem_Props System_Lock VC_Props VC_Spend_Props VC_Hold_Props VC_Sweep_Props VC_Recon_Props VC_Read_Props Auth_Props Circuit_Props Transient_Props
    Keyword_Props Proxy_Props Sched_Cache_Props Sched_Coalesce Sched_Lag Sched_Outbox_Props
begin

text \<open>
  S2AX is a gateway that sells access to upstream AI accounts. This development models the parts of its Go backend
  (\<open>src/backend/internal\<close>) that keep state other parts rely on: the idempotency of requests and the lock of system
  operations, the double-entry virtual currency, the in-memory limiters that guard the gateway, the keyword
  matcher of content moderation, the outbound proxies with their fallback, and the Redis cache of account
  snapshots from which the scheduler picks accounts. File names below are relative to \<open>backend/internal\<close>.

  \<^bold>\<open>The parts and how they interact.\<close>
  A request that must run once goes through the idempotency coordinator, which claims a row of the idempotency
  table; the lock of system operations is one such row with a fixed key. The virtual currency keeps wallets,
  holds, a ledger and balanced journals in one database; a cleanup job sweeps its expired holds. The limiter of
  failed authentications, the circuit of outbound proxies and the failure streaks of account models are maps in
  memory that evict. The sweep of expired proxies sends the accounts of a proxy to its fallback and announces every
  change in the scheduler's outbox. The scheduler's cache holds, for each bucket of accounts, a versioned snapshot that
  any number of processes write and read at the same time.

  \<^bold>\<open>Shared theories.\<close>
  \<open>Go_Prelude\<close>: 64-bit integers with their wrap-around, instants and durations, byte strings and the functions of
  \<open>strings\<close> and \<open>strconv\<close>, association lists for maps. \<open>Go_Errors\<close>: \<open>pkg/errors\<close>. \<open>Sql_Table\<close>, \<open>Sql_Values\<close>: a
  relational table with a serial key, the driver's errors and column types. \<open>Client_Program\<close>: programs that issue
  atomic commands to a server, their interleavings with lost, repeated and failing commands, and the locale
  \<open>discipline\<close>. \<open>Evicting\<close>: the locale of the bounded maps.

  \<^bold>\<open>Theories, code and lemmas.\<close>

  \<^item> Idempotency: \<open>Idem_Store\<close> (the record of \<open>service/idempotency.go\<close>, \<open>repository/idempotency_repo.go\<close>; each method of
    the repository one function of the table), \<open>Idem_Coordinator\<close> (\<open>Execute\<close> with its claim, the renewal of the
    lease, the executor, metrics and cleanup), \<open>Idem_Correct\<close> (the locale \<open>idem_store\<close> and the abstract claim
    \<open>claim_view\<close>), \<open>Idem_Props\<close>. \<open>System_Lock\<close>: \<open>service/system_operation_lock_service.go\<close> over the store. Proved: Execute
    refines the claim read off the row, an executor runs at most once while its lease lives, a store that fails runs
    nothing, a failed request can be retried, exclusion and release of the lock.

  \<^item> Virtual currency: \<open>VC_Types\<close> (tables of migrations 182, 183 and 186), \<open>VC_Repo\<close>, \<open>VC_Ledger\<close>, \<open>VC_Queries\<close>
    (\<open>repository/virtual_currency_repo.go\<close>), \<open>VC_Service\<close> (\<open>service/virtual_currency.go\<close>). \<open>VC_Invariant\<close> states the invariant of
    the books; \<open>VC_Preserve\<close>, \<open>VC_Holds\<close>, \<open>VC_Totals\<close>, \<open>VC_System\<close> show that every request keeps it; \<open>VC_Evolve\<close>, \<open>VC_Life\<close>
    that the ledger only grows and a hold is settled once; \<open>VC_Exact\<close>, \<open>VC_Laws\<close>, \<open>VC_Hold_Laws\<close>, \<open>VC_Hold_Effects\<close>,
    \<open>VC_Sweep\<close> give the result of each request; the \<open>_Props\<close> theories and \<open>VC_Demo\<close> hold the properties and a concrete
    history.

  \<^item> Limiters: \<open>Auth_Abuse\<close>, \<open>Auth_Laws\<close>, \<open>Auth_Props\<close> (\<open>service/invalid_auth_abuse_limiter.go\<close>); \<open>Proxy_Circuit\<close>,
    \<open>Circuit_Props\<close> (\<open>service/openai_proxy_stream_circuit.go\<close>); \<open>Model_Transient\<close>, \<open>Transient_Props\<close>
    (\<open>service/openai_account_model_transient.go\<close>). Proved: each answers as one small machine per key does, whatever the
    other keys do and whatever is evicted, and never grows past its bound.

  \<^item> Keyword matcher: \<open>Keyword_Matcher\<close> (\<open>service/content_moderation_keyword_matcher.go\<close>), \<open>Keyword_Trie\<close>, \<open>Keyword_Failure\<close>,
    \<open>Keyword_Props\<close>: the packed automaton answers as a search for every keyword does.

  \<^item> Proxies: \<open>Proxy_Fallback\<close> (\<open>service/proxy.go\<close>, \<open>service/proxy_fallback.go\<close>), \<open>Proxy_Repo\<close> (\<open>repository/proxy_repo.go\<close>, the
    outbox statements of \<open>repository/scheduler_outbox_repo.go\<close> and \<open>RevertProxyFallback\<close>), \<open>Proxy_Admin\<close> (\<open>service/admin_proxy.go\<close>),
    \<open>Proxy_Laws\<close>, \<open>Proxy_Invariant\<close>, \<open>Proxy_Props\<close>: the search for a fallback ends, the sweep equals one pass
    over a snapshot and never sends an account to an unusable proxy, changes are announced.

  \<^item> Scheduler cache: \<open>Sched_Keys\<close> (buckets, tokens, leases and key texts of \<open>service/scheduler_cache.go\<close>), \<open>Sched_Account\<close> (the
    metadata projection), \<open>Sched_Redis\<close> (the Lua scripts), \<open>Sched_Cache\<close> (the methods of \<open>repository/scheduler_cache.go\<close>, each
    a program). \<open>Sched_View\<close> and \<open>Sched_Effects\<close> reduce a script to its effect on the view of one bucket;
    \<open>Sched_Protocol\<close> and \<open>Sched_Safe\<close> give every reader and writer a ghost state and interpret \<open>discipline\<close>; \<open>Sched_Ops\<close>
    shows that each method keeps to the protocol; \<open>Sched_Fence\<close> and \<open>Sched_Stale\<close> follow versions and old tokens;
    \<open>Sched_Cache_Props\<close> has the properties: readers see whole snapshots, versions never go back, writers of a
    retired epoch fail.

  \<^bold>\<open>Parameters.\<close> SHA-256 and hexadecimal digests, whether and how a value is encoded as JSON, the redaction of log
  fields, \<open>strings.ToLower\<close>, the order in which a Go map is visited, the order in which the database lists
  rows, random owner tokens, clock readings, and the day arithmetic of PostgreSQL are arguments of the
  definitions. Where a property needs one of them to be injective or to keep lengths, the property
  says so, and its witness instantiates it.

  \<^bold>\<open>Assumptions.\<close> Instants are whole microseconds in the database and nanoseconds in memory. A transaction runs
  alone on the rows it locks; statements fail as a list of outcomes in the state says, and a failed transaction is
  rolled back. Sequences leave no gaps, since no property depends on them. The operations of the in-memory
  limiters are atomic, as their mutexes make them. Redis runs a command or a script atomically with its
  documented meaning; a command whose reply is lost may be sent again; the client retries single commands, not
  whole pipelines. Under the keys of the scripts there are only decimal numerals, which is
  what the scripts write; numbers beyond \<open>2^53\<close>, where Lua rounds, are not reached.

  \<^bold>\<open>Bounds and fuel.\<close> The loops of the keyword matcher carry fuel bounded by the number of nodes or bytes, and its
  lemmas show that the fuel is never used up (\<open>chain_fuel\<close>, \<open>bfs_ok\<close>). The sweep of holds runs at most as many rounds as there are clock
  readings. The search for a proxy fallback is a \<open>partial_function\<close>, and \<open>fallback_terminates\<close> shows that it
  returns. Every other recursion is structural or has a termination proof.

  \<^bold>\<open>Not modelled.\<close> Generated ORM code, HTTP handlers and wiring, the frontend, network calls to providers, log text,
  metrics exporters, payment providers, the translation between provider protocols and the forwarding of
  requests: they are input and output around the modelled parts or rest on services whose code is not here.
  Within the modelled parts: listings that only filter and sort for display, background tickers (they are lists of
  clock readings), and the back-fill statements of the migrations.
\<close>

end
